(* ===== verification/Py_Base.thy ===== *)
theory Py_Base
  imports Main "HOL-Library.AList" "HOL-Library.Char_ord" "HOL-Library.List_Lexorder"
begin

text \<open>
  The prelude of the development: what the components use of Python itself.

  \<^item> Exceptions as values: an operation that can raise returns \<open>exn + 'a\<close>.
  \<^item> Dictionaries as association lists in insertion order (\<open>AList.update\<close> keeps the
    position of an existing key and appends a new one, which is what \<open>d[k] = v\<close> does).
  \<^item> Slices \<open>xs[i:j]\<close> with Python's treatment of negative and out-of-range bounds.
\<close>

section \<open>Collections of facts and exceptions\<close>

named_theorems py_simps \<open>unfolding rules for the definitions that model Python operations\<close>

datatype exn =
    KeyError string
  | ValueError string
  | TypeError string
  | OverflowError string
  | AttributeError string
  | FilterError string

type_synonym 'a result = "exn + 'a"

text \<open>A loop of steps each of which may raise: it stops at the first exception.\<close>

fun foldE :: "('s \<Rightarrow> 'x \<Rightarrow> 's result) \<Rightarrow> 'x list \<Rightarrow> 's \<Rightarrow> 's result" where
  "foldE f [] s = Inr s"
| "foldE f (x # xs) s = (case f s x of Inl e \<Rightarrow> Inl e | Inr s' \<Rightarrow> foldE f xs s')"

section \<open>Dictionaries\<close>

type_synonym ('k, 'v) dict = "('k \<times> 'v) list"

abbreviation dict_keys :: "('k, 'v) dict \<Rightarrow> 'k list" where
  "dict_keys d \<equiv> map fst d"

abbreviation dict_values :: "('k, 'v) dict \<Rightarrow> 'v list" where
  "dict_values d \<equiv> map snd d"

text \<open>A dictionary holds one entry per key.\<close>

abbreviation wf_dict :: "('k, 'v) dict \<Rightarrow> bool" where
  "wf_dict d \<equiv> distinct (map fst d)"

lemma update_fresh: "k \<notin> fst ` set d \<Longrightarrow> AList.update k v d = d @ [(k, v)]"
  by (induction d) auto

lemma length_update:
  "length (AList.update k v d) = (if k \<in> fst ` set d then length d else Suc (length d))"
  by (induction d) auto

lemma keys_update:
  "dict_keys (AList.update k v d) = (if k \<in> fst ` set d then dict_keys d else dict_keys d @ [k])"
  by (induction d) auto

lemma keys_delete: "dict_keys (AList.delete k d) = filter (\<lambda>x. x \<noteq> k) (dict_keys d)"
  by (induction d) auto

lemma wf_dict_update [simp]: "wf_dict d \<Longrightarrow> wf_dict (AList.update k v d)"
  by (auto simp: keys_update)

lemma wf_dict_delete [simp]: "wf_dict d \<Longrightarrow> wf_dict (AList.delete k d)"
  by (simp add: keys_delete)

lemma length_delete_le: "length (AList.delete k d) \<le> length d"
  by (simp add: AList.delete_eq)

lemma map_of_delete [simp]:
  "map_of (AList.delete k d) i = (if i = k then None else map_of d i)"
  by (simp add: AList.delete_conv)

lemma map_of_update [simp]:
  "map_of (AList.update k v d) i = (if i = k then Some v else map_of d i)"
  by (simp add: AList.update_conv)

lemma delete_absent: "k \<notin> fst ` set d \<Longrightarrow> AList.delete k d = d"
  by (induction d) auto

lemma length_delete_present:
  "wf_dict d \<Longrightarrow> k \<in> fst ` set d \<Longrightarrow> Suc (length (AList.delete k d)) = length d"
proof (induction d)
  case Nil
  then show ?case by simp
next
  case (Cons p d)
  then show ?case by (cases "fst p = k") (auto simp: delete_absent)
qed

lemma map_of_eq_None_keys: "map_of d k = None \<longleftrightarrow> k \<notin> fst ` set d"
  by (rule map_of_eq_None_iff)

lemma fst_set_update [simp]:
  "fst ` set (AList.update k v d) = insert k (fst ` set d)"
  by (induction d) auto

lemma fst_set_delete [simp]:
  "fst ` set (AList.delete k d) = fst ` set d - {k}"
  by (simp add: AList.delete_eq) force

section \<open>First occurrences\<close>

text \<open>The elements of a list in the order of their first occurrences.\<close>

definition first_occurrences :: "'a list \<Rightarrow> 'a list" where
  "first_occurrences xs = rev (remdups (rev xs))"

lemma first_occurrences_snoc:
  "first_occurrences (xs @ [x]) =
     (if x \<in> set xs then first_occurrences xs else first_occurrences xs @ [x])"
  by (simp add: first_occurrences_def)

lemma set_first_occurrences [simp]: "set (first_occurrences xs) = set xs"
  by (simp add: first_occurrences_def)

lemma distinct_first_occurrences [simp]: "distinct (first_occurrences xs)"
  by (simp add: first_occurrences_def)

section \<open>Prefixes\<close>

lemma take_take_append: "take n (xs @ take n ys) = take n (xs @ ys)"
  by (simp add: min_absorb1)

section \<open>Slices\<close>

text \<open>
  \<open>xs[i:j]\<close>: a negative bound counts from the end, and both are then clamped to the
  length of the list.
\<close>

definition slice_index :: "nat \<Rightarrow> int \<Rightarrow> nat" where
  "slice_index n i = (if i < 0 then nat (int n + i) else min n (nat i))"

definition py_slice :: "'a list \<Rightarrow> int \<Rightarrow> int \<Rightarrow> 'a list" where
  "py_slice xs i j =
     (let a = slice_index (length xs) i; b = slice_index (length xs) j
      in take (b - a) (drop a xs))"

text \<open>\<open>xs[i:]\<close>.\<close>

definition py_slice_from :: "'a list \<Rightarrow> int \<Rightarrow> 'a list" where
  "py_slice_from xs i = drop (slice_index (length xs) i) xs"

lemma take_min_length: "take (min (length xs) n - m) (drop m xs) = take (n - m) (drop m xs)"
  by (metis length_drop min.commute min_diff take_all_iff take_take linorder_linear)

lemma py_slice_nat: "py_slice xs (int i) (int j) = take (j - i) (drop i xs)"
proof (cases "i \<le> length xs")
  case True
  then show ?thesis
    by (simp add: py_slice_def slice_index_def take_min_length)
next
  case False
  then show ?thesis by (simp add: py_slice_def slice_index_def)
qed

lemma py_slice_window: "0 \<le> l \<Longrightarrow> py_slice xs (int i) (int i + l) = take (nat l) (drop i xs)"
  using py_slice_nat [of xs i "i + nat l"] by simp

lemma length_py_slice_le: "length (py_slice xs i j) \<le> length xs"
  by (simp add: py_slice_def Let_def)

end
