(* ===== verification/Py_Str.thy ===== *)
theory Py_Str
  imports Py_Base
begin

text \<open>
  The string methods the sources call, \<open>int(s)\<close> and \<open>str(n)\<close>. Each definition is
  executable, so that the witnesses of the components evaluate by simplification.

  A text is the sequence of its UTF-8 bytes. The classes of characters, the changes of case and the reading of digits are those of
  ASCII; bytes above are left as they are, where Python also knows the other letters, digits and blanks of
  Unicode. The names, options, enumerations and keys the sources compare this way are ASCII.
\<close>

section \<open>Character classes\<close>

abbreviation code :: "char \<Rightarrow> nat" where
  "code c \<equiv> of_char c"

definition is_space :: "char \<Rightarrow> bool" where
  "is_space c \<longleftrightarrow> 9 \<le> code c \<and> code c \<le> 13 \<or> 28 \<le> code c \<and> code c \<le> 32"

definition is_digit :: "char \<Rightarrow> bool" where
  "is_digit c \<longleftrightarrow> 48 \<le> code c \<and> code c \<le> 57"

definition is_upper :: "char \<Rightarrow> bool" where
  "is_upper c \<longleftrightarrow> 65 \<le> code c \<and> code c \<le> 90"

definition is_lower :: "char \<Rightarrow> bool" where
  "is_lower c \<longleftrightarrow> 97 \<le> code c \<and> code c \<le> 122"

text \<open>The class \<open>[A-Za-z_]\<close> and the class \<open>\w\<close> of the regular expressions.\<close>

definition is_ident_start :: "char \<Rightarrow> bool" where
  "is_ident_start c \<longleftrightarrow> is_upper c \<or> is_lower c \<or> c = CHR ''_''"

definition is_word_char :: "char \<Rightarrow> bool" where
  "is_word_char c \<longleftrightarrow> is_ident_start c \<or> is_digit c"

definition lower_char :: "char \<Rightarrow> char" where
  "lower_char c = (if is_upper c then char_of (code c + 32) else c)"

definition upper_char :: "char \<Rightarrow> char" where
  "upper_char c = (if is_lower c then char_of (code c - 32) else c)"

lemmas char_class_defs = is_space_def is_digit_def is_upper_def is_lower_def
  is_ident_start_def is_word_char_def lower_char_def upper_char_def

section \<open>String methods\<close>

definition lower :: "string \<Rightarrow> string" where
  "lower s = map lower_char s"

definition upper :: "string \<Rightarrow> string" where
  "upper s = map upper_char s"

definition lstrip :: "string \<Rightarrow> string" where
  "lstrip s = dropWhile is_space s"

definition rstrip :: "string \<Rightarrow> string" where
  "rstrip s = rev (dropWhile is_space (rev s))"

definition strip :: "string \<Rightarrow> string" where
  "strip s = rstrip (lstrip s)"

text \<open>\<open>s.strip(chars)\<close>, \<open>s.lstrip(chars)\<close> and \<open>s.rstrip(chars)\<close>.\<close>

definition lstrip_chars :: "string \<Rightarrow> string \<Rightarrow> string" where
  "lstrip_chars cs s = dropWhile (\<lambda>c. c \<in> set cs) s"

definition rstrip_chars :: "string \<Rightarrow> string \<Rightarrow> string" where
  "rstrip_chars cs s = rev (dropWhile (\<lambda>c. c \<in> set cs) (rev s))"

definition strip_chars :: "string \<Rightarrow> string \<Rightarrow> string" where
  "strip_chars cs s = rstrip_chars cs (lstrip_chars cs s)"

definition startswith :: "string \<Rightarrow> string \<Rightarrow> bool" where
  "startswith s p \<longleftrightarrow> take (length p) s = p"

definition endswith :: "string \<Rightarrow> string \<Rightarrow> bool" where
  "endswith s p \<longleftrightarrow> length p \<le> length s \<and> drop (length s - length p) s = p"

text \<open>\<open>sub in s\<close>.\<close>

fun str_in :: "string \<Rightarrow> string \<Rightarrow> bool" where
  "str_in sub [] = (sub = [])"
| "str_in sub (c # cs) = (startswith (c # cs) sub \<or> str_in sub cs)"

fun split_by :: "(char \<Rightarrow> bool) \<Rightarrow> string \<Rightarrow> string list" where
  "split_by P [] = [[]]"
| "split_by P (c # cs) =
     (if P c then [] # split_by P cs
      else (case split_by P cs of [] \<Rightarrow> [[c]] | w # ws \<Rightarrow> (c # w) # ws))"

text \<open>\<open>s.split(d)\<close> for a one-character separator, and \<open>s.split()\<close>.\<close>

definition split_on :: "char \<Rightarrow> string \<Rightarrow> string list" where
  "split_on d s = split_by (\<lambda>c. c = d) s"

definition split_ws :: "string \<Rightarrow> string list" where
  "split_ws s = filter (\<lambda>w. w \<noteq> []) (split_by is_space s)"

fun join :: "string \<Rightarrow> string list \<Rightarrow> string" where
  "join sep [] = []"
| "join sep [w] = w"
| "join sep (w # ws) = w @ sep @ join sep ws"

text \<open>\<open>s.partition(d)\<close> and \<open>s.rpartition(d)\<close>: head, separator (empty when absent), tail.\<close>

definition partition_on :: "char \<Rightarrow> string \<Rightarrow> string \<times> string \<times> string" where
  "partition_on d s =
     (if d \<in> set s
      then (takeWhile (\<lambda>c. c \<noteq> d) s, [d], tl (dropWhile (\<lambda>c. c \<noteq> d) s))
      else (s, [], []))"

definition rpartition_on :: "char \<Rightarrow> string \<Rightarrow> string \<times> string \<times> string" where
  "rpartition_on d s =
     (if d \<in> set s
      then (rev (tl (dropWhile (\<lambda>c. c \<noteq> d) (rev s))), [d], rev (takeWhile (\<lambda>c. c \<noteq> d) (rev s)))
      else ([], [], s))"

text \<open>\<open>s.replace(old, new)\<close> for a non-empty \<open>old\<close>, left to right without overlap.\<close>

function replace_str :: "string \<Rightarrow> string \<Rightarrow> string \<Rightarrow> string" where
  "replace_str old new [] = []"
| "replace_str old new (c # cs) =
     (if old \<noteq> [] \<and> startswith (c # cs) old
      then new @ replace_str old new (drop (length old) (c # cs))
      else c # replace_str old new cs)"
  by pat_completeness auto
termination
  by (relation "measure (\<lambda>(old, new, s). length s)") auto

section \<open>Facts about the string methods\<close>

lemma startswith_append [simp]: "startswith (p @ s) p"
  by (simp add: startswith_def)

lemma startswith_Nil [simp]: "startswith s []"
  by (simp add: startswith_def)

lemma startswith_obtain: "startswith s p \<Longrightarrow> \<exists>r. s = p @ r"
  by (metis startswith_def append_take_drop_id)

lemma str_in_Nil [simp]: "str_in [] s"
  by (cases s) simp_all

lemma str_in_iff: "str_in sub s \<longleftrightarrow> (\<exists>u v. s = u @ sub @ v)"
proof (induction s)
  case Nil
  then show ?case by auto
next
  case (Cons c cs)
  show ?case
  proof
    assume "str_in sub (c # cs)"
    then consider "startswith (c # cs) sub" | "str_in sub cs" by auto
    then show "\<exists>u v. c # cs = u @ sub @ v"
    proof cases
      case 1
      then show ?thesis by (metis append_Nil startswith_obtain)
    next
      case 2
      then show ?thesis using Cons.IH by (metis append_Cons)
    qed
  next
    assume "\<exists>u v. c # cs = u @ sub @ v"
    then obtain u v where uv: "c # cs = u @ sub @ v" by blast
    show "str_in sub (c # cs)"
    proof (cases u)
      case Nil
      then have "startswith (c # cs) sub" using uv startswith_append [of sub v] by simp
      then show ?thesis by simp
    next
      case (Cons x xs)
      then show ?thesis using uv Cons.IH by auto
    qed
  qed
qed

lemma split_by_neq_Nil [simp]: "split_by P s \<noteq> []"
  by (induction s) (auto split: list.splits)

lemma join_Cons: "ws \<noteq> [] \<Longrightarrow> join sep (w # ws) = w @ sep @ join sep ws"
  by (cases ws) auto

text \<open>Joining the parts of a split on a character gives the string back.\<close>

lemma join_split_on: "join [d] (split_on d s) = s"
proof (induction s)
  case Nil
  then show ?case by (simp add: split_on_def)
next
  case (Cons c cs)
  show ?case
  proof (cases "c = d")
    case True
    then show ?thesis using Cons.IH by (simp add: split_on_def join_Cons)
  next
    case False
    obtain w ws where ws: "split_by (\<lambda>c. c = d) cs = w # ws"
      by (metis list.exhaust split_by_neq_Nil)
    then show ?thesis
      using False Cons.IH by (cases ws) (auto simp: split_on_def)
  qed
qed

lemma strip_no_space:
  "s = [] \<or> \<not> is_space (hd s) \<and> \<not> is_space (last s) \<Longrightarrow> strip s = s"
proof (cases s)
  case Nil
  then show ?thesis by (simp add: strip_def rstrip_def lstrip_def)
next
  case (Cons c cs)
  assume "s = [] \<or> \<not> is_space (hd s) \<and> \<not> is_space (last s)"
  then have ends: "\<not> is_space (hd s)" "\<not> is_space (last s)" using Cons by auto
  have "dropWhile is_space s = s" using ends(1) Cons by simp
  moreover have "dropWhile is_space (rev s) = rev s"
    using ends(2) Cons by (metis dropWhile_eq_self_iff hd_rev list.distinct(1))
  ultimately show ?thesis by (simp add: strip_def rstrip_def lstrip_def)
qed

section \<open>Numbers as text\<close>

definition digit_char :: "nat \<Rightarrow> char" where
  "digit_char d = char_of (48 + d)"

definition digit_val :: "char \<Rightarrow> nat" where
  "digit_val c = code c - 48"

fun str_of_nat :: "nat \<Rightarrow> string" where
  "str_of_nat n =
     (if n < 10 then [digit_char n] else str_of_nat (n div 10) @ [digit_char (n mod 10)])"

declare str_of_nat.simps [simp del]

definition str_of_int :: "int \<Rightarrow> string" where
  "str_of_int i = (if i < 0 then CHR ''-'' # str_of_nat (nat (- i)) else str_of_nat (nat i))"

definition nat_of_digits :: "string \<Rightarrow> nat" where
  "nat_of_digits s = foldl (\<lambda>a c. 10 * a + digit_val c) 0 s"

definition int_of_digits :: "string \<Rightarrow> int" where
  "int_of_digits s = foldl (\<lambda>a c. 10 * a + int (digit_val c)) 0 s"

text \<open>An underscore is accepted between two digits and nowhere else.\<close>

fun drop_underscores :: "bool \<Rightarrow> string \<Rightarrow> string option" where
  "drop_underscores p [] = Some []"
| "drop_underscores p (c # cs) =
     (if c = CHR ''_''
      then (case cs of
              [] \<Rightarrow> None
            | x # xs \<Rightarrow> (if p \<and> is_digit x then drop_underscores False cs else None))
      else map_option (Cons c) (drop_underscores (is_digit c) cs))"

definition split_sign :: "string \<Rightarrow> bool \<times> string" where
  "split_sign s =
     (case s of
        [] \<Rightarrow> (False, [])
      | c # cs \<Rightarrow> (if c = CHR ''-'' then (True, cs) else if c = CHR ''+'' then (False, cs) else (False, s)))"

text \<open>
  \<open>int(s)\<close>: surrounding white space, a sign, decimal digits with single underscores
  between them; \<open>None\<close> is \<open>ValueError\<close>. CPython refuses more than 4300 digits.
\<close>

definition max_int_digits :: nat where
  "max_int_digits = 4300"

definition int_of_str :: "string \<Rightarrow> int option" where
  "int_of_str s =
     (let (neg, body) = split_sign (strip s)
      in (case drop_underscores False body of
            None \<Rightarrow> None
          | Some ds \<Rightarrow>
              (if ds \<noteq> [] \<and> list_all is_digit ds \<and> length ds \<le> max_int_digits
               then Some (if neg then - int_of_digits ds else int_of_digits ds)
               else None)))"

text \<open>\<open>s.isdigit()\<close>.\<close>

definition isdigit :: "string \<Rightarrow> bool" where
  "isdigit s \<longleftrightarrow> s \<noteq> [] \<and> list_all is_digit s"

lemma int_of_digits_eq: "int_of_digits s = int (nat_of_digits s)"
proof -
  have "foldl (\<lambda>a c. 10 * a + int (digit_val c)) (int n) s =
        int (foldl (\<lambda>a c. 10 * a + digit_val c) n s)" for n
  proof (induction s arbitrary: n)
    case (Cons c s)
    then show ?case using Cons.IH [of "10 * n + digit_val c"] by simp
  qed simp
  from this [of 0] show ?thesis by (simp add: int_of_digits_def nat_of_digits_def)
qed

lemma code_digit_char: "d < 10 \<Longrightarrow> code (digit_char d) = 48 + d"
  by (simp add: digit_char_def)

lemma is_digit_digit_char [simp]: "d < 10 \<Longrightarrow> is_digit (digit_char d)"
  by (simp add: is_digit_def code_digit_char)

lemma digit_val_digit_char [simp]: "d < 10 \<Longrightarrow> digit_val (digit_char d) = d"
  by (simp add: digit_val_def code_digit_char)

lemma str_of_nat_neq_Nil [simp]: "str_of_nat n \<noteq> []"
  by (subst str_of_nat.simps) simp

lemma str_of_nat_digits: "list_all is_digit (str_of_nat n)"
proof (induction n rule: str_of_nat.induct)
  case (1 n)
  then show ?case by (subst str_of_nat.simps) simp
qed

lemma nat_of_digits_snoc: "nat_of_digits (s @ [c]) = 10 * nat_of_digits s + digit_val c"
  by (simp add: nat_of_digits_def)

lemma nat_of_digits_str_of_nat [simp]: "nat_of_digits (str_of_nat n) = n"
proof (induction n rule: str_of_nat.induct)
  case (1 n)
  show ?case
  proof (cases "n < 10")
    case True
    then show ?thesis by (subst str_of_nat.simps) (simp add: nat_of_digits_def)
  next
    case False
    then show ?thesis
      using "1.IH" by (subst str_of_nat.simps) (simp add: nat_of_digits_snoc)
  qed
qed

lemma length_str_of_nat: "n < 10 ^ k \<Longrightarrow> 0 < k \<Longrightarrow> length (str_of_nat n) \<le> k"
proof (induction n arbitrary: k rule: str_of_nat.induct)
  case (1 n)
  show ?case
  proof (cases "n < 10")
    case True
    then show ?thesis using "1.prems" by (subst str_of_nat.simps) simp
  next
    case False
    then obtain m where k: "k = Suc m" "0 < m"
      using "1.prems" by (cases k; cases "k - 1") auto
    then have "n div 10 < 10 ^ m" using "1.prems" by (simp add: less_mult_imp_div_less mult.commute)
    then have "length (str_of_nat (n div 10)) \<le> m" using "1.IH" False k by blast
    then show ?thesis using False k by (subst str_of_nat.simps) simp
  qed
qed

lemma digit_not_special:
  assumes "is_digit c"
  shows "c \<noteq> CHR ''_''" "c \<noteq> CHR ''-''" "c \<noteq> CHR ''+''" "\<not> is_space c" "c \<noteq> CHR ''=''"
  using assms by (auto simp: is_digit_def is_space_def)

lemma drop_underscores_digits: "list_all is_digit s \<Longrightarrow> drop_underscores p s = Some s"
  by (induction s arbitrary: p) (auto dest: digit_not_special)

lemma strip_digits:
  assumes "list_all is_digit s" "s \<noteq> []"
  shows "strip s = s"
proof (rule strip_no_space)
  have "is_digit (hd s)" "is_digit (last s)"
    using assms by (simp_all add: list_all_iff)
  then show "s = [] \<or> \<not> is_space (hd s) \<and> \<not> is_space (last s)"
    by (simp add: digit_not_special(4))
qed

text \<open>\<open>int(str(n)) = n\<close> for a natural number below the digit limit.\<close>

lemma int_of_str_of_nat:
  assumes "n < 10 ^ max_int_digits"
  shows "int_of_str (str_of_nat n) = Some (int n)"
proof -
  let ?s = "str_of_nat n"
  have dig: "list_all is_digit ?s" by (rule str_of_nat_digits)
  have len: "length ?s \<le> max_int_digits"
    using length_str_of_nat [OF assms] by (simp add: max_int_digits_def)
  obtain c cs where c: "?s = c # cs" by (cases ?s) auto
  then have "is_digit c" using dig by simp
  then have "split_sign ?s = (False, ?s)"
    using c digit_not_special [of c] by (simp add: split_sign_def)
  then show ?thesis
    using dig len by (simp add: int_of_str_def strip_digits drop_underscores_digits int_of_digits_eq)
qed

lemma str_of_int_nat [simp]: "str_of_int (int n) = str_of_nat n"
  by (simp add: str_of_int_def)

lemma digit_char_inj: "a < 10 \<Longrightarrow> b < 10 \<Longrightarrow> digit_char a = digit_char b \<longleftrightarrow> a = b"
  by (metis code_digit_char add_left_cancel)

lemma str_of_nat_inj [simp]: "str_of_nat a = str_of_nat b \<longleftrightarrow> a = b"
  by (metis nat_of_digits_str_of_nat)

text \<open>Small numbers are below the limit; the bound itself is never computed.\<close>

lemma below_int_limit: "n < 10 \<Longrightarrow> (n :: 'a :: linordered_semidom) < 10 ^ max_int_digits"
proof -
  assume "n < 10"
  also have "(10 :: 'a) = 10 ^ 1" by simp
  also have "\<dots> \<le> 10 ^ max_int_digits" by (intro power_increasing) (simp_all add: max_int_digits_def)
  finally show ?thesis .
qed

end
