(* ===== verification/Py_Float.thy ===== *)
theory Py_Float
  imports Complex_Main "HOL-Library.Log_Nat" Py_Str
begin

text \<open>
  Python's \<open>float\<close>: IEEE 754 binary64 values as exact rationals with the two infinities and
  NaN, \<open>float(s)\<close> with correct rounding (to nearest, ties to even), and the comparisons. The
  sign of zero is not kept: no comparison observes it.
\<close>

section \<open>Values and comparisons\<close>

datatype pyfloat = Fin rat | PosInf | NegInf | NaN

fun fl_less :: "pyfloat \<Rightarrow> pyfloat \<Rightarrow> bool" where
  "fl_less (Fin a) (Fin b) = (a < b)"
| "fl_less NaN _ = False"
| "fl_less _ NaN = False"
| "fl_less _ NegInf = False"
| "fl_less NegInf _ = True"
| "fl_less PosInf _ = False"
| "fl_less _ PosInf = True"

fun fl_eq :: "pyfloat \<Rightarrow> pyfloat \<Rightarrow> bool" where
  "fl_eq NaN _ = False"
| "fl_eq _ NaN = False"
| "fl_eq a b = (a = b)"

definition fl_le :: "pyfloat \<Rightarrow> pyfloat \<Rightarrow> bool" where
  "fl_le a b \<longleftrightarrow> fl_less a b \<or> fl_eq a b"

section \<open>Rounding\<close>

text \<open>\<open>2 ^ e\<close> for an integer exponent.\<close>

definition pow2 :: "int \<Rightarrow> rat" where
  "pow2 e = (if 0 \<le> e then 2 ^ nat e else 1 / 2 ^ nat (- e))"

definition round_half_even :: "rat \<Rightarrow> int" where
  "round_half_even q =
     (let f = \<lfloor>q\<rfloor>; r = q - of_int f
      in if r < 1 / 2 then f else if 1 / 2 < r then f + 1 else if even f then f else f + 1)"

text \<open>
  The binary exponent of a positive rational \<open>n / d\<close>: the bit lengths of \<open>n\<close> and \<open>d\<close>
  determine it up to one, and one comparison decides.
\<close>

definition floor_log2 :: "rat \<Rightarrow> int" where
  "floor_log2 a =
     (let (n, d) = quotient_of a;
          k = bitlen n - bitlen d
      in if pow2 k \<le> a then k else k - 1)"

definition round_double :: "rat \<Rightarrow> pyfloat" where
  "round_double q =
     (if q = 0 then Fin 0
      else let a = \<bar>q\<bar>;
               e = max (floor_log2 a - 52) (- 1074);
               v = of_int (round_half_even (a / pow2 e)) * pow2 e
           in if pow2 1024 \<le> v then (if q < 0 then NegInf else PosInf)
              else Fin (if q < 0 then - v else v))"

section \<open>\<open>float(s)\<close>\<close>

text \<open>Digits, an optional fraction and an optional exponent; at least one digit in front.\<close>

definition decimal_value :: "string \<Rightarrow> rat option" where
  "decimal_value s =
     (let ip = takeWhile is_digit s; s1 = dropWhile is_digit s;
          (fp, s2) = (case s1 of
                        c # cs \<Rightarrow> (if c = CHR ''.'' then (takeWhile is_digit cs, dropWhile is_digit cs)
                                   else ([], s1))
                      | [] \<Rightarrow> ([], []));
          m = of_int (int_of_digits (ip @ fp)) / 10 ^ length fp
      in if ip = [] \<and> fp = [] then None
         else (case s2 of
                 [] \<Rightarrow> Some m
               | c # cs \<Rightarrow>
                   (if lower_char c \<noteq> CHR ''e'' then None
                    else let (neg, ex) = split_sign cs
                         in if ex = [] \<or> \<not> list_all is_digit ex then None
                            else if neg then Some (m / 10 ^ nat_of_digits ex)
                            else Some (m * 10 ^ nat_of_digits ex))))"

definition float_of_str :: "string \<Rightarrow> pyfloat option" where
  "float_of_str s =
     (case drop_underscores False (strip s) of
        None \<Rightarrow> None
      | Some t \<Rightarrow>
          (let (neg, body) = split_sign t; w = lower body
           in if w = ''inf'' \<or> w = ''infinity'' then Some (if neg then NegInf else PosInf)
              else if w = ''nan'' then Some NaN
              else map_option (\<lambda>q. round_double (if neg then - q else q)) (decimal_value body)))"

text \<open>\<open>float(n)\<close> for an \<open>int\<close>: \<open>None\<close> is \<open>OverflowError\<close>.\<close>

definition float_of_int :: "int \<Rightarrow> pyfloat option" where
  "float_of_int n =
     (case round_double (of_int n) of Fin q \<Rightarrow> Some (Fin q) | _ \<Rightarrow> None)"

section \<open>Facts\<close>

lemma fl_less_irrefl [simp]: "\<not> fl_less a a"
  by (cases a) auto

lemma fl_less_trans: "fl_less a b \<Longrightarrow> fl_less b c \<Longrightarrow> fl_less a c"
  by (cases a; cases b; cases c) auto

lemma fl_trichotomy: "a \<noteq> NaN \<Longrightarrow> b \<noteq> NaN \<Longrightarrow> fl_less a b \<or> fl_eq a b \<or> fl_less b a"
  by (cases a; cases b) auto

lemma fl_not_le: "a \<noteq> NaN \<Longrightarrow> b \<noteq> NaN \<Longrightarrow> \<not> fl_le a b \<longleftrightarrow> fl_less b a"
  unfolding fl_le_def by (cases a; cases b) auto

lemma fl_le_trans: "fl_le a b \<Longrightarrow> fl_le b c \<Longrightarrow> fl_le a c"
  unfolding fl_le_def by (cases a; cases b; cases c) auto

lemma fl_le_refl: "a \<noteq> NaN \<Longrightarrow> fl_le a a"
  unfolding fl_le_def by (cases a) auto

lemma round_double_not_NaN [simp]: "round_double q \<noteq> NaN"
  by (simp add: round_double_def Let_def)

lemma round_double_whole:
  assumes "0 < n" "n < 2 ^ 53"
  shows "round_double (of_int n) = Fin (of_int n)"
proof -
  have "bitlen n \<le> int 53" using assms bitlen_le_iff_power [of n 53] by simp
  moreover have "quotient_of (of_int n :: rat) = (n, 1)" by (simp add: of_int_rat quotient_of_Fract)
  moreover have "bitlen 1 = 1" by (simp add: bitlen_def floorlog_def)
  ultimately have "floor_log2 (of_int n) \<le> 52" by (simp add: floor_log2_def Let_def)
  then obtain m where e: "max (floor_log2 (of_int n) - 52) (- 1074) = - int m"
    by (metis diff_le_0_iff_le max.bounded_iff neg_le_0_iff_le nonneg_int_cases minus_minus zero_le_numeral neg_0_le_iff_le)
  have p: "pow2 (- int m) = 1 / 2 ^ m" by (simp add: pow2_def)
  have "round_half_even (of_int n / pow2 (- int m)) = n * 2 ^ m"
  proof -
    have "(of_int n / pow2 (- int m) :: rat) = of_int (n * 2 ^ m)" by (simp add: p)
    then show ?thesis by (simp add: round_half_even_def Let_def del: of_int_mult)
  qed
  moreover have "\<not> pow2 1024 \<le> (of_int n :: rat)"
  proof -
    have "(of_int n :: rat) < of_int (2 ^ 53)" using assms(2) by (simp only: of_int_less_iff)
    also have "\<dots> \<le> pow2 1024" by (simp add: pow2_def)
    finally show ?thesis by simp
  qed
  ultimately show ?thesis using assms(1) e p by (simp add: round_double_def Let_def)
qed

lemma round_half_even_ge: "of_int k \<le> q \<Longrightarrow> k \<le> round_half_even q"
proof -
  assume "of_int k \<le> q"
  then have "k \<le> \<lfloor>q\<rfloor>" by (simp add: le_floor_iff)
  then show ?thesis by (simp add: round_half_even_def Let_def)
qed

text \<open>An integer of 1025 bits is no double.\<close>

lemma float_of_int_huge:
  assumes "2 ^ 1024 \<le> n"
  shows "float_of_int n = None"
proof -
  have pos: "0 < n" using assms by (rule less_le_trans [rotated]) simp
  define b where "b = nat (bitlen n)"
  have b: "bitlen n = int b" using bitlen_nonneg by (simp add: b_def)
  have low: "2 ^ (b - 1) \<le> n" proof -
    have "nat (int b - 1) = b - 1" by arith
    then show ?thesis using bitlen_bounds [OF pos] by (simp add: b)
  qed
  have "\<not> bitlen n \<le> int 1024" using bitlen_le_iff_power [of n 1024] assms pos by simp
  then have b1024: "1025 \<le> b" using b by simp
  have q: "quotient_of (of_int n :: rat) = (n, 1)" by (simp add: of_int_rat quotient_of_Fract)
  have b1: "bitlen 1 = 1" by (simp add: bitlen_def floorlog_def)
  have p: "pow2 (int b - 1) \<le> (of_int n :: rat)"
  proof -
    have "pow2 (int b - 1) = of_int (2 ^ (b - 1))" using b1024 by (simp add: pow2_def nat_diff_distrib)
    then show ?thesis using low by (simp only: of_int_le_iff)
  qed
  have k: "floor_log2 (of_int n) = int b - 1" using p by (simp add: floor_log2_def Let_def q b b1)
  have e: "max (floor_log2 (of_int n) - 52) (- 1074) = int (b - 53)" using b1024 k by simp
  let ?v = "of_int (round_half_even (of_int n / pow2 (int (b - 53)))) * pow2 (int (b - 53))"
  have pe: "pow2 (int (b - 53)) = 2 ^ (b - 53)" by (simp add: pow2_def)
  have "(2 :: int) ^ (b - 1) = 2 ^ 52 * 2 ^ (b - 53)" proof -
    have "b - 1 = 52 + (b - 53)" using b1024 by simp
    then show ?thesis by (simp only: power_add)
  qed
  then have "(of_int (2 ^ 52) :: rat) * 2 ^ (b - 53) \<le> of_int n"
    using low by (metis of_int_le_iff of_int_mult of_int_numeral of_int_power)
  then have "of_int (2 ^ 52) \<le> (of_int n :: rat) / pow2 (int (b - 53))" by (simp add: pe field_simps)
  then have "2 ^ 52 \<le> round_half_even (of_int n / pow2 (int (b - 53)))" by (rule round_half_even_ge)
  then have "(of_int (2 ^ 52) :: rat) * 2 ^ (b - 53) \<le> ?v"
    unfolding pe by (intro mult_right_mono) (simp_all only: of_int_le_iff, simp)
  moreover have "pow2 1024 \<le> (of_int (2 ^ 52) :: rat) * 2 ^ (b - 53)"
  proof -
    have "(2 :: rat) ^ 1024 \<le> 2 ^ (52 + (b - 53))" using b1024 by (intro power_increasing) simp_all
    then show ?thesis by (simp add: pow2_def power_add)
  qed
  ultimately have "pow2 1024 \<le> ?v" by linarith
  then have "round_double (of_int n) = PosInf"
    using pos unfolding round_double_def Let_def abs_of_pos [of "of_int n :: rat"] by (simp add: e abs_of_pos)
  then show ?thesis by (simp add: float_of_int_def)
qed

section \<open>Rounding is monotone\<close>

lemma pow2_powi: "pow2 e = 2 powi e"
  by (simp add: pow2_def power_int_def field_simps)

lemma pow2_pos [simp]: "0 < pow2 e"
  by (simp add: pow2_powi)

lemma pow2_add: "pow2 (a + b) = pow2 a * pow2 b"
  by (simp add: pow2_powi power_int_add)

lemma pow2_mono: "a \<le> b \<Longrightarrow> pow2 a \<le> pow2 b"
  by (simp add: pow2_powi power_int_increasing)

lemma pow2_nat: "pow2 (int n) = 2 ^ n"
  by (simp add: pow2_powi)

lemma floor_log2_spec:
  assumes "0 < a"
  shows "pow2 (floor_log2 a) \<le> a \<and> a < pow2 (floor_log2 a + 1)"
proof -
  obtain n d where q: "quotient_of a = (n, d)" by (rule prod.exhaust)
  have d: "0 < d" using quotient_of_denom_pos [OF q] .
  have a: "a = of_int n / of_int d" using quotient_of_div [OF q] .
  then have n: "0 < n" using assms d by (simp add: zero_less_divide_iff)
  have bounds: "pow2 (bitlen m - 1) \<le> (of_int m :: rat)" "(of_int m :: rat) < pow2 (bitlen m)" if "0 < m" for m
  proof -
    define b where "b = nat (bitlen m)"
    have b: "bitlen m = int b" using bitlen_nonneg by (simp add: b_def)
    have "0 < bitlen m" using that bitlen_le_iff_power [of m 0] by simp
    then have b0: "0 < b" using b by simp
    have "nat (int b - 1) = b - 1" by arith
    then have m: "2 ^ (b - 1) \<le> m" "m < 2 ^ b" using bitlen_bounds [OF that] by (simp_all add: b)
    have "pow2 (bitlen m - 1) = of_int (2 ^ (b - 1))" using b b0 pow2_nat [of "b - 1"] by (simp add: of_nat_diff)
    then show "pow2 (bitlen m - 1) \<le> (of_int m :: rat)" using m(1) by (simp only: of_int_le_iff)
    have "pow2 (bitlen m) = of_int (2 ^ b)" using b pow2_nat [of b] by simp
    then show "(of_int m :: rat) < pow2 (bitlen m)" using m(2) by (simp only: of_int_less_iff)
  qed
  let ?k = "bitlen n - bitlen d"
  have "a < pow2 (?k + 1)"
  proof -
    have "of_int n < pow2 (bitlen n)" "pow2 (bitlen d - 1) \<le> (of_int d :: rat)" using bounds n d by blast+
    moreover have "pow2 (?k + 1) * pow2 (bitlen d - 1) \<le> pow2 (?k + 1) * of_int d"
      using calculation(2) by (intro mult_left_mono) (simp_all add: less_imp_le)
    moreover have "pow2 (bitlen n) = pow2 (?k + 1) * pow2 (bitlen d - 1)" by (simp flip: pow2_add)
    ultimately have "of_int n < pow2 (?k + 1) * (of_int d :: rat)" by linarith
    then show ?thesis using d by (simp add: a field_simps)
  qed
  moreover have "pow2 (?k - 1) \<le> a"
  proof -
    have "pow2 (bitlen n - 1) \<le> of_int n" "(of_int d :: rat) < pow2 (bitlen d)" using bounds n d by blast+
    moreover have "pow2 (?k - 1) * of_int d \<le> pow2 (?k - 1) * pow2 (bitlen d)"
      using calculation(2) by (intro mult_left_mono) (simp_all add: less_imp_le)
    moreover have "pow2 (bitlen n - 1) = pow2 (?k - 1) * pow2 (bitlen d)" by (simp flip: pow2_add)
    ultimately have "pow2 (?k - 1) * (of_int d :: rat) \<le> of_int n" by linarith
    then show ?thesis using d by (simp add: a field_simps)
  qed
  ultimately show ?thesis by (simp add: floor_log2_def q Let_def)
qed

lemma floor_log2_mono: "0 < a \<Longrightarrow> a \<le> b \<Longrightarrow> floor_log2 a \<le> floor_log2 b"
proof (rule ccontr)
  assume a: "0 < a" "a \<le> b" "\<not> floor_log2 a \<le> floor_log2 b"
  then have "pow2 (floor_log2 b + 1) \<le> pow2 (floor_log2 a)" by (intro pow2_mono) simp
  then show False using floor_log2_spec [of a] floor_log2_spec [of b] a by linarith
qed

lemma round_half_even_mono: "p \<le> q \<Longrightarrow> round_half_even p \<le> round_half_even q"
proof -
  assume le: "p \<le> q"
  then have f: "\<lfloor>p\<rfloor> \<le> \<lfloor>q\<rfloor>" by (rule floor_mono)
  have b: "\<lfloor>x\<rfloor> \<le> round_half_even x \<and> round_half_even x \<le> \<lfloor>x\<rfloor> + 1" for x
    by (simp add: round_half_even_def Let_def)
  show ?thesis
  proof (cases "\<lfloor>p\<rfloor> = \<lfloor>q\<rfloor>")
    case True
    then show ?thesis using le by (auto simp: round_half_even_def Let_def)
  next
    case False
    then show ?thesis using f b [of p] b [of q] by linarith
  qed
qed

lemma round_half_even_le: "q \<le> of_int k \<Longrightarrow> round_half_even q \<le> k"
  using round_half_even_mono [of q "of_int k"] by (simp add: round_half_even_def Let_def)

definition rounded :: "rat \<Rightarrow> rat" where
  "rounded a = (let e = max (floor_log2 a - 52) (- 1074) in of_int (round_half_even (a / pow2 e)) * pow2 e)"

lemma rounded_mono:
  assumes "0 < a" "a \<le> b"
  shows "rounded a \<le> rounded b"
proof -
  define e where "e x = max (floor_log2 x - 52) (- 1074)" for x
  have r: "rounded x = of_int (round_half_even (x / pow2 (e x))) * pow2 (e x)" for x
    by (simp add: rounded_def e_def Let_def)
  have le: "e a \<le> e b" using floor_log2_mono [OF assms] by (simp add: e_def)
  show ?thesis
  proof (cases "e a = e b")
    case True
    have "round_half_even (a / pow2 (e b)) \<le> round_half_even (b / pow2 (e b))"
      using assms(2) by (intro round_half_even_mono divide_right_mono) (simp_all add: less_imp_le)
    then show ?thesis by (simp add: r True)
  next
    case False
    then have eb: "e b = floor_log2 b - 52" "floor_log2 a < floor_log2 b" using le by (auto simp: e_def max_def split: if_splits)
    have b0: "0 < b" using assms by simp
    have "of_int (2 ^ 52) \<le> b / pow2 (e b)"
    proof -
      have "pow2 52 * pow2 (e b) \<le> b" using floor_log2_spec [OF b0] pow2_add [of 52 "e b"] eb(1) by simp
      then show ?thesis using pow2_nat [of 52] by (simp add: field_simps)
    qed
    then have "2 ^ 52 \<le> round_half_even (b / pow2 (e b))" by (rule round_half_even_ge)
    then have "(of_int (2 ^ 52) :: rat) * pow2 (e b) \<le> rounded b"
      unfolding r by (intro mult_right_mono) (simp_all only: of_int_le_iff less_imp_le [OF pow2_pos])
    then have big: "pow2 (floor_log2 b) \<le> rounded b"
      using pow2_add [of 52 "e b"] pow2_nat [of 52] eb(1) by simp
    define k where "k = max (floor_log2 a + 1) (e a)"
    obtain m where m: "k - e a = int m" by (metis k_def diff_ge_0_iff_ge max.cobounded2 nonneg_int_cases)
    have "a / pow2 (e a) \<le> of_int (2 ^ m)"
    proof -
      have "a \<le> pow2 k" using floor_log2_spec [OF assms(1)] pow2_mono [of "floor_log2 a + 1" k] by (simp add: k_def)
      also have "\<dots> = pow2 (int m) * pow2 (e a)" by (simp flip: pow2_add m)
      finally show ?thesis by (simp add: pow2_nat field_simps)
    qed
    then have "round_half_even (a / pow2 (e a)) \<le> 2 ^ m" by (rule round_half_even_le)
    then have "rounded a \<le> of_int (2 ^ m) * pow2 (e a)"
      unfolding r by (intro mult_right_mono) (simp_all only: of_int_le_iff less_imp_le [OF pow2_pos])
    also have "\<dots> = pow2 k" by (simp flip: pow2_nat pow2_add m)
    also have "\<dots> \<le> pow2 (floor_log2 b)"
      using eb False le by (intro pow2_mono) (auto simp: k_def e_def)
    finally show ?thesis using big by simp
  qed
qed

lemma rounded_pos: "0 < a \<Longrightarrow> 0 \<le> rounded a"
  by (auto simp: rounded_def Let_def intro!: mult_nonneg_nonneg round_half_even_ge divide_nonneg_pos less_imp_le [OF pow2_pos])

lemma round_double_rounded:
  "round_double q = (if q = 0 then Fin 0
     else if pow2 1024 \<le> rounded \<bar>q\<bar> then (if q < 0 then NegInf else PosInf)
     else Fin (if q < 0 then - rounded \<bar>q\<bar> else rounded \<bar>q\<bar>))"
  by (simp add: round_double_def rounded_def Let_def)

lemma round_double_mono: "p \<le> q \<Longrightarrow> fl_le (round_double p) (round_double q)"
  using rounded_mono [of p q] rounded_mono [of "- q" "- p"] rounded_pos [of "\<bar>p\<bar>"] rounded_pos [of "\<bar>q\<bar>"]
  by (auto simp: round_double_rounded fl_le_def abs_if)

end
