(* ===== verification/Py_Val.thy ===== *)
theory Py_Val
  imports Py_Float
begin

text \<open>
  The values the records of the store hold, as the query engines read them: JSON-like trees.
  A \<open>float\<close> is kept as the text \<open>repr\<close> gives it, which determines it. A record is a
  dictionary; the sources read dataclass fields and dictionary keys through the same helper
  (\<open>utils/nested.py\<close>), so a dataclass is modelled as the dictionary of its fields. The
  helper's \<open>getattr\<close> on a scalar finds no field and yields \<open>None\<close>; attribute names of
  Python's own scalar types (\<open>real\<close>, \<open>upper\<close>, ...) are not field names of any record.
\<close>

datatype pyval =
    VNone
  | VBool bool
  | VInt int
  | VFloat string
  | VStr string
  | VList "pyval list"
  | VDict "(string \<times> pyval) list"

section \<open>Rendering\<close>

definition hex_digit :: "nat \<Rightarrow> char" where
  "hex_digit d = (if d < 10 then char_of (48 + d) else char_of (87 + d))"

text \<open>\<open>repr(s)\<close>: double quotes only when the text has a single quote and no double one.\<close>

definition repr_char :: "char \<Rightarrow> char \<Rightarrow> string" where
  "repr_char q c =
     (if c = q \<or> c = CHR 0x5C then [CHR 0x5C, c]
      else if c = CHR 0x0A then [CHR 0x5C, CHR ''n'']
      else if c = CHR 0x0D then [CHR 0x5C, CHR ''r'']
      else if c = CHR 0x09 then [CHR 0x5C, CHR ''t'']
      else if code c < 32 \<or> code c = 127
      then [CHR 0x5C, CHR ''x'', hex_digit (code c div 16), hex_digit (code c mod 16)]
      else [c])"

definition repr_str :: "string \<Rightarrow> string" where
  "repr_str s =
     (let q = (if CHR 0x27 \<in> set s \<and> CHR 0x22 \<notin> set s then CHR 0x22 else CHR 0x27)
      in [q] @ concat (map (repr_char q) s) @ [q])"

fun py_repr :: "pyval \<Rightarrow> string" where
  "py_repr VNone = ''None''"
| "py_repr (VBool b) = (if b then ''True'' else ''False'')"
| "py_repr (VInt n) = str_of_int n"
| "py_repr (VFloat s) = s"
| "py_repr (VStr s) = repr_str s"
| "py_repr (VList vs) = ''['' @ join '', '' (map py_repr vs) @ '']''"
| "py_repr (VDict kvs) =
     ''{'' @ join '', '' (map (\<lambda>(k, v). repr_str k @ '': '' @ py_repr v) kvs) @ ''}''"

text \<open>\<open>str(v)\<close> differs from \<open>repr(v)\<close> on strings only.\<close>

definition py_str :: "pyval \<Rightarrow> string" where
  "py_str v = (case v of VStr s \<Rightarrow> s | _ \<Rightarrow> py_repr v)"

lemma py_str_simps [simp]:
  "py_str VNone = ''None''" "py_str (VBool b) = (if b then ''True'' else ''False'')"
  "py_str (VInt n) = str_of_int n" "py_str (VFloat t) = t" "py_str (VStr s) = s"
  "py_str (VList vs) = py_repr (VList vs)" "py_str (VDict kvs) = py_repr (VDict kvs)"
  by (simp_all add: py_str_def)

section \<open>Truth, numbers, equality\<close>

definition truthy :: "pyval \<Rightarrow> bool" where
  "truthy v =
     (case v of
        VNone \<Rightarrow> False
      | VBool b \<Rightarrow> b
      | VInt n \<Rightarrow> n \<noteq> 0
      | VFloat s \<Rightarrow> float_of_str s \<noteq> Some (Fin 0)
      | VStr s \<Rightarrow> s \<noteq> []
      | VList vs \<Rightarrow> vs \<noteq> []
      | VDict kvs \<Rightarrow> kvs \<noteq> [])"

lemma truthy_simps [simp]:
  "\<not> truthy VNone" "truthy (VBool b) = b" "truthy (VInt n) = (n \<noteq> 0)"
  "truthy (VFloat t) = (float_of_str t \<noteq> Some (Fin 0))" "truthy (VStr s) = (s \<noteq> [])"
  "truthy (VList vs) = (vs \<noteq> [])" "truthy (VDict kvs) = (kvs \<noteq> [])"
  by (simp_all add: truthy_def)

text \<open>
  \<open>as_float\<close> of \<open>utils/numbers.py\<close>: \<open>None\<close> and booleans are not numbers; text is read by
  \<open>float\<close>. Only \<open>TypeError\<close> and \<open>ValueError\<close> are caught, so an integer too large for a
  double raises \<open>OverflowError\<close> out of it.
\<close>

definition as_float :: "pyval \<Rightarrow> pyfloat option result" where
  "as_float v =
     (case v of
        VNone \<Rightarrow> Inr None
      | VBool b \<Rightarrow> Inr None
      | VInt n \<Rightarrow> (case float_of_int n of
                     None \<Rightarrow> Inl (OverflowError ''int too large to convert to float'')
                   | Some f \<Rightarrow> Inr (Some f))
      | VFloat s \<Rightarrow> Inr (float_of_str s)
      | VStr s \<Rightarrow> Inr (float_of_str s)
      | VList vs \<Rightarrow> Inr None
      | VDict kvs \<Rightarrow> Inr None)"

text \<open>
  The exact value of a number: Python compares \<open>int\<close> and \<open>float\<close> (and booleans, which are
  the integers 0 and 1) by value.
\<close>

fun num_val :: "pyval \<Rightarrow> pyfloat option" where
  "num_val (VBool b) = Some (Fin (if b then 1 else 0))"
| "num_val (VInt n) = Some (Fin (of_int n))"
| "num_val (VFloat s) = float_of_str s"
| "num_val _ = None"

text \<open>\<open>v == w\<close>; two dictionaries are equal when they have the same keys with equal values.\<close>

fun py_eq :: "pyval \<Rightarrow> pyval \<Rightarrow> bool" where
  "py_eq VNone w = (w = VNone)"
| "py_eq (VStr s) w = (w = VStr s)"
| "py_eq (VList vs) w =
     (case w of VList ws \<Rightarrow> length vs = length ws \<and> list_all2 py_eq vs ws | _ \<Rightarrow> False)"
| "py_eq (VDict kvs) w =
     (case w of
        VDict lws \<Rightarrow> length kvs = length lws \<and>
          list_all (\<lambda>(k, v). case map_of lws k of None \<Rightarrow> False | Some u \<Rightarrow> py_eq v u) kvs
      | _ \<Rightarrow> False)"
| "py_eq v w =
     (case (num_val v, num_val w) of (Some a, Some b) \<Rightarrow> fl_eq a b | _ \<Rightarrow> False)"

section \<open>Field access\<close>

definition is_None :: "pyval \<Rightarrow> bool" where
  "is_None v \<longleftrightarrow> v = VNone"

text \<open>\<open>d.get(k)\<close> with the default \<open>None\<close>.\<close>

definition dict_get :: "(string \<times> pyval) list \<Rightarrow> string \<Rightarrow> pyval" where
  "dict_get d k = (case map_of d k of None \<Rightarrow> VNone | Some v \<Rightarrow> v)"

definition field_get :: "pyval \<Rightarrow> string \<Rightarrow> pyval" where
  "field_get v part = (case v of VDict d \<Rightarrow> dict_get d part | _ \<Rightarrow> VNone)"

definition get_nested :: "pyval \<Rightarrow> string \<Rightarrow> pyval" where
  "get_nested rec path = foldl field_get rec (split_on CHR ''.'' path)"

lemma field_get_None [simp]: "field_get VNone k = VNone"
  by (simp add: field_get_def)

lemma foldl_field_get_None [simp]: "foldl field_get VNone ks = VNone"
  by (induction ks) simp_all

lemma field_get_dict [simp]: "field_get (VDict d) k = dict_get d k"
  by (simp add: field_get_def)

lemma split_on_absent: "d \<notin> set s \<Longrightarrow> split_on d s = [s]"
  by (induction s) (auto simp: split_on_def)

lemma split_on_cut: "c \<notin> set a \<Longrightarrow> split_on c (a @ c # b) = a # split_on c b"
  by (induction a) (auto simp: split_on_def)

text \<open>A path without a dot is one dictionary lookup.\<close>

lemma get_nested_flat: "CHR ''.'' \<notin> set k \<Longrightarrow> get_nested (VDict d) k = dict_get d k"
  by (simp add: get_nested_def split_on_absent)

section \<open>Building dictionaries\<close>

type_synonym jobj = "(string \<times> pyval) list"

text \<open>\<open>{**a, **b}\<close>: the keys of \<open>a\<close> keep their places, the values of \<open>b\<close> win.\<close>

definition dict_merge :: "(string \<times> 'v) list \<Rightarrow> (string \<times> 'v) list \<Rightarrow> (string \<times> 'v) list" where
  "dict_merge a b = fold (\<lambda>(k, v) d. AList.update k v d) b a"

lemma dict_merge_Nil [simp]: "dict_merge a [] = a"
  by (simp add: dict_merge_def)

lemma map_of_dict_merge:
  "wf_dict b \<Longrightarrow> map_of (dict_merge a b) k = (case map_of b k of None \<Rightarrow> map_of a k | Some v \<Rightarrow> Some v)"
proof (induction b arbitrary: a)
  case (Cons p b)
  obtain k' v where p: "p = (k', v)" by (cases p)
  have "map_of b k' = None" using Cons.prems p by (simp add: map_of_eq_None_iff)
  then show ?case using Cons p by (auto simp: dict_merge_def split: option.splits)
qed simp

text \<open>\<open>d.get(k, default)\<close>.\<close>

definition get_or :: "jobj \<Rightarrow> string \<Rightarrow> pyval \<Rightarrow> pyval" where
  "get_or d k dflt = (case map_of d k of None \<Rightarrow> dflt | Some v \<Rightarrow> v)"

text \<open>\<open>strip_fields\<close> of \<open>utils/strip.py\<close>.\<close>

definition strip_fields :: "jobj \<Rightarrow> string list \<Rightarrow> jobj" where
  "strip_fields rec internal = filter (\<lambda>(k, v). k \<notin> set internal) rec"

text \<open>\<open>v.get(k, default)\<close>, which only an object has.\<close>

definition obj_get :: "pyval \<Rightarrow> string \<Rightarrow> pyval \<Rightarrow> pyval result" where
  "obj_get v k dflt = (case v of VDict d \<Rightarrow> Inr (get_or d k dflt) | _ \<Rightarrow> Inl (AttributeError ''get''))"

definition updates :: "(string \<times> pyval) list \<Rightarrow> jobj \<Rightarrow> jobj" where
  "updates kvs d = fold (\<lambda>(k, v). AList.update k v) kvs d"

lemma dict_get_update [simp]: "dict_get (AList.update k v d) i = (if i = k then v else dict_get d i)"
  by (simp add: dict_get_def)

lemma map_of_updates_other: "k \<notin> set (map fst kvs) \<Longrightarrow> map_of (updates kvs d) k = map_of d k"
  by (induction kvs arbitrary: d) (auto simp: updates_def update_conv')

lemma get_or_update [simp]: "get_or (AList.update k v d) i dflt = (if i = k then v else get_or d i dflt)"
  by (simp add: get_or_def)

lemma dict_get_strip [simp]: "k \<notin> set internal \<Longrightarrow> dict_get (strip_fields rec internal) k = dict_get rec k"
  by (induction rec) (auto simp: strip_fields_def dict_get_def)

lemma dict_get_stripped: "k \<in> set internal \<Longrightarrow> dict_get (strip_fields rec internal) k = VNone"
  by (induction rec) (auto simp: strip_fields_def dict_get_def)

lemma dict_get_Cons [simp]: "dict_get ((k, v) # d) i = (if i = k then v else dict_get d i)"
  by (simp add: dict_get_def)

lemma dict_get_Nil [simp]: "dict_get [] i = VNone"
  by (simp add: dict_get_def)

section \<open>Refused requests\<close>

text \<open>
  \<open>fastapi.HTTPException(status_code, detail, headers)\<close>, or an exception the handler does
  not catch.
\<close>

datatype failure = HTTPException int pyval "(string \<times> string) list" | Raised exn

type_synonym 'a http = "failure + 'a"

end
