(* ===== verification/Event_Bus.thy ===== *)
theory Event_Bus
  imports Py_Val
begin

text \<open>
  The in-process event bus, \<open>src/backend/domain/event_bus.py\<close>.

  A handler is a value of type \<open>'h\<close> (what \<open>handler not in ...\<close> compares); what calling it
  does is the parameter \<open>run\<close>, a step on the bus and the rest of the process (\<open>'w\<close>) that also
  says whether it raised. A handler may therefore subscribe, clear the bus or fail; the
  theorems hold for every such handler.
\<close>

section \<open>Events\<close>

record domain_event =
  event_type :: string
  vendor :: string
  entity_id :: string
  entity_type :: string
  payload :: "(string \<times> pyval) list"
  timestamp :: pyfloat

definition DomainEvent :: domain_event where
  "DomainEvent = \<lparr>event_type = '''', vendor = '''', entity_id = '''', entity_type = '''',
     payload = [], timestamp = Fin 0\<rparr>"

text \<open>The defaults of each event class; a publisher then sets \<open>entity_id\<close> and \<open>payload\<close>.\<close>

definition ThreatCreated :: domain_event where
  "ThreatCreated = DomainEvent\<lparr>event_type := ''threat_created'', vendor := ''sentinelone'',
     entity_type := ''threat''\<rparr>"

definition AgentUpdated :: domain_event where
  "AgentUpdated = DomainEvent\<lparr>event_type := ''agent_updated'', vendor := ''sentinelone'',
     entity_type := ''agent''\<rparr>"

definition ActivityCreated :: domain_event where
  "ActivityCreated = DomainEvent\<lparr>event_type := ''activity_created'', vendor := ''sentinelone'',
     entity_type := ''activity''\<rparr>"

definition CsDetectionCreated :: domain_event where
  "CsDetectionCreated = DomainEvent\<lparr>event_type := ''cs_detection_created'',
     vendor := ''crowdstrike'', entity_type := ''detection''\<rparr>"

definition CsIncidentCreated :: domain_event where
  "CsIncidentCreated = DomainEvent\<lparr>event_type := ''cs_incident_created'',
     vendor := ''crowdstrike'', entity_type := ''incident''\<rparr>"

definition MdeAlertCreated :: domain_event where
  "MdeAlertCreated = DomainEvent\<lparr>event_type := ''mde_alert_created'', vendor := ''msdefender'',
     entity_type := ''alert''\<rparr>"

definition MdeMachineUpdated :: domain_event where
  "MdeMachineUpdated = DomainEvent\<lparr>event_type := ''mde_machine_updated'',
     vendor := ''msdefender'', entity_type := ''machine''\<rparr>"

definition EsAlertCreated :: domain_event where
  "EsAlertCreated = DomainEvent\<lparr>event_type := ''es_alert_created'', vendor := ''elastic'',
     entity_type := ''alert''\<rparr>"

definition XdrIncidentCreated :: domain_event where
  "XdrIncidentCreated = DomainEvent\<lparr>event_type := ''xdr_incident_created'',
     vendor := ''cortex_xdr'', entity_type := ''incident''\<rparr>"

definition XdrAlertCreated :: domain_event where
  "XdrAlertCreated = DomainEvent\<lparr>event_type := ''xdr_alert_created'', vendor := ''cortex_xdr'',
     entity_type := ''alert''\<rparr>"

definition XdrEndpointUpdated :: domain_event where
  "XdrEndpointUpdated = DomainEvent\<lparr>event_type := ''xdr_endpoint_updated'',
     vendor := ''cortex_xdr'', entity_type := ''endpoint''\<rparr>"

section \<open>The bus\<close>

record 'h bus =
  subscribers :: "(string, 'h list) dict"
  global_subscribers :: "'h list"

definition init_bus :: "'h bus" where
  "init_bus = \<lparr>subscribers = [], global_subscribers = []\<rparr>"

text \<open>\<open>self._subscribers[t]\<close> of a \<open>defaultdict(list)\<close>: a missing key is created, empty.\<close>

definition default_get :: "string \<Rightarrow> (string, 'h list) dict \<Rightarrow> (string, 'h list) dict \<times> 'h list" where
  "default_get t d =
     (case map_of d t of None \<Rightarrow> (AList.update t [] d, []) | Some hs \<Rightarrow> (d, hs))"

definition subscribe :: "string \<Rightarrow> 'h \<Rightarrow> 'h bus \<Rightarrow> 'h bus" where
  "subscribe t h b =
     (let (d, hs) = default_get t (subscribers b)
      in b\<lparr>subscribers := (if h \<notin> set hs then AList.update t (hs @ [h]) d else d)\<rparr>)"

definition subscribe_all :: "'h \<Rightarrow> 'h bus \<Rightarrow> 'h bus" where
  "subscribe_all h b = b\<lparr>global_subscribers := global_subscribers b @ [h]\<rparr>"

definition clear_bus :: "'h bus \<Rightarrow> 'h bus" where
  "clear_bus b = b\<lparr>subscribers := [], global_subscribers := []\<rparr>"

text \<open>
  The process as \<open>publish\<close> sees it: the bus, everything else, and the error log (the handler
  and the event type of each \<open>logger.exception\<close>, oldest first).
\<close>

record ('h, 'w) process =
  the_bus :: "'h bus"
  rest :: 'w
  error_log :: "('h \<times> string) list"

type_synonym ('h, 'w) handler_run =
  "'h \<Rightarrow> domain_event \<Rightarrow> ('h, 'w) process \<Rightarrow> ('h, 'w) process \<times> bool"

text \<open>One \<open>try: handler(event) except Exception: logger.exception(...)\<close>.\<close>

definition deliver ::
  "('h, 'w) handler_run \<Rightarrow> domain_event \<Rightarrow> 'h \<Rightarrow> ('h, 'w) process \<Rightarrow> ('h, 'w) process" where
  "deliver run ev h p =
     (let (p', raised) = run h ev p
      in if raised then p'\<lparr>error_log := error_log p' @ [(h, event_type ev)]\<rparr> else p')"

definition typed_subscribers :: "'h bus \<Rightarrow> string \<Rightarrow> 'h list" where
  "typed_subscribers b t = (case map_of (subscribers b) t of None \<Rightarrow> [] | Some hs \<Rightarrow> hs)"

definition publish ::
  "('h, 'w) handler_run \<Rightarrow> domain_event \<Rightarrow> ('h, 'w) process \<Rightarrow> ('h, 'w) process" where
  "publish run ev p =
     (let typed = typed_subscribers (the_bus p) (event_type ev);
          global_subs = global_subscribers (the_bus p)
      in fold (deliver run ev) global_subs (fold (deliver run ev) typed p))"

section \<open>Registration\<close>

lemma typed_subscribers_init [simp]: "typed_subscribers init_bus t = []"
  by (simp add: typed_subscribers_def init_bus_def)

lemma typed_subscribers_subscribe:
  "typed_subscribers (subscribe t h b) t' =
     (if t' = t \<and> h \<notin> set (typed_subscribers b t) then typed_subscribers b t @ [h]
      else typed_subscribers b t')"
  by (auto simp: typed_subscribers_def subscribe_def default_get_def split: option.splits)

lemma global_subscribe [simp]: "global_subscribers (subscribe t h b) = global_subscribers b"
  by (simp add: subscribe_def split: prod.split)

lemma subscribe_all_sel [simp]:
  "typed_subscribers (subscribe_all h b) t = typed_subscribers b t"
  "global_subscribers (subscribe_all h b) = global_subscribers b @ [h]"
  by (simp_all add: subscribe_all_def typed_subscribers_def)

text \<open>The registrations a wiring of the bus makes, in order.\<close>

datatype 'h registration = Typed string 'h | Global 'h

definition register :: "'h registration \<Rightarrow> 'h bus \<Rightarrow> 'h bus" where
  "register r b = (case r of Typed t h \<Rightarrow> subscribe t h b | Global h \<Rightarrow> subscribe_all h b)"

definition typed_of :: "string \<Rightarrow> 'h registration list \<Rightarrow> 'h list" where
  "typed_of t rs = List.map_filter (\<lambda>r. case r of Typed t' h \<Rightarrow> if t' = t then Some h else None
                                         | Global h \<Rightarrow> None) rs"

definition globals_of :: "'h registration list \<Rightarrow> 'h list" where
  "globals_of rs = List.map_filter (\<lambda>r. case r of Typed t' h \<Rightarrow> None | Global h \<Rightarrow> Some h) rs"

lemma map_filter_append: "List.map_filter f (xs @ ys) = List.map_filter f xs @ List.map_filter f ys"
  by (simp add: List.map_filter_def)

lemma registered:
  "typed_subscribers (fold register rs init_bus) t = first_occurrences (typed_of t rs) \<and>
   global_subscribers (fold register rs init_bus) = globals_of rs"
proof (induction rs rule: rev_induct)
  case Nil
  then show ?case
    by (simp add: typed_of_def globals_of_def first_occurrences_def List.map_filter_def init_bus_def
        typed_subscribers_def)
next
  case (snoc r rs)
  show ?case
  proof (cases r)
    case (Typed t' h)
    then have "typed_of t (rs @ [r]) = (if t' = t then typed_of t rs @ [h] else typed_of t rs)"
      "globals_of (rs @ [r]) = globals_of rs"
      by (simp_all add: typed_of_def globals_of_def List.map_filter_def)
    then show ?thesis
      using snoc Typed by (simp add: register_def typed_subscribers_subscribe first_occurrences_snoc)
  next
    case (Global h)
    then have "typed_of t (rs @ [r]) = typed_of t rs" "globals_of (rs @ [r]) = globals_of rs @ [h]"
      by (simp_all add: typed_of_def globals_of_def List.map_filter_def)
    then show ?thesis using snoc Global by (simp add: register_def)
  qed
qed

section \<open>Delivery\<close>

lemma fold_invariant_trace:
  assumes "\<And>h p. tr (f h p) = tr p @ [g h]"
  shows "tr (fold f hs p) = tr p @ map g hs"
  using assms by (induction hs arbitrary: p) auto

text \<open>
  Publishing after any sequence of registrations calls each handler subscribed to the
  event's type once, in the order of first registration (subscribing twice changes nothing),
  then every global handler once per registration, in order. Neither a handler that raises nor
  one that changes the subscriptions while it runs adds, drops or reorders a delivery of this
  event: \<open>calls\<close> is any record of calls the handlers keep, and \<open>run\<close> is arbitrary otherwise.
\<close>

theorem publish_delivers:
  assumes "\<And>h e p. calls (rest (fst (run h e p))) = calls (rest p) @ [(h, e)]"
    and "the_bus p = fold register rs init_bus"
  shows "calls (rest (publish run ev p)) =
    calls (rest p) @
      map (\<lambda>h. (h, ev)) (first_occurrences (typed_of (event_type ev) rs) @ globals_of rs)"
proof -
  have "calls (rest (deliver run ev h q)) = calls (rest q) @ [(h, ev)]" for h q
    using assms(1) [of h ev q] by (cases "run h ev q") (simp add: deliver_def)
  then have "calls (rest (fold (deliver run ev) hs q)) = calls (rest q) @ map (\<lambda>h. (h, ev)) hs" for hs q
    by (rule fold_invariant_trace [where tr = "\<lambda>q. calls (rest q)"])
  then show ?thesis
    using registered [of rs "event_type ev"] assms(2) by (simp add: publish_def Let_def)
qed

text \<open>
  A concrete run: handler 1 raises, handler 2 clears the bus while it runs, and the four
  deliveries still happen.
\<close>

definition demo_run :: "(nat, (nat \<times> domain_event) list) handler_run" where
  "demo_run h e p =
     (if h = 2 then p\<lparr>the_bus := clear_bus (the_bus p), rest := rest p @ [(h, e)]\<rparr>
      else p\<lparr>rest := rest p @ [(h, e)]\<rparr>, h = 1)"

theorem publish_delivers_witness:
  "let rs = [Typed ''threat_created'' (1::nat), Global 2, Typed ''threat_created'' 3,
             Typed ''threat_created'' 1, Typed ''agent_updated'' 4, Global 5];
       p = \<lparr>the_bus = fold register rs init_bus, rest = [], error_log = []\<rparr>
   in rest (publish demo_run ThreatCreated p) =
        [(1, ThreatCreated), (3, ThreatCreated), (2, ThreatCreated), (5, ThreatCreated)]"
proof -
  define rs where "rs = [Typed ''threat_created'' (1::nat), Global 2, Typed ''threat_created'' 3,
             Typed ''threat_created'' 1, Typed ''agent_updated'' 4, Global 5]"
  have "rest (publish demo_run ThreatCreated \<lparr>the_bus = fold register rs init_bus, rest = [], error_log = []\<rparr>)
        = [] @ map (\<lambda>h. (h, ThreatCreated))
            (first_occurrences (typed_of (event_type ThreatCreated) rs) @ globals_of rs)"
    using publish_delivers [where calls = id and run = demo_run and rs = rs and ev = ThreatCreated
        and p = "\<lparr>the_bus = fold register rs init_bus, rest = [], error_log = []\<rparr>"]
    by (simp add: demo_run_def)
  moreover have "first_occurrences (typed_of (event_type ThreatCreated) rs) = [1, 3]"
    "globals_of rs = [2, 5]"
    by (simp_all add: rs_def typed_of_def globals_of_def first_occurrences_def List.map_filter_def
        ThreatCreated_def)
  ultimately show ?thesis by (simp add: Let_def rs_def)
qed

end
