(* ===== verification/Py_Hash.thy ===== *)
theory Py_Hash
  imports Py_Str "HOL-Library.Word"
begin

text \<open>
  The standard library's digests the sources use: \<open>hashlib.sha256(s).hexdigest()\<close> (the keys
  of the rate limiter's buckets) and \<open>uuid.uuid5\<close>, which is SHA-1 under a namespace (the
  tracking id of a Defender error). Both are defined on 32-bit words with wrap-around addition.
\<close>

unbundle bit_operations_syntax

section \<open>Bytes and words\<close>

type_synonym w32 = "32 word"

definition byte_of :: "char \<Rightarrow> w32" where
  "byte_of c = word_of_nat (of_char c)"

fun be_words :: "w32 list \<Rightarrow> w32 list" where
  "be_words (a # b # c # d # bs) =
     (push_bit 24 a OR push_bit 16 b OR push_bit 8 c OR d) # be_words bs"
| "be_words _ = []"

definition be_bytes :: "w32 \<Rightarrow> w32 list" where
  "be_bytes w = map (\<lambda>k. drop_bit k w AND 0xFF) [24, 16, 8, 0]"

definition byte_at :: "int \<Rightarrow> nat \<Rightarrow> w32" where
  "byte_at n k = word_of_int (n div 256 ^ k mod 256)"

text \<open>The padding both digests share: 0x80, zeros up to 56 modulo 64, the length in bits.\<close>

definition md_pad :: "w32 list \<Rightarrow> w32 list" where
  "md_pad bs =
     (let n = length bs; z = (119 - n mod 64) mod 64
      in bs @ [0x80] @ replicate z 0 @ map (\<lambda>k. byte_at (8 * int n) k) [7, 6, 5, 4, 3, 2, 1, 0])"

fun blocks16 :: "w32 list \<Rightarrow> w32 list list" where
  "blocks16 ws = (if length ws < 16 then [] else take 16 ws # blocks16 (drop 16 ws))"

declare blocks16.simps [simp del]

definition hex_byte :: "w32 \<Rightarrow> string" where
  "hex_byte b =
     (let digit = (\<lambda>d. if d < 10 then char_of (48 + d) else char_of (87 + d))
      in [digit (unat b div 16), digit (unat b mod 16)])"

definition hex_bytes :: "w32 list \<Rightarrow> string" where
  "hex_bytes bs = concat (map hex_byte bs)"

section \<open>SHA-256\<close>

text \<open>The fractional parts of the cube roots of the first 64 primes and of the square roots of the
  first eight, scaled to 32 bits.\<close>

definition sha256_k :: "w32 list" where
  "sha256_k = [
    1116352408, 1899447441, 3049323471, 3921009573, 961987163, 1508970993,
    2453635748, 2870763221, 3624381080, 310598401, 607225278, 1426881987,
    1925078388, 2162078206, 2614888103, 3248222580, 3835390401, 4022224774,
    264347078, 604807628, 770255983, 1249150122, 1555081692, 1996064986,
    2554220882, 2821834349, 2952996808, 3210313671, 3336571891, 3584528711,
    113926993, 338241895, 666307205, 773529912, 1294757372, 1396182291,
    1695183700, 1986661051, 2177026350, 2456956037, 2730485921, 2820302411,
    3259730800, 3345764771, 3516065817, 3600352804, 4094571909, 275423344,
    430227734, 506948616, 659060556, 883997877, 958139571, 1322822218,
    1537002063, 1747873779, 1955562222, 2024104815, 2227730452, 2361852424,
    2428436474, 2756734187, 3204031479, 3329325298]"

definition sha256_init :: "w32 list" where
  "sha256_init = [
    1779033703, 3144134277, 1013904242, 2773480762, 1359893119, 2600822924,
    528734635, 1541459225]"

definition rotr :: "nat \<Rightarrow> w32 \<Rightarrow> w32" where
  "rotr n w = word_rotr n w"

fun sha256_extend :: "nat \<Rightarrow> w32 list \<Rightarrow> w32 list" where
  "sha256_extend 0 ws = ws"
| "sha256_extend (Suc k) ws =
     (let t = length ws;
          a = ws ! (t - 15); b = ws ! (t - 2);
          s0 = rotr 7 a XOR rotr 18 a XOR drop_bit 3 a;
          s1 = rotr 17 b XOR rotr 19 b XOR drop_bit 10 b
      in sha256_extend k (ws @ [ws ! (t - 16) + s0 + ws ! (t - 7) + s1]))"

fun sha256_round :: "w32 list \<Rightarrow> w32 \<times> w32 \<Rightarrow> w32 list" where
  "sha256_round [a, b, c, d, e, f, g, h] (k, w) =
     (let s1 = rotr 6 e XOR rotr 11 e XOR rotr 25 e;
          ch = (e AND f) XOR (NOT e AND g);
          t1 = h + s1 + ch + k + w;
          s0 = rotr 2 a XOR rotr 13 a XOR rotr 22 a;
          maj = (a AND b) XOR (a AND c) XOR (b AND c)
      in [t1 + (s0 + maj), a, b, c, d + t1, e, f, g])"
| "sha256_round st _ = st"

definition sha256_block :: "w32 list \<Rightarrow> w32 list \<Rightarrow> w32 list" where
  "sha256_block st blk = map2 (+) st (foldl sha256_round st (zip sha256_k (sha256_extend 48 blk)))"

definition sha256_hex :: "string \<Rightarrow> string" where
  "sha256_hex s =
     hex_bytes (concat (map be_bytes
       (foldl sha256_block sha256_init (blocks16 (be_words (md_pad (map byte_of s)))))))"

text \<open>The digest of bytes, and the keyed digest of \<open>hmac.new(key, msg, hashlib.sha256)\<close>.\<close>

definition sha256_bytes :: "w32 list \<Rightarrow> w32 list" where
  "sha256_bytes bs = concat (map be_bytes (foldl sha256_block sha256_init (blocks16 (be_words (md_pad bs)))))"

definition hmac_sha256_hex :: "string \<Rightarrow> string \<Rightarrow> string" where
  "hmac_sha256_hex key msg =
     (let k0 = map byte_of key;
          k1 = (if 64 < length k0 then sha256_bytes k0 else k0);
          k = k1 @ replicate (64 - length k1) 0;
          inner = sha256_bytes (map (\<lambda>b. b XOR 0x36) k @ map byte_of msg)
      in hex_bytes (sha256_bytes (map (\<lambda>b. b XOR 0x5C) k @ inner)))"

section \<open>SHA-1 and name-based identifiers\<close>

fun sha1_extend :: "nat \<Rightarrow> w32 list \<Rightarrow> w32 list" where
  "sha1_extend 0 ws = ws"
| "sha1_extend (Suc k) ws =
     (let t = length ws
      in sha1_extend k (ws @ [word_rotl 1 (ws ! (t - 3) XOR ws ! (t - 8) XOR ws ! (t - 14) XOR ws ! (t - 16))]))"

definition sha1_f :: "nat \<Rightarrow> w32 \<Rightarrow> w32 \<Rightarrow> w32 \<Rightarrow> w32 \<times> w32" where
  "sha1_f t b c d =
     (if t < 20 then ((b AND c) OR (NOT b AND d), 0x5A827999)
      else if t < 40 then (b XOR c XOR d, 0x6ED9EBA1)
      else if t < 60 then ((b AND c) OR (b AND d) OR (c AND d), 0x8F1BBCDC)
      else (b XOR c XOR d, 0xCA62C1D6))"

fun sha1_round :: "w32 list \<Rightarrow> nat \<times> w32 \<Rightarrow> w32 list" where
  "sha1_round [a, b, c, d, e] (t, w) =
     (let (f, k) = sha1_f t b c d
      in [word_rotl 5 a + f + e + k + w, a, word_rotl 30 b, c, d])"
| "sha1_round st _ = st"

definition sha1_block :: "w32 list \<Rightarrow> w32 list \<Rightarrow> w32 list" where
  "sha1_block st blk = map2 (+) st (foldl sha1_round st (zip [0..<80] (sha1_extend 64 blk)))"

definition sha1 :: "w32 list \<Rightarrow> w32 list" where
  "sha1 bs =
     concat (map be_bytes
       (foldl sha1_block [0x67452301, 0xEFCDAB89, 0x98BADCFE, 0x10325476, 0xC3D2E1F0]
         (blocks16 (be_words (md_pad bs)))))"

text \<open>The first 16 bytes of the digest with the version and the variant bits written over.\<close>

definition uuid5 :: "w32 list \<Rightarrow> string \<Rightarrow> string" where
  "uuid5 ns name =
     (let d = take 16 (sha1 (ns @ map byte_of name));
          d1 = d[6 := (d ! 6 AND 0x0F) OR 0x50];
          d2 = d1[8 := (d1 ! 8 AND 0x3F) OR 0x80];
          part = (\<lambda>i n. hex_bytes (take n (drop i d2)))
      in join ''-'' [part 0 4, part 4 2, part 6 2, part 8 2, part 10 6])"

section \<open>Lengths\<close>

lemma length_hex_bytes [simp]: "length (hex_bytes bs) = 2 * length bs"
  by (induction bs) (simp_all add: hex_bytes_def hex_byte_def Let_def)

lemma length_be_bytes [simp]: "length (be_bytes w) = 4"
  by (simp add: be_bytes_def)

lemma length_sha256_round [simp]: "length (sha256_round st kw) = length st"
  by (induction st kw rule: sha256_round.induct) (simp_all add: Let_def)

lemma length_foldl_same:
  "(\<And>s x. length (f s x) = length s) \<Longrightarrow> length (foldl f st xs) = length st"
  by (induction xs arbitrary: st) simp_all

lemma length_sha256_block [simp]: "length (sha256_block st blk) = length st"
  by (simp add: sha256_block_def length_foldl_same)

lemma length_concat_be: "length (concat (map be_bytes ws)) = 4 * length ws"
  by (induction ws) simp_all

text \<open>A digest is 64 hexadecimal digits whatever the input.\<close>

lemma length_sha256_hex [simp]: "length (sha256_hex s) = 64"
  by (simp add: sha256_hex_def length_concat_be length_foldl_same sha256_init_def)

end
