(* ===== verification/Responses.thy ===== *)
theory Responses
  imports Py_Val Py_Hash
begin

text \<open>
  The response envelopes of the mocked vendors: \<open>utils/cs_response.py\<close>,
  \<open>utils/es_response.py\<close>, \<open>utils/mde_response.py\<close>, \<open>utils/graph_response.py\<close>,
  \<open>utils/xdr_response.py\<close> and the error builders of \<open>utils/splunk/response.py\<close>. A body is the
  \<open>pyval\<close> that is serialised. What the builders draw from their surroundings is an argument:
  the trace id or request ids of the request being served, a fresh UUID, the current time.
\<close>

section \<open>CrowdStrike\<close>

text \<open>The context variable \<open>_TRACE_ID\<close>; the token \<open>set\<close> returns is the previous value.\<close>

type_synonym trace_ctx = "string option"

definition set_trace_id :: "string \<Rightarrow> trace_ctx \<Rightarrow> trace_ctx \<times> trace_ctx" where
  "set_trace_id tid ctx = (Some tid, ctx)"

definition reset_trace_id :: "trace_ctx \<Rightarrow> trace_ctx \<Rightarrow> trace_ctx" where
  "reset_trace_id token ctx = token"

definition current_trace_id :: "trace_ctx \<Rightarrow> string \<Rightarrow> string" where
  "current_trace_id ctx fresh = (case ctx of None \<Rightarrow> fresh | Some t \<Rightarrow> if t = [] then fresh else t)"

text \<open>From here on \<open>tid\<close> is the value of \<open>current_trace_id()\<close>.\<close>

definition build_meta :: "string \<Rightarrow> string \<Rightarrow> jobj option \<Rightarrow> pyval" where
  "build_meta tid query_time pagination =
     VDict ([(''query_time'', VFloat query_time), (''powered_by'', VStr ''crowdstrike-api''),
             (''trace_id'', VStr tid)] @
            (case pagination of None \<Rightarrow> [] | Some p \<Rightarrow> [(''pagination'', VDict p)]))"

definition cs_pagination_block :: "int \<Rightarrow> int \<Rightarrow> int \<Rightarrow> jobj" where
  "cs_pagination_block offset limit tot =
     [(''offset'', VInt offset), (''limit'', VInt limit), (''total'', VInt tot)]"

definition build_cs_list_response :: "string \<Rightarrow> pyval list \<Rightarrow> int \<Rightarrow> int \<Rightarrow> int \<Rightarrow> string \<Rightarrow> pyval" where
  "build_cs_list_response tid resources tot offset limit query_time =
     VDict [(''meta'', build_meta tid query_time (Some (cs_pagination_block offset limit tot))),
            (''resources'', VList resources), (''errors'', VList [])]"

definition build_cs_id_response :: "string \<Rightarrow> string list \<Rightarrow> int \<Rightarrow> int \<Rightarrow> int \<Rightarrow> pyval" where
  "build_cs_id_response tid ids tot offset limit =
     VDict [(''meta'', build_meta tid ''0.01'' (Some (cs_pagination_block offset limit tot))),
            (''resources'', VList (map VStr ids)), (''errors'', VList [])]"

definition build_cs_entity_response :: "string \<Rightarrow> pyval list \<Rightarrow> pyval" where
  "build_cs_entity_response tid resources =
     VDict [(''meta'', build_meta tid ''0.01'' None), (''resources'', VList resources),
            (''errors'', VList [])]"

definition build_cs_action_response :: "string \<Rightarrow> pyval list option \<Rightarrow> pyval" where
  "build_cs_action_response tid resources =
     VDict [(''meta'', build_meta tid ''0.01'' None),
            (''resources'', VList (case resources of None \<Rightarrow> [] | Some r \<Rightarrow> r)),
            (''errors'', VList [])]"

definition build_cs_error_response :: "string \<Rightarrow> int \<Rightarrow> string \<Rightarrow> pyval" where
  "build_cs_error_response tid err message =
     VDict [(''meta'', build_meta tid ''0.0'' None),
            (''errors'', VList [VDict [(''code'', VInt err), (''message'', VStr message)]]),
            (''resources'', VList [])]"

definition require_list :: "string \<Rightarrow> pyval \<Rightarrow> string \<Rightarrow> pyval list http" where
  "require_list tid body key =
     (case body of
        VDict d \<Rightarrow>
          (case map_of d key of
             None \<Rightarrow> Inr []
           | Some (VList vs) \<Rightarrow> Inr vs
           | Some _ \<Rightarrow> Inl (HTTPException 400
                              (build_cs_error_response tid 400 (key @ '' must be an array'')) []))
      | _ \<Rightarrow> Inr [])"

definition query_ids :: "string list option \<Rightarrow> string list" where
  "query_ids values =
     concat (map (\<lambda>value. map strip (filter (\<lambda>part. strip part \<noteq> []) (split_on CHR '','' value)))
               (case values of None \<Rightarrow> [] | Some vs \<Rightarrow> vs))"

section \<open>Elasticsearch and Kibana\<close>

definition ES_VERSION :: string where
  "ES_VERSION = ''8.15.0''"

definition KIBANA_VERSION :: string where
  "KIBANA_VERSION = ''8.15.0''"

definition build_es_search_response :: "pyval list \<Rightarrow> int \<Rightarrow> int \<Rightarrow> bool \<Rightarrow> pyval" where
  "build_es_search_response hits tot took sorted_search =
     VDict [(''took'', VInt took), (''timed_out'', VBool False),
            (''_shards'', VDict [(''total'', VInt 1), (''successful'', VInt 1), (''skipped'', VInt 0),
                               (''failed'', VInt 0)]),
            (''hits'', VDict
               [(''total'', VDict [(''value'', VInt tot), (''relation'', VStr ''eq'')]),
                (''max_score'', if sorted_search \<or> hits = [] then VNone else VFloat ''1.0''),
                (''hits'', VList hits)])]"

definition build_kibana_list_response :: "pyval list \<Rightarrow> int \<Rightarrow> int \<Rightarrow> int \<Rightarrow> pyval" where
  "build_kibana_list_response data page per_page tot =
     VDict [(''page'', VInt page), (''per_page'', VInt per_page), (''total'', VInt tot),
            (''data'', VList data)]"

definition build_kibana_rules_response :: "pyval list \<Rightarrow> int \<Rightarrow> int \<Rightarrow> int \<Rightarrow> pyval" where
  "build_kibana_rules_response data page per_page tot =
     VDict [(''page'', VInt page), (''perPage'', VInt per_page), (''total'', VInt tot),
            (''data'', VList data)]"

definition build_kibana_cases_response ::
  "pyval list \<Rightarrow> int \<Rightarrow> int \<Rightarrow> int \<Rightarrow> (string \<times> int) list option \<Rightarrow> pyval" where
  "build_kibana_cases_response cases page per_page tot status_counts =
     (let counts = (case status_counts of None \<Rightarrow> [] | Some c \<Rightarrow> c);
          count = (\<lambda>k. VInt (case map_of counts k of None \<Rightarrow> 0 | Some n \<Rightarrow> n))
      in VDict [(''cases'', VList cases), (''page'', VInt page), (''per_page'', VInt per_page),
                (''total'', VInt tot), (''count_open_cases'', count ''open''),
                (''count_in_progress_cases'', count ''in-progress''),
                (''count_closed_cases'', count ''closed'')])"

definition build_kibana_endpoint_response ::
  "pyval list \<Rightarrow> int \<Rightarrow> int \<Rightarrow> int \<Rightarrow> string \<Rightarrow> string \<Rightarrow> pyval" where
  "build_kibana_endpoint_response data page page_size tot sort_field sort_direction =
     VDict [(''data'', VList data), (''total'', VInt tot), (''page'', VInt page),
            (''pageSize'', VInt page_size), (''sortField'', VStr sort_field),
            (''sortDirection'', VStr sort_direction)]"

text \<open>\<open>{"error": {"root_cause": [dict(cause)], **cause}, "status": status}\<close>.\<close>

definition es_error_body :: "jobj \<Rightarrow> int \<Rightarrow> pyval" where
  "es_error_body cause status =
     VDict [(''error'', VDict (dict_merge [(''root_cause'', VList [VDict cause])] cause)),
            (''status'', VInt status)]"

definition build_es_error_response :: "int \<Rightarrow> string \<Rightarrow> string \<Rightarrow> jobj option \<Rightarrow> pyval" where
  "build_es_error_response status_code error reason detail =
     es_error_body
       (dict_merge [(''type'', VStr error), (''reason'', VStr reason)]
          (case detail of None \<Rightarrow> [] | Some d \<Rightarrow> d)) status_code"

definition build_es_document_missing :: "string \<Rightarrow> string \<Rightarrow> string \<Rightarrow> pyval" where
  "build_es_document_missing index index_uuid doc_id =
     es_error_body [(''type'', VStr ''document_missing_exception''),
       (''reason'', VStr (''['' @ doc_id @ '']: document missing'')),
       (''index_uuid'', VStr index_uuid), (''shard'', VStr ''0''), (''index'', VStr index)] 404"

definition build_es_index_not_found :: "string \<Rightarrow> pyval" where
  "build_es_index_not_found index =
     es_error_body [(''type'', VStr ''index_not_found_exception''),
       (''reason'', VStr (''no such index ['' @ index @ '']'')),
       (''resource.type'', VStr ''index_or_alias''), (''resource.id'', VStr index),
       (''index_uuid'', VStr ''_na_''), (''index'', VStr index)] 404"

definition build_es_invalid_index_name :: "string \<Rightarrow> pyval" where
  "build_es_invalid_index_name index =
     es_error_body [(''type'', VStr ''invalid_index_name_exception''),
       (''reason'', VStr (''Invalid index name ['' @ index @ ''], must not start with '' @
                          [CHR 0x27] @ ''_'' @ [CHR 0x27] @ ''.'')),
       (''index_uuid'', VStr ''_na_''), (''index'', VStr index)] 400"

definition build_es_resource_exists :: "string \<Rightarrow> string \<Rightarrow> pyval" where
  "build_es_resource_exists index uuid =
     es_error_body [(''type'', VStr ''resource_already_exists_exception''),
       (''reason'', VStr (''index ['' @ index @ ''/'' @ uuid @ ''] already exists'')),
       (''index_uuid'', VStr uuid), (''index'', VStr index)] 400"

definition ES_WWW_AUTHENTICATE :: "string list" where
  "ES_WWW_AUTHENTICATE = [''Basic realm=\"security\", charset=\"UTF-8\"'', ''ApiKey'']"

definition build_es_auth_error :: "int \<Rightarrow> string \<Rightarrow> pyval" where
  "build_es_auth_error status_code reason =
     es_error_body
       ([(''type'', VStr ''security_exception''), (''reason'', VStr reason)] @
        (if status_code = 401
         then [(''header'', VDict [(''WWW-Authenticate'', VList (map VStr ES_WWW_AUTHENTICATE))])]
         else [])) status_code"

definition KBN_TITLES :: "(int \<times> string) list" where
  "KBN_TITLES = [(400, ''Bad Request''), (401, ''Unauthorized''), (403, ''Forbidden''),
     (404, ''Not Found''), (405, ''Method Not Allowed''), (409, ''Conflict''),
     (415, ''Unsupported Media Type''), (429, ''Too Many Requests''),
     (500, ''Internal Server Error'')]"

text \<open>\<open>table.get(status, dflt)\<close>.\<close>

definition lookup_default :: "('k \<times> 'v) list \<Rightarrow> 'k \<Rightarrow> 'v \<Rightarrow> 'v" where
  "lookup_default t k v = (case map_of t k of None \<Rightarrow> v | Some x \<Rightarrow> x)"

definition build_kbn_error_response :: "int \<Rightarrow> string \<Rightarrow> pyval" where
  "build_kbn_error_response status_code message =
     VDict [(''statusCode'', VInt status_code),
            (''error'', VStr (lookup_default KBN_TITLES status_code ''Internal Server Error'')),
            (''message'', VStr message)]"

definition SECURITY_SOLUTION_PREFIXES :: "string list" where
  "SECURITY_SOLUTION_PREFIXES = [''/kibana/api/detection_engine'', ''/kibana/api/exception_lists'',
     ''/kibana/api/exceptions'', ''/kibana/api/endpoint'']"

definition build_security_solution_error :: "int \<Rightarrow> string \<Rightarrow> pyval" where
  "build_security_solution_error status_code message =
     VDict [(''message'', VStr message), (''status_code'', VInt status_code)]"

definition is_security_solution_path :: "string \<Rightarrow> bool" where
  "is_security_solution_path path \<longleftrightarrow> list_ex (\<lambda>p. startswith path p) SECURITY_SOLUTION_PREFIXES"

definition build_kibana_error :: "string \<Rightarrow> int \<Rightarrow> string \<Rightarrow> pyval" where
  "build_kibana_error path status_code message =
     (if is_security_solution_path path then build_security_solution_error status_code message
      else build_kbn_error_response status_code message)"

section \<open>Defender for Endpoint and Graph\<close>

definition mde_context :: "string \<Rightarrow> string" where
  "mde_context entity_set = ''https://api.security.microsoft.com/api/$metadata#'' @ entity_set"

text \<open>\<open>build_mde_list_response\<close>; an empty next link is as good as none.\<close>

definition build_mde_list_response ::
  "pyval list \<Rightarrow> string \<Rightarrow> string option \<Rightarrow> int option \<Rightarrow> pyval" where
  "build_mde_list_response value context next_link count =
     VDict ([(''@odata.context'', VStr context), (''value'', VList value)] @
            (case count of None \<Rightarrow> [] | Some n \<Rightarrow> [(''@odata.count'', VInt n)]) @
            (case next_link of None \<Rightarrow> []
             | Some l \<Rightarrow> if l = [] then [] else [(''@odata.nextLink'', VStr l)]))"

text \<open>The namespace 6f1a3d52-0c2e-4a7f-9b8d-2c5e7a1f4b30.\<close>

definition TARGET_NAMESPACE :: "w32 list" where
  "TARGET_NAMESPACE = [0x6F, 0x1A, 0x3D, 0x52, 0x0C, 0x2E, 0x4A, 0x7F,
                       0x9B, 0x8D, 0x2C, 0x5E, 0x7A, 0x1F, 0x4B, 0x30]"

definition build_mde_error_response :: "string \<Rightarrow> string \<Rightarrow> string option \<Rightarrow> pyval" where
  "build_mde_error_response err message target =
     VDict [(''error'', VDict
       [(''code'', VStr err), (''message'', VStr message),
        (''target'', VStr
           (case target of
              None \<Rightarrow> uuid5 TARGET_NAMESPACE (err @ '':'' @ message)
            | Some t \<Rightarrow> if t = [] then uuid5 TARGET_NAMESPACE (err @ '':'' @ message) else t))])]"

definition build_graph_list_response ::
  "pyval list \<Rightarrow> string \<Rightarrow> string option \<Rightarrow> int option \<Rightarrow> pyval" where
  "build_graph_list_response value context next_link count =
     VDict ([(''@odata.context'', VStr context), (''value'', VList value)] @
            (case count of None \<Rightarrow> [] | Some n \<Rightarrow> [(''@odata.count'', VInt n)]) @
            (case next_link of None \<Rightarrow> []
             | Some l \<Rightarrow> if l = [] then [] else [(''@odata.nextLink'', VStr l)]))"

text \<open>
  \<open>ids\<close> is the context variable (the two ids of the request being served), \<open>fresh\<close> the two
  UUIDs drawn when there is none, \<open>now\<close> the value of \<open>utc_now()\<close>.
\<close>

definition build_graph_error_response ::
  "(string \<times> string) option \<Rightarrow> string \<times> string \<Rightarrow> string \<Rightarrow> string \<Rightarrow> string \<Rightarrow> pyval" where
  "build_graph_error_response ids fresh now err message =
     (let (request_id, client_request_id) = (case ids of None \<Rightarrow> fresh | Some p \<Rightarrow> p)
      in VDict [(''error'', VDict
           [(''code'', VStr err), (''message'', VStr message),
            (''innerError'', VDict
               [(''date'', VStr now), (''request-id'', VStr request_id),
                (''client-request-id'', VStr client_request_id)])])])"

section \<open>Cortex XDR\<close>

definition build_xdr_reply :: "pyval \<Rightarrow> pyval" where
  "build_xdr_reply data = VDict [(''reply'', data)]"

text \<open>The items are stored under \<open>key\<close> last, so a key of the header is overwritten by them.\<close>

definition build_xdr_list_reply :: "pyval list \<Rightarrow> int \<Rightarrow> int option \<Rightarrow> string \<Rightarrow> pyval" where
  "build_xdr_list_reply items total_count result_count key =
     VDict [(''reply'', VDict (AList.update key (VList items)
       [(''total_count'', VInt total_count),
        (''result_count'', VInt (case result_count of None \<Rightarrow> int (length items) | Some n \<Rightarrow> n))]))]"

definition build_xdr_error :: "int \<Rightarrow> string \<Rightarrow> string option \<Rightarrow> pyval" where
  "build_xdr_error err_code err_msg err_extra =
     VDict [(''reply'', VDict
       [(''err_code'', VInt err_code), (''err_msg'', VStr err_msg),
        (''err_extra'', case err_extra of None \<Rightarrow> VNone | Some e \<Rightarrow> VStr e)])]"

definition XDR_ERR_NO_ENDPOINT :: string where
  "XDR_ERR_NO_ENDPOINT = ''An error occurred while processing XDR public API - No endpoint was found for creating the requested action''"

definition no_endpoint_error :: pyval where
  "no_endpoint_error = build_xdr_error 500 XDR_ERR_NO_ENDPOINT None"

definition xdr_bad_request :: "string \<Rightarrow> failure" where
  "xdr_bad_request extra = HTTPException 400 (build_xdr_error 400 ''Bad Request'' (Some extra)) []"

definition require_request_data :: "pyval \<Rightarrow> jobj http" where
  "require_request_data body =
     (case field_get body ''request_data'' of
        VDict d \<Rightarrow> Inr d
      | _ \<Rightarrow> Inl (xdr_bad_request ''request_data is required and must be an object''))"

text \<open>\<open>isinstance(v, (str, int))\<close>: a boolean is an integer.\<close>

definition is_str_or_int :: "pyval \<Rightarrow> bool" where
  "is_str_or_int v = (case v of VStr _ \<Rightarrow> True | VInt _ \<Rightarrow> True | VBool _ \<Rightarrow> True | _ \<Rightarrow> False)"

definition require_str_list :: "jobj \<Rightarrow> string \<Rightarrow> string list http" where
  "require_str_list request_data key =
     (case map_of request_data key of
        None \<Rightarrow> Inr []
      | Some VNone \<Rightarrow> Inr []
      | Some (VList vs) \<Rightarrow>
          (if list_all is_str_or_int vs then Inr (map py_str vs)
           else Inl (xdr_bad_request (key @ '' must be an array of strings'')))
      | Some _ \<Rightarrow> Inl (xdr_bad_request (key @ '' must be an array of strings'')))"

text \<open>\<open>",".join(tags)\<close> raises on an element that is not text.\<close>

fun join_strs :: "pyval list \<Rightarrow> string list result" where
  "join_strs [] = Inr []"
| "join_strs (VStr s # vs) = (case join_strs vs of Inl e \<Rightarrow> Inl e | Inr ss \<Rightarrow> Inr (s # ss))"
| "join_strs (v # vs) = Inl (TypeError ''sequence item: expected str instance'')"

definition serialise_endpoint :: "jobj \<Rightarrow> jobj result" where
  "serialise_endpoint record =
     (let rendered = AList.delete ''isolation_requested_at'' record;
          tags = (case map_of rendered ''endpoint_tags'' of
                    None \<Rightarrow> VList []
                  | Some t \<Rightarrow> if truthy t then t else VList []);
          rest = AList.delete ''endpoint_tags'' rendered
      in case tags of
           VList vs \<Rightarrow> (case join_strs vs of
                          Inl e \<Rightarrow> Inl e
                        | Inr ss \<Rightarrow> Inr (AList.update ''endpointTags'' (VStr (join '','' ss)) rest))
         | t \<Rightarrow> Inr (AList.update ''endpointTags'' (VStr (py_str t)) rest))"

definition XDR_MAX_PAGE :: int where
  "XDR_MAX_PAGE = 100"

definition page_bound :: "jobj \<Rightarrow> string \<Rightarrow> int \<Rightarrow> int http" where
  "page_bound request_data key dflt =
     (case map_of request_data key of
        None \<Rightarrow> Inr dflt
      | Some VNone \<Rightarrow> Inr dflt
      | Some (VInt n) \<Rightarrow> (if n < 0 then Inl (xdr_bad_request (key @ '' must be a non-negative integer''))
                          else Inr n)
      | Some _ \<Rightarrow> Inl (xdr_bad_request (key @ '' must be a non-negative integer'')))"

definition page_bounds :: "jobj \<Rightarrow> int option \<Rightarrow> (int \<times> int) http" where
  "page_bounds request_data cap =
     (case page_bound request_data ''search_from'' 0 of
        Inl e \<Rightarrow> Inl e
      | Inr search_from \<Rightarrow>
          (case page_bound request_data ''search_to''
                  (search_from + (case cap of None \<Rightarrow> XDR_MAX_PAGE
                                  | Some c \<Rightarrow> if c = 0 then XDR_MAX_PAGE else c)) of
             Inl e \<Rightarrow> Inl e
           | Inr search_to \<Rightarrow>
               Inr (search_from,
                    case cap of None \<Rightarrow> search_to | Some c \<Rightarrow> min search_to (search_from + c))))"

section \<open>Splunk\<close>

definition SPLUNK_MSG_TYPES :: "(int \<times> string) list" where
  "SPLUNK_MSG_TYPES = [(401, ''WARN'')]"

definition build_splunk_error :: "int \<Rightarrow> string \<Rightarrow> pyval" where
  "build_splunk_error status message =
     VDict [(''messages'', VList
       [VDict [(''type'', VStr (lookup_default SPLUNK_MSG_TYPES status ''ERROR'')),
               (''text'', VStr message)]])]"

definition build_auth_response :: "string \<Rightarrow> pyval" where
  "build_auth_response session_key = VDict [(''sessionKey'', VStr session_key)]"

definition HEC_CODES :: "(int \<times> int) list" where
  "HEC_CODES = [(400, 6), (401, 2), (403, 4), (404, 6), (500, 8), (503, 9)]"

definition build_hec_error :: "int \<Rightarrow> string \<Rightarrow> pyval" where
  "build_hec_error status message =
     VDict [(''text'', VStr message), (''code'', VInt (lookup_default HEC_CODES status 8))]"

section \<open>Properties\<close>

lemma page_bound_nonneg: "page_bound d k n = Inr m \<Longrightarrow> 0 \<le> n \<Longrightarrow> 0 \<le> m"
  by (auto simp: page_bound_def split: option.splits pyval.splits if_splits)

lemma page_bounds_Inr:
  assumes "page_bounds d cap = Inr (f, t)" "\<And>c. cap = Some c \<Longrightarrow> 0 \<le> c"
  shows "0 \<le> f \<and> 0 \<le> t \<and> (\<forall>c. cap = Some c \<longrightarrow> t \<le> f + c)"
proof -
  obtain t0 where f: "page_bound d ''search_from'' 0 = Inr f"
    and t0: "page_bound d ''search_to''
               (f + (case cap of None \<Rightarrow> XDR_MAX_PAGE | Some c \<Rightarrow> if c = 0 then XDR_MAX_PAGE else c)) = Inr t0"
    and t: "t = (case cap of None \<Rightarrow> t0 | Some c \<Rightarrow> min t0 (f + c))"
    using assms(1) by (auto simp: page_bounds_def split: sum.splits)
  have "0 \<le> f" using page_bound_nonneg [OF f] by simp
  moreover have "0 \<le> t0"
    using page_bound_nonneg [OF t0] assms(2) \<open>0 \<le> f\<close> by (auto simp: XDR_MAX_PAGE_def split: option.splits)
  ultimately show ?thesis using t assms(2) by (auto split: option.splits)
qed

lemma length_py_slice_between: "0 \<le> f \<Longrightarrow> 0 \<le> t \<Longrightarrow> length (py_slice xs f t) \<le> nat (t - f)"
  using py_slice_nat [of xs "nat f" "nat t"] by (simp add: nat_diff_distrib')

text \<open>
  A Cortex page is never longer than the documented ceiling: whatever \<open>search_from\<close>
  and \<open>search_to\<close> a request carries, when the bounds are accepted they are non-negative and the
  slice they cut has at most \<open>cap\<close> records; a bound that is present and is neither null nor a
  non-negative integer (a boolean, text, a float, an array) is refused with a 400.
\<close>

theorem xdr_page_capped:
  assumes "0 < cap"
  shows "(case page_bounds d (Some cap) of
            Inr (f, t) \<Rightarrow> 0 \<le> f \<and> 0 \<le> t \<and> length (py_slice xs f t) \<le> nat cap
          | Inl e \<Rightarrow> (\<exists>body. e = HTTPException 400 body [])) \<and>
         ((\<exists>ft. page_bounds d (Some cap) = Inr ft) \<longleftrightarrow>
            list_all (\<lambda>k. case map_of d k of None \<Rightarrow> True | Some VNone \<Rightarrow> True
                            | Some (VInt n) \<Rightarrow> 0 \<le> n | Some _ \<Rightarrow> False) [''search_from'', ''search_to''])"
proof (intro conjI)
  show "case page_bounds d (Some cap) of
            Inr (f, t) \<Rightarrow> 0 \<le> f \<and> 0 \<le> t \<and> length (py_slice xs f t) \<le> nat cap
          | Inl e \<Rightarrow> (\<exists>body. e = HTTPException 400 body [])"
  proof (cases "page_bounds d (Some cap)")
    case (Inl e)
    then show ?thesis
      by (auto simp: page_bounds_def page_bound_def xdr_bad_request_def
          split: sum.splits option.splits pyval.splits if_splits)
  next
    case (Inr ft)
    obtain f t where ft: "ft = (f, t)" by (cases ft)
    then have "0 \<le> f" "0 \<le> t" "t \<le> f + cap"
      using page_bounds_Inr [of d "Some cap" f t] Inr assms by auto
    then show ?thesis
      using Inr ft length_py_slice_between [of f t xs] by (auto intro: order_trans)
  qed
  show "(\<exists>ft. page_bounds d (Some cap) = Inr ft) \<longleftrightarrow>
            list_all (\<lambda>k. case map_of d k of None \<Rightarrow> True | Some VNone \<Rightarrow> True
                            | Some (VInt n) \<Rightarrow> 0 \<le> n | Some _ \<Rightarrow> False) [''search_from'', ''search_to'']"
    by (auto simp: page_bounds_def page_bound_def split: sum.splits option.splits pyval.splits if_splits)
qed

theorem xdr_page_capped_witness:
  "page_bounds [(''search_from'', VInt 7), (''search_to'', VInt 5000)] (Some 100) = Inr (7, 107) \<and>
   length (py_slice (replicate 300 ()) 7 107) \<le> 100"
proof -
  have b: "page_bounds [(''search_from'', VInt 7), (''search_to'', VInt 5000)] (Some 100) = Inr (7, 107)"
    by (simp add: page_bounds_def page_bound_def)
  show ?thesis
    using xdr_page_capped [where cap = 100 and xs = "replicate 300 ()"
        and d = "[(''search_from'', VInt 7), (''search_to'', VInt 5000)]"] b
    by simp
qed

end
