(* ===== verification/Arm.thy ===== *)
theory Arm
  imports Responses
begin

text \<open>
  The Azure Resource Manager envelopes Sentinel answers with,
  \<open>src/backend/utils/sentinel/response.py\<close>. The recorded fixtures the resources are completed
  against are read from disk; \<open>load_fixture\<close> is that read, an argument. The context variable
  that holds the addressed workspace is an argument and a result.
\<close>

section \<open>The addressed workspace\<close>

definition ARM_BASE :: string where
  "ARM_BASE = ''/subscriptions/00000000-0000-0000-0000-000000000000/resourceGroups/mockdr-rg/providers/Microsoft.OperationalInsights/workspaces/mockdr-workspace/providers/Microsoft.SecurityInsights''"

text \<open>
  The pattern \<open>_WORKSPACE_PATH\<close> fixes the path's segments up to the provider: literal ones
  without regard to case, the three names non-empty. Its end is a further segment or the end of
  the path, before which \<open>$\<close> allows one line feed.
\<close>

definition workspace_literals :: "string option list" where
  "workspace_literals =
     [Some '''', Some ''sentinel'', Some ''subscriptions'', None, Some ''resourcegroups'', None,
      Some ''providers'', Some ''microsoft.operationalinsights'', Some ''workspaces'', None,
      Some ''providers'', Some ''microsoft.securityinsights'']"

definition literal_matches :: "string option \<Rightarrow> string \<Rightarrow> bool" where
  "literal_matches l seg = (case l of None \<Rightarrow> seg \<noteq> [] | Some t \<Rightarrow> lower seg = t)"

definition WORKSPACE_PATH_match :: "string \<Rightarrow> string option" where
  "WORKSPACE_PATH_match path =
     (let segs = split_on CHR ''/'' path;
          cut = (if length segs = 12 \<and> endswith (last segs) [CHR 0x0A]
                 then butlast segs @ [butlast (last segs)] else segs)
      in if 12 \<le> length cut \<and> list_all2 literal_matches workspace_literals (take 12 cut)
         then Some (''/'' @ join ''/'' (drop 2 (take 12 cut))) else None)"

definition address_workspace :: "string \<Rightarrow> string \<Rightarrow> string \<times> string option" where
  "address_workspace path base =
     (case WORKSPACE_PATH_match path of None \<Rightarrow> (base, None) | Some b \<Rightarrow> (b, Some base))"

definition release_workspace :: "string option \<Rightarrow> string \<Rightarrow> string" where
  "release_workspace token base = (case token of None \<Rightarrow> base | Some b \<Rightarrow> b)"

section \<open>Fixtures\<close>

definition FIXTURE_BY_TYPE :: "(string \<times> string) list" where
  "FIXTURE_BY_TYPE =
     [(''incidents'', ''incident''), (''incidentComments'', ''incident_comment''),
      (''relations'', ''incident_relation''), (''bookmarks'', ''bookmark''),
      (''watchlists'', ''watchlist''), (''watchlistItems'', ''watchlist_item''),
      (''threatIntelligence/main/indicators'', ''threat_intelligence_indicator''),
      (''securityAlerts'', ''security_alert'')]"

definition RULE_FIXTURE_BY_KIND :: "(string \<times> string) list" where
  "RULE_FIXTURE_BY_KIND =
     [(''Scheduled'', ''scheduled_alert_rule''), (''Fusion'', ''fusion_alert_rule''),
      (''MicrosoftSecurityIncidentCreation'', ''ms_security_incident_creation_alert_rule'')]"

definition CONNECTOR_FIXTURE_BY_KIND :: "(string \<times> string) list" where
  "CONNECTOR_FIXTURE_BY_KIND =
     [(''GenericUI'', ''generic_ui_data_connector''),
      (''AzureActiveDirectory'', ''aad_data_connector''),
      (''AzureAdvancedThreatProtection'', ''aatp_data_connector''),
      (''AzureSecurityCenter'', ''asc_data_connector''),
      (''AmazonWebServicesCloudTrail'', ''aws_cloud_trail_data_connector''),
      (''MicrosoftCloudAppSecurity'', ''mcas_data_connector''),
      (''MicrosoftDefenderAdvancedThreatProtection'', ''mdatp_data_connector''),
      (''ThreatIntelligence'', ''ti_data_connector''), (''Office365'', ''office_data_connector'')]"

definition SYSTEM_DATA :: jobj where
  "SYSTEM_DATA =
     [(''createdBy'', VStr ''mockdr@localhost''), (''createdByType'', VStr ''User''),
      (''createdAt'', VStr ''2024-01-01T00:00:00.0000000Z''),
      (''lastModifiedBy'', VStr ''mockdr@localhost''), (''lastModifiedByType'', VStr ''User''),
      (''lastModifiedAt'', VStr ''2024-01-01T00:00:00.0000000Z'')]"

definition system_data :: "jobj \<Rightarrow> jobj" where
  "system_data properties =
     (let created = dict_get properties ''createdTimeUtc'';
          m = dict_get properties ''lastModifiedTimeUtc'';
          modified = (if truthy m then m else dict_get properties ''lastModifiedUtc'');
          data = (case created of
                    VStr c \<Rightarrow> if c \<noteq> [] then AList.update ''lastModifiedAt'' (VStr c)
                                               (AList.update ''createdAt'' (VStr c) SYSTEM_DATA)
                              else SYSTEM_DATA
                  | _ \<Rightarrow> SYSTEM_DATA)
      in case modified of
           VStr c \<Rightarrow> if c \<noteq> [] then AList.update ''lastModifiedAt'' (VStr c) data else data
         | _ \<Rightarrow> data)"

definition fixture_for :: "(string \<Rightarrow> jobj) \<Rightarrow> string \<Rightarrow> string \<Rightarrow> jobj" where
  "fixture_for load_fixture resource_type kind =
     (let name = (if resource_type = ''alertRules''
                  then lookup_default RULE_FIXTURE_BY_KIND kind ''scheduled_alert_rule''
                  else if resource_type = ''alertRuleTemplates'' then ''scheduled_alert_rule_template''
                  else if resource_type = ''dataConnectors''
                  then lookup_default CONNECTOR_FIXTURE_BY_KIND kind ''''
                  else lookup_default FIXTURE_BY_TYPE resource_type '''')
      in if name \<noteq> [] then load_fixture name else [])"

text \<open>\<open>_blank\<close> rebuilds lists and objects; as a value the copy is equal (\<open>blank_id\<close> below).\<close>

fun blank :: "pyval \<Rightarrow> pyval" where
  "blank (VList vs) = VList (map blank vs)"
| "blank (VDict kvs) = VDict (map (\<lambda>(k, v). (k, blank v)) kvs)"
| "blank v = v"

definition fixture_properties :: "(string \<Rightarrow> jobj) \<Rightarrow> string \<Rightarrow> string \<Rightarrow> jobj" where
  "fixture_properties load_fixture resource_type kind =
     (let p = dict_get (fixture_for load_fixture resource_type kind) ''properties''
      in case blank (if truthy p then p else VDict []) of VDict d \<Rightarrow> d | _ \<Rightarrow> [])"

fun deep_complete :: "jobj \<Rightarrow> jobj \<Rightarrow> jobj" where
  "deep_complete defaults actual =
     map (\<lambda>(key, template).
            (key, case map_of actual key of
                    None \<Rightarrow> blank template
                  | Some value \<Rightarrow>
                      (case template of
                         VDict t \<Rightarrow> (case value of VDict v \<Rightarrow> VDict (deep_complete t v) | _ \<Rightarrow> value)
                       | _ \<Rightarrow> value))) defaults @
     filter (\<lambda>(key, value). key \<notin> set (dict_keys defaults)) actual"

declare deep_complete.simps [simp del]

section \<open>Envelopes\<close>

definition arm_id :: "string \<Rightarrow> string \<Rightarrow> string \<Rightarrow> string" where
  "arm_id base resource_type name = base @ ''/'' @ resource_type @ ''/'' @ name"

definition build_arm_resource ::
  "(string \<Rightarrow> jobj) \<Rightarrow> string \<Rightarrow> string \<Rightarrow> string \<Rightarrow> jobj \<Rightarrow> string \<Rightarrow> string \<Rightarrow> string \<Rightarrow> string \<Rightarrow> jobj" where
  "build_arm_resource load_fixture base resource_type name properties etag kind path type_name =
     (let fixture = fixture_for load_fixture resource_type kind;
          defaults = filter (\<lambda>(k, v). k \<notin> set [''id'', ''name'', ''type'', ''etag'', ''kind'', ''systemData''])
                       fixture;
          result = [(''id'', VStr (if path \<noteq> [] then base @ ''/'' @ path else arm_id base resource_type name)),
                    (''name'', VStr name),
                    (''type'', VStr (''Microsoft.SecurityInsights/'' @
                                     (if type_name \<noteq> [] then type_name else resource_type)))] @
                   (if kind \<noteq> [] then [(''kind'', VStr kind)] else []) @
                   (if etag \<noteq> [] then [(''etag'', VStr ([CHR 0x22] @ etag @ [CHR 0x22]))] else []) @
                   [(''properties'', VDict properties)];
          completed = deep_complete defaults result
      in if ''systemData'' \<in> set (dict_keys fixture)
         then AList.update ''systemData''
                (VDict (deep_complete (system_data properties)
                   (case dict_get completed ''systemData'' of VDict d \<Rightarrow> d | _ \<Rightarrow> []))) completed
         else completed)"

definition build_arm_list :: "pyval list \<Rightarrow> string \<Rightarrow> pyval" where
  "build_arm_list items next_link =
     VDict ([(''value'', VList items)] @
            (if next_link \<noteq> [] then [(''nextLink'', VStr next_link)] else []))"

text \<open>The status and the body (none for 204).\<close>

definition arm_deleted :: "bool \<Rightarrow> int \<times> pyval option" where
  "arm_deleted existed = (if existed then (200, Some (VDict [])) else (204, None))"

definition build_arm_error :: "string \<Rightarrow> string \<Rightarrow> pyval" where
  "build_arm_error err message =
     VDict [(''error'', VDict [(''code'', VStr err), (''message'', VStr message)])]"

definition build_log_analytics_error :: "string \<Rightarrow> string \<Rightarrow> pyval" where
  "build_log_analytics_error inner_code message =
     VDict [(''error'', VDict
       [(''message'', VStr ''The request had some invalid properties''),
        (''code'', VStr ''BadArgumentError''),
        (''innererror'', VDict [(''code'', VStr inner_code), (''message'', VStr message)])])]"

definition build_log_analytics_response :: "pyval list \<Rightarrow> pyval list list \<Rightarrow> pyval" where
  "build_log_analytics_response columns rows =
     VDict [(''tables'', VList [VDict
       [(''name'', VStr ''PrimaryResult''), (''columns'', VList columns),
        (''rows'', VList (map VList rows))]])]"

section \<open>Completion\<close>

lemma blank_id [simp]: "blank v = v"
  by (induction v rule: blank.induct) (auto intro!: map_idI)

text \<open>The value at a path of keys.\<close>

fun at_path :: "pyval \<Rightarrow> string list \<Rightarrow> pyval option" where
  "at_path v [] = Some v"
| "at_path (VDict d) (k # ks) = (case map_of d k of None \<Rightarrow> None | Some v \<Rightarrow> at_path v ks)"
| "at_path v (k # ks) = None"

definition is_dict :: "pyval \<Rightarrow> bool" where
  "is_dict v = (case v of VDict _ \<Rightarrow> True | _ \<Rightarrow> False)"

definition complete_at :: "pyval option \<Rightarrow> pyval option \<Rightarrow> pyval option" where
  "complete_at t v =
     (case v of
        None \<Rightarrow> t
      | Some x \<Rightarrow> (case t of
                    Some (VDict td) \<Rightarrow> (case x of VDict xd \<Rightarrow> Some (VDict (deep_complete td xd)) | _ \<Rightarrow> v)
                  | _ \<Rightarrow> v))"

lemma map_of_deep_complete: "map_of (deep_complete d a) k = complete_at (map_of d k) (map_of a k)"
proof (cases "map_of d k")
  case None
  then have "k \<notin> set (dict_keys d)" by (simp add: map_of_eq_None_iff)
  then have "map_of (filter (\<lambda>(key, value). key \<notin> set (dict_keys d)) a) k = map_of a k"
    by (induction a) force+
  moreover have "map_of (map (\<lambda>(key, t). (key, f key t)) d) k = None" for f :: "string \<Rightarrow> pyval \<Rightarrow> pyval"
    using None by (simp add: map_of_map map_of_eq_None_iff image_iff case_prod_beta)
  ultimately show ?thesis
    using None by (simp add: deep_complete.simps [of d a] map_add_def complete_at_def split: option.splits)
next
  case (Some t)
  have "map_of (map (\<lambda>(key, t). (key, f key t)) d) k = Some (f k t)" for f :: "string \<Rightarrow> pyval \<Rightarrow> pyval"
    using Some by (induction d) auto
  then show ?thesis
    using Some by (auto simp: deep_complete.simps [of d a] map_add_def complete_at_def split: option.splits pyval.splits)
qed

lemma deep_complete_keeps:
  "at_path (VDict a) ks = Some v \<Longrightarrow> \<not> is_dict v \<Longrightarrow> at_path (VDict (deep_complete d a)) ks = Some v"
proof (induction ks arbitrary: a d)
  case Nil
  then show ?case by (auto simp: is_dict_def)
next
  case (Cons k ks)
  obtain x where x: "map_of a k = Some x" "at_path x ks = Some v"
    using Cons.prems by (auto split: option.splits)
  show ?case
  proof (cases "(\<exists>td. map_of d k = Some (VDict td)) \<and> is_dict x")
    case True
    then show ?thesis
      using x Cons.IH Cons.prems(2)
      by (auto simp: map_of_deep_complete complete_at_def is_dict_def split: pyval.splits)
  next
    case False
    then show ?thesis
      using x by (auto simp: map_of_deep_complete complete_at_def is_dict_def split: option.splits pyval.splits)
  qed
qed

lemma deep_complete_declared:
  assumes "at_path (VDict d) ks \<noteq> None"
    "\<And>p q. ks = p @ q \<Longrightarrow> p \<noteq> [] \<Longrightarrow> q \<noteq> [] \<Longrightarrow>
       case at_path (VDict a) p of None \<Rightarrow> True | Some v \<Rightarrow> is_dict v"
  shows "at_path (VDict (deep_complete d a)) ks \<noteq> None"
  using assms
proof (induction ks arbitrary: a d)
  case (Cons k ks)
  obtain t where t: "map_of d k = Some t" "at_path t ks \<noteq> None"
    using Cons.prems(1) by (auto split: option.splits)
  show ?case
  proof (cases "map_of a k")
    case None
    then show ?thesis using t by (simp add: map_of_deep_complete complete_at_def)
  next
    case (Some x)
    show ?thesis
    proof (cases ks)
      case Nil
      then show ?thesis using Some t by (auto simp: map_of_deep_complete complete_at_def split: option.splits pyval.splits)
    next
      case (Cons k' ks')
      from t(2) obtain td where td: "t = VDict td" using Cons by (cases t) auto
      obtain xd where xd: "x = VDict xd"
        using Cons.prems(2) [of "[k]" ks] Some Cons by (auto simp: is_dict_def split: pyval.splits)
      have "at_path (VDict (deep_complete td xd)) ks \<noteq> None"
      proof (rule Cons.IH)
        show "at_path (VDict td) ks \<noteq> None" using t td by simp
      next
        fix p q assume "ks = p @ q" "p \<noteq> []" "q \<noteq> []"
        then show "case at_path (VDict xd) p of None \<Rightarrow> True | Some v \<Rightarrow> is_dict v"
          using Cons.prems(2) [of "k # p" q] Some xd by simp
      qed
      then show ?thesis using Some t td xd by (simp add: map_of_deep_complete complete_at_def)
    qed
  qed
qed simp

lemma deep_complete_invents_nothing:
  "at_path (VDict (deep_complete d a)) ks \<noteq> None \<Longrightarrow>
   at_path (VDict a) ks \<noteq> None \<or> at_path (VDict d) ks \<noteq> None"
proof (induction ks arbitrary: a d)
  case (Cons k ks)
  then show ?case
    by (fastforce simp: map_of_deep_complete complete_at_def split: option.splits pyval.splits)
qed simp

text \<open>
  Completing a Sentinel resource against its recorded fixture serves every property the
  specification declares and never loses a value of the resource: (1) every non-object value of
  the resource, at any depth, is served unchanged; (2) every declared path is present, unless
  the resource has a non-object above it; (3) no path is served that neither declares.
\<close>

theorem deep_complete_correct:
  "(\<forall>ks v. at_path (VDict actual) ks = Some v \<and> \<not> is_dict v \<longrightarrow>
       at_path (VDict (deep_complete defaults actual)) ks = Some v) \<and>
   (\<forall>ks. at_path (VDict defaults) ks \<noteq> None \<and>
       (\<forall>p q. ks = p @ q \<and> p \<noteq> [] \<and> q \<noteq> [] \<longrightarrow>
          (case at_path (VDict actual) p of None \<Rightarrow> True | Some v \<Rightarrow> is_dict v)) \<longrightarrow>
       at_path (VDict (deep_complete defaults actual)) ks \<noteq> None) \<and>
   (\<forall>ks. at_path (VDict (deep_complete defaults actual)) ks \<noteq> None \<longrightarrow>
       at_path (VDict actual) ks \<noteq> None \<or> at_path (VDict defaults) ks \<noteq> None)"
proof (intro conjI allI impI)
  fix ks v
  assume "at_path (VDict actual) ks = Some v \<and> \<not> is_dict v"
  then show "at_path (VDict (deep_complete defaults actual)) ks = Some v"
    by (simp add: deep_complete_keeps)
next
  fix ks
  assume "at_path (VDict defaults) ks \<noteq> None \<and>
       (\<forall>p q. ks = p @ q \<and> p \<noteq> [] \<and> q \<noteq> [] \<longrightarrow>
          (case at_path (VDict actual) p of None \<Rightarrow> True | Some v \<Rightarrow> is_dict v))"
  then show "at_path (VDict (deep_complete defaults actual)) ks \<noteq> None"
    by (intro deep_complete_declared) simp_all
next
  fix ks
  assume "at_path (VDict (deep_complete defaults actual)) ks \<noteq> None"
  then show "at_path (VDict actual) ks \<noteq> None \<or> at_path (VDict defaults) ks \<noteq> None"
    by (rule deep_complete_invents_nothing)
qed

theorem deep_complete_correct_witness:
  "at_path (VDict (deep_complete [(''owner'', VDict [(''email'', VStr ''''), (''upn'', VStr '''')])]
       [(''owner'', VDict [(''email'', VStr ''a@b'')]), (''title'', VStr ''t'')])) [''owner'', ''email'']
     = Some (VStr ''a@b'') \<and>
   at_path (VDict (deep_complete [(''owner'', VDict [(''email'', VStr ''''), (''upn'', VStr '''')])]
       [(''owner'', VDict [(''email'', VStr ''a@b'')]), (''title'', VStr ''t'')])) [''owner'', ''upn'']
     \<noteq> None"
proof -
  define d where "d = [(''owner'', VDict [(''email'', VStr ''''), (''upn'', VStr '''')])]"
  define a where "a = [(''owner'', VDict [(''email'', VStr ''a@b'')]), (''title'', VStr ''t'')]"
  have "at_path (VDict a) [''owner'', ''email''] = Some (VStr ''a@b'')" "\<not> is_dict (VStr ''a@b'')"
    "at_path (VDict d) [''owner'', ''upn''] \<noteq> None"
    by (simp_all add: a_def d_def is_dict_def)
  moreover have "case at_path (VDict a) p of None \<Rightarrow> True | Some v \<Rightarrow> is_dict v"
    if "[''owner'', ''upn''] = p @ q \<and> p \<noteq> [] \<and> q \<noteq> []" for p q
  proof -
    have "p = [''owner'']" using that by (auto simp: append_eq_Cons_conv Cons_eq_append_conv)
    then show ?thesis by (simp add: a_def is_dict_def)
  qed
  ultimately have "at_path (VDict (deep_complete d a)) [''owner'', ''email''] = Some (VStr ''a@b'')"
    "at_path (VDict (deep_complete d a)) [''owner'', ''upn''] \<noteq> None"
    using deep_complete_correct [THEN conjunct1, rule_format, of a "[''owner'', ''email'']" "VStr ''a@b''" d]
      deep_complete_correct [THEN conjunct2, THEN conjunct1, rule_format, of d "[''owner'', ''upn'']" a]
    by fast+
  then show ?thesis unfolding a_def d_def by (rule conjI)
qed

end
