(* ===== verification/Vendor_Errors.thy ===== *)
theory Vendor_Errors
  imports Arm
begin

text \<open>
  Which vendor a request path belongs to and the error body that vendor's clients can read:
  \<open>utils/vendor_errors.py\<close> and \<open>utils/dev_paths.py\<close>.
\<close>

definition VENDOR_PREFIXES :: "(string \<times> string) list" where
  "VENDOR_PREFIXES =
     [(''/web/api/v2.1'', ''s1''), (''/cs'', ''crowdstrike''), (''/mde'', ''mde''),
      (''/graph'', ''graph''), (''/xdr'', ''xdr''), (''/elastic'', ''elasticsearch''),
      (''/kibana'', ''kibana''), (''/splunk/services/collector'', ''splunk_hec''),
      (''/splunk'', ''splunk''), (''/sentinel'', ''sentinel'')]"

definition STATUS_TITLES :: "(int \<times> string) list" where
  "STATUS_TITLES = [(400, ''Bad Request''), (401, ''Unauthorized''), (403, ''Forbidden''),
     (404, ''Not Found''), (405, ''Method Not Allowed''), (409, ''Conflict''),
     (429, ''Too Many Requests''), (500, ''Internal Server Error'')]"

definition ES_TYPES :: "(int \<times> string) list" where
  "ES_TYPES = [(400, ''illegal_argument_exception''), (401, ''security_exception''),
     (403, ''security_exception''), (404, ''resource_not_found_exception''),
     (429, ''circuit_breaking_exception''), (500, ''exception'')]"

definition S1_TITLES :: "(int \<times> string) list" where
  "S1_TITLES = [(400, ''Validation Error''), (401, ''Authentication Failed''),
     (403, ''Insufficient permissions''), (404, ''Requested resource was not found''),
     (501, ''Not supported'')]"

definition MDE_CODES :: "(int \<times> string) list" where
  "MDE_CODES = [(400, ''BadRequest''), (401, ''Unauthorized''), (403, ''Forbidden''),
     (404, ''ResourceNotFound''), (405, ''BadRequest''), (409, ''Conflict''),
     (429, ''TooManyRequests''), (500, ''InternalServerError'')]"

definition GRAPH_CODES :: "(int \<times> string) list" where
  "GRAPH_CODES = [(400, ''badRequest''), (401, ''InvalidAuthenticationToken''),
     (403, ''Authorization_RequestDenied''), (404, ''Request_ResourceNotFound''),
     (405, ''badRequest''), (409, ''Request_BadRequest''), (429, ''TooManyRequests''),
     (500, ''generalException'')]"

definition ARM_CODES :: "(int \<times> string) list" where
  "ARM_CODES = [(400, ''BadRequest''), (401, ''AuthenticationFailed''),
     (403, ''AuthorizationFailed''), (404, ''ResourceNotFound''), (405, ''BadRequest''),
     (409, ''Conflict''), (429, ''TooManyRequests''), (500, ''InternalServerError'')]"

definition under_mount :: "string \<Rightarrow> string \<Rightarrow> bool" where
  "under_mount path prefix \<longleftrightarrow> path = prefix \<or> startswith path (prefix @ ''/'')"

definition vendor_mount_for_path :: "string \<Rightarrow> string option" where
  "vendor_mount_for_path path =
     map_option snd (find (\<lambda>(prefix, vendor). under_mount path prefix) VENDOR_PREFIXES)"

definition vendor_for_path :: "string \<Rightarrow> string" where
  "vendor_for_path path = (case vendor_mount_for_path path of None \<Rightarrow> ''s1'' | Some v \<Rightarrow> v)"

text \<open>What an error body draws from the request being served and its surroundings.\<close>

record err_env =
  env_trace :: string
  env_graph_ids :: "(string \<times> string) option"
  env_fresh_ids :: "string \<times> string"
  env_now :: string

definition build_vendor_error :: "err_env \<Rightarrow> string \<Rightarrow> int \<Rightarrow> string \<Rightarrow> pyval" where
  "build_vendor_error env vndr status message =
     (if vndr = ''crowdstrike'' then build_cs_error_response (env_trace env) status message
      else if vndr = ''mde''
      then build_mde_error_response (lookup_default MDE_CODES status ''InternalServerError'') message None
      else if vndr = ''graph''
      then build_graph_error_response (env_graph_ids env) (env_fresh_ids env) (env_now env)
             (lookup_default GRAPH_CODES status ''generalException'') message
      else if vndr = ''sentinel''
      then build_arm_error (lookup_default ARM_CODES status ''InternalServerError'') message
      else if vndr = ''xdr'' then build_xdr_error status message None
      else if vndr = ''elasticsearch''
      then build_es_error_response status (lookup_default ES_TYPES status ''exception'') message None
      else if vndr = ''kibana'' then build_kbn_error_response status message
      else if vndr = ''splunk_hec'' then build_hec_error status message
      else if vndr = ''splunk'' then build_splunk_error status message
      else VDict [(''errors'', VList [VDict
             [(''code'', VInt (status * 10000 + 10)), (''detail'', VStr message),
              (''title'', VStr (lookup_default S1_TITLES status
                                 (lookup_default STATUS_TITLES status ''Error'')))]])])"

definition DEV_PREFIX :: string where
  "DEV_PREFIX = ''/web/api/v2.1/_dev/''"

definition is_dev_path :: "string \<Rightarrow> bool" where
  "is_dev_path path = startswith path DEV_PREFIX"

section \<open>Mounts\<close>

lemma startswith_prefix: "startswith s p \<longleftrightarrow> (\<exists>t. s = p @ t)"
  by (auto simp: startswith_def) (metis append_take_drop_id)

lemma under_mount_cases: "under_mount path p \<longleftrightarrow> (\<exists>t. path = p @ t \<and> (t = [] \<or> hd t = CHR ''/''))"
proof
  assume "under_mount path p"
  then show "\<exists>t. path = p @ t \<and> (t = [] \<or> hd t = CHR ''/'')"
    by (auto simp: under_mount_def startswith_prefix)
next
  assume "\<exists>t. path = p @ t \<and> (t = [] \<or> hd t = CHR ''/'')"
  then obtain t where "path = p @ t" "t = [] \<or> hd t = CHR ''/''" by blast
  then show "under_mount path p"
    by (cases t) (auto simp: under_mount_def startswith_prefix)
qed

text \<open>
  Two mounts on one path are one inside the other, and the table lists no mount before one
  inside it.
\<close>

lemma mounts_nested: "under_mount path p \<Longrightarrow> under_mount path q \<Longrightarrow> length p \<le> length q \<Longrightarrow> under_mount q p"
proof -
  assume a: "under_mount path p" "under_mount path q" "length p \<le> length q"
  from a(1) obtain s where s: "path = p @ s" "s = [] \<or> hd s = CHR ''/''"
    by (auto simp: under_mount_cases)
  from a(2) obtain t where "path = q @ t" by (auto simp: under_mount_cases)
  with s have st: "path = p @ s" "s = [] \<or> hd s = CHR ''/''" "path = q @ t" by simp_all
  then obtain u where u: "q = p @ u" "s = u @ t"
    using a(3) by (auto simp: append_eq_append_conv2)
  have "u = [] \<or> hd u = CHR ''/''" using st(2) u(2) by (cases u) auto
  then show "under_mount q p" using u by (auto simp: under_mount_cases)
qed

fun inner_first :: "(string \<times> string) list \<Rightarrow> bool" where
  "inner_first [] = True"
| "inner_first ((p, v) # t) \<longleftrightarrow> list_all (\<lambda>(q, w). \<not> under_mount q p) t \<and> inner_first t"

lemma VENDOR_PREFIXES_inner_first: "inner_first VENDOR_PREFIXES"
  by (simp add: VENDOR_PREFIXES_def under_mount_def startswith_def)

lemma find_pair: "find (\<lambda>(p, v). P p) t = Some (p, v) \<Longrightarrow> (p, v) \<in> set t \<and> P p"
  by (induction t) (auto split: if_splits)

lemma first_mount_is_longest:
  assumes "inner_first t" "find (\<lambda>(p, v). under_mount path p) t = Some (p, v)"
    "(q, w) \<in> set t" "under_mount path q"
  shows "length q \<le> length p"
  using assms
proof (induction t rule: inner_first.induct)
  case (2 p' v' t)
  show ?case
  proof (cases "under_mount path p'")
    case True
    then have p: "p' = p" using 2 by simp
    show ?thesis
    proof (rule ccontr)
      assume "\<not> length q \<le> length p"
      then have "under_mount q p" using mounts_nested [OF True 2(5)] p by simp
      moreover have "(q, w) \<in> set t" using 2(4) p \<open>\<not> length q \<le> length p\<close> by auto
      ultimately show False using 2(2) p by (auto simp: list_all_iff)
    qed
  next
    case False
    then show ?thesis using 2 by auto
  qed
qed simp

text \<open>
  The mount of a path is the longest prefix of the table that covers it at a segment
  boundary, and there is none exactly when no prefix does: a vendor's paths are never answered
  as another's (HEC under Splunk in particular), and \<open>/csx\<close> is not CrowdStrike's.
\<close>

theorem vendor_mount_longest_prefix:
  "(case vendor_mount_for_path path of
      None \<Rightarrow> list_all (\<lambda>(q, w). \<not> under_mount path q) VENDOR_PREFIXES
    | Some v \<Rightarrow> list_ex (\<lambda>(p, w). w = v \<and> under_mount path p \<and>
                   list_all (\<lambda>(q, _). under_mount path q \<longrightarrow> length q \<le> length p) VENDOR_PREFIXES)
                 VENDOR_PREFIXES)"
proof (cases "find (\<lambda>(prefix, v). under_mount path prefix) VENDOR_PREFIXES")
  case None
  then have "list_all (\<lambda>(q, w). \<not> under_mount path q) VENDOR_PREFIXES"
    by (auto simp: find_None_iff list_all_iff)
  then show ?thesis using None by (simp add: vendor_mount_for_path_def)
next
  case (Some pv)
  obtain p v where pv: "pv = (p, v)" by (cases pv)
  have mem: "(p, v) \<in> set VENDOR_PREFIXES" "under_mount path p"
    using find_pair [OF Some [unfolded pv]] by simp_all
  have "list_all (\<lambda>(q, _). under_mount path q \<longrightarrow> length q \<le> length p) VENDOR_PREFIXES"
    using first_mount_is_longest [OF VENDOR_PREFIXES_inner_first] Some pv
    by (auto simp: list_all_iff)
  then show ?thesis
    using mem Some pv by (auto simp: vendor_mount_for_path_def list_ex_iff)
qed

theorem vendor_mount_longest_prefix_witness:
  "vendor_mount_for_path ''/splunk/services/collector/event'' = Some ''splunk_hec'' \<and>
   vendor_mount_for_path ''/csx'' = None \<and>
   list_all (\<lambda>(q, w). \<not> under_mount ''/csx'' q) VENDOR_PREFIXES"
proof -
  have "vendor_mount_for_path ''/splunk/services/collector/event'' = Some ''splunk_hec''"
    "vendor_mount_for_path ''/csx'' = None"
    by (simp_all add: vendor_mount_for_path_def VENDOR_PREFIXES_def under_mount_def startswith_def)
  then show ?thesis using vendor_mount_longest_prefix [of "''/csx''"] by simp
qed

section \<open>What a client reads out of an error body\<close>

text \<open>
  Where each vendor's clients look for the message and, where the body carries it, for the
  status.
\<close>

fun dig :: "pyval \<Rightarrow> string list \<Rightarrow> pyval" where
  "dig v [] = v"
| "dig v (k # ks) =
     (case v of VDict d \<Rightarrow> dig (dict_get d k) ks
      | VList (x # xs) \<Rightarrow> (if k = ''[0]'' then dig x ks else VNone)
      | _ \<Rightarrow> VNone)"

definition message_path :: "string \<Rightarrow> string list" where
  "message_path vndr =
     (if vndr = ''crowdstrike'' then [''errors'', ''[0]'', ''message'']
      else if vndr \<in> {''mde'', ''graph'', ''sentinel''} then [''error'', ''message'']
      else if vndr = ''xdr'' then [''reply'', ''err_msg'']
      else if vndr = ''elasticsearch'' then [''error'', ''reason'']
      else if vndr = ''kibana'' then [''message'']
      else if vndr = ''splunk_hec'' then [''text'']
      else if vndr = ''splunk'' then [''messages'', ''[0]'', ''text'']
      else [''errors'', ''[0]'', ''detail''])"

definition status_in_body :: "string \<Rightarrow> pyval \<Rightarrow> int option" where
  "status_in_body vndr body =
     (let num = (\<lambda>v. case v of VInt n \<Rightarrow> Some n | _ \<Rightarrow> None)
      in if vndr = ''crowdstrike'' then num (dig body [''errors'', ''[0]'', ''code''])
         else if vndr = ''xdr'' then num (dig body [''reply'', ''err_code''])
         else if vndr = ''elasticsearch'' then num (dig body [''status''])
         else if vndr = ''kibana'' then num (dig body [''statusCode''])
         else if vndr = ''s1'' then map_option (\<lambda>n. n div 10000) (num (dig body [''errors'', ''[0]'', ''code'']))
         else None)"

lemma build_vendor_error_s1:
  "build_vendor_error env ''s1'' status message =
     VDict [(''errors'', VList [VDict
             [(''code'', VInt (status * 10000 + 10)), (''detail'', VStr message),
              (''title'', VStr (lookup_default S1_TITLES status
                                 (lookup_default STATUS_TITLES status ''Error'')))]])]"
  by (simp add: build_vendor_error_def)

lemmas error_builders =
  build_vendor_error_def build_cs_error_response_def build_mde_error_response_def
  build_graph_error_response_def build_arm_error_def build_xdr_error_def
  build_es_error_response_def es_error_body_def dict_merge_def build_kbn_error_response_def
  build_hec_error_def build_splunk_error_def

text \<open>
  Whatever path a framework-level failure happens on, the message is where that vendor's
  clients read it, and so is the status for the five vendors whose body carries it. In
  particular no vendor is answered in another's envelope.
\<close>

theorem vendor_error_readable:
  "dig (build_vendor_error env (vendor_for_path path) status message)
       (message_path (vendor_for_path path)) = VStr message \<and>
   (vendor_for_path path \<in> {''crowdstrike'', ''xdr'', ''elasticsearch'', ''kibana'', ''s1''} \<longrightarrow>
      status_in_body (vendor_for_path path)
        (build_vendor_error env (vendor_for_path path) status message) = Some status)"
proof -
  have "vendor_for_path path \<in> set (''s1'' # map snd VENDOR_PREFIXES)"
    by (force simp: vendor_for_path_def vendor_mount_for_path_def dest!: find_pair split: option.splits)
  then consider "vendor_for_path path = ''s1''" | "vendor_for_path path = ''crowdstrike''"
    | "vendor_for_path path = ''mde''" | "vendor_for_path path = ''graph''"
    | "vendor_for_path path = ''xdr''" | "vendor_for_path path = ''elasticsearch''"
    | "vendor_for_path path = ''kibana''" | "vendor_for_path path = ''splunk_hec''"
    | "vendor_for_path path = ''splunk''" | "vendor_for_path path = ''sentinel''"
    by (auto simp: VENDOR_PREFIXES_def)
  then show ?thesis
    by cases (simp_all add: error_builders message_path_def status_in_body_def
        split: option.splits prod.splits)
qed

theorem vendor_error_readable_witness:
  "let env0 = \<lparr>env_trace = ''t'', env_graph_ids = None, env_fresh_ids = (''a'', ''b''), env_now = ''n''\<rparr>;
       body = build_vendor_error env0 ''kibana'' 404 ''gone''
   in status_in_body ''kibana'' body = Some 404 \<and> dig body [''message''] = VStr ''gone''"
proof -
  have v: "vendor_for_path ''/kibana/api/cases'' = ''kibana''"
    by (simp add: vendor_for_path_def vendor_mount_for_path_def VENDOR_PREFIXES_def under_mount_def
        startswith_def)
  have "message_path ''kibana'' = [''message'']" by (simp add: message_path_def)
  then show ?thesis
    using vendor_error_readable [where path = "''/kibana/api/cases''" and status = 404
        and message = "''gone''"] v
    by (simp add: Let_def del: dig.simps)
qed

end
