(* ===== verification/Traffic.thy ===== *)
theory Traffic
  imports Vendor_Errors
begin

text \<open>
  The two traffic-shaping middlewares: \<open>api/middleware/rate_limit.py\<close> and
  \<open>api/middleware/fault_injection.py\<close>. A middleware call maps its state and a request scope to
  the new state and what happens to the request: it is forwarded to the application (with the
  headers to stamp on the answer) or answered. There is no \<open>await\<close> between reading a bucket
  and appending to it, so a call is one step of the event loop.

  The readings a call takes are arguments: the monotonic clock when the bucket is read and when
  the request is counted, the wall clock, a fresh UUID. Clock values are exact rationals:
  subtracting 60 from a non-negative double is exact above 60 and only moves values that are
  below every reading otherwise. Header text is ASCII, on which decoding and encoding are the
  identity.
\<close>

section \<open>Rate limiting\<close>

record http_scope =
  scope_type :: string
  scope_path :: string
  scope_headers :: "(string \<times> string) list"

record limiter =
  enabled :: bool
  requests_per_minute :: int
  counters :: "(string, rat list) dict"

record readings =
  t_bucket :: rat
  t_append :: rat
  wall_clock :: int
  fresh_uuid :: string
  err_readings :: err_env

datatype outcome =
    Forward "(string \<times> string) list"
  | Answer int "(string \<times> string) list" pyval

definition RETRY_AFTER_SECONDS :: int where
  "RETRY_AFTER_SECONDS = 60"

definition rate_limited_body :: "err_env \<Rightarrow> http_scope \<Rightarrow> pyval" where
  "rate_limited_body env sc =
     build_vendor_error env (vendor_for_path (scope_path sc)) 429 ''Rate limit exceeded''"

definition UNAUTHENTICATED_EXEMPT_PATHS :: "string list" where
  "UNAUTHENTICATED_EXEMPT_PATHS = [''/web/api/v2.1/system/status'']"

definition CS_API_LIMIT :: int where
  "CS_API_LIMIT = 6000"

definition CS_UNAUTHENTICATED_LIMIT :: int where
  "CS_UNAUTHENTICATED_LIMIT = 300"

definition init_limiter :: limiter where
  "init_limiter = \<lparr>enabled = False, requests_per_minute = 60, counters = []\<rparr>"

definition set_config :: "bool \<Rightarrow> int \<Rightarrow> limiter \<Rightarrow> limiter" where
  "set_config e rpm l = l\<lparr>enabled := e, requests_per_minute := rpm\<rparr>"

definition reset_counters :: "limiter \<Rightarrow> limiter" where
  "reset_counters l = l\<lparr>counters := []\<rparr>"

definition token_hint :: "http_scope \<Rightarrow> string option" where
  "token_hint sc =
     map_option (\<lambda>(name, value). sha256_hex value)
       (find (\<lambda>(name, value). lower name = ''authorization'') (scope_headers sc))"

definition bucket_for :: "string \<Rightarrow> rat \<Rightarrow> (string, rat list) dict \<Rightarrow> (string, rat list) dict \<times> rat list" where
  "bucket_for key now c =
     (let window_start = now - 60;
          kept = filter (\<lambda>(k, v). \<not> (v = [] \<or> last v < window_start)) c;
          bucket = dropWhile (\<lambda>t. t < window_start) (case map_of kept key of None \<Rightarrow> [] | Some v \<Rightarrow> v)
      in (AList.update key bucket kept, bucket))"

definition refuse :: "err_env \<Rightarrow> http_scope \<Rightarrow> (string \<times> string) list \<Rightarrow> outcome" where
  "refuse env sc extra =
     Answer 429 ([(''content-type'', ''application/json''),
                  (''retry-after'', str_of_int RETRY_AFTER_SECONDS)] @ extra)
       (rate_limited_body env sc)"

definition falcon :: "limiter \<Rightarrow> http_scope \<Rightarrow> string option \<Rightarrow> readings \<Rightarrow> limiter \<times> outcome" where
  "falcon l sc hint rd =
     (let unauthenticated = (hint = None \<or> startswith (scope_path sc) ''/cs/oauth2/'');
          limit = (if enabled l then requests_per_minute l
                   else if unauthenticated then CS_UNAUTHENTICATED_LIMIT else CS_API_LIMIT);
          trace_id = fresh_uuid rd;
          key = (if unauthenticated then ''unauthenticated'' else the hint);
          (c, bucket) = bucket_for key (t_bucket rd) (counters l)
      in if enabled l \<and> \<not> unauthenticated \<and> limit \<le> int (length bucket)
         then (l\<lparr>counters := c\<rparr>,
               refuse ((err_readings rd)\<lparr>env_trace := trace_id\<rparr>) sc
                 [(''x-cs-traceid'', trace_id), (''x-ratelimit-limit'', str_of_int limit),
                  (''x-ratelimit-remaining'', ''0''),
                  (''x-ratelimit-retryafter'', str_of_int (wall_clock rd + RETRY_AFTER_SECONDS))])
         else (l\<lparr>counters := AList.update key (bucket @ [t_append rd]) c\<rparr>,
               Forward [(''x-cs-traceid'', trace_id), (''x-ratelimit-limit'', str_of_int limit),
                        (''x-ratelimit-remaining'',
                         str_of_int (max 0 (limit - int (length (bucket @ [t_append rd])))))]))"

definition rate_limit_call :: "limiter \<Rightarrow> http_scope \<Rightarrow> readings \<Rightarrow> limiter \<times> outcome" where
  "rate_limit_call l sc rd =
     (if scope_type sc \<noteq> ''http'' then (l, Forward [])
      else if is_dev_path (scope_path sc) \<or> scope_path sc \<in> set UNAUTHENTICATED_EXEMPT_PATHS
      then (l, Forward [])
      else if startswith (scope_path sc) ''/cs'' then falcon l sc (token_hint sc) rd
      else case token_hint sc of
             None \<Rightarrow> (l, Forward [])
           | Some key \<Rightarrow>
               (if \<not> enabled l then (l, Forward [])
                else let (c, bucket) = bucket_for key (t_bucket rd) (counters l)
                     in if requests_per_minute l \<le> int (length bucket)
                        then (l\<lparr>counters := c\<rparr>, refuse (err_readings rd) sc [])
                        else (l\<lparr>counters := AList.update key (bucket @ [t_append rd]) c\<rparr>, Forward [])))"

section \<open>Fault injection\<close>

record fault_config =
  delay_ms :: int
  delay_jitter_ms :: int
  error_rate :: rat
  error_status :: int

definition default_fault_config :: fault_config where
  "default_fault_config = \<lparr>delay_ms = 0, delay_jitter_ms = 0, error_rate = 0, error_status = 500\<rparr>"

text \<open>
  The generator \<open>_rng\<close> has the states \<open>'g\<close>; \<open>seeded\<close> is the state \<open>_rng.seed(_FAULT_SEED)\<close>
  gives, \<open>randint\<close> and \<open>random\<close> its two draws.
\<close>

record 'g faults =
  fault_cfg :: fault_config
  rng :: 'g

definition or_keep :: "'a option \<Rightarrow> 'a \<Rightarrow> 'a" where
  "or_keep new old = (case new of None \<Rightarrow> old | Some x \<Rightarrow> x)"

definition set_fault_config ::
  "'g \<Rightarrow> int option \<Rightarrow> int option \<Rightarrow> rat option \<Rightarrow> int option \<Rightarrow> 'g faults \<Rightarrow> 'g faults" where
  "set_fault_config seeded d j r st f =
     \<lparr>fault_cfg = \<lparr>delay_ms = or_keep d (delay_ms (fault_cfg f)),
                   delay_jitter_ms = or_keep j (delay_jitter_ms (fault_cfg f)),
                   error_rate = or_keep r (error_rate (fault_cfg f)),
                   error_status = or_keep st (error_status (fault_cfg f))\<rparr>,
      rng = seeded\<rparr>"

definition reset_fault_config :: "'g \<Rightarrow> 'g faults \<Rightarrow> 'g faults" where
  "reset_fault_config seeded f = \<lparr>fault_cfg = default_fault_config, rng = seeded\<rparr>"

text \<open>The result: the new state, the delay slept in milliseconds, and what happens to the request.\<close>

definition fault_call ::
  "('g \<Rightarrow> int \<Rightarrow> int \<Rightarrow> 'g \<times> int) \<Rightarrow> ('g \<Rightarrow> 'g \<times> rat) \<Rightarrow> 'g faults \<Rightarrow> http_scope \<Rightarrow> err_env \<Rightarrow>
   'g faults \<times> int \<times> outcome" where
  "fault_call randint random f sc env =
     (if scope_type sc \<noteq> ''http'' then (f, 0, Forward [])
      else if is_dev_path (scope_path sc) then (f, 0, Forward [])
      else let cfg = fault_cfg f;
               (g1, total_delay) =
                 (if 0 < delay_jitter_ms cfg
                  then let (g, j) = randint (rng f) 0 (delay_jitter_ms cfg) in (g, delay_ms cfg + j)
                  else (rng f, delay_ms cfg));
               slept = (if 0 < total_delay then total_delay else 0);
               (g2, fail) = (if 0 < error_rate cfg
                             then let (g, x) = random g1 in (g, x < error_rate cfg) else (g1, False))
           in (f\<lparr>rng := g2\<rparr>, slept,
               if fail
               then Answer (error_status cfg) [(''content-type'', ''application/json'')]
                      (build_vendor_error env (vendor_for_path (scope_path sc)) (error_status cfg)
                         ''Injected error (fault injection enabled)'')
               else Forward []))"

section \<open>The limiter against its history\<close>

text \<open>
  The specification keeps the whole history of counted requests (key and time, oldest first)
  and never forgets one; the middleware keeps only the buckets.
\<close>

type_synonym history = "(string \<times> rat) list"

definition times :: "string \<Rightarrow> history \<Rightarrow> rat list" where
  "times k h = map snd (filter (\<lambda>(k', t). k' = k) h)"

definition used :: "string \<Rightarrow> rat \<Rightarrow> history \<Rightarrow> int" where
  "used k now h = int (length (filter (\<lambda>t. now - 60 \<le> t) (times k h)))"

definition charged_key :: "limiter \<Rightarrow> http_scope \<Rightarrow> string option" where
  "charged_key l sc =
     (if scope_type sc \<noteq> ''http'' \<or> is_dev_path (scope_path sc) \<or>
         scope_path sc \<in> set UNAUTHENTICATED_EXEMPT_PATHS then None
      else if startswith (scope_path sc) ''/cs''
      then (if startswith (scope_path sc) ''/cs/oauth2/'' then Some ''unauthenticated''
            else case token_hint sc of None \<Rightarrow> Some ''unauthenticated'' | Some k \<Rightarrow> Some k)
      else if enabled l then token_hint sc else None)"

definition spec_call :: "limiter \<Rightarrow> history \<Rightarrow> http_scope \<Rightarrow> readings \<Rightarrow> history \<times> bool" where
  "spec_call l h sc rd =
     (case charged_key l sc of
        None \<Rightarrow> (h, True)
      | Some k \<Rightarrow>
          (if enabled l \<and> k \<noteq> ''unauthenticated'' \<and> requests_per_minute l \<le> used k (t_bucket rd) h
           then (h, False) else (h @ [(k, t_append rd)], True)))"

definition bucket_of :: "(string, rat list) dict \<Rightarrow> string \<Rightarrow> rat list" where
  "bucket_of c k = (case map_of c k of None \<Rightarrow> [] | Some b \<Rightarrow> b)"

text \<open>
  What the buckets hold of the history: a suffix of each key's times, cut where a full minute
  has passed.
\<close>

definition tracks :: "(string, rat list) dict \<Rightarrow> history \<Rightarrow> rat \<Rightarrow> bool" where
  "tracks c h now \<longleftrightarrow>
     wf_dict c \<and> (\<forall>k. sorted (times k h)) \<and> (\<forall>k. \<forall>t \<in> set (times k h). t \<le> now) \<and>
     (\<forall>k. \<exists>old. times k h = old @ bucket_of c k \<and> (\<forall>t \<in> set old. t < now - 60))"

lemma tracksD:
  assumes "tracks c h now"
  shows "wf_dict c" "sorted (times k h)" "t \<in> set (times k h) \<Longrightarrow> t \<le> now"
    "\<exists>old. times k h = old @ bucket_of c k \<and> (\<forall>t \<in> set old. t < now - 60)"
  using assms by (auto simp: tracks_def)

lemma tracks_init: "tracks [] [] now"
  by (simp add: tracks_def times_def bucket_of_def)

lemma tracks_later: "tracks c h now \<Longrightarrow> now \<le> now' \<Longrightarrow> tracks c h now'"
  unfolding tracks_def by (meson diff_right_mono order_less_le_trans order_trans)

lemma times_snoc: "times k (h @ [(k', t)]) = (if k' = k then times k h @ [t] else times k h)"
  by (simp add: times_def)

lemma sorted_dropWhile_filter: "sorted (xs :: rat list) \<Longrightarrow> dropWhile (\<lambda>t. t < a) xs = filter (\<lambda>t. a \<le> t) xs"
proof (induction xs)
  case (Cons x xs)
  show ?case
  proof (cases "x < a")
    case True
    then show ?thesis using Cons by simp
  next
    case False
    then have "\<forall>y \<in> set (x # xs). a \<le> y" using Cons.prems by auto
    then have "filter (\<lambda>t. a \<le> t) (x # xs) = x # xs" by (simp only: filter_id_conv)
    then show ?thesis using False by simp
  qed
qed simp

lemma sorted_below_last: "sorted (xs :: rat list) \<Longrightarrow> xs = [] \<or> last xs < a \<Longrightarrow> x \<in> set xs \<Longrightarrow> x < a"
proof (induction xs)
  case (Cons y ys)
  show ?case
  proof (cases "ys = []")
    case False
    then have l: "last ys < a" "y \<le> last ys" using Cons.prems by (auto simp: last_in_set)
    then show ?thesis using Cons False by (cases "x = y") (auto intro: order_le_less_trans [of _ "last ys"])
  qed (use Cons in auto)
qed simp

lemma map_of_filter_values:
  "wf_dict c \<Longrightarrow> map_of (filter (\<lambda>(k, v). P v) c) k =
     (case map_of c k of None \<Rightarrow> None | Some v \<Rightarrow> if P v then Some v else None)"
proof (induction c)
  case (Cons p c)
  obtain k' v where p: "p = (k', v)" by (cases p)
  then have "map_of c k' = None" using Cons.prems by (simp add: map_of_eq_None_iff)
  then show ?case using Cons p by (auto split: option.splits)
qed simp

lemma wf_dict_filter: "wf_dict c \<Longrightarrow> wf_dict (filter P c)"
  by (simp add: distinct_map_filter)

lemma bucket_of_update [simp]:
  "bucket_of (AList.update k b c) k' = (if k' = k then b else bucket_of c k')"
  by (simp add: bucket_of_def)

text \<open>Evicting the stale buckets forgets only times older than a minute.\<close>

lemma tracks_evict:
  assumes "tracks c h now" "now \<le> t"
  shows "tracks (filter (\<lambda>(k, v). \<not> (v = [] \<or> last v < t - 60)) c) h t"
  unfolding tracks_def
proof (intro conjI allI ballI)
  let ?c = "filter (\<lambda>(k, v). \<not> (v = [] \<or> last v < t - 60)) c"
  have tr: "tracks c h t" using tracks_later [OF assms] .
  show "wf_dict ?c" using tracksD(1) [OF tr] by (rule wf_dict_filter)
  show "sorted (times k h)" for k using tracksD(2) [OF tr] .
  show "x \<le> t" if "x \<in> set (times k h)" for k x using tracksD(3) [OF tr that] .
  show "\<exists>old. times k h = old @ bucket_of ?c k \<and> (\<forall>x \<in> set old. x < t - 60)" for k
  proof -
    obtain old where old: "times k h = old @ bucket_of c k" "\<forall>x \<in> set old. x < t - 60"
      using tracksD(4) [OF tr] by blast
    show ?thesis
    proof (cases "bucket_of ?c k = bucket_of c k")
      case True
      then show ?thesis using old by auto
    next
      case False
      then have gone: "bucket_of ?c k = []" and "bucket_of c k = [] \<or> last (bucket_of c k) < t - 60"
        using map_of_filter_values [OF tracksD(1) [OF tr], of "\<lambda>v. \<not> (v = [] \<or> last v < t - 60)" k]
        by (auto simp: bucket_of_def split: option.splits if_splits)
      moreover have "sorted (bucket_of c k)"
        using tracksD(2) [OF tr, of k] old(1) by (simp add: sorted_append)
      ultimately have "\<forall>x \<in> set (bucket_of c k). x < t - 60"
        using sorted_below_last by blast
      then show ?thesis using old gone by auto
    qed
  qed
qed

lemma bucket_for_exact:
  assumes "tracks c h now" "now \<le> t" "bucket_for k t c = (c', b)"
  shows "b = filter (\<lambda>x. t - 60 \<le> x) (times k h)" "tracks c' h t" "bucket_of c' k = b"
proof -
  define kept where "kept = filter (\<lambda>(k, v). \<not> (v = [] \<or> last v < t - 60)) c"
  have tr: "tracks kept h t" unfolding kept_def by (rule tracks_evict [OF assms(1,2)])
  have b: "b = dropWhile (\<lambda>x. x < t - 60) (bucket_of kept k)" and c': "c' = AList.update k b kept"
    using assms(3) by (auto simp: bucket_for_def kept_def bucket_of_def Let_def)
  obtain old where old: "times k h = old @ bucket_of kept k" "\<forall>x \<in> set old. x < t - 60"
    using tracksD(4) [OF tr] by blast
  have srt: "sorted (bucket_of kept k)" using tracksD(2) [OF tr, of k] old(1) by (simp add: sorted_append)
  have "filter (\<lambda>x. t - 60 \<le> x) old = []" using old(2) by (auto simp: filter_empty_conv)
  then show b_eq: "b = filter (\<lambda>x. t - 60 \<le> x) (times k h)"
    using old(1) b sorted_dropWhile_filter [OF srt] by simp
  show "bucket_of c' k = b" using c' by simp
  have split: "bucket_of kept k = takeWhile (\<lambda>x. x < t - 60) (bucket_of kept k) @ b" using b by simp
  show "tracks c' h t"
    unfolding tracks_def
  proof (intro conjI allI ballI)
    show "wf_dict c'" using c' tracksD(1) [OF tr] by simp
    show "sorted (times k h)" for k using tracksD(2) [OF tr] .
    show "x \<le> t" if "x \<in> set (times k h)" for k x using tracksD(3) [OF tr that] .
    show "\<exists>old. times k' h = old @ bucket_of c' k' \<and> (\<forall>x \<in> set old. x < t - 60)" for k'
    proof (cases "k' = k")
      case True
      have "times k h = (old @ takeWhile (\<lambda>x. x < t - 60) (bucket_of kept k)) @ b"
        using old(1) split by simp
      moreover have "\<forall>x \<in> set (old @ takeWhile (\<lambda>x. x < t - 60) (bucket_of kept k)). x < t - 60"
        using old(2) by (auto dest: set_takeWhileD)
      ultimately show ?thesis using True c' by auto
    next
      case False
      then show ?thesis using tracksD(4) [OF tr, of k'] c' by simp
    qed
  qed
qed

lemma tracks_charge:
  assumes "tracks c h t" "t \<le> t'"
  shows "tracks (AList.update k (bucket_of c k @ [t']) c) (h @ [(k, t')]) t'"
proof -
  have tr: "tracks c h t'" using tracks_later [OF assms] .
  show ?thesis
    unfolding tracks_def
  proof (intro conjI allI ballI)
    show "wf_dict (AList.update k (bucket_of c k @ [t']) c)" using tracksD(1) [OF tr] by simp
    show "sorted (times k' (h @ [(k, t')]))" for k'
      using tracksD(2,3) [OF tr] by (simp add: times_snoc sorted_append)
    show "x \<le> t'" if "x \<in> set (times k' (h @ [(k, t')]))" for k' x
      using that tracksD(3) [OF tr] by (auto simp: times_snoc split: if_splits)
    show "\<exists>old. times k' (h @ [(k, t')]) = old @ bucket_of (AList.update k (bucket_of c k @ [t']) c) k' \<and>
            (\<forall>x \<in> set old. x < t' - 60)" for k'
      using tracksD(4) [OF tr, of k'] by (auto simp: times_snoc)
  qed
qed

section \<open>Refinement\<close>

definition is_forward :: "outcome \<Rightarrow> bool" where
  "is_forward out = (case out of Forward _ \<Rightarrow> True | Answer _ _ _ \<Rightarrow> False)"

lemma is_forward_simps [simp]: "is_forward (Forward hs)" "\<not> is_forward (Answer n hs b)"
  by (simp_all add: is_forward_def)

lemma not_forward_refuse [simp]: "\<not> is_forward (refuse env sc extra)"
  by (simp add: refuse_def)

lemma token_hint_not_unauthenticated: "token_hint sc = Some k \<Longrightarrow> k \<noteq> ''unauthenticated''"
proof
  assume "token_hint sc = Some k" "k = ''unauthenticated''"
  then obtain v where "sha256_hex v = ''unauthenticated''" by (auto simp: token_hint_def)
  then have "length (sha256_hex v) = length ''unauthenticated''" by simp
  then show False by simp
qed

text \<open>Reading a bucket and then counting a request or refusing it, in terms of the history.\<close>

lemma bucket_step:
  assumes "tracks (counters l) h now" "now \<le> t_bucket rd" "t_bucket rd \<le> t_append rd"
    "bucket_for k (t_bucket rd) (counters l) = (c, b)"
  shows "int (length b) = used k (t_bucket rd) h" "tracks c h (t_append rd)"
    "tracks (AList.update k (b @ [t_append rd]) c) (h @ [(k, t_append rd)]) (t_append rd)"
  using bucket_for_exact [OF assms(1,2,4)] tracks_later [of c h _ "t_append rd"]
    tracks_charge [of c h "t_bucket rd" "t_append rd" k] assms(3)
  by (auto simp: used_def)

lemma charged_falcon:
  assumes "scope_type sc = ''http''" "\<not> is_dev_path (scope_path sc)"
    "scope_path sc \<notin> set UNAUTHENTICATED_EXEMPT_PATHS" "startswith (scope_path sc) ''/cs''"
  shows "charged_key l sc =
    Some (if token_hint sc = None \<or> startswith (scope_path sc) ''/cs/oauth2/'' then ''unauthenticated''
          else the (token_hint sc))"
  using assms by (auto simp: charged_key_def split: option.splits)

lemma falcon_refines:
  assumes "tracks (counters l) h now" "now \<le> t_bucket rd" "t_bucket rd \<le> t_append rd"
    and k: "k = (if token_hint sc = None \<or> startswith (scope_path sc) ''/cs/oauth2/''
                 then ''unauthenticated'' else the (token_hint sc))"
    and call: "falcon l sc (token_hint sc) rd = (l', out)"
  shows "(if enabled l \<and> k \<noteq> ''unauthenticated'' \<and> requests_per_minute l \<le> used k (t_bucket rd) h
          then \<not> is_forward out \<and> tracks (counters l') h (t_append rd)
          else is_forward out \<and> tracks (counters l') (h @ [(k, t_append rd)]) (t_append rd)) \<and>
         enabled l' = enabled l \<and> requests_per_minute l' = requests_per_minute l"
proof -
  obtain c b where cb: "bucket_for k (t_bucket rd) (counters l) = (c, b)" by fastforce
  have un: "k = ''unauthenticated'' \<longleftrightarrow> token_hint sc = None \<or> startswith (scope_path sc) ''/cs/oauth2/''"
    using k token_hint_not_unauthenticated by auto
  note bs = bucket_step [OF assms(1-3) cb]
  have "falcon l sc (token_hint sc) rd =
     (let limit = (if enabled l then requests_per_minute l
                   else if k = ''unauthenticated'' then CS_UNAUTHENTICATED_LIMIT else CS_API_LIMIT)
      in if enabled l \<and> k \<noteq> ''unauthenticated'' \<and> limit \<le> int (length b)
         then (l\<lparr>counters := c\<rparr>,
               refuse ((err_readings rd)\<lparr>env_trace := fresh_uuid rd\<rparr>) sc
                 [(''x-cs-traceid'', fresh_uuid rd), (''x-ratelimit-limit'', str_of_int limit),
                  (''x-ratelimit-remaining'', ''0''),
                  (''x-ratelimit-retryafter'', str_of_int (wall_clock rd + RETRY_AFTER_SECONDS))])
         else (l\<lparr>counters := AList.update k (b @ [t_append rd]) c\<rparr>,
               Forward [(''x-cs-traceid'', fresh_uuid rd), (''x-ratelimit-limit'', str_of_int limit),
                        (''x-ratelimit-remaining'',
                         str_of_int (max 0 (limit - int (length (b @ [t_append rd])))))]))"
    unfolding falcon_def Let_def k [symmetric] unfolding un [symmetric] cb prod.case by (rule refl)
  then show ?thesis using call bs by (auto simp: Let_def split: if_splits)
qed

lemma rate_limit_refines:
  assumes tr: "tracks (counters l) h now" "now \<le> t_bucket rd" "t_bucket rd \<le> t_append rd"
    and call: "rate_limit_call l sc rd = (l', out)" and spec: "spec_call l h sc rd = (h', ok)"
  shows "is_forward out = ok \<and> tracks (counters l') h' (t_append rd) \<and>
         enabled l' = enabled l \<and> requests_per_minute l' = requests_per_minute l"
proof (cases "scope_type sc \<noteq> ''http'' \<or> is_dev_path (scope_path sc) \<or>
         scope_path sc \<in> set UNAUTHENTICATED_EXEMPT_PATHS")
  case True
  then have "charged_key l sc = None" "rate_limit_call l sc rd = (l, Forward [])"
    by (auto simp: charged_key_def rate_limit_call_def)
  then show ?thesis using call spec tracks_later [OF tr(1), of "t_append rd"] tr(2,3) by (auto simp: spec_call_def)
next
  case False
  show ?thesis
  proof (cases "startswith (scope_path sc) ''/cs''")
    case True
    then have "falcon l sc (token_hint sc) rd = (l', out)"
      using False call by (auto simp: rate_limit_call_def split: if_splits)
    from falcon_refines [OF tr refl this] show ?thesis
      using spec charged_falcon [of sc l] False True by (auto simp: spec_call_def split: if_splits)
  next
    case cs: False
    show ?thesis
    proof (cases "enabled l \<and> token_hint sc \<noteq> None")
      case True
      then obtain k where k: "token_hint sc = Some k" by blast
      obtain c b where cb: "bucket_for k (t_bucket rd) (counters l) = (c, b)" by fastforce
      have "charged_key l sc = Some k" using False cs True k by (auto simp: charged_key_def)
      then show ?thesis
        using call spec False cs True k cb bucket_step [OF tr cb] token_hint_not_unauthenticated [OF k]
        by (auto simp: rate_limit_call_def spec_call_def split: if_splits)
    next
      case idle: False
      then have "charged_key l sc = None" "rate_limit_call l sc rd = (l, Forward [])"
        using False cs by (auto simp: charged_key_def rate_limit_call_def split: option.splits)
      then show ?thesis
        using call spec tracks_later [OF tr(1), of "t_append rd"] tr(2,3) by (auto simp: spec_call_def)
    qed
  qed
qed

text \<open>A sequence of requests through the middleware, and through the specification.\<close>

type_synonym request = "http_scope \<times> readings"

fun serve :: "limiter \<Rightarrow> request list \<Rightarrow> outcome list" where
  "serve l [] = []"
| "serve l ((sc, rd) # rs) = (let (l', out) = rate_limit_call l sc rd in out # serve l' rs)"

fun spec_serve :: "limiter \<Rightarrow> history \<Rightarrow> request list \<Rightarrow> bool list" where
  "spec_serve l h [] = []"
| "spec_serve l h ((sc, rd) # rs) = (let (h', ok) = spec_call l h sc rd in ok # spec_serve l h' rs)"

fun clock_from :: "rat \<Rightarrow> request list \<Rightarrow> bool" where
  "clock_from t [] = True"
| "clock_from t ((sc, rd) # rs) \<longleftrightarrow> t \<le> t_bucket rd \<and> t_bucket rd \<le> t_append rd \<and> clock_from (t_append rd) rs"

lemma charged_key_config:
  "enabled l' = enabled l \<Longrightarrow> requests_per_minute l' = requests_per_minute l \<Longrightarrow> spec_call l' h sc rd = spec_call l h sc rd"
  by (simp add: spec_call_def charged_key_def split: option.splits)

lemma spec_serve_config:
  "enabled l' = enabled l \<Longrightarrow> requests_per_minute l' = requests_per_minute l \<Longrightarrow> spec_serve l' h rs = spec_serve l h rs"
proof (induction rs arbitrary: h)
  case (Cons r rs)
  then show ?case by (cases r) (simp add: charged_key_config [of l' l] split: prod.split)
qed simp

lemma serve_refines:
  "tracks (counters l) h now \<Longrightarrow> clock_from now rs \<Longrightarrow> map is_forward (serve l rs) = spec_serve l h rs"
proof (induction rs arbitrary: l h now)
  case (Cons r rs)
  obtain sc rd where r: "r = (sc, rd)" by (cases r)
  obtain l' out where call: "rate_limit_call l sc rd = (l', out)" by fastforce
  obtain h' ok where spec: "spec_call l h sc rd = (h', ok)" by fastforce
  have clk: "now \<le> t_bucket rd" "t_bucket rd \<le> t_append rd" "clock_from (t_append rd) rs"
    using Cons.prems(2) r by simp_all
  note step = rate_limit_refines [OF Cons.prems(1) clk(1,2) call spec]
  show ?case
    using Cons.IH [of l' h' "t_append rd"] step clk(3) spec_serve_config [of l' l h' rs]
    by (simp add: r call spec)
qed simp

text \<open>
  C3. Evicting stale buckets and dropping old times loses nothing: on every sequence of
  requests, with the clock never running backwards, the middleware lets through exactly the
  requests the full history says it should. A request is refused if and only if the limiter is
  on, the request carries a token (and is not one of the token routes), and at least
  \<open>requests_per_minute\<close> requests of that token were let through in the 60 seconds before it.
\<close>

theorem rate_limiter_refines_history:
  assumes "clock_from 0 rs" "counters l = []"
  shows "map is_forward (serve l rs) = spec_serve l [] rs"
  using serve_refines [of l "[]" 0 rs] assms tracks_init by simp

definition demo_scope :: http_scope where
  "demo_scope = \<lparr>scope_type = ''http'', scope_path = ''/mde/api/machines'',
     scope_headers = [(''Authorization'', ''Bearer t'')]\<rparr>"

definition demo_readings :: "rat \<Rightarrow> readings" where
  "demo_readings t = \<lparr>t_bucket = t, t_append = t, wall_clock = 0, fresh_uuid = '''',
     err_readings = \<lparr>env_trace = '''', env_graph_ids = None, env_fresh_ids = ('''', ''''), env_now = ''''\<rparr>\<rparr>"

lemma demo_charged:
  "charged_key \<lparr>enabled = True, requests_per_minute = n, counters = c\<rparr> demo_scope = Some (sha256_hex ''Bearer t'')"
proof -
  have "lower ''Authorization'' = ''authorization''" by code_simp
  then show ?thesis
    by (simp add: charged_key_def demo_scope_def token_hint_def is_dev_path_def DEV_PREFIX_def
        UNAUTHENTICATED_EXEMPT_PATHS_def startswith_def)
qed

lemma sha256_not_unauthenticated: "sha256_hex v \<noteq> ''unauthenticated''"
proof
  assume "sha256_hex v = ''unauthenticated''"
  then have "length (sha256_hex v) = length ''unauthenticated''" by simp
  then show False by simp
qed

theorem rate_limiter_refines_history_witness:
  "map is_forward (serve \<lparr>enabled = True, requests_per_minute = 1, counters = []\<rparr>
     [(demo_scope, demo_readings 0), (demo_scope, demo_readings 60), (demo_scope, demo_readings 61)])
   = [True, False, True]"
proof -
  let ?rs = "[(demo_scope, demo_readings 0), (demo_scope, demo_readings 60), (demo_scope, demo_readings 61)]"
  let ?l = "\<lparr>enabled = True, requests_per_minute = 1, counters = []\<rparr>"
  have "clock_from 0 ?rs" by (simp add: demo_readings_def)
  then have "map is_forward (serve ?l ?rs) = spec_serve ?l [] ?rs"
    using rate_limiter_refines_history [of ?rs ?l] by simp
  also have "\<dots> = [True, False, True]"
    by (simp add: spec_call_def demo_charged sha256_not_unauthenticated used_def times_def demo_readings_def)
  finally show ?thesis .
qed

section \<open>The limit itself\<close>

definition in_minute :: "rat \<Rightarrow> rat list \<Rightarrow> int" where
  "in_minute a ts = int (length (filter (\<lambda>t. a \<le> t \<and> t \<le> a + 60) ts))"

text \<open>The times at which requests charged to \<open>k\<close> were let through.\<close>

definition let_through :: "limiter \<Rightarrow> string \<Rightarrow> request list \<Rightarrow> bool list \<Rightarrow> rat list" where
  "let_through l k rs oks =
     map (\<lambda>((sc, rd), ok). t_append rd) (filter (\<lambda>((sc, rd), ok). ok \<and> charged_key l sc = Some k) (zip rs oks))"

lemma let_through_Cons:
  "let_through l k ((sc, rd) # rs) (ok # oks) =
     (if ok \<and> charged_key l sc = Some k then [t_append rd] else []) @ let_through l k rs oks"
  by (simp add: let_through_def)

lemma in_minute_le_used: "a + 60 \<ge> t \<Longrightarrow> a \<le> t \<Longrightarrow> t' \<le> t \<Longrightarrow> in_minute a (times k h) \<le> used k t' h"
proof -
  assume a: "a + 60 \<ge> t" "t' \<le> t"
  have "length (filter (\<lambda>x. a \<le> x \<and> x \<le> a + 60) xs) \<le> length (filter (\<lambda>x. t' - 60 \<le> x) xs)" for xs
    using a by (induction xs) auto
  then show ?thesis by (simp add: in_minute_def used_def)
qed

lemma in_minute_snoc: "in_minute a (ts @ [t]) = in_minute a ts + (if a \<le> t \<and> t \<le> a + 60 then 1 else 0)"
  by (simp add: in_minute_def)

lemma spec_step_window:
  assumes "enabled l" "k \<noteq> ''unauthenticated''" "t_bucket rd \<le> t_append rd"
    "\<And>a. in_minute a (times k h) \<le> max 0 (requests_per_minute l)" "spec_call l h sc rd = (h', ok)"
  shows "in_minute a (times k h') \<le> max 0 (requests_per_minute l)"
    "times k h' = times k h @ (if ok \<and> charged_key l sc = Some k then [t_append rd] else [])"
proof -
  show *: "times k h' = times k h @ (if ok \<and> charged_key l sc = Some k then [t_append rd] else [])"
    using assms(5) by (auto simp: spec_call_def times_snoc split: option.splits if_splits)
  show "in_minute a (times k h') \<le> max 0 (requests_per_minute l)"
    using * assms(4) [of a] in_minute_le_used [of "t_append rd" a "t_bucket rd" k h] assms(1,2,3,5)
    by (auto simp: in_minute_snoc spec_call_def split: option.splits if_splits)
qed

lemma spec_window:
  assumes "enabled l" "k \<noteq> ''unauthenticated''"
  shows "clock_from now rs \<Longrightarrow> (\<And>a. in_minute a (times k h) \<le> max 0 (requests_per_minute l)) \<Longrightarrow>
    in_minute a (times k h @ let_through l k rs (spec_serve l h rs)) \<le> max 0 (requests_per_minute l)"
proof (induction rs arbitrary: h now)
  case Nil
  then show ?case by (simp add: let_through_def)
next
  case (Cons r rs)
  obtain sc rd where r: "r = (sc, rd)" by (cases r)
  obtain h' ok where spec: "spec_call l h sc rd = (h', ok)" by fastforce
  have clk: "t_bucket rd \<le> t_append rd" "clock_from (t_append rd) rs" using Cons.prems(1) r by simp_all
  note step = spec_step_window [OF assms clk(1) Cons.prems(2) spec]
  have "times k h @ let_through l k (r # rs) (spec_serve l h (r # rs)) =
        times k h' @ let_through l k rs (spec_serve l h' rs)"
    using step(2) by (simp add: r spec let_through_Cons)
  then show ?case using Cons.IH [OF clk(2) step(1)] by simp
qed

text \<open>
  C4. The limit holds in every minute, not only in the one ending now: in any closed window
  of 60 seconds, the requests of one token that are let through (and counted) are at most
  \<open>requests_per_minute\<close>, none when it is not positive.
\<close>

theorem rate_limit_every_minute:
  assumes "enabled l" "counters l = []" "clock_from 0 rs" "k \<noteq> ''unauthenticated''"
  shows "in_minute a (let_through l k rs (map is_forward (serve l rs))) \<le> max 0 (requests_per_minute l)"
  using spec_window [OF assms(1,4,3), of "[]" a] serve_refines [of l "[]" 0 rs] assms tracks_init
  by (simp add: times_def in_minute_def)

theorem rate_limit_every_minute_witness:
  "let rs = [(demo_scope, demo_readings 0), (demo_scope, demo_readings 60), (demo_scope, demo_readings 61)];
       l = \<lparr>enabled = True, requests_per_minute = 1, counters = []\<rparr>
   in in_minute 1 (let_through l (sha256_hex ''Bearer t'') rs (map is_forward (serve l rs))) \<le> 1"
proof -
  let ?rs = "[(demo_scope, demo_readings 0), (demo_scope, demo_readings 60), (demo_scope, demo_readings 61)]"
  let ?l = "\<lparr>enabled = True, requests_per_minute = 1, counters = []\<rparr>"
  have "clock_from 0 ?rs" by (simp add: demo_readings_def)
  then have "in_minute 1 (let_through ?l (sha256_hex ''Bearer t'') ?rs (map is_forward (serve ?l ?rs)))
      \<le> max 0 (requests_per_minute ?l)"
    by (intro rate_limit_every_minute) (simp_all add: sha256_not_unauthenticated)
  then show ?thesis by (simp add: Let_def del: serve.simps)
qed

section \<open>Fault injection is repeatable\<close>

fun fault_serve ::
  "('g \<Rightarrow> int \<Rightarrow> int \<Rightarrow> 'g \<times> int) \<Rightarrow> ('g \<Rightarrow> 'g \<times> rat) \<Rightarrow> 'g faults \<Rightarrow> (http_scope \<times> err_env) list \<Rightarrow>
   (int \<times> outcome) list" where
  "fault_serve ri ra f [] = []"
| "fault_serve ri ra f ((sc, env) # rs) =
     (let (f', slept, out) = fault_call ri ra f sc env in (slept, out) # fault_serve ri ra f' rs)"

lemma fault_call_dev: "is_dev_path (scope_path sc) \<Longrightarrow> fault_call ri ra f sc env = (f, 0, Forward [])"
  by (simp add: fault_call_def)

lemma fault_serve_drops_dev:
  "fault_serve ri ra f (filter (\<lambda>(sc, env). \<not> is_dev_path (scope_path sc)) rs) =
   map snd (filter (\<lambda>((sc, env), o'). \<not> is_dev_path (scope_path sc)) (zip rs (fault_serve ri ra f rs)))"
proof (induction rs arbitrary: f)
  case (Cons r rs)
  obtain sc env where r: "r = (sc, env)" by (cases r)
  then show ?case using Cons by (auto simp: fault_call_dev split: prod.splits)
qed simp

text \<open>
  A configuration fails the same requests of a sequence every time: after
  \<open>set_fault_config\<close> with all four fields given, the delays and injected errors of a request
  sequence do not depend on the state before, and control requests interleaved with it
  change nothing (they are forwarded at once and draw nothing from the generator).
\<close>

theorem fault_injection_repeatable:
  "fault_serve ri ra (set_fault_config seeded (Some d) (Some j) (Some r) (Some st) f)
      (filter (\<lambda>(sc, env). \<not> is_dev_path (scope_path sc)) rs) =
   map snd (filter (\<lambda>((sc, env), o'). \<not> is_dev_path (scope_path sc))
      (zip rs (fault_serve ri ra (set_fault_config seeded (Some d) (Some j) (Some r) (Some st) f') rs)))"
proof -
  have "set_fault_config seeded (Some d) (Some j) (Some r) (Some st) f =
        set_fault_config seeded (Some d) (Some j) (Some r) (Some st) f'"
    by (simp add: set_fault_config_def or_keep_def)
  then show ?thesis by (simp add: fault_serve_drops_dev)
qed

end
