(* ===== verification/Py_Time.thy ===== *)
theory Py_Time
  imports Py_Val
begin

text \<open>
  Python's aware datetimes as instants: microseconds since the start of year 1, UTC. The model
  covers \<open>datetime.fromisoformat\<close> (CPython 3.11 and later: calendar and week dates, basic and
  extended forms, fractions, offsets) and the helpers of \<open>utils/dt.py\<close> that read timestamps.
\<close>

section \<open>The calendar\<close>

definition is_leap :: "int \<Rightarrow> bool" where
  "is_leap y \<longleftrightarrow> y mod 4 = 0 \<and> (y mod 100 \<noteq> 0 \<or> y mod 400 = 0)"

definition days_before_year :: "int \<Rightarrow> int" where
  "days_before_year y = (let p = y - 1 in p * 365 + p div 4 - p div 100 + p div 400)"

definition month_lengths :: "int \<Rightarrow> int list" where
  "month_lengths y = [31, if is_leap y then 29 else 28, 31, 30, 31, 30, 31, 31, 30, 31, 30, 31]"

definition ymd_ordinal :: "int \<Rightarrow> int \<Rightarrow> int \<Rightarrow> int" where
  "ymd_ordinal y m d = days_before_year y + sum_list (take (nat (m - 1)) (month_lengths y)) + d"

definition valid_ymd :: "int \<Rightarrow> int \<Rightarrow> int \<Rightarrow> bool" where
  "valid_ymd y m d \<longleftrightarrow> 1 \<le> y \<and> y \<le> 9999 \<and> 1 \<le> m \<and> m \<le> 12 \<and> 1 \<le> d \<and> d \<le> month_lengths y ! nat (m - 1)"

definition max_ordinal :: int where
  "max_ordinal = 3652059"

text \<open>The ordinal of a week date; week 53 only exists in long years.\<close>

definition isoweek_ordinal :: "int \<Rightarrow> int \<Rightarrow> int \<Rightarrow> int option" where
  "isoweek_ordinal y w d =
     (let first = ymd_ordinal y 1 1;
          first_weekday = (first + 6) mod 7;
          long = (first_weekday = 3 \<or> (first_weekday = 2 \<and> is_leap y));
          week1_monday = first - first_weekday + (if 3 < first_weekday then 7 else 0);
          ord = week1_monday + (w - 1) * 7 + (d - 1)
      in if 1 \<le> y \<and> y \<le> 9999 \<and> ((1 \<le> w \<and> w \<le> 52) \<or> (w = 53 \<and> long)) \<and> 1 \<le> d \<and> d \<le> 7 \<and>
            1 \<le> ord \<and> ord \<le> max_ordinal
         then Some ord else None)"

section \<open>\<open>datetime.fromisoformat\<close>\<close>

definition digits_at :: "string \<Rightarrow> nat \<Rightarrow> nat \<Rightarrow> int option" where
  "digits_at s i n =
     (let w = take n (drop i s) in if length w = n \<and> list_all is_digit w then Some (int_of_digits w) else None)"

definition char_at :: "string \<Rightarrow> nat \<Rightarrow> char option" where
  "char_at s i = (if i < length s then Some (s ! i) else None)"

definition date_separator :: "string \<Rightarrow> nat option" where
  "date_separator s =
     (let n = length s
      in if n < 7 then None
         else if n = 7 then Some 7
         else if char_at s 4 = Some CHR ''-''
         then if char_at s 5 = Some CHR ''W''
              then if char_at s 8 = Some CHR ''-''
                   then if n = 9 then None
                        else if 10 < n \<and> is_digit (s ! 10) then Some 8 else Some 10
                   else Some 8
              else Some 10
         else if char_at s 4 = Some CHR ''W''
         then let idx = 7 + length (takeWhile is_digit (drop 7 s))
              in if idx < 9 then Some idx else if even idx then Some 7 else Some 8
         else Some 8)"

definition iso_date :: "string \<Rightarrow> int option" where
  "iso_date s =
     (let sep = (char_at s 4 = Some CHR ''-''); p = (if sep then 5 else 4)
      in case digits_at s 0 4 of
           None \<Rightarrow> None
         | Some y \<Rightarrow>
             (if char_at s p = Some CHR ''W''
              then case digits_at s (p + 1) 2 of
                     None \<Rightarrow> None
                   | Some w \<Rightarrow>
                       (let q = p + 3
                        in if length s \<le> q then isoweek_ordinal y w 1
                           else if (char_at s q = Some CHR ''-'') \<noteq> sep then None
                           else let r = q + (if sep then 1 else 0)
                                in case digits_at s r 1 of
                                     None \<Rightarrow> None
                                   | Some d \<Rightarrow> if length s = r + 1 then isoweek_ordinal y w d else None)
              else case digits_at s p 2 of
                     None \<Rightarrow> None
                   | Some m \<Rightarrow>
                       (let q = p + 2
                        in if (char_at s q = Some CHR ''-'') \<noteq> sep then None
                           else let r = q + (if sep then 1 else 0)
                                in case digits_at s r 2 of
                                     None \<Rightarrow> None
                                   | Some d \<Rightarrow>
                                       if length s = r + 2 \<and> valid_ymd y m d then Some (ymd_ordinal y m d)
                                       else None)))"

text \<open>
  Hours, minutes, seconds and microseconds of a time or of an offset, as CPython's reader takes
  them: pairs of digits, with or without colons, then a fraction. The second component of a result
  says whether text was left over, which only a time followed by an offset may have.
\<close>

fun hms_loop :: "nat \<Rightarrow> bool \<Rightarrow> string \<Rightarrow> (int list \<times> (bool + string)) option" where
  "hms_loop 0 sep s = Some ([], Inr s)"
| "hms_loop (Suc k) sep s =
     (case digits_at s 0 2 of
        None \<Rightarrow> None
      | Some v \<Rightarrow>
          (let r = drop 2 s
           in if length r \<le> 1 then Some ([v], Inl (r \<noteq> []))
              else if sep \<and> hd r = CHR '':'' then map_option (\<lambda>(vs, t). (v # vs, t)) (hms_loop k sep (tl r))
              else if hd r \<in> {CHR ''.'', CHR '',''} then Some ([v], Inr (tl r))
              else if \<not> sep then map_option (\<lambda>(vs, t). (v # vs, t)) (hms_loop k sep r)
              else None))"

definition parse_hms :: "string \<Rightarrow> ((int \<times> int \<times> int \<times> int) \<times> bool) option" where
  "parse_hms s =
     (case hms_loop 3 (char_at s 2 = Some CHR '':'') s of
        None \<Rightarrow> None
      | Some (vs, r) \<Rightarrow>
          (let h = vs ! 0; m = (if 1 < length vs then vs ! 1 else 0); sec = (if 2 < length vs then vs ! 2 else 0)
           in case r of
                Inl stray \<Rightarrow> Some ((h, m, sec, 0), stray)
              | Inr f \<Rightarrow>
                  (let n = min 6 (length f)
                   in if list_all is_digit (take n f)
                      then Some ((h, m, sec, int_of_digits (take n f @ replicate (6 - n) CHR ''0'')),
                                 dropWhile is_digit (drop n f) \<noteq> [])
                      else None)))"

definition hms_micros :: "int \<times> int \<times> int \<times> int \<Rightarrow> int" where
  "hms_micros = (\<lambda>(h, m, s, u). ((h * 60 + m) * 60 + s) * 1000000 + u)"

definition day_micros :: int where
  "day_micros = 86400000000"

text \<open>The time of day in microseconds and the offset, when the text has one.\<close>

definition iso_time :: "string \<Rightarrow> (int \<times> int option) option" where
  "iso_time t =
     (let is_tz = (\<lambda>c. c \<in> {CHR ''+'', CHR ''-'', CHR ''Z''});
          body = takeWhile (\<lambda>c. \<not> is_tz c) t; tz = dropWhile (\<lambda>c. \<not> is_tz c) t
      in case parse_hms body of
           None \<Rightarrow> None
         | Some ((h, m, s, u), stray) \<Rightarrow>
             (if \<not> (h < 24 \<and> m < 60 \<and> s < 60) then None
              else let tod = hms_micros (h, m, s, u)
                   in case tz of
                        [] \<Rightarrow> if stray then None else Some (tod, None)
                      | c # z \<Rightarrow>
                          (if c = CHR ''Z'' then (if z = [] then Some (tod, Some 0) else None)
                           else case parse_hms z of
                                  None \<Rightarrow> None
                                | Some (off, rest) \<Rightarrow>
                                    (let o' = hms_micros off
                                     in if \<not> rest \<and> o' < day_micros
                                        then Some (tod, Some (if c = CHR ''-'' then - o' else o')) else None))))"

definition fromisoformat :: "string \<Rightarrow> (int \<times> int option) option" where
  "fromisoformat s =
     (case date_separator s of
        None \<Rightarrow> None
      | Some n \<Rightarrow>
          (case iso_date (take n s) of
             None \<Rightarrow> None
           | Some ord \<Rightarrow>
               (let t = drop (n + 1) s
                in if t = [] then Some ((ord - 1) * day_micros, None)
                   else case iso_time t of
                          None \<Rightarrow> None
                        | Some (tod, off) \<Rightarrow> Some ((ord - 1) * day_micros + tod, off))))"

section \<open>\<open>utils/dt.py\<close>\<close>

text \<open>An instant; a moment without an offset is UTC.\<close>

definition parse_utc :: "string \<Rightarrow> int option" where
  "parse_utc s =
     (case fromisoformat (replace_str ''Z'' ''+00:00'' s) of
        None \<Rightarrow> None
      | Some (local, off) \<Rightarrow> Some (local - (case off of None \<Rightarrow> 0 | Some o' \<Rightarrow> o')))"

text \<open>\<open>seconds_since\<close>, given the current instant.\<close>

definition seconds_since :: "int \<Rightarrow> string \<Rightarrow> rat option" where
  "seconds_since now timestamp =
     (let txt = strip timestamp
      in if txt = [] then None
         else map_option (\<lambda>t. of_int (now - t) / 1000000) (parse_utc txt))"

text \<open>Subtracting a \<open>timedelta\<close> of whole days or hours from an instant; \<open>None\<close> is \<open>OverflowError\<close>.\<close>

definition minus_units :: "int \<Rightarrow> int \<Rightarrow> bool \<Rightarrow> int option" where
  "minus_units now n days =
     (let r = now - n * (if days then day_micros else 3600000000)
      in if 999999999 < (if days then n else n div 24) \<or> r < 0 then None else Some r)"

end
