(* ===== verification/Py_Format.thy ===== *)
theory Py_Format
  imports Py_Time
begin

text \<open>
  \<open>datetime.strptime\<close> and \<open>datetime.strftime\<close> for the timestamp formats of the sources, the date of an
  ordinal, and the round trip: a timestamp that was written is read back as the same instant.
\<close>

section \<open>Reading\<close>

text \<open>
  \<open>datetime.strptime\<close> with the formats of the module: a two-digit field is one or two digits in its
  range, the letters of the format match in either case. A second of 60 or 61 is matched and then refused by \<open>datetime\<close>.
\<close>

definition short_field :: "int \<Rightarrow> int \<Rightarrow> string \<Rightarrow> int option" where
  "short_field lo hi s =
     (if isdigit s \<and> length s \<le> 2 \<and> lo \<le> int_of_digits s \<and> int_of_digits s \<le> hi
      then Some (int_of_digits s) else None)"

definition strptime_date :: "string \<Rightarrow> int option" where
  "strptime_date s =
     (case split_on CHR ''-'' s of
        [y, m, d] \<Rightarrow>
          (if isdigit y \<and> length y = 4
           then case (short_field 1 12 m,
                      short_field 1 31 (if length d = 2 \<and> hd d = CHR '' '' then tl d else d)) of
                  (Some m', Some d') \<Rightarrow>
                    (if valid_ymd (int_of_digits y) m' d' then Some (ymd_ordinal (int_of_digits y) m' d') else None)
                | _ \<Rightarrow> None
           else None)
      | _ \<Rightarrow> None)"

definition strptime_frac :: "string \<Rightarrow> int option" where
  "strptime_frac f =
     (if isdigit f \<and> length f \<le> 6 then Some (int_of_digits (f @ replicate (6 - length f) CHR ''0'')) else None)"

text \<open>\<open>%H:%M:%S\<close> with or without a fraction, up to the final \<open>Z\<close>.\<close>

definition strptime_time :: "bool \<Rightarrow> string \<Rightarrow> int option" where
  "strptime_time with_us s =
     (if s = [] \<or> lower_char (last s) \<noteq> CHR ''z'' then None
      else case split_on CHR '':'' (butlast s) of
             [h, m, r] \<Rightarrow>
               (let (sec, dot, f) = partition_on CHR ''.'' r
                in if with_us \<noteq> (dot \<noteq> []) then None
                   else case (short_field 0 23 h, short_field 0 59 m, short_field 0 59 sec,
                              if with_us then strptime_frac f else Some 0) of
                          (Some h', Some m', Some s', Some u) \<Rightarrow> Some (hms_micros (h', m', s', u))
                        | _ \<Rightarrow> None)
           | _ \<Rightarrow> None)"

definition strptime_datetime :: "bool \<Rightarrow> string \<Rightarrow> int option" where
  "strptime_datetime with_us s =
     (let d = takeWhile (\<lambda>c. lower_char c \<noteq> CHR ''t'') s; r = dropWhile (\<lambda>c. lower_char c \<noteq> CHR ''t'') s
      in if r = [] then None
         else case (strptime_date d, strptime_time with_us (tl r)) of
                (Some ord, Some tod) \<Rightarrow> Some ((ord - 1) * day_micros + tod)
              | _ \<Rightarrow> None)"

section \<open>Writing\<close>

text \<open>The date of an ordinal: the last year that starts before it, then the month.\<close>

lemma div_pred: "0 < k \<Longrightarrow> (y :: int) div k = (y - 1) div k + (if k dvd y then 1 else 0)"
proof -
  assume k: "0 < k"
  define q r where qr: "q = (y - 1) div k" "r = (y - 1) mod k"
  have "k * q + r = y - 1" unfolding qr by (rule mult_div_mod_eq)
  then have y: "y = k * q + (r + 1)" by simp
  have r: "0 \<le> r" "r < k" unfolding qr using k by simp_all
  show ?thesis
  proof (cases "r + 1 = k")
    case True
    then have "y = k * (q + 1)" using y by (simp add: distrib_left)
    then show ?thesis unfolding qr(1) [symmetric] using k by simp
  next
    case False
    then have lt: "r + 1 < k" using r by simp
    have "y div k = q" using int_div_pos_eq [of y k q "r + 1"] y r lt by simp
    moreover have "y mod k = r + 1" using int_mod_pos_eq [of y k q "r + 1"] y r lt by simp
    ultimately show ?thesis unfolding qr(1) [symmetric] using r by (simp add: dvd_eq_mod_eq_0)
  qed
qed

lemma days_before_next: "days_before_year (y + 1) = days_before_year y + (if is_leap y then 366 else 365)"
proof -
  have d: "(4 :: int) dvd 100" "(100 :: int) dvd 400" by simp_all
  have "100 dvd y \<Longrightarrow> 4 dvd y" "400 dvd y \<Longrightarrow> 100 dvd y"
    using dvd_trans [OF d(1)] dvd_trans [OF d(2)] by blast+
  moreover define a b c where abc: "a = (y - 1) div 4" "b = (y - 1) div 100" "c = (y - 1) div 400"
  have e: "y div 4 = a + (if 4 dvd y then 1 else 0)" "y div 100 = b + (if 100 dvd y then 1 else 0)"
    "y div 400 = c + (if 400 dvd y then 1 else 0)"
    unfolding abc by (rule div_pred, simp)+
  ultimately show ?thesis
    unfolding days_before_year_def is_leap_def Let_def add_diff_cancel_right' dvd_eq_mod_eq_0 [symmetric]
      abc [symmetric] e
    by (cases "4 dvd y"; cases "100 dvd y"; cases "400 dvd y") simp_all
qed

lemma days_before_mono: "y \<le> z \<Longrightarrow> days_before_year y + 365 * (z - y) \<le> days_before_year z"
proof (induction z rule: int_ge_induct)
  case (step i)
  then show ?case using days_before_next [of i] by (simp add: algebra_simps split: if_splits)
qed simp

lemma days_before_1: "days_before_year 1 = 0"
  by (simp add: days_before_year_def)

function find_year :: "int \<Rightarrow> int \<Rightarrow> int" where
  "find_year y n = (if 1 \<le> y \<and> days_before_year (y + 1) < n then find_year (y + 1) n else y)"
  by pat_completeness auto

termination find_year
proof (relation "measure (\<lambda>(y, n). nat (n - y))")
  fix y n :: int
  assume a: "1 \<le> y \<and> days_before_year (y + 1) < n"
  then have "365 * y \<le> days_before_year (y + 1)"
    using days_before_mono [of 1 "y + 1"] days_before_1 by simp
  then show "((y + 1, n), y, n) \<in> measure (\<lambda>(y, n). nat (n - y))" using a by simp
qed simp

declare find_year.simps [simp del]

fun find_month :: "int \<Rightarrow> int \<Rightarrow> int list \<Rightarrow> int \<times> int" where
  "find_month m r [] = (m, r)"
| "find_month m r (l # ls) = (if r \<le> l then (m, r) else find_month (m + 1) (r - l) ls)"

definition ordinal_ymd :: "int \<Rightarrow> int \<times> int \<times> int" where
  "ordinal_ymd n =
     (let y = find_year ((n - 1) div 366 + 1) n; (m, d) = find_month 1 (n - days_before_year y) (month_lengths y)
      in (y, m, d))"

text \<open>A number in a field of fixed width.\<close>

fun pad :: "nat \<Rightarrow> nat \<Rightarrow> string" where
  "pad 0 n = []"
| "pad (Suc k) n = pad k (n div 10) @ [digit_char (n mod 10)]"

text \<open>\<open>%Y\<close> is not padded by the C library.\<close>

definition strf_year :: "int \<Rightarrow> string" where
  "strf_year y = (if y < 1000 then str_of_int y else pad 4 (nat y))"

definition strf_date :: "int \<Rightarrow> string" where
  "strf_date n =
     (case ordinal_ymd n of (y, m, d) \<Rightarrow> strf_year y @ ''-'' @ pad 2 (nat m) @ ''-'' @ pad 2 (nat d))"

text \<open>\<open>%H:%M:%S\<close> of a time of day in seconds.\<close>

definition strf_time :: "nat \<Rightarrow> string" where
  "strf_time s = pad 2 (s div 3600) @ '':'' @ pad 2 (s div 60 mod 60) @ '':'' @ pad 2 (s mod 60)"

text \<open>\<open>%Y-%m-%dT%H:%M:%S.\<close>, then the microseconds or three zeros, then \<open>Z\<close>.\<close>

definition strf_seconds :: "int \<Rightarrow> string" where
  "strf_seconds t = strf_date (t div day_micros + 1) @ ''T'' @ strf_time (nat (t mod day_micros div 1000000))"

definition strftime_us :: "int \<Rightarrow> string" where
  "strftime_us t = strf_seconds t @ ''.'' @ pad 6 (nat (t mod 1000000)) @ ''Z''"

definition strftime_000 :: "int \<Rightarrow> string" where
  "strftime_000 t = strf_seconds t @ ''.000Z''"

text \<open>\<open>utc_now\<close> of \<open>utils/dt.py\<close>, given the current instant.\<close>

definition utc_now :: "int \<Rightarrow> string" where
  "utc_now now = strftime_000 now"

text \<open>
  \<open>iso_ms\<close> and \<open>plus_seconds\<close>: a moment is its local time and its offset. \<open>isoformat\<close> always pads the year
  and writes the seconds of an offset only when it has some; a moment past year 9999 is an \<open>OverflowError\<close>.
\<close>

definition iso_offset :: "int \<Rightarrow> string" where
  "iso_offset off =
     (let s = nat (\<bar>off\<bar> div 1000000); u = nat (\<bar>off\<bar> mod 1000000)
      in (if off < 0 then ''-'' else ''+'') @ pad 2 (s div 3600) @ '':'' @ pad 2 (s div 60 mod 60) @
         (if s mod 60 = 0 \<and> u = 0 then []
          else '':'' @ pad 2 (s mod 60) @ (if u = 0 then [] else ''.'' @ pad 6 u)))"

definition iso_ms :: "int \<times> int \<Rightarrow> string" where
  "iso_ms moment =
     (let (local, off) = moment; (y, m, d) = ordinal_ymd (local div day_micros + 1)
      in replace_str ''+00:00'' ''Z''
           (pad 4 (nat y) @ ''-'' @ pad 2 (nat m) @ ''-'' @ pad 2 (nat d) @ ''T'' @
            strf_time (nat (local mod day_micros div 1000000)) @ ''.'' @ pad 3 (nat (local mod 1000000 div 1000)) @
            iso_offset off))"

definition plus_seconds :: "string \<Rightarrow> rat \<Rightarrow> string option result" where
  "plus_seconds stamp seconds =
     (case fromisoformat (replace_str ''Z'' ''+00:00'' stamp) of
        None \<Rightarrow> Inr None
      | Some (local, off) \<Rightarrow>
          (let later = local + round_half_even (seconds * 1000000)
           in if later < 0 \<or> max_ordinal * day_micros \<le> later then Inl (OverflowError ''date value out of range'')
              else Inr (Some (iso_ms (later, case off of None \<Rightarrow> 0 | Some o' \<Rightarrow> o')))))"

section \<open>The calendar is a bijection\<close>

lemma find_year_bounds:
  "1 \<le> y \<Longrightarrow> days_before_year y < n \<Longrightarrow>
     y \<le> find_year y n \<and> days_before_year (find_year y n) < n \<and> n \<le> days_before_year (find_year y n + 1)"
proof (induction y n rule: find_year.induct)
  case (1 y n)
  show ?case
  proof (cases "days_before_year (y + 1) < n")
    case True
    then have "find_year y n = find_year (y + 1) n" using "1.prems" by (subst find_year.simps) simp
    then show ?thesis using "1.IH" True "1.prems" by simp
  next
    case False
    then have "find_year y n = y" by (subst find_year.simps) simp
    then show ?thesis using False "1.prems" by simp
  qed
qed

lemma find_month_spec:
  "1 \<le> r \<Longrightarrow> r \<le> sum_list ls \<Longrightarrow>
     \<exists>i < length ls. fst (find_month m r ls) = m + int i \<and> 1 \<le> snd (find_month m r ls) \<and>
       snd (find_month m r ls) \<le> ls ! i \<and> r = sum_list (take i ls) + snd (find_month m r ls)"
proof (induction ls arbitrary: m r)
  case (Cons l ls)
  show ?case
  proof (cases "r \<le> l")
    case True
    then show ?thesis using Cons.prems by (intro exI [of _ 0]) simp
  next
    case False
    then obtain i where "i < length ls" "fst (find_month (m + 1) (r - l) ls) = m + 1 + int i"
      "1 \<le> snd (find_month (m + 1) (r - l) ls)" "snd (find_month (m + 1) (r - l) ls) \<le> ls ! i"
      "r - l = sum_list (take i ls) + snd (find_month (m + 1) (r - l) ls)"
      using Cons.IH [of "r - l" "m + 1"] Cons.prems by auto
    then show ?thesis using False by (intro exI [of _ "Suc i"]) simp
  qed
qed simp

lemma ordinal_ymd_spec:
  assumes "1 \<le> n" "n \<le> max_ordinal" "ordinal_ymd n = (y, m, d)"
  shows "valid_ymd y m d \<and> ymd_ordinal y m d = n \<and> d \<le> 31 \<and> n \<le> days_before_year (y + 1)"
proof -
  let ?y0 = "(n - 1) div 366 + 1"
  have y0: "1 \<le> ?y0" using assms(1) by (simp add: pos_imp_zdiv_nonneg_iff)
  have "days_before_year ?y0 \<le> 366 * (?y0 - 1)"
  proof -
    have "z div 4 - z div 100 + z div 400 \<le> z" if "0 \<le> z" for z :: int using that by arith
    from this [of "?y0 - 1"] show ?thesis using y0 by (simp add: days_before_year_def Let_def)
  qed
  moreover have "366 * (?y0 - 1) \<le> n - 1" by simp
  ultimately have "days_before_year ?y0 < n" by (smt (verit))
  from find_year_bounds [OF y0 this]
  have yb: "1 \<le> y" "days_before_year y < n" "n \<le> days_before_year (y + 1)" and y: "y = find_year ?y0 n"
    using assms(3) y0 by (auto simp: ordinal_ymd_def Let_def split: prod.splits)
  have "y \<le> 9999"
  proof (rule ccontr)
    assume "\<not> y \<le> 9999"
    then have "days_before_year 10000 + 365 * (y - 10000) \<le> days_before_year y" using days_before_mono [of 10000 y] by simp
    moreover have "days_before_year 10000 = max_ordinal" by (simp add: days_before_year_def max_ordinal_def)
    ultimately show False using yb(2) assms(2) \<open>\<not> y \<le> 9999\<close> by simp
  qed
  moreover have "sum_list (month_lengths y) = (if is_leap y then 366 else 365)" by (simp add: month_lengths_def)
  then have "n - days_before_year y \<le> sum_list (month_lengths y)" using yb days_before_next [of y] by simp
  with find_month_spec [of "n - days_before_year y" "month_lengths y" 1] yb(2)
  obtain i where i: "i < length (month_lengths y)" "fst (find_month 1 (n - days_before_year y) (month_lengths y)) = 1 + int i"
    "1 \<le> snd (find_month 1 (n - days_before_year y) (month_lengths y))"
    "snd (find_month 1 (n - days_before_year y) (month_lengths y)) \<le> month_lengths y ! i"
    "n - days_before_year y = sum_list (take i (month_lengths y)) + snd (find_month 1 (n - days_before_year y) (month_lengths y))"
    by auto
  have md: "m = 1 + int i" "d = snd (find_month 1 (n - days_before_year y) (month_lengths y))"
    using assms(3) i(2) y by (auto simp: ordinal_ymd_def Let_def split: prod.splits)
  have "month_lengths y ! i \<le> 31"
    using i(1) nth_mem [OF i(1)] by (auto simp: month_lengths_def split: if_splits)
  moreover have "length (month_lengths y) = 12" by (simp add: month_lengths_def)
  ultimately show ?thesis
    using i md yb(1,3) \<open>y \<le> 9999\<close> by (simp add: valid_ymd_def ymd_ordinal_def)
qed

section \<open>Reading back what was written\<close>

lemma length_pad [simp]: "length (pad k n) = k"
  by (induction k arbitrary: n) auto

lemma pad_digits: "list_all is_digit (pad k n)"
  by (induction k arbitrary: n) auto

lemma nat_of_digits_pad: "n < 10 ^ k \<Longrightarrow> nat_of_digits (pad k n) = n"
proof (induction k arbitrary: n)
  case 0
  then show ?case by (simp add: nat_of_digits_def)
next
  case (Suc k)
  then have "n div 10 < 10 ^ k" by (simp add: less_mult_imp_div_less mult.commute)
  then show ?case using Suc.IH [of "n div 10"] by (simp add: nat_of_digits_snoc)
qed

lemma isdigit_pad: "0 < k \<Longrightarrow> isdigit (pad k n)"
  using pad_digits [of k n] length_pad [of k n] by (auto simp: isdigit_def simp del: length_pad)

lemma short_field_pad: "lo \<le> int n \<Longrightarrow> int n \<le> hi \<Longrightarrow> n < 100 \<Longrightarrow> short_field lo hi (pad 2 n) = Some (int n)"
  by (simp add: short_field_def isdigit_pad int_of_digits_eq nat_of_digits_pad)

lemma pad_absent: "\<not> is_digit c \<Longrightarrow> c \<notin> set (pad k n)"
  using pad_digits [of k n] by (auto simp: list_all_iff)

lemma split_on_none: "c \<notin> set a \<Longrightarrow> split_on c a = [a]"
  by (induction a) (auto simp: split_on_def)

lemma digit_lower: "is_digit c \<Longrightarrow> lower_char c = c"
  by (simp add: lower_char_def is_digit_def is_upper_def)

lemma strf_date_form:
  assumes "n \<le> max_ordinal" "365000 \<le> n"
  obtains y m d where "valid_ymd y m d" "ymd_ordinal y m d = n" "d \<le> 31" "1000 \<le> y" "y \<le> 9999"
    "strf_date n = pad 4 (nat y) @ CHR ''-'' # pad 2 (nat m) @ CHR ''-'' # pad 2 (nat d)"
proof -
  obtain y m d where ymd: "ordinal_ymd n = (y, m, d)" by (cases "ordinal_ymd n") auto
  have v: "valid_ymd y m d" "ymd_ordinal y m d = n" "d \<le> 31" "n \<le> days_before_year (y + 1)"
    using ordinal_ymd_spec [of n y m d] assms ymd by auto
  have "\<not> y + 1 \<le> 1000"
  proof
    assume "y + 1 \<le> 1000"
    then have "days_before_year (y + 1) \<le> days_before_year 1000" using days_before_mono [of "y + 1" 1000] by simp
    also have "\<dots> < 365000" by (simp add: days_before_year_def)
    finally show False using assms(2) v(4) by simp
  qed
  then have y: "1000 \<le> y" "y \<le> 9999" using v(1) by (auto simp: valid_ymd_def)
  have "strf_date n = pad 4 (nat y) @ CHR ''-'' # pad 2 (nat m) @ CHR ''-'' # pad 2 (nat d)"
    using ymd y by (simp add: strf_date_def strf_year_def)
  then show thesis using that v(1-3) y by blast
qed

lemma strptime_strf_date:
  assumes "n \<le> max_ordinal" "365000 \<le> n"
  shows "strptime_date (strf_date n) = Some n" "\<forall>c \<in> set (strf_date n). lower_char c \<noteq> CHR ''t''"
proof -
  obtain y m d where v: "valid_ymd y m d" "ymd_ordinal y m d = n" "d \<le> 31" and y: "1000 \<le> y" "y \<le> 9999"
    and s: "strf_date n = pad 4 (nat y) @ CHR ''-'' # pad 2 (nat m) @ CHR ''-'' # pad 2 (nat d)"
    by (rule strf_date_form [OF assms])
  have nd: "\<not> is_digit CHR ''-''" "\<not> is_digit CHR ''t''" by (simp_all add: is_digit_def)
  have "split_on CHR ''-'' (strf_date n) = [pad 4 (nat y), pad 2 (nat m), pad 2 (nat d)]"
    unfolding s by (simp add: split_on_cut split_on_none pad_absent nd)
  moreover have "\<not> (length (pad 2 (nat d)) = 2 \<and> hd (pad 2 (nat d)) = CHR '' '')"
  proof -
    have "pad 2 (nat d) \<noteq> []" by (metis length_pad list.size(3) zero_neq_numeral)
    then have "is_digit (hd (pad 2 (nat d)))" using pad_digits [of 2 "nat d"] by (simp add: list_all_iff)
    then show ?thesis by (auto simp: is_digit_def)
  qed
  moreover have "int_of_digits (pad 4 (nat y)) = y" using y by (simp add: int_of_digits_eq nat_of_digits_pad)
  moreover have "short_field 1 12 (pad 2 (nat m)) = Some m" "short_field 1 31 (pad 2 (nat d)) = Some d"
    using v short_field_pad [of 1 "nat m" 12] short_field_pad [of 1 "nat d" 31] by (auto simp: valid_ymd_def)
  ultimately show "strptime_date (strf_date n) = Some n"
    using v(1,2) by (simp add: strptime_date_def isdigit_pad)
  have "c \<noteq> CHR ''t''" "lower_char c = c" if "is_digit c" for c using that nd digit_lower by auto
  then show "\<forall>c \<in> set (strf_date n). lower_char c \<noteq> CHR ''t''"
    unfolding s using pad_digits by (fastforce simp: list_all_iff lower_char_def is_upper_def)
qed

lemma hms_micros_parts: "hms_micros (int (s div 3600), int (s div 60 mod 60), int (s mod 60), u) = int s * 1000000 + u"
proof -
  have "s div 60 div 60 = s div 3600" by (simp add: div_mult2_eq [symmetric])
  moreover have "s = s div 60 * 60 + s mod 60" "s div 60 = s div 60 div 60 * 60 + s div 60 mod 60" by simp_all
  ultimately have "s = s div 3600 * 3600 + s div 60 mod 60 * 60 + s mod 60" by linarith
  then show ?thesis unfolding hms_micros_def by simp
qed

lemma strptime_strf_time:
  assumes "s < 86400" "isdigit f" "length f \<le> 6"
  shows "strptime_time True (strf_time s @ ''.'' @ f @ ''Z'') =
    Some (int s * 1000000 + int_of_digits (f @ replicate (6 - length f) CHR ''0''))"
proof -
  let ?h = "s div 3600" and ?m = "s div 60 mod 60" and ?s = "s mod 60"
  have nd: "\<not> is_digit CHR '':''" "\<not> is_digit CHR ''.''" by (simp_all add: is_digit_def)
  have f: "CHR '':'' \<notin> set f" using assms(2) nd by (auto simp: isdigit_def list_all_iff)
  have "split_on CHR '':'' (strf_time s @ CHR ''.'' # f) = [pad 2 ?h, pad 2 ?m, pad 2 ?s @ CHR ''.'' # f]"
    unfolding strf_time_def using f by (simp add: split_on_cut split_on_none pad_absent nd)
  moreover have "partition_on CHR ''.'' (pad 2 ?s @ CHR ''.'' # f) = (pad 2 ?s, ''.'', f)"
  proof -
    have "\<forall>c \<in> set (pad 2 ?s). c \<noteq> CHR ''.''" using pad_absent [OF nd(2)] by blast
    then show ?thesis by (simp add: partition_on_def takeWhile_append dropWhile_append)
  qed
  moreover have "short_field 0 23 (pad 2 ?h) = Some (int ?h)" "short_field 0 59 (pad 2 ?m) = Some (int ?m)"
    "short_field 0 59 (pad 2 ?s) = Some (int ?s)"
    using assms(1) by (auto intro!: short_field_pad)
  moreover have "strptime_frac f = Some (int_of_digits (f @ replicate (6 - length f) CHR ''0''))"
    using assms by (simp add: strptime_frac_def)
  moreover have "hms_micros (int ?h, int ?m, int ?s, u) = int s * 1000000 + u" for u by (rule hms_micros_parts)
  moreover have "lower_char CHR ''Z'' = CHR ''z''" by code_simp
  ultimately show ?thesis by (simp add: strptime_time_def butlast_append)
qed

text \<open>A timestamp is read back as the instant it was written from, for every instant from year 1000 to 9999.\<close>

lemma mod_mult_div: "0 < b \<Longrightarrow> 0 < c \<Longrightarrow> (t :: int) mod (b * c) div b = t div b mod c"
  by (simp add: zmod_zmult2_eq)

lemma whole_seconds:
  "t div day_micros * day_micros + int (nat (t mod day_micros div 1000000)) * 1000000 = t div 1000000 * 1000000"
proof -
  define q where "q = t div 1000000"
  have n': "t div day_micros = q div 86400"
    using zdiv_zmult2_eq [of 86400 t 1000000] by (simp add: day_micros_def q_def)
  have s': "int (nat (t mod day_micros div 1000000)) = q mod 86400"
    using mod_mult_div [of 1000000 86400 t] by (simp add: day_micros_def q_def)
  have "a * day_micros + b * 1000000 = (a * 86400 + b) * 1000000" for a b by (simp add: day_micros_def)
  then have "t div day_micros * day_micros + int (nat (t mod day_micros div 1000000)) * 1000000 =
      (q div 86400 * 86400 + q mod 86400) * 1000000"
    unfolding n' s' .
  then show ?thesis unfolding div_mult_mod_eq q_def .
qed

lemma strptime_stamp:
  assumes "365000 * day_micros \<le> t" "t < max_ordinal * day_micros" "isdigit f" "length f \<le> 6"
  shows "strptime_datetime True (strf_seconds t @ ''.'' @ f @ ''Z'') =
    Some (t div 1000000 * 1000000 + int_of_digits (f @ replicate (6 - length f) CHR ''0''))"
proof -
  let ?n = "t div day_micros + 1" and ?s = "nat (t mod day_micros div 1000000)"
  have dm: "day_micros = 86400 * 1000000" by (simp add: day_micros_def)
  have n: "365000 \<le> ?n" "?n \<le> max_ordinal"
    using assms(1,2) by (auto simp: day_micros_def max_ordinal_def)
  have s: "?s < 86400" by (simp add: day_micros_def nat_less_iff)
  have whole: "(?n - 1) * day_micros + int ?s * 1000000 = t div 1000000 * 1000000"
    using whole_seconds [of t] by simp
  let ?d = "strf_date ?n" and ?r = "strf_time ?s @ ''.'' @ f @ ''Z''"
  have T: "lower_char CHR ''T'' = CHR ''t''" by code_simp
  have "takeWhile (\<lambda>c. lower_char c \<noteq> CHR ''t'') (?d @ CHR ''T'' # ?r) = ?d"
    "dropWhile (\<lambda>c. lower_char c \<noteq> CHR ''t'') (?d @ CHR ''T'' # ?r) = CHR ''T'' # ?r"
    using strptime_strf_date(2) [OF n(2,1)] T by (simp_all add: takeWhile_append dropWhile_append)
  then show ?thesis
    using strptime_strf_date(1) [OF n(2,1)] strptime_strf_time [OF s assms(3,4)] whole
    by (simp add: strptime_datetime_def strf_seconds_def)
qed

lemma strptime_strftime_us:
  assumes "365000 * day_micros \<le> t" "t < max_ordinal * day_micros"
  shows "strptime_datetime True (strftime_us t) = Some t"
  using strptime_stamp [OF assms, of "pad 6 (nat (t mod 1000000))"]
  by (simp add: strftime_us_def isdigit_pad int_of_digits_eq nat_of_digits_pad nat_less_iff)

lemma strptime_strftime_000:
  assumes "365000 * day_micros \<le> t" "t < max_ordinal * day_micros"
  shows "strptime_datetime True (strftime_000 t) = Some (t div 1000000 * 1000000)"
proof -
  have "isdigit ''000''" "int_of_digits (''000'' @ replicate 3 CHR ''0'') = 0" by code_simp+
  then show ?thesis using strptime_stamp [OF assms, of "''000''"] by (simp add: strftime_000_def)
qed

section \<open>Reading a stamp as ISO 8601\<close>

lemma int_of_digits_pad: "n < 10 ^ k \<Longrightarrow> int_of_digits (pad k n) = int n"
  by (simp add: int_of_digits_eq nat_of_digits_pad)

lemma digits_at_here: "length w = n \<Longrightarrow> list_all is_digit w \<Longrightarrow> digits_at (w @ s) 0 n = Some (int_of_digits w)"
  by (simp add: digits_at_def)

lemma digits_at_drop: "digits_at s i n = digits_at (drop i s) 0 n"
  by (simp add: digits_at_def)

lemma char_at_append: "char_at (a @ s) i = (if i < length a then char_at a i else char_at s (i - length a))"
  by (auto simp: char_at_def nth_append)

lemma char_at_Cons [simp]: "char_at (c # s) 0 = Some c"
  by (simp add: char_at_def)

lemma char_at_pad: "i < k \<Longrightarrow> \<not> is_digit c \<Longrightarrow> char_at (pad k n) i \<noteq> Some c"
  using pad_digits [of k n] by (auto simp: char_at_def list_all_length)

lemma iso_date_strf_date:
  assumes "n \<le> max_ordinal" "365000 \<le> n"
  shows "length (strf_date n) = 10" "date_separator (strf_date n @ CHR ''T'' # s) = Some 10"
    "iso_date (strf_date n) = Some n"
proof -
  obtain y m d where v: "valid_ymd y m d" "ymd_ordinal y m d = n" "d \<le> 31" and y: "1000 \<le> y" "y \<le> 9999"
    and f: "strf_date n = pad 4 (nat y) @ CHR ''-'' # pad 2 (nat m) @ CHR ''-'' # pad 2 (nat d)"
    by (rule strf_date_form [OF assms])
  let ?y = "pad 4 (nat y)" and ?m = "pad 2 (nat m)" and ?d = "pad 2 (nat d)"
  have nd: "\<not> is_digit CHR ''W''" by (simp add: is_digit_def)
  have w: "char_at (?m @ r) 0 \<noteq> Some CHR ''W''" for r using char_at_pad [OF _ nd] by (simp add: char_at_append)
  show len: "length (strf_date n) = 10" by (simp add: f)
  have c4: "char_at (strf_date n @ r) 4 = Some CHR ''-''" for r by (simp add: f char_at_append)
  have c5: "char_at (strf_date n @ r) 5 \<noteq> Some CHR ''W''" for r
    using w [of "CHR ''-'' # ?d @ r"] by (simp add: f char_at_def nth_append)
  have c7: "char_at (strf_date n) 7 = Some CHR ''-''" by (simp add: f char_at_def nth_append)
  show "date_separator (strf_date n @ CHR ''T'' # s) = Some 10"
    using c4 [of "CHR ''T'' # s"] c5 [of "CHR ''T'' # s"] len by (simp add: date_separator_def Let_def)
  have "digits_at (strf_date n) 0 4 = Some y"
    using digits_at_here [OF length_pad pad_digits] y by (simp add: f int_of_digits_pad)
  moreover have "drop 5 (strf_date n) = ?m @ CHR ''-'' # ?d" "drop 8 (strf_date n) = ?d @ []" by (simp_all add: f)
  then have "digits_at (strf_date n) 5 2 = Some m" "digits_at (strf_date n) 8 2 = Some d"
    using digits_at_here [OF length_pad pad_digits] v
    by (simp_all only: digits_at_drop [of _ 5] digits_at_drop [of _ 8]) (auto simp: int_of_digits_pad valid_ymd_def)
  ultimately show "iso_date (strf_date n) = Some n"
    using c4 [of "[]"] c5 [of "[]"] c7 len v by (simp add: iso_date_def Let_def)
qed

lemma parse_hms_strf_time:
  assumes "s < 86400" "isdigit f" "length f \<le> 6"
  shows "parse_hms (strf_time s @ ''.'' @ f) =
    Some ((int (s div 3600), int (s div 60 mod 60), int (s mod 60), int_of_digits (f @ replicate (6 - length f) CHR ''0'')), False)"
proof -
  let ?h = "s div 3600" and ?m = "s div 60 mod 60" and ?s = "s mod 60"
  have f: "f \<noteq> []" "list_all is_digit f" using assms(2) by (auto simp: isdigit_def)
  have d: "digits_at (pad 2 n @ r) 0 2 = Some (int n)" if "n < 100" for n r
    using digits_at_here [OF length_pad pad_digits] that by (simp add: int_of_digits_pad)
  have h: "?h < 100" "?m < 100" "?s < 100" using assms(1) by auto
  have "hms_loop (Suc 0) True (pad 2 ?s @ ''.'' @ f) = Some ([int ?s], Inr f)"
    using d [OF h(3)] f(1) by (cases f) simp_all
  then have "hms_loop (Suc (Suc 0)) True (pad 2 ?m @ '':'' @ pad 2 ?s @ ''.'' @ f) = Some ([int ?m, int ?s], Inr f)"
    using d [OF h(2)] by simp
  then have "hms_loop 3 True (pad 2 ?h @ '':'' @ pad 2 ?m @ '':'' @ pad 2 ?s @ ''.'' @ f) =
      Some ([int ?h, int ?m, int ?s], Inr f)"
    using d [OF h(1)] by (simp add: numeral_3_eq_3)
  moreover have "char_at (pad 2 ?h @ '':'' @ r) 2 = Some CHR '':''" for r by (simp add: char_at_append)
  ultimately show ?thesis using f assms(3) by (simp add: parse_hms_def strf_time_def)
qed

lemma iso_time_stamp:
  assumes "s < 86400" "isdigit f" "length f \<le> 6"
  shows "iso_time (strf_time s @ ''.'' @ f @ ''+00:00'') =
    Some (int s * 1000000 + int_of_digits (f @ replicate (6 - length f) CHR ''0''), Some 0)"
proof -
  define b where "b = strf_time s @ ''.'' @ f"
  have tz: "\<not> is_digit CHR ''+''" "\<not> is_digit CHR ''-''" "\<not> is_digit CHR ''Z''" by (simp_all add: is_digit_def)
  have "\<forall>c \<in> set b. c \<notin> {CHR ''+'', CHR ''-'', CHR ''Z''}"
    using pad_absent [OF tz(1)] pad_absent [OF tz(2)] pad_absent [OF tz(3)] tz assms(2)
    by (auto simp: strf_time_def isdigit_def list_all_iff b_def)
  then have split: "takeWhile (\<lambda>c. \<not> c \<in> {CHR ''+'', CHR ''-'', CHR ''Z''}) (b @ ''+00:00'') = b"
    "dropWhile (\<lambda>c. \<not> c \<in> {CHR ''+'', CHR ''-'', CHR ''Z''}) (b @ ''+00:00'') = ''+00:00''"
    by (simp_all add: takeWhile_append dropWhile_append)
  have off: "parse_hms ''00:00'' = Some ((0, 0, 0, 0), False)" by code_simp
  have hms: "int (s div 3600) < 24" "int (s div 60 mod 60) < 60" "int (s mod 60) < 60" using assms(1) by auto
  have micros: "hms_micros (0, 0, 0, 0) = 0" "0 < day_micros" by (simp_all add: hms_micros_def day_micros_def)
  have "iso_time (b @ ''+00:00'') = Some (hms_micros (int (s div 3600), int (s div 60 mod 60), int (s mod 60),
      int_of_digits (f @ replicate (6 - length f) CHR ''0'')), Some 0)"
    unfolding iso_time_def Let_def split parse_hms_strf_time [OF assms, folded b_def]
    by (simp only: hms off micros option.case prod.case list.case simp_thms if_True if_False neg_equal_zero) simp
  then show ?thesis by (simp add: b_def hms_micros_parts)
qed

lemma fromisoformat_stamp:
  assumes "365000 * day_micros \<le> t" "t < max_ordinal * day_micros" "isdigit f" "length f \<le> 6"
  shows "fromisoformat (strf_seconds t @ ''.'' @ f @ ''+00:00'') =
    Some (t div 1000000 * 1000000 + int_of_digits (f @ replicate (6 - length f) CHR ''0''), Some 0)"
proof -
  define n s where ns: "n = t div day_micros + 1" "s = nat (t mod day_micros div 1000000)"
  have n: "365000 \<le> n" "n \<le> max_ordinal"
    using assms(1,2) by (auto simp: day_micros_def max_ordinal_def ns)
  have s: "s < 86400" by (simp add: day_micros_def nat_less_iff ns)
  have whole: "(n - 1) * day_micros + int s * 1000000 = t div 1000000 * 1000000"
    using whole_seconds [of t] by (simp add: ns)
  show ?thesis
    unfolding strf_seconds_def ns [symmetric] whole [symmetric]
    using iso_date_strf_date [OF n(2,1)] iso_time_stamp [OF s assms(3,4)] by (simp add: fromisoformat_def)
qed

lemma replace_str_char: "replace_str [c] new s = concat (map (\<lambda>x. if x = c then new else [x]) s)"
  by (induction s) (simp_all add: startswith_def)

lemma concat_map_absent: "c \<notin> set s \<Longrightarrow> concat (map (\<lambda>x. if x = c then new else [x]) s) = s"
  by (induction s) auto

lemma replace_Z_stamp:
  assumes "365000 * day_micros \<le> t" "t < max_ordinal * day_micros" "isdigit f"
  shows "replace_str ''Z'' ''+00:00'' (strf_seconds t @ ''.'' @ f @ ''Z'') = strf_seconds t @ ''.'' @ f @ ''+00:00''"
proof -
  have nd: "\<not> is_digit CHR ''Z''" by (simp add: is_digit_def)
  define n where "n = t div day_micros + 1"
  have n: "365000 \<le> n" "n \<le> max_ordinal"
    using assms(1,2) by (auto simp: day_micros_def max_ordinal_def n_def)
  obtain y m d where "strf_date n = pad 4 (nat y) @ CHR ''-'' # pad 2 (nat m) @ CHR ''-'' # pad 2 (nat d)"
    by (rule strf_date_form [OF n(2,1)])
  then have "CHR ''Z'' \<notin> set (strf_seconds t @ ''.'' @ f)"
    using pad_absent [OF nd] nd assms(3) by (auto simp: strf_seconds_def n_def [symmetric] strf_time_def isdigit_def list_all_iff)
  then have "concat (map (\<lambda>x. if x = CHR ''Z'' then ''+00:00'' else [x]) (strf_seconds t @ ''.'' @ f)) =
      strf_seconds t @ ''.'' @ f"
    by (rule concat_map_absent)
  then show ?thesis by (simp add: replace_str_char)
qed

lemma parse_utc_stamp:
  assumes "365000 * day_micros \<le> t" "t < max_ordinal * day_micros" "isdigit f" "length f \<le> 6"
  shows "parse_utc (strf_seconds t @ ''.'' @ f @ ''Z'') =
    Some (t div 1000000 * 1000000 + int_of_digits (f @ replicate (6 - length f) CHR ''0''))"
  using fromisoformat_stamp [OF assms] replace_Z_stamp [OF assms(1-3)] by (simp add: parse_utc_def)

lemma plus_seconds_utc_now:
  assumes "365000 * day_micros \<le> t" "t + 1000000 < max_ordinal * day_micros"
  shows "plus_seconds (utc_now t) 1 = Inr (Some (iso_ms (t div 1000000 * 1000000 + 1000000, 0)))"
proof -
  have z: "isdigit ''000''" "int_of_digits (''000'' @ replicate 3 CHR ''0'') = 0" by code_simp+
  have t: "t < max_ordinal * day_micros" using assms(2) by simp
  have r: "round_half_even (1 * 1000000) = 1000000" by (simp add: round_half_even_def)
  define q where "q = t div 1000000 * 1000000"
  have "0 \<le> t" using assms(1) by (simp add: day_micros_def)
  then have q: "0 \<le> q" "q \<le> t" unfolding q_def by (simp_all add: pos_imp_zdiv_nonneg_iff)
  then have "\<not> (q + 1000000 < 0 \<or> max_ordinal * day_micros \<le> q + 1000000)" using assms(2) by simp
  moreover have "fromisoformat (replace_str ''Z'' ''+00:00'' (utc_now t)) = Some (q, Some 0)"
    using fromisoformat_stamp [OF assms(1) t z(1)] replace_Z_stamp [OF assms(1) t z(1)] z(2)
    by (simp add: utc_now_def strftime_000_def q_def)
  ultimately show ?thesis unfolding plus_seconds_def q_def [symmetric] r by (simp add: Let_def)
qed

lemma parse_utc_strftime_000:
  assumes "365000 * day_micros \<le> t" "t < max_ordinal * day_micros"
  shows "parse_utc (strftime_000 t) = Some (t div 1000000 * 1000000)"
proof -
  have "isdigit ''000''" "int_of_digits (''000'' @ replicate 3 CHR ''0'') = 0" by code_simp+
  then show ?thesis using parse_utc_stamp [OF assms, of "''000''"] by (simp add: strftime_000_def)
qed

lemma seconds_since_utc_now:
  assumes "365000 * day_micros \<le> t" "t < max_ordinal * day_micros"
  shows "seconds_since now (utc_now t) = Some (of_int (now - t div 1000000 * 1000000) / 1000000)"
proof -
  define n where "n = t div day_micros + 1"
  have n: "365000 \<le> n" "n \<le> max_ordinal"
    using assms by (auto simp: day_micros_def max_ordinal_def n_def)
  obtain y m d where "strf_date n = pad 4 (nat y) @ CHR ''-'' # pad 2 (nat m) @ CHR ''-'' # pad 2 (nat d)"
    by (rule strf_date_form [OF n(2,1)])
  then have hd: "hd (utc_now t) = hd (pad 4 (nat y))" "last (utc_now t) = CHR ''Z''"
    using length_pad [of 4 "nat y"] by (auto simp: utc_now_def strftime_000_def strf_seconds_def n_def hd_append simp del: length_pad)
  have "pad 4 (nat y) \<noteq> []" by (metis length_pad list.size(3) zero_neq_numeral)
  then have "is_digit (hd (pad 4 (nat y)))" using pad_digits [of 4 "nat y"] by (simp add: list_all_iff)
  then have "\<not> is_space (hd (utc_now t))" "\<not> is_space (last (utc_now t))"
    unfolding hd by (auto simp: is_digit_def is_space_def)
  then have "strip (utc_now t) = utc_now t" by (simp add: strip_no_space)
  moreover have "utc_now t \<noteq> []" by (simp add: utc_now_def strftime_000_def)
  ultimately show ?thesis using parse_utc_strftime_000 [OF assms] by (simp add: seconds_since_def utc_now_def)
qed


lemma iso_ms_nonempty: "iso_ms m \<noteq> []"
proof -
  have "new \<noteq> [] \<Longrightarrow> s \<noteq> [] \<Longrightarrow> replace_str old new s \<noteq> []" for old new s :: string
    by (cases s) auto
  then show ?thesis by (simp add: iso_ms_def split: prod.splits)
qed

end
