(* ===== verification/Py_Sort.thy ===== *)
theory Py_Sort
  imports Py_Val "HOL-Library.Multiset"
begin

text \<open>
  \<open>sorted\<close> and \<open>list.sort\<close> with a key of the form \<open>(rank, number, text)\<close>, the only one the sources sort
  records by.

  Shown here: on keys without a NaN the result is a stable permutation in order, in both
  directions (locale \<open>weak_order\<close>, interpreted on the comparison of keys and its converse).
\<close>

section \<open>Keys\<close>

type_synonym order_key = "nat \<times> pyfloat \<times> string"

text \<open>\<open><\<close> on the keys: tuples compare at the first component that differs.\<close>

fun key_less :: "order_key \<Rightarrow> order_key \<Rightarrow> bool" where
  "key_less (a, x, s) (b, y, t) \<longleftrightarrow>
     a < b \<or> a = b \<and> (if fl_eq x y then s < t else fl_less x y)"

text \<open>
  \<open>sorted\<close> with a key: stable, and stable in reverse too. Keys are computed first, in order, so an
  exception in one of them is raised. (A NaN key makes \<open><\<close> no order; the result is then that of
  insertion, which is one of the orders CPython may leave.)
\<close>

fun keyed :: "(pyval \<Rightarrow> order_key result) \<Rightarrow> pyval list \<Rightarrow> (order_key \<times> pyval) list result" where
  "keyed key [] = Inr []"
| "keyed key (r # rs) =
     (case key r of
        Inl e \<Rightarrow> Inl e
      | Inr k \<Rightarrow> (case keyed key rs of Inl e \<Rightarrow> Inl e | Inr krs \<Rightarrow> Inr ((k, r) # krs)))"

fun insert_by :: "('k \<Rightarrow> 'k \<Rightarrow> bool) \<Rightarrow> 'k \<times> 'v \<Rightarrow> ('k \<times> 'v) list \<Rightarrow> ('k \<times> 'v) list" where
  "insert_by lt x [] = [x]"
| "insert_by lt x (y # ys) = (if lt (fst y) (fst x) then y # insert_by lt x ys else x # y # ys)"

definition stable_sort :: "('k \<Rightarrow> 'k \<Rightarrow> bool) \<Rightarrow> ('k \<times> 'v) list \<Rightarrow> ('k \<times> 'v) list" where
  "stable_sort lt xs = foldr (insert_by lt) xs []"

definition sorted_records :: "(pyval \<Rightarrow> order_key result) \<Rightarrow> bool \<Rightarrow> pyval list \<Rightarrow> pyval list result" where
  "sorted_records key descending rs =
     (case keyed key rs of
        Inl e \<Rightarrow> Inl e
      | Inr krs \<Rightarrow> Inr (map snd (stable_sort (if descending then (\<lambda>a b. key_less b a) else key_less) krs)))"

section \<open>Order and stability\<close>

text \<open>A strict weak order on the keys that satisfy \<open>ok\<close>.\<close>

locale weak_order =
  fixes lt :: "'k \<Rightarrow> 'k \<Rightarrow> bool" and ok :: "'k \<Rightarrow> bool"
  assumes asym: "ok a \<Longrightarrow> ok b \<Longrightarrow> lt a b \<Longrightarrow> \<not> lt b a"
    and weaken: "ok a \<Longrightarrow> ok b \<Longrightarrow> ok c \<Longrightarrow> \<not> lt b a \<Longrightarrow> \<not> lt c b \<Longrightarrow> \<not> lt c a"
begin

definition same :: "'k \<Rightarrow> 'k \<Rightarrow> bool" where
  "same a b \<longleftrightarrow> \<not> lt a b \<and> \<not> lt b a"

lemma mset_insert_by: "mset (insert_by lt x ys) = add_mset x (mset ys)"
  by (induction ys) auto

lemma mset_stable_sort: "mset (stable_sort lt xs) = mset xs"
  by (induction xs) (simp_all add: stable_sort_def mset_insert_by)

lemma set_insert_by: "set (insert_by lt x ys) = insert x (set ys)"
  by (metis mset_insert_by set_mset_add_mset_insert set_mset_mset)

lemma set_stable_sort: "set (stable_sort lt xs) = set xs"
  by (metis mset_stable_sort set_mset_mset)

lemma sorted_insert_by:
  "ok (fst x) \<Longrightarrow> \<forall>y \<in> set ys. ok (fst y) \<Longrightarrow> sorted_wrt (\<lambda>a b. \<not> lt (fst b) (fst a)) ys \<Longrightarrow>
     sorted_wrt (\<lambda>a b. \<not> lt (fst b) (fst a)) (insert_by lt x ys)"
proof (induction ys)
  case (Cons y ys)
  show ?case
  proof (cases "lt (fst y) (fst x)")
    case True
    then show ?thesis using Cons asym by (auto simp: set_insert_by)
  next
    case False
    then have "\<not> lt (fst z) (fst x)" if "z \<in> set ys" for z
      using weaken [of "fst x" "fst y" "fst z"] Cons.prems that by auto
    then show ?thesis using Cons.prems False by auto
  qed
qed simp

lemma sorted_stable_sort:
  "\<forall>x \<in> set xs. ok (fst x) \<Longrightarrow> sorted_wrt (\<lambda>a b. \<not> lt (fst b) (fst a)) (stable_sort lt xs)"
proof (induction xs)
  case (Cons x xs)
  then show ?case using sorted_insert_by [of x "stable_sort lt xs"] set_stable_sort [of xs]
    by (simp add: stable_sort_def)
qed (simp add: stable_sort_def)

lemma insert_by_keeps_same:
  "ok (fst x) \<Longrightarrow> ok k \<Longrightarrow> \<forall>y \<in> set ys. ok (fst y) \<Longrightarrow>
     filter (\<lambda>z. same (fst z) k) (insert_by lt x ys) = filter (\<lambda>z. same (fst z) k) (x # ys)"
proof (induction ys)
  case (Cons y ys)
  show ?case
  proof (cases "lt (fst y) (fst x)")
    case True
    then have "\<not> (same (fst y) k \<and> same (fst x) k)"
      using weaken [of "fst x" k "fst y"] Cons.prems by (auto simp: same_def)
    then show ?thesis using Cons True by auto
  qed simp
qed simp

lemma stable_sort_stable:
  "ok k \<Longrightarrow> \<forall>x \<in> set xs. ok (fst x) \<Longrightarrow>
     filter (\<lambda>z. same (fst z) k) (stable_sort lt xs) = filter (\<lambda>z. same (fst z) k) xs"
proof (induction xs)
  case (Cons x xs)
  then show ?case using insert_by_keeps_same [of x k "stable_sort lt xs"] set_stable_sort [of xs]
    by (simp add: stable_sort_def)
qed (simp add: stable_sort_def)

end

fun no_nan :: "order_key \<Rightarrow> bool" where
  "no_nan (a, x, s) \<longleftrightarrow> x \<noteq> NaN"

lemma fl_eq_iff: "x \<noteq> NaN \<Longrightarrow> y \<noteq> NaN \<Longrightarrow> fl_eq x y \<longleftrightarrow> x = y"
  by (cases x; cases y) auto

lemma key_less_asym: "no_nan a \<Longrightarrow> no_nan b \<Longrightarrow> key_less a b \<Longrightarrow> \<not> key_less b a"
  by (cases a; cases b) (auto simp: fl_eq_iff dest: fl_less_trans split: if_splits)

lemma key_less_total:
  "no_nan a \<Longrightarrow> no_nan b \<Longrightarrow> \<not> key_less a b \<Longrightarrow> a = b \<or> key_less b a"
  using fl_trichotomy by (cases a; cases b) (auto simp: fl_eq_iff split: if_splits)

lemma key_less_trans: "no_nan a \<Longrightarrow> no_nan b \<Longrightarrow> no_nan c \<Longrightarrow> key_less a b \<Longrightarrow> key_less b c \<Longrightarrow> key_less a c"
  by (cases a; cases b; cases c) (auto simp: fl_eq_iff dest: fl_less_trans split: if_splits)

interpretation ascending: weak_order key_less no_nan
  by unfold_locales (blast dest: key_less_asym, metis key_less_total key_less_trans key_less_asym)

interpretation descending: weak_order "\<lambda>a b. key_less b a" no_nan
  by unfold_locales (blast dest: key_less_asym, metis key_less_total key_less_trans key_less_asym)

definition before :: "bool \<Rightarrow> order_key \<Rightarrow> order_key \<Rightarrow> bool" where
  "before descending a b = (if descending then key_less b a else key_less a b)"

lemma keyed_length: "keyed key rs = Inr krs \<Longrightarrow> length krs = length rs"
  by (induction rs arbitrary: krs) (auto split: sum.splits)

text \<open>Sorting records: a stable permutation in the direction asked for.\<close>

lemma sorted_records_spec:
  assumes "keyed key rs = Inr krs" "\<forall>kr \<in> set krs. no_nan (fst kr)"
  shows "\<exists>out. sorted_records key desc rs = Inr (map snd out) \<and> mset out = mset krs \<and>
    sorted_wrt (\<lambda>a b. \<not> before desc (fst b) (fst a)) out \<and>
    list_all (\<lambda>(k, r). filter (\<lambda>z. fst z = k) out = filter (\<lambda>z. fst z = k) krs) krs"
proof -
  let ?lt = "if desc then (\<lambda>a b. key_less b a) else key_less"
  define out where "out = stable_sort ?lt krs"
  have m: "mset out = mset krs"
    unfolding out_def by (cases desc) (simp_all add: ascending.mset_stable_sort descending.mset_stable_sort)
  have srt: "sorted_wrt (\<lambda>a b. \<not> before desc (fst b) (fst a)) out"
    using ascending.sorted_stable_sort [OF assms(2)] descending.sorted_stable_sort [OF assms(2)]
    by (simp add: out_def before_def)
  have same: "ascending.same a k \<longleftrightarrow> a = k" "descending.same a k \<longleftrightarrow> a = k" if "no_nan a" "no_nan k" for a k
    using that key_less_total [of a k] key_less_asym [of k k]
    by (auto simp: ascending.same_def descending.same_def)
  have stable: "filter (\<lambda>z. fst z = k) out = filter (\<lambda>z. fst z = k) krs" if "no_nan k" for k
  proof -
    have "filter (\<lambda>z. fst z = k) ys = filter (\<lambda>z. ascending.same (fst z) k) ys"
      "filter (\<lambda>z. fst z = k) ys = filter (\<lambda>z. descending.same (fst z) k) ys" if "set ys \<subseteq> set krs" for ys
      using that assms(2) same [OF _ \<open>no_nan k\<close>] by (intro filter_cong refl; blast)+
    moreover have "set out = set krs" using m by (metis set_mset_mset)
    ultimately show ?thesis
      using ascending.stable_sort_stable [OF that assms(2)] descending.stable_sort_stable [OF that assms(2)]
      by (cases desc) (simp_all add: out_def)
  qed
  have "list_all (\<lambda>(k, r). filter (\<lambda>z. fst z = k) out = filter (\<lambda>z. fst z = k) krs) krs"
    using stable assms(2) by (force simp: list_all_iff)
  then show ?thesis using m srt assms(1) by (intro exI [of _ out]) (simp add: sorted_records_def out_def)
qed

lemma sorted_records_perm: "sorted_records key d rs = Inr out \<Longrightarrow> mset out = mset rs"
proof -
  assume "sorted_records key d rs = Inr out"
  then obtain krs where k: "keyed key rs = Inr krs"
    "out = map snd (stable_sort (if d then (\<lambda>a b. key_less b a) else key_less) krs)"
    by (auto simp: sorted_records_def split: sum.splits)
  have "mset (stable_sort (if d then (\<lambda>a b. key_less b a) else key_less) krs) = mset krs"
    by (simp add: ascending.mset_stable_sort descending.mset_stable_sort)
  moreover have "map snd krs = rs" using k(1)
    by (induction rs arbitrary: krs) (auto split: sum.splits)
  ultimately show ?thesis using k(2) by (metis mset_map)
qed

end
