(* ===== verification/S1_Filter.thy ===== *)
theory S1_Filter
  imports Py_Val Py_Format Py_Sort
begin

text \<open>
  The SentinelOne filter engine, \<open>src/backend/utils/filtering.py\<close>, and the resolution of a write's
  \<open>filter\<close> object, \<open>src/backend/utils/filter_selection.py\<close>. The type adapters of pydantic, which check
  integer and boolean parameters, are the parameter \<open>validate\<close>: the list of errors it reports for a
  kind and a text, empty when the text is accepted.

  Shown here: a filtered listing is the records that satisfy every active parameter, or the refusal
  of the first parameter its declared type cannot hold; membership and its negation partition a
  listing; a write selects exactly what the listing returns.
\<close>

section \<open>Parameters\<close>

datatype filter_type =
    F_eq | F_in | F_nin | F_contains | F_bool | F_gt | F_gte | F_lt | F_lte | F_between
  | F_gte_dt | F_lte_dt | F_full_text

datatype param_kind = K_string | K_integer | K_boolean | K_date_time

record filter_spec =
  spec_param :: string
  spec_field :: string
  spec_type :: filter_type
  spec_enum :: bool
  spec_kind :: param_kind

definition FilterSpec :: "string \<Rightarrow> string \<Rightarrow> filter_type \<Rightarrow> filter_spec" where
  "FilterSpec p f t = \<lparr>spec_param = p, spec_field = f, spec_type = t, spec_enum = False, spec_kind = K_string\<rparr>"

datatype query_error = RequestValidationError "jobj list" | UnselectableFilterError string

type_synonym validator = "param_kind \<Rightarrow> string \<Rightarrow> jobj list"

section \<open>Timestamps\<close>

definition parse_dt :: "string \<Rightarrow> int option" where
  "parse_dt val =
     (case strptime_datetime True val of
        Some t \<Rightarrow> Some t
      | None \<Rightarrow>
          (case strptime_datetime False val of
             Some t \<Rightarrow> Some t
           | None \<Rightarrow>
               (case strptime_date val of
                  Some ord \<Rightarrow> Some ((ord - 1) * day_micros)
                | None \<Rightarrow>
                    (case fromisoformat val of
                       None \<Rightarrow> None
                     | Some (local, off) \<Rightarrow> Some (local - (case off of None \<Rightarrow> 0 | Some o' \<Rightarrow> o'))))))"

text \<open>
  \<open>datetime.fromtimestamp(t, UTC)\<close>: the seconds and the microseconds are rounded separately, and
  the year has to be between 1 and 9999.
\<close>

definition unix_epoch :: int where
  "unix_epoch = (ymd_ordinal 1970 1 1 - 1) * day_micros"

definition fromtimestamp :: "pyfloat \<Rightarrow> int option" where
  "fromtimestamp t =
     (case t of
        Fin q \<Rightarrow>
          (let whole = (if q < 0 then - \<lfloor>- q\<rfloor> else \<lfloor>q\<rfloor>);
               us = (case round_double ((q - of_int whole) * 1000000) of Fin r \<Rightarrow> round_half_even r | _ \<Rightarrow> 0);
               m = unix_epoch + whole * 1000000 + us
           in if 0 \<le> m \<and> m < max_ordinal * day_micros then Some m else None)
      | _ \<Rightarrow> None)"

definition epoch_ms :: "string \<Rightarrow> int option" where
  "epoch_ms val =
     (if \<not> isdigit (lstrip_chars ''-'' val) then None
      else case int_of_str val of
             None \<Rightarrow> None
           | Some n \<Rightarrow> fromtimestamp (round_double (of_int n / 1000)))"

definition range_halves :: "string \<Rightarrow> string list" where
  "range_halves raw =
     (let (low, sep, high) = partition_on CHR ''-'' raw
      in if isdigit low \<and> isdigit high then [low, high] else [raw])"

section \<open>Comparing a value with a parameter\<close>

definition str_range :: "filter_type \<Rightarrow> bool \<Rightarrow> bool \<Rightarrow> bool" where
  "str_range op lt eq =
     (if op = F_gt then \<not> lt \<and> \<not> eq else if op = F_gte then \<not> lt else if op = F_lt then lt else lt \<or> eq)"

definition ordered :: "pyval \<Rightarrow> pyval \<Rightarrow> filter_type \<Rightarrow> bool" where
  "ordered field_value target op =
     (if field_value = VNone \<or> target = VNone \<or> target = VStr [] then False
      else let f = py_str field_value; t = py_str target
           in case (float_of_str f, float_of_str t) of
                (Some a, Some b) \<Rightarrow>
                  (if op = F_gt then fl_less b a else if op = F_gte then fl_le b a
                   else if op = F_lt then fl_less a b else fl_le a b)
              | _ \<Rightarrow>
                  (let left_dt = parse_dt f;
                       right_dt = (case parse_dt t of
                                     None \<Rightarrow> if left_dt \<noteq> None then epoch_ms t else None
                                   | Some d \<Rightarrow> Some d)
                   in case (left_dt, right_dt) of
                        (Some a, Some b) \<Rightarrow> str_range op (a < b) (a = b)
                      | _ \<Rightarrow> str_range op (f < t) (f = t)))"

definition as_text :: "pyval \<Rightarrow> string" where
  "as_text v =
     (case v of VNone \<Rightarrow> [] | VBool b \<Rightarrow> (if b then ''true'' else ''false'') | _ \<Rightarrow> py_str v)"

fun matches :: "pyval \<Rightarrow> pyval \<Rightarrow> bool" where
  "matches (VBool b) wanted =
     (lower (strip (py_str wanted)) \<in> set (if b then [''true'', ''1'', ''yes''] else [''false'', ''0'', ''no'']))"
| "matches (VList vs) wanted = list_ex (\<lambda>v. matches v wanted) vs"
| "matches (VDict kvs) wanted = list_ex (\<lambda>(k, v). k = py_str wanted) kvs"
| "matches v wanted = (as_text v = py_str wanted)"

definition enum_key :: "string \<Rightarrow> string" where
  "enum_key v = map (\<lambda>c. if c = CHR ''_'' then CHR '' '' else c) (lower (strip v))"

definition enum_keys :: "pyval \<Rightarrow> string list" where
  "enum_keys v =
     (case v of
        VList vs \<Rightarrow> map (\<lambda>m. enum_key (py_str m)) vs
      | VDict kvs \<Rightarrow> map (\<lambda>(k, m). enum_key k) kvs
      | _ \<Rightarrow> [enum_key (as_text v)])"

definition compare_dt :: "pyval \<Rightarrow> int \<Rightarrow> bool \<Rightarrow> bool" where
  "compare_dt field_val target gte =
     (if \<not> truthy field_val then False
      else case parse_dt (py_str field_val) of
             None \<Rightarrow> False
           | Some parsed \<Rightarrow> if gte then target \<le> parsed else parsed \<le> target)"

section \<open>Applying the filters\<close>

definition datetime_error :: "string \<Rightarrow> string \<Rightarrow> jobj" where
  "datetime_error p raw =
     [(''type'', VStr ''datetime_parsing''), (''loc'', VList [VStr ''query'', VStr p]),
      (''msg'', VStr ''Input should be a valid datetime, unable to parse string as a datetime''),
      (''input'', VStr raw)]"

definition reject_wrong_type :: "validator \<Rightarrow> string \<Rightarrow> param_kind \<Rightarrow> pyval \<Rightarrow> query_error option" where
  "reject_wrong_type validate p kind raw =
     (case raw of
        VStr s \<Rightarrow>
          (if kind = K_date_time
           then if list_all (\<lambda>h. parse_dt h \<noteq> None \<or> epoch_ms h \<noteq> None) (range_halves s) then None
                else Some (RequestValidationError [datetime_error p s])
           else case validate kind s of
                  [] \<Rightarrow> None
                | errs \<Rightarrow> Some (RequestValidationError
                    (map (AList.update ''loc'' (VList [VStr ''query'', VStr p])) errs)))
      | _ \<Rightarrow> None)"

text \<open>The values of a list parameter: the members of a JSON array, or the pieces between commas.\<close>

definition param_values :: "pyval \<Rightarrow> string list" where
  "param_values raw =
     (case raw of
        VList vs \<Rightarrow> map (\<lambda>v. strip (py_str v)) vs
      | _ \<Rightarrow> map strip (split_on CHR '','' (py_str raw)))"

definition member_of :: "filter_spec \<Rightarrow> string list \<Rightarrow> pyval \<Rightarrow> bool" where
  "member_of spec vals v =
     (if spec_enum spec then \<exists>k \<in> set (enum_keys v). k \<in> enum_key ` set vals
      else list_ex (\<lambda>w. matches v (VStr w)) vals)"

text \<open>The branch of the two date bounds: a bound neither reader can read leaves the list alone.\<close>

definition dt_filter :: "validator \<Rightarrow> filter_spec \<Rightarrow> pyval \<Rightarrow> bool \<Rightarrow> pyval list \<Rightarrow> query_error + pyval list" where
  "dt_filter validate spec raw gte res =
     (case reject_wrong_type validate (spec_param spec) K_date_time raw of
        Some e \<Rightarrow> Inl e
      | None \<Rightarrow>
          (case (case parse_dt (py_str raw) of Some d \<Rightarrow> Some d | None \<Rightarrow> epoch_ms (py_str raw)) of
             None \<Rightarrow> Inr res
           | Some dt \<Rightarrow> Inr (filter (\<lambda>r. compare_dt (get_nested r (spec_field spec)) dt gte) res)))"

text \<open>One turn of the loop of \<open>apply_filters\<close>, for a parameter that is present.\<close>

definition apply_spec :: "validator \<Rightarrow> filter_spec \<Rightarrow> pyval \<Rightarrow> pyval list \<Rightarrow> query_error + pyval list" where
  "apply_spec validate spec raw res =
     (case (if spec_kind spec \<noteq> K_string then reject_wrong_type validate (spec_param spec) (spec_kind spec) raw else None) of
        Some e \<Rightarrow> Inl e
      | None \<Rightarrow>
          (let val = (\<lambda>r. get_nested r (spec_field spec))
           in case spec_type spec of
                F_eq \<Rightarrow> Inr (filter (\<lambda>r. matches (val r) raw) res)
              | F_in \<Rightarrow> Inr (filter (\<lambda>r. member_of spec (param_values raw) (val r)) res)
              | F_contains \<Rightarrow> Inr (filter (\<lambda>r. str_in (lower (py_str raw)) (lower (as_text (val r)))) res)
              | F_bool \<Rightarrow>
                  (let want = lower (py_str raw) \<in> set [''true'', ''1'', ''yes'']
                   in Inr (filter (\<lambda>r. truthy (val r) = want) res))
              | F_nin \<Rightarrow> Inr (filter (\<lambda>r. \<not> member_of spec (param_values raw) (val r)) res)
              | F_between \<Rightarrow>
                  (let (low, sep, high) = partition_on CHR ''-'' (py_str raw)
                   in Inr (filter (\<lambda>r. ordered (val r) (VStr (strip low)) F_gte \<and>
                                       ordered (val r) (VStr (strip high)) F_lte) res))
              | F_full_text \<Rightarrow>
                  Inr (filter (\<lambda>r. list_ex (\<lambda>f. str_in (lower (py_str raw))
                         (lower (if truthy (get_nested r f) then py_str (get_nested r f) else [])))
                       (split_on CHR ''|'' (spec_field spec))) res)
              | F_gte_dt \<Rightarrow> dt_filter validate spec raw True res
              | F_lte_dt \<Rightarrow> dt_filter validate spec raw False res
              | op \<Rightarrow> Inr (filter (\<lambda>r. ordered (val r) raw op) res)))"

definition present :: "jobj \<Rightarrow> filter_spec \<Rightarrow> bool" where
  "present params spec \<longleftrightarrow>
     dict_get params (spec_param spec) \<noteq> VNone \<and> dict_get params (spec_param spec) \<noteq> VStr []"

fun apply_filters :: "validator \<Rightarrow> pyval list \<Rightarrow> jobj \<Rightarrow> filter_spec list \<Rightarrow> query_error + pyval list" where
  "apply_filters validate res params [] = Inr res"
| "apply_filters validate res params (spec # specs) =
     (if \<not> present params spec then apply_filters validate res params specs
      else case apply_spec validate spec (dict_get params (spec_param spec)) res of
             Inl e \<Rightarrow> Inl e
           | Inr res' \<Rightarrow> apply_filters validate res' params specs)"

section \<open>Sorting and skipping\<close>

text \<open>
  \<open>_sort_key\<close>: numbers by value, then text, then absent values. \<open>float\<close> of a container is a
  \<open>TypeError\<close> and is caught; \<open>float\<close> of a huge integer is an \<open>OverflowError\<close> and is not.
\<close>

definition s1_sort_key :: "string \<Rightarrow> pyval \<Rightarrow> order_key result" where
  "s1_sort_key fld rec =
     (let v = get_nested rec fld
      in case v of
           VNone \<Rightarrow> Inr (2, Fin 0, [])
         | VBool b \<Rightarrow> Inr (0, Fin (if b then 1 else 0), [])
         | VInt n \<Rightarrow> (case float_of_int n of
                        None \<Rightarrow> Inl (OverflowError ''int too large to convert to float'')
                      | Some f \<Rightarrow> Inr (0, f, []))
         | VFloat t \<Rightarrow> Inr (case float_of_str t of None \<Rightarrow> (1, Fin 0, t) | Some f \<Rightarrow> (0, f, []))
         | VStr t \<Rightarrow> Inr (case float_of_str t of None \<Rightarrow> (1, Fin 0, t) | Some f \<Rightarrow> (0, f, []))
         | _ \<Rightarrow> Inr (1, Fin 0, py_str v))"

definition nested_holder :: "pyval list \<Rightarrow> string \<Rightarrow> string option" where
  "nested_holder records name =
     (let path = (\<lambda>h. h @ ''.'' @ name);
          members = (case hd records of VDict d \<Rightarrow> d | _ \<Rightarrow> []);
          holders = map fst (filter (\<lambda>(k, v). case v of VDict d \<Rightarrow> name \<in> set (map fst d) | _ \<Rightarrow> False) members);
          holders' = filter (\<lambda>h. list_ex (\<lambda>r. get_nested r (path h) \<noteq> VNone) records) holders
      in case holders' of
           [] \<Rightarrow> None
         | reference # others \<Rightarrow>
             (if list_all (\<lambda>h. list_all (\<lambda>r. py_eq (get_nested r (path reference)) (get_nested r (path h))) records) others
              then Some reference else None))"

text \<open>The part of a parameter name in front of its operator: \<open>param.split("__")[0]\<close>.\<close>

fun before_operator :: "string \<Rightarrow> string" where
  "before_operator [] = []"
| "before_operator (c # cs) = (if startswith (c # cs) ''__'' then [] else c # before_operator cs)"

definition sort_path :: "pyval list \<Rightarrow> string \<Rightarrow> filter_spec list \<Rightarrow> string" where
  "sort_path records name specs =
     (if records = [] \<or> get_nested (hd records) name \<noteq> VNone then name
      else case find (\<lambda>s. before_operator (spec_param s) = name) specs of
             Some s \<Rightarrow> spec_field s
           | None \<Rightarrow>
               (case find (\<lambda>s. CHR ''|'' \<notin> set (spec_field s) \<and>
                               (spec_field s = name \<or> endswith (spec_field s) (''.'' @ name))) specs of
                  Some s \<Rightarrow> spec_field s
                | None \<Rightarrow> (case nested_holder records name of
                             Some h \<Rightarrow> if h = [] then name else h @ ''.'' @ name
                           | None \<Rightarrow> name)))"

definition as_int :: "pyval \<Rightarrow> int" where
  "as_int v = (case int_of_str (py_str v) of None \<Rightarrow> 0 | Some n \<Rightarrow> n)"

record skipped =
  skipped_records :: "pyval list"
  matched :: nat

definition text_or :: "pyval \<Rightarrow> string \<Rightarrow> string" where
  "text_or v dflt = (if truthy v then py_str v else dflt)"

definition apply_query_options :: "pyval list \<Rightarrow> jobj \<Rightarrow> filter_spec list \<Rightarrow> skipped result" where
  "apply_query_options records params specs =
     (let sort_by = strip (text_or (dict_get params ''sortBy'') []);
          sorted_rs = (if sort_by = [] then Inr records
                       else let descending = (lower (text_or (dict_get params ''sortOrder'') ''asc'') = ''desc'')
                            in sorted_records (s1_sort_key (sort_path records sort_by specs)) descending records);
          skip = as_int (dict_get params ''skip'')
      in case sorted_rs of
           Inl e \<Rightarrow> Inl e
         | Inr rs \<Rightarrow> Inr \<lparr>skipped_records = (if 0 < skip then drop (nat skip) rs else rs), matched = length rs\<rparr>)"

definition carry :: "skipped \<Rightarrow> pyval list \<Rightarrow> skipped" where
  "carry sk records = \<lparr>skipped_records = records, matched = matched sk\<rparr>"

section \<open>Selecting the targets of a write\<close>

definition refuse_unknown_members :: "jobj \<Rightarrow> string list \<Rightarrow> query_error option" where
  "refuse_unknown_members params known =
     (let unknown = sort (filter (\<lambda>k. k \<notin> set known) (map fst params))
      in if unknown = [] then None
         else Some (UnselectableFilterError
           (''The filter names '' @ (if 1 < length unknown then ''members'' else ''a member'') @
            '' this endpoint cannot select on: '' @ join '', '' unknown @ ''.'')))"

text \<open>\<open>list(raw_filter[member])\<close>: the elements of a list, the characters of a text, the keys of an object.\<close>

definition py_list :: "pyval \<Rightarrow> pyval list option" where
  "py_list v =
     (case v of VList vs \<Rightarrow> Some vs | VStr s \<Rightarrow> Some (map (\<lambda>c. VStr [c]) s) | VDict d \<Rightarrow> Some (map (VStr \<circ> fst) d) | _ \<Rightarrow> None)"

datatype select_failure = Query query_error | Not_iterable

definition select_ids ::
  "validator \<Rightarrow> pyval list \<Rightarrow> jobj \<Rightarrow> filter_spec list \<Rightarrow> string \<Rightarrow> string list \<Rightarrow> string list \<Rightarrow> select_failure + pyval list" where
  "select_ids validate records raw_filter specs id_field ids_members no_op_members =
     (case find (\<lambda>m. truthy (dict_get raw_filter m)) ids_members of
        Some m \<Rightarrow> (case py_list (dict_get raw_filter m) of None \<Rightarrow> Inl Not_iterable | Some ids \<Rightarrow> Inr ids)
      | None \<Rightarrow>
          (let params = filter (\<lambda>(k, v). v \<noteq> VNone) raw_filter;
               params' = filter (\<lambda>(k, v). k \<notin> set no_op_members) params
           in if params = []
              then Inl (Query (UnselectableFilterError ''The filter names no member with a value to select on.''))
              else if params' = [] then Inr []
              else case refuse_unknown_members params' (map spec_param specs @ ids_members) of
                     Some e \<Rightarrow> Inl (Query e)
                   | None \<Rightarrow>
                       (case apply_filters validate records params' specs of
                          Inl e \<Rightarrow> Inl (Query e)
                        | Inr rows \<Rightarrow> Inr (map (\<lambda>r. VStr (py_str (get_nested r id_field))) rows))))"

section \<open>What a filtered listing holds\<close>

definition date_bound :: "pyval \<Rightarrow> int option" where
  "date_bound raw = (case parse_dt (py_str raw) of Some d \<Rightarrow> Some d | None \<Rightarrow> epoch_ms (py_str raw))"

text \<open>Whether a record satisfies one parameter.\<close>

definition spec_holds :: "filter_spec \<Rightarrow> pyval \<Rightarrow> pyval \<Rightarrow> bool" where
  "spec_holds spec raw r =
     (let v = get_nested r (spec_field spec); needle = lower (py_str raw);
          dated = (\<lambda>gte. case date_bound raw of None \<Rightarrow> True | Some dt \<Rightarrow> compare_dt v dt gte)
      in case spec_type spec of
           F_eq \<Rightarrow> matches v raw
         | F_in \<Rightarrow> member_of spec (param_values raw) v
         | F_nin \<Rightarrow> \<not> member_of spec (param_values raw) v
         | F_contains \<Rightarrow> str_in needle (lower (as_text v))
         | F_bool \<Rightarrow> truthy v \<longleftrightarrow> needle \<in> {''true'', ''1'', ''yes''}
         | F_between \<Rightarrow>
             ordered v (VStr (strip (fst (partition_on CHR ''-'' (py_str raw))))) F_gte \<and>
             ordered v (VStr (strip (snd (snd (partition_on CHR ''-'' (py_str raw)))))) F_lte
         | F_full_text \<Rightarrow>
             (\<exists>f \<in> set (split_on CHR ''|'' (spec_field spec)). str_in needle (lower (text_or (get_nested r f) [])))
         | F_gte_dt \<Rightarrow> dated True
         | F_lte_dt \<Rightarrow> dated False
         | op \<Rightarrow> ordered v raw op)"

text \<open>The refusal of a parameter: its declared kind, and for the two date bounds a date.\<close>

definition refusal :: "validator \<Rightarrow> filter_spec \<Rightarrow> pyval \<Rightarrow> query_error option" where
  "refusal validate spec raw =
     (case (if spec_kind spec \<noteq> K_string then reject_wrong_type validate (spec_param spec) (spec_kind spec) raw else None) of
        Some e \<Rightarrow> Some e
      | None \<Rightarrow> if spec_type spec \<in> {F_gte_dt, F_lte_dt} then reject_wrong_type validate (spec_param spec) K_date_time raw
                else None)"

lemma apply_spec_eq:
  "apply_spec validate spec raw res =
     (case refusal validate spec raw of Some e \<Rightarrow> Inl e | None \<Rightarrow> Inr (filter (spec_holds spec raw) res))"
proof -
  have dt: "dt_filter validate spec raw gte res =
      (case reject_wrong_type validate (spec_param spec) K_date_time raw of
         Some e \<Rightarrow> Inl e
       | None \<Rightarrow> Inr (filter (\<lambda>r. case date_bound raw of None \<Rightarrow> True
           | Some dt \<Rightarrow> compare_dt (get_nested r (spec_field spec)) dt gte) res))" for gte
    by (cases "date_bound raw") (simp_all add: dt_filter_def date_bound_def split: option.splits)
  show ?thesis
    by (cases "spec_type spec")
      (simp_all add: apply_spec_def refusal_def spec_holds_def [abs_def] dt text_or_def list_ex_iff split_beta Let_def
        split: option.split cong: filter_cong)
qed

definition active :: "jobj \<Rightarrow> filter_spec list \<Rightarrow> (filter_spec \<times> pyval) list" where
  "active params specs = map (\<lambda>s. (s, dict_get params (spec_param s))) (filter (present params) specs)"

text \<open>
  C35. A filtered listing is decided by its parameters alone: when some parameter carries a value its
  declared type cannot hold, the request is refused with the error of the first of them, whatever the
  records; otherwise the answer is the records that satisfy every parameter that was given, in their order,
  and a parameter that is absent or blank restricts nothing.
\<close>

theorem apply_filters_conjunction:
  "apply_filters validate records params specs =
     (case List.map_filter (\<lambda>(s, raw). refusal validate s raw) (active params specs) of
        e # es \<Rightarrow> Inl e
      | [] \<Rightarrow> Inr (filter (\<lambda>r. list_all (\<lambda>(s, raw). spec_holds s raw r) (active params specs)) records))"
proof (induction specs arbitrary: records)
  case (Cons s specs)
  show ?case
  proof (cases "present params s")
    case True
    then show ?thesis
      using Cons.IH
      by (auto simp: active_def apply_spec_eq List.map_filter_def conj_commute split: option.split list.split)
  next
    case False
    then have "active params (s # specs) = active params specs" by (simp add: active_def)
    then show ?thesis using Cons.IH False by (simp cong: list.case_cong)
  qed
qed (simp add: active_def List.map_filter_def)

lemma member_of_type: "member_of (spec\<lparr>spec_type := t\<rparr>) = member_of spec"
  by (intro ext) (simp add: member_of_def)

text \<open>
  A membership filter and its negation split a listing: every record is in exactly one of the
  two answers (lists, objects, booleans and both spellings of an enumeration included).
\<close>

theorem in_nin_partition:
  assumes "apply_spec validate (spec\<lparr>spec_type := F_in\<rparr>) raw records = Inr kept"
    "apply_spec validate (spec\<lparr>spec_type := F_nin\<rparr>) raw records = Inr dropped"
  shows "mset kept + mset dropped = mset records \<and> set kept \<inter> set dropped = {}"
proof -
  have neg: "spec_holds (spec\<lparr>spec_type := F_nin\<rparr>) raw r \<longleftrightarrow> \<not> spec_holds (spec\<lparr>spec_type := F_in\<rparr>) raw r" for r
    by (simp add: spec_holds_def member_of_type Let_def)
  have "kept = filter (spec_holds (spec\<lparr>spec_type := F_in\<rparr>) raw) records"
    "dropped = filter (\<lambda>r. \<not> spec_holds (spec\<lparr>spec_type := F_in\<rparr>) raw r) records"
    using assms unfolding apply_spec_eq neg [abs_def] by (auto split: option.splits)
  then show ?thesis by (simp add: multiset_partition [symmetric]) auto
qed

theorem in_nin_partition_witness:
  "mset [VDict [(''os'', VStr ''Linux'')]] + mset [VDict [(''os'', VStr ''macos'')]] =
     mset [VDict [(''os'', VStr ''Linux'')], VDict [(''os'', VStr ''macos'')]]"
proof -
  let ?s = "(FilterSpec ''osTypes'' ''os'' F_eq)\<lparr>spec_enum := True\<rparr>"
  let ?rs = "[VDict [(''os'', VStr ''Linux'')], VDict [(''os'', VStr ''macos'')]]"
  have "apply_spec (\<lambda>k s. []) (?s\<lparr>spec_type := F_in\<rparr>) (VStr ''LINUX'') ?rs = Inr [VDict [(''os'', VStr ''Linux'')]]"
    "apply_spec (\<lambda>k s. []) (?s\<lparr>spec_type := F_nin\<rparr>) (VStr ''LINUX'') ?rs = Inr [VDict [(''os'', VStr ''macos'')]]"
    by code_simp+
  from in_nin_partition [OF this] show ?thesis by simp
qed

section \<open>The order of a sorted listing\<close>

text \<open>
  A sorted listing has exactly the records that matched, none of them in front of one whose
  key comes before its own in the direction asked for; records with equal keys keep the order of the
  store in both directions, and the total a page reports counts them all, whatever is skipped.
\<close>

theorem query_options_sorted:
  assumes "strip (text_or (dict_get params ''sortBy'') []) = name" "name \<noteq> []"
    and "keyed (s1_sort_key (sort_path records name specs)) records = Inr krs" "\<forall>kr \<in> set krs. no_nan (fst kr)"
    and "descending = (lower (text_or (dict_get params ''sortOrder'') ''asc'') = ''desc'')"
  shows "\<exists>out. apply_query_options records params specs =
      Inr \<lparr>skipped_records = drop (nat (as_int (dict_get params ''skip''))) (map snd out), matched = length records\<rparr> \<and>
    mset out = mset krs \<and> sorted_wrt (\<lambda>a b. \<not> before descending (fst b) (fst a)) out \<and>
    list_all (\<lambda>(k, r). filter (\<lambda>z. fst z = k) out = filter (\<lambda>z. fst z = k) krs) krs"
proof -
  from sorted_records_spec [OF assms(3,4), of descending] obtain out where
    out: "sorted_records (s1_sort_key (sort_path records name specs)) descending records = Inr (map snd out)"
    "mset out = mset krs" "sorted_wrt (\<lambda>a b. \<not> before descending (fst b) (fst a)) out"
    "list_all (\<lambda>(k, r). filter (\<lambda>z. fst z = k) out = filter (\<lambda>z. fst z = k) krs) krs" by blast
  have "length out = length records" using mset_eq_length [OF out(2)] keyed_length [OF assms(3)] by simp
  then have "apply_query_options records params specs =
      Inr \<lparr>skipped_records = drop (nat (as_int (dict_get params ''skip''))) (map snd out), matched = length records\<rparr>"
    using assms(1,2,5) out(1) by (simp add: apply_query_options_def Let_def)
  then show ?thesis using out(2-4) by blast
qed

theorem query_options_sorted_witness:
  "\<exists>out :: (order_key \<times> pyval) list. apply_query_options [VDict [(''n'', VInt 10)], VDict [(''n'', VStr ''9'')]] [(''sortBy'', VStr ''n''), (''skip'', VStr ''1'')] [] =
     Inr \<lparr>skipped_records = drop 1 (map snd out), matched = 2\<rparr> \<and> length out = 2"
proof -
  let ?rs = "[VDict [(''n'', VInt 10)], VDict [(''n'', VStr ''9'')]]"
  let ?ps = "[(''sortBy'', VStr ''n''), (''skip'', VStr ''1'')]"
  let ?krs = "[((0, Fin 10, []) :: order_key, VDict [(''n'', VInt 10)]), ((0, Fin 9, []), VDict [(''n'', VStr ''9'')])]"
  have 1: "strip (text_or (dict_get ?ps ''sortBy'') []) = ''n''" by code_simp
  have 2: "keyed (s1_sort_key (sort_path ?rs ''n'' [])) ?rs = Inr ?krs" by code_simp
  have 3: "as_int (dict_get ?ps ''skip'') = 1" by code_simp
  have 5: "''n'' \<noteq> []" by simp
  have 4: "\<forall>kr \<in> set ?krs. no_nan (fst kr)" by simp
  obtain out where "apply_query_options ?rs ?ps [] =
      Inr \<lparr>skipped_records = drop (nat 1) (map snd out), matched = length ?rs\<rparr>" "mset out = mset ?krs"
    using query_options_sorted [OF 1 5 2 4 refl, unfolded 3] by (elim exE conjE) (rule that; assumption)
  then show ?thesis using mset_eq_length [of out ?krs] by (intro exI [of _ out]) simp
qed

section \<open>The targets of a write\<close>

lemma dict_get_filter:
  "P k \<Longrightarrow> dict_get (filter (\<lambda>(k, v). P k) d) k = dict_get d k"
  by (induction d) (auto simp: dict_get_def)

lemma dict_get_some_values:
  "distinct (map fst d) \<Longrightarrow> dict_get (filter (\<lambda>(k, v). v \<noteq> VNone) d) k = dict_get d k"
proof (induction d)
  case (Cons kv d)
  have "dict_get e k = VNone" if "k \<notin> fst ` set e" for e
    using that by (simp add: dict_get_def map_of_eq_None_iff [THEN iffD2])
  moreover have "fst ` set (filter (\<lambda>(k, v). v \<noteq> VNone) d) \<subseteq> fst ` set d" by auto
  ultimately show ?case using Cons by (cases kv) auto
qed simp

lemma apply_filters_cong:
  "list_all (\<lambda>s. dict_get p (spec_param s) = dict_get q (spec_param s)) specs \<Longrightarrow>
     apply_filters validate rs p specs = apply_filters validate rs q specs"
  by (induction specs arbitrary: rs) (auto simp: present_def split: sum.splits)

text \<open>The members of a filter object that carry a value the route has to select on.\<close>

definition selecting :: "jobj \<Rightarrow> string list \<Rightarrow> jobj" where
  "selecting raw_filter no_op = filter (\<lambda>(k, v). k \<notin> set no_op) (filter (\<lambda>(k, v). v \<noteq> VNone) raw_filter)"

text \<open>
  C36. A write's filter that names no record outright selects the ids of exactly the records the
  listing would return for the same members (and is refused when the listing is), and when it has a member
  the route cannot select on it is refused: a misspelt member never widens the selection.
\<close>

theorem write_selects_listing:
  assumes "distinct (map fst raw_filter)" "selecting raw_filter no_op \<noteq> []"
    and "list_all (\<lambda>m. \<not> truthy (dict_get raw_filter m)) ids_members"
    and "list_all (\<lambda>s. spec_param s \<notin> set no_op) specs"
    and "selected = select_ids validate records raw_filter specs id_field ids_members no_op"
  shows "if fst ` set (selecting raw_filter no_op) \<subseteq> set (map spec_param specs @ ids_members)
    then selected = map_sum Query (map (\<lambda>r. VStr (py_str (get_nested r id_field)))) (apply_filters validate records raw_filter specs)
    else \<exists>msg. selected = Inl (Query (UnselectableFilterError msg))"
proof -
  let ?known = "set (map spec_param specs @ ids_members)"
  have find: "find (\<lambda>m. truthy (dict_get raw_filter m)) ids_members = None"
    using assms(3) by (auto simp: find_None_iff list_all_iff)
  have "dict_get (selecting raw_filter no_op) (spec_param s) = dict_get raw_filter (spec_param s)" if "s \<in> set specs" for s
    using that assms(1,4) dict_get_filter [of "\<lambda>k. k \<notin> set no_op" "spec_param s"]
    by (simp add: selecting_def dict_get_some_values list_all_iff del: filter_filter)
  then have same: "apply_filters validate records (selecting raw_filter no_op) specs = apply_filters validate records raw_filter specs"
    by (intro apply_filters_cong) (simp add: list_all_iff)
  have ne: "filter (\<lambda>(k, v). v \<noteq> VNone) raw_filter \<noteq> []" using assms(2) unfolding selecting_def by (metis filter.simps(1))
  have unknown: "sort (filter (\<lambda>k. k \<notin> ?known) (map fst ps)) = [] \<longleftrightarrow> fst ` set ps \<subseteq> ?known" for ps :: jobj
  proof -
    have "sort xs = [] \<longleftrightarrow> xs = []" for xs :: "string list" by (metis set_sort set_empty)
    then show ?thesis by (auto simp: filter_empty_conv)
  qed
  show ?thesis
    using find same assms(2) ne unknown
    unfolding assms(5) select_ids_def refuse_unknown_members_def selecting_def [symmetric] Let_def
    by (auto split: sum.split)
qed

theorem write_selects_listing_witness:
  "select_ids (\<lambda>k s. []) [VDict [(''id'', VStr ''1''), (''os'', VStr ''linux'')], VDict [(''id'', VStr ''2''), (''os'', VStr ''macos'')]]
     [(''ids'', VNone), (''osTypes'', VStr ''linux'')] [FilterSpec ''osTypes'' ''os'' F_in] ''id'' [''ids''] [] = Inr [VStr ''1'']"
proof -
  let ?rs = "[VDict [(''id'', VStr ''1''), (''os'', VStr ''linux'')], VDict [(''id'', VStr ''2''), (''os'', VStr ''macos'')]]"
  let ?f = "[(''ids'', VNone), (''osTypes'', VStr ''linux'')]"
  let ?s = "[FilterSpec ''osTypes'' ''os'' F_in]"
  have "apply_filters (\<lambda>k s. []) ?rs ?f ?s = Inr [VDict [(''id'', VStr ''1''), (''os'', VStr ''linux'')]]" by code_simp
  moreover have "get_nested (VDict [(''id'', VStr ''1''), (''os'', VStr ''linux'')]) ''id'' = VStr ''1''" by code_simp
  ultimately show ?thesis
    using write_selects_listing [of ?f "[]" "[''ids'']" ?s _ "\<lambda>k s. []" ?rs "''id''", OF _ _ _ _ refl]
    by (simp add: selecting_def FilterSpec_def)
qed

text \<open>
  A member the route knows with a blank value does widen it: the listing ignores a blank
  parameter, and the write then selects every record.
\<close>

theorem blank_member_selects_all:
  "select_ids validate records [(''groupIds'', VStr [])] [FilterSpec ''groupIds'' ''groupId'' F_in] ''id'' [''ids''] [] =
     Inr (map (\<lambda>r. VStr (py_str (get_nested r ''id''))) records)"
  by (simp add: select_ids_def refuse_unknown_members_def present_def FilterSpec_def Let_def)

text \<open>
  A date bound spelled as a range of two epochs passes the check of its type and is then ignored.
\<close>

theorem date_bound_range_ignored:
  "apply_spec validate (FilterSpec ''createdAt__gte'' ''createdAt'' F_gte_dt) (VStr ''0-0'') records = Inr records"
proof -
  have halves: "range_halves ''0-0'' = [''0'', ''0'']" by code_simp
  have ms: "epoch_ms ''0'' = Some 62135596800000000" by code_simp
  have "reject_wrong_type validate ''createdAt__gte'' K_date_time (VStr ''0-0'') = None"
    using halves ms by (simp add: reject_wrong_type_def)
  moreover have "parse_dt ''0-0'' = None" "epoch_ms ''0-0'' = None" by code_simp+
  ultimately show ?thesis by (simp add: apply_spec_def dt_filter_def FilterSpec_def)
qed

end
