(* ===== verification/Store.thy ===== *)
theory Store
  imports Py_Base
begin

text \<open>
  The in-memory store, \<open>src/backend/repository/store.py\<close>.

  The state is the record \<open>store\<close>: the named collections (each a dictionary in
  insertion order), the three newest-first id lists, and whether a mutation callback is
  registered together with how often it has been called. One definition per method; a
  method that indexes \<open>self._collections\<close> with an unknown name raises \<open>KeyError\<close>. Every method runs under
  one re-entrant lock, so a method is one atomic step.

  Shown here: the invariant every reachable store satisfies (the caps above all), the
  exact effect of \<open>save\<close> on a full collection, the laws a keyed collection promises its
  clients (locale \<open>keyed_collection\<close>), and that the three logs are newest-first bounded
  histories (locale \<open>newest_first_log\<close>).
\<close>

section \<open>State\<close>

record 'r store =
  collections :: "(string, (string, 'r) dict) dict"
  activity_order :: "string list"
  request_log_order :: "string list"
  webhook_sink_order :: "string list"
  on_mutate :: bool
  notified :: nat

definition caps :: "(string \<times> nat) list" where
  "caps = [
    (''splunk_events'', 20000), (''splunk_notables'', 20000), (''splunk_search_jobs'', 5000),
    (''splunk_sessions'', 5000), (''es_documents'', 100000), (''es_indices'', 1000),
    (''es_search_contexts'', 1000), (''agent_uploads'', 200), (''cs_oauth_tokens'', 5000),
    (''mde_oauth_tokens'', 5000), (''graph_oauth_tokens'', 5000),
    (''sentinel_oauth_tokens'', 5000), (''es_tokens'', 5000), (''es_refresh_tokens'', 5000),
    (''dv_queries'', 200), (''xdr_xql_queries'', 5000), (''mde_machine_actions'', 10000),
    (''xdr_actions'', 10000)]"

definition collection_names :: "string list" where
  "collection_names = [
    ''accounts'', ''sites'', ''groups'', ''agents'', ''threats'', ''alerts'', ''activities'',
    ''exclusions'', ''blocklist'', ''policies'', ''firewall_rules'', ''device_control_rules'',
    ''iocs'', ''installed_apps'', ''dv_queries'', ''users'', ''api_tokens'', ''tags'',
    ''webhook_subscriptions'', ''webhook_sink'', ''request_logs'', ''star_rules'',
    ''remote_script_runs'', ''agent_uploads'', ''agent_network_requests'', ''cs_hosts'',
    ''cs_detections'', ''cs_incidents'', ''cs_iocs'', ''cs_host_groups'', ''cs_oauth_clients'',
    ''cs_oauth_tokens'', ''cs_users'', ''cs_quarantined_files'', ''cs_cases'', ''es_endpoints'',
    ''es_rules'', ''es_alerts'', ''es_documents'', ''es_indices'', ''es_search_contexts'',
    ''es_cases'', ''es_case_comments'', ''es_exception_lists'', ''es_exception_items'',
    ''es_action_responses'', ''es_api_keys'', ''es_tokens'', ''es_refresh_tokens'',
    ''mde_oauth_clients'', ''mde_oauth_tokens'', ''mde_machines'', ''mde_alerts'',
    ''mde_indicators'', ''mde_machine_actions'', ''mde_investigations'', ''mde_software'',
    ''mde_vulnerabilities'', ''mde_network_events'', ''xdr_incidents'', ''xdr_alerts'',
    ''xdr_endpoints'', ''xdr_scripts'', ''xdr_iocs'', ''xdr_actions'', ''xdr_audit_logs'',
    ''xdr_distributions'', ''xdr_api_keys'', ''system_config'', ''xdr_users'',
    ''xdr_hash_exceptions'', ''xdr_xql_queries'', ''splunk_events'', ''splunk_search_jobs'',
    ''splunk_saved_searches'', ''splunk_notables'', ''splunk_hec_tokens'',
    ''splunk_kv_collections'', ''splunk_lookup_definitions'', ''splunk_lookup_files'',
    ''splunk_indexes'', ''splunk_users'', ''splunk_sessions'', ''splunk_fired_alerts'',
    ''sentinel_incidents'', ''sentinel_alerts'', ''sentinel_alert_rules'',
    ''sentinel_watchlists'', ''sentinel_threat_indicators'', ''sentinel_bookmarks'',
    ''sentinel_entities'', ''sentinel_incident_comments'', ''sentinel_data_connectors'',
    ''sentinel_oauth_clients'', ''sentinel_oauth_tokens'', ''graph_oauth_clients'',
    ''graph_oauth_tokens'', ''graph_users'', ''graph_groups'', ''graph_group_members'',
    ''graph_directory_roles'', ''graph_directory_role_members'',
    ''graph_conditional_access_policies'', ''graph_named_locations'',
    ''graph_administrative_units'', ''graph_subscribed_skus'', ''graph_organization'',
    ''graph_service_principals'', ''graph_applications'', ''graph_sign_in_logs'',
    ''graph_audit_logs'', ''graph_risky_users'', ''graph_risk_detections'',
    ''graph_user_auth_methods'', ''graph_user_registration_details'', ''graph_mail_rules'',
    ''graph_managed_devices'', ''graph_detected_apps'', ''graph_detected_app_devices'',
    ''graph_compliance_policies'', ''graph_device_configurations'', ''graph_autopilot_devices'',
    ''graph_autopilot_profiles'', ''graph_app_protection_policies'', ''graph_mobile_apps'',
    ''graph_update_rings'', ''graph_enrollment_restrictions'', ''graph_device_categories'',
    ''graph_security_alerts'', ''graph_security_incidents'', ''graph_secure_scores'',
    ''graph_mail_messages'', ''graph_mail_folders'', ''graph_drives'', ''graph_drive_items'',
    ''graph_sharepoint_sites'', ''graph_teams'', ''graph_channels'', ''graph_channel_messages'',
    ''graph_safe_links_policies'', ''graph_safe_attachments_policies'',
    ''graph_threat_assessments'', ''graph_attack_simulations'', ''graph_service_health'',
    ''edr_id_map'']"

definition activity_cap :: nat where
  "activity_cap = 10000"

definition log_cap :: nat where
  "log_cap = 500"

definition init_store :: "'r store" where
  "init_store =
     \<lparr>collections = map (\<lambda>c. (c, [])) collection_names,
      activity_order = [], request_log_order = [], webhook_sink_order = [],
      on_mutate = False, notified = 0\<rparr>"

section \<open>Operations\<close>

definition notify :: "'r store \<Rightarrow> 'r store" where
  "notify s = (if on_mutate s then s\<lparr>notified := Suc (notified s)\<rparr> else s)"

text \<open>\<open>self._collections[collection]\<close>, and the same dictionary put back after a change.\<close>

definition coll :: "'r store \<Rightarrow> string \<Rightarrow> (string, 'r) dict result" where
  "coll s c = (case map_of (collections s) c of None \<Rightarrow> Inl (KeyError c) | Some d \<Rightarrow> Inr d)"

definition put_coll :: "'r store \<Rightarrow> string \<Rightarrow> (string, 'r) dict \<Rightarrow> 'r store" where
  "put_coll s c d = s\<lparr>collections := AList.update c d (collections s)\<rparr>"

definition store_get :: "'r store \<Rightarrow> string \<Rightarrow> string \<Rightarrow> 'r option result" where
  "store_get s c i = (case coll s c of Inl e \<Rightarrow> Inl e | Inr d \<Rightarrow> Inr (map_of d i))"

definition store_get_all :: "'r store \<Rightarrow> string \<Rightarrow> 'r list result" where
  "store_get_all s c = (case coll s c of Inl e \<Rightarrow> Inl e | Inr d \<Rightarrow> Inr (dict_values d))"

definition store_get_all_with_keys :: "'r store \<Rightarrow> string \<Rightarrow> (string, 'r) dict result" where
  "store_get_all_with_keys s c = coll s c"

text \<open>
  \<open>records.pop(next(iter(records)))\<close> drops the first entry, the one inserted first. No
  cap is zero, so the dictionary popped from is never empty.
\<close>

definition evict :: "string \<Rightarrow> string \<Rightarrow> (string, 'r) dict \<Rightarrow> (string, 'r) dict" where
  "evict c i records =
     (case map_of caps c of
        None \<Rightarrow> records
      | Some cap \<Rightarrow>
          (if i \<notin> set (dict_keys records) \<and> cap \<le> length records then tl records else records))"

definition store_save :: "'r store \<Rightarrow> string \<Rightarrow> string \<Rightarrow> 'r \<Rightarrow> 'r store result" where
  "store_save s c i r =
     (case coll s c of
        Inl e \<Rightarrow> Inl e
      | Inr records \<Rightarrow> Inr (notify (put_coll s c (AList.update i r (evict c i records)))))"

definition store_delete :: "'r store \<Rightarrow> string \<Rightarrow> string \<Rightarrow> ('r store \<times> bool) result" where
  "store_delete s c i =
     (case coll s c of
        Inl e \<Rightarrow> Inl e
      | Inr records \<Rightarrow>
          (if i \<notin> set (dict_keys records) then Inr (s, False)
           else Inr (notify (put_coll s c (AList.delete i records)), True)))"

definition store_exists :: "'r store \<Rightarrow> string \<Rightarrow> string \<Rightarrow> bool result" where
  "store_exists s c i = (case coll s c of Inl e \<Rightarrow> Inl e | Inr d \<Rightarrow> Inr (i \<in> set (dict_keys d)))"

definition store_count :: "'r store \<Rightarrow> string \<Rightarrow> nat result" where
  "store_count s c = (case coll s c of Inl e \<Rightarrow> Inl e | Inr d \<Rightarrow> Inr (length d))"

text \<open>\<open>[records[id] for id in order if id in records]\<close>.\<close>

definition records_in_order :: "(string, 'r) dict \<Rightarrow> string list \<Rightarrow> 'r list" where
  "records_in_order d order = List.map_filter (map_of d) order"

text \<open>\<open>for oid in oldest: records.pop(oid, None)\<close>.\<close>

definition pop_all :: "string list \<Rightarrow> (string, 'r) dict \<Rightarrow> (string, 'r) dict" where
  "pop_all ids d = fold AList.delete ids d"

text \<open>The activity order is a deque with \<open>maxlen\<close>: \<open>appendleft\<close> on a full one drops the last id.\<close>

definition append_activity :: "'r store \<Rightarrow> string \<Rightarrow> 'r \<Rightarrow> 'r store result" where
  "append_activity s i r =
     (case coll s ''activities'' of
        Inl e \<Rightarrow> Inl e
      | Inr d \<Rightarrow>
          (let d1 = AList.update i r d;
               evicted = (if length (activity_order s) = activity_cap
                          then Some (last (activity_order s)) else None);
               order = take activity_cap (i # activity_order s);
               d2 = (case evicted of
                       None \<Rightarrow> d1
                     | Some e \<Rightarrow> (if e \<noteq> i then AList.delete e d1 else d1))
           in Inr (notify ((put_coll s ''activities'' d2)\<lparr>activity_order := order\<rparr>))))"

definition list_activities :: "'r store \<Rightarrow> 'r list result" where
  "list_activities s =
     (case coll s ''activities'' of
        Inl e \<Rightarrow> Inl e
      | Inr d \<Rightarrow> Inr (records_in_order d (activity_order s)))"

definition get_activity_order :: "'r store \<Rightarrow> string list" where
  "get_activity_order s = activity_order s"

text \<open>\<open>collections.deque(order, maxlen=10000)\<close> keeps the last 10000 elements of its argument.\<close>

definition set_activity_order :: "'r store \<Rightarrow> string list \<Rightarrow> 'r store" where
  "set_activity_order s order = s\<lparr>activity_order := drop (length order - activity_cap) order\<rparr>"

definition append_request_log :: "'r store \<Rightarrow> string \<Rightarrow> 'r \<Rightarrow> 'r store result" where
  "append_request_log s i r =
     (case coll s ''request_logs'' of
        Inl e \<Rightarrow> Inl e
      | Inr d \<Rightarrow>
          (let d1 = AList.update i r d;
               order = i # request_log_order s
           in Inr (notify
                (if log_cap < length order
                 then (put_coll s ''request_logs'' (pop_all (drop log_cap order) d1))
                        \<lparr>request_log_order := take log_cap order\<rparr>
                 else (put_coll s ''request_logs'' d1)\<lparr>request_log_order := order\<rparr>))))"

definition list_request_logs :: "'r store \<Rightarrow> 'r list result" where
  "list_request_logs s =
     (case coll s ''request_logs'' of
        Inl e \<Rightarrow> Inl e
      | Inr d \<Rightarrow> Inr (records_in_order d (request_log_order s)))"

definition clear_request_logs :: "'r store \<Rightarrow> 'r store result" where
  "clear_request_logs s =
     (case coll s ''request_logs'' of
        Inl e \<Rightarrow> Inl e
      | Inr d \<Rightarrow> Inr (notify ((put_coll s ''request_logs'' [])\<lparr>request_log_order := []\<rparr>)))"

definition append_webhook_sink :: "'r store \<Rightarrow> string \<Rightarrow> 'r \<Rightarrow> 'r store result" where
  "append_webhook_sink s i r =
     (case coll s ''webhook_sink'' of
        Inl e \<Rightarrow> Inl e
      | Inr d \<Rightarrow>
          (let d1 = AList.update i r d;
               order = i # webhook_sink_order s
           in Inr (notify
                (if log_cap < length order
                 then (put_coll s ''webhook_sink'' (pop_all (drop log_cap order) d1))
                        \<lparr>webhook_sink_order := take log_cap order\<rparr>
                 else (put_coll s ''webhook_sink'' d1)\<lparr>webhook_sink_order := order\<rparr>))))"

definition list_webhook_sink :: "'r store \<Rightarrow> 'r list result" where
  "list_webhook_sink s =
     (case coll s ''webhook_sink'' of
        Inl e \<Rightarrow> Inl e
      | Inr d \<Rightarrow> Inr (records_in_order d (webhook_sink_order s)))"

definition clear_webhook_sink :: "'r store \<Rightarrow> 'r store result" where
  "clear_webhook_sink s =
     (case coll s ''webhook_sink'' of
        Inl e \<Rightarrow> Inl e
      | Inr d \<Rightarrow> Inr (notify ((put_coll s ''webhook_sink'' [])\<lparr>webhook_sink_order := []\<rparr>)))"

definition store_clear :: "'r store \<Rightarrow> string \<Rightarrow> 'r store result" where
  "store_clear s c =
     (case coll s c of
        Inl e \<Rightarrow> Inl e
      | Inr d \<Rightarrow>
          (let s1 = put_coll s c []
           in Inr (notify (if c = ''activities'' then s1\<lparr>activity_order := []\<rparr> else s1))))"

definition store_clear_all :: "'r store \<Rightarrow> 'r store" where
  "store_clear_all s =
     notify (s\<lparr>collections := map (\<lambda>(c, d). (c, [])) (collections s),
               activity_order := [], webhook_sink_order := [], request_log_order := []\<rparr>)"

section \<open>Frame facts\<close>

lemma notify_sel [simp]:
  "collections (notify s) = collections s"
  "activity_order (notify s) = activity_order s"
  "request_log_order (notify s) = request_log_order s"
  "webhook_sink_order (notify s) = webhook_sink_order s"
  "on_mutate (notify s) = on_mutate s"
  by (simp_all add: notify_def)

lemma put_coll_sel [simp]:
  "collections (put_coll s c d) = AList.update c d (collections s)"
  "activity_order (put_coll s c d) = activity_order s"
  "request_log_order (put_coll s c d) = request_log_order s"
  "webhook_sink_order (put_coll s c d) = webhook_sink_order s"
  by (simp_all add: put_coll_def)

lemma coll_put [simp]: "coll (put_coll s c d) c' = (if c' = c then Inr d else coll s c')"
  by (simp add: coll_def)

lemma coll_notify [simp]: "coll (notify s) c = coll s c"
  by (simp add: coll_def)

lemma coll_orders [simp]:
  "coll (s\<lparr>activity_order := x\<rparr>) c = coll s c"
  "coll (s\<lparr>request_log_order := x\<rparr>) c = coll s c"
  "coll (s\<lparr>webhook_sink_order := x\<rparr>) c = coll s c"
  "coll (s\<lparr>on_mutate := b\<rparr>) c = coll s c"
  by (simp_all add: coll_def)

lemma map_of_init: "map_of (map (\<lambda>c. (c, [])) cs) c = (if c \<in> set cs then Some [] else None)"
  by (induction cs) auto

lemma coll_init: "coll init_store c = (if c \<in> set collection_names then Inr [] else Inl (KeyError c))"
  by (simp add: coll_def init_store_def map_of_init)

lemma init_orders [simp]:
  "activity_order init_store = []" "request_log_order init_store = []"
  "webhook_sink_order init_store = []"
  by (simp_all add: init_store_def)

lemma caps_pos: "map_of caps c = Some n \<Longrightarrow> 0 < n"
  by (auto simp: caps_def split: if_splits)

lemma caps_names: "fst ` set caps \<subseteq> set collection_names"
  by (simp add: caps_def collection_names_def)

lemma log_collections:
  "''activities'' \<in> set collection_names" "''request_logs'' \<in> set collection_names"
  "''webhook_sink'' \<in> set collection_names"
  by (simp_all add: collection_names_def)

lemma log_collections_uncapped:
  "map_of caps ''activities'' = None" "map_of caps ''request_logs'' = None"
  "map_of caps ''webhook_sink'' = None"
  by (simp_all add: caps_def)

section \<open>The store invariant\<close>

definition coll_ok :: "string \<Rightarrow> (string, 'r) dict \<Rightarrow> bool" where
  "coll_ok c d \<longleftrightarrow> wf_dict d \<and> (case map_of caps c of None \<Rightarrow> True | Some n \<Rightarrow> length d \<le> n)"

definition store_inv :: "'r store \<Rightarrow> bool" where
  "store_inv s \<longleftrightarrow>
     dict_keys (collections s) = collection_names \<and>
     list_all (\<lambda>(c, d). coll_ok c d) (collections s) \<and>
     length (activity_order s) \<le> activity_cap \<and>
     length (request_log_order s) \<le> log_cap \<and>
     length (webhook_sink_order s) \<le> log_cap"

lemma coll_Inr: "coll s c = Inr d \<longleftrightarrow> map_of (collections s) c = Some d"
  by (simp add: coll_def split: option.splits)

lemma store_inv_coll: "store_inv s \<Longrightarrow> coll s c = Inr d \<Longrightarrow> coll_ok c d \<and> c \<in> set collection_names"
proof -
  assume inv: "store_inv s" and c: "coll s c = Inr d"
  then have mem: "(c, d) \<in> set (collections s)" by (simp add: coll_Inr map_of_SomeD)
  then have "coll_ok c d" using inv by (force simp: store_inv_def list_all_iff)
  moreover have "c \<in> set (dict_keys (collections s))" using mem by force
  ultimately show ?thesis using inv by (simp add: store_inv_def del: set_map)
qed

lemma store_inv_wf: "store_inv s \<Longrightarrow> coll s c = Inr d \<Longrightarrow> wf_dict d"
  using store_inv_coll by (fastforce simp: coll_ok_def)

lemma store_inv_present: "store_inv s \<Longrightarrow> c \<in> set collection_names \<Longrightarrow> \<exists>d. coll s c = Inr d"
proof -
  assume "store_inv s" "c \<in> set collection_names"
  then have "c \<in> fst ` set (collections s)" by (metis store_inv_def list.set_map)
  then show ?thesis
    by (metis coll_Inr map_of_eq_None_keys option.exhaust)
qed

lemma list_all_update:
  "list_all P d \<Longrightarrow> P (k, v) \<Longrightarrow> list_all P (AList.update k v d)"
  by (induction d) auto

lemma store_inv_put:
  assumes "store_inv s" "c \<in> set collection_names" "coll_ok c d'"
  shows "store_inv (put_coll s c d')"
proof -
  have "c \<in> fst ` set (collections s)"
    using assms(1,2) by (metis store_inv_def list.set_map)
  then show ?thesis
    using assms by (simp add: store_inv_def keys_update list_all_update)
qed

lemma store_inv_notify [simp]: "store_inv (notify s) = store_inv s"
  by (simp add: store_inv_def)

lemma store_inv_orders:
  assumes "store_inv s"
  shows "length x \<le> activity_cap \<Longrightarrow> store_inv (s\<lparr>activity_order := x\<rparr>)"
    and "length x \<le> log_cap \<Longrightarrow> store_inv (s\<lparr>request_log_order := x\<rparr>)"
    and "length x \<le> log_cap \<Longrightarrow> store_inv (s\<lparr>webhook_sink_order := x\<rparr>)"
    and "store_inv (s\<lparr>on_mutate := b\<rparr>)"
  using assms by (simp_all add: store_inv_def)

lemma store_inv_init: "store_inv init_store"
  by (simp add: store_inv_def init_store_def list_all_iff coll_ok_def o_def split: option.splits)

lemma wf_dict_tl: "wf_dict d \<Longrightarrow> wf_dict (tl d)"
  by (cases d) auto

lemma coll_ok_evict:
  assumes "coll_ok c d"
  shows "coll_ok c (AList.update i r (evict c i d))"
proof (cases "map_of caps c")
  case None
  then show ?thesis using assms by (simp add: coll_ok_def evict_def)
next
  case (Some n)
  then have "0 < n" by (rule caps_pos)
  have w: "wf_dict d" "length d \<le> n" using assms Some by (simp_all add: coll_ok_def)
  show ?thesis
  proof (cases "i \<notin> set (dict_keys d) \<and> n \<le> length d")
    case True
    then have "d \<noteq> []" using \<open>0 < n\<close> by auto
    then have "i \<notin> fst ` set (tl d)" using True by (cases d) auto
    then show ?thesis
      using True w Some \<open>d \<noteq> []\<close>
      by (auto simp: coll_ok_def evict_def wf_dict_tl length_update)
  next
    case False
    then show ?thesis using w Some by (auto simp: coll_ok_def evict_def length_update)
  qed
qed

lemma coll_ok_delete: "coll_ok c d \<Longrightarrow> coll_ok c (AList.delete i d)"
  using length_delete_le [of i d] by (auto simp: coll_ok_def split: option.splits)

lemma coll_ok_Nil: "coll_ok c []"
  by (simp add: coll_ok_def split: option.splits)

lemma wf_dict_pop_all: "wf_dict d \<Longrightarrow> wf_dict (pop_all is d)"
  unfolding pop_all_def by (induction "is" arbitrary: d) simp_all

lemma store_inv_clear_all: "store_inv s \<Longrightarrow> store_inv (store_clear_all s)"
proof -
  assume inv: "store_inv s"
  have "map fst (map (\<lambda>(c, d). (c, [])) (collections s)) = dict_keys (collections s)"
    by auto
  then show ?thesis
    using inv by (simp only: store_inv_def store_clear_all_def)
      (auto simp: list_all_iff coll_ok_Nil)
qed

section \<open>Reachable stores\<close>

text \<open>
  One rule per method that changes the store, and one for \<open>main.py\<close> registering the
  mutation callback. Each rule is one critical section of the lock.
\<close>

inductive store_step :: "'r store \<Rightarrow> 'r store \<Rightarrow> bool" where
  save: "store_save s c i r = Inr s' \<Longrightarrow> store_step s s'"
| delete: "store_delete s c i = Inr (s', b) \<Longrightarrow> store_step s s'"
| activity: "append_activity s i r = Inr s' \<Longrightarrow> store_step s s'"
| activity_order: "store_step s (set_activity_order s ids)"
| request_log: "append_request_log s i r = Inr s' \<Longrightarrow> store_step s s'"
| request_log_clear: "clear_request_logs s = Inr s' \<Longrightarrow> store_step s s'"
| webhook_sink: "append_webhook_sink s i r = Inr s' \<Longrightarrow> store_step s s'"
| webhook_sink_clear: "clear_webhook_sink s = Inr s' \<Longrightarrow> store_step s s'"
| clear: "store_clear s c = Inr s' \<Longrightarrow> store_step s s'"
| clear_all: "store_step s (store_clear_all s)"
| callback: "store_step s (s\<lparr>on_mutate := b\<rparr>)"

inductive reachable_store :: "'r store \<Rightarrow> bool" where
  start: "reachable_store init_store"
| step: "reachable_store s \<Longrightarrow> store_step s s' \<Longrightarrow> reachable_store s'"

lemma coll_ok_update_uncapped:
  "map_of caps c = None \<Longrightarrow> wf_dict d \<Longrightarrow> coll_ok c (AList.update i r d)"
  by (simp add: coll_ok_def)

lemma store_inv_save: "store_inv s \<Longrightarrow> store_save s c i r = Inr s' \<Longrightarrow> store_inv s'"
  by (auto simp: store_save_def split: sum.splits
      dest: store_inv_coll intro!: store_inv_put coll_ok_evict)

lemma store_inv_delete: "store_inv s \<Longrightarrow> store_delete s c i = Inr (s', b) \<Longrightarrow> store_inv s'"
  by (auto simp: store_delete_def split: sum.splits if_splits
      dest: store_inv_coll intro!: store_inv_put coll_ok_delete)

lemma coll_ok_uncapped: "map_of caps c = None \<Longrightarrow> coll_ok c d \<longleftrightarrow> wf_dict d"
  by (simp add: coll_ok_def)

lemmas log_uncapped = log_collections_uncapped [THEN coll_ok_uncapped] log_collections

lemma store_inv_append_activity:
  assumes inv: "store_inv s" and app: "append_activity s i r = Inr s'"
  shows "store_inv s'"
proof -
  obtain d where d: "coll s ''activities'' = Inr d"
    using store_inv_present [OF inv log_collections(1)] by blast
  from store_inv_wf [OF inv d] app d show ?thesis
    by (auto simp: append_activity_def Let_def log_uncapped inv split: option.splits
        intro!: store_inv_orders store_inv_put)
qed

lemma store_inv_append_request_log:
  assumes inv: "store_inv s" and app: "append_request_log s i r = Inr s'"
  shows "store_inv s'"
proof -
  obtain d where d: "coll s ''request_logs'' = Inr d"
    using store_inv_present [OF inv log_collections(2)] by blast
  from store_inv_wf [OF inv d] app d show ?thesis
    by (auto simp: append_request_log_def Let_def log_uncapped inv wf_dict_pop_all
        split: if_splits intro!: store_inv_orders store_inv_put)
qed

lemma store_inv_append_webhook_sink:
  assumes inv: "store_inv s" and app: "append_webhook_sink s i r = Inr s'"
  shows "store_inv s'"
proof -
  obtain d where d: "coll s ''webhook_sink'' = Inr d"
    using store_inv_present [OF inv log_collections(3)] by blast
  from store_inv_wf [OF inv d] app d show ?thesis
    by (auto simp: append_webhook_sink_def Let_def log_uncapped inv wf_dict_pop_all
        split: if_splits intro!: store_inv_orders store_inv_put)
qed

lemma store_inv_clears:
  assumes "store_inv s"
  shows "clear_request_logs s = Inr s' \<Longrightarrow> store_inv s'"
    and "clear_webhook_sink s = Inr s' \<Longrightarrow> store_inv s'"
    and "store_clear s c = Inr s' \<Longrightarrow> store_inv s'"
  using assms
  by (auto simp: clear_request_logs_def clear_webhook_sink_def store_clear_def Let_def coll_ok_Nil
      log_collections split: sum.splits if_splits dest: store_inv_coll
      intro!: store_inv_orders store_inv_put)

lemma store_inv_step: "store_step s s' \<Longrightarrow> store_inv s \<Longrightarrow> store_inv s'"
proof (induction rule: store_step.induct)
  case (activity_order s ids)
  then show ?case by (simp add: set_activity_order_def store_inv_orders(1))
next
  case (callback s b)
  then show ?case by (rule store_inv_orders(4))
qed (blast intro: store_inv_save store_inv_delete store_inv_append_activity
      store_inv_append_request_log store_inv_append_webhook_sink store_inv_clears
      store_inv_clear_all)+

lemma reachable_store_inv: "reachable_store s \<Longrightarrow> store_inv s"
  by (induction rule: reachable_store.induct) (auto intro: store_inv_init store_inv_step)

section \<open>Newest-first logs\<close>

text \<open>
  What the activity log, the request log and the webhook sink promise: appending a record
  under a fresh id puts it in front and drops what exceeds the cap. The clients of the log
  need no more than that; the history law is proved once.
\<close>

locale newest_first_log =
  fixes append :: "'s \<Rightarrow> string \<Rightarrow> 'r \<Rightarrow> 's result"
    and listing :: "'s \<Rightarrow> 'r list result"
    and ids :: "'s \<Rightarrow> string list"
    and ok :: "'s \<Rightarrow> bool"
    and cap :: nat
  assumes listing_cap: "ok s \<Longrightarrow> listing s = Inr rs \<Longrightarrow> length rs \<le> cap"
    and append_law:
    "ok s \<Longrightarrow> listing s = Inr rs \<Longrightarrow> i \<notin> set (ids s) \<Longrightarrow>
       \<exists>s'. append s i r = Inr s' \<and> ok s' \<and> listing s' = Inr (take cap (r # rs)) \<and>
            set (ids s') \<subseteq> insert i (set (ids s))"
begin

lemma history:
  assumes "ok s" "listing s = Inr rs" "distinct (map fst xs)" "fst ` set xs \<inter> set (ids s) = {}"
  shows "\<exists>s'. foldE (\<lambda>s (i, r). append s i r) xs s = Inr s' \<and> ok s' \<and>
              listing s' = Inr (take cap (rev (map snd xs) @ rs))"
  using assms
proof (induction xs arbitrary: s rs)
  case Nil
  then show ?case using listing_cap by simp
next
  case (Cons x xs)
  obtain i r where x: "x = (i, r)" by (cases x)
  have "i \<notin> set (ids s)" using Cons.prems(4) x by auto
  from append_law [OF Cons.prems(1,2) this] obtain s1 where s1:
    "append s i r = Inr s1" "ok s1" "listing s1 = Inr (take cap (r # rs))"
    "set (ids s1) \<subseteq> insert i (set (ids s))" by blast
  have "distinct (map fst xs)" "fst ` set xs \<inter> set (ids s1) = {}"
    using Cons.prems(3,4) s1(4) x by auto
  from Cons.IH [OF s1(2,3) this] obtain s2 where s2:
    "foldE (\<lambda>s (i, r). append s i r) xs s1 = Inr s2" "ok s2"
    "listing s2 = Inr (take cap (rev (map snd xs) @ take cap (r # rs)))" by blast
  then have "listing s2 = Inr (take cap (rev (map snd (x # xs)) @ rs))"
    by (simp add: x take_take_append)
  then show ?case using s1(1) s2(1,2) x by auto
qed

end

text \<open>The order list and the collection of a log agree.\<close>

definition log_coherent :: "string list \<Rightarrow> (string, 'r) dict \<Rightarrow> bool" where
  "log_coherent order d \<longleftrightarrow> distinct order \<and> set order = set (dict_keys d) \<and> wf_dict d"

lemma map_of_pop_all: "map_of (pop_all is d) k = (if k \<in> set is then None else map_of d k)"
  unfolding pop_all_def by (induction "is" arbitrary: d) auto

lemma keys_pop_all: "set (dict_keys (pop_all is d)) = set (dict_keys d) - set is"
  unfolding pop_all_def by (induction "is" arbitrary: d) (auto simp del: set_map simp: keys_delete)

lemma records_in_order_present:
  "set order \<subseteq> set (dict_keys d) \<Longrightarrow> records_in_order d order = map (the \<circ> map_of d) order"
proof (induction order)
  case Nil
  then show ?case by (simp add: records_in_order_def List.map_filter_def)
next
  case (Cons i order)
  then obtain r where "map_of d i = Some r" by (auto simp: map_of_eq_None_iff dest: weak_map_of_SomeI)
  then show ?case using Cons by (simp add: records_in_order_def List.map_filter_def)
qed

text \<open>
  The step all three logs take: insert under a fresh id, put the id in front, forget the
  ids beyond the cap together with their records.
\<close>

lemma log_append:
  fixes d :: "(string, 'r) dict" and i :: string and r :: 'r and n :: nat
  assumes coh: "log_coherent order d" and fresh: "i \<notin> set order"
  defines "order' \<equiv> take n (i # order)" and "d' \<equiv> pop_all (drop n (i # order)) (AList.update i r d)"
  shows "log_coherent order' d'"
    and "records_in_order d' order' = take n (r # records_in_order d order)"
proof -
  have dist: "distinct (i # order)" using coh fresh by (simp add: log_coherent_def)
  then have split: "set order' \<union> set (drop n (i # order)) = set (i # order)"
    "set order' \<inter> set (drop n (i # order)) = {}" "distinct order'"
    unfolding order'_def
    by (metis append_take_drop_id set_append, metis append_take_drop_id distinct_append,
        metis distinct_take)
  have keys: "set (dict_keys (AList.update i r d)) = set (i # order)"
    using coh by (auto simp: log_coherent_def keys_update)
  have keys': "set (dict_keys d') = set order'"
    unfolding d'_def keys_pop_all keys using split by blast
  then show "log_coherent order' d'"
    using coh split(3) by (simp add: log_coherent_def d'_def wf_dict_pop_all)
  have "records_in_order d' order' = map (the \<circ> map_of d') order'"
    using keys' by (intro records_in_order_present) simp
  also have "\<dots> = map (the \<circ> map_of (AList.update i r d)) order'"
    using split(2) by (auto simp: d'_def map_of_pop_all)
  also have "\<dots> = take n (map (the \<circ> map_of (AList.update i r d)) (i # order))"
    by (simp only: order'_def take_map)
  also have "map (the \<circ> map_of (AList.update i r d)) (i # order) = r # map (the \<circ> map_of d) order"
    using fresh by auto
  also have "map (the \<circ> map_of d) order = records_in_order d order"
    using coh by (intro records_in_order_present [symmetric]) (simp add: log_coherent_def)
  finally show "records_in_order d' order' = take n (r # records_in_order d order)" .
qed

lemma log_append_ids: "set (take n (i # order)) \<subseteq> insert i (set order)"
  using set_take_subset [of n "i # order"] by simp

lemma length_records_in_order: "length order \<le> n \<Longrightarrow> length (records_in_order d order) \<le> n"
  using le_trans [OF length_filter_le] by (auto simp: records_in_order_def List.map_filter_def)

definition activity_log_ok :: "'r store \<Rightarrow> bool" where
  "activity_log_ok s \<longleftrightarrow>
     (\<exists>d. coll s ''activities'' = Inr d \<and> log_coherent (activity_order s) d) \<and>
     length (activity_order s) \<le> activity_cap"

definition request_log_ok :: "'r store \<Rightarrow> bool" where
  "request_log_ok s \<longleftrightarrow>
     (\<exists>d. coll s ''request_logs'' = Inr d \<and> log_coherent (request_log_order s) d) \<and>
     length (request_log_order s) \<le> log_cap"

definition webhook_sink_ok :: "'r store \<Rightarrow> bool" where
  "webhook_sink_ok s \<longleftrightarrow>
     (\<exists>d. coll s ''webhook_sink'' = Inr d \<and> log_coherent (webhook_sink_order s) d) \<and>
     length (webhook_sink_order s) \<le> log_cap"

lemma append_request_log_eq:
  "coll s ''request_logs'' = Inr d \<Longrightarrow>
   append_request_log s i r =
     Inr (notify ((put_coll s ''request_logs''
            (pop_all (drop log_cap (i # request_log_order s)) (AList.update i r d)))
          \<lparr>request_log_order := take log_cap (i # request_log_order s)\<rparr>))"
  by (simp add: append_request_log_def Let_def pop_all_def)

lemma append_webhook_sink_eq:
  "coll s ''webhook_sink'' = Inr d \<Longrightarrow>
   append_webhook_sink s i r =
     Inr (notify ((put_coll s ''webhook_sink''
            (pop_all (drop log_cap (i # webhook_sink_order s)) (AList.update i r d)))
          \<lparr>webhook_sink_order := take log_cap (i # webhook_sink_order s)\<rparr>))"
  by (simp add: append_webhook_sink_def Let_def pop_all_def)

lemma drop_full: "length xs = n \<Longrightarrow> 0 < n \<Longrightarrow> drop n (i # xs) = [last xs]"
  by (cases xs rule: rev_cases) auto

lemma append_activity_eq:
  assumes "coll s ''activities'' = Inr d" "length (activity_order s) \<le> activity_cap"
    "i \<notin> set (activity_order s)"
  shows "append_activity s i r =
     Inr (notify ((put_coll s ''activities''
            (pop_all (drop activity_cap (i # activity_order s)) (AList.update i r d)))
          \<lparr>activity_order := take activity_cap (i # activity_order s)\<rparr>))"
proof (cases "length (activity_order s) = activity_cap")
  case True
  moreover have "0 < activity_cap" by (simp add: activity_cap_def)
  ultimately have "drop activity_cap (i # activity_order s) = [last (activity_order s)]"
    and "activity_order s \<noteq> []" by (auto simp: drop_full)
  moreover from this have "last (activity_order s) \<noteq> i" using assms(3) by (metis last_in_set)
  ultimately show ?thesis
    using assms True by (simp add: append_activity_def Let_def pop_all_def)
next
  case False
  then show ?thesis using assms by (simp add: append_activity_def Let_def pop_all_def)
qed

interpretation activity_log:
  newest_first_log append_activity list_activities activity_order activity_log_ok activity_cap
proof
  fix s :: "'r store" and rs
  assume "activity_log_ok s" "list_activities s = Inr rs"
  then show "length rs \<le> activity_cap"
    by (auto simp: activity_log_ok_def list_activities_def length_records_in_order)
next
  fix s :: "'r store" and rs i r
  assume ok: "activity_log_ok s" and rs: "list_activities s = Inr rs"
    and fresh: "i \<notin> set (activity_order s)"
  then obtain d where d: "coll s ''activities'' = Inr d" "log_coherent (activity_order s) d"
    by (auto simp: activity_log_ok_def)
  note step = log_append [OF d(2) fresh, of activity_cap r]
  show "\<exists>s'. append_activity s i r = Inr s' \<and> activity_log_ok s' \<and>
      list_activities s' = Inr (take activity_cap (r # rs)) \<and>
      set (activity_order s') \<subseteq> insert i (set (activity_order s))"
    using ok rs fresh step d(1) log_append_ids [of activity_cap i "activity_order s"]
    by (simp add: append_activity_eq [OF d(1)] activity_log_ok_def list_activities_def)
qed

interpretation request_log:
  newest_first_log append_request_log list_request_logs request_log_order request_log_ok log_cap
proof
  fix s :: "'r store" and rs
  assume "request_log_ok s" "list_request_logs s = Inr rs"
  then show "length rs \<le> log_cap"
    by (auto simp: request_log_ok_def list_request_logs_def length_records_in_order)
next
  fix s :: "'r store" and rs i r
  assume ok: "request_log_ok s" and rs: "list_request_logs s = Inr rs"
    and fresh: "i \<notin> set (request_log_order s)"
  then obtain d where d: "coll s ''request_logs'' = Inr d" "log_coherent (request_log_order s) d"
    by (auto simp: request_log_ok_def)
  note step = log_append [OF d(2) fresh, of log_cap r]
  show "\<exists>s'. append_request_log s i r = Inr s' \<and> request_log_ok s' \<and>
      list_request_logs s' = Inr (take log_cap (r # rs)) \<and>
      set (request_log_order s') \<subseteq> insert i (set (request_log_order s))"
    using ok rs fresh step d(1) log_append_ids [of log_cap i "request_log_order s"]
    by (simp add: append_request_log_eq [OF d(1)] request_log_ok_def list_request_logs_def)
qed

interpretation webhook_sink:
  newest_first_log append_webhook_sink list_webhook_sink webhook_sink_order webhook_sink_ok log_cap
proof
  fix s :: "'r store" and rs
  assume "webhook_sink_ok s" "list_webhook_sink s = Inr rs"
  then show "length rs \<le> log_cap"
    by (auto simp: webhook_sink_ok_def list_webhook_sink_def length_records_in_order)
next
  fix s :: "'r store" and rs i r
  assume ok: "webhook_sink_ok s" and rs: "list_webhook_sink s = Inr rs"
    and fresh: "i \<notin> set (webhook_sink_order s)"
  then obtain d where d: "coll s ''webhook_sink'' = Inr d" "log_coherent (webhook_sink_order s) d"
    by (auto simp: webhook_sink_ok_def)
  note step = log_append [OF d(2) fresh, of log_cap r]
  show "\<exists>s'. append_webhook_sink s i r = Inr s' \<and> webhook_sink_ok s' \<and>
      list_webhook_sink s' = Inr (take log_cap (r # rs)) \<and>
      set (webhook_sink_order s') \<subseteq> insert i (set (webhook_sink_order s))"
    using ok rs fresh step d(1) log_append_ids [of log_cap i "webhook_sink_order s"]
    by (simp add: append_webhook_sink_eq [OF d(1)] webhook_sink_ok_def list_webhook_sink_def)
qed

lemma logs_init:
  "activity_log_ok init_store" "request_log_ok init_store" "webhook_sink_ok init_store"
  by (simp_all add: activity_log_ok_def request_log_ok_def webhook_sink_ok_def coll_init
      log_collections log_coherent_def)

lemma listings_init:
  "list_activities init_store = Inr []" "list_request_logs init_store = Inr []"
  "list_webhook_sink init_store = Inr []"
  by (simp_all add: list_activities_def list_request_logs_def list_webhook_sink_def coll_init
      log_collections records_in_order_def List.map_filter_def)

section \<open>Keyed collections\<close>

text \<open>
  What a collection promises the code that reads and writes it by id. A write may evict one
  other record (a capped collection); the extension \<open>stable_collection\<close> rules that out.
\<close>

locale keyed_collection =
  fixes lookup :: "'s \<Rightarrow> string \<Rightarrow> 'r option result"
    and put :: "'s \<Rightarrow> string \<Rightarrow> 'r \<Rightarrow> 's result"
    and remove :: "'s \<Rightarrow> string \<Rightarrow> ('s \<times> bool) result"
    and ok :: "'s \<Rightarrow> bool"
  assumes put_law:
      "ok s \<Longrightarrow> \<exists>s'. put s i r = Inr s' \<and> ok s' \<and> lookup s' i = Inr (Some r)"
    and put_only_evicts:
      "ok s \<Longrightarrow> put s i r = Inr s' \<Longrightarrow> j \<noteq> i \<Longrightarrow>
         lookup s' j = lookup s j \<or> lookup s' j = Inr None"
    and remove_law:
      "ok s \<Longrightarrow> \<exists>s' b. remove s i = Inr (s', b) \<and> ok s' \<and> lookup s' i = Inr None \<and>
         (b \<longleftrightarrow> lookup s i \<noteq> Inr None) \<and> (\<forall>j. j \<noteq> i \<longrightarrow> lookup s' j = lookup s j)"
begin

text \<open>A record read after any writes under other ids is the one held before, or gone.\<close>

lemma puts_only_evict:
  assumes "ok s" "\<forall>(j, r) \<in> set xs. j \<noteq> i"
  shows "\<exists>s'. foldE (\<lambda>s (j, r). put s j r) xs s = Inr s' \<and> ok s' \<and>
           (lookup s' i = lookup s i \<or> lookup s' i = Inr None)"
  using assms
proof (induction xs arbitrary: s)
  case Nil
  then show ?case by simp
next
  case (Cons x xs)
  obtain j r where x: "x = (j, r)" by (cases x)
  obtain s1 where s1: "put s j r = Inr s1" "ok s1" using put_law [OF Cons.prems(1)] by blast
  have "lookup s1 i = lookup s i \<or> lookup s1 i = Inr None"
    using put_only_evicts [OF Cons.prems(1) s1(1), of i] Cons.prems(2) x by auto
  moreover from Cons.IH [OF s1(2)] Cons.prems(2) obtain s2 where
    "foldE (\<lambda>s (j, r). put s j r) xs s1 = Inr s2" "ok s2"
    "lookup s2 i = lookup s1 i \<or> lookup s2 i = Inr None" by auto
  ultimately show ?case using s1(1) x by auto
qed

lemma put_then_remove:
  assumes "ok s"
  shows "\<exists>s1 s2. put s i r = Inr s1 \<and> remove s1 i = Inr (s2, True) \<and> lookup s2 i = Inr None"
proof -
  obtain s1 where s1: "put s i r = Inr s1" "ok s1" "lookup s1 i = Inr (Some r)"
    using put_law [OF assms] by blast
  from remove_law [OF s1(2)] obtain s2 b where
    "remove s1 i = Inr (s2, b)" "lookup s2 i = Inr None" "b \<longleftrightarrow> lookup s1 i \<noteq> Inr None" by blast
  with s1 show ?thesis by auto
qed

end

locale stable_collection = keyed_collection +
  assumes put_frame: "ok s \<Longrightarrow> put s i r = Inr s' \<Longrightarrow> j \<noteq> i \<Longrightarrow> lookup s' j = lookup s j"
begin

text \<open>The last write under an id decides what is read, whatever was written around it.\<close>

lemma last_write_wins:
  assumes "ok s" "\<forall>(j, q) \<in> set xs. j \<noteq> i"
  shows "\<exists>s'. foldE (\<lambda>s (j, q). put s j q) ((i, r) # xs) s = Inr s' \<and> ok s' \<and>
           lookup s' i = Inr (Some r)"
proof -
  obtain s1 where s1: "put s i r = Inr s1" "ok s1" "lookup s1 i = Inr (Some r)"
    using put_law [OF assms(1)] by blast
  have "\<exists>s'. foldE (\<lambda>s (j, q). put s j q) xs s1 = Inr s' \<and> ok s' \<and> lookup s' i = lookup s1 i"
    using s1(2) assms(2)
  proof (induction xs arbitrary: s1)
    case Nil
    then show ?case by simp
  next
    case (Cons x xs)
    obtain j q where x: "x = (j, q)" by (cases x)
    obtain t where t: "put s1 j q = Inr t" "ok t" using put_law [OF Cons.prems(1)] by blast
    then have "lookup t i = lookup s1 i"
      using put_frame [OF Cons.prems(1) t(1)] Cons.prems(2) x by auto
    then show ?case using Cons.IH [OF t(2)] Cons.prems(2) t(1) x by auto
  qed
  then show ?thesis using s1 by auto
qed

end

lemma store_get_notify [simp]: "store_get (notify s) c i = store_get s c i"
  by (simp add: store_get_def)

lemma map_of_evict:
  assumes "wf_dict d" "j \<noteq> i"
  shows "map_of (AList.update i r (evict c i d)) j = map_of d j \<or>
         map_of (AList.update i r (evict c i d)) j = None"
proof (cases d)
  case Nil
  then show ?thesis using assms by (simp add: evict_def split: option.splits)
next
  case (Cons p d')
  then have "map_of (tl d) j = (if j = fst p then None else map_of d j)"
    using assms(1) by (cases p) (auto simp: map_of_eq_None_iff)
  then show ?thesis using assms(2) by (auto simp: evict_def split: option.splits)
qed

lemma store_save_law:
  assumes "store_inv s" "c \<in> set collection_names"
  shows "\<exists>s'. store_save s c i r = Inr s' \<and> store_inv s' \<and> store_get s' c i = Inr (Some r)"
proof -
  obtain d where d: "coll s c = Inr d" using store_inv_present [OF assms] by blast
  then have sv: "store_save s c i r = Inr (notify (put_coll s c (AList.update i r (evict c i d))))"
    by (simp add: store_save_def)
  show ?thesis using sv store_inv_save [OF assms(1) sv] by (simp add: store_get_def)
qed

lemma store_save_other:
  assumes "store_inv s" "store_save s c i r = Inr s'" "j \<noteq> i"
  shows "store_get s' c j = store_get s c j \<or> store_get s' c j = Inr None"
proof -
  from assms(2) obtain d where d: "coll s c = Inr d"
    "s' = notify (put_coll s c (AList.update i r (evict c i d)))"
    by (auto simp: store_save_def split: sum.splits)
  show ?thesis
    using map_of_evict [OF store_inv_wf [OF assms(1) d(1)] assms(3), of r c] d
    by (auto simp: store_get_def)
qed

lemma store_save_other_collection:
  "store_save s c i r = Inr s' \<Longrightarrow> c' \<noteq> c \<Longrightarrow> coll s' c' = coll s c'"
  by (auto simp: store_save_def split: sum.splits)

lemma store_save_uncapped:
  "map_of caps c = None \<Longrightarrow> store_save s c i r = Inr s' \<Longrightarrow> j \<noteq> i \<Longrightarrow>
   store_get s' c j = store_get s c j"
  by (auto simp: store_save_def store_get_def evict_def split: sum.splits)

lemma store_delete_law:
  assumes "store_inv s" "c \<in> set collection_names"
  shows "\<exists>s' b. store_delete s c i = Inr (s', b) \<and> store_inv s' \<and> store_get s' c i = Inr None \<and>
           (b \<longleftrightarrow> store_get s c i \<noteq> Inr None) \<and>
           (\<forall>j. j \<noteq> i \<longrightarrow> store_get s' c j = store_get s c j)"
proof -
  obtain d where d: "coll s c = Inr d" using store_inv_present [OF assms] by blast
  show ?thesis
  proof (cases "i \<in> set (dict_keys d)")
    case True
    then have del: "store_delete s c i = Inr (notify (put_coll s c (AList.delete i d)), True)"
      using d by (simp add: store_delete_def)
    moreover have "store_get s c i \<noteq> Inr None"
      using True d by (auto simp: store_get_def map_of_eq_None_iff)
    ultimately show ?thesis
      using store_inv_delete [OF assms(1) del] d by (auto simp: store_get_def)
  next
    case False
    then show ?thesis
      using d assms(1) by (auto simp: store_delete_def store_get_def map_of_eq_None_iff)
  qed
qed

interpretation collection: keyed_collection
  "\<lambda>s. store_get s c" "\<lambda>s. store_save s c" "\<lambda>s. store_delete s c"
  "\<lambda>s. store_inv s \<and> c \<in> set collection_names" for c
proof (unfold_locales, goal_cases)
  case (1 s i r)
  then show ?case using store_save_law [of s c i r] by simp
next
  case (2 s i r s' j)
  then show ?case using store_save_other [of s c i r s' j] by simp
next
  case (3 s i)
  then show ?case using store_delete_law [of s c i] by auto
qed

interpretation uncapped: stable_collection
  "\<lambda>s. store_get s c" "\<lambda>s. store_save s c" "\<lambda>s. store_delete s c"
  "\<lambda>s. store_inv s \<and> c \<in> set collection_names \<and> map_of caps c = None" for c
proof (unfold_locales, goal_cases)
  case (1 s i r)
  then show ?case using store_save_law [of s c i r] by simp
next
  case (2 s i r s' j)
  then show ?case using store_save_other [of s c i r s' j] by simp
next
  case (3 s i)
  then show ?case using store_delete_law [of s c i] by auto
next
  case (4 s i r s' j)
  then show ?case using store_save_uncapped [of c s i r s' j] by simp
qed

section \<open>Properties\<close>

lemma save_coll:
  assumes "coll s c = Inr d" "store_save s c i r = Inr s'"
  shows "coll s' c = Inr (AList.update i r (evict c i d))"
  using assms by (auto simp: store_save_def)

lemma save_orders:
  assumes "store_save s c i r = Inr s'"
  shows "activity_order s' = activity_order s \<and> request_log_order s' = request_log_order s \<and>
         webhook_sink_order s' = webhook_sink_order s"
  using assms by (auto simp: store_save_def split: sum.splits)

lemma log_count:
  assumes "log_coherent order d"
  shows "length (records_in_order d order) = length d"
proof -
  have "length (records_in_order d order) = length order"
    using assms by (simp add: records_in_order_present log_coherent_def)
  also have "length order = card (set (dict_keys d))"
    using assms by (metis log_coherent_def distinct_card)
  also have "\<dots> = length d"
    using assms by (metis log_coherent_def distinct_card length_map)
  finally show ?thesis .
qed

text \<open>
  C1. Whatever sequence of store operations has run since start-up, every collection is
  present with distinct keys, no capped collection holds more records than its cap, and the
  three order lists respect theirs: traffic cannot grow the process without bound.
\<close>

theorem reachable_store_bounded:
  assumes "reachable_store s" "c \<in> set collection_names"
  shows "\<exists>d. coll s c = Inr d \<and> wf_dict d \<and> (\<forall>n. map_of caps c = Some n \<longrightarrow> length d \<le> n) \<and>
             length (activity_order s) \<le> 10000 \<and> length (request_log_order s) \<le> 500 \<and>
             length (webhook_sink_order s) \<le> 500"
proof -
  have inv: "store_inv s" using assms(1) by (rule reachable_store_inv)
  obtain d where "coll s c = Inr d" using store_inv_present [OF inv assms(2)] by blast
  with store_inv_coll [OF inv] inv show ?thesis
    by (fastforce simp: store_inv_def coll_ok_def activity_cap_def log_cap_def split: option.splits)
qed

theorem reachable_store_bounded_witness:
  "\<exists>s d. reachable_store (s :: nat store) \<and> coll s ''dv_queries'' = Inr d \<and> length d \<le> 200"
proof -
  have c: "''dv_queries'' \<in> set collection_names" by (simp add: collection_names_def)
  have cap: "map_of caps ''dv_queries'' = Some 200" by (simp add: caps_def)
  obtain s :: "nat store" where "store_save init_store ''dv_queries'' ''q1'' 7 = Inr s"
    using store_save_law [OF store_inv_init c, of "''q1''" 7] by blast
  then have "reachable_store s"
    by (intro reachable_store.step [OF reachable_store.start] store_step.save)
  then show ?thesis using reachable_store_bounded [OF _ c, of s] cap by blast
qed

text \<open>
  C2. What \<open>save\<close> does to its collection, exactly: a new id in a full capped collection
  drops the record inserted first and appends the new one; any other save drops nothing (an
  existing id is overwritten in place, a new one is appended). Every other collection and
  the order lists are untouched.
\<close>

theorem store_save_effect:
  assumes "store_inv s" "coll s c = Inr d"
  shows "\<exists>s'. store_save s c i r = Inr s' \<and>
           coll s' c = Inr (if i \<notin> set (dict_keys d) \<and> map_of caps c = Some (length d)
                            then tl d @ [(i, r)] else AList.update i r d) \<and>
           (\<forall>c'. c' \<noteq> c \<longrightarrow> coll s' c' = coll s c') \<and>
           activity_order s' = activity_order s \<and> request_log_order s' = request_log_order s \<and>
           webhook_sink_order s' = webhook_sink_order s"
proof -
  obtain s' where s': "store_save s c i r = Inr s'"
    using assms(2) by (simp add: store_save_def)
  have ok: "coll_ok c d" using store_inv_coll [OF assms] by simp
  have "AList.update i r (evict c i d) =
        (if i \<notin> set (dict_keys d) \<and> map_of caps c = Some (length d)
         then tl d @ [(i, r)] else AList.update i r d)"
  proof (cases "i \<notin> set (dict_keys d) \<and> map_of caps c = Some (length d)")
    case True
    then have "i \<notin> fst ` set (tl d)" by (cases d) auto
    then show ?thesis using True by (simp add: evict_def update_fresh)
  next
    case False
    then show ?thesis using ok by (auto simp: evict_def coll_ok_def split: option.splits)
  qed
  then show ?thesis
    using s' save_coll [OF assms(2) s'] save_orders [OF s'] store_save_other_collection [OF s']
    by auto
qed

theorem store_save_effect_witness:
  "\<exists>(s :: unit store) s'. length (activity_order s) = 0 \<and>
     store_save s ''dv_queries'' ''new'' () = Inr s' \<and>
     coll s' ''dv_queries'' =
       Inr (map (\<lambda>k. (replicate k CHR ''x'', ())) [1..<200] @ [(''new'', ())])"
proof -
  define d where "d = map (\<lambda>k. (replicate k CHR ''x'', ())) [0..<200]"
  define s :: "unit store" where "s = put_coll init_store ''dv_queries'' d"
  have c: "''dv_queries'' \<in> set collection_names" by (simp add: collection_names_def)
  have cap: "map_of caps ''dv_queries'' = Some 200" by (simp add: caps_def)
  have "inj (\<lambda>k. replicate k CHR ''x'')" by (rule injI) (metis length_replicate)
  then have "wf_dict d" by (simp add: d_def o_def distinct_map inj_on_def)
  then have ok: "coll_ok ''dv_queries'' d" by (simp add: coll_ok_def cap d_def)
  have inv: "store_inv s" unfolding s_def by (rule store_inv_put [OF store_inv_init c ok])
  have "''new'' \<noteq> replicate k CHR ''x''" for k by (cases k) auto
  then have new: "''new'' \<notin> set (dict_keys d)" by (auto simp: d_def)
  have cs: "coll s ''dv_queries'' = Inr d" by (simp add: s_def)
  have "tl d = map (\<lambda>k. (replicate k CHR ''x'', ())) [1..<200]"
    using upt_conv_Cons [of 0 200] by (simp only: d_def) simp
  moreover have "length d = 200" by (simp add: d_def)
  moreover from store_save_effect [OF inv cs, of "''new''" "()"] obtain s' where
    "store_save s ''dv_queries'' ''new'' () = Inr s'"
    "coll s' ''dv_queries'' =
       Inr (if ''new'' \<notin> set (dict_keys d) \<and> map_of caps ''dv_queries'' = Some (length d)
            then tl d @ [(''new'', ())] else AList.update ''new'' () d)" by blast
  moreover have "length (activity_order s) = 0" by (simp add: s_def)
  ultimately show ?thesis using new cap by auto
qed

text \<open>
  C5. The activity log is a bounded history: after appending any records under fresh ids,
  \<open>list_activities\<close> is the 10000 newest, newest first, followed by what was there before,
  and \<open>count\<close> agrees with it.
\<close>

theorem activity_history:
  assumes "activity_log_ok s" "list_activities s = Inr rs" "distinct (map fst xs)"
    "fst ` set xs \<inter> set (activity_order s) = {}"
  shows "\<exists>s'. foldE (\<lambda>s (i, r). append_activity s i r) xs s = Inr s' \<and>
           list_activities s' = Inr (take 10000 (rev (map snd xs) @ rs)) \<and>
           store_count s' ''activities'' = Inr (min 10000 (length xs + length rs))"
proof -
  from activity_log.history [OF assms] obtain s' where s':
    "foldE (\<lambda>s (i, r). append_activity s i r) xs s = Inr s'" "activity_log_ok s'"
    "list_activities s' = Inr (take activity_cap (rev (map snd xs) @ rs))" by blast
  from s'(2) obtain d where d: "coll s' ''activities'' = Inr d" "log_coherent (activity_order s') d"
    by (auto simp: activity_log_ok_def)
  then have "length d = length (take activity_cap (rev (map snd xs) @ rs))"
    using s'(3) log_count [OF d(2)] by (simp add: list_activities_def)
  then show ?thesis
    using s' d by (auto simp: store_count_def activity_cap_def)
qed

theorem activity_history_witness:
  "\<exists>s'. foldE (\<lambda>s (i, r). append_activity s i r) [(''a'', 1), (''b'', 2)] (init_store :: int store) = Inr s' \<and>
     list_activities s' = Inr [2, 1] \<and> store_count s' ''activities'' = Inr 2"
  using activity_history [OF logs_init(1) listings_init(1), of "[(''a'', 1), (''b'', 2::int)]"]
  by (simp add: numeral_2_eq_2)

text \<open>
  The request log and the webhook sink are bounded histories of 500 records each.
\<close>

theorem request_log_and_sink_history:
  assumes "request_log_ok s" "list_request_logs s = Inr rs" "webhook_sink_ok s"
    "list_webhook_sink s = Inr ws" "distinct (map fst xs)"
    "fst ` set xs \<inter> (set (request_log_order s) \<union> set (webhook_sink_order s)) = {}"
  shows "(\<exists>s'. foldE (\<lambda>s (i, r). append_request_log s i r) xs s = Inr s' \<and>
            list_request_logs s' = Inr (take 500 (rev (map snd xs) @ rs))) \<and>
         (\<exists>s'. foldE (\<lambda>s (i, r). append_webhook_sink s i r) xs s = Inr s' \<and>
            list_webhook_sink s' = Inr (take 500 (rev (map snd xs) @ ws)))"
proof -
  have "fst ` set xs \<inter> set (request_log_order s) = {}" "fst ` set xs \<inter> set (webhook_sink_order s) = {}"
    using assms(6) by auto
  then show ?thesis
    using request_log.history [OF assms(1,2,5)] webhook_sink.history [OF assms(3,4,5)]
    by (auto simp: log_cap_def)
qed

theorem request_log_and_sink_history_witness:
  "\<exists>s'. foldE (\<lambda>s (i, r). append_request_log s i r) [(''a'', 1), (''b'', 2)] (init_store :: int store) = Inr s' \<and>
     list_request_logs s' = Inr [2, 1]"
  using request_log_and_sink_history [OF logs_init(2) listings_init(2) logs_init(3) listings_init(3),
      of "[(''a'', 1), (''b'', 2::int)]"]
  by simp

text \<open>
  In a collection without a cap, a record saved under an id is the one read back after
  any number of saves under other ids, and deleting it succeeds once and leaves it unreadable.
\<close>

theorem uncapped_save_get_delete:
  assumes "store_inv s" "c \<in> set collection_names" "map_of caps c = None"
    "list_all (\<lambda>(j, q). j \<noteq> i) xs"
  shows "\<exists>s1 s2. foldE (\<lambda>s (j, q). store_save s c j q) ((i, r) # xs) s = Inr s1 \<and>
           store_get s1 c i = Inr (Some r) \<and>
           store_delete s1 c i = Inr (s2, True) \<and> store_get s2 c i = Inr None"
proof -
  have "\<forall>(j, q) \<in> set xs. j \<noteq> i" using assms(4) by (auto simp: list_all_iff)
  then obtain s1 where s1: "foldE (\<lambda>s (j, q). store_save s c j q) ((i, r) # xs) s = Inr s1"
    "store_inv s1" "store_get s1 c i = Inr (Some r)"
    using uncapped.last_write_wins [of s c xs i r] assms by blast
  from collection.remove_law [of s1 c i] s1(2) assms(2) obtain s2 b where
    "store_delete s1 c i = Inr (s2, b)" "store_get s2 c i = Inr None"
    "b \<longleftrightarrow> store_get s1 c i \<noteq> Inr None" by blast
  with s1 show ?thesis by auto
qed

theorem uncapped_save_get_delete_witness:
  "\<exists>s1 s2. foldE (\<lambda>s (j, q). store_save s ''agents'' j q) [(''a'', 1), (''b'', 2)]
             (init_store :: int store) = Inr s1 \<and>
     store_get s1 ''agents'' ''a'' = Inr (Some 1) \<and>
     store_delete s1 ''agents'' ''a'' = Inr (s2, True) \<and> store_get s2 ''agents'' ''a'' = Inr None"
proof -
  have "''agents'' \<in> set collection_names" "map_of caps ''agents'' = None"
    by (simp_all add: collection_names_def caps_def)
  then show ?thesis
    using uncapped_save_get_delete [OF store_inv_init, of "''agents''" "''a''" "[(''b'', 2)]" 1]
    by simp
qed

end
