(* ===== verification/Repository.thy ===== *)
theory Repository
  imports Store Py_Val
begin

text \<open>
  The repositories, \<open>src/backend/repository/base.py\<close> and the look-ups its subclasses add. A domain
  object is the dictionary of its fields, so the store holds values (\<open>db\<close>). The collection of a
  repository is a constant of \<open>collection_names\<close>: the look-up of the collection cannot raise, and the
  operations are total.

  Shown here: the laws of reading after writing across collections, collected in \<open>repo_laws\<close> for the
  components above.
\<close>

named_theorems repo_laws \<open>reading a repository after it was written\<close>

type_synonym db = "pyval store"

section \<open>Repository\<close>

definition repo_get :: "db \<Rightarrow> string \<Rightarrow> string \<Rightarrow> pyval option" where
  "repo_get s c i = (case store_get s c i of Inl e \<Rightarrow> None | Inr r \<Rightarrow> r)"

definition repo_list_all :: "db \<Rightarrow> string \<Rightarrow> pyval list" where
  "repo_list_all s c = (case store_get_all s c of Inl e \<Rightarrow> [] | Inr rs \<Rightarrow> rs)"

text \<open>\<open>save_raw\<close>, and \<open>save\<close>, which takes the key from the object's \<open>id\<close>.\<close>

definition repo_save_raw :: "db \<Rightarrow> string \<Rightarrow> string \<Rightarrow> pyval \<Rightarrow> db" where
  "repo_save_raw s c i r = (case store_save s c i r of Inl e \<Rightarrow> s | Inr s' \<Rightarrow> s')"

definition repo_save :: "db \<Rightarrow> string \<Rightarrow> jobj \<Rightarrow> db" where
  "repo_save s c entity = repo_save_raw s c (py_str (dict_get entity ''id'')) (VDict entity)"

definition repo_delete :: "db \<Rightarrow> string \<Rightarrow> string \<Rightarrow> db \<times> bool" where
  "repo_delete s c i = (case store_delete s c i of Inl e \<Rightarrow> (s, False) | Inr r \<Rightarrow> r)"

definition repo_exists :: "db \<Rightarrow> string \<Rightarrow> string \<Rightarrow> bool" where
  "repo_exists s c i = (case store_exists s c i of Inl e \<Rightarrow> False | Inr b \<Rightarrow> b)"

definition repo_count :: "db \<Rightarrow> string \<Rightarrow> nat" where
  "repo_count s c = (case store_count s c of Inl e \<Rightarrow> 0 | Inr n \<Rightarrow> n)"

text \<open>The object found, as the dictionary of its fields.\<close>

definition fields_of :: "pyval \<Rightarrow> jobj" where
  "fields_of v = (case v of VDict d \<Rightarrow> d | _ \<Rightarrow> [])"

definition repo_find :: "db \<Rightarrow> string \<Rightarrow> string \<Rightarrow> jobj option" where
  "repo_find s c i = map_option fields_of (repo_get s c i)"

text \<open>\<open>repo.get(v)\<close> for a value out of a body: a key that cannot be hashed raises.\<close>

definition find_by_value :: "db \<Rightarrow> string \<Rightarrow> pyval \<Rightarrow> jobj option result" where
  "find_by_value s c v =
     (case v of VStr i \<Rightarrow> Inr (repo_find s c i) | VList _ \<Rightarrow> Inl (TypeError ''unhashable type'')
      | VDict _ \<Rightarrow> Inl (TypeError ''unhashable type'') | _ \<Rightarrow> Inr None)"

section \<open>Laws\<close>

lemma repo_get_eq: "coll s c = Inr d \<Longrightarrow> repo_get s c i = map_of d i"
  by (simp add: repo_get_def store_get_def)

lemma store_inv_repo_save_raw [simp]: "store_inv s \<Longrightarrow> store_inv (repo_save_raw s c i r)"
  by (auto simp: repo_save_raw_def store_inv_save split: sum.splits)

lemma store_inv_repo_save [simp]: "store_inv s \<Longrightarrow> store_inv (repo_save s c e)"
  by (simp add: repo_save_def)

lemma store_inv_repo_delete [simp]: "store_inv s \<Longrightarrow> store_inv (fst (repo_delete s c i))"
  by (auto simp: repo_delete_def store_inv_delete split: sum.splits)

lemma repo_save_other [repo_laws]: "c' \<noteq> c \<Longrightarrow> repo_get (repo_save_raw s c i r) c' j = repo_get s c' j"
  by (auto simp: repo_save_raw_def repo_get_def store_get_def store_save_def split: sum.splits)

lemma repo_save_same [repo_laws]:
  assumes "store_inv s" "c \<in> set collection_names"
  shows "repo_get (repo_save_raw s c i r) c i = Some r"
proof -
  obtain d where "coll s c = Inr d" using store_inv_present [OF assms] by blast
  then show ?thesis by (simp add: repo_save_raw_def repo_get_def store_get_def store_save_def)
qed

lemma repo_save_uncapped [repo_laws]:
  assumes "store_inv s" "c \<in> set collection_names" "map_of caps c = None"
  shows "repo_get (repo_save_raw s c i r) c j = (if j = i then Some r else repo_get s c j)"
proof -
  obtain d where "coll s c = Inr d" using store_inv_present [OF assms(1,2)] by blast
  then show ?thesis
    using assms(3) by (simp add: repo_save_raw_def repo_get_def store_get_def store_save_def evict_def)
qed

lemma repo_delete_get [repo_laws]:
  assumes "store_inv s" "c \<in> set collection_names"
  shows "repo_get (fst (repo_delete s c i)) c' j = (if c' = c \<and> j = i then None else repo_get s c' j)"
proof -
  obtain d where d: "coll s c = Inr d" using store_inv_present [OF assms] by blast
  show ?thesis
  proof (cases "i \<in> set (dict_keys d)")
    case True
    then show ?thesis using d by (simp add: repo_delete_def store_delete_def repo_get_def store_get_def delete_conv')
  next
    case False
    then have "map_of d i = None" by (simp add: map_of_eq_None_iff)
    then show ?thesis using False d by (auto simp: repo_delete_def store_delete_def repo_get_def store_get_def)
  qed
qed

lemma repo_delete_found:
  assumes "store_inv s" "c \<in> set collection_names"
  shows "snd (repo_delete s c i) \<longleftrightarrow> repo_get s c i \<noteq> None"
proof -
  obtain d where d: "coll s c = Inr d" using store_inv_present [OF assms] by blast
  then show ?thesis
    by (auto simp: repo_delete_def store_delete_def repo_get_def store_get_def map_of_eq_None_iff)
qed

lemma repo_save_existing [repo_laws]:
  assumes "repo_get s c i \<noteq> None"
  shows "repo_get (repo_save_raw s c i r) c j = (if j = i then Some r else repo_get s c j)"
proof -
  obtain d where d: "coll s c = Inr d" "i \<in> set (dict_keys d)"
    using assms by (cases "coll s c") (auto simp: repo_get_def store_get_def map_of_eq_None_iff)
  then show ?thesis
    by (simp add: repo_save_raw_def repo_get_def store_get_def store_save_def evict_def split: option.splits)
qed

lemma repo_update [repo_laws]:
  "repo_get s c i \<noteq> None \<Longrightarrow>
     repo_get (repo_save_raw s c i r) c' j = (if c' = c \<and> j = i then Some r else repo_get s c' j)"
  by (cases "c' = c") (simp_all add: repo_save_existing repo_save_other)

text \<open>Every record of a collection is a dictionary stored under its own key.\<close>

definition keyed_by :: "(jobj \<Rightarrow> string) \<Rightarrow> db \<Rightarrow> string \<Rightarrow> bool" where
  "keyed_by key s c \<longleftrightarrow> (\<forall>i v. repo_get s c i = Some v \<longrightarrow> (\<exists>r. v = VDict r \<and> key r = i))"

lemma keyed_by_list:
  assumes "store_inv s" "keyed_by key s c"
  shows "distinct (map key (map fields_of (repo_list_all s c)))"
    and "r \<in> set (map fields_of (repo_list_all s c)) \<longleftrightarrow> repo_get s c (key r) = Some (VDict r)"
proof -
  obtain d where d: "repo_list_all s c = map snd d" "\<And>i. repo_get s c i = map_of d i" "wf_dict d"
    using assms(1) store_inv_wf [of s c]
    by (cases "coll s c") (force simp: repo_list_all_def store_get_all_def repo_get_def store_get_def)+
  have e: "\<exists>r. v = VDict r \<and> key r = i" if "(i, v) \<in> set d" for i v
    using assms(2) d that by (auto simp: keyed_by_def)
  have k: "map (\<lambda>x. key (fields_of (snd x))) d = map fst d"
    using e by (fastforce simp: fields_of_def intro!: map_cong)
  show "distinct (map key (map fields_of (repo_list_all s c)))" 
    using k d(3) by (simp only: d(1) map_map comp_def)
  show "r \<in> set (map fields_of (repo_list_all s c)) \<longleftrightarrow> repo_get s c (key r) = Some (VDict r)"
  proof
    assume "r \<in> set (map fields_of (repo_list_all s c))"
    then obtain i v where iv: "(i, v) \<in> set d" "r = fields_of v" by (auto simp: d(1))
    then obtain r' where "v = VDict r'" "key r' = i" using e by blast
    then show "repo_get s c (key r) = Some (VDict r)" using iv d by (simp add: fields_of_def)
  next
    assume "repo_get s c (key r) = Some (VDict r)"
    then have "(key r, VDict r) \<in> set d" by (simp add: d(2) map_of_SomeD)
    then show "r \<in> set (map fields_of (repo_list_all s c))" by (force simp: d(1) fields_of_def)
  qed
qed

lemma keyed_by_member:
  assumes "store_inv s" "keyed_by key s c"
  shows "v \<in> set (repo_list_all s c) \<longleftrightarrow> (\<exists>r. v = VDict r \<and> repo_get s c (key r) = Some v)"
proof -
  obtain d where d: "repo_list_all s c = map snd d" "\<And>i. repo_get s c i = map_of d i" "wf_dict d"
    using assms(1) store_inv_wf [of s c]
    by (cases "coll s c") (force simp: repo_list_all_def store_get_all_def repo_get_def store_get_def)+
  have "\<exists>r. v = VDict r \<and> map_of d (key r) = Some v" if "(i, v) \<in> set d" for i
    using assms(2) d that by (force simp: keyed_by_def)
  then show ?thesis using d by (force dest: map_of_SomeD)
qed

lemma keyed_by_save:
  "keyed_by key s c \<Longrightarrow> repo_get s c i \<noteq> None \<Longrightarrow> key r = i \<Longrightarrow> keyed_by key (repo_save_raw s c i (VDict r)) c"
  by (simp add: keyed_by_def repo_save_existing)

lemma repo_get_init [simp]: "repo_get init_store c i = None"
  by (simp add: repo_get_def store_get_def coll_init)

lemma used_collections [simp]:
  "''users'' \<in> set collection_names" "''api_tokens'' \<in> set collection_names" "''accounts'' \<in> set collection_names"
  "''cs_oauth_clients'' \<in> set collection_names" "''cs_oauth_tokens'' \<in> set collection_names"
  "''mde_oauth_tokens'' \<in> set collection_names" "''xdr_api_keys'' \<in> set collection_names"
  "''agents'' \<in> set collection_names" "''agent_network_requests'' \<in> set collection_names"
  "''splunk_sessions'' \<in> set collection_names" "''splunk_users'' \<in> set collection_names"
  "''splunk_hec_tokens'' \<in> set collection_names"
  "''es_api_keys'' \<in> set collection_names" "''es_tokens'' \<in> set collection_names"
  "''es_refresh_tokens'' \<in> set collection_names" "''es_search_contexts'' \<in> set collection_names"
  by (simp_all add: collection_names_def)

lemma uncapped_collections [simp]:
  "map_of caps ''users'' = None" "map_of caps ''api_tokens'' = None" "map_of caps ''agents'' = None"
  "map_of caps ''agent_network_requests'' = None" "map_of caps ''cs_oauth_clients'' = None"
  by (simp_all add: caps_def)

section \<open>Further look-ups\<close>

definition get_token_record :: "db \<Rightarrow> string \<Rightarrow> pyval option" where
  "get_token_record s token = repo_get s ''api_tokens'' token"

definition save_token :: "db \<Rightarrow> string \<Rightarrow> jobj \<Rightarrow> db" where
  "save_token s token rec = repo_save_raw s ''api_tokens'' token (VDict rec)"

definition list_tokens :: "db \<Rightarrow> pyval list" where
  "list_tokens s = repo_list_all s ''api_tokens''"

text \<open>\<open>token_data["userId"]\<close> raises \<open>KeyError\<close> when the record has none.\<close>

definition get_by_token :: "db \<Rightarrow> string \<Rightarrow> pyval option result" where
  "get_by_token s token =
     (case repo_get s ''api_tokens'' token of
        None \<Rightarrow> Inr None
      | Some v \<Rightarrow>
          (if \<not> truthy v then Inr None
           else case map_of (fields_of v) ''userId'' of
                  None \<Rightarrow> Inl (KeyError ''userId'')
                | Some u \<Rightarrow> Inr (repo_get s ''users'' (py_str u))))"

definition get_by_secret :: "db \<Rightarrow> string \<Rightarrow> string \<Rightarrow> jobj option" where
  "get_by_secret s client_id client_secret =
     (case repo_find s ''cs_oauth_clients'' client_id of
        None \<Rightarrow> None
      | Some c \<Rightarrow> if dict_get c ''client_secret'' = VStr client_secret then Some c else None)"

definition get_by_client_id :: "db \<Rightarrow> string \<Rightarrow> jobj option" where
  "get_by_client_id s client_id = repo_find s ''mde_oauth_clients'' client_id"

definition get_by_key_id :: "db \<Rightarrow> string \<Rightarrow> jobj option" where
  "get_by_key_id s key_id = repo_find s ''xdr_api_keys'' key_id"

definition get_for_tenant :: "db \<Rightarrow> pyval option" where
  "get_for_tenant s = repo_get s ''policies'' ''tenant''"

definition save_for_tenant :: "db \<Rightarrow> pyval \<Rightarrow> db" where
  "save_for_tenant s p = repo_save_raw s ''policies'' ''tenant'' p"

definition get_for_site :: "db \<Rightarrow> string \<Rightarrow> pyval option" where
  "get_for_site s i = repo_get s ''policies'' (''site:'' @ i)"

definition get_for_group :: "db \<Rightarrow> string \<Rightarrow> pyval option" where
  "get_for_group s i = repo_get s ''policies'' (''group:'' @ i)"

definition save_for_site :: "db \<Rightarrow> string \<Rightarrow> pyval \<Rightarrow> db" where
  "save_for_site s i p = repo_save_raw s ''policies'' (''site:'' @ i) p"

definition save_for_group :: "db \<Rightarrow> string \<Rightarrow> pyval \<Rightarrow> db" where
  "save_for_group s i p = repo_save_raw s ''policies'' (''group:'' @ i) p"

text \<open>
  \<open>event_type in sub.eventTypes\<close>. The field is written by \<open>create_webhook\<close> only, whose body the route reads as a list of
  texts (\<open>api/dto/requests.py\<close>), so the other readings of \<open>in\<close> (a text's parts, a dict's keys, the
  \<open>TypeError\<close> of a number) have no record to arise on.
\<close>

definition get_active_for_event :: "db \<Rightarrow> string \<Rightarrow> pyval list" where
  "get_active_for_event s event_type =
     filter (\<lambda>sub. truthy (field_get sub ''active'') \<and>
                   (case field_get sub ''eventTypes'' of VList vs \<Rightarrow> VStr event_type \<in> set vs | _ \<Rightarrow> False))
       (repo_list_all s ''webhook_subscriptions'')"

definition alert_save :: "db \<Rightarrow> jobj \<Rightarrow> db" where
  "alert_save s entity =
     repo_save_raw s ''alerts'' (py_str (field_get (dict_get entity ''alertInfo'') ''alertId'')) (VDict entity)"

definition get_by_incident_id :: "db \<Rightarrow> string \<Rightarrow> pyval list" where
  "get_by_incident_id s i =
     filter (\<lambda>a. field_get a ''incident_id'' = VStr i) (repo_list_all s ''xdr_alerts'')"

definition get_by_site :: "db \<Rightarrow> string \<Rightarrow> pyval list" where
  "get_by_site s i = filter (\<lambda>g. field_get g ''siteId'' = VStr i) (repo_list_all s ''groups'')"

section \<open>Assigning in place\<close>

text \<open>An assignment to a field of a stored object: no save, so nothing is evicted and nobody is notified.\<close>

definition assign_stored :: "db \<Rightarrow> string \<Rightarrow> string \<Rightarrow> jobj \<Rightarrow> db" where
  "assign_stored s c i rec =
     (case coll s c of
        Inl e \<Rightarrow> s
      | Inr records \<Rightarrow> if i \<in> set (dict_keys records) then put_coll s c (AList.update i (VDict rec) records) else s)"

lemma assigned_other: "c \<noteq> c' \<Longrightarrow> repo_get (assign_stored s c' i rec) c j = repo_get s c j"
  by (auto simp: assign_stored_def repo_get_def store_get_def coll_def put_coll_def split: sum.splits option.splits)

lemma store_inv_assigned: "store_inv s \<Longrightarrow> store_inv (assign_stored s c i rec)"
proof (cases "coll s c")
  case (Inr d)
  assume inv: "store_inv s"
  then have "coll_ok c d" "c \<in> set collection_names" using store_inv_coll Inr by blast+
  then show ?thesis using inv Inr
    by (simp add: assign_stored_def coll_ok_def length_update store_inv_put split: option.splits)
qed (simp add: assign_stored_def)

lemma assigned_same:
  assumes "repo_get s c i \<noteq> None"
  shows "repo_get (assign_stored s c i rec) c j = (if j = i then Some (VDict rec) else repo_get s c j)"
proof -
  obtain d where d: "coll s c = Inr d" "i \<in> set (dict_keys d)"
    using assms by (cases "coll s c") (auto simp: repo_get_def store_get_def map_of_eq_None_iff)
  then show ?thesis by (simp add: assign_stored_def repo_get_def store_get_def)
qed

text \<open>A save on a full collection may evict, and never changes another record.\<close>

lemma repo_saved_from:
  assumes "store_inv s" "repo_get (repo_save_raw s c i r) c j = Some v"
  shows "j = i \<and> v = r \<or> repo_get s c j = Some v"
proof (cases "coll s c")
  case (Inl e)
  then show ?thesis using assms(2) by (simp add: repo_save_raw_def store_save_def)
next
  case (Inr d)
  then have wf: "wf_dict d" using store_inv_wf [OF assms(1)] by blast
  have tail: "map_of d j = Some v" if "map_of (tl d) j = Some v"
  proof (cases d)
    case (Cons kv rest)
    then have "j \<noteq> fst kv" using that wf by (metis distinct.simps(2) list.sel(3) list.simps(9) map_of_SomeD fst_conv image_eqI list.set_map)
    then show ?thesis using that Cons by simp
  qed (use that in simp)
  have "map_of d j = Some v" if "map_of (evict c i d) j = Some v"
    using that tail by (simp add: evict_def split: option.splits if_splits)
  then show ?thesis
    using assms(2) Inr by (simp add: repo_save_raw_def store_save_def repo_get_def store_get_def split: if_splits)
qed

end
