(* ===== verification/Py_Base64.thy ===== *)
theory Py_Base64
  imports Py_Val
begin

text \<open>
  What the page tokens use of the standard library: \<open>base64.b64encode\<close>, the lenient
  \<open>base64.b64decode\<close> (characters outside the alphabet are skipped, decoding stops at the padding),
  their URL-safe variants, and \<open>bytes.decode()\<close>, which refuses invalid UTF-8. Text is its UTF-8
  bytes, so decoding valid bytes is the identity.
\<close>

section \<open>UTF-8\<close>

definition utf8_tail :: "nat \<Rightarrow> bool" where
  "utf8_tail b \<longleftrightarrow> 128 \<le> b \<and> b < 192"

text \<open>One code point off the front of a byte string.\<close>

fun utf8_step :: "string \<Rightarrow> (nat \<times> string) option" where
  "utf8_step [] = None"
| "utf8_step (c # cs) =
     (let a = of_char c :: nat
      in if a < 128 then Some (a, cs)
         else case cs of
           [] \<Rightarrow> None
         | c2 # cs2 \<Rightarrow>
             (let b = of_char c2
              in if 194 \<le> a \<and> a < 224
                 then if utf8_tail b then Some ((a - 192) * 64 + (b - 128), cs2) else None
                 else case cs2 of
                   [] \<Rightarrow> None
                 | c3 # cs3 \<Rightarrow>
                     (let d = of_char c3
                      in if 224 \<le> a \<and> a < 240
                         then if utf8_tail b \<and> utf8_tail d \<and> (a = 224 \<longrightarrow> 160 \<le> b) \<and> (a = 237 \<longrightarrow> b < 160)
                              then Some ((a - 224) * 4096 + (b - 128) * 64 + (d - 128), cs3) else None
                         else case cs3 of
                           [] \<Rightarrow> None
                         | c4 # cs4 \<Rightarrow>
                             (let e = of_char c4
                              in if 240 \<le> a \<and> a < 245 \<and> utf8_tail b \<and> utf8_tail d \<and> utf8_tail e \<and>
                                    (a = 240 \<longrightarrow> 144 \<le> b) \<and> (a = 244 \<longrightarrow> b < 144)
                                 then Some ((a - 240) * 262144 + (b - 128) * 4096 + (d - 128) * 64 + (e - 128), cs4)
                                 else None))))"

lemma utf8_step_shorter: "utf8_step s = Some (n, r) \<Longrightarrow> length r < length s"
  by (cases s) (auto simp: Let_def split: if_splits list.splits)

function utf8_points :: "string \<Rightarrow> nat list option" where
  "utf8_points [] = Some []"
| "utf8_points (c # cs) =
     (case utf8_step (c # cs) of
        None \<Rightarrow> None
      | Some (n, r) \<Rightarrow> map_option (\<lambda>ns. n # ns) (utf8_points r))"
  by pat_completeness auto

termination utf8_points
  by (relation "measure length") (auto dest: utf8_step_shorter simp del: utf8_step.simps)

definition utf8_valid :: "string \<Rightarrow> bool" where
  "utf8_valid s \<longleftrightarrow> utf8_points s \<noteq> None"

definition is_ascii :: "string \<Rightarrow> bool" where
  "is_ascii s \<longleftrightarrow> list_all (\<lambda>c. of_char c < (128 :: nat)) s"

lemma utf8_points_ascii: "is_ascii s \<Longrightarrow> utf8_points s = Some (map of_char s)"
  by (induction s) (simp_all add: is_ascii_def)

lemma utf8_valid_ascii [simp]: "is_ascii s \<Longrightarrow> utf8_valid s"
  by (simp add: utf8_valid_def utf8_points_ascii)

lemma is_ascii_append [simp]: "is_ascii (s @ t) \<longleftrightarrow> is_ascii s \<and> is_ascii t"
  by (simp add: is_ascii_def)

lemma is_ascii_digits: "list_all is_digit s \<Longrightarrow> is_ascii s"
  by (auto simp: is_ascii_def list_all_iff is_digit_def)

section \<open>The alphabet\<close>

definition b64_alphabet :: string where
  "b64_alphabet = ''ABCDEFGHIJKLMNOPQRSTUVWXYZabcdefghijklmnopqrstuvwxyz0123456789+/''"

definition b64_char :: "nat \<Rightarrow> char" where
  "b64_char v = b64_alphabet ! v"

definition b64_val :: "char \<Rightarrow> nat option" where
  "b64_val c =
     (let n = of_char c :: nat
      in if 65 \<le> n \<and> n \<le> 90 then Some (n - 65)
         else if 97 \<le> n \<and> n \<le> 122 then Some (n - 71)
         else if 48 \<le> n \<and> n \<le> 57 then Some (n + 4)
         else if n = 43 then Some 62
         else if n = 47 then Some 63
         else None)"

lemma b64_alphabet_vals: "map b64_val b64_alphabet = map Some [0..<64]"
  by code_simp

lemma b64_val_char [simp]: "v < 64 \<Longrightarrow> b64_val (b64_char v) = Some v"
proof -
  assume v: "v < 64"
  have len: "length b64_alphabet = 64" by (simp add: b64_alphabet_def)
  have "map b64_val b64_alphabet ! v = map Some [0..<64] ! v" by (simp only: b64_alphabet_vals)
  then show ?thesis using v len by (simp add: b64_char_def)
qed

lemma b64_char_not_pad [simp]: "v < 64 \<Longrightarrow> b64_char v \<noteq> CHR ''=''"
  using b64_val_char [of v] by (auto simp: b64_val_def)

section \<open>Encoding\<close>

text \<open>\<open>base64.b64encode\<close>, on byte values.\<close>

fun b64_bytes :: "nat list \<Rightarrow> string" where
  "b64_bytes [] = []"
| "b64_bytes [a] = [b64_char (a div 4), b64_char (a mod 4 * 16), CHR ''='', CHR ''='']"
| "b64_bytes [a, b] =
     [b64_char (a div 4), b64_char (a mod 4 * 16 + b div 16), b64_char (b mod 16 * 4), CHR ''='']"
| "b64_bytes (a # b # c # bs) =
     [b64_char (a div 4), b64_char (a mod 4 * 16 + b div 16), b64_char (b mod 16 * 4 + c div 64),
      b64_char (c mod 64)] @ b64_bytes bs"

definition b64encode :: "string \<Rightarrow> string" where
  "b64encode s = b64_bytes (map of_char s)"

text \<open>
  \<open>binascii.a2b_base64\<close> without strict mode: \<open>q\<close> is the position in the quad, \<open>l\<close> the bits left
  over, \<open>p\<close> the pads seen since the last data character. \<open>None\<close> is \<open>binascii.Error\<close>.
\<close>

fun a2b :: "nat \<Rightarrow> nat \<Rightarrow> nat \<Rightarrow> string \<Rightarrow> nat list option" where
  "a2b q l p [] = (if q = 0 then Some [] else None)"
| "a2b q l p (c # cs) =
     (if c = CHR ''='' then
        (if 2 \<le> q \<and> 4 \<le> q + (p + 1) then Some []
         else a2b q l (if 2 \<le> q then p + 1 else p) cs)
      else case b64_val c of
        None \<Rightarrow> a2b q l p cs
      | Some v \<Rightarrow>
          (if q = 0 then a2b 1 v 0 cs
           else if q = 1 then map_option (\<lambda>r. (l * 4 + v div 16) # r) (a2b 2 (v mod 16) 0 cs)
           else if q = 2 then map_option (\<lambda>r. (l * 16 + v div 4) # r) (a2b 3 (v mod 4) 0 cs)
           else map_option (\<lambda>r. (l * 64 + v) # r) (a2b 0 0 0 cs)))"

definition b64decode :: "string \<Rightarrow> string option" where
  "b64decode s = map_option (map char_of) (a2b 0 0 0 s)"

lemma low_digit: "(x :: nat) < n \<Longrightarrow> (m * n + x) div n = m" "x < n \<Longrightarrow> (m * n + x) mod n = x"
  by simp_all

lemma quads:
  fixes a b c :: nat
  shows "b < 256 \<Longrightarrow> a div 4 * 4 + (a mod 4 * 16 + b div 16) div 16 = a"
    "b < 256 \<Longrightarrow> (a mod 4 * 16 + b div 16) mod 16 * 16 + b mod 16 * 4 div 4 = b"
    "b < 256 \<Longrightarrow> c < 256 \<Longrightarrow> (a mod 4 * 16 + b div 16) mod 16 * 16 + (b mod 16 * 4 + c div 64) div 4 = b"
    "c < 256 \<Longrightarrow> (b mod 16 * 4 + c div 64) mod 4 * 64 + c mod 64 = c"
proof -
  have hi: "b div 16 < 16" if "b < 256" using that by auto
  have hi': "c div 64 < 4" if "c < 256" using that by auto
  show "b < 256 \<Longrightarrow> a div 4 * 4 + (a mod 4 * 16 + b div 16) div 16 = a"
    by (simp only: low_digit [OF hi] div_mult_mod_eq)
  show "b < 256 \<Longrightarrow> (a mod 4 * 16 + b div 16) mod 16 * 16 + b mod 16 * 4 div 4 = b"
    using div_mult_mod_eq [of b 16] by (simp add: low_digit [OF hi])
  show "b < 256 \<Longrightarrow> c < 256 \<Longrightarrow> (a mod 4 * 16 + b div 16) mod 16 * 16 + (b mod 16 * 4 + c div 64) div 4 = b"
    using div_mult_mod_eq [of b 16] by (simp only: low_digit [OF hi] low_digit [OF hi'])
  show "c < 256 \<Longrightarrow> (b mod 16 * 4 + c div 64) mod 4 * 64 + c mod 64 = c"
    using div_mult_mod_eq [of c 64] by (simp only: low_digit [OF hi'])
qed

lemma b64_roundtrip_bytes: "\<forall>b \<in> set bs. b < 256 \<Longrightarrow> a2b 0 0 0 (b64_bytes bs) = Some bs"
proof (induction bs rule: b64_bytes.induct)
  case (2 a)
  then have "a div 4 < 64" "a mod 4 * 16 < 64" by auto
  then show ?case by simp
next
  case (3 a b)
  then have "a div 4 < 64" "a mod 4 * 16 + b div 16 < 64" "b mod 16 * 4 < 64" by auto
  moreover have "a div 4 * 4 + (a mod 4 * 16 + b div 16) div 16 = a" using 3 by (intro quads(1)) simp
  moreover have "(a mod 4 * 16 + b div 16) mod 16 * 16 + b mod 16 * 4 div 4 = b" using 3 by (intro quads(2)) simp
  ultimately show ?case by simp
next
  case (4 a b c bs)
  then have v: "a div 4 < 64" "a mod 4 * 16 + b div 16 < 64" "b mod 16 * 4 + c div 64 < 64" "c mod 64 < 64"
    by auto
  moreover have "a div 4 * 4 + (a mod 4 * 16 + b div 16) div 16 = a" using 4 by (intro quads(1)) simp
  moreover have "(a mod 4 * 16 + b div 16) mod 16 * 16 + (b mod 16 * 4 + c div 64) div 4 = b"
    using 4 by (intro quads(3)) simp_all
  moreover have "(b mod 16 * 4 + c div 64) mod 4 * 64 + c mod 64 = c" using 4 by (intro quads(4)) simp
  ultimately show ?case using 4 by simp
qed simp

theorem b64_roundtrip [simp]: "b64decode (b64encode s) = Some s"
proof -
  have "map char_of (map of_char s :: nat list) = s" by (simp add: o_def)
  then show ?thesis by (simp add: b64decode_def b64encode_def b64_roundtrip_bytes)
qed

section \<open>URL-safe tokens without padding\<close>

definition to_urlsafe :: "char \<Rightarrow> char" where
  "to_urlsafe c = (if c = CHR ''+'' then CHR ''-'' else if c = CHR ''/'' then CHR ''_'' else c)"

definition from_urlsafe :: "char \<Rightarrow> char" where
  "from_urlsafe c = (if c = CHR ''-'' then CHR ''+'' else if c = CHR ''_'' then CHR ''/'' else c)"

definition urlsafe_b64encode :: "string \<Rightarrow> string" where
  "urlsafe_b64encode s = map to_urlsafe (b64encode s)"

definition urlsafe_b64decode :: "string \<Rightarrow> string option" where
  "urlsafe_b64decode s = b64decode (map from_urlsafe s)"

text \<open>\<open>token + "=" * (-len(token) % 4)\<close>.\<close>

definition pad4 :: "string \<Rightarrow> string" where
  "pad4 t = t @ replicate (nat ((- int (length t)) mod 4)) CHR ''=''"

lemma four_dvd: "4 dvd Suc (Suc (Suc (Suc 0)))"
  by (simp add: numeral_eq_Suc)

lemma b64_bytes_shape:
  "\<forall>b \<in> set bs. b < 256 \<Longrightarrow>
   \<exists>body k. b64_bytes bs = body @ replicate k CHR ''='' \<and> k < 4 \<and> 4 dvd (length body + k) \<and>
     (\<forall>c \<in> set body. \<exists>v. b64_val c = Some v)"
proof (induction bs rule: b64_bytes.induct)
  case 1
  then show ?case by (intro exI [of _ "[]"] exI [of _ 0]) simp
next
  case (2 a)
  then have v: "a div 4 < 64" "a mod 4 * 16 < 64" by auto
  have "''=='' = replicate 2 CHR ''=''" by (simp add: numeral_2_eq_2)
  then show ?case
    using v four_dvd by (intro exI [of _ "[b64_char (a div 4), b64_char (a mod 4 * 16)]"] exI [of _ 2]) auto
next
  case (3 a b)
  then have v: "a div 4 < 64" "a mod 4 * 16 + b div 16 < 64" "b mod 16 * 4 < 64" by auto
  show ?case
    by (intro exI [of _ "[b64_char (a div 4), b64_char (a mod 4 * 16 + b div 16), b64_char (b mod 16 * 4)]"]
        exI [of _ 1]) (simp add: v four_dvd)
next
  case (4 a b c bs)
  then have v: "a div 4 < 64" "a mod 4 * 16 + b div 16 < 64" "b mod 16 * 4 + c div 64 < 64" "c mod 64 < 64"
    by auto
  from 4 obtain body k where bk: "b64_bytes bs = body @ replicate k CHR ''=''" "k < 4"
    "4 dvd (length body + k)" "\<forall>c \<in> set body. \<exists>v. b64_val c = Some v" by auto
  let ?q = "[b64_char (a div 4), b64_char (a mod 4 * 16 + b div 16), b64_char (b mod 16 * 4 + c div 64),
      b64_char (c mod 64)]"
  have "4 dvd (length (?q @ body) + k)" using bk(3) by simp presburger
  then show ?case using bk v by (intro exI [of _ "?q @ body"] exI [of _ k]) auto
qed

lemma data_char: "b64_val c = Some v \<Longrightarrow> c \<noteq> CHR ''='' \<and> c \<noteq> CHR ''-'' \<and> c \<noteq> CHR ''_''"
  by (auto simp: b64_val_def)

lemma urlsafe_inv: "b64_val c = Some v \<Longrightarrow> from_urlsafe (to_urlsafe c) = c \<and> to_urlsafe c \<noteq> CHR ''=''"
  using data_char [of c v] by (auto simp: from_urlsafe_def to_urlsafe_def)

lemma rstrip_pad:
  "(\<forall>c \<in> set body. c \<noteq> CHR ''='') \<Longrightarrow> rstrip_chars ''='' (body @ replicate k CHR ''='') = body"
proof -
  assume a: "\<forall>c \<in> set body. c \<noteq> CHR ''=''"
  have "dropWhile (\<lambda>c. c \<in> set ''='') (replicate k CHR ''='' @ rev body) = rev body"
  proof (induction k)
    case 0
    have "rev body = [] \<or> hd (rev body) \<in> set body" using hd_in_set [of "rev body"] by auto
    then show ?case using a by (auto simp: dropWhile_eq_self_iff)
  qed simp
  then show ?thesis by (simp add: rstrip_chars_def)
qed

lemma mod4_pad: "k < 4 \<Longrightarrow> 4 dvd (n + k) \<Longrightarrow> nat ((- int n) mod 4) = k"
proof -
  assume a: "k < 4" "4 dvd (n + k)"
  then have "(- int n) mod 4 = int k" by presburger
  then show ?thesis by simp
qed

text \<open>Stripping the padding of a token and putting it back loses nothing.\<close>

lemma urlsafe_roundtrip [simp]:
  "urlsafe_b64decode (pad4 (rstrip_chars ''='' (urlsafe_b64encode s))) = Some s"
proof -
  obtain body k where bk: "b64encode s = body @ replicate k CHR ''=''" "k < 4"
    "4 dvd (length body + k)" "\<forall>c \<in> set body. \<exists>v. b64_val c = Some v"
    using b64_bytes_shape [of "map of_char s"] by (auto simp: b64encode_def)
  have body_ok: "\<forall>c \<in> set (map to_urlsafe body). c \<noteq> CHR ''=''"
    using bk(4) urlsafe_inv by fastforce
  have "to_urlsafe CHR ''='' = CHR ''=''" "from_urlsafe CHR ''='' = CHR ''=''"
    by (simp_all add: to_urlsafe_def from_urlsafe_def)
  then have "rstrip_chars ''='' (urlsafe_b64encode s) = map to_urlsafe body"
    using bk(1) body_ok by (simp add: urlsafe_b64encode_def rstrip_pad)
  moreover have "pad4 (map to_urlsafe body) = map to_urlsafe body @ replicate k CHR ''=''"
    using mod4_pad [OF bk(2,3)] by (simp add: pad4_def)
  moreover have "map from_urlsafe (map to_urlsafe body) = body"
    using bk(4) urlsafe_inv by (simp add: o_def) (intro map_idI, blast)
  ultimately show ?thesis
    using bk(1) \<open>from_urlsafe CHR ''='' = CHR ''=''\<close> b64_roundtrip [of s] by (simp add: urlsafe_b64decode_def)
qed

end
