(* ===== verification/Auth.thy ===== *)
theory Auth
  imports Repository Responses Py_Hash Py_Base64 Py_Format
begin

text \<open>
  Authentication and roles of the SentinelOne, Falcon, Defender and Cortex mounts:
  \<open>src/backend/api/auth.py\<close>, \<open>cs_auth.py\<close>, \<open>mde_auth.py\<close>, \<open>xdr_auth.py\<close>, the Falcon token endpoint
  (\<open>api/routers/cs_auth.py\<close>), \<open>utils/token_expiry.py\<close> and \<open>utils/bearer_challenge.py\<close>. The current
  instant, the trace id and the random token are arguments; the base URL of the request is \<open>None\<close> when there is no
  request.

  Shown here: a Falcon token is honoured from its issue to its expiry and not a microsecond longer,
  a Cortex request is accepted exactly for the key verbatim or its digest, and no viewer passes a
  write check on any mount.
\<close>

section \<open>Shared parts\<close>

definition is_token_expired :: "int \<Rightarrow> jobj \<Rightarrow> string \<Rightarrow> bool" where
  "is_token_expired now rec key =
     (let expires_at = dict_get rec key
      in if \<not> truthy expires_at then True
         else case expires_at of
                VStr s \<Rightarrow> (case strptime_datetime True s of None \<Rightarrow> True | Some expiry \<Rightarrow> expiry < now)
              | _ \<Rightarrow> True)"

text \<open>\<open>str(request.base_url).rstrip("/")\<close>.\<close>

definition challenge_base :: "string option \<Rightarrow> string" where
  "challenge_base base_url = (case base_url of None \<Rightarrow> [] | Some u \<Rightarrow> rstrip_chars ''/'' u)"

definition in_quotes :: "string \<Rightarrow> string" where
  "in_quotes s = [CHR 0x22] @ s @ [CHR 0x22]"

definition challenge_error :: "string \<Rightarrow> string list" where
  "challenge_error description =
     (if description = [] then []
      else [''error='' @ in_quotes ''invalid_token'', ''error_description='' @ in_quotes description])"

definition bearer_challenge :: "string option \<Rightarrow> string \<Rightarrow> string \<Rightarrow> (string \<times> string) list" where
  "bearer_challenge base_url token_path description =
     (let base = challenge_base base_url
      in [(''WWW-Authenticate'',
           join '', '' ([''Bearer realm='' @ in_quotes (if base = [] then ''mockdr'' else base),
                         ''authorization_uri='' @ in_quotes (base @ token_path)] @ challenge_error description))])"

definition GRAPH_APP_ID :: string where
  "GRAPH_APP_ID = ''00000003-0000-0000-c000-000000000000''"

definition graph_bearer_challenge :: "string option \<Rightarrow> string \<Rightarrow> string \<Rightarrow> (string \<times> string) list" where
  "graph_bearer_challenge base_url mount description =
     (let base = challenge_base base_url
      in [(''WWW-Authenticate'',
           join '', '' ([''Bearer realm='' @ in_quotes [],
                         ''authorization_uri='' @ in_quotes (base @ mount @ ''/common/oauth2/authorize''),
                         ''client_id='' @ in_quotes GRAPH_APP_ID] @ challenge_error description))])"

text \<open>\<open>role in ROLES\<close>: a frozen set hashes what it is asked for, which a list or a dictionary refuses.\<close>

definition in_roles :: "pyval \<Rightarrow> string list \<Rightarrow> bool result" where
  "in_roles v roles =
     (case v of
        VStr s \<Rightarrow> Inr (s \<in> set roles)
      | VList vs \<Rightarrow> Inl (TypeError ''unhashable type'')
      | VDict d \<Rightarrow> Inl (TypeError ''unhashable type'')
      | _ \<Rightarrow> Inr False)"

definition require_role :: "string list \<Rightarrow> failure \<Rightarrow> jobj \<Rightarrow> jobj http" where
  "require_role roles refused client =
     (case in_roles (dict_get client ''role'') roles of
        Inl e \<Rightarrow> Inl (Raised e)
      | Inr ok \<Rightarrow> if ok then Inr client else Inl refused)"

section \<open>SentinelOne\<close>

definition s1_error :: "int \<Rightarrow> pyval \<Rightarrow> string \<Rightarrow> pyval" where
  "s1_error num detail title =
     VDict [(''errors'', VList [VDict [(''code'', VInt num), (''detail'', detail), (''title'', VStr title)]])]"

definition UNAUTH :: pyval where
  "UNAUTH = s1_error 4010010 VNone ''Authentication Failed''"

definition EXPIRED :: pyval where
  "EXPIRED = s1_error 4010011 (VStr ''Token has expired'') ''Authentication Failed''"

definition FORBIDDEN :: pyval where
  "FORBIDDEN = s1_error 4030010 VNone ''Insufficient permissions''"

definition WRITE_ROLES :: "string list" where
  "WRITE_ROLES = [''Admin'', ''SOC Analyst'']"

definition ADMIN_ROLES :: "string list" where
  "ADMIN_ROLES = [''Admin'']"

definition require_auth :: "int \<Rightarrow> db \<Rightarrow> string option \<Rightarrow> jobj http" where
  "require_auth now s authorization =
     (case authorization of
        None \<Rightarrow> Inl (HTTPException 401 UNAUTH [])
      | Some a \<Rightarrow>
          (if a = [] \<or> \<not> startswith a ''ApiToken '' then Inl (HTTPException 401 UNAUTH [])
           else case get_token_record s (drop 9 a) of
                  None \<Rightarrow> Inl (HTTPException 401 UNAUTH [])
                | Some v \<Rightarrow>
                    (if \<not> truthy v then Inl (HTTPException 401 UNAUTH [])
                     else if is_token_expired now (fields_of v) ''expiresAt'' then Inl (HTTPException 401 EXPIRED [])
                     else Inr (fields_of v))))"

definition bind_http :: "'a http \<Rightarrow> ('a \<Rightarrow> 'b http) \<Rightarrow> 'b http" where
  "bind_http r f = (case r of Inl e \<Rightarrow> Inl e | Inr x \<Rightarrow> f x)"

definition require_write :: "int \<Rightarrow> db \<Rightarrow> string option \<Rightarrow> jobj http" where
  "require_write now s authorization =
     bind_http (require_auth now s authorization) (require_role WRITE_ROLES (HTTPException 403 FORBIDDEN []))"

definition require_admin :: "int \<Rightarrow> db \<Rightarrow> string option \<Rightarrow> jobj http" where
  "require_admin now s authorization =
     bind_http (require_auth now s authorization) (require_role ADMIN_ROLES (HTTPException 403 FORBIDDEN []))"

section \<open>Falcon\<close>

definition OAUTH_WRITE_ROLES :: "string list" where
  "OAUTH_WRITE_ROLES = [''admin'', ''analyst'']"

definition CS_TOKEN_PATH :: string where
  "CS_TOKEN_PATH = ''/cs/oauth2/token''"

definition cs_denied :: "string \<Rightarrow> string \<Rightarrow> pyval" where
  "cs_denied tid msg = build_cs_error_response tid 401 msg"

definition require_cs_auth :: "string \<Rightarrow> int \<Rightarrow> db \<Rightarrow> string option \<Rightarrow> string option \<Rightarrow> jobj http" where
  "require_cs_auth tid now s base_url authorization =
     (let invalid = ''access denied, invalid bearer token''
      in case authorization of
           None \<Rightarrow> Inl (HTTPException 401 (cs_denied tid invalid) (bearer_challenge base_url CS_TOKEN_PATH []))
         | Some a \<Rightarrow>
             (if a = [] \<or> \<not> startswith (lower a) ''bearer ''
              then Inl (HTTPException 401 (cs_denied tid invalid) (bearer_challenge base_url CS_TOKEN_PATH []))
              else case repo_get s ''cs_oauth_tokens'' (drop 7 a) of
                     None \<Rightarrow> Inl (HTTPException 401 (cs_denied tid invalid) (bearer_challenge base_url CS_TOKEN_PATH invalid))
                   | Some v \<Rightarrow>
                       (if \<not> truthy v
                        then Inl (HTTPException 401 (cs_denied tid invalid) (bearer_challenge base_url CS_TOKEN_PATH invalid))
                        else if is_token_expired now (fields_of v) ''expires_at''
                        then Inl (HTTPException 401 (cs_denied tid ''access denied, token expired'') [])
                        else Inr (fields_of v))))"

definition require_cs_write :: "string \<Rightarrow> int \<Rightarrow> db \<Rightarrow> string option \<Rightarrow> string option \<Rightarrow> jobj http" where
  "require_cs_write tid now s base_url authorization =
     bind_http (require_cs_auth tid now s base_url authorization)
       (require_role OAUTH_WRITE_ROLES
          (HTTPException 403 (build_cs_error_response tid 403 ''access denied, authorization failed'') []))"

definition CS_TOKEN_LIFETIME_SECONDS :: int where
  "CS_TOKEN_LIFETIME_SECONDS = 1799"

definition cs_token_record :: "int \<Rightarrow> string \<Rightarrow> string \<Rightarrow> pyval \<Rightarrow> jobj" where
  "cs_token_record now access_token client_id role =
     [(''access_token'', VStr access_token), (''client_id'', VStr client_id), (''role'', role),
      (''expires_at'', VStr (strftime_us (now + CS_TOKEN_LIFETIME_SECONDS * 1000000)))]"

definition create_token :: "string \<Rightarrow> int \<Rightarrow> string \<Rightarrow> db \<Rightarrow> string \<Rightarrow> string \<Rightarrow> (pyval \<times> db) http" where
  "create_token tid now access_token s client_id client_secret =
     (case get_by_secret s client_id client_secret of
        None \<Rightarrow> Inl (HTTPException 401 (build_cs_error_response tid 401 ''invalid client credentials'') [])
      | Some client \<Rightarrow>
          Inr (VDict [(''access_token'', VStr access_token), (''token_type'', VStr ''bearer''),
                      (''expires_in'', VInt CS_TOKEN_LIFETIME_SECONDS)],
               repo_save_raw s ''cs_oauth_tokens'' access_token
                 (VDict (cs_token_record now access_token client_id (dict_get client ''role'')))))"

section \<open>Defender\<close>

definition MDE_TOKEN_PATH :: string where
  "MDE_TOKEN_PATH = ''/mde/oauth2/v2.0/token''"

definition mde_unauthorized :: "string option \<Rightarrow> string \<Rightarrow> string \<Rightarrow> failure" where
  "mde_unauthorized base_url msg description =
     HTTPException 401 (build_mde_error_response ''Unauthorized'' msg None)
       (bearer_challenge base_url MDE_TOKEN_PATH description)"

definition require_mde_auth :: "int \<Rightarrow> db \<Rightarrow> string option \<Rightarrow> string option \<Rightarrow> jobj http" where
  "require_mde_auth now s base_url authorization =
     (let missing = mde_unauthorized base_url ''Access token is missing or malformed'' [];
          invalid = mde_unauthorized base_url ''Access token is invalid or expired'' ''Access token is invalid or expired''
      in case authorization of
           None \<Rightarrow> Inl missing
         | Some a \<Rightarrow>
             (if a = [] \<or> \<not> startswith (lower a) ''bearer '' then Inl missing
              else case repo_get s ''mde_oauth_tokens'' (drop 7 a) of
                     None \<Rightarrow> Inl invalid
                   | Some v \<Rightarrow>
                       (if \<not> truthy v then Inl invalid
                        else if is_token_expired now (fields_of v) ''expires_at''
                        then Inl (mde_unauthorized base_url ''Access token has expired'' ''Access token has expired'')
                        else Inr (fields_of v))))"

definition require_mde_write :: "int \<Rightarrow> db \<Rightarrow> string option \<Rightarrow> string option \<Rightarrow> jobj http" where
  "require_mde_write now s base_url authorization =
     bind_http (require_mde_auth now s base_url authorization)
       (require_role OAUTH_WRITE_ROLES
          (HTTPException 403 (build_mde_error_response ''Forbidden'' ''Insufficient privileges for this operation'' None) []))"

section \<open>Cortex\<close>

definition XDR_ERR_UNAUTHORIZED :: string where
  "XDR_ERR_UNAUTHORIZED =
     ''Unauthorized access. An issue occurred during authentication. This can indicate an incorrect key, id, or other invalid authentication parameters.''"

text \<open>\<open>hmac.compare_digest\<close> on texts: both have to be ASCII.\<close>

definition compare_digest :: "string \<Rightarrow> string \<Rightarrow> bool result" where
  "compare_digest a b =
     (if is_ascii a \<and> is_ascii b then Inr (a = b)
      else Inl (TypeError ''comparing strings with non-ASCII characters is not supported''))"

definition xdr_unauthorized :: "string \<Rightarrow> failure" where
  "xdr_unauthorized extra = HTTPException 401 (build_xdr_error 401 XDR_ERR_UNAUTHORIZED (Some extra)) []"

definition given :: "string option \<Rightarrow> string" where
  "given h = (case h of None \<Rightarrow> [] | Some v \<Rightarrow> v)"

definition require_xdr_auth ::
  "db \<Rightarrow> string option \<Rightarrow> string option \<Rightarrow> string option \<Rightarrow> string option \<Rightarrow> jobj http" where
  "require_xdr_auth s auth_id nonce timestamp authorization =
     (if given auth_id = [] \<or> given authorization = []
      then Inl (xdr_unauthorized ''Provide x-xdr-auth-id and Authorization; advanced authentication additionally requires x-xdr-nonce and x-xdr-timestamp'')
      else case get_by_key_id s (given auth_id) of
             None \<Rightarrow> Inl (xdr_unauthorized ''Unknown API key id'')
           | Some key_record \<Rightarrow>
               (let secret = py_str (dict_get key_record ''key_secret'')
                in case compare_digest secret (given authorization) of
                     Inl e \<Rightarrow> Inl (Raised e)
                   | Inr True \<Rightarrow> Inr key_record
                   | Inr False \<Rightarrow>
                       (if given nonce = [] \<or> given timestamp = []
                        then Inl (xdr_unauthorized ''Standard authentication requires the API key verbatim in Authorization; advanced authentication additionally requires x-xdr-nonce and x-xdr-timestamp'')
                        else case compare_digest (sha256_hex (secret @ given nonce @ given timestamp)) (given authorization) of
                               Inl e \<Rightarrow> Inl (Raised e)
                             | Inr ok \<Rightarrow> if ok then Inr key_record else Inl (xdr_unauthorized ''Signature mismatch''))))"

definition require_xdr_write ::
  "db \<Rightarrow> string option \<Rightarrow> string option \<Rightarrow> string option \<Rightarrow> string option \<Rightarrow> jobj http" where
  "require_xdr_write s auth_id nonce timestamp authorization =
     bind_http (require_xdr_auth s auth_id nonce timestamp authorization)
       (require_role OAUTH_WRITE_ROLES
          (HTTPException 403 (build_xdr_error 403 ''Insufficient privileges for this operation'' None) []))"

section \<open>What a check that passes means\<close>

text \<open>
  The contract the mounts with stored tokens share: a header passes exactly when it carries a token
  under which the collection holds a record that has not expired, and the answer is that record.
\<close>

definition live_record :: "int \<Rightarrow> db \<Rightarrow> string \<Rightarrow> string \<Rightarrow> string \<Rightarrow> jobj \<Rightarrow> bool" where
  "live_record now s c key token r \<longleftrightarrow> repo_get s c token = Some (VDict r) \<and> \<not> is_token_expired now r key"

locale token_mount =
  fixes check :: "int \<Rightarrow> db \<Rightarrow> string option \<Rightarrow> jobj http"
    and token_of :: "string \<Rightarrow> string option" and c :: string and key :: string
  assumes check_iff:
    "check now s a = Inr r \<longleftrightarrow>
       (\<exists>h token. a = Some h \<and> token_of h = Some token \<and> live_record now s c key token r)"
    and stored: "c \<in> set collection_names"
begin

lemma expired_stays_expired:
  "now \<le> later \<Longrightarrow> is_token_expired now r key \<Longrightarrow> is_token_expired later r key"
  by (auto simp: is_token_expired_def Let_def split: pyval.splits option.splits)

text \<open>A header that passes at some time passes at every earlier time, on the same store.\<close>

lemma passed_before: "check later s a = Inr r \<Longrightarrow> now \<le> later \<Longrightarrow> check now s a = Inr r"
  using expired_stays_expired unfolding check_iff live_record_def by blast

text \<open>A deleted token never passes, whatever the time.\<close>

lemma revoked:
  assumes "store_inv s" "token_of h = Some token"
  shows "check now (fst (repo_delete s c token)) (Some h) \<noteq> Inr r"
  using assms repo_delete_get [OF assms(1) stored, of token c token] unfolding check_iff live_record_def by auto

text \<open>Deleting one token leaves every other one as it was.\<close>

lemma others_kept:
  assumes "store_inv s" "token_of h = Some token" "token \<noteq> other"
  shows "check now (fst (repo_delete s c other)) (Some h) = Inr r \<longleftrightarrow> check now s (Some h) = Inr r"
  using assms repo_delete_get [OF assms(1) stored, of other c token] unfolding check_iff live_record_def by simp

end

lemma expired_empty [simp]: "is_token_expired now [] key"
  by (simp add: is_token_expired_def Let_def)

lemma live_iff:
  "(case repo_get s c token of
      None \<Rightarrow> Inl e1
    | Some v \<Rightarrow> if \<not> truthy v then Inl e2 else if is_token_expired now (fields_of v) key then Inl e3 else Inr (fields_of v))
     = Inr r \<longleftrightarrow> live_record now s c key token r"
  by (auto simp: live_record_def fields_of_def split: option.splits pyval.splits)

definition s1_token_of :: "string \<Rightarrow> string option" where
  "s1_token_of h = (if startswith h ''ApiToken '' then Some (drop 9 h) else None)"

definition bearer_token_of :: "string \<Rightarrow> string option" where
  "bearer_token_of h = (if startswith (lower h) ''bearer '' then Some (drop 7 h) else None)"

lemma startswith_ne: "startswith h (c # p) \<Longrightarrow> h \<noteq> []"
  by (auto simp: startswith_def)

lemma bearer_ne: "startswith (lower h) (c # p) \<Longrightarrow> h \<noteq> []"
  by (auto simp: startswith_def lower_def)

interpretation s1_mount: token_mount require_auth s1_token_of "''api_tokens''" "''expiresAt''"
proof
  fix now s a r
  show "require_auth now s a = Inr r \<longleftrightarrow>
      (\<exists>h token. a = Some h \<and> s1_token_of h = Some token \<and> live_record now s ''api_tokens'' ''expiresAt'' token r)"
    by (cases a) (auto simp: live_iff require_auth_def s1_token_of_def get_token_record_def dest: startswith_ne)
qed simp

interpretation cs_mount: token_mount "\<lambda>now s. require_cs_auth tid now s base" bearer_token_of
  "''cs_oauth_tokens''" "''expires_at''" for tid base
proof
  fix now s a r
  show "require_cs_auth tid now s base a = Inr r \<longleftrightarrow>
      (\<exists>h token. a = Some h \<and> bearer_token_of h = Some token \<and> live_record now s ''cs_oauth_tokens'' ''expires_at'' token r)"
    by (cases a) (auto simp: live_iff require_cs_auth_def bearer_token_of_def Let_def dest: bearer_ne)
qed simp

interpretation mde_mount: token_mount "\<lambda>now s. require_mde_auth now s base" bearer_token_of
  "''mde_oauth_tokens''" "''expires_at''" for base
proof
  fix now s a r
  show "require_mde_auth now s base a = Inr r \<longleftrightarrow>
      (\<exists>h token. a = Some h \<and> bearer_token_of h = Some token \<and> live_record now s ''mde_oauth_tokens'' ''expires_at'' token r)"
    by (cases a) (auto simp: live_iff require_mde_auth_def bearer_token_of_def Let_def dest: bearer_ne)
qed simp

text \<open>
  On the SentinelOne, Falcon and Defender mounts alike, a token that was deleted is refused from
  then on, whoever presents it and at whatever time, and a header that is refused because its token ran out
  is refused at every later time as well: a credential never comes back to life.
\<close>

theorem tokens_never_revive:
  assumes "store_inv s" "now \<le> later"
  shows "(s1_token_of h = Some t \<longrightarrow> require_auth later (fst (repo_delete s ''api_tokens'' t)) (Some h) \<noteq> Inr r) \<and>
    (bearer_token_of h = Some t \<longrightarrow>
      require_cs_auth tid later (fst (repo_delete s ''cs_oauth_tokens'' t)) base (Some h) \<noteq> Inr r \<and>
      require_mde_auth later (fst (repo_delete s ''mde_oauth_tokens'' t)) base (Some h) \<noteq> Inr r) \<and>
    (require_auth now s a \<noteq> Inr r \<longrightarrow> require_auth later s a \<noteq> Inr r) \<and>
    (require_cs_auth tid now s base a \<noteq> Inr r \<longrightarrow> require_cs_auth tid later s base a \<noteq> Inr r) \<and>
    (require_mde_auth now s base a \<noteq> Inr r \<longrightarrow> require_mde_auth later s base a \<noteq> Inr r)"
proof (intro conjI impI)
  show "require_auth later (fst (repo_delete s ''api_tokens'' t)) (Some h) \<noteq> Inr r" if "s1_token_of h = Some t"
    using s1_mount.revoked [OF assms(1) that] .
  show "require_cs_auth tid later (fst (repo_delete s ''cs_oauth_tokens'' t)) base (Some h) \<noteq> Inr r"
    if "bearer_token_of h = Some t"
    using cs_mount.revoked [OF assms(1) that] .
  show "require_mde_auth later (fst (repo_delete s ''mde_oauth_tokens'' t)) base (Some h) \<noteq> Inr r"
    if "bearer_token_of h = Some t"
    using mde_mount.revoked [OF assms(1) that] .
  show "require_auth later s a \<noteq> Inr r" if "require_auth now s a \<noteq> Inr r"
    using that s1_mount.passed_before [OF _ assms(2)] by metis
  show "require_cs_auth tid later s base a \<noteq> Inr r" if "require_cs_auth tid now s base a \<noteq> Inr r"
    using that cs_mount.passed_before [OF _ assms(2)] by metis
  show "require_mde_auth later s base a \<noteq> Inr r" if "require_mde_auth now s base a \<noteq> Inr r"
    using that mde_mount.passed_before [OF _ assms(2)] by metis
qed

theorem tokens_never_revive_witness:
  "require_auth 5 (fst (repo_delete init_store ''api_tokens'' ''t'')) (Some ''ApiToken t'') \<noteq> Inr []"
proof -
  have "s1_token_of ''ApiToken t'' = Some ''t''" by code_simp
  then show ?thesis
    using tokens_never_revive [OF store_inv_init, of 5 5 "''ApiToken t''" "''t''" "[]" "[]" None None] by simp
qed

text \<open>
  C8. The life of a Falcon token: with the credentials of a stored client the endpoint answers
  201 with a token that from then on authenticates, as the client and with the client's role, at every
  instant up to 1799 seconds after its issue, and at no later one, as long as the
  store keeps the record; a later request is told that the token expired.
\<close>

theorem falcon_token_lifetime:
  assumes "store_inv s" "get_by_secret s client_id client_secret = Some client"
    and "365000 * day_micros \<le> now" "now + 1799000000 < max_ordinal * day_micros"
  shows "\<exists>body s'. create_token tid now token s client_id client_secret = Inr (body, s') \<and> store_inv s' \<and>
    field_get body ''access_token'' = VStr token \<and>
    (\<forall>s2 later. repo_get s2 ''cs_oauth_tokens'' token = repo_get s' ''cs_oauth_tokens'' token \<longrightarrow>
      require_cs_auth tid later s2 base (Some (''Bearer '' @ token)) =
        (if later \<le> now + 1799000000
         then Inr (cs_token_record now token client_id (dict_get client ''role''))
         else Inl (HTTPException 401 (build_cs_error_response tid 401 ''access denied, token expired'') [])))"
proof -
  let ?r = "cs_token_record now token client_id (dict_get client ''role'')"
  let ?s = "repo_save_raw s ''cs_oauth_tokens'' token (VDict ?r)"
  have saved: "repo_get ?s ''cs_oauth_tokens'' token = Some (VDict ?r)" using assms(1) by (simp add: repo_save_same)
  have stamp: "dict_get ?r ''expires_at'' = VStr (strftime_us (now + 1799000000))"
    by (simp add: cs_token_record_def CS_TOKEN_LIFETIME_SECONDS_def)
  have ne: "strftime_us t \<noteq> []" for t by (simp add: strftime_us_def)
  have "strptime_datetime True (strftime_us (now + 1799000000)) = Some (now + 1799000000)"
    using assms(3,4) by (intro strptime_strftime_us) simp_all
  then have expired: "is_token_expired later ?r ''expires_at'' \<longleftrightarrow> now + 1799000000 < later" for later
    unfolding is_token_expired_def stamp using ne by (simp add: Let_def)
  have r: "?r \<noteq> []" by (simp add: cs_token_record_def)
  have pre: "startswith (lower (''Bearer '' @ token)) ''bearer ''"
  proof -
    have "lower (''Bearer '' @ token) = lower ''Bearer '' @ lower token" by (simp add: lower_def)
    also have "lower ''Bearer '' = ''bearer ''" by code_simp
    finally show ?thesis by (simp add: startswith_def)
  qed
  have "require_cs_auth tid later s2 base (Some (''Bearer '' @ token)) =
      (if later \<le> now + 1799000000 then Inr ?r
       else Inl (HTTPException 401 (build_cs_error_response tid 401 ''access denied, token expired'') []))"
    if "repo_get s2 ''cs_oauth_tokens'' token = Some (VDict ?r)" for s2 later
    using that pre expired [of later] r by (simp add: require_cs_auth_def cs_denied_def fields_of_def Let_def)
  then show ?thesis
    using assms(1,2) saved by (auto simp: create_token_def CS_TOKEN_LIFETIME_SECONDS_def)
qed

section \<open>Write access\<close>

lemma require_role_iff:
  "require_role roles e c = Inr r \<longleftrightarrow> r = c \<and> (\<exists>x \<in> set roles. dict_get c ''role'' = VStr x)"
  by (auto simp: require_role_def in_roles_def split: pyval.splits)

lemma bind_http_Inr: "bind_http m f = Inr y \<longleftrightarrow> (\<exists>x. m = Inr x \<and> f x = Inr y)"
  by (auto simp: bind_http_def split: sum.splits)

lemma compare_digest_Inr: "compare_digest a b = Inr x \<longleftrightarrow> is_ascii a \<and> is_ascii b \<and> x = (a = b)"
  by (auto simp: compare_digest_def)

lemma be_bytes_small: "b \<in> set (be_bytes w) \<Longrightarrow> unat b < 256"
proof -
  assume "b \<in> set (be_bytes w)"
  then obtain x where "b = x AND 0xFF" by (auto simp: be_bytes_def)
  then have "b \<le> 0xFF" by (simp add: word_and_le1)
  then show ?thesis by (simp add: word_le_nat_alt)
qed

lemma hex_byte_ascii: "unat b < 256 \<Longrightarrow> list_all (\<lambda>c. code c < 128) (hex_byte b)"
proof -
  assume "unat b < 256"
  then have "unat b div 16 < 16" by simp
  moreover have "unat b mod 16 < 41" by (rule less_trans [of _ 16]) simp_all
  ultimately show ?thesis by (simp add: hex_byte_def Let_def)
qed

lemma sha256_ascii [simp]: "is_ascii (sha256_hex m)"
  using hex_byte_ascii be_bytes_small
  by (fastforce simp: is_ascii_def list_all_iff sha256_hex_def hex_bytes_def)

text \<open>What a Cortex caller shows: the key itself, or its digest over a nonce and a timestamp.\<close>

definition key_shown :: "jobj \<Rightarrow> string \<Rightarrow> string \<Rightarrow> string \<Rightarrow> bool" where
  "key_shown key_record nonce timestamp h \<longleftrightarrow>
     (let secret = py_str (dict_get key_record ''key_secret'')
      in is_ascii secret \<and> is_ascii h \<and>
         (h = secret \<or> nonce \<noteq> [] \<and> timestamp \<noteq> [] \<and> h = sha256_hex (secret @ nonce @ timestamp)))"

lemma xdr_auth_iff:
  "require_xdr_auth s i n t a = Inr r \<longleftrightarrow>
     given i \<noteq> [] \<and> given a \<noteq> [] \<and> get_by_key_id s (given i) = Some r \<and> key_shown r (given n) (given t) (given a)"
proof (cases "given i = [] \<or> given a = []")
  case True
  then show ?thesis by (auto simp: require_xdr_auth_def)
next
  case False
  show ?thesis
  proof (cases "get_by_key_id s (given i)")
    case None
    then show ?thesis using False by (simp add: require_xdr_auth_def)
  next
    case (Some k)
    let ?k = "py_str (dict_get k ''key_secret'')"
    show ?thesis
    proof (cases "is_ascii ?k \<and> is_ascii (given a)")
      case False
      then have "compare_digest ?k (given a) = Inl (TypeError ''comparing strings with non-ASCII characters is not supported'')"
        by (auto simp: compare_digest_def)
      then show ?thesis using \<open>\<not> (given i = [] \<or> given a = [])\<close> Some False
        by (auto simp: require_xdr_auth_def key_shown_def Let_def)
    next
      case True
      then have "compare_digest ?k (given a) = Inr (?k = given a)"
        "compare_digest (sha256_hex (?k @ given n @ given t)) (given a) = Inr (sha256_hex (?k @ given n @ given t) = given a)"
        by (simp_all add: compare_digest_def)
      then show ?thesis using False Some True
        by (cases "?k = given a") (auto simp: require_xdr_auth_def key_shown_def Let_def)
    qed
  qed
qed

text \<open>
  C9. Who may write: on each of the four mounts the write check passes exactly for a caller who shows a stored credential that
  has not expired, and whose stored role is one of the two writing roles of that mount; the answer is the stored
  record. A Cortex caller shows the secret of the key it names, or the SHA-256 digest of the secret, a nonce and
  a timestamp. In particular no viewer, and no unknown role, gets past it.
\<close>

theorem write_access_sound:
  "(require_write now s a = Inr r \<longleftrightarrow>
      (\<exists>h t. a = Some h \<and> s1_token_of h = Some t \<and> live_record now s ''api_tokens'' ''expiresAt'' t r) \<and>
      dict_get r ''role'' \<in> {VStr ''Admin'', VStr ''SOC Analyst''}) \<and>
   (require_cs_write tid now s base a = Inr r \<longleftrightarrow>
      (\<exists>h t. a = Some h \<and> bearer_token_of h = Some t \<and> live_record now s ''cs_oauth_tokens'' ''expires_at'' t r) \<and>
      dict_get r ''role'' \<in> {VStr ''admin'', VStr ''analyst''}) \<and>
   (require_mde_write now s base a = Inr r \<longleftrightarrow>
      (\<exists>h t. a = Some h \<and> bearer_token_of h = Some t \<and> live_record now s ''mde_oauth_tokens'' ''expires_at'' t r) \<and>
      dict_get r ''role'' \<in> {VStr ''admin'', VStr ''analyst''}) \<and>
   (require_xdr_write s i n ts a = Inr r \<longleftrightarrow>
      given i \<noteq> [] \<and> given a \<noteq> [] \<and> get_by_key_id s (given i) = Some r \<and> key_shown r (given n) (given ts) (given a) \<and>
      dict_get r ''role'' \<in> {VStr ''admin'', VStr ''analyst''})"
proof -
  have 1: "require_write now s a = Inr r \<longleftrightarrow> require_auth now s a = Inr r \<and> dict_get r ''role'' \<in> {VStr ''Admin'', VStr ''SOC Analyst''}"
    by (auto simp: require_write_def bind_http_Inr require_role_iff WRITE_ROLES_def)
  have 2: "require_cs_write tid now s base a = Inr r \<longleftrightarrow>
      require_cs_auth tid now s base a = Inr r \<and> dict_get r ''role'' \<in> {VStr ''admin'', VStr ''analyst''}"
    by (auto simp: require_cs_write_def bind_http_Inr require_role_iff OAUTH_WRITE_ROLES_def)
  have 3: "require_mde_write now s base a = Inr r \<longleftrightarrow>
      require_mde_auth now s base a = Inr r \<and> dict_get r ''role'' \<in> {VStr ''admin'', VStr ''analyst''}"
    by (auto simp: require_mde_write_def bind_http_Inr require_role_iff OAUTH_WRITE_ROLES_def)
  have 4: "require_xdr_write s i n ts a = Inr r \<longleftrightarrow>
      require_xdr_auth s i n ts a = Inr r \<and> dict_get r ''role'' \<in> {VStr ''admin'', VStr ''analyst''}"
    by (auto simp: require_xdr_write_def bind_http_Inr require_role_iff OAUTH_WRITE_ROLES_def)
  show ?thesis
    unfolding 1 2 3 4 s1_mount.check_iff cs_mount.check_iff mde_mount.check_iff xdr_auth_iff by (simp add: conj_assoc)
qed

definition demo_client_db :: db where
  "demo_client_db = repo_save_raw init_store ''cs_oauth_clients'' ''cid''
     (VDict [(''client_id'', VStr ''cid''), (''client_secret'', VStr ''sec''), (''role'', VStr ''analyst'')])"

lemma demo_client: "store_inv demo_client_db"
  "get_by_secret demo_client_db ''cid'' ''sec'' =
     Some [(''client_id'', VStr ''cid''), (''client_secret'', VStr ''sec''), (''role'', VStr ''analyst'')]"
  by (simp_all add: demo_client_db_def get_by_secret_def repo_find_def fields_of_def repo_save_same store_inv_init)

theorem falcon_token_lifetime_witness:
  "\<exists>body s'. create_token [] 63840009600000000 ''tok'' demo_client_db ''cid'' ''sec'' = Inr (body, s') \<and>
     require_cs_auth [] 63840009601000000 s' None (Some ''Bearer tok'') =
       Inr (cs_token_record 63840009600000000 ''tok'' ''cid'' (VStr ''analyst''))"
proof -
  have "365000 * day_micros \<le> 63840009600000000" "63840009600000000 + 1799000000 < max_ordinal * day_micros"
    by (simp_all add: day_micros_def max_ordinal_def)
  from falcon_token_lifetime [OF demo_client this, of "[]" "''tok''" None] obtain body s' where
    "create_token [] 63840009600000000 ''tok'' demo_client_db ''cid'' ''sec'' = Inr (body, s')"
    "require_cs_auth [] 63840009601000000 s' None (Some (''Bearer '' @ ''tok'')) =
       Inr (cs_token_record 63840009600000000 ''tok'' ''cid'' (VStr ''analyst''))"
    by auto
  then show ?thesis by (intro exI) simp
qed

definition demo_token_db :: db where
  "demo_token_db = repo_save_raw init_store ''api_tokens'' ''t''
     (VDict [(''role'', VStr ''Admin''), (''expiresAt'', VStr ''2030-01-01T00:00:00.000Z'')])"

definition demo_key_db :: db where
  "demo_key_db = repo_save_raw init_store ''xdr_api_keys'' ''1''
     (VDict [(''key_id'', VStr ''1''), (''key_secret'', VStr ''k''), (''role'', VStr ''analyst'')])"

lemma demo_key:
  "get_by_key_id demo_key_db ''1'' = Some [(''key_id'', VStr ''1''), (''key_secret'', VStr ''k''), (''role'', VStr ''analyst'')]"
  by (simp add: get_by_key_id_def repo_find_def fields_of_def demo_key_db_def repo_save_same store_inv_init)

text \<open>An administrator's token and an analyst's key pass, the key also by its digest; another secret does not.\<close>

theorem write_access_sound_witness:
  "require_write 63840009600000000 demo_token_db (Some ''ApiToken t'') =
     Inr [(''role'', VStr ''Admin''), (''expiresAt'', VStr ''2030-01-01T00:00:00.000Z'')] \<and>
   require_xdr_write demo_key_db (Some ''1'') None None (Some ''k'') =
     Inr [(''key_id'', VStr ''1''), (''key_secret'', VStr ''k''), (''role'', VStr ''analyst'')] \<and>
   require_xdr_write demo_key_db (Some ''1'') (Some ''n'') (Some ''5'') (Some (sha256_hex ''kn5'')) =
     Inr [(''key_id'', VStr ''1''), (''key_secret'', VStr ''k''), (''role'', VStr ''analyst'')] \<and>
   require_xdr_write demo_key_db (Some ''1'') None None (Some ''other'') \<noteq>
     Inr [(''key_id'', VStr ''1''), (''key_secret'', VStr ''k''), (''role'', VStr ''analyst'')]"
proof -
  let ?r = "[(''role'', VStr ''Admin''), (''expiresAt'', VStr ''2030-01-01T00:00:00.000Z'')]"
    and ?k = "[(''key_id'', VStr ''1''), (''key_secret'', VStr ''k''), (''role'', VStr ''analyst'')]"
  have "repo_get demo_token_db ''api_tokens'' ''t'' = Some (VDict ?r)"
    by (simp add: demo_token_db_def repo_save_same store_inv_init)
  moreover have "strptime_datetime True ''2030-01-01T00:00:00.000Z'' = Some 64029052800000000" by code_simp
  ultimately have live: "live_record 63840009600000000 demo_token_db ''api_tokens'' ''expiresAt'' ''t'' ?r"
    by (simp add: live_record_def is_token_expired_def Let_def)
  have hex: "sha256_hex ''kn5'' \<noteq> []" using length_sha256_hex [of "''kn5''"] by (metis list.size(3) zero_neq_numeral)
  have k: "is_ascii ''k''" by (simp add: is_ascii_def)
  have shown: "key_shown ?k [] [] ''k''" "key_shown ?k ''n'' ''5'' (sha256_hex ''kn5'')" "\<not> key_shown ?k [] [] ''other''"
    by (simp_all add: key_shown_def k)
  have "s1_token_of ''ApiToken t'' = Some ''t''" by code_simp
  then have "require_write 63840009600000000 demo_token_db (Some ''ApiToken t'') = Inr ?r"
    using live write_access_sound [of 63840009600000000 demo_token_db "Some ''ApiToken t''" ?r] by auto
  moreover have "require_xdr_write demo_key_db (Some ''1'') None None (Some ''k'') = Inr ?k"
    using shown(1) demo_key write_access_sound [of 0 demo_key_db "Some ''k''" ?k "[]" None "Some ''1''" None None] by (simp add: given_def)
  moreover have "require_xdr_write demo_key_db (Some ''1'') (Some ''n'') (Some ''5'') (Some (sha256_hex ''kn5'')) = Inr ?k"
    using shown(2) hex demo_key write_access_sound [of 0 demo_key_db "Some (sha256_hex ''kn5'')" ?k "[]" None "Some ''1''" "Some ''n''" "Some ''5''"]
    by (simp add: given_def)
  moreover have "require_xdr_write demo_key_db (Some ''1'') None None (Some ''other'') \<noteq> Inr ?k"
    using shown(3) write_access_sound [of 0 demo_key_db "Some ''other''" ?k "[]" None "Some ''1''" None None]
    by (simp add: given_def)
  ultimately show ?thesis by blast
qed

section \<open>Cortex keys\<close>

text \<open>
  Who a Cortex request is let in as: for a stored key with an ASCII secret, a request with that
  key id and an ASCII \<open>Authorization\<close> header is accepted exactly when the header is the secret itself,
  or when a nonce and a timestamp come with it and the header is the SHA-256 digest of
  secret, nonce and timestamp; the record returned is that key's.
\<close>

theorem xdr_auth_exact:
  assumes "get_by_key_id s i = Some k" "i \<noteq> []" "h \<noteq> []"
    and "is_ascii (py_str (dict_get k ''key_secret''))" "is_ascii h"
  shows "require_xdr_auth s (Some i) nonce ts (Some h) = Inr r \<longleftrightarrow>
    r = k \<and> (h = py_str (dict_get k ''key_secret'') \<or>
      given nonce \<noteq> [] \<and> given ts \<noteq> [] \<and>
      h = sha256_hex (py_str (dict_get k ''key_secret'') @ given nonce @ given ts))"
  using assms unfolding xdr_auth_iff key_shown_def Let_def given_def by auto

theorem xdr_auth_exact_witness:
  "require_xdr_auth demo_key_db (Some ''1'') None None (Some ''k'') =
     Inr [(''key_id'', VStr ''1''), (''key_secret'', VStr ''k''), (''role'', VStr ''analyst'')]"
  using xdr_auth_exact [OF demo_key, of "''k''" None None] by (simp add: is_ascii_def)

text \<open>A header that is not ASCII is not refused: the comparison raises.\<close>

theorem xdr_auth_non_ascii_raises:
  assumes "get_by_key_id s i = Some k" "i \<noteq> []" "h \<noteq> []" "\<not> is_ascii h"
  shows "\<exists>e. require_xdr_auth s (Some i) nonce ts (Some h) = Inl (Raised e)"
  using assms by (simp add: require_xdr_auth_def given_def compare_digest_def Let_def)

end
