(* ===== verification/Dev_State.thy ===== *)
theory Dev_State
  imports Repository
begin

text \<open>
  The two operations that replace the whole store, \<open>reset\<close> and \<open>_import_state_locked\<close> of
  \<open>src/backend/application/dev/commands.py\<close>. Both carry the credentials the instance has issued over to the new
  state: a reset puts them back over the seed, an import only where the snapshot carries none. The new
  state itself, which the seeders or the loader of the snapshot build, is an argument: nothing is assumed of it
  here. What \<open>reset\<close> forgets beside the store (acks, the delivery log, faults, the playbook) is state of other
  components.
\<close>

section \<open>The credentials that stay\<close>

definition PRESERVED_ACROSS_RESET :: "string list" where
  "PRESERVED_ACROSS_RESET =
     [''cs_oauth_tokens'', ''mde_oauth_tokens'', ''graph_oauth_tokens'', ''sentinel_oauth_tokens'',
      ''splunk_sessions'', ''es_tokens'', ''es_refresh_tokens'']"

definition PRESERVED_ACROSS_IMPORT :: "string list" where
  "PRESERVED_ACROSS_IMPORT = ''api_tokens'' # PRESERVED_ACROSS_RESET"

definition get_all_with_keys :: "db \<Rightarrow> string \<Rightarrow> (string, pyval) dict" where
  "get_all_with_keys s c = (case store_get_all_with_keys s c of Inl e \<Rightarrow> [] | Inr d \<Rightarrow> d)"

text \<open>\<open>{name: store.get_all_with_keys(name) for name in ...}\<close>, taken before the store is replaced.\<close>

definition issued_by :: "string list \<Rightarrow> db \<Rightarrow> (string \<times> (string, pyval) dict) list" where
  "issued_by names s = map (\<lambda>name. (name, get_all_with_keys s name)) names"

text \<open>\<open>store.get(name, key) is None\<close>: no record, or a stored null.\<close>

definition lacks :: "db \<Rightarrow> string \<Rightarrow> string \<Rightarrow> bool" where
  "lacks s c key \<longleftrightarrow> (case repo_get s c key of None \<Rightarrow> True | Some v \<Rightarrow> v = VNone)"

definition save_absent :: "string \<Rightarrow> string \<times> pyval \<Rightarrow> db \<Rightarrow> db" where
  "save_absent c entry s = (if lacks s c (fst entry) then repo_save_raw s c (fst entry) (snd entry) else s)"

definition save_over :: "string \<Rightarrow> string \<times> pyval \<Rightarrow> db \<Rightarrow> db" where
  "save_over c entry s = repo_save_raw s c (fst entry) (snd entry)"

definition import_state_locked :: "db \<Rightarrow> db \<Rightarrow> db" where
  "import_state_locked loaded s =
     fold (\<lambda>(name, entries). fold (save_absent name) entries) (issued_by PRESERVED_ACROSS_IMPORT s) loaded"

text \<open>\<open>swept\<close> is the store after the sweep a reset begins with, \<open>generated\<close> the store \<open>generate_all\<close> leaves.\<close>

definition reset_state :: "db \<Rightarrow> db \<Rightarrow> db" where
  "reset_state generated swept =
     fold (\<lambda>(name, entries). fold (save_over name) entries) (issued_by PRESERVED_ACROSS_RESET swept) generated"

section \<open>What is stored afterwards\<close>

lemma store_inv_put_back:
  assumes "\<And>e t. store_inv t \<Longrightarrow> store_inv (f e t)" "store_inv t"
  shows "store_inv (fold f es t)"
  using assms(2) by (induction es arbitrary: t) (simp_all add: assms(1))

lemma put_back_other:
  assumes "\<And>e t. repo_get (f e t) c j = repo_get t c j"
  shows "repo_get (fold f es t) c j = repo_get t c j"
  by (induction es arbitrary: t) (simp_all add: assms)

lemma save_absent_get:
  assumes "store_inv t" "c \<in> set collection_names" "map_of caps c = None"
  shows "repo_get (save_absent c e t) c j = (if j = fst e \<and> lacks t c j then Some (snd e) else repo_get t c j)"
  using assms by (auto simp: save_absent_def repo_save_uncapped)

lemma save_absent_other: "c \<noteq> c' \<Longrightarrow> repo_get (save_absent c' e t) c j = repo_get t c j"
  by (simp add: save_absent_def repo_save_other)

lemma save_over_other: "c \<noteq> c' \<Longrightarrow> repo_get (save_over c' e t) c j = repo_get t c j"
  by (simp add: save_over_def repo_save_other)

lemma store_inv_save_absent: "store_inv t \<Longrightarrow> store_inv (save_absent c e t)"
  by (simp add: save_absent_def)

lemma store_inv_save_over: "store_inv t \<Longrightarrow> store_inv (save_over c e t)"
  by (simp add: save_over_def)

lemma absent_put_back:
  assumes "store_inv t" "c \<in> set collection_names" "map_of caps c = None" "distinct (map fst es)"
  shows "repo_get (fold (save_absent c) es t) c j =
    (case map_of es j of None \<Rightarrow> repo_get t c j | Some v \<Rightarrow> if lacks t c j then Some v else repo_get t c j)"
  using assms(1,4)
proof (induction es arbitrary: t)
  case (Cons e es)
  have IH: "repo_get (fold (save_absent c) es (save_absent c e t)) c j =
    (case map_of es j of None \<Rightarrow> repo_get (save_absent c e t) c j
     | Some v \<Rightarrow> if lacks (save_absent c e t) c j then Some v else repo_get (save_absent c e t) c j)"
    using Cons by (simp add: store_inv_save_absent)
  note get = save_absent_get [OF Cons.prems(1) assms(2,3), of e j]
  show ?case
  proof (cases "j = fst e")
    case True
    then have "map_of es j = None" using Cons.prems(2) by (simp add: map_of_eq_None_iff)
    then show ?thesis using IH get True by (cases e) simp
  next
    case False
    have "repo_get (save_absent c e t) c j = repo_get t c j" "map_of (e # es) j = map_of es j"
      using get False by (simp, cases e) simp
    then show ?thesis using IH by (simp add: lacks_def del: map_of.simps split: option.split)
  qed
qed simp

lemma keys_distinct: "store_inv s \<Longrightarrow> distinct (map fst (get_all_with_keys s c))"
  using store_inv_wf [of s c] by (cases "coll s c") (auto simp: get_all_with_keys_def store_get_all_with_keys_def)

lemma keyed_entry: "map_of (get_all_with_keys s c) j = repo_get s c j"
  by (cases "coll s c") (auto simp: get_all_with_keys_def store_get_all_with_keys_def repo_get_def store_get_def)

lemma restored_other:
  assumes "c \<notin> set names" "\<And>c' e t. c \<noteq> c' \<Longrightarrow> repo_get (f c' e t) c j = repo_get t c j"
  shows "repo_get (fold (\<lambda>(name, entries). fold (f name) entries) (issued_by names s) t) c j = repo_get t c j"
  using assms(1)
proof (induction names arbitrary: t)
  case (Cons n ns)
  then have "repo_get (fold (f n) (get_all_with_keys s n) t) c j = repo_get t c j"
    by (intro put_back_other assms(2)) auto
  then show ?case using Cons by (simp add: issued_by_def)
qed (simp add: issued_by_def)

lemma restored_inv:
  assumes "\<And>c e t. store_inv t \<Longrightarrow> store_inv (f c e t)" "store_inv t"
  shows "store_inv (fold (\<lambda>(name, entries). fold (f name) entries) (issued_by names s) t)"
  using assms(2) by (induction names arbitrary: t) (simp_all add: issued_by_def store_inv_put_back assms(1))

lemma import_get:
  assumes "store_inv loaded" "store_inv s"
  shows "store_inv (import_state_locked loaded s)"
    and "c \<notin> set PRESERVED_ACROSS_IMPORT \<Longrightarrow> repo_get (import_state_locked loaded s) c j = repo_get loaded c j"
    and "repo_get (import_state_locked loaded s) ''api_tokens'' j =
      (case repo_get s ''api_tokens'' j of None \<Rightarrow> repo_get loaded ''api_tokens'' j
       | Some v \<Rightarrow> if lacks loaded ''api_tokens'' j then Some v else repo_get loaded ''api_tokens'' j)"
proof -
  show "store_inv (import_state_locked loaded s)"
    unfolding import_state_locked_def using assms(1) by (intro restored_inv store_inv_save_absent)
  show "c \<notin> set PRESERVED_ACROSS_IMPORT \<Longrightarrow> repo_get (import_state_locked loaded s) c j = repo_get loaded c j"
    unfolding import_state_locked_def by (intro restored_other save_absent_other)
  let ?t = "fold (save_absent ''api_tokens'') (get_all_with_keys s ''api_tokens'') loaded"
  have split: "import_state_locked loaded s =
      fold (\<lambda>(name, entries). fold (save_absent name) entries) (issued_by PRESERVED_ACROSS_RESET s) ?t"
    by (simp add: import_state_locked_def PRESERVED_ACROSS_IMPORT_def issued_by_def)
  have "''api_tokens'' \<notin> set PRESERVED_ACROSS_RESET" by (simp add: PRESERVED_ACROSS_RESET_def)
  then have "repo_get (import_state_locked loaded s) ''api_tokens'' j = repo_get ?t ''api_tokens'' j"
    unfolding split by (intro restored_other save_absent_other)
  moreover have "map_of caps ''api_tokens'' = None" by (simp add: caps_def)
  ultimately show "repo_get (import_state_locked loaded s) ''api_tokens'' j =
      (case repo_get s ''api_tokens'' j of None \<Rightarrow> repo_get loaded ''api_tokens'' j
       | Some v \<Rightarrow> if lacks loaded ''api_tokens'' j then Some v else repo_get loaded ''api_tokens'' j)"
    using absent_put_back [OF assms(1) _ _ keys_distinct [OF assms(2)]] by (simp add: keyed_entry)
qed

lemma reset_get:
  assumes "store_inv generated"
  shows "store_inv (reset_state generated swept)"
    and "c \<notin> set PRESERVED_ACROSS_RESET \<Longrightarrow> repo_get (reset_state generated swept) c j = repo_get generated c j"
proof -
  show "store_inv (reset_state generated swept)"
    unfolding reset_state_def using assms by (intro restored_inv store_inv_save_over)
  show "c \<notin> set PRESERVED_ACROSS_RESET \<Longrightarrow> repo_get (reset_state generated swept) c j = repo_get generated c j"
    unfolding reset_state_def by (intro restored_other save_over_other)
qed

end
