(* ===== verification/Settling.thy ===== *)
theory Settling
  imports Repository Py_Format
begin

text \<open>
  Actions that finish on the device's time: \<open>src/backend/application/settling.py\<close>.

  The locale \<open>device_action\<close> is the contract of an action that settles: the sweep over a repository
  settles exactly the records whose wait is over and counts them.
\<close>

section \<open>The wait\<close>

definition SETTLE_SECONDS :: rat where
  "SETTLE_SECONDS = 1"

definition has_answered :: "rat option \<Rightarrow> bool" where
  "has_answered waited = (case waited of None \<Rightarrow> False | Some w \<Rightarrow> SETTLE_SECONDS < w)"

definition answered_at :: "string \<Rightarrow> string option result" where
  "answered_at asked_at = plus_seconds asked_at SETTLE_SECONDS"

text \<open>
  \<open>table.get(str(state))\<close>: the text of a value that is not a string (a number, a list, \<open>None\<close>) is never the
  name of a state. \<open>in_table\<close> is the membership test.
\<close>

definition settles_into :: "(string \<times> string) list \<Rightarrow> pyval \<Rightarrow> string option" where
  "settles_into table v = (case v of VStr t \<Rightarrow> map_of table t | _ \<Rightarrow> None)"

definition in_table :: "(string \<times> string) list \<Rightarrow> pyval \<Rightarrow> bool" where
  "in_table table v = (case v of VStr t \<Rightarrow> t \<in> set (map fst table) | _ \<Rightarrow> False)"

lemma settles_into_in_table: "settles_into table v = Some t \<Longrightarrow> in_table table v"
  by (auto simp: settles_into_def in_table_def split: pyval.splits intro: image_eqI [OF _ map_of_SomeD])

text \<open>
  \<open>settle_each\<close>: \<open>pending\<close> is the membership test of the container, or none to hand every record on.
\<close>

fun settle_each :: "jobj list \<Rightarrow> string \<Rightarrow> (pyval \<Rightarrow> bool) option \<Rightarrow>
    (jobj \<Rightarrow> 'w \<Rightarrow> (jobj \<times> 'w) result) \<Rightarrow> 'w \<Rightarrow> (nat \<times> 'w) result" where
  "settle_each [] state pending settle w = Inr (0, w)"
| "settle_each (rec # recs) state pending settle w =
     (let before = dict_get rec state
      in if (case pending of None \<Rightarrow> False | Some p \<Rightarrow> \<not> p before) then settle_each recs state pending settle w
         else case settle rec w of
                Inl e \<Rightarrow> Inl e
              | Inr (rec', w1) \<Rightarrow>
                  (case settle_each recs state pending settle w1 of
                     Inl e \<Rightarrow> Inl e
                   | Inr (moved, w2) \<Rightarrow> Inr ((if dict_get rec' state \<noteq> before then Suc moved else moved), w2)))"

section \<open>The contract\<close>

text \<open>
  An action on the records of collection \<open>c\<close>: \<open>due now r\<close> when the record is pending and its wait is over,
  \<open>finish now r\<close> the settled record.
\<close>

locale device_action =
  fixes db_of :: "'w \<Rightarrow> db" and c :: string and key :: "jobj \<Rightarrow> string" and state :: string
    and pending :: "pyval \<Rightarrow> bool" and due :: "'t \<Rightarrow> jobj \<Rightarrow> bool" and finish :: "'t \<Rightarrow> jobj \<Rightarrow> jobj result"
    and settle :: "'t \<Rightarrow> jobj \<Rightarrow> 'w \<Rightarrow> (jobj \<times> 'w) result"
  assumes waits: "\<not> due now r \<Longrightarrow> settle now r w = Inr (r, w)"
    and settles: "due now r \<Longrightarrow> finish now r = Inr r' \<Longrightarrow>
      \<exists>w'. settle now r w = Inr (r', w') \<and> db_of w' = repo_save_raw (db_of w) c (key r) (VDict r')"
    and due_pending: "due now r \<Longrightarrow> pending (dict_get r state)"
    and finish_settled: "due now r \<Longrightarrow> finish now r = Inr r' \<Longrightarrow> \<not> pending (dict_get r' state) \<and> key r' = key r"
begin

definition settled_record :: "'t \<Rightarrow> jobj \<Rightarrow> jobj" where
  "settled_record now r = (if due now r then (case finish now r of Inl e \<Rightarrow> r | Inr r' \<Rightarrow> r') else r)"

lemma settled_record_stays: "due now r \<Longrightarrow> finish now r = Inr r' \<Longrightarrow> \<not> due later (settled_record now r)"
  using due_pending [of later r'] finish_settled [of now r r'] by (auto simp: settled_record_def)

lemma sweep_records:
  assumes "distinct (map key rs)" "\<forall>r \<in> set rs. repo_get (db_of w) c (key r) = Some (VDict r)"
    and "\<forall>r \<in> set rs. due now r \<longrightarrow> (\<exists>r'. finish now r = Inr r')"
  shows "\<exists>w'. settle_each rs state (Some pending) (settle now) w = Inr (length (filter (due now) rs), w') \<and>
    (\<forall>i. repo_get (db_of w') c i =
       (case find (\<lambda>r. key r = i) rs of None \<Rightarrow> repo_get (db_of w) c i | Some r \<Rightarrow> Some (VDict (settled_record now r)))) \<and>
    (\<forall>c' i. c' \<noteq> c \<longrightarrow> repo_get (db_of w') c' i = repo_get (db_of w) c' i) \<and>
    (store_inv (db_of w) \<longrightarrow> store_inv (db_of w'))"
  using assms
proof (induction rs arbitrary: w)
  case (Cons r rs)
  have absent: "find (\<lambda>x. key x = key r) rs = None"
    using Cons.prems(1) by (auto simp: find_None_iff image_iff)
  show ?case
  proof (cases "due now r")
    case False
    have "\<forall>r' \<in> set rs. repo_get (db_of w) c (key r') = Some (VDict r')" using Cons.prems(2) by simp
    then obtain w' where w': "settle_each rs state (Some pending) (settle now) w = Inr (length (filter (due now) rs), w')"
      "\<And>i. repo_get (db_of w') c i = (case find (\<lambda>r. key r = i) rs of
          None \<Rightarrow> repo_get (db_of w) c i | Some r \<Rightarrow> Some (VDict (settled_record now r)))"
      "\<And>c' i. c' \<noteq> c \<Longrightarrow> repo_get (db_of w') c' i = repo_get (db_of w) c' i"
      "store_inv (db_of w) \<Longrightarrow> store_inv (db_of w')"
      using Cons.IH [of w] Cons.prems(1,3) by auto
    have "settle_each (r # rs) state (Some pending) (settle now) w = Inr (length (filter (due now) (r # rs)), w')"
      using waits [OF False, of w] w'(1) False by (simp add: Let_def)
    moreover have "repo_get (db_of w') c i = (case find (\<lambda>r. key r = i) (r # rs) of
        None \<Rightarrow> repo_get (db_of w) c i | Some r \<Rightarrow> Some (VDict (settled_record now r)))" for i
      using w'(2) [of i] absent Cons.prems(2) False by (auto simp: settled_record_def)
    ultimately show ?thesis using w'(3,4) by blast
  next
    case True
    then obtain r' where r': "finish now r = Inr r'" using Cons.prems(3) by auto
    obtain w1 where w1: "settle now r w = Inr (r', w1)" "db_of w1 = repo_save_raw (db_of w) c (key r) (VDict r')"
      using settles [OF True r'] by blast
    have moved: "pending (dict_get r state)" "dict_get r' state \<noteq> dict_get r state"
      using due_pending [OF True] finish_settled [OF True r'] by auto
    have get: "repo_get (db_of w1) c i = (if i = key r then Some (VDict r') else repo_get (db_of w) c i)" for i
      using Cons.prems(2) w1(2) by (simp add: repo_save_existing)
    have rest: "distinct (map key rs)" "\<forall>r \<in> set rs. due now r \<longrightarrow> (\<exists>r'. finish now r = Inr r')"
      using Cons.prems(1,3) by auto
    from get have now_in: "\<forall>x \<in> set rs. repo_get (db_of w1) c (key x) = Some (VDict x)"
      using Cons.prems(1,2) by (auto simp: image_iff)
    obtain w' where w': "settle_each rs state (Some pending) (settle now) w1 = Inr (length (filter (due now) rs), w')"
      "\<And>i. repo_get (db_of w') c i = (case find (\<lambda>r. key r = i) rs of
          None \<Rightarrow> repo_get (db_of w1) c i | Some r \<Rightarrow> Some (VDict (settled_record now r)))"
      "\<And>c' i. c' \<noteq> c \<Longrightarrow> repo_get (db_of w') c' i = repo_get (db_of w1) c' i"
      "store_inv (db_of w1) \<Longrightarrow> store_inv (db_of w')"
      using Cons.IH [OF rest(1) now_in rest(2)] by blast
    have "settled_record now r = r'" using True r' by (simp add: settled_record_def)
    then have "repo_get (db_of w') c i = (case find (\<lambda>r. key r = i) (r # rs) of
        None \<Rightarrow> repo_get (db_of w) c i | Some r \<Rightarrow> Some (VDict (settled_record now r)))" for i
      using w'(2) [of i] get [of i] absent by (auto split: option.splits)
    moreover have "repo_get (db_of w') c' i = repo_get (db_of w) c' i" if "c' \<noteq> c" for c' i
      using w'(3) [OF that] w1(2) that by (simp add: repo_save_other)
    moreover have "store_inv (db_of w) \<Longrightarrow> store_inv (db_of w')" using w'(4) w1(2) by simp
    moreover have "settle_each (r # rs) state (Some pending) (settle now) w = Inr (length (filter (due now) (r # rs)), w')"
      using w1(1) w'(1) moved True by (simp add: Let_def)
    ultimately show ?thesis by blast
  qed
qed simp

text \<open>The sweep over the whole collection.\<close>

lemma sweep:
  assumes "store_inv (db_of w)" "keyed_by key (db_of w) c"
    and "\<And>i r. repo_get (db_of w) c i = Some (VDict r) \<Longrightarrow> due now r \<Longrightarrow> \<exists>r'. finish now r = Inr r'"
  shows "\<exists>w'. settle_each (map fields_of (repo_list_all (db_of w) c)) state (Some pending) (settle now) w =
      Inr (length (filter (\<lambda>v. due now (fields_of v)) (repo_list_all (db_of w) c)), w') \<and>
    (\<forall>i. repo_get (db_of w') c i =
       map_option (\<lambda>v. VDict (settled_record now (fields_of v))) (repo_get (db_of w) c i)) \<and>
    (\<forall>c' i. c' \<noteq> c \<longrightarrow> repo_get (db_of w') c' i = repo_get (db_of w) c' i) \<and>
    store_inv (db_of w')"
proof -
  let ?rs = "map fields_of (repo_list_all (db_of w) c)"
  note keyed = keyed_by_list [OF assms(1,2)]
  have "\<forall>r \<in> set ?rs. repo_get (db_of w) c (key r) = Some (VDict r)" using keyed(2) by blast
  moreover have "\<forall>r \<in> set ?rs. due now r \<longrightarrow> (\<exists>r'. finish now r = Inr r')" using keyed(2) assms(3) by blast
  ultimately obtain w' where w': "settle_each ?rs state (Some pending) (settle now) w = Inr (length (filter (due now) ?rs), w')"
    "\<And>i. repo_get (db_of w') c i = (case find (\<lambda>r. key r = i) ?rs of
        None \<Rightarrow> repo_get (db_of w) c i | Some r \<Rightarrow> Some (VDict (settled_record now r)))"
    "\<And>c' i. c' \<noteq> c \<Longrightarrow> repo_get (db_of w') c' i = repo_get (db_of w) c' i" "store_inv (db_of w')"
    using sweep_records [OF keyed(1)] assms(1) by blast
  have "repo_get (db_of w') c i = map_option (\<lambda>v. VDict (settled_record now (fields_of v))) (repo_get (db_of w) c i)" for i
  proof (cases "find (\<lambda>r. key r = i) ?rs")
    case None
    have "repo_get (db_of w) c i = None"
    proof (rule ccontr)
      assume "repo_get (db_of w) c i \<noteq> None"
      then obtain r where "repo_get (db_of w) c i = Some (VDict r)" "key r = i"
        using assms(2) unfolding keyed_by_def by blast
      then have "r \<in> set ?rs" using keyed(2) by blast
      then show False using None \<open>key r = i\<close> by (auto simp: find_None_iff)
    qed
    then show ?thesis using w'(2) [of i] None by simp
  next
    case (Some r)
    then have "r \<in> set ?rs" "key r = i" by (auto simp: find_Some_iff)
    then have "repo_get (db_of w) c i = Some (VDict r)" using keyed(2) by blast
    then show ?thesis using w'(2) [of i] Some by (simp add: fields_of_def)
  qed
  then show ?thesis using w'(1,3,4) by (intro exI [of _ w']) (simp add: filter_map comp_def)
qed

end

end
