(* ===== verification/Py_Glob.thy ===== *)
theory Py_Glob
  imports Py_Str
begin

text \<open>
  \<open>fnmatch.fnmatchcase\<close> (and \<open>fnmatch.fnmatch\<close>, the same on POSIX): stars, question marks and
  bracket classes with negation, ranges, and CPython's treatment of empty ranges. A text is the sequence of its
  UTF-8 bytes, so a question mark or a negated class takes one byte: on ASCII names, which the code matches (file, host and
  index names), that is one character.
\<close>

section \<open>Patterns\<close>

text \<open>A class: whether it is negated, and its ranges (a single character is a range of one).\<close>

datatype glob_tok = Star | AnyChar | Lit char | Class bool "(char \<times> char) list" | Never

text \<open>
  The text of a class cut at the hyphens that make ranges: the first may stand at the second
  position (third, when negated), and after each the next two characters are skipped.
\<close>

fun class_chunks :: "nat \<Rightarrow> string \<Rightarrow> string \<Rightarrow> string list" where
  "class_chunks skip acc [] = (if acc = [] then [] else [acc])"
| "class_chunks skip acc (c # cs) =
     (case skip of
        Suc n \<Rightarrow> class_chunks n (acc @ [c]) cs
      | 0 \<Rightarrow> (if c = CHR ''-'' then acc # class_chunks 2 [] cs else class_chunks 0 (acc @ [c]) cs))"

text \<open>A hyphen at the very end belongs to the last chunk.\<close>

definition split_class :: "string \<Rightarrow> string list" where
  "split_class s =
     (let cs = class_chunks (if s \<noteq> [] \<and> hd s = CHR ''!'' then 2 else 1) [] s
      in if concat cs = s then [s]
         else if join ''-'' cs = s then cs
         else butlast cs @ [last cs @ ''-''])"

text \<open>Empty ranges are removed, from the right.\<close>

fun merge_chunks :: "string list \<Rightarrow> string list" where
  "merge_chunks [] = []"
| "merge_chunks (a # cs) =
     (case merge_chunks cs of
        [] \<Rightarrow> [a]
      | b # bs \<Rightarrow> (if of_char (last a) > (of_char (hd b) :: nat) then (butlast a @ tl b) # bs else a # b # bs))"

fun chunk_ranges :: "string list \<Rightarrow> (char \<times> char) list" where
  "chunk_ranges [] = []"
| "chunk_ranges [a] = map (\<lambda>c. (c, c)) a"
| "chunk_ranges (a # b # cs) =
     (if a = [] then (CHR ''-'', CHR ''-'') # chunk_ranges (b # cs)
      else map (\<lambda>c. (c, c)) (butlast a) @ (last a, hd b) # chunk_ranges (tl b # cs))"

text \<open>What the regular expression for a class body matches.\<close>

definition class_tok :: "string \<Rightarrow> glob_tok" where
  "class_tok s =
     (let chunks = (if CHR ''-'' \<in> set s then merge_chunks (split_class s) else [s])
      in case chunks of
           [] \<Rightarrow> Never
         | a # cs \<Rightarrow>
             (if a = [] \<and> cs = [] then Never
              else if a = ''!'' \<and> cs = [] then AnyChar
              else if a \<noteq> [] \<and> hd a = CHR ''!'' then Class True (chunk_ranges (tl a # cs))
              else Class False (chunk_ranges (a # cs))))"

text \<open>The end of a class whose text starts after the bracket; \<open>None\<close> when it is not closed.\<close>

definition class_end :: "string \<Rightarrow> nat option" where
  "class_end s =
     (let i = (if s \<noteq> [] \<and> hd s = CHR ''!'' then 1 else 0);
          j = (if i < length s \<and> s ! i = CHR '']'' then i + 1 else i);
          k = j + length (takeWhile (\<lambda>c. c \<noteq> CHR '']'') (drop j s))
      in if k < length s then Some k else None)"

function glob_tokens :: "string \<Rightarrow> glob_tok list" where
  "glob_tokens [] = []"
| "glob_tokens (c # cs) =
     (if c = CHR ''*'' then Star # glob_tokens cs
      else if c = CHR ''?'' then AnyChar # glob_tokens cs
      else if c = CHR ''['' then
        (case class_end cs of
           None \<Rightarrow> Lit c # glob_tokens cs
         | Some k \<Rightarrow> class_tok (take k cs) # glob_tokens (drop (Suc k) cs))
      else Lit c # glob_tokens cs)"
  by pat_completeness auto

termination glob_tokens
  by (relation "measure length") auto

section \<open>Matching\<close>

definition in_ranges :: "char \<Rightarrow> (char \<times> char) list \<Rightarrow> bool" where
  "in_ranges c rs \<longleftrightarrow> list_ex (\<lambda>(a, b). of_char a \<le> (of_char c :: nat) \<and> of_char c \<le> (of_char b :: nat)) rs"

fun tok_char :: "glob_tok \<Rightarrow> char \<Rightarrow> bool" where
  "tok_char AnyChar c = True"
| "tok_char (Lit d) c = (c = d)"
| "tok_char (Class neg rs) c = (in_ranges c rs \<noteq> neg)"
| "tok_char _ c = False"

fun glob_match :: "glob_tok list \<Rightarrow> string \<Rightarrow> bool" where
  "glob_match [] s = (s = [])"
| "glob_match (Star # ts) [] = glob_match ts []"
| "glob_match (Star # ts) (c # cs) = (glob_match ts (c # cs) \<or> glob_match (Star # ts) cs)"
| "glob_match (t # ts) [] = False"
| "glob_match (t # ts) (c # cs) = (tok_char t c \<and> glob_match ts cs)"

definition fnmatch :: "string \<Rightarrow> string \<Rightarrow> bool" where
  "fnmatch name pat = glob_match (glob_tokens pat) name"

section \<open>Facts\<close>

definition plain_glob :: "string \<Rightarrow> bool" where
  "plain_glob s \<longleftrightarrow> list_all (\<lambda>c. c \<notin> {CHR ''*'', CHR ''?'', CHR ''[''}) s"

lemma glob_tokens_plain: "plain_glob s \<Longrightarrow> glob_tokens (s @ t) = map Lit s @ glob_tokens t"
  by (induction s) (auto simp: plain_glob_def)

lemma glob_match_lits: "glob_match (map Lit s @ ts) x \<longleftrightarrow> (\<exists>y. x = s @ y \<and> glob_match ts y)"
proof (induction s arbitrary: x)
  case (Cons a s)
  then show ?case by (cases x) auto
qed simp

lemma glob_match_Star: "glob_match (Star # ts) x \<longleftrightarrow> (\<exists>u v. x = u @ v \<and> glob_match ts v)"
proof (induction x)
  case (Cons c cs)
  have "(\<exists>u v. c # cs = u @ v \<and> glob_match ts v) \<longleftrightarrow>
        glob_match ts (c # cs) \<or> (\<exists>u v. cs = u @ v \<and> glob_match ts v)"
    by (metis append_Cons append_Nil list.exhaust list.inject)
  then show ?case using Cons by simp
qed simp

text \<open>A pattern without metacharacters is equality, one between stars is containment.\<close>

lemma fnmatch_plain: "plain_glob v \<Longrightarrow> fnmatch x v \<longleftrightarrow> x = v"
  using glob_tokens_plain [of v "[]"] glob_match_lits [of v "[]" x] by (simp add: fnmatch_def)

lemma fnmatch_contains: "plain_glob v \<Longrightarrow> fnmatch x (''*'' @ v @ ''*'') \<longleftrightarrow> str_in v x"
proof -
  assume "plain_glob v"
  then have "glob_tokens (''*'' @ v @ ''*'') = Star # map Lit v @ [Star]"
    by (simp add: glob_tokens_plain)
  moreover have "glob_match [Star] y" for y by (induction y) simp_all
  ultimately show ?thesis
    by (auto simp: fnmatch_def glob_match_Star glob_match_lits str_in_iff simp del: glob_match.simps(2,3))
qed

end
