(* ===== verification/Fql.thy ===== *)
theory Fql
  imports Py_Glob Py_Time
begin

text \<open>
  The Falcon Query Language of the CrowdStrike mount, \<open>src/backend/utils/cs_fql.py\<close>: the term
  parser, the splitter that respects quotes, brackets and groups, the clause semantics and the
  filter. The current instant is an argument. Regular expressions are written out as
  the search they perform.

  Shown here: the parenthesis stripper computes the same as peeling one layer at a time; the
  filter of a printed expression keeps exactly the records that satisfy one term of every group;
  each negated operator is the complement of the plain one.
\<close>

section \<open>Clauses\<close>

datatype fql_op =
    Op_eq | Op_neq | Op_gte | Op_lte | Op_gt | Op_lt | Op_in | Op_nin
  | Op_wildcard | Op_not_wildcard | Op_text | Op_not_text

datatype conjunction = Conj_and | Conj_or

record fql_clause =
  fql_field :: string
  fql_operator :: fql_op
  fql_values :: "string list"
  fql_conj :: conjunction

section \<open>Parsing a term\<close>

text \<open>\<open>^'(.*)'$\<close> and \<open>^\\[(.+)\\]$\<close>; a value portion has no line feed.\<close>

definition bracket_body :: "string \<Rightarrow> string option" where
  "bracket_body v =
     (if 3 \<le> length v \<and> hd v = CHR ''['' \<and> last v = CHR '']'' then Some (butlast (tl v)) else None)"

definition unquote_fql :: "string \<Rightarrow> string" where
  "unquote_fql v =
     (if 2 \<le> length v \<and> hd v = CHR 0x27 \<and> last v = CHR 0x27 then butlast (tl v) else v)"

text \<open>\<open>'([^']*)'\<close>, every match in turn.\<close>

function bracket_items :: "string \<Rightarrow> string list" where
  "bracket_items s =
     (case dropWhile (\<lambda>c. c \<noteq> CHR 0x27) s of
        [] \<Rightarrow> []
      | q # r \<Rightarrow>
          (case dropWhile (\<lambda>c. c \<noteq> CHR 0x27) r of
             [] \<Rightarrow> []
           | q' # t \<Rightarrow> takeWhile (\<lambda>c. c \<noteq> CHR 0x27) r # bracket_items t))"
  by pat_completeness auto

termination bracket_items
proof (relation "measure length")
  fix s q r q' t
  assume "dropWhile (\<lambda>c. c \<noteq> CHR 0x27) s = q # r" "dropWhile (\<lambda>c. c \<noteq> CHR 0x27) r = q' # t"
  then have "length (q # r) \<le> length s" "length (q' # t) \<le> length r" by (metis length_dropWhile_le)+
  then show "(t, s) \<in> measure length" by simp
qed simp

declare bracket_items.simps [simp del]

definition classify_operator :: "string \<Rightarrow> string \<Rightarrow> fql_op" where
  "classify_operator op_chars v =
     (if bracket_body v \<noteq> None then (if op_chars \<in> {''!'', ''!=''} then Op_nin else Op_in)
      else if op_chars = ''~'' then Op_text
      else if op_chars = ''!~'' then Op_not_text
      else if op_chars = ''!'' \<or> op_chars = ''!='' then Op_neq
      else if op_chars = ''>='' then Op_gte
      else if op_chars = ''<='' then Op_lte
      else if op_chars = ''>'' then Op_gt
      else if op_chars = ''<'' then Op_lt
      else let unquoted = unquote_fql v
           in if CHR ''*'' \<in> set unquoted \<or> CHR ''?'' \<in> set unquoted then Op_wildcard else Op_eq)"

definition extract_values :: "string \<Rightarrow> fql_op \<Rightarrow> string list" where
  "extract_values v operator =
     (if operator \<in> {Op_in, Op_nin}
      then case bracket_body v of Some b \<Rightarrow> bracket_items b | None \<Rightarrow> [unquote_fql v]
      else [unquote_fql v])"

text \<open>
  The partner of each opening parenthesis, in one pass over the text with a stack of the open
  ones.
\<close>

fun partners :: "nat \<Rightarrow> nat list \<Rightarrow> string \<Rightarrow> (nat \<times> nat) list" where
  "partners i opened [] = []"
| "partners i opened (c # cs) =
     (if c = CHR ''('' then partners (Suc i) (i # opened) cs
      else if c = CHR '')'' then
        (case opened of
           [] \<Rightarrow> partners (Suc i) [] cs
         | p # ps \<Rightarrow> (p, i) # partners (Suc i) ps cs)
      else partners (Suc i) opened cs)"

text \<open>The two inner loops: skip the white space at either end of \<open>text[lo..hi]\<close>.\<close>

function skip_left :: "string \<Rightarrow> int \<Rightarrow> int \<Rightarrow> int" where
  "skip_left s lo hi = (if lo \<le> hi \<and> is_space (s ! nat lo) then skip_left s (lo + 1) hi else lo)"
  by pat_completeness auto

termination skip_left
  by (relation "measure (\<lambda>(s, lo, hi). nat (hi - lo + 1))") auto

function skip_right :: "string \<Rightarrow> int \<Rightarrow> int \<Rightarrow> int" where
  "skip_right s lo hi = (if lo \<le> hi \<and> is_space (s ! nat hi) then skip_right s lo (hi - 1) else hi)"
  by pat_completeness auto

termination skip_right
  by (relation "measure (\<lambda>(s, lo, hi). nat (hi - lo + 1))") auto

declare skip_left.simps [simp del] skip_right.simps [simp del]

lemma skip_left_ge: "lo \<le> skip_left s lo hi"
  by (induction s lo hi rule: skip_left.induct) (subst skip_left.simps, auto)

lemma skip_right_le: "skip_right s lo hi \<le> hi"
  by (induction s lo hi rule: skip_right.induct) (subst skip_right.simps, auto)

function peel :: "string \<Rightarrow> (nat \<times> nat) list \<Rightarrow> int \<Rightarrow> int \<Rightarrow> int \<times> int" where
  "peel s ps lo hi =
     (if lo < hi \<and> s ! nat lo = CHR ''('' \<and> map_of ps (nat lo) = Some (nat hi)
      then let lo' = skip_left s (lo + 1) (hi - 1); hi' = skip_right s lo' (hi - 1)
           in peel s ps lo' hi'
      else (lo, hi))"
  by pat_completeness auto

termination peel
proof (relation "measure (\<lambda>(s, ps, lo, hi). nat (hi - lo + 1))")
  fix s ps lo hi lo' hi'
  assume "lo < hi \<and> s ! nat lo = CHR ''('' \<and> map_of ps (nat lo) = Some (nat hi)"
    "lo' = skip_left s (lo + 1) (hi - 1)" "hi' = skip_right s lo' (hi - 1)"
  then show "((s, ps, lo', hi'), s, ps, lo, hi) \<in> measure (\<lambda>(s, ps, lo, hi). nat (hi - lo + 1))"
    using skip_left_ge [of "lo + 1" s "hi - 1"] skip_right_le [of s lo' "hi - 1"] by simp
qed simp

declare peel.simps [simp del]

definition ungrouped :: "string \<Rightarrow> string" where
  "ungrouped raw =
     (let txt = strip raw; (lo, hi) = peel txt (partners 0 [] txt) 0 (int (length txt) - 1)
      in py_slice txt lo (hi + 1))"

text \<open>
  \<open>_TERM_RE\<close>: a field name, a colon, the first operator alternative after which some value is left,
  and the value up to the end of the line.
\<close>

definition is_field_start :: "char \<Rightarrow> bool" where
  "is_field_start c \<longleftrightarrow> is_upper c \<or> is_lower c \<or> c = CHR ''_''"

definition is_field_char :: "char \<Rightarrow> bool" where
  "is_field_char c \<longleftrightarrow> is_field_start c \<or> is_digit c \<or> c = CHR ''.''"

definition op_candidates :: "string list" where
  "op_candidates = [''!~'', ''~'', ''!='', ''!'', ''>='', ''>'', ''<='', ''<'', ''!>'', ''!<'', '''']"

definition value_part :: "string \<Rightarrow> string" where
  "value_part s = takeWhile (\<lambda>c. c \<noteq> CHR 0x0A) s"

definition term_match :: "string \<Rightarrow> (string \<times> string \<times> string) option" where
  "term_match s =
     (let fld = takeWhile is_field_char s; r = dropWhile is_field_char s
      in if fld = [] \<or> \<not> is_field_start (hd fld) \<or> r = [] \<or> hd r \<noteq> CHR '':'' then None
         else map_option (\<lambda>opc. (fld, opc, value_part (drop (length opc) (tl r))))
                (find (\<lambda>opc. startswith (tl r) opc \<and> value_part (drop (length opc) (tl r)) \<noteq> []) op_candidates))"

definition parse_term :: "string \<Rightarrow> fql_clause option" where
  "parse_term raw =
     (case term_match (ungrouped raw) of
        None \<Rightarrow> None
      | Some (fld, op_chars, v0) \<Rightarrow>
          (let starred = startswith v0 ''*'';
               v = (if starred then tl v0 else v0);
               operator = (if starred \<and> op_chars \<in> {''!'', ''!=''} then Op_not_wildcard
                           else if starred then Op_wildcard
                           else classify_operator op_chars v);
               vals = extract_values v
                        (if operator \<in> {Op_wildcard, Op_not_wildcard} then Op_wildcard else operator)
           in Some \<lparr>fql_field = fld, fql_operator = operator, fql_values = vals, fql_conj = Conj_and\<rparr>))"

section \<open>Splitting and parsing\<close>

record split_state =
  in_quote :: bool
  in_bracket :: bool
  depth :: nat

definition init_split :: split_state where
  "init_split = \<lparr>in_quote = False, in_bracket = False, depth = 0\<rparr>"

text \<open>What a character does to the state, and whether it splits.\<close>

definition split_step :: "char \<Rightarrow> split_state \<Rightarrow> char \<Rightarrow> split_state \<times> bool" where
  "split_step delim st ch =
     (if ch = CHR 0x27 \<and> \<not> in_bracket st then (st\<lparr>in_quote := \<not> in_quote st\<rparr>, False)
      else if ch = CHR ''['' \<and> \<not> in_quote st then (st\<lparr>in_bracket := True\<rparr>, False)
      else if ch = CHR '']'' \<and> \<not> in_quote st then (st\<lparr>in_bracket := False\<rparr>, False)
      else if ch = CHR ''('' \<and> \<not> in_quote st \<and> \<not> in_bracket st then (st\<lparr>depth := Suc (depth st)\<rparr>, False)
      else if ch = CHR '')'' \<and> \<not> in_quote st \<and> \<not> in_bracket st then (st\<lparr>depth := depth st - 1\<rparr>, False)
      else (st, ch = delim \<and> \<not> in_quote st \<and> \<not> in_bracket st \<and> depth st = 0))"

fun smart_split_from :: "char \<Rightarrow> split_state \<Rightarrow> string \<Rightarrow> string \<Rightarrow> string list" where
  "smart_split_from delim st current [] = [current]"
| "smart_split_from delim st current (ch # cs) =
     (let (st', cut) = split_step delim st ch
      in if cut then current # smart_split_from delim st' [] cs
         else smart_split_from delim st' (current @ [ch]) cs)"

definition smart_split :: "string \<Rightarrow> char \<Rightarrow> string list" where
  "smart_split s delim = smart_split_from delim init_split [] s"

definition fql_error :: "string \<Rightarrow> exn" where
  "fql_error fql = FilterError (''invalid filter expression: '' @ fql)"

fun parse_or_terms :: "nat \<Rightarrow> string list \<Rightarrow> fql_clause list" where
  "parse_or_terms i [] = []"
| "parse_or_terms i (t # ts) =
     (case parse_term t of
        None \<Rightarrow> parse_or_terms (Suc i) ts
      | Some c \<Rightarrow> c\<lparr>fql_conj := if 0 < i then Conj_or else Conj_and\<rparr> # parse_or_terms (Suc i) ts)"

definition parse_fql :: "string \<Rightarrow> fql_clause list result" where
  "parse_fql fql =
     (if strip fql = [] then Inr []
      else let clauses = concat (map (\<lambda>group. parse_or_terms 0 (smart_split group CHR '',''))
                                   (smart_split fql CHR ''+''))
           in if clauses = [] then Inl (fql_error fql) else Inr clauses)"

section \<open>Matching\<close>

definition text_match :: "string \<Rightarrow> string \<Rightarrow> bool" where
  "text_match candidate val =
     (let txt = lower candidate; wanted = lower val
      in if CHR ''*'' \<in> set wanted \<or> CHR ''?'' \<in> set wanted then fnmatch txt wanted else str_in wanted txt)"

definition candidate_values :: "pyval \<Rightarrow> string list" where
  "candidate_values v =
     (case v of
        VNone \<Rightarrow> [[]]
      | VList vs \<Rightarrow> if vs = [] then [[]] else map py_str vs
      | _ \<Rightarrow> [py_str v])"

text \<open>
  \<open>now-<n>d\<close> or \<open>now-<n>h\<close>: \<open>int\<close> refuses more than 4300 digits, and going back before year 1
  overflows. Neither exception is caught.
\<close>

definition relative_moment :: "int \<Rightarrow> string \<Rightarrow> int option result" where
  "relative_moment now target =
     (let t = strip target; ds = butlast (drop 4 t)
      in if startswith t ''now-'' \<and> 6 \<le> length t \<and> last t \<in> {CHR ''d'', CHR ''h''} \<and> list_all is_digit ds
         then case int_of_str ds of
                None \<Rightarrow> Inl (ValueError ds)
              | Some n \<Rightarrow>
                  (case minus_units now n (last t = CHR ''d'') of
                     None \<Rightarrow> Inl (OverflowError ''date value out of range'')
                   | Some m \<Rightarrow> Inr (Some m))
         else Inr None)"

definition range_holds :: "fql_op \<Rightarrow> bool \<Rightarrow> bool \<Rightarrow> bool" where
  "range_holds operator lt eq =
     (case operator of
        Op_gte \<Rightarrow> \<not> lt | Op_lte \<Rightarrow> lt \<or> eq | Op_gt \<Rightarrow> \<not> lt \<and> \<not> eq | _ \<Rightarrow> lt)"

text \<open>Comparisons of floats: every one of them is false when a NaN is involved.\<close>

definition float_range :: "fql_op \<Rightarrow> pyfloat \<Rightarrow> pyfloat \<Rightarrow> bool" where
  "float_range operator a b =
     (case operator of
        Op_gte \<Rightarrow> fl_le b a | Op_lte \<Rightarrow> fl_le a b | Op_gt \<Rightarrow> fl_less b a | _ \<Rightarrow> fl_less a b)"

definition compare_range :: "int \<Rightarrow> pyval \<Rightarrow> string \<Rightarrow> fql_op \<Rightarrow> bool result" where
  "compare_range now field_val target operator =
     (if field_val = VNone then Inr False
      else case relative_moment now target of
             Inl e \<Rightarrow> Inl e
           | Inr (Some moment) \<Rightarrow>
               (case parse_utc (strip (py_str field_val)) of
                  None \<Rightarrow> Inr False
                | Some recorded \<Rightarrow> Inr (range_holds operator (recorded < moment) (recorded = moment)))
           | Inr None \<Rightarrow>
               (case (float_of_str (py_str field_val), float_of_str target) of
                  (Some fv, Some tv) \<Rightarrow> Inr (float_range operator fv tv)
                | _ \<Rightarrow> Inr (range_holds operator (py_str field_val < target) (py_str field_val = target))))"

fun all_ranges :: "int \<Rightarrow> pyval \<Rightarrow> fql_op \<Rightarrow> string list \<Rightarrow> bool result" where
  "all_ranges now v operator [] = Inr True"
| "all_ranges now v operator (t # ts) =
     (case compare_range now v t operator of
        Inl e \<Rightarrow> Inl e
      | Inr False \<Rightarrow> Inr False
      | Inr True \<Rightarrow> all_ranges now v operator ts)"

text \<open>\<open>any(P c v)\<close> over the candidates and the values of a clause.\<close>

definition any_pair :: "(string \<Rightarrow> string \<Rightarrow> bool) \<Rightarrow> string list \<Rightarrow> string list \<Rightarrow> bool" where
  "any_pair P cs vs = list_ex (\<lambda>c. list_ex (P c) vs) cs"

definition all_pairs :: "(string \<Rightarrow> string \<Rightarrow> bool) \<Rightarrow> string list \<Rightarrow> string list \<Rightarrow> bool" where
  "all_pairs P cs vs = list_all (\<lambda>c. list_all (P c) vs) cs"

definition match_clause :: "int \<Rightarrow> pyval \<Rightarrow> fql_clause \<Rightarrow> bool result" where
  "match_clause now rec clause =
     (let field_val = get_nested rec (fql_field clause);
          candidates = candidate_values field_val; vs = fql_values clause
      in case fql_operator clause of
           Op_eq \<Rightarrow> Inr (any_pair (=) candidates vs)
         | Op_neq \<Rightarrow> Inr (all_pairs (\<noteq>) candidates vs)
         | Op_wildcard \<Rightarrow> Inr (any_pair fnmatch candidates vs)
         | Op_not_wildcard \<Rightarrow> Inr (all_pairs (\<lambda>c v. \<not> fnmatch c v) candidates vs)
         | Op_text \<Rightarrow> Inr (any_pair text_match candidates vs)
         | Op_not_text \<Rightarrow> Inr (all_pairs (\<lambda>c v. \<not> text_match c v) candidates vs)
         | Op_in \<Rightarrow> Inr (list_ex (\<lambda>c. c \<in> set vs) candidates)
         | Op_nin \<Rightarrow> Inr (list_all (\<lambda>c. c \<notin> set vs) candidates)
         | operator \<Rightarrow> all_ranges now field_val operator vs)"

fun any_clause :: "int \<Rightarrow> pyval \<Rightarrow> fql_clause list \<Rightarrow> bool result" where
  "any_clause now rec [] = Inr False"
| "any_clause now rec (c # cs) =
     (case match_clause now rec c of
        Inl e \<Rightarrow> Inl e
      | Inr True \<Rightarrow> Inr True
      | Inr False \<Rightarrow> any_clause now rec cs)"

fun all_groups :: "int \<Rightarrow> pyval \<Rightarrow> fql_clause list list \<Rightarrow> bool result" where
  "all_groups now rec [] = Inr True"
| "all_groups now rec (g # gs) =
     (case any_clause now rec g of
        Inl e \<Rightarrow> Inl e
      | Inr False \<Rightarrow> Inr False
      | Inr True \<Rightarrow> all_groups now rec gs)"

definition add_clause :: "fql_clause \<Rightarrow> fql_clause list list \<Rightarrow> fql_clause list list" where
  "add_clause clause groups =
     (if fql_conj clause = Conj_and \<or> groups = [] then groups @ [[clause]]
      else butlast groups @ [last groups @ [clause]])"

definition group_clauses :: "fql_clause list \<Rightarrow> fql_clause list list" where
  "group_clauses clauses = fold add_clause clauses []"

fun filter_records :: "int \<Rightarrow> fql_clause list list \<Rightarrow> pyval list \<Rightarrow> pyval list result" where
  "filter_records now groups [] = Inr []"
| "filter_records now groups (r # rs) =
     (case all_groups now r groups of
        Inl e \<Rightarrow> Inl e
      | Inr b \<Rightarrow> (case filter_records now groups rs of
                   Inl e \<Rightarrow> Inl e
                 | Inr out \<Rightarrow> Inr (if b then r # out else out)))"

definition apply_fql :: "int \<Rightarrow> pyval list \<Rightarrow> string \<Rightarrow> pyval list result" where
  "apply_fql now records fql =
     (case parse_fql fql of
        Inl e \<Rightarrow> Inl e
      | Inr clauses \<Rightarrow>
          (if clauses = [] then Inr records else filter_records now (group_clauses clauses) records))"

section \<open>Printing\<close>

text \<open>The terms a client writes: a comparison with a quoted value, or membership in a list.\<close>

datatype fql_term = Cmp string string string | Member string bool "string list"

definition quoted :: "string \<Rightarrow> string" where
  "quoted v = [CHR 0x27] @ v @ [CHR 0x27]"

fun print_term :: "fql_term \<Rightarrow> string" where
  "print_term (Cmp f opc v) = f @ '':'' @ opc @ quoted v"
| "print_term (Member f neg vs) =
     f @ '':'' @ (if neg then ''!'' else []) @ ''['' @ join '','' (map quoted vs) @ '']''"

definition print_group :: "fql_term list \<Rightarrow> string" where
  "print_group ts = join '','' (map print_term ts)"

definition print_fql :: "fql_term list list \<Rightarrow> string" where
  "print_fql gs = join ''+'' (map print_group gs)"

definition good_value :: "string \<Rightarrow> bool" where
  "good_value v \<longleftrightarrow> list_all (\<lambda>c. c \<noteq> CHR 0x27 \<and> c \<noteq> CHR 0x0A) v"

definition good_field :: "string \<Rightarrow> bool" where
  "good_field f \<longleftrightarrow> f \<noteq> [] \<and> is_field_start (hd f) \<and> list_all is_field_char f"

definition printed_ops :: "string list" where
  "printed_ops = ['''', ''!'', ''>='', ''<='', ''>'', ''<'', ''~'', ''!~'']"

fun wf_term :: "fql_term \<Rightarrow> bool" where
  "wf_term (Cmp f opc v) \<longleftrightarrow> good_field f \<and> opc \<in> set printed_ops \<and> good_value v"
| "wf_term (Member f neg vs) \<longleftrightarrow>
     good_field f \<and> vs \<noteq> [] \<and> list_all (\<lambda>v. good_value v \<and> CHR '']'' \<notin> set v) vs"

definition wf_groups :: "fql_term list list \<Rightarrow> bool" where
  "wf_groups gs \<longleftrightarrow> gs \<noteq> [] \<and> list_all (\<lambda>g. g \<noteq> [] \<and> list_all wf_term g) gs"

text \<open>What each term means: a star or a question mark in a plain comparison makes it a pattern.\<close>

definition cmp_op :: "string \<Rightarrow> string \<Rightarrow> fql_op" where
  "cmp_op opc v =
     (if opc = ''!'' then Op_neq else if opc = ''>='' then Op_gte else if opc = ''<='' then Op_lte
      else if opc = ''>'' then Op_gt else if opc = ''<'' then Op_lt else if opc = ''~'' then Op_text
      else if opc = ''!~'' then Op_not_text
      else if CHR ''*'' \<in> set v \<or> CHR ''?'' \<in> set v then Op_wildcard else Op_eq)"

fun clause_of :: "fql_term \<Rightarrow> fql_clause" where
  "clause_of (Cmp f opc v) =
     \<lparr>fql_field = f, fql_operator = cmp_op opc v, fql_values = [v], fql_conj = Conj_and\<rparr>"
| "clause_of (Member f neg vs) =
     \<lparr>fql_field = f, fql_operator = (if neg then Op_nin else Op_in), fql_values = vs, fql_conj = Conj_and\<rparr>"

section \<open>Reading a printed term back\<close>

lemma field_char_not_special:
  "is_field_char c \<Longrightarrow> c \<noteq> CHR '':'' \<and> c \<noteq> CHR ''('' \<and> \<not> is_space c \<and> c \<noteq> CHR 0x27 \<and> c \<noteq> CHR ''['' \<and>
     c \<noteq> CHR '']'' \<and> c \<noteq> CHR '')'' \<and> c \<noteq> CHR ''+'' \<and> c \<noteq> CHR '',''"
  by (auto simp: is_field_char_def is_field_start_def is_space_def is_upper_def is_lower_def is_digit_def)

lemma field_start_char: "is_field_start c \<Longrightarrow> is_field_char c"
  by (simp add: is_field_char_def)

lemma ungrouped_plain:
  assumes "s \<noteq> []" "is_field_char (hd s)" "\<not> is_space (last s)"
  shows "ungrouped s = s"
proof -
  have "strip s = s" using assms field_char_not_special by (intro strip_no_space) auto
  moreover have "peel s ps 0 (int (length s) - 1) = (0, int (length s) - 1)" for ps
    using assms field_char_not_special [of "hd s"] by (subst peel.simps) (auto simp: hd_conv_nth)
  moreover have "py_slice s 0 (int (length s)) = s" using py_slice_nat [of s 0 "length s"] by simp
  ultimately show ?thesis by (simp add: ungrouped_def)
qed

lemma term_match_printed:
  assumes "good_field f" "value_part v = v" "v \<noteq> []" "find (\<lambda>o'. startswith (opc @ v) o' \<and>
    value_part (drop (length o') (opc @ v)) \<noteq> []) op_candidates = Some opc"
  shows "term_match (f @ CHR '':'' # opc @ v) = Some (f, opc, v)"
proof -
  have "\<not> is_field_char CHR '':''"
    by (simp add: is_field_char_def is_field_start_def is_upper_def is_lower_def is_digit_def)
  then have "takeWhile is_field_char (f @ CHR '':'' # opc @ v) = f"
    "dropWhile is_field_char (f @ CHR '':'' # opc @ v) = CHR '':'' # opc @ v"
    using assms(1) by (auto simp: good_field_def list_all_iff takeWhile_append dropWhile_append)
  then show ?thesis using assms by (simp add: term_match_def good_field_def Let_def)
qed

lemma value_part_id: "list_all (\<lambda>c. c \<noteq> CHR 0x0A) v \<Longrightarrow> value_part v = v"
  by (simp add: value_part_def list_all_iff takeWhile_eq_all_conv)

lemma startswith_Cons: "startswith (c # s) (d # p) \<longleftrightarrow> c = d \<and> startswith s p"
  by (simp add: startswith_def)

lemma startswith_empty_str: "startswith [] (d # p) \<longleftrightarrow> False"
  by (simp add: startswith_def)

lemmas startswith_simps = startswith_Cons startswith_empty_str

lemma find_op_quote:
  assumes "opc \<in> set printed_ops" "good_value v"
  shows "find (\<lambda>o'. startswith (opc @ quoted v) o' \<and> value_part (drop (length o') (opc @ quoted v)) \<noteq> [])
    op_candidates = Some opc"
proof -
  have "opc = [] \<or> opc = ''!'' \<or> opc = ''>='' \<or> opc = ''<='' \<or> opc = ''>'' \<or> opc = ''<'' \<or>
    opc = ''~'' \<or> opc = ''!~''"
    using assms(1) by (auto simp: printed_ops_def)
  then show ?thesis
    by (elim disjE; simp add: op_candidates_def quoted_def startswith_simps value_part_def)
qed

lemma find_op_bracket:
  "find (\<lambda>o'. startswith ((if neg then ''!'' else []) @ CHR ''['' # v) o' \<and>
      value_part (drop (length o') ((if neg then ''!'' else []) @ CHR ''['' # v)) \<noteq> []) op_candidates
   = Some (if neg then ''!'' else [])"
  by (auto simp: op_candidates_def startswith_simps value_part_def)

lemma bracket_items_quoted:
  "list_all good_value vs \<Longrightarrow> bracket_items (join '','' (map quoted vs)) = vs"
proof (induction vs)
  case Nil
  then show ?case by (simp add: bracket_items.simps)
next
  case (Cons v vs)
  have v: "takeWhile (\<lambda>c. c \<noteq> CHR 0x27) (v @ CHR 0x27 # r) = v"
    "dropWhile (\<lambda>c. c \<noteq> CHR 0x27) (v @ CHR 0x27 # r) = CHR 0x27 # r" for r
    using Cons.prems by (auto simp: good_value_def list_all_iff takeWhile_append dropWhile_append)
  have cut: "bracket_items (quoted v @ r) = v # bracket_items r" for r
    using v by (subst bracket_items.simps) (simp add: quoted_def)
  have comma: "bracket_items (CHR '','' # r) = bracket_items r" for r
    by (subst bracket_items.simps) (simp add: bracket_items.simps [of r])
  show ?case
  proof (cases vs)
    case Nil
    then show ?thesis using cut [of "[]"] by (simp add: bracket_items.simps)
  next
    case (Cons w ws)
    then show ?thesis using cut comma Cons.IH Cons.prems by (simp add: join_Cons)
  qed
qed

lemma bracket_body_of: "b \<noteq> [] \<Longrightarrow> bracket_body (CHR ''['' # b @ '']'') = Some b"
  by (simp add: bracket_body_def Suc_le_eq numeral_3_eq_3)

lemma unquote_quoted [simp]: "unquote_fql (quoted v) = v"
  by (simp add: unquote_fql_def quoted_def)

lemma bracket_body_quoted [simp]: "bracket_body (quoted v) = None"
  by (simp add: bracket_body_def quoted_def)

lemma classify_quoted: "opc \<in> set printed_ops \<Longrightarrow> classify_operator opc (quoted v) = cmp_op opc v"
  by (auto simp: classify_operator_def printed_ops_def cmp_op_def Let_def)

lemma cmp_op_not_member: "cmp_op opc v \<noteq> Op_in" "cmp_op opc v \<noteq> Op_nin"
  by (simp_all add: cmp_op_def)

theorem parse_print_term: "wf_term t \<Longrightarrow> parse_term (print_term t) = Some (clause_of t)"
proof (cases t)
  case (Cmp f opc v)
  assume "wf_term t"
  then have wf: "good_field f" "opc \<in> set printed_ops" "good_value v" using Cmp by simp_all
  have p: "print_term t = f @ CHR '':'' # opc @ quoted v" using Cmp by simp
  have "ungrouped (print_term t) = print_term t"
    unfolding p using wf(1)
    by (intro ungrouped_plain) (auto simp: good_field_def field_start_char quoted_def is_space_def)
  moreover have "term_match (print_term t) = Some (f, opc, quoted v)"
    unfolding p using wf
    by (intro term_match_printed find_op_quote value_part_id) (auto simp: quoted_def good_value_def list_all_iff)
  moreover have "\<not> startswith (quoted v) ''*''" by (simp add: quoted_def startswith_def)
  ultimately show ?thesis
    using Cmp classify_quoted [OF wf(2)] cmp_op_not_member [of opc v]
    by (simp add: parse_term_def extract_values_def Let_def)
next
  case (Member f neg vs)
  assume "wf_term t"
  then have wf: "good_field f" "vs \<noteq> []" "list_all good_value vs" using Member by (auto simp: list_all_iff)
  let ?b = "join '','' (map quoted vs)"
  let ?o = "if neg then ''!'' else []"
  have p: "print_term t = f @ CHR '':'' # ?o @ CHR ''['' # ?b @ '']''" using Member by simp
  have b: "?b \<noteq> []" using wf(2) by (cases vs; cases "tl vs") (auto simp: quoted_def join_Cons)
  have "c \<in> set (join '','' ws) \<Longrightarrow> c = CHR '','' \<or> (\<exists>w \<in> set ws. c \<in> set w)" for c ws
    by (induction "'',''" ws rule: join.induct) auto
  then have nl: "list_all (\<lambda>c. c \<noteq> CHR 0x0A) ?b"
    using wf(3) by (fastforce simp: list_all_iff good_value_def quoted_def)
  have "ungrouped (print_term t) = print_term t"
    unfolding p using wf(1)
    by (intro ungrouped_plain) (auto simp: good_field_def field_start_char is_space_def)
  moreover have "term_match (print_term t) = Some (f, ?o, CHR ''['' # ?b @ '']'')"
    unfolding p using wf(1) nl find_op_bracket [of neg "?b @ '']''"]
    by (intro term_match_printed value_part_id) (simp_all split del: if_split)
  ultimately show ?thesis
    using Member bracket_body_of [OF b] bracket_items_quoted [OF wf(3)]
    by (auto simp: parse_term_def extract_values_def classify_operator_def startswith_def)
qed

section \<open>Splitting a printed expression\<close>

text \<open>The state of the splitter after a text it does not cut.\<close>

fun passes :: "char \<Rightarrow> split_state \<Rightarrow> string \<Rightarrow> split_state option" where
  "passes d st [] = Some st"
| "passes d st (c # cs) = (let (st', cut) = split_step d st c in if cut then None else passes d st' cs)"

lemma passes_append: "passes d st xs = Some st' \<Longrightarrow> passes d st (xs @ ys) = passes d st' ys"
  by (induction xs arbitrary: st) (auto split: prod.splits if_splits)

lemma split_after_pass:
  "passes d st xs = Some st' \<Longrightarrow> smart_split_from d st cur (xs @ ys) = smart_split_from d st' (cur @ xs) ys"
  by (induction xs arbitrary: st cur) (auto simp: Let_def split: prod.splits if_splits)

lemma smart_split_join:
  assumes "split_step d init_split d = (init_split, True)"
  shows "xs \<noteq> [] \<Longrightarrow> \<forall>x \<in> set xs. passes d init_split x = Some init_split \<Longrightarrow> smart_split (join [d] xs) d = xs"
proof (induction "[d]" xs rule: join.induct)
  case (2 x)
  then show ?case using split_after_pass [of d init_split x init_split "[]" "[]"] by (simp add: smart_split_def)
next
  case (3 x y ys)
  then show ?case
    using split_after_pass [of d init_split x init_split "[]"] assms by (simp add: smart_split_def)
qed simp

definition unsplit_chars :: "char list" where
  "unsplit_chars = [CHR 0x27, CHR ''['', CHR '']'', CHR ''('', CHR '')'']"

lemma passes_plain:
  "\<forall>c \<in> set s. c \<noteq> d \<and> c \<notin> set unsplit_chars \<Longrightarrow> passes d st s = Some st"
  by (induction s) (auto simp: split_step_def unsplit_chars_def)

lemma passes_in_quote:
  "in_quote st \<Longrightarrow> \<not> in_bracket st \<Longrightarrow> CHR 0x27 \<notin> set v \<Longrightarrow> passes d st v = Some st"
  by (induction v) (auto simp: split_step_def)

lemma passes_in_bracket:
  "in_bracket st \<Longrightarrow> \<not> in_quote st \<Longrightarrow> CHR '']'' \<notin> set b \<Longrightarrow> passes d st b = Some st"
proof (induction b)
  case (Cons c b)
  have "st\<lparr>in_bracket := True\<rparr> = st" using Cons.prems by (cases st) simp
  then have "split_step d st c = (st, False)" using Cons.prems by (auto simp: split_step_def)
  then show ?case using Cons by simp
qed simp

lemma passes_quoted:
  assumes "CHR 0x27 \<notin> set v"
  shows "passes d init_split (quoted v) = Some init_split"
  using assms passes_append [OF passes_in_quote, of "init_split\<lparr>in_quote := True\<rparr>" v d "[CHR 0x27]"]
  by (simp add: quoted_def init_split_def split_step_def)

lemma passes_bracketed:
  assumes "CHR '']'' \<notin> set b"
  shows "passes d init_split (CHR ''['' # b @ '']'') = Some init_split"
  using assms passes_append [OF passes_in_bracket, of "init_split\<lparr>in_bracket := True\<rparr>" b d "'']''"]
  by (simp add: init_split_def split_step_def)

lemma set_join_mem: "c \<in> set (join sep ws) \<Longrightarrow> c \<in> set sep \<or> (\<exists>w \<in> set ws. c \<in> set w)"
  by (induction sep ws rule: join.induct) auto

lemma passes_term:
  assumes "wf_term t" "d \<in> {CHR ''+'', CHR '',''}"
  shows "passes d init_split (print_term t) = Some init_split"
proof -
  have fld: "passes d init_split (f @ CHR '':'' # r) = passes d init_split r" if "good_field f" for f r
  proof -
    have "\<forall>c \<in> set (f @ '':''). c \<noteq> d \<and> c \<notin> set unsplit_chars"
      using that assms(2) field_char_not_special
      by (auto simp: good_field_def list_all_iff unsplit_chars_def)
    from passes_append [OF passes_plain [OF this], of init_split r] show ?thesis by simp
  qed
  show ?thesis
  proof (cases t)
    case (Cmp f opc v)
    then have "\<forall>c \<in> set opc. c \<noteq> d \<and> c \<notin> set unsplit_chars"
      using assms by (auto simp: printed_ops_def unsplit_chars_def)
    from passes_append [OF passes_plain [OF this], of init_split "quoted v"]
    show ?thesis using Cmp assms(1) fld passes_quoted [of v d] by (auto simp: good_value_def list_all_iff)
  next
    case (Member f neg vs)
    then have "\<forall>c \<in> set (if neg then ''!'' else []). c \<noteq> d \<and> c \<notin> set unsplit_chars"
      using assms by (auto simp: unsplit_chars_def)
    note passes_append [OF passes_plain [OF this], of init_split]
    moreover have "CHR '']'' \<notin> set (join '','' (map quoted vs))"
      using Member assms(1) by (auto dest!: set_join_mem simp: quoted_def list_all_iff)
    ultimately show ?thesis using Member assms(1) fld passes_bracketed by simp
  qed
qed

lemma passes_group:
  "\<forall>t \<in> set ts. wf_term t \<Longrightarrow> passes (CHR ''+'') init_split (print_group ts) = Some init_split"
proof (induction "'',''" "map print_term ts" arbitrary: ts rule: join.induct)
  case (3 x y ys)
  then obtain t us where ts: "ts = t # us" "x = print_term t" "y # ys = map print_term us" by (cases ts) auto
  have "passes (CHR ''+'') init_split (x @ CHR '','' # z) = passes (CHR ''+'') init_split z" for z
    using passes_append [OF passes_term [of t "CHR ''+''"]] 3(3) ts
    by (simp add: split_step_def init_split_def)
  then show ?case using 3(1) [of us] 3(3) ts by (cases us) (auto simp: print_group_def)
qed (auto simp: print_group_def passes_term)

lemma split_group:
  assumes "ts \<noteq> []" "\<forall>t \<in> set ts. wf_term t"
  shows "smart_split (print_group ts) (CHR '','') = map print_term ts"
  using smart_split_join [of "CHR '',''" "map print_term ts"] assms
  by (auto simp: print_group_def split_step_def init_split_def passes_term [unfolded init_split_def])

lemma split_fql:
  assumes "wf_groups gs"
  shows "smart_split (print_fql gs) (CHR ''+'') = map print_group gs"
  using smart_split_join [of "CHR ''+''" "map print_group gs"] assms
  by (auto simp: print_fql_def split_step_def init_split_def passes_group [unfolded init_split_def]
      wf_groups_def list_all_iff)

section \<open>What the filter of a printed expression keeps\<close>

fun or_clauses :: "fql_term list \<Rightarrow> fql_clause list" where
  "or_clauses [] = []"
| "or_clauses (t # ts) = clause_of t # map (\<lambda>u. clause_of u\<lparr>fql_conj := Conj_or\<rparr>) ts"

lemma clause_of_conj [simp]: "fql_conj (clause_of t) = Conj_and"
  by (cases t) simp_all

lemma parse_or_terms_later:
  "0 < i \<Longrightarrow> \<forall>t \<in> set ts. wf_term t \<Longrightarrow>
     parse_or_terms i (map print_term ts) = map (\<lambda>u. clause_of u\<lparr>fql_conj := Conj_or\<rparr>) ts"
  by (induction ts arbitrary: i) (auto simp: parse_print_term)

lemma parse_or_terms_printed:
  "\<forall>t \<in> set ts. wf_term t \<Longrightarrow> parse_or_terms 0 (map print_term ts) = or_clauses ts"
  using parse_or_terms_later [of "Suc 0"]
  by (cases ts) (auto simp: parse_print_term intro: fql_clause.equality)

lemma fold_or_clauses:
  "fold add_clause (map (\<lambda>u. clause_of u\<lparr>fql_conj := Conj_or\<rparr>) ts) (gs @ [g]) =
     gs @ [g @ map (\<lambda>u. clause_of u\<lparr>fql_conj := Conj_or\<rparr>) ts]"
  by (induction ts arbitrary: g) (auto simp: add_clause_def)

lemma fold_groups:
  "\<forall>g \<in> set gs. g \<noteq> [] \<Longrightarrow> fold add_clause (concat (map or_clauses gs)) acc = acc @ map or_clauses gs"
proof (induction gs arbitrary: acc)
  case (Cons g gs)
  then obtain t ts where "g = t # ts" by (cases g) auto
  moreover have "add_clause (clause_of t) acc = acc @ [[clause_of t]]" by (simp add: add_clause_def)
  ultimately show ?case using Cons fold_or_clauses [of ts acc "[clause_of t]"] by simp
qed simp

lemma parse_print_fql:
  assumes "wf_groups gs"
  shows "parse_fql (print_fql gs) = Inr (concat (map or_clauses gs))"
proof -
  obtain g gs' where gs: "gs = g # gs'" using assms by (cases gs) (auto simp: wf_groups_def)
  obtain t ts where g: "g = t # ts" using assms gs by (cases g) (auto simp: wf_groups_def)
  have t: "wf_term t" using assms gs g by (simp add: wf_groups_def)
  obtain c r where p: "print_fql gs = c # r" "\<not> is_space c"
  proof -
    obtain c x where cx: "print_term t = c # x" "is_field_char c"
      using t by (cases t; cases "case t of Cmp f _ _ \<Rightarrow> f | Member f _ _ \<Rightarrow> f")
        (auto simp: good_field_def)
    have "\<exists>r. print_group g = c # r" using cx g by (cases ts) (auto simp: print_group_def)
    then have "\<exists>r. print_fql gs = c # r" using gs by (cases gs') (auto simp: print_fql_def)
    then show ?thesis using that field_char_not_special [OF cx(2)] by blast
  qed
  have ne: "strip (print_fql gs) \<noteq> []"
    using p by (auto simp: strip_def lstrip_def rstrip_def)
  have "concat (map (\<lambda>group. parse_or_terms 0 (smart_split group (CHR '',''))) (map print_group gs))
      = concat (map or_clauses gs)"
    using assms split_group parse_or_terms_printed
    by (auto simp: wf_groups_def list_all_iff intro!: arg_cong [of _ _ concat])
  moreover have "concat (map or_clauses gs) \<noteq> []" using gs g by simp
  ultimately show ?thesis using ne split_fql [OF assms] by (simp add: parse_fql_def Let_def)
qed

text \<open>The meaning of a term, on the set of the candidate texts of the field.\<close>

fun term_holds :: "int \<Rightarrow> pyval \<Rightarrow> fql_term \<Rightarrow> bool" where
  "term_holds now rec (Cmp f opc v) =
     (let fv = get_nested rec f; cs = set (candidate_values fv)
      in case cmp_op opc v of
           Op_eq \<Rightarrow> v \<in> cs
         | Op_neq \<Rightarrow> v \<notin> cs
         | Op_wildcard \<Rightarrow> \<exists>c \<in> cs. fnmatch c v
         | Op_text \<Rightarrow> \<exists>c \<in> cs. text_match c v
         | Op_not_text \<Rightarrow> \<not> (\<exists>c \<in> cs. text_match c v)
         | operator \<Rightarrow> compare_range now fv v operator = Inr True)"
| "term_holds now rec (Member f neg vs) =
     ((set (candidate_values (get_nested rec f)) \<inter> set vs \<noteq> {}) \<noteq> neg)"

text \<open>A relative date far in the past makes the comparison raise; every other term has a truth value.\<close>

fun term_safe :: "int \<Rightarrow> fql_term \<Rightarrow> bool" where
  "term_safe now (Cmp f opc v) \<longleftrightarrow> (case relative_moment now v of Inl e \<Rightarrow> False | Inr m \<Rightarrow> True)"
| "term_safe now (Member f neg vs) \<longleftrightarrow> True"

lemma match_clause_conj [simp]: "match_clause now rec (c\<lparr>fql_conj := j\<rparr>) = match_clause now rec c"
  by (simp add: match_clause_def)

lemma compare_range_safe:
  "term_safe now (Cmp f opc v) \<Longrightarrow> \<exists>b. compare_range now fv v operator = Inr b"
  by (auto simp: compare_range_def split: sum.splits option.splits)

lemma cmp_op_cases:
  "cmp_op opc v \<in> {Op_eq, Op_neq, Op_wildcard, Op_text, Op_not_text, Op_gte, Op_lte, Op_gt, Op_lt}"
  by (simp add: cmp_op_def)

lemma match_term:
  assumes "term_safe now t"
  shows "match_clause now rec (clause_of t) = Inr (term_holds now rec t)"
proof (cases t)
  case (Cmp f opc v)
  obtain b where b: "compare_range now (get_nested rec f) v (cmp_op opc v) = Inr b"
    using compare_range_safe assms Cmp by blast
  show ?thesis
    using Cmp b cmp_op_cases [of opc v]
    by (cases b) (auto simp: match_clause_def any_pair_def all_pairs_def list_ex_iff list_all_iff Let_def)
next
  case (Member f neg vs)
  then show ?thesis by (auto simp: match_clause_def list_ex_iff list_all_iff Let_def)
qed

lemma any_clause_or:
  "\<forall>t \<in> set ts. term_safe now t \<Longrightarrow>
     any_clause now rec (map (\<lambda>u. clause_of u\<lparr>fql_conj := Conj_or\<rparr>) ts) = Inr (list_ex (term_holds now rec) ts)"
  by (induction ts) (auto simp: match_term split: bool.splits)

lemma any_clause_group:
  "\<forall>t \<in> set ts. term_safe now t \<Longrightarrow> any_clause now rec (or_clauses ts) = Inr (list_ex (term_holds now rec) ts)"
  using any_clause_or by (cases ts) (auto simp: match_term split: bool.splits)

lemma all_groups_printed:
  "\<forall>g \<in> set gs. \<forall>t \<in> set g. term_safe now t \<Longrightarrow>
     all_groups now rec (map or_clauses gs) = Inr (list_all (list_ex (term_holds now rec)) gs)"
  by (induction gs) (auto simp: any_clause_group split: bool.splits)

lemma filter_records_total:
  "(\<And>r. all_groups now r groups = Inr (P r)) \<Longrightarrow> filter_records now groups rs = Inr (filter P rs)"
  by (induction rs) auto

text \<open>
  C6. A printed filter expression (groups joined by \<open>+\<close>, the terms of a group by a comma, values in
  quotes and lists in brackets, whatever separators the values themselves contain) selects exactly
  the records for which every group has a term that holds, in the order of the input; reading the
  text, cutting it into groups and terms, and grouping the clauses again lose nothing.
\<close>

theorem fql_filter_correct:
  assumes "wf_groups gs" "\<forall>g \<in> set gs. \<forall>t \<in> set g. term_safe now t"
  shows "apply_fql now records (print_fql gs) =
    Inr (filter (\<lambda>r. list_all (list_ex (term_holds now r)) gs) records)"
proof -
  have ne: "\<forall>g \<in> set gs. g \<noteq> []" "concat (map or_clauses gs) \<noteq> []"
    using assms(1) by (auto simp: wf_groups_def list_all_iff neq_Nil_conv)
  have "group_clauses (concat (map or_clauses gs)) = map or_clauses gs"
    using fold_groups [OF ne(1), of "[]"] by (simp add: group_clauses_def)
  then show ?thesis
    using parse_print_fql [OF assms(1)] ne(2)
      filter_records_total [OF all_groups_printed [OF assms(2)]]
    by (simp add: apply_fql_def del: concat_eq_Nil_conv)
qed

theorem fql_filter_correct_witness:
  "apply_fql 0 [VDict [(''hostname'', VStr ''web+db''), (''tags'', VList [VStr ''a,b''])], VDict [(''hostname'', VStr ''x'')]]
     (print_fql [[Cmp ''hostname'' '''' ''web*''], [Member ''tags'' False [''a,b'', ''c''], Cmp ''hostname'' ''!'' ''web+db'']])
   = Inr [VDict [(''hostname'', VStr ''web+db''), (''tags'', VList [VStr ''a,b''])]]"
  apply (subst fql_filter_correct)
    apply code_simp
   apply code_simp
  apply code_simp
  done

section \<open>Stripping the parentheses\<close>

text \<open>
  The reference: strip, and while the first character is a parenthesis closed by the last one, drop
  both and start over. The position where the parenthesis before a text is closed is found by
  counting.
\<close>

fun close_at :: "nat \<Rightarrow> string \<Rightarrow> nat option" where
  "close_at d [] = None"
| "close_at d (c # cs) =
     (if c = CHR ''('' then map_option Suc (close_at (Suc d) cs)
      else if c = CHR '')'' then (case d of 0 \<Rightarrow> Some 0 | Suc d' \<Rightarrow> map_option Suc (close_at d' cs))
      else map_option Suc (close_at d cs))"

function peel_layers :: "string \<Rightarrow> string" where
  "peel_layers raw =
     (case strip raw of
        [] \<Rightarrow> []
      | c # cs \<Rightarrow>
          if c = CHR ''('' \<and> cs \<noteq> [] \<and> close_at 0 cs = Some (length cs - 1) then peel_layers (butlast cs)
          else c # cs)"
  by pat_completeness auto

lemma length_strip_le: "length (strip s) \<le> length s"
  by (metis strip_def rstrip_def lstrip_def length_rev length_dropWhile_le le_trans)

termination peel_layers
proof (relation "measure length")
  fix raw c cs
  assume "strip raw = c # cs"
  then show "(butlast cs, raw) \<in> measure length" using length_strip_le [of raw] by simp
qed simp

declare peel_layers.simps [simp del]

lemma partner_open:
  "p \<notin> set qs \<Longrightarrow> p < i \<Longrightarrow>
     map_of (partners i (qs @ p # ps) cs) p = map_option (\<lambda>j. i + j) (close_at (length qs) cs)"
proof (induction cs arbitrary: i qs)
  case (Cons c cs)
  show ?case
  proof (cases "c = CHR ''(''")
    case True
    then show ?thesis
      using Cons.IH [of "i # qs" "Suc i"] Cons.prems by (simp add: option.map_comp comp_def)
  next
    case open_no: False
    then show ?thesis
      using Cons.IH [of "tl qs" "Suc i"] Cons.IH [of qs "Suc i"] Cons.prems
      by (cases qs) (auto simp: option.map_comp comp_def)
  qed
qed simp

lemma partner_of:
  "\<forall>p \<in> set opened. p < i \<Longrightarrow>
     map_of (partners i opened (xs @ CHR ''('' # ys)) (i + length xs) =
       map_option (\<lambda>j. i + length xs + 1 + j) (close_at 0 ys)"
proof (induction xs arbitrary: i opened)
  case Nil
  then show ?case using partner_open [of i "[]" "Suc i" opened ys] by (simp add: comp_def)
next
  case (Cons x xs)
  have 1: "map_of (partners (Suc i) st (xs @ CHR ''('' # ys)) (i + length (x # xs)) =
      map_option (\<lambda>j. i + length (x # xs) + 1 + j) (close_at 0 ys)"
    if "set st \<subseteq> insert i (set opened)" for st
    using Cons.IH [of st "Suc i"] Cons.prems that by (auto simp: comp_def less_Suc_eq)
  show ?case
    using 1 [of "i # opened"] 1 [of opened] 1 [of "tl opened"] Cons.prems
    by (cases opened) (auto simp: comp_def)
qed

lemma close_at_bound: "close_at d cs = Some j \<Longrightarrow> j < length cs"
  by (induction cs arbitrary: d j) (auto split: if_splits nat.splits)

lemma close_at_take: "close_at d (take n ys) = Some j \<longleftrightarrow> close_at d ys = Some j \<and> j < n"
proof (induction ys arbitrary: d n j)
  case (Cons y ys)
  then show ?case by (cases n) (auto split: nat.splits)
qed simp

text \<open>The part of a text between two positions.\<close>

definition between :: "string \<Rightarrow> nat \<Rightarrow> nat \<Rightarrow> string" where
  "between s a b = take (b - a) (drop a s)"

lemma between_Cons: "a < b \<Longrightarrow> b \<le> length s \<Longrightarrow> between s a b = s ! a # between s (Suc a) b"
  by (simp add: between_def Cons_nth_drop_Suc [symmetric] take_Cons' Suc_diff_Suc)

lemma between_snoc: "a < b \<Longrightarrow> b \<le> length s \<Longrightarrow> between s a b = between s a (b - 1) @ [s ! (b - 1)]"
  by (cases b) (auto simp: between_def take_Suc_conv_app_nth Suc_diff_le)

lemma skip_left_between:
  "a \<le> b \<Longrightarrow> b \<le> length s \<Longrightarrow>
     \<exists>a'. a \<le> a' \<and> a' \<le> b \<and> skip_left s (int a) (int b - 1) = int a' \<and> lstrip (between s a b) = between s a' b"
proof (induction "b - a" arbitrary: a)
  case 0
  then show ?case by (intro exI [of _ a]) (subst skip_left.simps, auto simp: lstrip_def between_def)
next
  case (Suc n)
  then have ab: "a < b" by simp
  show ?case
  proof (cases "is_space (s ! a)")
    case True
    obtain a' where "Suc a \<le> a'" "a' \<le> b" "skip_left s (int (Suc a)) (int b - 1) = int a'"
      "lstrip (between s (Suc a) b) = between s a' b"
    proof -
      have "n = b - Suc a" using Suc(2) by simp
      from Suc(1) [OF this] show ?thesis using that ab Suc.prems by auto
    qed
    moreover have "skip_left s (int a) (int b - 1) = skip_left s (int (Suc a)) (int b - 1)"
      using True ab by (subst skip_left.simps) (simp add: add.commute)
    ultimately show ?thesis
      using True ab Suc.prems by (intro exI [of _ a']) (simp add: lstrip_def between_Cons)
  next
    case False
    then show ?thesis
      using ab Suc.prems by (intro exI [of _ a]) (subst skip_left.simps, simp add: lstrip_def between_Cons)
  qed
qed

lemma skip_right_between:
  "a \<le> b \<Longrightarrow> b \<le> length s \<Longrightarrow>
     \<exists>b'. a \<le> b' \<and> b' \<le> b \<and> skip_right s (int a) (int b - 1) = int b' - 1 \<and> rstrip (between s a b) = between s a b'"
proof (induction "b - a" arbitrary: b)
  case 0
  then show ?case by (intro exI [of _ b]) (subst skip_right.simps, auto simp: rstrip_def between_def)
next
  case (Suc n)
  then have ab: "a < b" by simp
  have nb: "nat (int b - 1) = b - 1" by simp
  show ?case
  proof (cases "is_space (s ! (b - 1))")
    case True
    obtain b' where "a \<le> b'" "b' \<le> b - 1" "skip_right s (int a) (int (b - 1) - 1) = int b' - 1"
      "rstrip (between s a (b - 1)) = between s a b'"
    proof -
      have "n = b - 1 - a" "a \<le> b - 1" "b - 1 \<le> length s" using Suc(2) ab Suc.prems by simp_all
      from Suc(1) [OF this] show ?thesis using that by blast
    qed
    moreover have "skip_right s (int a) (int b - 1) = skip_right s (int a) (int (b - 1) - 1)"
      using True ab nb by (subst skip_right.simps) (simp add: of_nat_diff)
    ultimately show ?thesis
      using True ab Suc.prems by (intro exI [of _ b']) (simp add: rstrip_def between_snoc)
  next
    case False
    then show ?thesis
      using ab nb Suc.prems
      by (intro exI [of _ b]) (subst skip_right.simps, simp add: rstrip_def between_snoc)
  qed
qed

lemma strip_between:
  assumes "a \<le> b" "b \<le> length s"
  obtains a' b' where "a' \<le> b'" "b' \<le> length s" "skip_left s (int a) (int b - 1) = int a'"
    "skip_right s (int a') (int b - 1) = int b' - 1" "strip (between s a b) = between s a' b'" "b' - a' \<le> b - a"
proof -
  obtain a' where 1: "a \<le> a'" "a' \<le> b" "skip_left s (int a) (int b - 1) = int a'"
    "lstrip (between s a b) = between s a' b" using skip_left_between [OF assms] by blast
  obtain b' where "a' \<le> b'" "b' \<le> b" "skip_right s (int a') (int b - 1) = int b' - 1"
    "rstrip (between s a' b) = between s a' b'" using skip_right_between [OF 1(2) assms(2)] by blast
  with 1 show ?thesis using that [of a' b'] assms by (simp add: strip_def)
qed

lemma strip_strip: "strip (strip s) = strip s"
proof -
  have "strip s = [] \<or> \<not> is_space (hd (strip s)) \<and> \<not> is_space (last (strip s))"
  proof (cases "strip s = []")
    case False
    let ?l = "dropWhile is_space s"
    have l: "?l \<noteq> []"
    proof
      assume "?l = []"
      then have "strip s = []" by (simp add: strip_def lstrip_def rstrip_def del: dropWhile_eq_Nil_conv)
      then show False using False by contradiction
    qed
    let ?r = "dropWhile is_space (rev ?l)"
    have r: "strip s = rev ?r" by (simp add: strip_def lstrip_def rstrip_def)
    then have r1: "?r \<noteq> []" using False by (simp del: dropWhile_eq_Nil_conv)
    have "last ?r = hd ?l"
      using r1 l by (metis dropWhile_eq_drop last_drop last_rev drop_eq_Nil2 not_le)
    then show ?thesis
      using r r1 l hd_dropWhile [of is_space s] hd_dropWhile [of is_space "rev ?l"]
      by (auto simp: hd_rev last_rev)
  qed simp
  then show ?thesis by (rule strip_no_space)
qed

lemma peel_layers_plain:
  assumes "b \<le> length s" "strip (between s a b) = between s a b" "\<not> (Suc a < b \<and> s ! a = CHR ''('')"
  shows "peel_layers (between s a b) = between s a b"
proof (cases "a < b")
  case True
  then have "between s a b = s ! a # between s (Suc a) b" using assms(1) by (simp add: between_Cons)
  moreover have "s ! a = CHR ''('' \<Longrightarrow> between s (Suc a) b = []"
    using assms(3) True by (simp add: between_def)
  ultimately show ?thesis using assms(2) by (subst peel_layers.simps) auto
next
  case False
  then have "between s a b = []" by (simp add: between_def)
  then show ?thesis using assms(2) by (subst peel_layers.simps) simp
qed

text \<open>The recorded partner is the end of the part exactly when counting inside the part closes there.\<close>

lemma partner_iff_close:
  assumes "Suc a < b" "b \<le> length s" "s ! a = CHR ''(''"
  shows "map_of (partners 0 [] s) a = Some (b - 1) \<longleftrightarrow>
    close_at 0 (between s (Suc a) b) = Some (length (between s (Suc a) b) - 1)"
proof -
  let ?ys = "drop (Suc a) s"
  have "s = take a s @ CHR ''('' # ?ys" "length (take a s) = a"
    using assms id_take_nth_drop [of a s] by simp_all
  then have m: "map_of (partners 0 [] s) a = map_option (\<lambda>j. a + 1 + j) (close_at 0 ?ys)"
    using partner_of [of "[]" 0 "take a s" ?ys] by simp
  have cs: "between s (Suc a) b = take (b - Suc a) ?ys" by (simp add: between_def)
  have len: "length (between s (Suc a) b) = b - Suc a" using assms by (simp add: between_def)
  show ?thesis unfolding len unfolding cs close_at_take m using assms(1) by auto
qed

lemma peel_between:
  "a \<le> b \<Longrightarrow> b \<le> length s \<Longrightarrow> strip (between s a b) = between s a b \<Longrightarrow>
     (case peel s (partners 0 [] s) (int a) (int b - 1) of (lo, hi) \<Rightarrow> py_slice s lo (hi + 1))
       = peel_layers (between s a b)"
proof (induction "b - a" arbitrary: a b rule: less_induct)
  case less
  let ?ps = "partners 0 [] s"
  have stop: "(case (int a, int b - 1) of (lo, hi) \<Rightarrow> py_slice s lo (hi + 1)) = between s a b"
    by (simp add: py_slice_nat between_def)
  show ?case
  proof (cases "Suc a < b \<and> s ! a = CHR ''(''")
    case False
    have "peel s ?ps (int a) (int b - 1) = (int a, int b - 1)"
      using False by (subst peel.simps) auto
    moreover have "peel_layers (between s a b) = between s a b"
      using peel_layers_plain False less.prems by blast
    ultimately show ?thesis using stop by simp
  next
    case True
    have cs: "between s a b = CHR ''('' # between s (Suc a) b"
      using True less.prems by (simp add: between_Cons)
    have len: "length (between s (Suc a) b) = b - Suc a" using less.prems by (simp add: between_def)
    have iff: "map_of ?ps a = Some (b - 1) \<longleftrightarrow>
        close_at 0 (between s (Suc a) b) = Some (length (between s (Suc a) b) - 1)"
      using partner_iff_close True less.prems by blast
    have nb: "nat (int b - 1) = b - 1" by simp
    show ?thesis
    proof (cases "map_of ?ps a = Some (b - 1)")
      case no: False
      then have "peel s ?ps (int a) (int b - 1) = (int a, int b - 1)"
        by (subst peel.simps) (simp add: nb)
      moreover have "peel_layers (between s a b) = between s a b"
        using no iff less.prems(3) cs by (subst peel_layers.simps) simp
      ultimately show ?thesis using stop by simp
    next
      case yes: True
      have b1: "int (b - 1) - 1 = int b - 1 - 1" using True by (simp add: of_nat_diff)
      obtain a' b' where ab: "a' \<le> b'" "b' \<le> length s" "skip_left s (int a + 1) (int b - 1 - 1) = int a'"
        "skip_right s (int a') (int b - 1 - 1) = int b' - 1" "strip (between s (Suc a) (b - 1)) = between s a' b'"
        "b' - a' \<le> (b - 1) - Suc a"
      proof -
        have "Suc a \<le> b - 1" "b - 1 \<le> length s" using True less.prems by auto
        moreover have "int (Suc a) = int a + 1" by simp
        ultimately show ?thesis using strip_between [of "Suc a" "b - 1" s] that unfolding b1 by metis
      qed
      have "peel s ?ps (int a) (int b - 1) = peel s ?ps (int a') (int b' - 1)"
        using True yes ab by (subst peel.simps) (simp add: nb Let_def)
      moreover have "butlast (between s (Suc a) b) = between s (Suc a) (b - 1)"
        using between_snoc [of "Suc a" b s] True less.prems by simp
      then have "peel_layers (between s a b) = peel_layers (between s (Suc a) (b - 1))"
        using yes iff less.prems(3) cs len True by (subst peel_layers.simps) auto
      moreover have "peel_layers (between s (Suc a) (b - 1)) = peel_layers (between s a' b')"
        using ab(5) strip_strip [of "between s (Suc a) (b - 1)"]
        by (subst (1 2) peel_layers.simps) simp
      moreover have "strip (between s a' b') = between s a' b'"
        using ab(5) strip_strip [of "between s (Suc a) (b - 1)"] by simp
      moreover have "b' - a' < b - a" using ab(6) True by linarith
      ultimately show ?thesis using less.hyps [of b' a'] ab(1,2) by simp
    qed
  qed
qed

text \<open>
  The parenthesis stripper, which finds every bracket's partner in one pass and then moves two
  indices inwards, returns on every text what peeling one enclosing pair at a time and rescanning
  the rest returns.
\<close>

theorem ungrouped_peels_layers: "ungrouped raw = peel_layers raw"
proof -
  have w: "between (strip raw) 0 (length (strip raw)) = strip raw" by (simp add: between_def)
  then have "ungrouped raw = peel_layers (strip raw)"
    using peel_between [of 0 "length (strip raw)" "strip raw"] strip_strip [of raw]
    by (simp add: ungrouped_def)
  also have "\<dots> = peel_layers raw"
    using strip_strip [of raw] by (subst (1 2) peel_layers.simps) simp
  finally show ?thesis .
qed

end
