(* ===== verification/Py_Json.thy ===== *)
theory Py_Json
  imports Py_Base64
begin

text \<open>
  \<open>json.dumps\<close> (ASCII output, as the sources call it) and \<open>json.loads\<close> on the values of the
  development, with the round trip between them. Nesting is limited by the length of the text
  (the fuel of the parser), where CPython stops at its recursion limit.
\<close>

section \<open>\<open>repr\<close> of a float\<close>

fun exp10 :: "nat \<Rightarrow> rat \<Rightarrow> int" where
  "exp10 0 a = 0"
| "exp10 (Suc n) a = (if 10 \<le> a then exp10 n (a / 10) + 1 else if a < 1 then exp10 n (a * 10) - 1 else 0)"

definition ten_pow :: "int \<Rightarrow> rat" where
  "ten_pow e = (if 0 \<le> e then 10 ^ nat e else 1 / 10 ^ nat (- e))"

text \<open>The nearest decimal with \<open>n\<close> digits, as a mantissa and the exponent of its first digit.\<close>

definition decimal_at :: "rat \<Rightarrow> nat \<Rightarrow> int \<times> int" where
  "decimal_at a n =
     (let e = exp10 700 a; m = round_half_even (a / ten_pow (e - int n + 1))
      in if m = 10 ^ n then (m div 10, e + 1) else (m, e))"

definition shortest_decimal :: "rat \<Rightarrow> int \<times> int \<times> nat" where
  "shortest_decimal a =
     (case find (\<lambda>n. let (m, e) = decimal_at a n
                     in round_double (of_int m * ten_pow (e - int n + 1)) = Fin a) [1..<17] of
        None \<Rightarrow> (let (m, e) = decimal_at a 17 in (m, e, 17))
      | Some n \<Rightarrow> (let (m, e) = decimal_at a n in (m, e, n)))"

definition float_repr :: "pyfloat \<Rightarrow> string" where
  "float_repr f =
     (case f of
        NaN \<Rightarrow> ''nan'' | PosInf \<Rightarrow> ''inf'' | NegInf \<Rightarrow> ''-inf''
      | Fin q \<Rightarrow>
          (if q = 0 then ''0.0''
           else let (m, e, n) = shortest_decimal \<bar>q\<bar>;
                    ds = str_of_int m;
                    body = (if - 4 \<le> e \<and> e < 16
                            then if e < 0 then ''0.'' @ replicate (nat (- e - 1)) CHR ''0'' @ ds
                                 else if int n \<le> e + 1 then ds @ replicate (nat (e + 1 - int n)) CHR ''0'' @ ''.0''
                                 else take (nat (e + 1)) ds @ ''.'' @ drop (nat (e + 1)) ds
                            else (if n = 1 then ds else take 1 ds @ ''.'' @ drop 1 ds) @
                                 (if e < 0 then ''e-'' else ''e+'') @
                                 (if \<bar>e\<bar> < 10 then ''0'' else []) @ str_of_int \<bar>e\<bar>)
                in if q < 0 then CHR ''-'' # body else body))"

section \<open>\<open>json.dumps\<close>\<close>

definition u4 :: "nat \<Rightarrow> string" where
  "u4 n = [CHR 0x5C, CHR ''u'', hex_digit (n div 4096), hex_digit (n div 256 mod 16),
           hex_digit (n div 16 mod 16), hex_digit (n mod 16)]"

definition json_char :: "nat \<Rightarrow> string" where
  "json_char n =
     (if n = 34 then [CHR 0x5C, CHR 0x22]
      else if n = 92 then [CHR 0x5C, CHR 0x5C]
      else if n = 10 then [CHR 0x5C, CHR ''n'']
      else if n = 13 then [CHR 0x5C, CHR ''r'']
      else if n = 9 then [CHR 0x5C, CHR ''t'']
      else if n = 12 then [CHR 0x5C, CHR ''f'']
      else if n = 8 then [CHR 0x5C, CHR ''b'']
      else if 32 \<le> n \<and> n < 127 then [char_of n]
      else if n < 65536 then u4 n
      else u4 (55296 + (n - 65536) div 1024) @ u4 (56320 + (n - 65536) mod 1024))"

definition json_str :: "string \<Rightarrow> string" where
  "json_str s =
     [CHR 0x22] @ concat (map json_char (case utf8_points s of None \<Rightarrow> [] | Some ns \<Rightarrow> ns)) @ [CHR 0x22]"

definition json_float :: "string \<Rightarrow> string" where
  "json_float t =
     (if t = ''nan'' then ''NaN'' else if t = ''inf'' then ''Infinity''
      else if t = ''-inf'' then ''-Infinity'' else t)"

text \<open>The separators are \<open>", "\<close> and \<open>": "\<close> unless the caller gives others.\<close>

fun json_dumps :: "string \<Rightarrow> string \<Rightarrow> pyval \<Rightarrow> string" where
  "json_dumps isep ks VNone = ''null''"
| "json_dumps isep ks (VBool b) = (if b then ''true'' else ''false'')"
| "json_dumps isep ks (VInt n) = str_of_int n"
| "json_dumps isep ks (VFloat t) = json_float t"
| "json_dumps isep ks (VStr s) = json_str s"
| "json_dumps isep ks (VList vs) = ''['' @ join isep (map (json_dumps isep ks) vs) @ '']''"
| "json_dumps isep ks (VDict kvs) =
     ''{'' @ join isep (map (\<lambda>(k, v). json_str k @ ks @ json_dumps isep ks v) kvs) @ ''}''"

section \<open>\<open>json.loads\<close>\<close>

definition is_json_ws :: "char \<Rightarrow> bool" where
  "is_json_ws c \<longleftrightarrow> c \<in> {CHR '' '', CHR 0x09, CHR 0x0A, CHR 0x0D}"

definition jws :: "string \<Rightarrow> string" where
  "jws s = dropWhile is_json_ws s"

definition hex_val :: "char \<Rightarrow> nat option" where
  "hex_val c =
     (let n = of_char c :: nat
      in if 48 \<le> n \<and> n \<le> 57 then Some (n - 48)
         else if 97 \<le> n \<and> n \<le> 102 then Some (n - 87)
         else if 65 \<le> n \<and> n \<le> 70 then Some (n - 55)
         else None)"

fun hex4 :: "string \<Rightarrow> (nat \<times> string) option" where
  "hex4 (a # b # c # d # r) =
     (case (hex_val a, hex_val b, hex_val c, hex_val d) of
        (Some w, Some x, Some y, Some z) \<Rightarrow> Some (((w * 16 + x) * 16 + y) * 16 + z, r)
      | _ \<Rightarrow> None)"
| "hex4 _ = None"

text \<open>The UTF-8 bytes of a code point (a lone surrogate in its three-byte form).\<close>

definition utf8_enc :: "nat \<Rightarrow> string" where
  "utf8_enc n =
     (if n < 128 then [char_of n]
      else if n < 2048 then map char_of [192 + n div 64, 128 + n mod 64]
      else if n < 65536 then map char_of [224 + n div 4096, 128 + n div 64 mod 64, 128 + n mod 64]
      else map char_of [240 + n div 262144, 128 + n div 4096 mod 64, 128 + n div 64 mod 64, 128 + n mod 64])"

definition simple_escapes :: "(char \<times> char) list" where
  "simple_escapes =
     [(CHR 0x22, CHR 0x22), (CHR 0x5C, CHR 0x5C), (CHR ''/'', CHR ''/''), (CHR ''b'', CHR 0x08),
      (CHR ''f'', CHR 0x0C), (CHR ''n'', CHR 0x0A), (CHR ''r'', CHR 0x0D), (CHR ''t'', CHR 0x09)]"

text \<open>What follows \<open>\\u\<close>: four digits, or a surrogate pair.\<close>

definition unescape_u :: "string \<Rightarrow> (nat \<times> string) option" where
  "unescape_u s =
     (case hex4 s of
        None \<Rightarrow> None
      | Some (n, r) \<Rightarrow>
          (if 55296 \<le> n \<and> n < 56320
           then case r of
                  b # u # r2 \<Rightarrow>
                    (if b = CHR 0x5C \<and> u = CHR ''u''
                     then case hex4 r2 of
                            Some (m, r3) \<Rightarrow>
                              (if 56320 \<le> m \<and> m < 57344
                               then Some (65536 + (n - 55296) * 1024 + (m - 56320), r3) else Some (n, r))
                          | None \<Rightarrow> Some (n, r)
                     else Some (n, r))
                | _ \<Rightarrow> Some (n, r)
           else Some (n, r)))"

lemma hex4_shorter: "hex4 s = Some (n, r) \<Longrightarrow> length r < length s"
  by (induction s rule: hex4.induct) (auto split: option.splits)

lemma unescape_u_shorter: "unescape_u s = Some (n, r) \<Longrightarrow> length r < length s"
  unfolding unescape_u_def
  by (auto split: option.splits if_splits list.splits dest!: hex4_shorter)

text \<open>The rest of a string literal, after its opening quote.\<close>

function scan_str :: "string \<Rightarrow> (string \<times> string) option" where
  "scan_str [] = None"
| "scan_str (c # cs) =
     (if c = CHR 0x22 then Some ([], cs)
      else if c = CHR 0x5C then
        (case cs of
           [] \<Rightarrow> None
         | e # es \<Rightarrow>
             (if e = CHR ''u''
              then case unescape_u es of
                     None \<Rightarrow> None
                   | Some (n, r) \<Rightarrow> map_option (\<lambda>(s, t). (utf8_enc n @ s, t)) (scan_str r)
              else case map_of simple_escapes e of
                     None \<Rightarrow> None
                   | Some x \<Rightarrow> map_option (\<lambda>(s, t). (x # s, t)) (scan_str es)))
      else if of_char c < (32 :: nat) then None
      else map_option (\<lambda>(s, t). (c # s, t)) (scan_str cs))"
  by pat_completeness auto

termination scan_str
  by (relation "measure length") (auto dest: unescape_u_shorter)

text \<open>A number off the front of a text, and what follows it.\<close>

definition scan_digits :: "string \<Rightarrow> string \<times> string" where
  "scan_digits s = (takeWhile is_digit s, dropWhile is_digit s)"

definition scan_frac :: "string \<Rightarrow> string \<times> string" where
  "scan_frac s =
     (case s of
        c # cs \<Rightarrow> (let (ds, r) = scan_digits cs in if c = CHR ''.'' \<and> ds \<noteq> [] then (c # ds, r) else ([], s))
      | [] \<Rightarrow> ([], []))"

definition scan_exp :: "string \<Rightarrow> string \<times> string" where
  "scan_exp s =
     (case s of
        c # cs \<Rightarrow>
          (let (sg, body) = (case cs of d # ds \<Rightarrow> if d = CHR ''+'' \<or> d = CHR ''-'' then ([d], ds) else ([], cs)
                             | [] \<Rightarrow> ([], []));
               (ds, r) = scan_digits body
           in if (c = CHR ''e'' \<or> c = CHR ''E'') \<and> ds \<noteq> [] then (c # sg @ ds, r) else ([], s))
      | [] \<Rightarrow> ([], []))"

definition scan_number :: "string \<Rightarrow> (pyval \<times> string) option" where
  "scan_number s =
     (let (sg, body) = (case s of c # cs \<Rightarrow> if c = CHR ''-'' then ([c], cs) else ([], s) | [] \<Rightarrow> ([], []));
          (ip, r1) = (case body of
                        c # cs \<Rightarrow> if c = CHR ''0'' then ([c], cs) else scan_digits body
                      | [] \<Rightarrow> ([], []));
          (fp, r2) = scan_frac r1;
          (ep, r3) = scan_exp r2
      in if ip = [] then None
         else if fp = [] \<and> ep = []
         then map_option (\<lambda>n. (VInt n, r1)) (int_of_str (sg @ ip))
         else map_option (\<lambda>f. (VFloat (float_repr f), r3)) (float_of_str (sg @ ip @ fp @ ep)))"

definition json_literals :: "(string \<times> pyval) list" where
  "json_literals = [(''null'', VNone), (''true'', VBool True), (''false'', VBool False),
     (''NaN'', VFloat ''nan''), (''Infinity'', VFloat ''inf''), (''-Infinity'', VFloat ''-inf'')]"

definition scan_scalar :: "string \<Rightarrow> (pyval \<times> string) option" where
  "scan_scalar s =
     (case find (\<lambda>(w, v). startswith s w) json_literals of
        Some (w, v) \<Rightarrow> Some (v, drop (length w) s)
      | None \<Rightarrow> scan_number s)"

fun parse_value :: "nat \<Rightarrow> string \<Rightarrow> (pyval \<times> string) option"
and parse_elems :: "nat \<Rightarrow> pyval list \<Rightarrow> string \<Rightarrow> (pyval \<times> string) option"
and parse_members :: "nat \<Rightarrow> jobj \<Rightarrow> string \<Rightarrow> (pyval \<times> string) option" where
  "parse_value 0 s = None"
| "parse_value (Suc f) s =
     (case s of
        [] \<Rightarrow> None
      | c # cs \<Rightarrow>
          (if c = CHR 0x22 then map_option (\<lambda>(t, r). (VStr t, r)) (scan_str cs)
           else if c = CHR ''['' then
             (case jws cs of
                d # r \<Rightarrow> if d = CHR '']'' then Some (VList [], r) else parse_elems f [] (d # r)
              | [] \<Rightarrow> None)
           else if c = CHR ''{'' then
             (case jws cs of
                d # r \<Rightarrow> if d = CHR ''}'' then Some (VDict [], r) else parse_members f [] (d # r)
              | [] \<Rightarrow> None)
           else scan_scalar s))"
| "parse_elems 0 acc s = None"
| "parse_elems (Suc f) acc s =
     (case parse_value f s of
        None \<Rightarrow> None
      | Some (v, r) \<Rightarrow>
          (case jws r of
             d # t \<Rightarrow> if d = CHR '']'' then Some (VList (acc @ [v]), t)
                      else if d = CHR '','' then parse_elems f (acc @ [v]) (jws t)
                      else None
           | [] \<Rightarrow> None))"
| "parse_members 0 acc s = None"
| "parse_members (Suc f) acc s =
     (case s of
        [] \<Rightarrow> None
      | q # cs \<Rightarrow>
          (if q \<noteq> CHR 0x22 then None
           else case scan_str cs of
                  None \<Rightarrow> None
                | Some (k, r) \<Rightarrow>
                    (case jws r of
                       [] \<Rightarrow> None
                     | col # t \<Rightarrow>
                         (if col \<noteq> CHR '':'' then None
                          else case parse_value f (jws t) of
                                 None \<Rightarrow> None
                               | Some (v, r2) \<Rightarrow>
                                   (case jws r2 of
                                      d # t2 \<Rightarrow>
                                        if d = CHR ''}'' then Some (VDict (AList.update k v acc), t2)
                                        else if d = CHR '','' then parse_members f (AList.update k v acc) (jws t2)
                                        else None
                                    | [] \<Rightarrow> None)))))"

definition json_loads :: "string \<Rightarrow> pyval option" where
  "json_loads s =
     (case parse_value (2 * length s + 2) (jws s) of
        None \<Rightarrow> None
      | Some (v, r) \<Rightarrow> if jws r = [] then Some v else None)"

section \<open>The round trip\<close>

declare parse_value.simps [simp del] parse_elems.simps [simp del] parse_members.simps [simp del]

text \<open>Values without floats, with ASCII text, integers CPython converts, and distinct keys.\<close>

fun json_plain :: "pyval \<Rightarrow> bool" where
  "json_plain (VInt n) \<longleftrightarrow> \<bar>n\<bar> < 10 ^ max_int_digits"
| "json_plain (VFloat t) \<longleftrightarrow> False"
| "json_plain (VStr s) \<longleftrightarrow> is_ascii s"
| "json_plain (VList vs) \<longleftrightarrow> list_all json_plain vs"
| "json_plain (VDict kvs) \<longleftrightarrow> wf_dict kvs \<and> list_all (\<lambda>(k, v). is_ascii k \<and> json_plain v) kvs"
| "json_plain v \<longleftrightarrow> True"

lemma hex_val_hex_digit [simp]: "d < 16 \<Longrightarrow> hex_val (hex_digit d) = Some d"
  by (auto simp: hex_val_def hex_digit_def Let_def)

lemma unescape_u_u4: "n < 128 \<Longrightarrow> unescape_u (drop 2 (u4 n) @ t) = Some (n, t)"
proof -
  assume n: "n < 128"
  then have d: "n div 4096 = 0" "n div 256 mod 16 = 0" "n div 16 mod 16 < 16" "n mod 16 < 16" by auto
  have "n div 16 mod 16 = n div 16" using n by simp
  then have "n div 16 mod 16 * 16 + n mod 16 = n" by simp
  then show ?thesis using n d by (simp add: unescape_u_def u4_def)
qed

lemma char_of_specials:
  "char_of (34 :: nat) = CHR 0x22" "char_of (92 :: nat) = CHR 0x5C" "char_of (10 :: nat) = CHR 0x0A"
  "char_of (13 :: nat) = CHR 0x0D" "char_of (9 :: nat) = CHR 0x09" "char_of (12 :: nat) = CHR 0x0C"
  "char_of (8 :: nat) = CHR 0x08" "char_of (48 :: nat) = CHR ''0''"
  by code_simp+

lemma scan_json_char:
  "n < 128 \<Longrightarrow> scan_str (json_char n @ t) = map_option (\<lambda>(s, r). (char_of n # s, r)) (scan_str t)"
proof -
  assume n: "n < 128"
  consider "n \<in> {34, 92, 10, 13, 9, 12, 8}" | "32 \<le> n" "n < 127" "n \<noteq> 34" "n \<noteq> 92"
    | "n < 32 \<or> n = 127" "n \<notin> {34, 92, 10, 13, 9, 12, 8}" using n by force
  then show ?thesis
  proof cases
    case 1
    then show ?thesis by (auto simp: json_char_def simple_escapes_def char_of_specials)
  next
    case 2
    then have "char_of n \<noteq> CHR 0x22" "char_of n \<noteq> CHR 0x5C" "of_char (char_of n :: char) = n"
      using n by (auto simp: char_of_eq_iff take_bit_nat_def) 
    then show ?thesis using 2 by (auto simp: json_char_def)
  next
    case 3
    then have "json_char n = [CHR 0x5C, CHR ''u''] @ drop 2 (u4 n)"
      using n by (auto simp: json_char_def u4_def)
    then show ?thesis using unescape_u_u4 [OF n, of t] n by (simp add: utf8_enc_def)
  qed
qed

lemma scan_json_str:
  "is_ascii s \<Longrightarrow> scan_str (tl (json_str s) @ r) = Some (s, r)"
proof -
  assume a: "is_ascii s"
  then have "scan_str (concat (map json_char (map of_char s)) @ CHR 0x22 # r) = Some (s, r)"
  proof (induction s)
    case (Cons c s)
    then have "of_char c < (128 :: nat)" "is_ascii s" by (simp_all add: is_ascii_def)
    then show ?case using Cons.IH scan_json_char [of "of_char c"] by simp
  qed simp
  then show ?thesis by (simp add: json_str_def utf8_points_ascii [OF a])
qed

lemma json_str_Cons: "json_str s = CHR 0x22 # tl (json_str s)"
  by (simp add: json_str_def)

text \<open>What may follow a value: nothing a number could go on with.\<close>

definition ends_value :: "string \<Rightarrow> bool" where
  "ends_value r \<longleftrightarrow> r = [] \<or> hd r \<in> {CHR '','', CHR '']'', CHR ''}''}"

lemma ends_value_cases: "ends_value (CHR '','' # r)" "ends_value (CHR '']'' # r)" "ends_value (CHR ''}'' # r)" "ends_value []"
  by (simp_all add: ends_value_def)

lemma takeWhile_digits:
  "list_all is_digit ds \<Longrightarrow> ends_value r \<Longrightarrow> takeWhile is_digit (ds @ r) = ds \<and> dropWhile is_digit (ds @ r) = r"
proof -
  assume a: "list_all is_digit ds" "ends_value r"
  have "takeWhile is_digit r = [] \<and> dropWhile is_digit r = r"
    using a(2) by (cases r) (auto simp: ends_value_def is_digit_def)
  then show ?thesis using a(1) by (induction ds) auto
qed

lemma scan_frac_exp_ends: "ends_value r \<Longrightarrow> scan_frac r = ([], r)" "ends_value r \<Longrightarrow> scan_exp r = ([], r)"
  by (auto simp: scan_frac_def scan_exp_def ends_value_def split: list.splits prod.splits)

lemma hd_str_of_nat: "0 < n \<Longrightarrow> hd (str_of_nat n) \<noteq> CHR ''0''"
proof (induction n rule: str_of_nat.induct)
  case (1 n)
  show ?case
  proof (cases "n < 10")
    case True
    then have "str_of_nat n = [digit_char n]" by (simp add: str_of_nat.simps)
    moreover have "digit_char n \<noteq> CHR ''0''" using code_digit_char [OF True] 1(2) by auto
    ultimately show ?thesis by simp
  next
    case False
    then show ?thesis using 1 by (subst str_of_nat.simps) (auto simp: hd_append)
  qed
qed

lemma str_of_nat_0: "str_of_nat 0 = ''0''"
  by (simp add: str_of_nat.simps digit_char_def char_of_specials)

lemma scan_int_part:
  assumes "ends_value r"
  shows "(case str_of_nat n @ r of c # cs \<Rightarrow> if c = CHR ''0'' then ([c], cs) else scan_digits (str_of_nat n @ r)
          | [] \<Rightarrow> ([], [])) = (str_of_nat n, r)"
proof (cases "n = 0")
  case False
  obtain c cs where c: "str_of_nat n = c # cs" by (cases "str_of_nat n") auto
  then have "c \<noteq> CHR ''0''" using hd_str_of_nat [of n] False by simp
  moreover have "scan_digits (str_of_nat n @ r) = (str_of_nat n, r)"
    using takeWhile_digits [OF str_of_nat_digits assms, of n] by (simp add: scan_digits_def)
  ultimately show ?thesis using c by simp
qed (simp add: str_of_nat_0)

lemma int_of_str_str_of_int:
  assumes "\<bar>i\<bar> < 10 ^ max_int_digits"
  shows "int_of_str (str_of_int i) = Some i"
proof (cases "i < 0")
  case True
  let ?s = "str_of_nat (nat (- i))"
  have n: "nat (- i) < 10 ^ max_int_digits" using True assms by (simp add: nat_less_iff)
  have dig: "list_all is_digit ?s" by (rule str_of_nat_digits)
  have len: "length ?s \<le> max_int_digits" using length_str_of_nat [OF n] by (simp add: max_int_digits_def)
  have "strip (CHR ''-'' # ?s) = CHR ''-'' # ?s"
  proof (rule strip_no_space)
    have "is_digit (last ?s)" using dig by (simp add: list_all_iff)
    then show "CHR ''-'' # ?s = [] \<or> \<not> is_space (hd (CHR ''-'' # ?s)) \<and> \<not> is_space (last (CHR ''-'' # ?s))"
      by (simp add: digit_not_special(4)) (simp add: is_space_def)
  qed
  then show ?thesis
    using dig len True
    by (simp add: int_of_str_def str_of_int_def split_sign_def drop_underscores_digits int_of_digits_eq)
next
  case False
  then have "nat i < 10 ^ max_int_digits" using assms by (simp add: nat_less_iff)
  from int_of_str_of_nat [OF this] show ?thesis using False by (simp add: str_of_int_def)
qed

lemma scan_number_int:
  assumes "ends_value r" "\<bar>i\<bar> < 10 ^ max_int_digits"
  shows "scan_number (str_of_int i @ r) = Some (VInt i, r)"
proof -
  have "is_digit (hd (str_of_nat n))" for n using str_of_nat_digits [of n] by (simp add: list_all_iff)
  then have "hd (str_of_nat n) \<noteq> CHR ''-''" for n using digit_not_special(2) by blast
  then have sign: "(case str_of_int i @ r of c # cs \<Rightarrow> if c = CHR ''-'' then ([c], cs) else ([], str_of_int i @ r) | [] \<Rightarrow> ([], []))
      = (if i < 0 then ''-'' else [], str_of_nat (nat \<bar>i\<bar>) @ r)"
    using str_of_nat_digits [of "nat i"] digit_not_special(2)
    by (cases "str_of_nat (nat i)") (auto simp: str_of_int_def)
  have "int_of_str ((if i < 0 then ''-'' else []) @ str_of_nat (nat \<bar>i\<bar>)) = Some i"
    using int_of_str_str_of_int [OF assms(2)] by (auto simp: str_of_int_def)
  then show ?thesis
    unfolding scan_number_def sign Let_def
    by (simp add: scan_int_part [OF assms(1)] scan_frac_exp_ends [OF assms(1)])
qed

lemma str_of_int_shape: "\<exists>n. str_of_int i = str_of_nat n \<or> str_of_int i = CHR ''-'' # str_of_nat n"
  by (cases "i < 0") (auto simp: str_of_int_def)

text \<open>A literal is not the start of a number and the other way round.\<close>

lemma scan_scalar_int:
  assumes "ends_value r" "\<bar>i\<bar> < 10 ^ max_int_digits"
  shows "scan_scalar (str_of_int i @ r) = Some (VInt i, r)"
proof -
  obtain n where n: "str_of_int i = str_of_nat n \<or> str_of_int i = CHR ''-'' # str_of_nat n"
    using str_of_int_shape by blast
  obtain c cs where c: "str_of_nat n = c # cs" by (cases "str_of_nat n") auto
  have "is_digit c" using str_of_nat_digits [of n] c by simp
  then have "find (\<lambda>(w, v). startswith (str_of_int i @ r) w) json_literals = None"
    using n c by (auto simp: json_literals_def startswith_def is_digit_def)
  then show ?thesis using scan_number_int [OF assms] by (simp add: scan_scalar_def)
qed

lemma scan_scalar_literals:
  "scan_scalar (''null'' @ r) = Some (VNone, r)" "scan_scalar (''true'' @ r) = Some (VBool True, r)"
  "scan_scalar (''false'' @ r) = Some (VBool False, r)"
  by (simp_all add: scan_scalar_def json_literals_def startswith_def)

lemma jws_stop: "c \<noteq> CHR '' '' \<Longrightarrow> \<not> is_json_ws c \<Longrightarrow> jws (c # s) = c # s"
  by (simp add: jws_def)

text \<open>The first character of a value is neither white space nor a closing bracket.\<close>

definition opens_value :: "string \<Rightarrow> bool" where
  "opens_value s \<longleftrightarrow> (\<exists>c t. s = c # t \<and> \<not> is_json_ws c \<and> c \<notin> {CHR '']'', CHR ''}''})"

lemma opens_dumps: "json_plain v \<Longrightarrow> opens_value (json_dumps isep ks v)"
proof (cases v)
  case (VInt n)
  obtain m where n: "str_of_int n = str_of_nat m \<or> str_of_int n = CHR ''-'' # str_of_nat m"
    using str_of_int_shape by blast
  obtain c cs where c: "str_of_nat m = c # cs" by (cases "str_of_nat m") auto
  have "is_digit c" using str_of_nat_digits [of m] c by simp
  then show ?thesis using VInt n c by (auto simp: opens_value_def is_json_ws_def is_digit_def)
qed (auto simp: opens_value_def is_json_ws_def json_str_def)

lemma opens_jws: "opens_value s \<Longrightarrow> jws (s @ r) = s @ r"
  by (auto simp: opens_value_def jws_def)

lemma jws_ends: "ends_value r \<Longrightarrow> jws r = r"
  by (cases r) (auto simp: ends_value_def jws_def is_json_ws_def)

text \<open>The separators: a comma or a colon, then blanks.\<close>

definition blank_tail :: "string \<Rightarrow> bool" where
  "blank_tail b \<longleftrightarrow> list_all (\<lambda>c. c = CHR '' '') b"

lemma jws_blank: "blank_tail b \<Longrightarrow> jws (b @ s) = jws s"
  by (induction b) (auto simp: blank_tail_def jws_def is_json_ws_def)

text \<open>Parsing one printed value, as the induction over values provides it for the parts.\<close>

definition reads_back :: "string \<Rightarrow> string \<Rightarrow> pyval \<Rightarrow> bool" where
  "reads_back isep ks v \<longleftrightarrow>
     (\<forall>f r. 2 * length (json_dumps isep ks v) \<le> f \<longrightarrow> ends_value r \<longrightarrow>
        parse_value f (json_dumps isep ks v @ r) = Some (v, r))"

lemma reads_backD:
  "reads_back isep ks v \<Longrightarrow> 2 * length (json_dumps isep ks v) \<le> f \<Longrightarrow> ends_value r \<Longrightarrow>
   parse_value f (json_dumps isep ks v @ r) = Some (v, r)"
  by (simp add: reads_back_def)

lemma parse_elems_back:
  assumes sep: "isep = CHR '','' # b" "blank_tail b"
  shows "vs \<noteq> [] \<Longrightarrow> list_all json_plain vs \<Longrightarrow> (\<And>v. v \<in> set vs \<Longrightarrow> reads_back isep ks v) \<Longrightarrow>
    2 * length (join isep (map (json_dumps isep ks) vs)) + 1 \<le> f \<Longrightarrow>
    parse_elems f acc (join isep (map (json_dumps isep ks) vs) @ CHR '']'' # r) = Some (VList (acc @ vs), r)"
proof (induction vs arbitrary: f acc)
  case (Cons v vs)
  obtain g where f: "f = Suc g" using Cons.prems(4) by (cases f) auto
  show ?case
  proof (cases vs)
    case Nil
    then have "parse_value g (json_dumps isep ks v @ CHR '']'' # r) = Some (v, CHR '']'' # r)"
      using Cons.prems f by (intro reads_backD) (auto simp: ends_value_cases)
    then show ?thesis using Nil f by (simp add: parse_elems.simps jws_def is_json_ws_def)
  next
    case (Cons w ws)
    let ?rest = "join isep (map (json_dumps isep ks) vs)"
    have j: "join isep (map (json_dumps isep ks) (v # vs)) = json_dumps isep ks v @ isep @ ?rest"
      using Cons by (simp add: join_Cons)
    have v: "parse_value g (json_dumps isep ks v @ CHR '','' # b @ ?rest @ CHR '']'' # r) =
          Some (v, CHR '','' # b @ ?rest @ CHR '']'' # r)"
      using Cons.prems(3,4) f j by (intro reads_backD) (auto simp: ends_value_cases)
    have "opens_value (json_dumps isep ks w)" using Cons.prems(2) Cons by (intro opens_dumps) simp
    then obtain c t where c: "json_dumps isep ks w = c # t" "\<not> is_json_ws c" by (auto simp: opens_value_def)
    then have "\<exists>t'. ?rest = c # t'" using Cons by (cases ws) (auto simp: join_Cons)
    then have "jws (?rest @ CHR '']'' # r) = ?rest @ CHR '']'' # r" using c(2) by (auto simp: jws_def)
    moreover have "parse_elems g (acc @ [v]) (?rest @ CHR '']'' # r) = Some (VList ((acc @ [v]) @ vs), r)"
      using Cons.prems Cons j f sep by (intro Cons.IH) auto
    ultimately show ?thesis
      using v f j sep jws_blank [OF sep(2)] by (simp add: parse_elems.simps jws_stop is_json_ws_def)
  qed
qed simp

abbreviation json_member :: "string \<Rightarrow> string \<Rightarrow> string \<times> pyval \<Rightarrow> string" where
  "json_member isep ks \<equiv> \<lambda>(k, v). json_str k @ ks @ json_dumps isep ks v"

lemma members_open: "kvs \<noteq> [] \<Longrightarrow> \<exists>t. join isep (map (json_member isep ks) kvs) = CHR 0x22 # t"
proof -
  assume "kvs \<noteq> []"
  then obtain k v ps where kvs: "kvs = (k, v) # ps" by (cases kvs) auto
  obtain u where u: "json_str k = CHR 0x22 # u" using json_str_Cons by blast
  then show ?thesis using kvs by (cases ps) (simp_all add: join_Cons)
qed

lemma parse_member_step:
  assumes "ks = CHR '':'' # b'" "blank_tail b'" "is_ascii k" "json_plain v" "reads_back isep ks v"
    "2 * length (json_dumps isep ks v) \<le> g" "d = CHR '','' \<or> d = CHR ''}''"
  shows "parse_members (Suc g) acc (json_str k @ ks @ json_dumps isep ks v @ d # t) =
    (if d = CHR ''}'' then Some (VDict (AList.update k v acc), t)
     else parse_members g (AList.update k v acc) (jws t))"
proof -
  obtain u where u: "json_str k = CHR 0x22 # u" "\<And>r. scan_str (u @ r) = Some (k, r)"
    using json_str_Cons [of k] scan_json_str [OF assms(3)] by metis
  have colon: "jws (CHR '':'' # x) = CHR '':'' # x" for x by (simp add: jws_def is_json_ws_def)
  have "jws (b' @ json_dumps isep ks v @ d # t) = json_dumps isep ks v @ d # t"
    using jws_blank [OF assms(2)] opens_jws [OF opens_dumps [OF assms(4)]] by simp
  moreover have "parse_value g (json_dumps isep ks v @ d # t) = Some (v, d # t)"
    using assms(5,6,7) by (intro reads_backD) (auto simp: ends_value_def)
  moreover have "jws (d # t) = d # t" using assms(7) by (auto simp: jws_def is_json_ws_def)
  ultimately show ?thesis
    using assms(1,7) by (auto simp: parse_members.simps u colon)
qed

lemma parse_members_back:
  assumes sep: "isep = CHR '','' # b" "blank_tail b" "ks = CHR '':'' # b'" "blank_tail b'"
  shows "kvs \<noteq> [] \<Longrightarrow> list_all (\<lambda>(k, v). is_ascii k \<and> json_plain v) kvs \<Longrightarrow>
    (\<And>k v. (k, v) \<in> set kvs \<Longrightarrow> reads_back isep ks v) \<Longrightarrow>
    wf_dict (acc @ kvs) \<Longrightarrow>
    2 * length (join isep (map (json_member isep ks) kvs)) + 1 \<le> f \<Longrightarrow>
    parse_members f acc (join isep (map (json_member isep ks) kvs) @ CHR ''}'' # r) = Some (VDict (acc @ kvs), r)"
proof (induction kvs arbitrary: f acc)
  case (Cons p kvs)
  obtain k v where p: "p = (k, v)" by (cases p)
  obtain g where f: "f = Suc g" using Cons.prems(5) by (cases f) auto
  have kv: "is_ascii k" "json_plain v" "reads_back isep ks v" using Cons.prems(2,3) p by auto
  have upd: "AList.update k v acc = acc @ [(k, v)]"
    using Cons.prems(4) p by (intro update_fresh) auto
  note step = parse_member_step [OF sep(3,4) kv]
  show ?case
  proof (cases kvs)
    case Nil
    then show ?thesis using step [of g "CHR ''}''"] Cons.prems(5) p f upd by simp
  next
    case (Cons q qs)
    obtain k2 v2 where q: "q = (k2, v2)" by (cases q)
    let ?rest = "join isep (map (json_member isep ks) kvs)"
    have j: "join isep (map (json_member isep ks) (p # kvs)) = json_str k @ ks @ json_dumps isep ks v @ isep @ ?rest"
      using Cons p by (simp add: join_Cons)
    have "\<exists>t. ?rest = CHR 0x22 # t" using Cons by (intro members_open) simp
    then have "jws (b @ ?rest @ CHR ''}'' # r) = ?rest @ CHR ''}'' # r"
      using jws_blank [OF sep(2)] by (auto simp: jws_def is_json_ws_def)
    moreover have "parse_members g (acc @ [(k, v)]) (?rest @ CHR ''}'' # r) = Some (VDict ((acc @ [(k, v)]) @ kvs), r)"
      using Cons.prems Cons j f p sep by (intro Cons.IH) auto
    moreover have "2 * length (json_dumps isep ks v) \<le> g" using Cons.prems(5) j f by simp
    ultimately show ?thesis
      using step [of g "CHR '',''"] f j upd sep(1) p by simp
  qed
qed simp

lemma parse_int_back:
  assumes "2 * length (str_of_int n) \<le> f" "ends_value r" "\<bar>n\<bar> < 10 ^ max_int_digits"
  shows "parse_value f (str_of_int n @ r) = Some (VInt n, r)"
proof -
  obtain m where m: "str_of_int n = str_of_nat m \<or> str_of_int n = CHR ''-'' # str_of_nat m"
    using str_of_int_shape by blast
  obtain c cs where c: "str_of_nat m = c # cs" by (cases "str_of_nat m") auto
  have "is_digit c" using str_of_nat_digits [of m] c by simp
  then have "\<exists>d ds. str_of_int n = d # ds \<and> d \<notin> {CHR 0x22, CHR ''['', CHR ''{''}"
    using m c by (auto simp: is_digit_def)
  then obtain d ds where d: "str_of_int n = d # ds" "d \<noteq> CHR 0x22" "d \<noteq> CHR ''[''" "d \<noteq> CHR ''{''" by auto
  obtain g where "f = Suc g" using assms(1) d(1) by (cases f) auto
  then show ?thesis using d scan_scalar_int [OF assms(2,3)] by (simp add: parse_value.simps)
qed

lemma parse_str_back:
  assumes "2 * length (json_str t) \<le> f" "is_ascii t"
  shows "parse_value f (json_str t @ r) = Some (VStr t, r)"
proof -
  obtain g where g: "f = Suc g" using assms(1) json_str_Cons [of t] by (cases f) auto
  show ?thesis
    using scan_json_str [OF assms(2), of r] g by (subst json_str_Cons) (simp add: parse_value.simps)
qed

lemma parse_literal_back:
  assumes "8 \<le> f"
  shows "parse_value f (''null'' @ r) = Some (VNone, r)" "parse_value f (''true'' @ r) = Some (VBool True, r)"
    "parse_value f (''false'' @ r) = Some (VBool False, r)"
proof -
  obtain g where "f = Suc g" using assms by (cases f) auto
  then show "parse_value f (''null'' @ r) = Some (VNone, r)" "parse_value f (''true'' @ r) = Some (VBool True, r)"
    "parse_value f (''false'' @ r) = Some (VBool False, r)"
    using scan_scalar_literals [of r] by (simp_all add: parse_value.simps)
qed

lemma dumps_reads_back:
  assumes sep: "isep = CHR '','' # b" "blank_tail b" "ks = CHR '':'' # b'" "blank_tail b'"
  shows "json_plain v \<Longrightarrow> reads_back isep ks v"
proof (induction v)
  case (VList vs)
  show ?case
    unfolding reads_back_def
  proof (intro allI impI)
    fix f r assume f: "2 * length (json_dumps isep ks (VList vs)) \<le> f" and r: "ends_value r"
    then obtain g where g: "f = Suc g" by (cases f) auto
    show "parse_value f (json_dumps isep ks (VList vs) @ r) = Some (VList vs, r)"
    proof (cases vs)
      case Nil
      then show ?thesis using g by (simp add: parse_value.simps jws_def is_json_ws_def)
    next
      case (Cons w ws)
      let ?j = "join isep (map (json_dumps isep ks) vs)"
      have "opens_value (json_dumps isep ks w)" using VList.prems Cons by (intro opens_dumps) simp
      then obtain c t where c: "json_dumps isep ks w = c # t" "\<not> is_json_ws c" "c \<noteq> CHR '']''"
        by (auto simp: opens_value_def)
      then obtain t' where t': "?j = c # t'" using Cons by (cases ws) (auto simp: join_Cons)
      have "parse_elems g [] (?j @ CHR '']'' # r) = Some (VList ([] @ vs), r)"
        using VList Cons f g by (intro parse_elems_back [OF sep(1,2)]) (auto simp: list_all_iff)
      then show ?thesis using g t' c by (simp add: parse_value.simps jws_def)
    qed
  qed
next
  case (VDict kvs)
  show ?case
    unfolding reads_back_def
  proof (intro allI impI)
    fix f r assume f: "2 * length (json_dumps isep ks (VDict kvs)) \<le> f" and r: "ends_value r"
    then obtain g where g: "f = Suc g" by (cases f) auto
    show "parse_value f (json_dumps isep ks (VDict kvs) @ r) = Some (VDict kvs, r)"
    proof (cases kvs)
      case Nil
      then show ?thesis using g by (simp add: parse_value.simps jws_def is_json_ws_def)
    next
      case (Cons p ps)
      obtain k v where p: "p = (k, v)" by (cases p)
      let ?j = "join isep (map (json_member isep ks) kvs)"
      obtain t' where t': "?j = CHR 0x22 # t'" using members_open [of kvs isep ks] Cons by blast
      have rb: "reads_back isep ks v'" if "(k', v') \<in> set kvs" for k' v'
        using VDict.IH [of "(k', v')" v'] VDict.prems that by (auto simp: list_all_iff)
      have "parse_members g [] (?j @ CHR ''}'' # r) = Some (VDict ([] @ kvs), r)"
        using VDict.prems Cons f g by (intro parse_members_back [OF sep] rb) auto
      then show ?thesis using g t' by (simp add: parse_value.simps jws_def is_json_ws_def)
    qed
  qed
next
  case (VInt n)
  then show ?case
    using parse_int_back by (simp add: reads_back_def)
next
  case (VStr t)
  then show ?case using parse_str_back by (simp add: reads_back_def)
next
  case (VBool b)
  then show ?case
    using parse_literal_back by (cases b) (simp_all add: reads_back_def)
next
  case VNone
  then show ?case using parse_literal_back(1) by (simp add: reads_back_def)
qed simp

theorem json_roundtrip:
  assumes "isep = CHR '','' # b" "blank_tail b" "ks = CHR '':'' # b'" "blank_tail b'" "json_plain v"
  shows "json_loads (json_dumps isep ks v) = Some v"
proof -
  have "parse_value (2 * length (json_dumps isep ks v) + 2) (json_dumps isep ks v @ []) = Some (v, [])"
    using dumps_reads_back [OF assms] by (intro reads_backD) (simp_all add: ends_value_cases)
  moreover have "jws (json_dumps isep ks v) = json_dumps isep ks v"
    using opens_jws [OF opens_dumps [OF assms(5)], of isep ks "[]"] by simp
  ultimately show ?thesis by (simp add: json_loads_def jws_def)
qed

section \<open>The text of a float is one\<close>

definition digits1 :: "string \<Rightarrow> bool" where
  "digits1 s \<longleftrightarrow> s \<noteq> [] \<and> list_all is_digit s"

text \<open>Digits, perhaps a fraction, perhaps an exponent.\<close>

definition float_text :: "string \<Rightarrow> bool" where
  "float_text s \<longleftrightarrow> (\<exists>ip fp ep. s = ip @ fp @ ep \<and> digits1 ip \<and>
     (fp = [] \<or> (\<exists>ds. fp = CHR ''.'' # ds \<and> list_all is_digit ds)) \<and>
     (ep = [] \<or> (\<exists>sg ds. ep = CHR ''e'' # sg # ds \<and> sg \<in> {CHR ''+'', CHR ''-''} \<and> digits1 ds)))"

lemma float_text_I:
  "digits1 ip \<Longrightarrow> float_text ip"
  "digits1 ip \<Longrightarrow> list_all is_digit ds \<Longrightarrow> float_text (ip @ CHR ''.'' # ds)"
  "digits1 ip \<Longrightarrow> sg \<in> {CHR ''+'', CHR ''-''} \<Longrightarrow> digits1 es \<Longrightarrow> float_text (ip @ CHR ''e'' # sg # es)"
  "digits1 ip \<Longrightarrow> list_all is_digit ds \<Longrightarrow> sg \<in> {CHR ''+'', CHR ''-''} \<Longrightarrow> digits1 es \<Longrightarrow>
     float_text (ip @ CHR ''.'' # ds @ CHR ''e'' # sg # es)"
proof -
  show "digits1 ip \<Longrightarrow> float_text ip"
    unfolding float_text_def by (rule exI [of _ ip], rule exI [of _ "[]"], rule exI [of _ "[]"]) simp
  show "digits1 ip \<Longrightarrow> list_all is_digit ds \<Longrightarrow> float_text (ip @ CHR ''.'' # ds)"
    unfolding float_text_def by (rule exI [of _ ip], rule exI [of _ "CHR ''.'' # ds"], rule exI [of _ "[]"]) simp
  show "digits1 ip \<Longrightarrow> sg \<in> {CHR ''+'', CHR ''-''} \<Longrightarrow> digits1 es \<Longrightarrow> float_text (ip @ CHR ''e'' # sg # es)"
    unfolding float_text_def by (rule exI [of _ ip], rule exI [of _ "[]"], rule exI [of _ "CHR ''e'' # sg # es"]) simp
  show "digits1 ip \<Longrightarrow> list_all is_digit ds \<Longrightarrow> sg \<in> {CHR ''+'', CHR ''-''} \<Longrightarrow> digits1 es \<Longrightarrow>
     float_text (ip @ CHR ''.'' # ds @ CHR ''e'' # sg # es)"
    unfolding float_text_def
    by (rule exI [of _ ip], rule exI [of _ "CHR ''.'' # ds"], rule exI [of _ "CHR ''e'' # sg # es"]) simp
qed

lemma decimal_of_float_text: "float_text s \<Longrightarrow> decimal_value s \<noteq> None"
proof -
  assume "float_text s"
  then obtain ip fp ep where s: "s = ip @ fp @ ep" "digits1 ip"
    and fp: "fp = [] \<or> (\<exists>ds. fp = CHR ''.'' # ds \<and> list_all is_digit ds)"
    and ep: "ep = [] \<or> (\<exists>sg ds. ep = CHR ''e'' # sg # ds \<and> sg \<in> {CHR ''+'', CHR ''-''} \<and> digits1 ds)"
    unfolding float_text_def by blast
  have nd: "\<not> is_digit CHR ''.''" "\<not> is_digit CHR ''e''" "lower_char CHR ''e'' = CHR ''e''" by code_simp+
  have stop: "takeWhile is_digit ep = [] \<and> dropWhile is_digit ep = ep" using ep nd by auto
  have ds: "takeWhile is_digit (ds @ r) = ds @ takeWhile is_digit r \<and> dropWhile is_digit (ds @ r) = dropWhile is_digit r"
    if "list_all is_digit ds" for ds r
    using that by (induction ds) auto
  have ip: "takeWhile is_digit s = ip \<and> dropWhile is_digit s = fp @ ep"
    using s fp nd stop ds [of ip "fp @ ep"] by (auto simp: digits1_def)
  have ip_ne: "ip \<noteq> []" using s by (simp add: digits1_def)
  have dig: "digits1 ds \<Longrightarrow> ds \<noteq> [] \<and> list_all is_digit ds" for ds by (simp add: digits1_def)
  have tail: "(case ep of [] \<Rightarrow> Some m
       | c # cs \<Rightarrow> (if lower_char c \<noteq> CHR ''e'' then None
           else let (neg, ex) = split_sign cs
                in if ex = [] \<or> \<not> list_all is_digit ex then None
                   else if neg then Some (m / 10 ^ nat_of_digits ex) else Some (m * 10 ^ nat_of_digits ex))) \<noteq> None" for m :: rat
    using ep
  proof
    assume "\<exists>sg ds. ep = CHR ''e'' # sg # ds \<and> sg \<in> {CHR ''+'', CHR ''-''} \<and> digits1 ds"
    then obtain sg ds where e: "ep = CHR ''e'' # sg # ds" "sg = CHR ''+'' \<or> sg = CHR ''-''" "digits1 ds" by blast
    from e(2) have "split_sign (sg # ds) = (sg = CHR ''-'', ds)" by (auto simp: split_sign_def)
    then show ?thesis unfolding e(1) using dig [OF e(3)] nd(3) by (simp split: if_split)
  qed simp
  show ?thesis
  proof (cases "fp = []")
    case True
    have "(case fp @ ep of c # cs \<Rightarrow> (if c = CHR ''.'' then (takeWhile is_digit cs, dropWhile is_digit cs) else ([], fp @ ep))
        | [] \<Rightarrow> ([], [])) = ([], ep)"
      using True ep by auto
    then show ?thesis unfolding decimal_value_def Let_def ip [THEN conjunct1] ip [THEN conjunct2]
      using ip_ne tail [unfolded Let_def] by (simp only: prod.case simp_thms if_False)
  next
    case False
    then obtain fs where fs: "fp = CHR ''.'' # fs" "list_all is_digit fs" using fp by blast
    then have "takeWhile is_digit (fs @ ep) = fs" "dropWhile is_digit (fs @ ep) = ep" using ds [of fs ep] stop by simp_all
    then have "(case fp @ ep of c # cs \<Rightarrow> (if c = CHR ''.'' then (takeWhile is_digit cs, dropWhile is_digit cs) else ([], fp @ ep))
        | [] \<Rightarrow> ([], [])) = (fs, ep)"
      using fs(1) by simp
    then show ?thesis unfolding decimal_value_def Let_def ip [THEN conjunct1] ip [THEN conjunct2]
      using ip_ne tail [unfolded Let_def] by (simp only: prod.case simp_thms if_False)
  qed
qed

lemma float_text_chars: "float_text s \<Longrightarrow> s \<noteq> [] \<and> is_digit (hd s) \<and> (\<forall>c \<in> set s. is_digit c \<or> c \<in> set ''.e+-'')"
  by (auto simp: float_text_def digits1_def list_all_iff hd_append)

lemma float_of_float_text: "float_text s \<Longrightarrow> float_of_str s \<noteq> None \<and> float_of_str (CHR ''-'' # s) \<noteq> None"
proof -
  assume t: "float_text s"
  note c = float_text_chars [OF t]
  have plain: "\<not> is_space x \<and> x \<noteq> CHR ''_''" if "is_digit x \<or> x \<in> set ''.e+-''" for x
    using that by (auto simp: is_digit_def is_space_def)
  have strip: "strip w = w" if "\<forall>x \<in> set w. \<not> is_space x" for w
  proof -
    have d: "dropWhile is_space u = u" if "\<forall>x \<in> set u. \<not> is_space x" for u using that by (cases u) auto
    show ?thesis using that d [of w] d [of "rev w"] by (simp add: strip_def lstrip_def rstrip_def)
  qed
  have under: "drop_underscores p w = Some w" if "\<forall>x \<in> set w. x \<noteq> CHR ''_''" for p w
    using that by (induction w arbitrary: p) auto
  have low: "lower w = w" if "\<forall>x \<in> set w. is_digit x \<or> x \<in> set ''.e+-''" for w
    using that by (induction w) (auto simp: lower_def lower_char_def is_upper_def is_digit_def)
  have hd: "s \<noteq> []" "hd s \<noteq> CHR ''-''" "hd s \<noteq> CHR ''+''" "hd s \<noteq> CHR ''i''" "hd s \<noteq> CHR ''n''"
    using c by (auto simp: is_digit_def)
  then have sign: "split_sign s = (False, s)" "split_sign (CHR ''-'' # s) = (True, s)"
    by (cases s; auto simp: split_sign_def)+
  have words: "s \<noteq> ''inf''" "s \<noteq> ''infinity''" "s \<noteq> ''nan''" using hd by auto
  have all: "\<forall>x \<in> set s. \<not> is_space x" "\<forall>x \<in> set s. x \<noteq> CHR ''_''" using c plain by blast+
  have m: "\<not> is_space CHR ''-''" by code_simp
  show ?thesis
    using decimal_of_float_text [OF t] strip [of s] strip [of "CHR ''-'' # s"] under [of s] under [of "CHR ''-'' # s"] all m
      low [of s] c sign words
    by (auto simp: float_of_str_def Let_def)
qed

lemma str_of_int_digits: "0 \<le> m \<Longrightarrow> digits1 (str_of_int m)"
  using str_of_nat_digits [of "nat m"] by (simp add: str_of_int_def digits1_def)

lemma mantissa_nonneg: "0 \<le> a \<Longrightarrow> shortest_decimal a = (m, e, n) \<Longrightarrow> 0 \<le> m"
proof -
  assume a: "0 \<le> a" "shortest_decimal a = (m, e, n)"
  have d: "0 \<le> fst (decimal_at a k)" for k
  proof -
    have "0 \<le> a / ten_pow x" for x using a(1) by (simp add: ten_pow_def)
    then have "0 \<le> round_half_even (a / ten_pow x)" for x using round_half_even_ge [of 0] by simp
    moreover have "0 \<le> (10 :: int) ^ x div 10" for x by (simp add: pos_imp_zdiv_nonneg_iff)
    ultimately show ?thesis by (simp add: decimal_at_def Let_def)
  qed
  obtain k where "shortest_decimal a = (let (m, e) = decimal_at a k in (m, e, k))"
  proof (cases "find (\<lambda>n. let (m, e) = decimal_at a n in round_double (of_int m * ten_pow (e - int n + 1)) = Fin a) [1..<17]")
    case None
    show thesis by (rule that [of 17]) (simp only: shortest_decimal_def None option.case)
  next
    case (Some k)
    show thesis by (rule that [of k]) (simp only: shortest_decimal_def Some option.case)
  qed
  then show ?thesis using a(2) d [of k] by (simp add: split_beta)
qed

lemma float_repr_is_float: "float_of_str (float_repr f) \<noteq> None"
proof (cases f)
  case (Fin q)
  show ?thesis
  proof (cases "q = 0")
    case True
    then show ?thesis
      using float_of_float_text [OF float_text_I(2) [of "''0''" "''0''"]] Fin by (simp add: float_repr_def digits1_def is_digit_def)
  next
    case False
    obtain m e n where s: "shortest_decimal \<bar>q\<bar> = (m, e, n)" by (metis surj_pair)
    then have m: "0 \<le> m" using mantissa_nonneg [of "\<bar>q\<bar>"] by simp
    let ?ds = "str_of_int m"
    have ds: "digits1 ?ds" using m by (rule str_of_int_digits)
    have z: "digits1 ''0''" "is_digit CHR ''0''" by (simp_all add: digits1_def is_digit_def)
    have sub: "list_all is_digit (drop k ?ds)" "0 < k \<Longrightarrow> digits1 (take k ?ds)" for k
      using ds by (auto simp: digits1_def list_all_iff dest: in_set_dropD in_set_takeD)
    have ex: "digits1 ((if \<bar>e\<bar> < 10 then ''0'' else []) @ str_of_int \<bar>e\<bar>)"
      using str_of_int_digits [of "\<bar>e\<bar>"] z by (auto simp: digits1_def)
    define body where "body = (if - 4 \<le> e \<and> e < 16
        then if e < 0 then ''0.'' @ replicate (nat (- e - 1)) CHR ''0'' @ ?ds
             else if int n \<le> e + 1 then ?ds @ replicate (nat (e + 1 - int n)) CHR ''0'' @ ''.0''
             else take (nat (e + 1)) ?ds @ ''.'' @ drop (nat (e + 1)) ?ds
        else (if n = 1 then ?ds else take 1 ?ds @ ''.'' @ drop 1 ?ds) @
             (if e < 0 then ''e-'' else ''e+'') @ (if \<bar>e\<bar> < 10 then ''0'' else []) @ str_of_int \<bar>e\<bar>)"
    have "float_text body"
    proof (cases "- 4 \<le> e \<and> e < 16")
      case True
      have "float_text (''0'' @ CHR ''.'' # (replicate (nat (- e - 1)) CHR ''0'' @ ?ds))"
        using z ds by (intro float_text_I(2)) (auto simp: digits1_def list_all_iff)
      moreover have "float_text ((?ds @ replicate (nat (e + 1 - int n)) CHR ''0'') @ CHR ''.'' # ''0'')"
        using z ds by (intro float_text_I(2)) (auto simp: digits1_def list_all_iff)
      moreover have "0 \<le> e \<Longrightarrow> float_text (take (nat (e + 1)) ?ds @ CHR ''.'' # drop (nat (e + 1)) ?ds)"
        using sub by (intro float_text_I(2)) simp_all
      ultimately show ?thesis using True by (simp add: body_def)
    next
      case False
      let ?sg = "if e < 0 then CHR ''-'' else CHR ''+''" and ?ex = "(if \<bar>e\<bar> < 10 then ''0'' else []) @ str_of_int \<bar>e\<bar>"
      have "float_text (?ds @ CHR ''e'' # ?sg # ?ex)" using ds ex by (intro float_text_I(3)) simp_all
      moreover have "float_text (take 1 ?ds @ CHR ''.'' # drop 1 ?ds @ CHR ''e'' # ?sg # ?ex)"
        using sub ex by (intro float_text_I(4)) simp_all
      moreover have "body = (if n = 1 then ?ds @ CHR ''e'' # ?sg # ?ex else take 1 ?ds @ CHR ''.'' # drop 1 ?ds @ CHR ''e'' # ?sg # ?ex)"
        using False by (cases "e < 0") (simp_all only: body_def if_False if_True append_Cons append_Nil append_assoc split: if_split, auto)
      ultimately show ?thesis by (cases "n = 1") simp_all
    qed
    then show ?thesis
      using float_of_float_text [of body] Fin \<open>q \<noteq> 0\<close> s by (simp add: float_repr_def Let_def body_def)
  qed
next
  case PosInf
  have "float_of_str ''inf'' \<noteq> None" by code_simp
  then show ?thesis by (simp add: PosInf float_repr_def)
next
  case NegInf
  have "float_of_str ''-inf'' \<noteq> None" by code_simp
  then show ?thesis by (simp add: NegInf float_repr_def)
next
  case NaN
  have "float_of_str ''nan'' \<noteq> None" by code_simp
  then show ?thesis by (simp add: NaN float_repr_def)
qed

end
