(* ===== verification/Py_Url.thy ===== *)
theory Py_Url
  imports Py_Base64
begin

text \<open>
  What the next links use of \<open>urllib.parse\<close>: \<open>urlsplit\<close>, \<open>urlunsplit\<close>, \<open>parse_qsl\<close> (keeping
  blank values) and \<open>urlencode\<close>. Text is its UTF-8 bytes, so percent-decoding yields the
  bytes; a sequence that is not UTF-8 is kept rather than replaced. The URLs are those of
  requests the server has parsed: they have a host, and its brackets are balanced. The host is ASCII, as that of a
  request always is, so the check of \<open>urlsplit\<close> against characters that Unicode normalisation would turn into delimiters passes.
\<close>

section \<open>Quoting\<close>

definition is_alnum :: "char \<Rightarrow> bool" where
  "is_alnum c \<longleftrightarrow> is_digit c \<or> is_upper c \<or> is_lower c"

definition always_safe :: "char \<Rightarrow> bool" where
  "always_safe c \<longleftrightarrow> is_alnum c \<or> c \<in> {CHR ''_'', CHR ''.'', CHR ''-'', CHR ''~''}"

definition hex_upper :: "nat \<Rightarrow> char" where
  "hex_upper d = (if d < 10 then char_of (48 + d) else char_of (55 + d))"

definition quote_char :: "string \<Rightarrow> char \<Rightarrow> string" where
  "quote_char safe c =
     (if always_safe c \<or> c \<in> set safe then [c]
      else [CHR ''%'', hex_upper (of_char c div 16), hex_upper (of_char c mod 16)])"

definition quote :: "string \<Rightarrow> string \<Rightarrow> string" where
  "quote safe s = concat (map (quote_char safe) s)"

text \<open>A space becomes a plus sign, everything else is quoted.\<close>

definition quote_plus_char :: "string \<Rightarrow> char \<Rightarrow> string" where
  "quote_plus_char safe c = (if c = CHR '' '' then ''+'' else quote_char safe c)"

definition quote_plus :: "string \<Rightarrow> string \<Rightarrow> string" where
  "quote_plus safe s = concat (map (quote_plus_char safe) s)"

definition hex_nibble :: "char \<Rightarrow> nat option" where
  "hex_nibble c =
     (let n = of_char c :: nat
      in if 48 \<le> n \<and> n \<le> 57 then Some (n - 48)
         else if 97 \<le> n \<and> n \<le> 102 then Some (n - 87)
         else if 65 \<le> n \<and> n \<le> 70 then Some (n - 55)
         else None)"

fun unquote :: "string \<Rightarrow> string" where
  "unquote [] = []"
| "unquote (c # cs) =
     (if c = CHR ''%''
      then case cs of
             a # b # r \<Rightarrow> (case (hex_nibble a, hex_nibble b) of
                            (Some x, Some y) \<Rightarrow> char_of (x * 16 + y) # unquote r
                          | _ \<Rightarrow> c # unquote cs)
           | _ \<Rightarrow> c # unquote cs
      else c # unquote cs)"

definition unquote_plus :: "string \<Rightarrow> string" where
  "unquote_plus s = unquote (map (\<lambda>c. if c = CHR ''+'' then CHR '' '' else c) s)"

section \<open>Query strings\<close>

definition urlencode :: "string \<Rightarrow> (string \<times> string) list \<Rightarrow> string" where
  "urlencode safe ps = join ''&'' (map (\<lambda>(k, v). quote_plus safe k @ ''='' @ quote_plus safe v) ps)"

definition parse_pair :: "string \<Rightarrow> string \<times> string" where
  "parse_pair nv =
     (let (k, _, v) = partition_on CHR ''='' nv in (unquote_plus k, unquote_plus v))"

definition parse_qsl :: "string \<Rightarrow> (string \<times> string) list" where
  "parse_qsl qs = map parse_pair (filter (\<lambda>nv. nv \<noteq> []) (split_on CHR ''&'' qs))"

section \<open>Splitting\<close>

record url_parts =
  url_scheme :: string
  url_netloc :: string
  url_path :: string
  url_query :: string
  url_fragment :: string

definition is_scheme_char :: "char \<Rightarrow> bool" where
  "is_scheme_char c \<longleftrightarrow> is_alnum c \<or> c \<in> {CHR ''+'', CHR ''-'', CHR ''.''}"

definition split_scheme :: "string \<Rightarrow> string \<times> string" where
  "split_scheme u =
     (let h = takeWhile (\<lambda>c. c \<noteq> CHR '':'') u; r = dropWhile (\<lambda>c. c \<noteq> CHR '':'') u
      in if r \<noteq> [] \<and> h \<noteq> [] \<and> (is_upper (hd h) \<or> is_lower (hd h)) \<and> list_all is_scheme_char h
         then (lower h, tl r) else ([], u))"

definition ends_netloc :: "char \<Rightarrow> bool" where
  "ends_netloc c \<longleftrightarrow> c \<in> {CHR ''/'', CHR ''?'', CHR ''#''}"

definition split_netloc :: "string \<Rightarrow> string \<times> string" where
  "split_netloc u =
     (if startswith u ''//''
      then (takeWhile (\<lambda>c. \<not> ends_netloc c) (drop 2 u), dropWhile (\<lambda>c. \<not> ends_netloc c) (drop 2 u))
      else ([], u))"

definition is_unsafe_byte :: "char \<Rightarrow> bool" where
  "is_unsafe_byte c \<longleftrightarrow> c \<in> {CHR 0x09, CHR 0x0A, CHR 0x0D}"

definition urlsplit :: "string \<Rightarrow> url_parts" where
  "urlsplit url =
     (let u0 = filter (\<lambda>c. \<not> is_unsafe_byte c) (dropWhile (\<lambda>c. of_char c \<le> (32 :: nat)) url);
          (scheme, u1) = split_scheme u0;
          (netloc, u2) = split_netloc u1;
          (u3, _, fragment) = partition_on CHR ''#'' u2;
          (path, _, query) = partition_on CHR ''?'' u3
      in \<lparr>url_scheme = scheme, url_netloc = netloc, url_path = path, url_query = query,
          url_fragment = fragment\<rparr>)"

definition urlunsplit :: "url_parts \<Rightarrow> string" where
  "urlunsplit p =
     (let u = (if url_netloc p \<noteq> []
               then ''//'' @ url_netloc p @
                    (if url_path p \<noteq> [] \<and> hd (url_path p) \<noteq> CHR ''/'' then ''/'' else []) @ url_path p
               else url_path p)
      in (if url_scheme p \<noteq> [] then url_scheme p @ '':'' else []) @ u @
         (if url_query p \<noteq> [] then ''?'' @ url_query p else []) @
         (if url_fragment p \<noteq> [] then ''#'' @ url_fragment p else []))"

section \<open>Round trips\<close>

lemma hex_nibble_upper [simp]: "d < 16 \<Longrightarrow> hex_nibble (hex_upper d) = Some d"
  by (auto simp: hex_nibble_def hex_upper_def Let_def)

lemma of_char_less_256: "of_char c < (256 :: nat)"
  by (metis of_char_mod_256 mod_less_divisor zero_less_numeral)

lemma of_char_nibbles: "of_char c div 16 < (16 :: nat)" "of_char c mod 16 < (16 :: nat)"
  using of_char_less_256 [of c] by (auto simp: less_mult_imp_div_less)

lemma code_hex_upper: "d < 16 \<Longrightarrow> of_char (hex_upper d) = (if d < 10 then 48 + d else 55 + d)"
  by (simp add: hex_upper_def)

lemma of_char_halves: "char_of ((of_char c :: nat) div 16 * 16 + of_char c mod 16) = c"
  by (simp del: of_char_mod_256)

text \<open>Characters a query string is cut at, or that mean something else inside it.\<close>

definition reserved :: "char \<Rightarrow> bool" where
  "reserved c \<longleftrightarrow> c \<in> {CHR ''&'', CHR ''='', CHR ''+'', CHR ''%'', CHR ''#'', CHR '' ''} \<or> of_char c < (33 :: nat)"

lemma always_safe_not_reserved: "always_safe c \<Longrightarrow> \<not> reserved c"
  by (auto simp: always_safe_def reserved_def is_alnum_def is_digit_def is_upper_def is_lower_def)

lemma hex_upper_not_reserved: "d < 16 \<Longrightarrow> \<not> reserved (hex_upper d) \<and> hex_upper d \<noteq> CHR ''?''"
  using code_hex_upper [of d] by (auto simp: reserved_def split: if_splits)

lemma quote_plus_unquote:
  assumes "list_all (\<lambda>c. \<not> reserved c) safe"
  shows "unquote (map (\<lambda>c. if c = CHR ''+'' then CHR '' '' else c) (quote_plus_char safe c) @ s) = c # unquote s"
proof -
  have s: "c \<in> set safe \<Longrightarrow> \<not> reserved c" using assms by (auto simp: list_all_iff)
  note d = of_char_nibbles [of c]
  consider "c = CHR '' ''" | "c \<noteq> CHR '' ''" "always_safe c \<or> c \<in> set safe"
    | "c \<noteq> CHR '' ''" "\<not> (always_safe c \<or> c \<in> set safe)" by blast
  then show ?thesis
  proof cases
    case 2
    then have "\<not> reserved c" using s always_safe_not_reserved by blast
    then show ?thesis using 2 by (auto simp: quote_plus_char_def quote_char_def reserved_def)
  next
    case 3
    have "hex_upper x \<noteq> CHR ''+''" if "x < 16" for x
      using hex_upper_not_reserved [OF that] by (auto simp: reserved_def)
    then show ?thesis using 3 d of_char_halves [of c] by (simp add: quote_plus_char_def quote_char_def)
  qed (simp add: quote_plus_char_def)
qed

lemma unquote_quote_plus:
  "list_all (\<lambda>c. \<not> reserved c) safe \<Longrightarrow> unquote_plus (quote_plus safe s) = s"
  by (induction s) (auto simp: unquote_plus_def quote_plus_def quote_plus_unquote simp del: unquote.simps(2))

lemma quote_plus_chars:
  assumes "list_all (\<lambda>c. \<not> reserved c \<and> c \<noteq> CHR ''?'') safe" "c \<in> set (quote_plus safe s)"
  shows "c \<noteq> CHR ''&'' \<and> c \<noteq> CHR ''='' \<and> c \<noteq> CHR ''#'' \<and> 33 \<le> (of_char c :: nat)"
proof -
  from assms(2) obtain x where x: "c \<in> set (quote_plus_char safe x)" by (auto simp: quote_plus_def)
  note d = of_char_nibbles [of x]
  have sx: "always_safe x \<or> x \<in> set safe \<Longrightarrow> \<not> reserved x"
    using assms(1) always_safe_not_reserved by (auto simp: list_all_iff)
  have hx: "\<not> reserved (hex_upper (of_char x div 16))" "\<not> reserved (hex_upper (of_char x mod 16))"
    using hex_upper_not_reserved d by blast+
  have "c = CHR ''+'' \<or> c = CHR ''%'' \<or> \<not> reserved c"
    using x sx hx unfolding quote_plus_char_def quote_char_def by (auto split: if_splits)
  then show ?thesis by (auto simp: reserved_def)
qed

lemma split_by_first:
  "list_all (\<lambda>c. \<not> P c) w \<Longrightarrow> P d \<Longrightarrow> split_by P (w @ d # s) = w # split_by P s"
  by (induction w) auto

lemma split_by_none: "list_all (\<lambda>c. \<not> P c) w \<Longrightarrow> split_by P w = [w]"
  by (induction w) auto

lemma split_join:
  "ws \<noteq> [] \<Longrightarrow> list_all (list_all (\<lambda>c. c \<noteq> d)) ws \<Longrightarrow> split_on d (join [d] ws) = ws"
proof (induction ws)
  case (Cons w ws)
  then show ?case
    by (cases ws) (auto simp: split_on_def split_by_none split_by_first join_Cons)
qed simp

lemma partition_on_first:
  "d \<notin> set k \<Longrightarrow> partition_on d (k @ d # v) = (k, [d], v)"
  by (induction k) (auto simp: partition_on_def)

lemma partition_on_none: "d \<notin> set s \<Longrightarrow> partition_on d s = (s, [], [])"
  by (simp add: partition_on_def)

text \<open>The characters a caller may leave unescaped without changing what a query says.\<close>

definition safe_ok :: "string \<Rightarrow> bool" where
  "safe_ok safe \<longleftrightarrow> list_all (\<lambda>c. \<not> reserved c \<and> c \<noteq> CHR ''?'') safe"

lemma parse_pair_encoded:
  assumes "safe_ok safe"
  shows "parse_pair (quote_plus safe k @ ''='' @ quote_plus safe v) = (k, v)"
proof -
  have s: "list_all (\<lambda>c. \<not> reserved c) safe" using assms by (auto simp: safe_ok_def list_all_iff)
  have "CHR ''='' \<notin> set (quote_plus safe k)"
    using quote_plus_chars [of safe "CHR ''=''" k] assms by (auto simp: safe_ok_def)
  then show ?thesis using unquote_quote_plus [OF s] by (simp add: parse_pair_def partition_on_first)
qed

text \<open>Decoding an encoded query gives the parameters back, in order, blanks and repeats included.\<close>

theorem parse_urlencode:
  assumes "safe_ok safe"
  shows "parse_qsl (urlencode safe ps) = ps"
proof (cases ps)
  case Nil
  then show ?thesis by (simp add: parse_qsl_def urlencode_def split_on_def)
next
  case (Cons p rest)
  let ?enc = "\<lambda>(k, v). quote_plus safe k @ ''='' @ quote_plus safe v"
  have no_amp: "list_all (list_all (\<lambda>c. c \<noteq> CHR ''&'')) (map ?enc ps)"
    using quote_plus_chars [OF assms [unfolded safe_ok_def]] by (auto simp: list_all_iff)
  have "split_on CHR ''&'' (urlencode safe ps) = map ?enc ps"
    unfolding urlencode_def by (rule split_join [OF _ no_amp]) (simp add: Cons)
  moreover have "filter (\<lambda>nv. nv \<noteq> []) (map ?enc ps) = map ?enc ps"
    by (intro filter_True) auto
  moreover have "map (parse_pair \<circ> ?enc) ps = ps"
    by (intro map_idI) (auto simp: parse_pair_encoded [OF assms, simplified])
  ultimately show ?thesis by (simp add: parse_qsl_def)
qed

text \<open>A query string contains nothing a URL is cut at.\<close>

lemma urlencode_chars:
  assumes "safe_ok safe" "c \<in> set (urlencode safe ps)"
  shows "c \<noteq> CHR ''#'' \<and> 33 \<le> (of_char c :: nat)"
proof -
  have "c \<in> set (join ''&'' ws) \<Longrightarrow> c = CHR ''&'' \<or> (\<exists>w \<in> set ws. c \<in> set w)" for ws
    by (induction "''&''" ws rule: join.induct) auto
  then have "c = CHR ''&'' \<or> c = CHR ''='' \<or> (\<exists>s. c \<in> set (quote_plus safe s))"
    using assms(2) unfolding urlencode_def by fastforce
  then show ?thesis using quote_plus_chars [OF assms(1) [unfolded safe_ok_def]] by auto
qed

text \<open>What splitting a URL with a host guarantees of its parts.\<close>

definition wf_parts :: "url_parts \<Rightarrow> bool" where
  "wf_parts p \<longleftrightarrow>
     url_scheme p \<noteq> [] \<and> (is_upper (hd (url_scheme p)) \<or> is_lower (hd (url_scheme p))) \<and>
     list_all is_scheme_char (url_scheme p) \<and> lower (url_scheme p) = url_scheme p \<and>
     url_netloc p \<noteq> [] \<and> list_all (\<lambda>c. \<not> ends_netloc c) (url_netloc p) \<and>
     (url_path p = [] \<or> hd (url_path p) = CHR ''/'') \<and>
     list_all (\<lambda>c. c \<noteq> CHR ''?'' \<and> c \<noteq> CHR ''#'') (url_path p) \<and>
     list_all (\<lambda>c. c \<noteq> CHR ''#'') (url_query p) \<and>
     list_all (\<lambda>c. \<not> is_unsafe_byte c)
       (url_netloc p @ url_path p @ url_query p @ url_fragment p)"

lemma scheme_char_plain: "is_scheme_char c \<Longrightarrow> c \<noteq> CHR '':'' \<and> \<not> is_unsafe_byte c \<and> 33 \<le> (of_char c :: nat)"
  by (auto simp: is_scheme_char_def is_alnum_def is_unsafe_byte_def is_digit_def is_upper_def is_lower_def)

lemma takeWhile_append_stop:
  "list_all P xs \<Longrightarrow> (ys = [] \<or> \<not> P (hd ys)) \<Longrightarrow> takeWhile P (xs @ ys) = xs \<and> dropWhile P (xs @ ys) = ys"
  by (induction xs) (cases ys; auto)+

lemma split_scheme_ok:
  assumes "s \<noteq> []" "is_upper (hd s) \<or> is_lower (hd s)" "list_all is_scheme_char s" "lower s = s"
  shows "split_scheme (s @ CHR '':'' # r) = (s, r)"
proof -
  have "list_all (\<lambda>c. c \<noteq> CHR '':'') s" using assms(3) scheme_char_plain by (auto simp: list_all_iff)
  from takeWhile_append_stop [OF this, of "CHR '':'' # r"] show ?thesis
    using assms by (simp add: split_scheme_def)
qed

lemma urlsplit_unsplit: "wf_parts p \<Longrightarrow> urlsplit (urlunsplit p) = p"
proof -
  assume wf: "wf_parts p"
  let ?q = "(if url_query p \<noteq> [] then ''?'' @ url_query p else [])"
  let ?f = "(if url_fragment p \<noteq> [] then ''#'' @ url_fragment p else [])"
  let ?rest = "''//'' @ url_netloc p @ url_path p @ ?q @ ?f"
  have u: "urlunsplit p = url_scheme p @ CHR '':'' # ?rest"
    using wf by (auto simp: urlunsplit_def wf_parts_def)
  have "\<exists>c cs. url_scheme p = c # cs \<and> 33 \<le> (of_char c :: nat)"
    using wf scheme_char_plain by (cases "url_scheme p") (auto simp: wf_parts_def)
  then have lead: "dropWhile (\<lambda>c. of_char c \<le> (32 :: nat)) (urlunsplit p) = urlunsplit p"
    unfolding u by auto
  have "list_all (\<lambda>c. \<not> is_unsafe_byte c) (urlunsplit p)"
    unfolding u using wf scheme_char_plain by (auto simp: wf_parts_def list_all_iff is_unsafe_byte_def)
  then have clean: "filter (\<lambda>c. \<not> is_unsafe_byte c) (urlunsplit p) = urlunsplit p"
    by (simp add: list_all_iff)
  have sch: "split_scheme (urlunsplit p) = (url_scheme p, ?rest)"
    unfolding u using wf by (intro split_scheme_ok) (simp_all add: wf_parts_def)
  have stop: "url_path p @ ?q @ ?f = [] \<or> \<not> \<not> ends_netloc (hd (url_path p @ ?q @ ?f))"
    using wf by (cases "url_path p") (auto simp: wf_parts_def ends_netloc_def)
  have net: "split_netloc ?rest = (url_netloc p, url_path p @ ?q @ ?f)"
    using takeWhile_append_stop [where P = "\<lambda>c. \<not> ends_netloc c" and xs = "url_netloc p"
        and ys = "url_path p @ ?q @ ?f", OF _ stop] wf
    by (simp add: split_netloc_def wf_parts_def startswith_def)
  have nohash: "CHR ''#'' \<notin> set (url_path p @ ?q)" using wf by (auto simp: wf_parts_def list_all_iff)
  have frag: "\<exists>sep. partition_on CHR ''#'' (url_path p @ ?q @ ?f) = (url_path p @ ?q, sep, url_fragment p)"
    using partition_on_first [OF nohash] partition_on_none [OF nohash] by auto
  have noq: "CHR ''?'' \<notin> set (url_path p)" using wf by (auto simp: wf_parts_def list_all_iff)
  have qry: "\<exists>sep. partition_on CHR ''?'' (url_path p @ ?q) = (url_path p, sep, url_query p)"
    using partition_on_first [OF noq] partition_on_none [OF noq] by auto
  show ?thesis
    using frag qry unfolding urlsplit_def lead clean Let_def sch prod.case net by auto
qed

end
