(* ===== verification/Paging.thy ===== *)
theory Paging
  imports Py_Json Py_Url Vendor_Errors
begin

text \<open>
  Every way a list is cut into pages: the SentinelOne cursors (\<open>utils/pagination.py\<close>), the Falcon
  offsets, tokens and sorts (\<open>utils/cs_pagination.py\<close>, \<open>utils/cs_sort.py\<close>), the Graph and Defender
  links (\<open>utils/odata_paging.py\<close>, \<open>utils/next_link.py\<close>), Kibana's numbered pages
  (\<open>utils/es_pagination.py\<close>) and ARM's skip tokens and preconditions
  (\<open>utils/sentinel/pagination.py\<close>, \<open>utils/sentinel/preconditions.py\<close>).

  What a client relies on is stated once, in the locale \<open>paged_walk\<close>: following the cursors from
  the first page ends, and the pages in order are the whole list. Kibana's numbers are an interpretation of it,
  the SentinelOne keyset cursors meet it for the lists they are meant for; \<open>Page_Walks\<close> and
  \<open>Cs_Hosts\<close> show it of whole routes, links and tokens included.
\<close>

section \<open>SentinelOne cursors\<close>

record cursor_spec =
  id_column :: string
  id_field :: string
  id_sort_order :: string
  sort_by_column :: string
  sort_by_field :: string
  sort_order :: string

definition CursorSpec :: "string \<Rightarrow> cursor_spec" where
  "CursorSpec c = \<lparr>id_column = c, id_field = ''id'', id_sort_order = ''asc'', sort_by_column = '''',
     sort_by_field = '''', sort_order = ''asc''\<rparr>"

definition spec_sort_by_column :: "cursor_spec \<Rightarrow> string" where
  "spec_sort_by_column s = (if sort_by_column s \<noteq> [] then sort_by_column s else id_column s)"

definition spec_sort_by_field :: "cursor_spec \<Rightarrow> string" where
  "spec_sort_by_field s = (if sort_by_field s \<noteq> [] then sort_by_field s else id_field s)"

definition AGENT_CURSOR :: cursor_spec where "AGENT_CURSOR = CursorSpec ''AgentView.id''"
definition THREAT_CURSOR :: cursor_spec where "THREAT_CURSOR = CursorSpec ''ThreatInfoView.id''"
definition SITE_CURSOR :: cursor_spec where "SITE_CURSOR = CursorSpec ''SiteView.id''"
definition GROUP_CURSOR :: cursor_spec where "GROUP_CURSOR = CursorSpec ''Group.id''"
definition EXCLUSION_CURSOR :: cursor_spec where "EXCLUSION_CURSOR = CursorSpec ''ExclusionItemHashView.id''"
definition RESTRICTION_CURSOR :: cursor_spec where "RESTRICTION_CURSOR = CursorSpec ''RestrictionHashView.id''"
definition ACTIVITY_CURSOR :: cursor_spec where "ACTIVITY_CURSOR = CursorSpec ''Activity.id''"
definition USER_CURSOR :: cursor_spec where "USER_CURSOR = CursorSpec ''ManagementUser.id''"
definition ALERT_CURSOR :: cursor_spec where "ALERT_CURSOR = CursorSpec ''CloudAlertView.id''"
definition IOC_CURSOR :: cursor_spec where "IOC_CURSOR = CursorSpec ''ThreatIntelligenceItem.id''"
definition DEVICE_CTRL_CURSOR :: cursor_spec where "DEVICE_CTRL_CURSOR = CursorSpec ''DeviceControlRule.id''"
definition ACCOUNT_CURSOR :: cursor_spec where "ACCOUNT_CURSOR = CursorSpec ''Account.id''"
definition TAG_CURSOR :: cursor_spec where "TAG_CURSOR = CursorSpec ''TagManagerView.id''"

definition FIREWALL_CURSOR :: cursor_spec where
  "FIREWALL_CURSOR = \<lparr>id_column = ''FirewallControlRule.created_at'', id_field = ''createdAt'',
     id_sort_order = ''desc'', sort_by_column = ''FirewallControlRule.order'',
     sort_by_field = ''order'', sort_order = ''asc''\<rparr>"

definition keyset_payload :: "pyval \<Rightarrow> cursor_spec \<Rightarrow> pyval" where
  "keyset_payload item spec =
     VDict [(''id_column'', VStr (id_column spec)),
            (''id_value'', get_nested item (id_field spec)),
            (''id_sort_order'', VStr (id_sort_order spec)),
            (''sort_by_column'', VStr (spec_sort_by_column spec)),
            (''sort_by_value'', get_nested item (spec_sort_by_field spec)),
            (''sort_order'', VStr (sort_order spec)),
            (''_tiebreak'', get_nested item ''id'')]"

definition encode_keyset :: "pyval \<Rightarrow> cursor_spec \<Rightarrow> string" where
  "encode_keyset item spec = b64encode (json_dumps '','' '':'' (keyset_payload item spec))"

definition normalise_cursor :: "string \<Rightarrow> string" where
  "normalise_cursor cursor = replace_str ''%3D'' ''='' (replace_str ''%253D'' ''='' cursor)"

text \<open>\<open>json.loads(base64.b64decode(...).decode())\<close>; \<open>None\<close> is any of the caught exceptions.\<close>

definition cursor_data :: "string \<Rightarrow> pyval option" where
  "cursor_data cursor =
     (case b64decode (normalise_cursor cursor) of
        None \<Rightarrow> None
      | Some raw \<Rightarrow> if utf8_valid raw then json_loads raw else None)"

definition decode_keyset_payload :: "string \<Rightarrow> jobj" where
  "decode_keyset_payload cursor = (case cursor_data cursor of Some (VDict d) \<Rightarrow> d | _ \<Rightarrow> [])"

definition encode_offset :: "int \<Rightarrow> string" where
  "encode_offset offset = b64encode (json_dumps '', '' '': '' (VDict [(''offset'', VInt offset)]))"

text \<open>\<open>int(v)\<close>: truncation of a float, parsing of text.\<close>

definition py_int :: "pyval \<Rightarrow> int result" where
  "py_int v =
     (case v of
        VInt n \<Rightarrow> Inr n
      | VBool b \<Rightarrow> Inr (if b then 1 else 0)
      | VStr s \<Rightarrow> (case int_of_str s of None \<Rightarrow> Inl (ValueError s) | Some n \<Rightarrow> Inr n)
      | VFloat t \<Rightarrow> (case float_of_str t of
                       Some (Fin q) \<Rightarrow> Inr (if q < 0 then \<lceil>q\<rceil> else \<lfloor>q\<rfloor>)
                     | Some NaN \<Rightarrow> Inl (ValueError t)
                     | None \<Rightarrow> Inl (ValueError t)
                     | Some f \<Rightarrow> Inl (OverflowError t))
      | _ \<Rightarrow> Inl (TypeError ''int() argument''))"

text \<open>\<open>data.get\<close> on anything but an object raises \<open>AttributeError\<close>, which is not caught.\<close>

definition decode_offset :: "string \<Rightarrow> int result" where
  "decode_offset cursor =
     (case cursor_data cursor of
        None \<Rightarrow> Inr 0
      | Some (VDict d) \<Rightarrow>
          (case py_int (case map_of d ''offset'' of None \<Rightarrow> VInt 0 | Some v \<Rightarrow> v) of
             Inl (ValueError e) \<Rightarrow> Inr 0
           | r \<Rightarrow> r)
      | Some v \<Rightarrow> Inl (AttributeError ''get''))"

definition str_or_empty :: "pyval \<Rightarrow> string" where
  "str_or_empty v = (if truthy v then py_str v else [])"

text \<open>The position of the first item a test holds of.\<close>

fun first_index :: "('a \<Rightarrow> bool) \<Rightarrow> 'a list \<Rightarrow> nat option" where
  "first_index P [] = None"
| "first_index P (x # xs) = (if P x then Some 0 else map_option Suc (first_index P xs))"

definition resume_index :: "pyval list \<Rightarrow> cursor_spec \<Rightarrow> pyval \<Rightarrow> pyval \<Rightarrow> nat option" where
  "resume_index items spec id_value tiebreak =
     (let by_column = map_option Suc
            (first_index (\<lambda>item. str_or_empty (get_nested item (id_field spec)) = py_str id_value) items)
      in if tiebreak \<noteq> VNone
         then case first_index (\<lambda>item. str_or_empty (get_nested item ''id'') = py_str tiebreak) items of
                Some i \<Rightarrow> Some (Suc i)
              | None \<Rightarrow> by_column
         else by_column)"

text \<open>
  \<open>paginate\<close>: \<open>matched\<close> is the count carried by a list that went through the query options,
  when there is one.
\<close>

definition paginate_keyset ::
  "pyval list \<Rightarrow> string option \<Rightarrow> int \<Rightarrow> cursor_spec \<Rightarrow> int \<Rightarrow> pyval list \<times> string option \<times> int" where
  "paginate_keyset items cursor limit spec tot =
     (let go = (\<lambda>start.
            let page = py_slice items (int start) (int start + limit)
            in (page,
                if page \<noteq> [] \<and> start + length page < length items
                then Some (encode_keyset (last page) spec) else None, tot))
      in case cursor of
           None \<Rightarrow> go 0
         | Some c \<Rightarrow>
             (if c = [] then go 0
              else let payload = decode_keyset_payload c; id_value = dict_get payload ''id_value''
                   in if id_value = VNone then go 0
                      else case resume_index items spec id_value (dict_get payload ''_tiebreak'') of
                             None \<Rightarrow> ([], None, tot)
                           | Some start \<Rightarrow> go start))"

definition paginate_offset ::
  "pyval list \<Rightarrow> string option \<Rightarrow> int \<Rightarrow> int \<Rightarrow> (pyval list \<times> string option \<times> int) result" where
  "paginate_offset items cursor limit tot =
     (case (case cursor of None \<Rightarrow> Inr 0 | Some c \<Rightarrow> if c = [] then Inr 0 else decode_offset c) of
        Inl e \<Rightarrow> Inl e
      | Inr offset \<Rightarrow>
          Inr (py_slice items offset (offset + limit),
               if offset + limit < int (length items) then Some (encode_offset (offset + limit)) else None,
               tot))"

definition paginate ::
  "pyval list \<Rightarrow> int option \<Rightarrow> string option \<Rightarrow> int \<Rightarrow> cursor_spec option \<Rightarrow>
   (pyval list \<times> string option \<times> int) result" where
  "paginate items matched cursor limit spec =
     (let tot = (case matched of None \<Rightarrow> int (length items) | Some n \<Rightarrow> n)
      in case spec of
           Some s \<Rightarrow> Inr (paginate_keyset items cursor limit s tot)
         | None \<Rightarrow> paginate_offset items cursor limit tot)"

text \<open>
  \<open>shape\<close> stands for completing (or restricting) an item to its swagger definition, when one is
  given.
\<close>

definition build_list_response ::
  "pyval list \<Rightarrow> string option \<Rightarrow> int \<Rightarrow> (jobj \<Rightarrow> jobj) option \<Rightarrow> pyval" where
  "build_list_response data next_cursor tot shape =
     (let shaped = (case shape of
                      None \<Rightarrow> data
                    | Some f \<Rightarrow> map (\<lambda>i. case i of VDict d \<Rightarrow> VDict (f d) | _ \<Rightarrow> i) data)
      in VDict [(''data'', VList shaped),
                (''pagination'', VDict
                   [(''totalItems'', VInt tot),
                    (''nextCursor'', case next_cursor of None \<Rightarrow> VNone | Some c \<Rightarrow> VStr c)])])"

definition build_single_response :: "pyval \<Rightarrow> pyval" where
  "build_single_response data = VDict [(''data'', data)]"

section \<open>Falcon\<close>

definition paginate_cs :: "'a list \<Rightarrow> int \<Rightarrow> int \<Rightarrow> 'a list \<times> int" where
  "paginate_cs items offset limit = (py_slice items offset (offset + limit), int (length items))"

definition CS_TOKEN_PREFIX :: string where
  "CS_TOKEN_PREFIX = ''mockdr-cs:''"

definition encode_page_token :: "int \<Rightarrow> string" where
  "encode_page_token index = rstrip_chars ''='' (urlsafe_b64encode (CS_TOKEN_PREFIX @ str_of_int index))"

text \<open>The offset inside a token with the given prefix; \<open>None\<close> when it is not one of ours.\<close>

definition token_offset :: "string \<Rightarrow> string \<Rightarrow> int option" where
  "token_offset prefix token =
     (case urlsafe_b64decode (pad4 token) of
        None \<Rightarrow> None
      | Some raw \<Rightarrow>
          (if utf8_valid raw \<and> startswith raw prefix
           then case int_of_str (drop (length prefix) raw) of
                  None \<Rightarrow> None
                | Some n \<Rightarrow> if n < 0 then None else Some n
           else None))"

definition decode_page_token :: "string \<Rightarrow> string option \<Rightarrow> int http" where
  "decode_page_token tid token =
     (case token of
        None \<Rightarrow> Inr 0
      | Some t \<Rightarrow>
          (if t = [] then Inr 0
           else case token_offset CS_TOKEN_PREFIX t of
                  Some n \<Rightarrow> Inr n
                | None \<Rightarrow> Inl (HTTPException 400
                     (build_cs_error_response tid 400 (''invalid pagination token: '' @ t)) [])))"

definition parse_cs_sort :: "string option \<Rightarrow> string \<Rightarrow> bool \<Rightarrow> string \<times> bool" where
  "parse_cs_sort srt default_field default_desc =
     (let txt = strip (case srt of None \<Rightarrow> [] | Some s \<Rightarrow> s)
      in if txt = [] then (default_field, default_desc)
         else if CHR ''|'' \<in> set txt
         then let (field_name, _, direction) = rpartition_on CHR ''|'' txt
              in (strip field_name, lower (strip direction) = ''desc'')
         else let (head, dot, tail) = rpartition_on CHR ''.'' txt
              in if dot \<noteq> [] \<and> lower tail \<in> {''asc'', ''desc''} then (head, lower tail = ''desc'')
                 else (txt, False))"

text \<open>
  The key \<open>(rank, number, text)\<close>. A boolean is an integer; \<open>float(value)\<close> of a huge integer
  raises \<open>OverflowError\<close>.
\<close>

definition sort_key :: "pyval \<Rightarrow> (nat \<times> pyfloat \<times> string) result" where
  "sort_key v =
     (case v of
        VNone \<Rightarrow> Inr (0, Fin 0, [])
      | VBool b \<Rightarrow> Inr (1, Fin (if b then 1 else 0), [])
      | VInt n \<Rightarrow> (case float_of_int n of
                     None \<Rightarrow> Inl (OverflowError ''int too large to convert to float'')
                   | Some f \<Rightarrow> Inr (1, f, []))
      | VFloat t \<Rightarrow> Inr (1, case float_of_str t of None \<Rightarrow> NaN | Some f \<Rightarrow> f, [])
      | _ \<Rightarrow> Inr (2, Fin 0, py_str v))"

section \<open>Graph and Defender\<close>

definition with_cursor :: "string \<Rightarrow> string \<Rightarrow> string \<Rightarrow> (string \<Rightarrow> bool) \<Rightarrow> string \<Rightarrow> string" where
  "with_cursor url cursor val replaces safe =
     (let parts = urlsplit url;
          params = filter (\<lambda>(k, v). \<not> replaces k) (parse_qsl (url_query parts)) @ [(cursor, val)]
      in urlunsplit (parts\<lparr>url_query := urlencode safe params\<rparr>))"

definition SKIP :: string where "SKIP = ''$skip''"
definition SKIPTOKEN :: string where "SKIPTOKEN = ''$skiptoken''"

definition is_odata_cursor :: "string \<Rightarrow> bool" where
  "is_odata_cursor key \<longleftrightarrow> lower key \<in> {SKIP, SKIPTOKEN}"

definition PAGE_TOKEN_PREFIX :: string where
  "PAGE_TOKEN_PREFIX = ''mockdr-page:''"

definition encode_skiptoken :: "int \<Rightarrow> string" where
  "encode_skiptoken offset = rstrip_chars ''='' (urlsafe_b64encode (PAGE_TOKEN_PREFIX @ str_of_int offset))"

definition graph_bad_request :: "err_env \<Rightarrow> string \<Rightarrow> failure" where
  "graph_bad_request env message =
     HTTPException 400 (build_graph_error_response (env_graph_ids env) (env_fresh_ids env) (env_now env)
       ''Request_BadRequest'' message) []"

definition decode_skiptoken :: "err_env \<Rightarrow> string \<Rightarrow> int http" where
  "decode_skiptoken env token =
     (case token_offset PAGE_TOKEN_PREFIX token of
        Some n \<Rightarrow> Inr n
      | None \<Rightarrow> Inl (graph_bad_request env
           (''The specified page token value '' @ [CHR 0x27] @ token @ [CHR 0x27] @
            '' is invalid. Follow the @odata.nextLink returned by the previous page.'')))"

text \<open>\<open>request_url\<close> is the context variable that \<open>remember_request_url\<close> sets.\<close>

definition page_link :: "string option \<Rightarrow> int \<Rightarrow> int \<Rightarrow> string \<Rightarrow> string \<Rightarrow> string option" where
  "page_link request_url next_offset tot fallback cursor =
     (if tot \<le> next_offset then None
      else let val = (if cursor = SKIPTOKEN then encode_skiptoken next_offset else str_of_int next_offset);
               url = (case request_url of None \<Rightarrow> fallback | Some u \<Rightarrow> if u = [] then fallback else u)
           in Some (with_cursor url cursor val is_odata_cursor ''$''))"

fun directory_token :: "err_env \<Rightarrow> string \<Rightarrow> (string \<times> string) list \<Rightarrow> string http" where
  "directory_token env token [] = Inr token"
| "directory_token env token ((key, val) # ps) =
     (if lower key = SKIP
      then Inl (graph_bad_request env ([CHR 0x27] @ ''$skip'' @ [CHR 0x27] @ '' is not supported by the service.''))
      else directory_token env (if lower key = SKIPTOKEN then val else token) ps)"

definition directory_page_offset :: "err_env \<Rightarrow> (string \<times> string) list \<Rightarrow> int http" where
  "directory_page_offset env params =
     (case directory_token env [] params of
        Inl e \<Rightarrow> Inl e
      | Inr token \<Rightarrow> if token = [] then Inr 0 else decode_skiptoken env token)"

definition graph_page ::
  "string option \<Rightarrow> 'a list \<Rightarrow> int \<Rightarrow> int \<Rightarrow> string \<Rightarrow> string \<Rightarrow> 'a list \<times> string option" where
  "graph_page request_url records top_n skip resource cursor =
     (py_slice records skip (skip + top_n),
      page_link request_url (skip + top_n) (int (length records))
        (''https://graph.microsoft.com/v1.0/'' @ resource) cursor)"

section \<open>Kibana and ARM\<close>

definition paginate_kibana :: "'a list \<Rightarrow> int \<Rightarrow> int \<Rightarrow> 'a list \<times> int" where
  "paginate_kibana items page per_page =
     (let start = (max page 1 - 1) * per_page
      in (py_slice items start (start + per_page), int (length items)))"

definition parse_skip_token :: "string \<Rightarrow> int http" where
  "parse_skip_token skip_token =
     (if skip_token = [] then Inr 0
      else let offset = (case int_of_str skip_token of None \<Rightarrow> - 1 | Some n \<Rightarrow> n)
           in if offset < 0
              then Inl (HTTPException 400 (build_arm_error ''InvalidSkipToken''
                     (''The skip token '' @ [CHR 0x27] @ skip_token @ [CHR 0x27] @
                      '' is invalid. Follow the nextLink returned by the previous page.'')) [])
              else Inr offset)"

definition build_next_link :: "string \<Rightarrow> int \<Rightarrow> string" where
  "build_next_link request_url next_offset =
     with_cursor request_url ''$skipToken'' (str_of_int next_offset) (\<lambda>key. key = ''$skipToken'') []"

definition if_match_tags :: "string \<Rightarrow> string list" where
  "if_match_tags header =
     map (\<lambda>raw. let tag = strip raw;
                    bare = (if startswith tag ''W/'' \<or> startswith tag ''w/'' then drop 2 tag else tag)
                in strip_chars [CHR 0x22] bare) (split_on CHR '','' header)"

definition check_if_match :: "string option \<Rightarrow> string \<Rightarrow> unit http" where
  "check_if_match header current =
     (case header of
        None \<Rightarrow> Inr ()
      | Some h \<Rightarrow>
          (if strip h = [] then Inr ()
           else if CHR ''*'' \<in> set h \<and> current \<noteq> [] then Inr ()
           else if strip_chars [CHR 0x22] current \<in> set (if_match_tags h) then Inr ()
           else Inl (HTTPException 412 (build_arm_error ''PreconditionFailed''
                  ''The condition specified by the If-Match header was not met.'') [])))"

section \<open>Walking the pages\<close>

text \<open>A client that follows the cursors, giving up after \<open>n\<close> requests.\<close>

fun walk :: "('c option \<Rightarrow> 'a list \<times> 'c option) \<Rightarrow> nat \<Rightarrow> 'c option \<Rightarrow> 'a list list option" where
  "walk fetch 0 c = None"
| "walk fetch (Suc n) c =
     (case fetch c of
        (page, None) \<Rightarrow> Some [page]
      | (page, Some c') \<Rightarrow> map_option (Cons page) (walk fetch n (Some c')))"

text \<open>
  The contract of a paged list: a cursor stands for a position, the page at a position is the
  next \<open>limit\<close> items, and the next cursor (none at the end) stands for the position after it.
\<close>

locale paged_walk =
  fixes fetch :: "'c option \<Rightarrow> 'a list \<times> 'c option"
    and items :: "'a list"
    and limit :: nat
    and starts :: "'c option \<Rightarrow> nat \<Rightarrow> bool"
  assumes limit_pos: "0 < limit"
    and first_page: "starts None 0"
    and page_law: "starts c i \<Longrightarrow> i \<le> length items \<Longrightarrow> fst (fetch c) = take limit (drop i items)"
    and last_law: "starts c i \<Longrightarrow> i \<le> length items \<Longrightarrow> length items \<le> i + limit \<Longrightarrow> snd (fetch c) = None"
    and next_law: "starts c i \<Longrightarrow> i + limit < length items \<Longrightarrow>
      \<exists>c'. snd (fetch c) = Some c' \<and> starts (Some c') (i + limit)"
begin

lemma walk_from:
  "starts c i \<Longrightarrow> i \<le> length items \<Longrightarrow> length items - i < n \<Longrightarrow>
   \<exists>pages. walk fetch n c = Some pages \<and> concat pages = drop i items \<and> (\<forall>p \<in> set pages. length p \<le> limit)"
proof (induction n arbitrary: c i)
  case (Suc n)
  obtain page nxt where f: "fetch c = (page, nxt)" by fastforce
  have page: "page = take limit (drop i items)" using page_law [OF Suc.prems(1,2)] f by simp
  show ?case
  proof (cases "i + limit < length items")
    case False
    then have "nxt = None" using last_law [OF Suc.prems(1,2)] f by simp
    then show ?thesis using f page False by (intro exI [of _ "[page]"]) simp
  next
    case True
    then obtain c' where c': "nxt = Some c'" "starts (Some c') (i + limit)"
      using next_law [OF Suc.prems(1)] f by auto
    have "length items - (i + limit) < n" using True Suc.prems(3) limit_pos by linarith
    then obtain pages where p: "walk fetch n (Some c') = Some pages" "concat pages = drop (i + limit) items"
      "\<forall>p \<in> set pages. length p \<le> limit"
      using Suc.IH [OF c'(2)] True by auto
    have "page @ drop (i + limit) items = drop i items"
      using append_take_drop_id [of limit "drop i items"] by (simp add: page add.commute)
    then show ?thesis using f c' p page by (intro exI [of _ "page # pages"]) simp
  qed
qed simp

lemma walk_is_complete:
  "\<exists>pages. walk fetch (Suc (length items)) None = Some pages \<and> concat pages = items \<and>
     (\<forall>p \<in> set pages. length p \<le> limit)"
  using walk_from [OF first_page, of "Suc (length items)"] by (simp del: walk.simps)

end

section \<open>The tokens of each API\<close>

lemma ascii_str_of_int [simp]: "is_ascii (str_of_int n)"
  using str_of_int_shape [of n] is_ascii_digits [OF str_of_nat_digits]
  by (auto simp: is_ascii_def)

lemma token_offset_enc:
  assumes "is_ascii prefix" "n < 10 ^ max_int_digits"
  shows "token_offset prefix (rstrip_chars ''='' (urlsafe_b64encode (prefix @ str_of_int (int n)))) = Some (int n)"
  using assms int_of_str_of_nat [OF assms(2)] ascii_str_of_int [of "int n"] by (simp add: token_offset_def)

lemma urlsafe_nonempty: "s \<noteq> [] \<Longrightarrow> rstrip_chars ''='' (urlsafe_b64encode s) \<noteq> []"
proof
  assume s: "s \<noteq> []" and "rstrip_chars ''='' (urlsafe_b64encode s) = []"
  then have "urlsafe_b64decode (pad4 []) = Some s" using urlsafe_roundtrip [of s] by simp
  then show False using s by (simp add: urlsafe_b64decode_def pad4_def b64decode_def)
qed

lemma cs_prefix_ascii: "is_ascii CS_TOKEN_PREFIX" "is_ascii PAGE_TOKEN_PREFIX"
  by (simp_all add: is_ascii_def CS_TOKEN_PREFIX_def PAGE_TOKEN_PREFIX_def)

lemma decode_encode_page_token:
  "n < 10 ^ max_int_digits \<Longrightarrow> decode_page_token tid (Some (encode_page_token (int n))) = Inr (int n)"
  using token_offset_enc [OF cs_prefix_ascii(1)] urlsafe_nonempty [of "CS_TOKEN_PREFIX @ str_of_int (int n)"]
  by (simp add: decode_page_token_def encode_page_token_def CS_TOKEN_PREFIX_def del: str_of_int_nat)

lemma decode_encode_skiptoken:
  "n < 10 ^ max_int_digits \<Longrightarrow> decode_skiptoken env (encode_skiptoken (int n)) = Inr (int n)"
  using token_offset_enc [OF cs_prefix_ascii(2)]
  by (simp add: decode_skiptoken_def encode_skiptoken_def del: str_of_int_nat)

lemma parse_skip_token_str:
  "n < 10 ^ max_int_digits \<Longrightarrow> parse_skip_token (str_of_int (int n)) = Inr (int n)"
  using int_of_str_of_nat [of n] by (simp add: parse_skip_token_def)

lemma is_ascii_join: "is_ascii sep \<Longrightarrow> list_all is_ascii ws \<Longrightarrow> is_ascii (join sep ws)"
  by (induction sep ws rule: join.induct) (simp_all add: is_ascii_def)

lemma hex_digit_ascii [simp]: "d < 16 \<Longrightarrow> of_char (hex_digit d) < (128 :: nat)"
  by (simp add: hex_digit_def)

lemma is_ascii_json_char: "n < 128 \<Longrightarrow> is_ascii (json_char n)"
  by (auto simp: json_char_def u4_def is_ascii_def)

lemma is_ascii_json_str: "is_ascii s \<Longrightarrow> is_ascii (json_str s)"
  using is_ascii_json_char by (auto simp: json_str_def utf8_points_ascii is_ascii_def list_all_iff)

lemma is_ascii_dumps:
  "json_plain v \<Longrightarrow> is_ascii isep \<Longrightarrow> is_ascii ks \<Longrightarrow> is_ascii (json_dumps isep ks v)"
proof (induction v)
  case (VList vs)
  then have "is_ascii (join isep (map (json_dumps isep ks) vs))"
    by (intro is_ascii_join) (auto simp: list_all_iff)
  then show ?case by (simp add: is_ascii_def)
next
  case (VDict kvs)
  have "is_ascii (json_member isep ks p)" if "p \<in> set kvs" for p
    using VDict.IH [OF that, of "snd p"] VDict.prems that is_ascii_json_str
    by (cases p) (auto simp: list_all_iff)
  then have "is_ascii (join isep (map (json_member isep ks) kvs))"
    using VDict.prems by (intro is_ascii_join) (auto simp: list_all_iff)
  then show ?case by (simp add: is_ascii_def)
qed (auto simp: is_ascii_json_str, (simp_all add: is_ascii_def)?)

lemma replace_str_absent: "pat \<noteq> [] \<Longrightarrow> hd pat \<notin> set s \<Longrightarrow> replace_str pat new s = s"
proof (induction s)
  case (Cons c s)
  then have "\<not> startswith (c # s) pat" by (cases pat) (auto simp: startswith_def)
  then show ?case using Cons by simp
qed simp

lemma b64encode_chars: "c \<in> set (b64encode s) \<Longrightarrow> c \<noteq> CHR ''%''"
proof -
  assume c: "c \<in> set (b64encode s)"
  have bytes: "\<forall>b \<in> set (map of_char s :: nat list). b < 256" by auto
  obtain body k where "b64encode s = body @ replicate k CHR ''=''" "\<forall>c \<in> set body. \<exists>v. b64_val c = Some v"
    using b64_bytes_shape [OF bytes] unfolding b64encode_def by blast
  moreover have "b64_val CHR ''%'' = None" by (simp add: b64_val_def)
  ultimately show ?thesis using c by (auto split: if_splits)
qed

lemma cursor_data_b64:
  assumes "json_plain v" "isep = CHR '','' # b" "blank_tail b" "ks = CHR '':'' # b'" "blank_tail b'"
  shows "cursor_data (b64encode (json_dumps isep ks v)) = Some v"
proof -
  have "is_ascii t" if "blank_tail t" for t
    using that by (induction t) (auto simp: is_ascii_def blank_tail_def)
  then have ascii: "is_ascii isep" "is_ascii ks"
    using assms(3,5) unfolding assms(2,4) by (simp_all add: is_ascii_def)
  have "normalise_cursor (b64encode t) = b64encode t" for t
  proof -
    have "CHR ''%'' \<notin> set (b64encode t)" using b64encode_chars by blast
    then show ?thesis by (simp add: normalise_cursor_def replace_str_absent)
  qed
  then show ?thesis
    using json_roundtrip [OF assms(2-5,1)] is_ascii_dumps [OF assms(1) ascii] by (simp add: cursor_data_def)
qed

lemma decode_encode_offset: "n < 10 ^ max_int_digits \<Longrightarrow> decode_offset (encode_offset (int n)) = Inr (int n)"
proof -
  assume "n < 10 ^ max_int_digits"
  then have "\<bar>int n\<bar> < 10 ^ max_int_digits" by (simp add: of_nat_less_numeral_power_cancel_iff)
  then have "json_plain (VDict [(''offset'', VInt (int n))])" by (simp add: is_ascii_def)
  from cursor_data_b64 [OF this, of "'', ''" "'' ''" "'': ''" "'' ''"] show ?thesis
    by (simp add: decode_offset_def encode_offset_def py_int_def blank_tail_def)
qed

section \<open>Keyset cursors\<close>

definition id_text :: "pyval \<Rightarrow> string" where
  "id_text item = str_or_empty (get_nested item ''id'')"

text \<open>
  What the lists of the program satisfy: every record has a non-empty textual id of its own, and
  the column the cursor names is not null.
\<close>

definition keyset_item :: "cursor_spec \<Rightarrow> pyval \<Rightarrow> bool" where
  "keyset_item spec item \<longleftrightarrow>
     (\<exists>s. get_nested item ''id'' = VStr s \<and> s \<noteq> [] \<and> is_ascii s) \<and>
     get_nested item (id_field spec) \<noteq> VNone \<and> json_plain (get_nested item (id_field spec)) \<and>
     json_plain (get_nested item (spec_sort_by_field spec))"

definition keyset_spec :: "cursor_spec \<Rightarrow> bool" where
  "keyset_spec spec \<longleftrightarrow>
     list_all is_ascii [id_column spec, id_sort_order spec, spec_sort_by_column spec, sort_order spec]"

definition keyset_ok :: "cursor_spec \<Rightarrow> pyval list \<Rightarrow> bool" where
  "keyset_ok spec items \<longleftrightarrow>
     keyset_spec spec \<and> list_all (keyset_item spec) items \<and> distinct (map id_text items)"

lemma keyset_payload_back:
  assumes "keyset_spec spec" "keyset_item spec item"
  shows "decode_keyset_payload (encode_keyset item spec) =
    (case keyset_payload item spec of VDict d \<Rightarrow> d)"
proof -
  have "json_plain (keyset_payload item spec)"
    using assms by (auto simp: keyset_payload_def keyset_spec_def keyset_item_def) (simp_all add: is_ascii_def)
  from cursor_data_b64 [OF this, of "'',''" "[]" "'':''" "[]"] show ?thesis
    by (simp add: decode_keyset_payload_def encode_keyset_def keyset_payload_def blank_tail_def)
qed

lemma encode_keyset_nonempty: "encode_keyset item spec \<noteq> []"
proof
  assume "encode_keyset item spec = []"
  then have "b64decode [] = Some (json_dumps '','' '':'' (keyset_payload item spec))"
    using b64_roundtrip [of "json_dumps '','' '':'' (keyset_payload item spec)"] by (simp add: encode_keyset_def)
  then show False by (simp add: b64decode_def keyset_payload_def)
qed

lemma first_index_distinct:
  "j < length items \<Longrightarrow> distinct (map f items) \<Longrightarrow> first_index (\<lambda>x. f x = f (items ! j)) items = Some j"
proof (induction items arbitrary: j)
  case (Cons x xs)
  show ?case
  proof (cases j)
    case (Suc n)
    then have "f x \<noteq> f (xs ! n)" using Cons.prems nth_mem [of n xs] by auto
    then show ?thesis using Cons Suc by simp
  qed simp
qed simp

lemma resume_after:
  assumes "keyset_ok spec items" "j < length items"
  shows "resume_index items spec v (get_nested (items ! j) ''id'') = Some (Suc j)"
proof -
  obtain s where s: "get_nested (items ! j) ''id'' = VStr s" "s \<noteq> []"
    using assms by (auto simp: keyset_ok_def keyset_item_def list_all_length)
  have "first_index (\<lambda>item. id_text item = id_text (items ! j)) items = Some j"
    using assms by (intro first_index_distinct) (auto simp: keyset_ok_def)
  then show ?thesis using s by (simp add: resume_index_def id_text_def str_or_empty_def)
qed

definition keyset_fetch :: "pyval list \<Rightarrow> int \<Rightarrow> cursor_spec \<Rightarrow> string option \<Rightarrow> pyval list \<times> string option" where
  "keyset_fetch items limit spec c =
     (case paginate items None c limit (Some spec) of Inr (page, nxt, _) \<Rightarrow> (page, nxt) | Inl _ \<Rightarrow> ([], None))"

definition keyset_starts :: "cursor_spec \<Rightarrow> pyval list \<Rightarrow> string option \<Rightarrow> nat \<Rightarrow> bool" where
  "keyset_starts spec items c i \<longleftrightarrow>
     c = None \<and> i = 0 \<or>
     (\<exists>j < length items. i = Suc j \<and> c = Some (encode_keyset (items ! j) spec))"

lemma keyset_page:
  assumes "keyset_ok spec items" "keyset_starts spec items c i"
  shows "keyset_fetch items (int limit) spec c =
    (take limit (drop i items),
     if take limit (drop i items) \<noteq> [] \<and> i + length (take limit (drop i items)) < length items
     then Some (encode_keyset (last (take limit (drop i items))) spec) else None)"
proof -
  have slice: "py_slice items (int i) (int i + int limit) = take limit (drop i items)"
    using py_slice_window [of "int limit" items i] by simp
  from assms(2) consider "c = None" "i = 0"
    | j where "j < length items" "i = Suc j" "c = Some (encode_keyset (items ! j) spec)"
    by (auto simp: keyset_starts_def)
  then show ?thesis
  proof cases
    case 1
    then show ?thesis
      using slice by (simp add: keyset_fetch_def paginate_def paginate_keyset_def Let_def)
  next
    case (2 j)
    have item: "keyset_item spec (items ! j)" "keyset_spec spec"
      using assms(1) 2(1) by (auto simp: keyset_ok_def list_all_length)
    have "get_nested (items ! j) (id_field spec) \<noteq> VNone" using item by (simp add: keyset_item_def)
    then show ?thesis
      using slice 2 keyset_payload_back [OF item(2,1)] resume_after [OF assms(1) 2(1)]
        encode_keyset_nonempty [of "items ! j" spec]
      by (simp add: keyset_fetch_def paginate_def paginate_keyset_def Let_def keyset_payload_def) linarith
  qed
qed

lemma last_window:
  "i + limit < length xs \<Longrightarrow> 0 < limit \<Longrightarrow> last (take limit (drop i xs)) = xs ! (i + limit - 1)"
  by (simp add: last_conv_nth)

lemma keyset_walk:
  assumes "keyset_ok spec items" "0 < limit"
  shows "paged_walk (keyset_fetch items (int limit) spec) items limit (keyset_starts spec items)"
proof
  show "0 < limit" by fact
  show "keyset_starts spec items None 0" by (simp add: keyset_starts_def)
next
  fix c i assume c: "keyset_starts spec items c i" "i \<le> length items"
  show "fst (keyset_fetch items (int limit) spec c) = take limit (drop i items)"
    using keyset_page [OF assms(1) c(1)] by simp
  show "length items \<le> i + limit \<Longrightarrow> snd (keyset_fetch items (int limit) spec c) = None"
    using keyset_page [OF assms(1) c(1), of limit] c(2) by simp
next
  fix c i assume c: "keyset_starts spec items c i" "i + limit < length items"
  have "keyset_starts spec items (Some (encode_keyset (items ! (i + limit - 1)) spec)) (i + limit)"
    using c(2) assms(2) by (auto simp: keyset_starts_def intro!: exI [of _ "i + limit - 1"])
  then show "\<exists>c'. snd (keyset_fetch items (int limit) spec c) = Some c' \<and> keyset_starts spec items (Some c') (i + limit)"
    using keyset_page [OF assms(1) c(1), of limit] c(2) assms(2) last_window [OF c(2) assms(2)] by simp
qed

text \<open>
  C38. A client that follows \<open>nextCursor\<close> on a SentinelOne list gets every record exactly
  once, in order, and stops, even when the cursor's identity column is not unique (firewall
  rules page by creation time): the record's own id breaks the tie.
\<close>

theorem keyset_pages_complete:
  assumes "keyset_ok spec items" "0 < limit"
  shows "\<exists>pages. walk (keyset_fetch items (int limit) spec) (Suc (length items)) None = Some pages \<and>
    concat pages = items \<and> (\<forall>p \<in> set pages. length p \<le> limit)"
  using paged_walk.walk_is_complete [OF keyset_walk [OF assms]] .

definition demo_rules :: "pyval list" where
  "demo_rules = map (\<lambda>i. VDict [(''id'', VStr i), (''createdAt'', VStr ''2024''), (''order'', VInt 1)])
     [''r1'', ''r2'', ''r3'']"

theorem keyset_pages_complete_witness:
  "\<exists>pages. walk (keyset_fetch demo_rules 1 FIREWALL_CURSOR) 4 None = Some pages \<and> concat pages = demo_rules"
proof -
  have "keyset_ok FIREWALL_CURSOR demo_rules"
    by (simp add: keyset_ok_def keyset_spec_def keyset_item_def demo_rules_def FIREWALL_CURSOR_def is_ascii_def
        spec_sort_by_column_def spec_sort_by_field_def id_text_def str_or_empty_def get_nested_flat below_int_limit)
  moreover have "Suc (length demo_rules) = 4" by (simp add: demo_rules_def)
  ultimately show ?thesis
    using keyset_pages_complete [of FIREWALL_CURSOR demo_rules 1] by (auto simp del: walk.simps)
qed

section \<open>Next links\<close>

lemma wf_parts_query:
  assumes "wf_parts p" "\<And>c. c \<in> set q \<Longrightarrow> c \<noteq> CHR ''#'' \<and> 33 \<le> (of_char c :: nat)"
  shows "wf_parts (p\<lparr>url_query := q\<rparr>)"
proof -
  have "\<not> is_unsafe_byte c" if "c \<in> set q" for c
    using assms(2) [OF that] by (auto simp: is_unsafe_byte_def)
  then show ?thesis using assms by (auto simp: wf_parts_def list_all_iff)
qed

lemma with_cursor_parts:
  fixes cursor val :: string and replaces :: "string \<Rightarrow> bool"
  assumes "wf_parts (urlsplit url)" "safe_ok safe"
  defines "ps \<equiv> filter (\<lambda>(k, v). \<not> replaces k) (parse_qsl (url_query (urlsplit url))) @ [(cursor, val)]"
  shows "urlsplit (with_cursor url cursor val replaces safe) = (urlsplit url)\<lparr>url_query := urlencode safe ps\<rparr>"
    and "wf_parts (urlsplit (with_cursor url cursor val replaces safe))"
    and "parse_qsl (url_query (urlsplit (with_cursor url cursor val replaces safe))) = ps"
proof -
  have wf: "wf_parts ((urlsplit url)\<lparr>url_query := urlencode safe ps\<rparr>)"
    using assms(1,2) by (intro wf_parts_query urlencode_chars)
  then show split: "urlsplit (with_cursor url cursor val replaces safe) = (urlsplit url)\<lparr>url_query := urlencode safe ps\<rparr>"
    by (simp add: with_cursor_def ps_def urlsplit_unsplit Let_def)
  show "wf_parts (urlsplit (with_cursor url cursor val replaces safe))" using wf by (simp add: split)
  show "parse_qsl (url_query (urlsplit (with_cursor url cursor val replaces safe))) = ps"
    using parse_urlencode [OF assms(2), of ps] by (simp add: split)
qed

text \<open>
  C39. The next link asks the same question: it has the scheme, host, path and fragment of the
  request, every query parameter that is not a page cursor with its value, in order (repeats
  and blanks included), and one cursor, the new one. This holds of the link of Graph and
  Defender (any spelling of \<open>$skip\<close> or \<open>$skiptoken\<close> is replaced) and of ARM's.
\<close>

theorem next_link_same_question:
  assumes "wf_parts (urlsplit url)" "safe_ok safe"
  shows "url_scheme (urlsplit (with_cursor url cursor val replaces safe)) = url_scheme (urlsplit url) \<and>
    url_netloc (urlsplit (with_cursor url cursor val replaces safe)) = url_netloc (urlsplit url) \<and>
    url_path (urlsplit (with_cursor url cursor val replaces safe)) = url_path (urlsplit url) \<and>
    url_fragment (urlsplit (with_cursor url cursor val replaces safe)) = url_fragment (urlsplit url) \<and>
    parse_qsl (url_query (urlsplit (with_cursor url cursor val replaces safe))) =
      filter (\<lambda>(k, v). \<not> replaces k) (parse_qsl (url_query (urlsplit url))) @ [(cursor, val)]"
  using with_cursor_parts [OF assms, of cursor val replaces] by simp

lemma safe_ok_dollar: "safe_ok ''$''" "safe_ok []"
  by (simp_all add: safe_ok_def reserved_def)

theorem next_link_same_question_witness:
  "parse_qsl (url_query (urlsplit (with_cursor ''http://h/graph/v1.0/users?$top=2&$SkipToken=x''
      ''$skiptoken'' ''abc'' is_odata_cursor ''$''))) = [(''$top'', ''2''), (''$skiptoken'', ''abc'')]"
proof -
  let ?u = "''http://h/graph/v1.0/users?$top=2&$SkipToken=x''"
  have u: "urlsplit ?u = \<lparr>url_scheme = ''http'', url_netloc = ''h'', url_path = ''/graph/v1.0/users'',
      url_query = ''$top=2&$SkipToken=x'', url_fragment = []\<rparr>" by code_simp
  have "wf_parts (urlsplit ?u)" unfolding u by code_simp
  from next_link_same_question [OF this safe_ok_dollar(1), of "''$skiptoken''" "''abc''" is_odata_cursor]
  have "parse_qsl (url_query (urlsplit (with_cursor ?u ''$skiptoken'' ''abc'' is_odata_cursor ''$''))) =
      filter (\<lambda>(k, v). \<not> is_odata_cursor k) (parse_qsl ''$top=2&$SkipToken=x'') @ [(''$skiptoken'', ''abc'')]"
    by (simp add: u)
  moreover have "filter (\<lambda>(k, v). \<not> is_odata_cursor k) (parse_qsl ''$top=2&$SkipToken=x'') = [(''$top'', ''2'')]"
    by code_simp
  ultimately show ?thesis by simp
qed

section \<open>Numbered pages\<close>

lemma kibana_page: "0 < k \<Longrightarrow> fst (paginate_kibana items (int k) (int n)) = take n (drop ((k - 1) * n) items)"
proof -
  assume "0 < k"
  then have "max (int k) 1 - 1 = int (k - 1)" by linarith
  then show ?thesis
    using py_slice_window [of "int n" items "(k - 1) * n"] by (simp add: paginate_kibana_def Let_def)
qed

lemma pages_prefix: "concat (map (\<lambda>k. take n (drop (k * n) xs)) [0..<m]) = take (m * n) xs"
proof (induction m)
  case (Suc m)
  have "take (m * n) xs @ take n (drop (m * n) xs) = take (m * n + n) xs" by (simp add: take_add)
  then show ?case using Suc by (simp add: add.commute)
qed simp

text \<open>A client that counts pages up while the reported total says that there is more.\<close>

definition numbered :: "'a list \<Rightarrow> nat \<Rightarrow> int option \<Rightarrow> 'a list \<times> int option" where
  "numbered items per_page c =
     (let k = (case c of None \<Rightarrow> 1 | Some k \<Rightarrow> k); (page, tot) = paginate_kibana items k (int per_page)
      in (page, if max k 1 * int per_page < tot then Some (max k 1 + 1) else None))"

lemma numbered_page:
  assumes "0 < k" "c = Some (int k) \<or> c = None \<and> k = 1"
  shows "numbered items n c = (take n (drop ((k - 1) * n) items), if k * n < length items then Some (int (Suc k)) else None)"
proof -
  have k: "(case c of None \<Rightarrow> 1 | Some j \<Rightarrow> j) = int k" using assms(2) by auto
  have "max (int k) 1 = int k" using assms(1) by simp
  moreover have "int k * int n < int (length items) \<longleftrightarrow> k * n < length items" by (metis of_nat_less_iff of_nat_mult)
  moreover have "paginate_kibana items (int k) (int n) = (take n (drop ((k - 1) * n) items), int (length items))"
    using kibana_page [OF assms(1), of items n] by (simp add: paginate_kibana_def Let_def)
  ultimately show ?thesis unfolding numbered_def k by simp
qed

definition number_starts :: "nat \<Rightarrow> int option \<Rightarrow> nat \<Rightarrow> bool" where
  "number_starts n c i \<longleftrightarrow> (\<exists>k > 0. (c = Some (int k) \<or> c = None \<and> k = 1) \<and> i = (k - 1) * n)"

lemma number_starts_page:
  assumes "number_starts n c i"
  shows "\<exists>k. numbered items n c = (take n (drop i items), if i + n < length items then Some (int (Suc k)) else None) \<and>
    number_starts n (Some (int (Suc k))) (i + n)"
proof -
  obtain k where k: "0 < k" "c = Some (int k) \<or> c = None \<and> k = 1" "i = (k - 1) * n"
    using assms unfolding number_starts_def by - (elim exE conjE, rule that)
  obtain j where "k = Suc j" using k(1) by (cases k) auto
  then have step: "i + n = k * n" using k(3) by simp
  have "number_starts n (Some (int (Suc k))) (k * n)" unfolding number_starts_def by (rule exI [of _ "Suc k"]) simp
  then show ?thesis unfolding numbered_page [OF k(1,2), of items n] step k(3) [symmetric]
    by - (intro exI [of _ k] conjI refl)
qed

interpretation kibana_numbers: paged_walk "numbered items (Suc n)" items "Suc n" "number_starts (Suc n)" for items n
proof
  show "0 < Suc n" by simp
  show "number_starts (Suc n) None 0" unfolding number_starts_def by (rule exI [of _ 1]) simp
  fix c i assume "number_starts (Suc n) c i"
  from number_starts_page [OF this, of items] obtain k where
    k: "numbered items (Suc n) c = (take (Suc n) (drop i items), if i + Suc n < length items then Some (int (Suc k)) else None)"
      "number_starts (Suc n) (Some (int (Suc k))) (i + Suc n)" by - (elim exE conjE, rule that)
  show "fst (numbered items (Suc n) c) = take (Suc n) (drop i items)" by (simp only: k(1) fst_conv)
  show "length items \<le> i + Suc n \<Longrightarrow> snd (numbered items (Suc n) c) = None" using k(1) by simp
  show "i + Suc n < length items \<Longrightarrow>
      \<exists>c'. snd (numbered items (Suc n) c) = Some c' \<and> number_starts (Suc n) (Some c') (i + Suc n)"
    using k by (intro exI [of _ "int (Suc k)"]) simp
qed

lemma numbered_pages_complete:
  "\<exists>pages. walk (numbered items (Suc n)) (Suc (length items)) None = Some pages \<and> concat pages = items"
  using kibana_numbers.walk_is_complete by blast

text \<open>
  C40. Kibana's numbered pages partition the list: pages 1 to \<open>m\<close> in order are its first
  \<open>m * per_page\<close> records, so enough pages are all of it with no record on two pages; a page
  number below 1 is the first page and the total is always that of the whole list.
\<close>

theorem kibana_pages_partition:
  "concat (map (\<lambda>k. fst (paginate_kibana items (int k) (int n))) [1..<Suc m]) = take (m * n) items \<and>
   (\<forall>k. snd (paginate_kibana items k (int n)) = int (length items)) \<and>
   (\<forall>k \<le> 0. paginate_kibana items k (int n) = paginate_kibana items 1 (int n))"
proof -
  have "map (\<lambda>k. fst (paginate_kibana items (int k) (int n))) [1..<Suc m] =
        map (\<lambda>k. take n (drop (k * n) items)) [0..<m]"
    using kibana_page [of "Suc _" items n] by (simp add: map_Suc_upt [symmetric] del: upt_Suc)
  then show ?thesis by (simp add: pages_prefix paginate_kibana_def Let_def)
qed

theorem kibana_pages_partition_witness:
  "paginate_kibana [10, 20, 30 :: int] (- 4) 2 = paginate_kibana [10, 20, 30] 1 2"
  using kibana_pages_partition [of "[10, 20, 30 :: int]" 2 0] by auto

section \<open>Conditional writes\<close>

definition plain_tag :: "string \<Rightarrow> bool" where
  "plain_tag t \<longleftrightarrow> t \<noteq> [] \<and>
     list_all (\<lambda>c. \<not> is_space c \<and> c \<notin> {CHR 0x22, CHR '','', CHR ''*''}) t"

definition quoted_tag :: "bool \<Rightarrow> string \<Rightarrow> string" where
  "quoted_tag weak t = (if weak then ''W/'' else []) @ [CHR 0x22] @ t @ [CHR 0x22]"

definition if_match_header :: "(bool \<times> string) list \<Rightarrow> string" where
  "if_match_header tags = join '','' (map (\<lambda>(weak, t). quoted_tag weak t) tags)"

lemma strip_empty: "strip s = [] \<Longrightarrow> c \<in> set s \<Longrightarrow> is_space c"
proof -
  assume s: "strip s = []" and c: "c \<in> set s"
  have all: "\<forall>x \<in> set (dropWhile is_space s). is_space x"
    using s by (simp add: strip_def rstrip_def lstrip_def dropWhile_eq_Nil_conv)
  have "dropWhile is_space s = []"
  proof (rule ccontr)
    assume ne: "dropWhile is_space s \<noteq> []"
    then have "\<not> is_space (hd (dropWhile is_space s))" by (rule hd_dropWhile)
    then show False using all ne hd_in_set by blast
  qed
  then show ?thesis using c by (simp add: dropWhile_eq_Nil_conv)
qed

lemma strip_quotes: "plain_tag t \<Longrightarrow> strip_chars [CHR 0x22] ([CHR 0x22] @ t @ [CHR 0x22]) = t"
proof -
  assume t: "plain_tag t"
  then have "hd t \<noteq> CHR 0x22" "last t \<noteq> CHR 0x22" "t \<noteq> []" by (auto simp: plain_tag_def list_all_iff)
  then show ?thesis
    by (simp add: strip_chars_def lstrip_chars_def rstrip_chars_def dropWhile_eq_self_iff hd_rev)
       (cases t; auto simp: dropWhile_eq_self_iff hd_append hd_rev split: if_splits)
qed

lemma strip_chars_plain: "plain_tag t \<Longrightarrow> strip_chars [CHR 0x22] t = t"
proof -
  assume t: "plain_tag t"
  then have "hd t \<noteq> CHR 0x22" "last t \<noteq> CHR 0x22" "t \<noteq> []" by (auto simp: plain_tag_def list_all_iff)
  then show ?thesis
    by (simp add: strip_chars_def lstrip_chars_def rstrip_chars_def dropWhile_eq_self_iff hd_rev)
       (cases t; auto simp: dropWhile_eq_self_iff hd_append hd_rev split: if_splits)
qed

lemma strip_quoted: "strip (quoted_tag weak t) = quoted_tag weak t"
  by (rule strip_no_space) (auto simp: quoted_tag_def is_space_def)

lemma tags_of_header:
  assumes "tags \<noteq> []" "list_all (\<lambda>(w, t). plain_tag t) tags"
  shows "if_match_tags (if_match_header tags) = map snd tags"
proof -
  have "list_all (list_all (\<lambda>c. c \<noteq> CHR '','')) (map (\<lambda>(weak, t). quoted_tag weak t) tags)"
    using assms(2) by (auto simp: list_all_iff quoted_tag_def plain_tag_def)
  then have "split_on CHR '','' (if_match_header tags) = map (\<lambda>(weak, t). quoted_tag weak t) tags"
    using assms(1) by (simp add: if_match_header_def split_join)
  moreover have "(let tag = strip (quoted_tag w t);
                    bare = (if startswith tag ''W/'' \<or> startswith tag ''w/'' then drop 2 tag else tag)
                in strip_chars [CHR 0x22] bare) = t" if "plain_tag t" for w t
    using that strip_quotes [OF that] by (simp add: strip_quoted) (simp add: quoted_tag_def startswith_def)
  ultimately show ?thesis using assms(2) by (auto simp: if_match_tags_def list_all_iff simp del: Let_def)
qed

text \<open>
  A conditional write goes through exactly when the resource's entity tag is among those
  the caller lists, weak or strong; otherwise it is refused with 412, which is what prevents the
  lost update.
\<close>

theorem if_match_exact:
  assumes "tags \<noteq> []" "list_all (\<lambda>(w, t). plain_tag t) tags" "plain_tag current"
  shows "check_if_match (Some (if_match_header tags)) current =
    (if current \<in> snd ` set tags then Inr ()
     else Inl (HTTPException 412 (build_arm_error ''PreconditionFailed''
            ''The condition specified by the If-Match header was not met.'') []))"
proof -
  have in_join: "c \<in> set (join '','' ws) \<Longrightarrow> c = CHR '','' \<or> (\<exists>w \<in> set ws. c \<in> set w)" for c ws
    by (induction "'',''" ws rule: join.induct) auto
  have star: "CHR ''*'' \<notin> set (if_match_header tags)"
  proof
    assume "CHR ''*'' \<in> set (if_match_header tags)"
    then obtain w t where "(w, t) \<in> set tags" "CHR ''*'' \<in> set (quoted_tag w t)"
      using in_join [of "CHR ''*''"] unfolding if_match_header_def by force
    then show False using assms(2) by (auto simp: list_all_iff quoted_tag_def plain_tag_def split: if_splits)
  qed
  obtain w t rest where "tags = (w, t) # rest" using assms(1) by (cases tags) auto
  then have q: "CHR 0x22 \<in> set (if_match_header tags)"
    by (cases rest) (auto simp: if_match_header_def quoted_tag_def join_Cons)
  have "strip (if_match_header tags) \<noteq> []"
  proof
    assume "strip (if_match_header tags) = []"
    from strip_empty [OF this q] show False by (simp add: is_space_def)
  qed
  then show ?thesis
    using star tags_of_header [OF assms(1,2)] strip_chars_plain [OF assms(3)]
    by (simp add: check_if_match_def)
qed

theorem if_match_exact_witness:
  "check_if_match (Some (if_match_header [(False, ''e1''), (True, ''e2'')])) ''e2'' = Inr () \<and>
   check_if_match (Some (if_match_header [(False, ''e1''), (True, ''e2'')])) ''e3'' \<noteq> Inr ()"
  using if_match_exact [of "[(False, ''e1''), (True, ''e2'')]" "''e2''"]
    if_match_exact [of "[(False, ''e1''), (True, ''e2'')]" "''e3''"]
  by (simp add: plain_tag_def is_space_def)

text \<open>
  A star anywhere in the header, even inside a quoted tag (where the grammar allows it), makes
  the condition hold for any existing resource.
\<close>

lemma if_match_star_inside_tag: "check_if_match (Some [CHR 0x22, CHR ''a'', CHR ''*'', CHR 0x22]) ''b'' = Inr ()"
  by (simp add: check_if_match_def)

end
