(* ===== verification/Cs_Hosts.thy ===== *)
theory Cs_Hosts
  imports Settling Fql Paging Py_Sort
begin

text \<open>
  The Falcon hosts, \<open>src/backend/application/cs_hosts\<close>: containment and its settling, hiding, tagging, and the
  listings. A host is the dictionary of its fields, stored under its \<open>device_id\<close>. A command reads the clock
  (\<open>now\<close>) once.

  Shown here: the life of a containment request as a client polling the host sees it, that hiding is
  undone by unhiding, and that a client following the scroll tokens sees every host once.
\<close>

section \<open>Commands\<close>

definition cs_host_key :: "jobj \<Rightarrow> string" where
  "cs_host_key host = py_str (dict_get host ''device_id'')"

definition cs_host_save :: "db \<Rightarrow> jobj \<Rightarrow> db" where
  "cs_host_save s host = repo_save_raw s ''cs_hosts'' (cs_host_key host) (VDict host)"

text \<open>The loop the commands share: each host that exists is changed, stamped and saved.\<close>

fun each_host :: "int \<Rightarrow> (jobj \<Rightarrow> jobj) \<Rightarrow> (string \<Rightarrow> jobj \<Rightarrow> pyval) \<Rightarrow> (string \<Rightarrow> pyval list) \<Rightarrow>
    string list \<Rightarrow> db \<Rightarrow> pyval list \<times> db" where
  "each_host now change found missing [] s = ([], s)"
| "each_host now change found missing (device_id # ids) s =
     (case repo_find s ''cs_hosts'' device_id of
        None \<Rightarrow> (let (out, s') = each_host now change found missing ids s in (missing device_id @ out, s'))
      | Some host \<Rightarrow>
          (let host' = AList.update ''modified_timestamp'' (VStr (utc_now now)) (change host);
               (out, s') = each_host now change found missing ids (cs_host_save s host')
           in (found device_id host' # out, s')))"

definition contain_host :: "string \<Rightarrow> int \<Rightarrow> string list \<Rightarrow> db \<Rightarrow> pyval \<times> db" where
  "contain_host tid now ids s =
     (let (affected, s') = each_host now (AList.update ''status'' (VStr ''containment_pending''))
            (\<lambda>i host. VDict [(''id'', dict_get host ''device_id'')]) (\<lambda>i. []) ids s
      in (build_cs_action_response tid (Some affected), s'))"

definition lift_containment :: "string \<Rightarrow> int \<Rightarrow> string list \<Rightarrow> db \<Rightarrow> pyval \<times> db" where
  "lift_containment tid now ids s =
     (let (affected, s') = each_host now (AList.update ''status'' (VStr ''lift_containment_pending''))
            (\<lambda>i host. VDict [(''id'', dict_get host ''device_id'')]) (\<lambda>i. []) ids s
      in (build_cs_action_response tid (Some affected), s'))"

definition set_hidden :: "string \<Rightarrow> int \<Rightarrow> string list \<Rightarrow> bool \<Rightarrow> db \<Rightarrow> pyval \<times> db" where
  "set_hidden tid now ids hidden s =
     (let (affected, s') = each_host now (AList.update ''hidden'' (VBool hidden))
            (\<lambda>i host. VDict [(''id'', VStr i)]) (\<lambda>i. []) ids s
      in (build_cs_action_response tid (Some affected), s'))"

definition hide_host :: "string \<Rightarrow> int \<Rightarrow> string list \<Rightarrow> db \<Rightarrow> pyval \<times> db" where
  "hide_host tid now ids s = set_hidden tid now ids True s"

definition unhide_host :: "string \<Rightarrow> int \<Rightarrow> string list \<Rightarrow> db \<Rightarrow> pyval \<times> db" where
  "unhide_host tid now ids s = set_hidden tid now ids False s"

text \<open>The tags of a host after an action; an action that is neither \<open>add\<close> nor \<open>remove\<close> keeps them.\<close>

definition retag :: "string list \<Rightarrow> string \<Rightarrow> pyval list \<Rightarrow> pyval list" where
  "retag tags action current =
     (if action = ''add'' then fold (\<lambda>t cur. if VStr t \<in> set cur then cur else cur @ [VStr t]) tags current
      else if action = ''remove'' then filter (\<lambda>t. t \<notin> VStr ` set tags) current
      else current)"

definition list_of :: "pyval \<Rightarrow> pyval list" where
  "list_of v = (case v of VList vs \<Rightarrow> vs | _ \<Rightarrow> [])"

definition tag_row :: "int \<Rightarrow> string \<Rightarrow> string \<Rightarrow> bool \<Rightarrow> pyval" where
  "tag_row status i err updated =
     VDict [(''code'', VInt status), (''device_id'', VStr i), (''error'', VStr err), (''updated'', VBool updated)]"

definition tag_hosts :: "string \<Rightarrow> int \<Rightarrow> string list \<Rightarrow> string list \<Rightarrow> string \<Rightarrow> db \<Rightarrow> pyval \<times> db" where
  "tag_hosts tid now ids tags action s =
     (let (results, s') = each_host now
            (\<lambda>host. AList.update ''tags'' (VList (retag tags action (list_of (dict_get host ''tags'')))) host)
            (\<lambda>i host. tag_row 200 i [] True) (\<lambda>i. [tag_row 404 i ''Device not found'' False]) ids s
      in (build_cs_action_response tid (Some results), s'))"

section \<open>Settling\<close>

definition CS_SETTLES_INTO :: "(string \<times> string) list" where
  "CS_SETTLES_INTO = [(''containment_pending'', ''contained''), (''lift_containment_pending'', ''normal'')]"

definition is_hidden :: "jobj \<Rightarrow> bool" where
  "is_hidden host = truthy (get_or host ''hidden'' (VBool False))"

definition visible_hosts :: "bool \<Rightarrow> db \<Rightarrow> pyval list" where
  "visible_hosts hidden s = filter (\<lambda>h. is_hidden (fields_of h) = hidden) (repo_list_all s ''cs_hosts'')"

text \<open>\<open>str(getattr(host, name, "") or "")\<close>.\<close>

definition text_or_blank :: "jobj \<Rightarrow> string \<Rightarrow> string" where
  "text_or_blank host name =
     (let v = get_or host name (VStr []) in if truthy v then py_str v else [])"

definition cs_settled :: "int \<Rightarrow> jobj \<Rightarrow> db \<Rightarrow> jobj \<times> db" where
  "cs_settled now host s =
     (case settles_into CS_SETTLES_INTO (get_or host ''status'' (VStr [])) of
        None \<Rightarrow> (host, s)
      | Some settled \<Rightarrow>
          (if \<not> has_answered (seconds_since now (text_or_blank host ''modified_timestamp'')) then (host, s)
           else let host' = AList.update ''status'' (VStr settled) host in (host', cs_host_save s host')))"

definition cs_settle_due :: "int \<Rightarrow> db \<Rightarrow> (nat \<times> db) result" where
  "cs_settle_due now s =
     settle_each (map fields_of (repo_list_all s ''cs_hosts'')) ''status''
       (Some (in_table CS_SETTLES_INTO)) (\<lambda>h s. Inr (cs_settled now h s)) s"

definition CS_HOST_INTERNAL_FIELDS :: "string list" where
  "CS_HOST_INTERNAL_FIELDS = [''hidden'']"

definition cs_public :: "int \<Rightarrow> jobj \<Rightarrow> db \<Rightarrow> pyval \<times> db" where
  "cs_public now host s =
     (let (host', s') = cs_settled now host s in (VDict (strip_fields host' CS_HOST_INTERNAL_FIELDS), s'))"

fun public_all :: "int \<Rightarrow> jobj list \<Rightarrow> db \<Rightarrow> pyval list \<times> db" where
  "public_all now [] s = ([], s)"
| "public_all now (h # hs) s =
     (let (e, s1) = cs_public now h s; (es, s2) = public_all now hs s1 in (e # es, s2))"

section \<open>Queries\<close>

text \<open>The records a listing selects, sorted; shared by all the listings.\<close>

definition sorted_hosts :: "int \<Rightarrow> string option \<Rightarrow> string option \<Rightarrow> pyval list \<Rightarrow> pyval list result" where
  "sorted_hosts now filter_fql srt records =
     (case (case filter_fql of
              None \<Rightarrow> Inr records
            | Some f \<Rightarrow> if f = [] then Inr records else apply_fql now records f) of
        Inl e \<Rightarrow> Inl e
      | Inr selected \<Rightarrow>
          (let (field_name, desc) = parse_cs_sort srt ''last_seen'' True
           in sorted_records (\<lambda>r. sort_key (get_nested r field_name)) desc selected))"

definition host_ids :: "pyval list \<Rightarrow> string list" where
  "host_ids = map (\<lambda>r. py_str (get_nested r ''device_id''))"

definition query_host_ids ::
  "string \<Rightarrow> int \<Rightarrow> string option \<Rightarrow> int \<Rightarrow> int \<Rightarrow> string option \<Rightarrow> db \<Rightarrow> pyval result" where
  "query_host_ids tid now filter_fql offset limit srt s =
     (case sorted_hosts now filter_fql srt (visible_hosts False s) of
        Inl e \<Rightarrow> Inl e
      | Inr records \<Rightarrow>
          (let (page, tot) = paginate_cs records offset limit
           in Inr (build_cs_id_response tid (host_ids page) tot offset limit)))"

fun entities_of :: "int \<Rightarrow> string list \<Rightarrow> db \<Rightarrow> pyval list \<times> db" where
  "entities_of now [] s = ([], s)"
| "entities_of now (device_id # ids) s =
     (case repo_find s ''cs_hosts'' device_id of
        None \<Rightarrow> entities_of now ids s
      | Some host \<Rightarrow>
          (if is_hidden host then entities_of now ids s
           else let (e, s1) = cs_public now host s; (es, s2) = entities_of now ids s1 in (e # es, s2)))"

definition get_host_entities :: "string \<Rightarrow> int \<Rightarrow> string list \<Rightarrow> db \<Rightarrow> pyval \<times> db" where
  "get_host_entities tid now ids s =
     (let (entities, s') = entities_of now ids s in (build_cs_entity_response tid entities, s'))"

definition query_host_ids_scroll ::
  "string \<Rightarrow> int \<Rightarrow> string option \<Rightarrow> string option \<Rightarrow> int \<Rightarrow> string option \<Rightarrow> db \<Rightarrow> pyval http" where
  "query_host_ids_scroll tid now filter_fql offset limit srt s =
     (case sorted_hosts now filter_fql srt (visible_hosts False s) of
        Inl e \<Rightarrow> Inl (Raised e)
      | Inr records \<Rightarrow>
          (case decode_page_token tid offset of
             Inl e \<Rightarrow> Inl e
           | Inr start \<Rightarrow>
               (let tot = int (length records);
                    ids = host_ids (py_slice records start (start + limit));
                    next_offset = (if tot \<le> start + limit then [] else encode_page_token (start + limit))
                in Inr (VDict
                     [(''meta'', VDict
                        [(''query_time'', VFloat ''0.01''), (''powered_by'', VStr ''device-api''), (''trace_id'', VStr tid),
                         (''pagination'', VDict [(''offset'', VStr next_offset), (''limit'', VInt limit), (''total'', VInt tot)])]),
                      (''resources'', VList (map VStr ids)), (''errors'', VList [])]))))"

definition hidden_page ::
  "int \<Rightarrow> string option \<Rightarrow> int \<Rightarrow> int \<Rightarrow> string option \<Rightarrow> db \<Rightarrow> (pyval list \<times> int) result" where
  "hidden_page now filter_fql offset limit srt s =
     (case sorted_hosts now filter_fql srt (visible_hosts True s) of
        Inl e \<Rightarrow> Inl e
      | Inr records \<Rightarrow> Inr (paginate_cs records offset limit))"

definition list_hidden_hosts ::
  "string \<Rightarrow> int \<Rightarrow> string option \<Rightarrow> int \<Rightarrow> int \<Rightarrow> string option \<Rightarrow> db \<Rightarrow> (pyval \<times> db) result" where
  "list_hidden_hosts tid now filter_fql offset limit srt s =
     (case hidden_page now filter_fql offset limit srt s of
        Inl e \<Rightarrow> Inl e
      | Inr (page, tot) \<Rightarrow>
          (let (hosts, s') = public_all now (map fields_of page) s
           in Inr (build_cs_list_response tid hosts tot offset limit ''0.01'', s')))"

definition query_hidden_host_ids ::
  "string \<Rightarrow> int \<Rightarrow> string option \<Rightarrow> int \<Rightarrow> int \<Rightarrow> string option \<Rightarrow> db \<Rightarrow> pyval result" where
  "query_hidden_host_ids tid now filter_fql offset limit srt s =
     (case hidden_page now filter_fql offset limit srt s of
        Inl e \<Rightarrow> Inl e
      | Inr (page, tot) \<Rightarrow> Inr (build_cs_id_response tid (host_ids page) tot offset limit))"

section \<open>The contract of a containment request\<close>

definition cs_due :: "int \<Rightarrow> jobj \<Rightarrow> bool" where
  "cs_due now host \<longleftrightarrow> settles_into CS_SETTLES_INTO (get_or host ''status'' (VStr [])) \<noteq> None \<and>
     has_answered (seconds_since now (text_or_blank host ''modified_timestamp''))"

definition cs_finish :: "jobj \<Rightarrow> jobj" where
  "cs_finish host =
     (case settles_into CS_SETTLES_INTO (get_or host ''status'' (VStr [])) of
        None \<Rightarrow> host | Some t \<Rightarrow> AList.update ''status'' (VStr t) host)"

lemma cs_settled_due: "cs_settled now host s =
    (if cs_due now host then (cs_finish host, cs_host_save s (cs_finish host)) else (host, s))"
  by (simp add: cs_settled_def cs_due_def cs_finish_def Let_def split: option.splits)

lemma get_or_dict_get: "get_or d k (VStr []) = (case map_of d k of None \<Rightarrow> VStr [] | Some v \<Rightarrow> v)"
  by (simp add: get_or_def)

lemma cs_targets: "settles_into CS_SETTLES_INTO v = Some t \<Longrightarrow> t \<in> {''contained'', ''normal''}"
  by (auto simp: settles_into_def CS_SETTLES_INTO_def split: pyval.splits if_splits)

lemma cs_pending_get_or:
  "settles_into CS_SETTLES_INTO (get_or h ''status'' (VStr [])) = Some t \<Longrightarrow> in_table CS_SETTLES_INTO (dict_get h ''status'')"
  by (auto simp: get_or_def dict_get_def settles_into_def in_table_def CS_SETTLES_INTO_def split: option.splits pyval.splits if_splits)

interpretation falcon_hosts: device_action "\<lambda>s. s" "''cs_hosts''" cs_host_key "''status''" "in_table CS_SETTLES_INTO"
  cs_due "\<lambda>now h. Inr (cs_finish h)" "\<lambda>now h s. Inr (cs_settled now h s)"
proof
  fix now r and w :: db
  show "\<not> cs_due now r \<Longrightarrow> Inr (cs_settled now r w) = (Inr (r, w) :: (jobj \<times> db) result)"
    by (simp add: cs_settled_due)
next
  fix now r r' and w :: db
  assume d: "cs_due now r" "Inr (cs_finish r) = (Inr r' :: jobj result)"
  then have "cs_host_key r' = cs_host_key r"
    by (auto simp: cs_finish_def cs_host_key_def split: option.splits)
  then show "\<exists>w'. Inr (cs_settled now r w) = (Inr (r', w') :: (jobj \<times> db) result) \<and>
      w' = repo_save_raw w ''cs_hosts'' (cs_host_key r) (VDict r')"
    using d by (simp add: cs_settled_due cs_host_save_def)
next
  fix now r assume "cs_due now r"
  then show "in_table CS_SETTLES_INTO (dict_get r ''status'')" using cs_pending_get_or by (auto simp: cs_due_def)
next
  fix now r r' assume "cs_due now r" "Inr (cs_finish r) = (Inr r' :: jobj result)"
  then obtain t where "r' = AList.update ''status'' (VStr t) r" "t \<in> {''contained'', ''normal''}"
    using cs_targets by (auto simp: cs_due_def cs_finish_def)
  then show "\<not> in_table CS_SETTLES_INTO (dict_get r' ''status'') \<and> cs_host_key r' = cs_host_key r"
    by (auto simp: in_table_def CS_SETTLES_INTO_def cs_host_key_def)
qed

section \<open>The life of a containment request\<close>

lemma cs_hosts_known [simp]: "''cs_hosts'' \<in> set collection_names" "map_of caps ''cs_hosts'' = None"
  by (simp_all add: collection_names_def caps_def)

text \<open>A command on one stored host.\<close>

lemma each_host_one:
  assumes "repo_get s ''cs_hosts'' i = Some (VDict h)" "cs_host_key (change h) = i"
  shows "\<exists>out s'. each_host now change found missing [i] s = (out, s') \<and>
    (store_inv s \<longrightarrow> store_inv s') \<and>
    (\<forall>c j. repo_get s' c j = (if c = ''cs_hosts'' \<and> j = i
       then Some (VDict (AList.update ''modified_timestamp'' (VStr (utc_now now)) (change h))) else repo_get s c j))"
proof -
  let ?h = "AList.update ''modified_timestamp'' (VStr (utc_now now)) (change h)"
  have k: "cs_host_key ?h = i" using assms(2) by (simp add: cs_host_key_def)
  have "each_host now change found missing [i] s = ([found i ?h], cs_host_save s ?h)"
    using assms(1) by (simp add: repo_find_def fields_of_def Let_def)
  moreover have "repo_get (cs_host_save s ?h) c j = (if c = ''cs_hosts'' \<and> j = i then Some (VDict ?h) else repo_get s c j)" for c j
    using assms(1) k by (simp add: cs_host_save_def repo_update)
  ultimately show ?thesis by (auto simp: cs_host_save_def)
qed


lemma entity_one:
  assumes "repo_get s ''cs_hosts'' i = Some (VDict h)" "\<not> is_hidden h"
  shows "get_host_entities tid now [i] s =
    (build_cs_entity_response tid [VDict (strip_fields (if cs_due now h then cs_finish h else h) CS_HOST_INTERNAL_FIELDS)],
     if cs_due now h then cs_host_save s (cs_finish h) else s)"
  using assms by (simp add: get_host_entities_def repo_find_def fields_of_def cs_public_def cs_settled_due)

lemma hidden_internal [simp]: "''status'' \<notin> set CS_HOST_INTERNAL_FIELDS"
  by (simp add: CS_HOST_INTERNAL_FIELDS_def)

text \<open>A stored request, read at any moment.\<close>

lemma pending_read:
  assumes "repo_get s ''cs_hosts'' i = Some (VDict h)" "cs_host_key h = i" "\<not> is_hidden h"
    and "get_or h ''status'' (VStr []) = VStr p" "map_of CS_SETTLES_INTO p = Some final"
    and "get_or h ''modified_timestamp'' (VStr []) = VStr (utc_now now)"
    and "365000 * day_micros \<le> now" "now < max_ordinal * day_micros"
  shows "\<exists>e s'. get_host_entities tid later [i] s = (build_cs_entity_response tid [VDict e], s') \<and>
    dict_get e ''status'' = VStr (if later \<le> now div 1000000 * 1000000 + 1000000 then p else final) \<and>
    (now div 1000000 * 1000000 + 1000000 < later \<longrightarrow>
      (\<exists>h'. repo_get s' ''cs_hosts'' i = Some (VDict h') \<and> \<not> is_hidden h' \<and> get_or h' ''status'' (VStr []) = VStr final))"
proof -
  have target: "settles_into CS_SETTLES_INTO (get_or h ''status'' (VStr [])) = Some final"
    using assms(4,5) by (simp add: settles_into_def)
  have "utc_now now \<noteq> []" by (simp add: utc_now_def strftime_000_def)
  then have "text_or_blank h ''modified_timestamp'' = utc_now now" using assms(6) by (simp add: text_or_blank_def)
  then have due: "cs_due later h \<longleftrightarrow> now div 1000000 * 1000000 + 1000000 < later"
    using target seconds_since_utc_now [OF assms(7,8), of later]
    by (simp add: cs_due_def has_answered_def SETTLE_SECONDS_def less_divide_eq) linarith
  have fin: "cs_finish h = AList.update ''status'' (VStr final) h" using target by (simp add: cs_finish_def)
  have st: "dict_get h ''status'' = VStr p"
    using assms(4,5) by (auto simp: get_or_def dict_get_def CS_SETTLES_INTO_def split: option.splits)
  have save: "repo_get (cs_host_save s (cs_finish h)) ''cs_hosts'' i = Some (VDict (cs_finish h))"
    using assms(1,2) by (simp add: cs_host_save_def fin cs_host_key_def repo_update)
  show ?thesis
    using entity_one [OF assms(1,3), of tid later] st fin save assms(3)
    by (auto simp: due is_hidden_def)
qed

text \<open>A settled host does not move any more.\<close>

lemma settled_read:
  assumes "repo_get s ''cs_hosts'' i = Some (VDict h)" "\<not> is_hidden h"
    and "get_or h ''status'' (VStr []) = VStr t" "t \<in> {''contained'', ''normal''}"
  shows "\<exists>e. get_host_entities tid later [i] s = (build_cs_entity_response tid [VDict e], s) \<and>
    dict_get e ''status'' = VStr t"
proof -
  have "\<not> cs_due later h" using assms(3,4) by (auto simp: cs_due_def settles_into_def CS_SETTLES_INTO_def)
  moreover have "dict_get h ''status'' = VStr t"
    using assms(3,4) by (auto simp: get_or_def dict_get_def split: option.splits)
  ultimately show ?thesis using entity_one [OF assms(1,2), of tid later]
    by (intro exI [of _ "strip_fields h CS_HOST_INTERNAL_FIELDS"]) simp
qed

text \<open>
  C10. The life of a containment request: whatever state a visible host was in, after \<open>contain_host\<close>
  (\<open>lift_containment\<close>) a client that polls the host reads \<open>containment_pending\<close>
  (\<open>lift_containment_pending\<close>) up to one second after the second of the request, and \<open>contained\<close> (\<open>normal\<close>)
  at every later moment; and once it has read the settled state it reads it again however often it polls.
\<close>

theorem containment_lifecycle:
  assumes "repo_get s ''cs_hosts'' i = Some (VDict h)" "cs_host_key h = i" "\<not> is_hidden h"
    and "(ask, p, final) \<in> {(contain_host, ''containment_pending'', ''contained''),
           (lift_containment, ''lift_containment_pending'', ''normal'')}"
    and "365000 * day_micros \<le> now" "now < max_ordinal * day_micros"
  shows "\<exists>e s2. get_host_entities tid later [i] (snd (ask tid now [i] s)) = (build_cs_entity_response tid [VDict e], s2) \<and>
    dict_get e ''status'' = VStr (if later \<le> now div 1000000 * 1000000 + 1000000 then p else final) \<and>
    (now div 1000000 * 1000000 + 1000000 < later \<longrightarrow>
      (\<exists>e'. get_host_entities tid again [i] s2 = (build_cs_entity_response tid [VDict e'], s2) \<and>
        dict_get e' ''status'' = VStr final))"
proof -
  let ?ch = "AList.update ''status'' (VStr p)"
  let ?h = "AList.update ''modified_timestamp'' (VStr (utc_now now)) (?ch h)"
  have t: "map_of CS_SETTLES_INTO p = Some final" "final \<in> {''contained'', ''normal''}"
    using assms(4) by (auto simp: CS_SETTLES_INTO_def)
  have key: "cs_host_key (?ch h) = i" "cs_host_key ?h = i" using assms(2) by (simp_all add: cs_host_key_def)
  have "snd (ask tid now [i] s) = snd (each_host now ?ch (\<lambda>i host. VDict [(''id'', dict_get host ''device_id'')]) (\<lambda>i. []) [i] s)"
    using assms(4) by (auto simp: contain_host_def lift_containment_def split: prod.splits)
  then obtain s1 where s1: "snd (ask tid now [i] s) = s1" "repo_get s1 ''cs_hosts'' i = Some (VDict ?h)"
    using each_host_one [of s i h ?ch now "\<lambda>i host. VDict [(''id'', dict_get host ''device_id'')]" "\<lambda>i. []"] assms(1) key(1)
    by auto
  have "\<not> is_hidden ?h" using assms(3) by (simp add: is_hidden_def)
  from pending_read [OF s1(2) key(2) this _ t(1) _ assms(5,6), of tid later]
  obtain e s2 where e: "get_host_entities tid later [i] s1 = (build_cs_entity_response tid [VDict e], s2)"
    "dict_get e ''status'' = VStr (if later \<le> now div 1000000 * 1000000 + 1000000 then p else final)"
    "now div 1000000 * 1000000 + 1000000 < later \<longrightarrow>
      (\<exists>h'. repo_get s2 ''cs_hosts'' i = Some (VDict h') \<and> \<not> is_hidden h' \<and> get_or h' ''status'' (VStr []) = VStr final)"
    by auto
  then show ?thesis using s1(1) settled_read [OF _ _ _ t(2), of s2 i _ tid again] by blast
qed

section \<open>Commands on many hosts\<close>

lemma update_same: "map_of d k = Some v \<Longrightarrow> AList.update k v d = d"
  by (induction d) (auto split: if_splits)

definition stamped :: "int \<Rightarrow> (jobj \<Rightarrow> jobj) \<Rightarrow> jobj \<Rightarrow> jobj" where
  "stamped now change h = AList.update ''modified_timestamp'' (VStr (utc_now now)) (change h)"

text \<open>
  A command that keeps the id of a host and is idempotent changes exactly the stored hosts it names,
  however often it names them.
\<close>

lemma each_host_effect:
  assumes "\<And>h. stamped now change (stamped now change h) = stamped now change h"
    and "\<And>h. dict_get (change h) ''device_id'' = dict_get h ''device_id''"
    and "keyed_by cs_host_key s ''cs_hosts''" "store_inv s"
    and "each_host now change found missing ids s = (out, s')"
  shows "store_inv s' \<and> keyed_by cs_host_key s' ''cs_hosts'' \<and>
    (\<forall>j. repo_get s' ''cs_hosts'' j = map_option (\<lambda>v. if j \<in> set ids then VDict (stamped now change (fields_of v)) else v)
       (repo_get s ''cs_hosts'' j)) \<and>
    (\<forall>c j. c \<noteq> ''cs_hosts'' \<longrightarrow> repo_get s' c j = repo_get s c j)"
  using assms(3-5)
proof (induction ids arbitrary: s out)
  case Nil
  then show ?case by (auto simp: option.map_id0 [unfolded id_def])
next
  case (Cons i ids)
  show ?case
  proof (cases "repo_get s ''cs_hosts'' i")
    case None
    then obtain o' where o': "each_host now change found missing ids s = (o', s')"
      using Cons.prems(3) by (auto simp: repo_find_def split: prod.splits)
    then show ?thesis using Cons.IH [OF Cons.prems(1,2) o'] None by (auto simp: option.map_comp intro!: option.map_cong)
  next
    case (Some v)
    then obtain h where h: "v = VDict h" "cs_host_key h = i" using Cons.prems(1) by (auto simp: keyed_by_def)
    let ?h = "stamped now change h"
    have key: "cs_host_key ?h = i" using h(2) assms(2) by (simp add: stamped_def cs_host_key_def)
    obtain o' where o': "each_host now change found missing ids (cs_host_save s ?h) = (o', s')"
      using Cons.prems(3) Some h by (auto simp: repo_find_def fields_of_def stamped_def Let_def split: prod.splits)
    have get: "repo_get (cs_host_save s ?h) c j = (if c = ''cs_hosts'' \<and> j = i then Some (VDict ?h) else repo_get s c j)" for c j
      using Some key by (simp add: cs_host_save_def repo_update)
    have "keyed_by cs_host_key (cs_host_save s ?h) ''cs_hosts''" "store_inv (cs_host_save s ?h)"
      using Cons.prems(1,2) Some key by (simp_all add: cs_host_save_def keyed_by_save)
    from Cons.IH [OF this o'] show ?thesis
      using get Some h assms(1) [of h] by (auto simp: fields_of_def option.map_comp)
  qed
qed

lemma hidden_stamp:
  "stamped now (AList.update ''hidden'' v) (stamped now (AList.update ''hidden'' v) h) = stamped now (AList.update ''hidden'' v) h"
  by (simp add: stamped_def update_same)

text \<open>The ids of the hosts that are hidden, or visible.\<close>

lemma listed_ids:
  assumes "store_inv s" "keyed_by cs_host_key s ''cs_hosts''"
  shows "i \<in> set (host_ids (visible_hosts b s)) \<longleftrightarrow>
    (\<exists>h. repo_get s ''cs_hosts'' i = Some (VDict h) \<and> is_hidden h = b)"
proof -
  have nested: "py_str (get_nested (VDict h) ''device_id'') = cs_host_key h" for h
    by (simp add: cs_host_key_def get_nested_flat)
  have "i \<in> set (host_ids (visible_hosts b s)) \<longleftrightarrow>
      (\<exists>h. VDict h \<in> set (repo_list_all s ''cs_hosts'') \<and> is_hidden h = b \<and> cs_host_key h = i)"
    using keyed_by_member [OF assms] by (force simp: host_ids_def visible_hosts_def nested fields_of_def)
  moreover have "VDict h \<in> set (repo_list_all s ''cs_hosts'') \<and> cs_host_key h = i \<longleftrightarrow>
      repo_get s ''cs_hosts'' i = Some (VDict h)" for h
    using assms(2) keyed_by_member [OF assms, of "VDict h"] by (auto simp: keyed_by_def)
  ultimately show ?thesis by blast
qed

lemma set_hidden_effect:
  assumes "store_inv s" "keyed_by cs_host_key s ''cs_hosts''" "snd (set_hidden tid now ids b s) = s'"
  shows "store_inv s'" "keyed_by cs_host_key s' ''cs_hosts''"
    "repo_get s' ''cs_hosts'' j = map_option (\<lambda>v. if j \<in> set ids
       then VDict (stamped now (AList.update ''hidden'' (VBool b)) (fields_of v)) else v) (repo_get s ''cs_hosts'' j)"
proof -
  obtain out where "each_host now (AList.update ''hidden'' (VBool b)) (\<lambda>i host. VDict [(''id'', VStr i)]) (\<lambda>i. []) ids s = (out, s')"
    using assms(3) by (auto simp: set_hidden_def split: prod.splits)
  from each_host_effect [OF _ _ assms(2,1) this]
  show "store_inv s'" "keyed_by cs_host_key s' ''cs_hosts''"
    "repo_get s' ''cs_hosts'' j = map_option (\<lambda>v. if j \<in> set ids
       then VDict (stamped now (AList.update ''hidden'' (VBool b)) (fields_of v)) else v) (repo_get s ''cs_hosts'' j)"
    by (simp_all add: hidden_stamp)
qed

lemma hidden_now: "is_hidden (stamped now (AList.update ''hidden'' (VBool b)) h) = b"
  by (simp add: is_hidden_def stamped_def)

text \<open>
  Hiding is exact and reversible: \<open>hide_host\<close> moves the stored hosts it names from the listing to the
  hidden listing and no other, \<open>unhide_host\<close> moves them back, a hidden host is not served as an entity, and neither
  changes any field of any host but the flag and the modification stamp of the named ones.
\<close>

theorem hiding_moves_hosts:
  assumes "store_inv s" "keyed_by cs_host_key s ''cs_hosts''"
    and "(act, b) \<in> {(hide_host, True), (unhide_host, False)}" "s' = snd (act tid now ids s)"
  shows "set (host_ids (visible_hosts b s')) =
      set (host_ids (visible_hosts b s)) \<union> (set ids \<inter> {i. repo_get s ''cs_hosts'' i \<noteq> None}) \<and>
    set (host_ids (visible_hosts (\<not> b) s')) = set (host_ids (visible_hosts (\<not> b) s)) - set ids \<and>
    (\<forall>i \<in> set ids. b \<longrightarrow> fst (get_host_entities tid later [i] s') = build_cs_entity_response tid []) \<and>
    (\<forall>i h. repo_get s ''cs_hosts'' i = Some (VDict h) \<longrightarrow> (\<exists>h'. repo_get s' ''cs_hosts'' i = Some (VDict h') \<and>
       (\<forall>k. i \<notin> set ids \<or> k \<notin> {''hidden'', ''modified_timestamp''} \<longrightarrow> dict_get h' k = dict_get h k)))"
proof -
  have "s' = snd (set_hidden tid now ids b s)" using assms(3,4) by (auto simp: hide_host_def unhide_host_def)
  note eff = set_hidden_effect [OF assms(1,2) this [symmetric]]
  note ids = listed_ids [OF assms(1,2)] listed_ids [OF eff(1,2)]
  have vd: "\<exists>h. v = VDict h" if "repo_get s ''cs_hosts'' i = Some v" for i v
    using assms(2) that by (auto simp: keyed_by_def)
  have "i \<in> set (host_ids (visible_hosts x s')) \<longleftrightarrow> (if i \<in> set ids \<and> repo_get s ''cs_hosts'' i \<noteq> None
      then x = b else i \<in> set (host_ids (visible_hosts x s)))" for i x
    using vd [of i] unfolding ids eff(3) [of i] by (cases "repo_get s ''cs_hosts'' i") (auto simp: fields_of_def hidden_now)
  then have lists: "set (host_ids (visible_hosts b s')) =
      set (host_ids (visible_hosts b s)) \<union> (set ids \<inter> {i. repo_get s ''cs_hosts'' i \<noteq> None})"
    "set (host_ids (visible_hosts (\<not> b) s')) = set (host_ids (visible_hosts (\<not> b) s)) - set ids"
    using ids(1) by (auto split: if_splits)
  have gone: "fst (get_host_entities tid later [i] s') = build_cs_entity_response tid []" if "i \<in> set ids" b for i
    using that eff(3) [of i] hidden_now [of now b]
    by (cases "repo_get s ''cs_hosts'' i") (simp_all add: get_host_entities_def repo_find_def fields_of_def)
  have keep: "\<exists>h'. repo_get s' ''cs_hosts'' i = Some (VDict h') \<and>
       (\<forall>k. i \<notin> set ids \<or> k \<notin> {''hidden'', ''modified_timestamp''} \<longrightarrow> dict_get h' k = dict_get h k)"
    if "repo_get s ''cs_hosts'' i = Some (VDict h)" for i h
    using eff(3) [of i] that by (auto simp: fields_of_def stamped_def)
  show ?thesis using lists gone keep by blast
qed

section \<open>Scrolling\<close>

text \<open>What a scrolling client reads out of a page: the ids, and the token of the next page unless it is blank.\<close>

definition scroll_page :: "pyval http \<Rightarrow> pyval list \<times> string option" where
  "scroll_page r =
     (case r of
        Inl e \<Rightarrow> ([], None)
      | Inr body \<Rightarrow>
          (let t = py_str (field_get (field_get (field_get body ''meta'') ''pagination'') ''offset'')
           in (list_of (field_get body ''resources''), if t = [] then None else Some t)))"

lemma encode_page_token_nonempty: "encode_page_token n \<noteq> []"
  using urlsafe_nonempty [of "CS_TOKEN_PREFIX @ str_of_int n"] by (simp add: encode_page_token_def CS_TOKEN_PREFIX_def)

lemma py_slice_map: "py_slice (map f xs) i j = map f (py_slice xs i j)"
  by (simp add: py_slice_def take_map drop_map Let_def)

lemma scroll_walk:
  assumes "sorted_hosts now f srt (visible_hosts False s) = Inr records" "0 < limit" "length records < 10 ^ max_int_digits"
  shows "paged_walk (\<lambda>c. scroll_page (query_host_ids_scroll tid now f c (int limit) srt s)) (map VStr (host_ids records)) limit
    (\<lambda>c i. decode_page_token tid c = Inr (int i))"
proof
  let ?items = "map VStr (host_ids records)"
  have len: "length ?items = length records" by (simp add: host_ids_def)
  have page: "scroll_page (query_host_ids_scroll tid now f c (int limit) srt s) =
      (take limit (drop i ?items), if length ?items \<le> i + limit then None else Some (encode_page_token (int (i + limit))))"
    if "decode_page_token tid c = Inr (int i)" for c i
    using that assms(1) py_slice_window [of "int limit" records i] encode_page_token_nonempty
    by (simp add: query_host_ids_scroll_def scroll_page_def list_of_def Let_def len host_ids_def take_map drop_map)
  show "0 < limit" by fact
  show "decode_page_token tid None = Inr (int 0)" by (simp add: decode_page_token_def)
  fix c i assume c: "decode_page_token tid c = Inr (int i)"
  show "i \<le> length ?items \<Longrightarrow>
      fst (scroll_page (query_host_ids_scroll tid now f c (int limit) srt s)) = take limit (drop i ?items)"
    by (simp add: page [OF c])
  show "i \<le> length ?items \<Longrightarrow> length ?items \<le> i + limit \<Longrightarrow>
      snd (scroll_page (query_host_ids_scroll tid now f c (int limit) srt s)) = None"
    by (simp add: page [OF c])
  show "i + limit < length ?items \<Longrightarrow>
      \<exists>c'. snd (scroll_page (query_host_ids_scroll tid now f c (int limit) srt s)) = Some c' \<and>
        decode_page_token tid (Some c') = Inr (int (i + limit))"
    using assms(3) decode_encode_page_token [of "i + limit" tid] less_trans [of "i + limit" "length records"]
    by (simp add: page [OF c] host_ids_def)
qed

text \<open>
  C34. A client that scrolls through the hosts, following the opaque offsets until one is blank, reads
  pages of at most the limit and collects every selected host once, in the order of the sort; without a filter
  these are all the visible hosts.
\<close>

theorem scroll_complete:
  assumes "sorted_hosts now f srt (visible_hosts False s) = Inr records" "0 < limit" "length records < 10 ^ max_int_digits"
  shows "\<exists>pages. walk (\<lambda>c. scroll_page (query_host_ids_scroll tid now f c (int limit) srt s)) (Suc (length records)) None
      = Some pages \<and>
    concat pages = map VStr (host_ids records) \<and> (\<forall>p \<in> set pages. length p \<le> limit) \<and>
    (f = None \<longrightarrow> mset (concat pages) = mset (map VStr (host_ids (visible_hosts False s))))"
proof -
  have "f = None \<longrightarrow> mset records = mset (visible_hosts False s)"
    using assms(1) sorted_records_perm by (auto simp: sorted_hosts_def split: prod.splits)
  then have "f = None \<longrightarrow> mset (map VStr (host_ids records)) = mset (map VStr (host_ids (visible_hosts False s)))"
    by (simp add: host_ids_def)
  moreover have "length (map VStr (host_ids records)) = length records" by (simp add: host_ids_def)
  ultimately show ?thesis
    using paged_walk.walk_is_complete [OF scroll_walk [OF assms, of tid]] by (auto simp del: walk.simps)
qed

section \<open>Example\<close>

definition demo_host :: "string \<Rightarrow> jobj" where
  "demo_host i = [(''device_id'', VStr i), (''status'', VStr ''normal''), (''last_seen'', VStr ''2024-01-01T00:00:00Z''),
     (''hidden'', VBool False)]"

definition demo_hosts :: db where
  "demo_hosts = cs_host_save (cs_host_save init_store (demo_host ''d1'')) (demo_host ''d2'')"

lemma demo_hosts_get:
  "repo_get demo_hosts c i = (if c = ''cs_hosts'' \<and> i \<in> {''d1'', ''d2''} then Some (VDict (demo_host i)) else None)"
proof -
  have "cs_host_key (demo_host i) = i" for i by (simp add: cs_host_key_def demo_host_def)
  then show ?thesis
    by (cases "c = ''cs_hosts''") (simp_all add: demo_hosts_def cs_host_save_def repo_save_uncapped repo_save_other store_inv_init)
qed

lemma demo_hosts_ok: "store_inv demo_hosts" "keyed_by cs_host_key demo_hosts ''cs_hosts''"
  by (simp add: demo_hosts_def cs_host_save_def store_inv_init)
    (auto simp: keyed_by_def demo_hosts_get cs_host_key_def demo_host_def split: if_splits)

theorem containment_lifecycle_witness:
  "\<exists>e s2. get_host_entities ''t'' 63840009602000000 [''d1''] (snd (contain_host ''t'' 63840009600500000 [''d1''] demo_hosts)) =
     (build_cs_entity_response ''t'' [VDict e], s2) \<and> dict_get e ''status'' = VStr ''contained''"
proof -
  have "repo_get demo_hosts ''cs_hosts'' ''d1'' = Some (VDict (demo_host ''d1''))" by (simp add: demo_hosts_get)
  moreover have "cs_host_key (demo_host ''d1'') = ''d1''" "\<not> is_hidden (demo_host ''d1'')"
    by (simp_all add: cs_host_key_def is_hidden_def get_or_def demo_host_def)
  ultimately show ?thesis
    using containment_lifecycle [of demo_hosts "''d1''" "demo_host ''d1''" contain_host "''containment_pending''" "''contained''"
        63840009600500000 "''t''" 63840009602000000 63840009603000000]
    by (fastforce simp: day_micros_def max_ordinal_def)
qed

theorem hiding_moves_hosts_witness:
  "''d1'' \<in> set (host_ids (visible_hosts True (snd (hide_host ''t'' 63840009600500000 [''d1''] demo_hosts)))) \<and>
   ''d1'' \<notin> set (host_ids (visible_hosts False (snd (hide_host ''t'' 63840009600500000 [''d1''] demo_hosts))))"
  using hiding_moves_hosts [OF demo_hosts_ok, of hide_host True _ "''t''" 63840009600500000 "[''d1'']"]
  by (auto simp: demo_hosts_get)

theorem scroll_complete_witness:
  "\<exists>records pages. sorted_hosts 0 None None (visible_hosts False demo_hosts) = Inr records \<and>
     walk (\<lambda>c. scroll_page (query_host_ids_scroll ''t'' 0 None c 1 None demo_hosts)) 3 None = Some pages \<and>
     mset (concat pages) = {#VStr ''d1'', VStr ''d2''#}"
proof -
  have s: "sorted_hosts 0 None None (visible_hosts False demo_hosts) = Inr [VDict (demo_host ''d1''), VDict (demo_host ''d2'')]"
  proof -
    have l: "repo_list_all demo_hosts ''cs_hosts'' = [VDict (demo_host ''d1''), VDict (demo_host ''d2'')]"
      by (simp add: demo_hosts_def cs_host_save_def repo_save_raw_def store_save_def repo_list_all_def store_get_all_def
          coll_init evict_def cs_host_key_def demo_host_def)
    have "visible_hosts False demo_hosts = [VDict (demo_host ''d1''), VDict (demo_host ''d2'')]"
      by (simp add: visible_hosts_def l fields_of_def is_hidden_def get_or_def demo_host_def)
    moreover have "parse_cs_sort None ''last_seen'' True = (''last_seen'', True)" by (simp add: parse_cs_sort_def strip_no_space)
    moreover have "sort_key (get_nested (VDict (demo_host i)) ''last_seen'') = Inr (2, Fin 0, ''2024-01-01T00:00:00Z'')" for i
      by (simp add: get_nested_flat demo_host_def sort_key_def)
    ultimately show ?thesis by (simp add: sorted_hosts_def sorted_records_def stable_sort_def)
  qed
  have "length [VDict (demo_host ''d1''), VDict (demo_host ''d2'')] < 10 ^ max_int_digits" by (rule below_int_limit) simp
  from scroll_complete [OF s _ this, of 1 "''t''"] obtain pages where
    "walk (\<lambda>c. scroll_page (query_host_ids_scroll ''t'' 0 None c 1 None demo_hosts)) 3 None = Some pages"
    "concat pages = map VStr (host_ids [VDict (demo_host ''d1''), VDict (demo_host ''d2'')])"
    by (auto simp: eval_nat_numeral simp del: walk.simps)
  moreover have "host_ids [VDict (demo_host ''d1''), VDict (demo_host ''d2'')] = [''d1'', ''d2'']"
    by (simp add: host_ids_def get_nested_flat demo_host_def)
  ultimately show ?thesis using s by simp
qed

text \<open>
  The listing by id filters on the stored state, without settling it: two seconds after a request a client
  that asks for the contained hosts is told that there are none, while the host itself reads \<open>contained\<close>.
\<close>

definition contained_filter :: string where
  "contained_filter = ''status:'' @ [CHR 0x27] @ ''contained'' @ [CHR 0x27]"

lemma contained_filter_clause: "parse_fql contained_filter =
    Inr [\<lparr>fql_field = ''status'', fql_operator = Op_eq, fql_values = [''contained''], fql_conj = Conj_and\<rparr>]"
  by code_simp

lemma stale_status_filter:
  "query_host_ids ''t'' later (Some contained_filter) 0 100 None (snd (contain_host ''t'' now [''d1''] demo_hosts)) =
     Inr (build_cs_id_response ''t'' [] 0 0 100)"
proof -
  define s where "s = snd (contain_host ''t'' now [''d1''] demo_hosts)"
  let ?h = "AList.update ''modified_timestamp'' (VStr (utc_now now)) (AList.update ''status'' (VStr ''containment_pending'') (demo_host ''d1''))"
  have "repo_list_all s ''cs_hosts'' = [VDict ?h, VDict (demo_host ''d2'')]"
    by (simp add: s_def contain_host_def demo_hosts_def cs_host_save_def repo_save_raw_def store_save_def repo_list_all_def
        store_get_all_def coll_init evict_def cs_host_key_def demo_host_def repo_find_def repo_get_def store_get_def fields_of_def)
  then have v: "visible_hosts False s = [VDict ?h, VDict (demo_host ''d2'')]"
    by (simp add: visible_hosts_def fields_of_def is_hidden_def get_or_def demo_host_def)
  have "contained_filter \<noteq> []" by (simp add: contained_filter_def)
  then have "sorted_hosts later (Some contained_filter) None (visible_hosts False s) = Inr []"
    by (simp add: sorted_hosts_def v apply_fql_def contained_filter_clause group_clauses_def add_clause_def match_clause_def
        get_nested_flat demo_host_def candidate_values_def any_pair_def sorted_records_def stable_sort_def split: prod.splits)
  then show ?thesis by (simp add: query_host_ids_def s_def [symmetric] paginate_cs_def py_slice_def host_ids_def)
qed

end
