(* ===== verification/Es_Endpoints.thy ===== *)
theory Es_Endpoints
  imports Settling Paging Py_Sort
begin

text \<open>
  The Elastic Defend endpoints and their response actions, \<open>src/backend/application/es_endpoints\<close> and
  \<open>src/backend/utils/es_endpoint_serde.py\<close>. Drawn UUIDs and the current instant are arguments. The fields of an endpoint
  are of the types its dataclass declares.

  Shown here: the life of a response action as a client polling it sees it, dated by the device's
  answer and not by the read that noticed.
\<close>

section \<open>Commands\<close>

definition es_endpoint_key :: "jobj \<Rightarrow> string" where
  "es_endpoint_key ep = py_str (dict_get ep ''agent_id'')"

definition es_action_key :: "jobj \<Rightarrow> string" where
  "es_action_key action = py_str (dict_get action ''id'')"

definition EsActionResponse :: "string \<Rightarrow> string \<Rightarrow> string \<Rightarrow> string \<Rightarrow> jobj \<Rightarrow> jobj" where
  "EsActionResponse i agent_id action started_at parameters =
     [(''id'', VStr i), (''agent_id'', VStr agent_id), (''action'', VStr action), (''status'', VStr ''pending''),
      (''started_at'', VStr started_at), (''completed_at'', VNone), (''created_by'', VStr ''analyst@acmecorp.internal''),
      (''parameters'', VDict parameters)]"

definition es_create_action ::
  "string \<Rightarrow> int \<Rightarrow> string \<Rightarrow> string \<Rightarrow> string \<Rightarrow> jobj option \<Rightarrow> db \<Rightarrow> jobj \<times> db" where
  "es_create_action uuid now agent_id action comment parameters s =
     (let given = (case parameters of None \<Rightarrow> [] | Some p \<Rightarrow> p);
          params = (if comment = [] then given else AList.update ''comment'' (VStr comment) given);
          resp = EsActionResponse uuid agent_id action (utc_now now) params
      in (resp, repo_save s ''es_action_responses'' resp))"

definition set_isolation :: "string \<Rightarrow> string \<Rightarrow> db \<Rightarrow> db option" where
  "set_isolation status agent_id s =
     (case repo_find s ''es_endpoints'' agent_id of
        None \<Rightarrow> None
      | Some ep \<Rightarrow>
          (let ep' = AList.update ''isolation_status'' (VStr status) ep
           in Some (repo_save_raw s ''es_endpoints'' (es_endpoint_key ep') (VDict ep'))))"

definition es_isolate_endpoint :: "string \<Rightarrow> int \<Rightarrow> string \<Rightarrow> string \<Rightarrow> db \<Rightarrow> jobj option \<times> db" where
  "es_isolate_endpoint uuid now agent_id comment s =
     (case set_isolation ''isolated'' agent_id s of
        None \<Rightarrow> (None, s)
      | Some s1 \<Rightarrow> (let (r, s2) = es_create_action uuid now agent_id ''isolate'' comment None s1 in (Some r, s2)))"

definition es_unisolate_endpoint :: "string \<Rightarrow> int \<Rightarrow> string \<Rightarrow> string \<Rightarrow> db \<Rightarrow> jobj option \<times> db" where
  "es_unisolate_endpoint uuid now agent_id comment s =
     (case set_isolation ''normal'' agent_id s of
        None \<Rightarrow> (None, s)
      | Some s1 \<Rightarrow> (let (r, s2) = es_create_action uuid now agent_id ''unisolate'' comment None s1 in (Some r, s2)))"

definition run_action ::
  "string \<Rightarrow> int \<Rightarrow> string \<Rightarrow> string \<Rightarrow> string \<Rightarrow> jobj option \<Rightarrow> db \<Rightarrow> jobj option \<times> db" where
  "run_action uuid now agent_id command comment params s =
     (case repo_find s ''es_endpoints'' agent_id of
        None \<Rightarrow> (None, s)
      | Some ep \<Rightarrow> (let (r, s1) = es_create_action uuid now agent_id command comment params s in (Some r, s1)))"

definition kill_process :: "string \<Rightarrow> int \<Rightarrow> string \<Rightarrow> jobj \<Rightarrow> db \<Rightarrow> jobj option \<times> db" where
  "kill_process uuid now agent_id params s =
     (case repo_find s ''es_endpoints'' agent_id of
        None \<Rightarrow> (None, s)
      | Some ep \<Rightarrow> (let (r, s1) = es_create_action uuid now agent_id ''kill-process'' [] (Some params) s in (Some r, s1)))"

section \<open>Settling\<close>

definition SETTLED_STATUS :: string where
  "SETTLED_STATUS = ''successful''"

definition es_pending :: "pyval \<Rightarrow> bool" where
  "es_pending v \<longleftrightarrow> v = VStr ''pending''"

text \<open>The completion stamp: \<open>answered_at(started_at) or utc_now()\<close>.\<close>

definition es_settled :: "int \<Rightarrow> jobj \<Rightarrow> db \<Rightarrow> (jobj \<times> db) result" where
  "es_settled now action s =
     (if \<not> es_pending (dict_get action ''status'') then Inr (action, s)
      else if \<not> has_answered (seconds_since now (py_str (dict_get action ''started_at''))) then Inr (action, s)
      else case answered_at (py_str (dict_get action ''started_at'')) of
             Inl e \<Rightarrow> Inl e
           | Inr done_at \<Rightarrow>
               (let completed = (case done_at of None \<Rightarrow> utc_now now | Some t \<Rightarrow> if t = [] then utc_now now else t);
                    action' = AList.update ''completed_at'' (VStr completed)
                                (AList.update ''status'' (VStr SETTLED_STATUS) action)
                in Inr (action', repo_save s ''es_action_responses'' action')))"

definition es_settle_due :: "int \<Rightarrow> db \<Rightarrow> (nat \<times> db) result" where
  "es_settle_due now s =
     settle_each (map fields_of (repo_list_all s ''es_action_responses'')) ''status'' (Some es_pending) (es_settled now) s"

section \<open>Queries\<close>

definition LEGACY_ACTION_PROPERTY :: "string list" where
  "LEGACY_ACTION_PROPERTY = [''isolate'', ''unisolate'']"

definition or_else :: "pyval \<Rightarrow> pyval \<Rightarrow> pyval" where
  "or_else v w = (if truthy v then v else w)"

definition action_details :: "db \<Rightarrow> jobj \<Rightarrow> jobj" where
  "action_details s rec =
     (let agent = py_str (or_else (dict_get rec ''agent_id'') (VStr []));
          hostname = (case repo_find s ''es_endpoints'' agent of None \<Rightarrow> VStr [] | Some ep \<Rightarrow> dict_get ep ''hostname'');
          status = py_str (or_else (dict_get rec ''status'') (VStr ''pending''));
          completed = (status \<noteq> ''pending'');
          successful = (status = ''successful'');
          completed_at = or_else (dict_get rec ''completed_at'') VNone;
          params = fields_of (dict_get rec ''parameters'');
          parameters = AList.delete ''comment'' params;
          errors = VList (if successful \<or> \<not> completed then [] else [VStr ''The action failed.''])
      in [(''id'', dict_get rec ''id''), (''agents'', VList [VStr agent]), (''agentType'', VStr ''endpoint''),
          (''hosts'', VDict [(agent, VDict [(''name'', hostname)])]), (''command'', dict_get rec ''action''),
          (''isExpired'', VBool False), (''isCompleted'', VBool completed), (''wasSuccessful'', VBool successful),
          (''errors'', errors), (''startedAt'', dict_get rec ''started_at''), (''status'', VStr status),
          (''outputs'', VDict []),
          (''agentState'', VDict [(agent, VDict [(''isCompleted'', VBool completed), (''wasSuccessful'', VBool successful),
             (''errors'', errors), (''completedAt'', completed_at)])]),
          (''createdBy'', dict_get rec ''created_by''), (''comment'', dict_get params ''comment''),
          (''parameters'', if parameters = [] then VNone else VDict parameters)] @
         (if truthy completed_at then [(''completedAt'', completed_at)] else []))"

definition action_response :: "db \<Rightarrow> jobj \<Rightarrow> pyval" where
  "action_response s rec =
     (let details = action_details s rec
      in if dict_get details ''command'' \<in> VStr ` set LEGACY_ACTION_PROPERTY
         then VDict [(''action'', dict_get details ''id''), (''data'', VDict details)]
         else VDict [(''data'', VDict details)])"

fun settle_list :: "int \<Rightarrow> jobj list \<Rightarrow> db \<Rightarrow> (jobj list \<times> db) result" where
  "settle_list now [] s = Inr ([], s)"
| "settle_list now (a # as) s =
     (case es_settled now a s of
        Inl e \<Rightarrow> Inl e
      | Inr (a', s1) \<Rightarrow>
          (case settle_list now as s1 of Inl e \<Rightarrow> Inl e | Inr (as', s2) \<Rightarrow> Inr (a' # as', s2)))"

definition get_by_agent_id :: "db \<Rightarrow> string \<Rightarrow> pyval list" where
  "get_by_agent_id s i = filter (\<lambda>a. field_get a ''agent_id'' = VStr i) (repo_list_all s ''es_action_responses'')"

definition list_actions :: "int \<Rightarrow> string option \<Rightarrow> db \<Rightarrow> (jobj list \<times> db) result" where
  "list_actions now agent_id s =
     settle_list now (map fields_of
       (case agent_id of
          None \<Rightarrow> repo_list_all s ''es_action_responses''
        | Some i \<Rightarrow> if i = [] then repo_list_all s ''es_action_responses'' else get_by_agent_id s i)) s"

definition get_action :: "int \<Rightarrow> string \<Rightarrow> db \<Rightarrow> (jobj option \<times> db) result" where
  "get_action now action_id s =
     (case repo_find s ''es_action_responses'' action_id of
        None \<Rightarrow> Inr (None, s)
      | Some a \<Rightarrow> (case es_settled now a s of Inl e \<Rightarrow> Inl e | Inr (a', s') \<Rightarrow> Inr (Some a', s')))"

definition os_full :: "jobj \<Rightarrow> string" where
  "os_full rec = strip (py_str (get_or rec ''host_os_name'' (VStr [])) @ '' '' @ py_str (get_or rec ''host_os_version'' (VStr [])))"

definition host_status :: "jobj \<Rightarrow> string" where
  "host_status rec =
     (let status = lower (py_str (get_or rec ''agent_status'' (VStr [])))
      in if status \<in> {''online'', ''healthy''} then ''healthy''
         else if status \<in> {''offline'', ''unhealthy''} then ''offline''
         else if status = ''updating'' then ''updating''
         else if status = ''unenrolled'' then ''unenrolled'' else ''healthy'')"

definition to_endpoint_entry :: "jobj \<Rightarrow> pyval" where
  "to_endpoint_entry rec =
     (let g = (\<lambda>k. get_or rec k (VStr [])); os = VStr (lower (py_str (g ''host_os_name'')));
          policy = VDict [(''id'', g ''policy_id''), (''revision'', VInt 1)];
          metadata = VDict
            [(''@timestamp'', or_else (dict_get rec ''last_checkin'') (g ''enrolled_at'')),
             (''agent'', VDict [(''id'', g ''agent_id''), (''version'', g ''agent_version''), (''type'', VStr ''endpoint'')]),
             (''elastic'', VDict [(''agent'', VDict [(''id'', g ''agent_id'')])]),
             (''host'', VDict [(''hostname'', g ''hostname''), (''name'', g ''hostname''), (''id'', g ''agent_id''),
                (''ip'', get_or rec ''host_ip'' (VList [])), (''mac'', get_or rec ''host_mac'' (VList [])),
                (''architecture'', g ''host_architecture''),
                (''os'', VDict [(''name'', g ''host_os_name''), (''version'', g ''host_os_version''),
                   (''full'', VStr (os_full rec)), (''platform'', os), (''family'', os)])]),
             (''Endpoint'', VDict [(''status'', VStr ''enrolled''),
                (''policy'', VDict [(''applied'', VDict [(''id'', g ''policy_id''),
                   (''status'', get_or rec ''policy_status'' (VStr ''success'')), (''name'', g ''policy_name'')])]),
                (''state'', VDict [(''isolation'', VBool (dict_get rec ''isolation_status'' = VStr ''isolated''))]),
                (''capabilities'', VList (map VStr [''isolation'', ''kill_process'', ''suspend_process'',
                   ''running_processes'', ''get_file'', ''execute'']))]),
             (''data_stream'', VDict [(''dataset'', VStr ''endpoint.metadata''), (''namespace'', VStr ''default''),
                (''type'', VStr ''metrics'')])]
      in VDict [(''metadata'', metadata), (''host_status'', VStr (host_status rec)),
                (''policy_info'', VDict [(''agent'', VDict [(''applied'', policy), (''configured'', policy)]),
                   (''endpoint'', policy)])])"

definition get_endpoint :: "string \<Rightarrow> db \<Rightarrow> pyval option" where
  "get_endpoint agent_id s = map_option to_endpoint_entry (repo_find s ''es_endpoints'' agent_id)"

text \<open>An optional filter that is blank is not applied.\<close>

definition when_given :: "string option \<Rightarrow> (string \<Rightarrow> jobj \<Rightarrow> bool) \<Rightarrow> jobj list \<Rightarrow> jobj list" where
  "when_given arg P recs = (case arg of None \<Rightarrow> recs | Some a \<Rightarrow> if a = [] then recs else filter (P a) recs)"

definition list_endpoints ::
  "int \<Rightarrow> int \<Rightarrow> string option \<Rightarrow> string option \<Rightarrow> string option \<Rightarrow> string option \<Rightarrow> string \<Rightarrow> string \<Rightarrow> db \<Rightarrow> pyval" where
  "list_endpoints page per_page hostname host_os_name agent_status policy_id sort_field sort_direction s =
     (let has = (\<lambda>k a r. str_in (lower a) (lower (py_str (get_or r k (VStr [])))));
          recs = when_given policy_id (\<lambda>a r. dict_get r ''policy_id'' = VStr a)
            (when_given agent_status (\<lambda>a r. dict_get r ''agent_status'' = VStr a)
              (when_given host_os_name (has ''host_os_name'')
                (when_given hostname (has ''hostname'') (map fields_of (repo_list_all s ''es_endpoints'')))));
          sort_text = (\<lambda>e. py_str (or_else (get_nested e sort_field) (VStr [])));
          lt = (\<lambda>a b. if sort_direction \<noteq> ''asc'' then b < a else (a :: string) < b);
          entries = map snd (stable_sort lt (map (\<lambda>e. (sort_text e, e)) (map to_endpoint_entry recs)));
          (page_items, tot) = paginate_kibana entries page per_page
      in build_kibana_endpoint_response page_items page per_page tot sort_field sort_direction)"

section \<open>The life of a response action\<close>

definition es_due :: "int \<Rightarrow> jobj \<Rightarrow> bool" where
  "es_due now action \<longleftrightarrow> es_pending (dict_get action ''status'') \<and>
     has_answered (seconds_since now (py_str (dict_get action ''started_at'')))"

definition es_finish :: "int \<Rightarrow> jobj \<Rightarrow> jobj result" where
  "es_finish now action =
     (case answered_at (py_str (dict_get action ''started_at'')) of
        Inl e \<Rightarrow> Inl e
      | Inr done_at \<Rightarrow>
          Inr (AList.update ''completed_at''
                 (VStr (case done_at of None \<Rightarrow> utc_now now | Some t \<Rightarrow> if t = [] then utc_now now else t))
                 (AList.update ''status'' (VStr SETTLED_STATUS) action)))"

lemma es_settled_due: "es_settled now action s =
    (if es_due now action
     then (case es_finish now action of Inl e \<Rightarrow> Inl e | Inr a \<Rightarrow> Inr (a, repo_save s ''es_action_responses'' a))
     else Inr (action, s))"
  by (simp add: es_settled_def es_due_def es_finish_def Let_def split: sum.splits)

lemma es_finishD:
  "es_finish now r = Inr r' \<Longrightarrow> dict_get r' ''status'' = VStr ''successful'' \<and> es_action_key r' = es_action_key r"
  by (auto simp: es_finish_def es_action_key_def SETTLED_STATUS_def split: sum.splits)

interpretation elastic_actions: device_action "\<lambda>s. s" "''es_action_responses''" es_action_key "''status''" es_pending
  es_due es_finish es_settled
proof
  fix now r and w :: db
  show "\<not> es_due now r \<Longrightarrow> es_settled now r w = Inr (r, w)" by (simp add: es_settled_due)
next
  fix now r r' and w :: db
  assume "es_due now r" "es_finish now r = Inr r'"
  then show "\<exists>w'. es_settled now r w = Inr (r', w') \<and>
      w' = repo_save_raw w ''es_action_responses'' (es_action_key r) (VDict r')"
    using es_finishD [of now r r'] by (simp add: es_settled_due repo_save_def es_action_key_def)
next
  fix now r show "es_due now r \<Longrightarrow> es_pending (dict_get r ''status'')" by (simp add: es_due_def)
next
  fix now r r' assume "es_finish now r = Inr r'"
  then show "\<not> es_pending (dict_get r' ''status'') \<and> es_action_key r' = es_action_key r"
    using es_finishD by (simp add: es_pending_def)
qed

lemma action_stored:
  assumes "store_inv s"
  shows "repo_get (repo_save s ''es_action_responses'' a) ''es_action_responses'' (es_action_key a) = Some (VDict a)"
proof -
  have "''es_action_responses'' \<in> set collection_names" by (simp add: collection_names_def)
  then show ?thesis using assms by (simp add: repo_save_def es_action_key_def repo_save_same)
qed

text \<open>A stored action, read at any moment.\<close>

lemma action_read:
  assumes "repo_get s ''es_action_responses'' i = Some (VDict (EsActionResponse i agent act (utc_now now) params))"
    and "365000 * day_micros \<le> now" "now + 1000000 < max_ordinal * day_micros"
  defines "t \<equiv> now div 1000000 * 1000000 + 1000000"
  defines "a \<equiv> EsActionResponse i agent act (utc_now now) params"
  defines "a' \<equiv> AList.update ''completed_at'' (VStr (iso_ms (t, 0))) (AList.update ''status'' (VStr ''successful'') a)"
  shows "get_action later i s =
    (if later \<le> t then Inr (Some a, s) else Inr (Some a', repo_save s ''es_action_responses'' a'))"
proof -
  have now: "now < max_ordinal * day_micros" using assms(3) by simp
  have "iso_ms (t, 0) \<noteq> []" by (rule iso_ms_nonempty)
  then have fin: "es_finish later a = Inr a'"
    using plus_seconds_utc_now [OF assms(2,3)]
    by (simp add: es_finish_def answered_at_def SETTLE_SECONDS_def a_def a'_def t_def EsActionResponse_def SETTLED_STATUS_def)
  have due: "es_due later a \<longleftrightarrow> t < later"
    using seconds_since_utc_now [OF assms(2) now, of later]
    by (simp add: es_due_def es_pending_def a_def t_def EsActionResponse_def has_answered_def SETTLE_SECONDS_def less_divide_eq)
      linarith
  show ?thesis
    using assms(1) fin due by (simp add: get_action_def repo_find_def fields_of_def es_settled_due a_def [symmetric])
qed

text \<open>
  C11. The life of a response action: the action a client starts on an endpoint (isolation, release, or one of the
  recorded commands) reads pending and not completed up to one second after the second it was started in; at every later
  moment it reads successful and completed, dated one second after its start however late the read is, and it never moves again.
\<close>

theorem response_action_lifecycle:
  assumes "store_inv s" "repo_get s ''es_endpoints'' agent \<noteq> None"
    and "(start, command) \<in> {(\<lambda>s. es_isolate_endpoint uuid now agent comment s, ''isolate''),
           (\<lambda>s. es_unisolate_endpoint uuid now agent comment s, ''unisolate''),
           (\<lambda>s. run_action uuid now agent ''get-file'' comment params s, ''get-file'')}"
    and "365000 * day_micros \<le> now" "now + 1000000 < max_ordinal * day_micros"
  shows "\<exists>rec s1 rec' s2. start s = (Some rec, s1) \<and> dict_get rec ''action'' = VStr command \<and>
    get_action later uuid s1 = Inr (Some rec', s2) \<and>
    (let d = action_details s2 rec'; settled = now div 1000000 * 1000000 + 1000000 < later
     in dict_get d ''id'' = VStr uuid \<and> dict_get d ''status'' = VStr (if settled then ''successful'' else ''pending'') \<and>
        dict_get d ''isCompleted'' = VBool settled \<and> dict_get d ''wasSuccessful'' = VBool settled \<and>
        dict_get d ''completedAt'' = (if settled then VStr (iso_ms (now div 1000000 * 1000000 + 1000000, 0)) else VNone) \<and>
        (settled \<longrightarrow> get_action again uuid s2 = Inr (Some rec', s2)))"
proof -
  obtain pars s0 where st: "start s = (let (r, s') = es_create_action uuid now agent command comment pars s0 in (Some r, s'))"
    "store_inv s0"
    using assms(1-3)
    by (auto simp: es_isolate_endpoint_def es_unisolate_endpoint_def run_action_def set_isolation_def repo_find_def Let_def
        split: option.splits)
  obtain ps where c: "es_create_action uuid now agent command comment pars s0 =
      (EsActionResponse uuid agent command (utc_now now) ps, repo_save s0 ''es_action_responses'' (EsActionResponse uuid agent command (utc_now now) ps))"
    by (auto simp: es_create_action_def Let_def)
  define t where "t = now div 1000000 * 1000000 + 1000000"
  define a where "a = EsActionResponse uuid agent command (utc_now now) ps"
  define a' where "a' = AList.update ''completed_at'' (VStr (iso_ms (t, 0))) (AList.update ''status'' (VStr ''successful'') a)"
  define s1 where "s1 = repo_save s0 ''es_action_responses'' a"
  define s2 where "s2 = (if later \<le> t then s1 else repo_save s1 ''es_action_responses'' a')"
  have key: "es_action_key a = uuid" "es_action_key a' = uuid" by (simp_all add: a_def a'_def es_action_key_def EsActionResponse_def)
  have get: "get_action later uuid s1 = Inr (Some (if later \<le> t then a else a'), s2)"
    using action_read [OF _ assms(4,5), of s1 uuid agent command ps later] action_stored [OF st(2), of a] key(1)
    unfolding s1_def [symmetric] t_def [symmetric] a_def [symmetric] a'_def [symmetric] by (simp add: s2_def)
  have again: "get_action again uuid s2 = Inr (Some a', s2)" if "t < later"
  proof -
    have "\<not> es_due again a'" by (simp add: es_due_def es_pending_def a'_def)
    moreover have "repo_get s2 ''es_action_responses'' uuid = Some (VDict a')"
      using that key(2) action_stored [of s1 a'] st(2) by (simp add: s2_def s1_def)
    ultimately show ?thesis by (simp add: get_action_def repo_find_def fields_of_def es_settled_due)
  qed
  have blank: "iso_ms (t, 0) \<noteq> []" by (rule iso_ms_nonempty)
  show ?thesis
    using st c get again blank
    by (intro exI [of _ a] exI [of _ s1] exI [of _ "if later \<le> t then a else a'"] exI [of _ s2])
      (simp add: a_def [symmetric] s1_def [symmetric] t_def [symmetric],
       auto simp: action_details_def or_else_def Let_def a'_def a_def EsActionResponse_def)
qed

theorem response_action_lifecycle_witness:
  "\<exists>rec s1 rec' s2. es_isolate_endpoint ''u1'' 63840009600500000 ''e1'' []
       (repo_save_raw init_store ''es_endpoints'' ''e1'' (VDict [(''agent_id'', VStr ''e1'')])) = (Some rec, s1) \<and>
     get_action 63840096000000000 ''u1'' s1 = Inr (Some rec', s2) \<and> dict_get (action_details s2 rec') ''status'' = VStr ''successful''"
proof -
  let ?s = "repo_save_raw init_store ''es_endpoints'' ''e1'' (VDict [(''agent_id'', VStr ''e1'')])"
  have "''es_endpoints'' \<in> set collection_names" by (simp add: collection_names_def)
  then have "store_inv ?s" "repo_get ?s ''es_endpoints'' ''e1'' \<noteq> None" by (simp_all add: store_inv_init repo_save_same)
  from response_action_lifecycle [OF this, of "\<lambda>s. es_isolate_endpoint ''u1'' 63840009600500000 ''e1'' [] s" "''isolate''"
      "''u1''" 63840009600500000 "[]" None 63840096000000000 0]
  show ?thesis by (fastforce simp: day_micros_def max_ordinal_def Let_def)
qed

end
