(* ===== verification/World.thy ===== *)
theory World
  imports Repository Event_Bus Py_Format
begin

text \<open>
  What a command of the application layer changes: the store, the events it published
  (\<open>src/backend/application/bridge.py\<close>) and the webhook deliveries it queued; and the activity repository
  (\<open>src/backend/repository/activity_repo.py\<close>). The subscribers of the bus and the delivery workers run later and
  on collections of their own. Two clock readings appear: \<open>now\<close>, the instant \<open>datetime.now\<close> reads, and \<open>clock\<close>,
  the epoch seconds \<open>time.time\<close> reads.
\<close>

record delivery =
  dl_event :: string
  dl_sub :: jobj
  dl_body :: string
  dl_headers :: "(string \<times> string) list"

record world =
  wdb :: db
  published :: "domain_event list"
  queued :: "delivery list"

definition on_db :: "(db \<Rightarrow> db) \<Rightarrow> world \<Rightarrow> world" where
  "on_db f w = w\<lparr>wdb := f (wdb w)\<rparr>"

definition publish_event :: "domain_event \<Rightarrow> world \<Rightarrow> world" where
  "publish_event e w = w\<lparr>published := published w @ [e]\<rparr>"

definition submit :: "delivery \<Rightarrow> world \<Rightarrow> world" where
  "submit d w = w\<lparr>queued := queued w @ [d]\<rparr>"

lemma world_sel [simp]:
  "wdb (on_db f w) = f (wdb w)" "published (on_db f w) = published w" "queued (on_db f w) = queued w"
  "wdb (publish_event e w) = wdb w" "published (publish_event e w) = published w @ [e]" "queued (publish_event e w) = queued w"
  "wdb (submit d w) = wdb w" "published (submit d w) = published w" "queued (submit d w) = queued w @ [d]"
  by (simp_all add: on_db_def publish_event_def submit_def)

section \<open>The bridge\<close>

definition event_of :: "domain_event \<Rightarrow> string \<Rightarrow> jobj \<Rightarrow> rat \<Rightarrow> domain_event" where
  "event_of e i rec moment = e\<lparr>entity_id := i, payload := rec, timestamp := Fin moment\<rparr>"

text \<open>\<open>str(getattr(record, name, ""))\<close>.\<close>

definition attr_text :: "jobj \<Rightarrow> string \<Rightarrow> string" where
  "attr_text rec name = py_str (get_or rec name (VStr []))"

definition agent_changed :: "rat \<Rightarrow> jobj \<Rightarrow> rat option \<Rightarrow> world \<Rightarrow> world" where
  "agent_changed clock agent moment =
     publish_event (event_of AgentUpdated (attr_text agent ''id'') agent (case moment of None \<Rightarrow> clock | Some t \<Rightarrow> t))"

definition threat_changed :: "rat \<Rightarrow> jobj \<Rightarrow> world \<Rightarrow> world" where
  "threat_changed clock threat = publish_event (event_of ThreatCreated (attr_text threat ''id'') threat clock)"

text \<open>The \<open>id\<close> of these records is the property that names their key.\<close>

definition cs_detection_changed :: "rat \<Rightarrow> jobj \<Rightarrow> world \<Rightarrow> world" where
  "cs_detection_changed clock detection =
     publish_event (event_of CsDetectionCreated (attr_text detection ''composite_id'') detection clock)"

definition mde_alert_changed :: "rat \<Rightarrow> jobj \<Rightarrow> world \<Rightarrow> world" where
  "mde_alert_changed clock alert = publish_event (event_of MdeAlertCreated (attr_text alert ''alertId'') alert clock)"

definition es_alert_changed :: "rat \<Rightarrow> jobj \<Rightarrow> world \<Rightarrow> world" where
  "es_alert_changed clock alert = publish_event (event_of EsAlertCreated (attr_text alert ''id'') alert clock)"

definition xdr_incident_changed :: "rat \<Rightarrow> jobj \<Rightarrow> world \<Rightarrow> world" where
  "xdr_incident_changed clock incident =
     publish_event (event_of XdrIncidentCreated (attr_text incident ''incident_id'') incident clock)"

definition xdr_alert_changed :: "rat \<Rightarrow> jobj \<Rightarrow> world \<Rightarrow> world" where
  "xdr_alert_changed clock alert = publish_event (event_of XdrAlertCreated (attr_text alert ''alert_id'') alert clock)"

definition xdr_endpoint_changed :: "rat \<Rightarrow> jobj \<Rightarrow> rat option \<Rightarrow> world \<Rightarrow> world" where
  "xdr_endpoint_changed clock endpoint moment =
     publish_event (event_of XdrEndpointUpdated (attr_text endpoint ''endpoint_id'') endpoint
       (case moment of None \<Rightarrow> clock | Some t \<Rightarrow> t))"

lemma changed_sel [simp]:
  "wdb (agent_changed clock r m w) = wdb w" "queued (agent_changed clock r m w) = queued w"
  "wdb (xdr_endpoint_changed clock r m w) = wdb w" "queued (xdr_endpoint_changed clock r m w) = queued w"
  by (simp_all add: agent_changed_def xdr_endpoint_changed_def)

section \<open>Activities\<close>

definition Activity :: "string \<Rightarrow> int \<Rightarrow> string \<Rightarrow> string \<Rightarrow> pyval \<Rightarrow> pyval \<Rightarrow> pyval \<Rightarrow> pyval \<Rightarrow> jobj" where
  "Activity i activity_type description now agent_id threat_id user_id site_id =
     [(''id'', VStr i), (''activityType'', VInt activity_type), (''primaryDescription'', VStr description),
      (''createdAt'', VStr now), (''updatedAt'', VStr now), (''activityUuid'', VStr []), (''description'', VStr description),
      (''secondaryDescription'', VNone), (''agentId'', agent_id), (''agentUpdatedVersion'', VNone), (''threatId'', threat_id),
      (''userId'', user_id), (''siteId'', site_id), (''siteName'', VNone), (''groupId'', VNone), (''groupName'', VNone),
      (''accountId'', VNone), (''accountName'', VNone), (''hash'', VNone), (''osFamily'', VNone), (''comments'', VNone),
      (''data'', VDict [])]"

definition activity_append :: "jobj \<Rightarrow> db \<Rightarrow> db" where
  "activity_append activity s =
     (case append_activity s (py_str (dict_get activity ''id'')) (VDict activity) of Inl e \<Rightarrow> s | Inr s' \<Rightarrow> s')"

definition activity_create ::
  "string \<Rightarrow> int \<Rightarrow> rat \<Rightarrow> int \<Rightarrow> string \<Rightarrow> pyval \<Rightarrow> pyval \<Rightarrow> pyval \<Rightarrow> pyval \<Rightarrow> world \<Rightarrow> jobj \<times> world" where
  "activity_create new_id now clock activity_type description agent_id threat_id user_id site_id w =
     (let activity = Activity new_id activity_type description (utc_now now) agent_id threat_id user_id site_id
      in (activity, publish_event (event_of ActivityCreated new_id activity clock) (on_db (activity_append activity) w)))"

definition activity_list_all :: "db \<Rightarrow> pyval list" where
  "activity_list_all s = (case list_activities s of Inl e \<Rightarrow> [] | Inr as \<Rightarrow> as)"

lemma store_inv_activity_append [simp]: "store_inv s \<Longrightarrow> store_inv (activity_append a s)"
  by (auto simp: activity_append_def store_inv_append_activity split: sum.splits)

lemma activity_append_other [repo_laws]:
  "c \<noteq> ''activities'' \<Longrightarrow> repo_get (activity_append a s) c i = repo_get s c i"
  by (auto simp: activity_append_def append_activity_def repo_get_def store_get_def Let_def split: sum.splits)

end
