(* ===== verification/Egress.thy ===== *)
theory Egress
  imports Py_Url Py_Val
begin

text \<open>
  Where the service may send a request of its own, \<open>src/backend/utils/egress.py\<close>, with what it uses of
  \<open>ipaddress\<close> and of the host part of \<open>urllib.parse\<close>. The host of a URL is ASCII. Name resolution is the parameter \<open>resolver\<close>:
  the addresses of a name at a port, none when it does not resolve.

  Shown here: the exact condition under which a target passes, and that no spelling of a link-local
  address as a dotted quad does.
\<close>

section \<open>Addresses\<close>

datatype ip = V4 int | V6 int

definition parse_octet :: "string \<Rightarrow> int option" where
  "parse_octet s =
     (if isdigit s \<and> length s \<le> 3 \<and> (s = ''0'' \<or> hd s \<noteq> CHR ''0'') \<and> int_of_digits s \<le> 255
      then Some (int_of_digits s) else None)"

definition ipv4_of :: "string \<Rightarrow> int option" where
  "ipv4_of s =
     (case split_on CHR ''.'' s of
        [a, b, c, d] \<Rightarrow>
          (case (parse_octet a, parse_octet b, parse_octet c, parse_octet d) of
             (Some w, Some x, Some y, Some z) \<Rightarrow> Some (((w * 256 + x) * 256 + y) * 256 + z)
           | _ \<Rightarrow> None)
      | _ \<Rightarrow> None)"

text \<open>\<open>int(hextet, 16)\<close> of an empty part is a \<open>ValueError\<close>.\<close>

definition parse_hextet :: "string \<Rightarrow> int option" where
  "parse_hextet s =
     (if s = [] \<or> 4 < length s \<or> \<not> list_all (\<lambda>c. hex_nibble c \<noteq> None) s then None
      else Some (foldl (\<lambda>n c. 16 * n + int (the (hex_nibble c))) 0 s))"

fun hextets :: "int \<Rightarrow> string list \<Rightarrow> int option" where
  "hextets n [] = Some n"
| "hextets n (p # ps) = (case parse_hextet p of None \<Rightarrow> None | Some v \<Rightarrow> hextets (n * 65536 + v) ps)"

definition hex_text :: "int \<Rightarrow> string" where
  "hex_text n = map (\<lambda>k. hex_digit (nat (n div 16 ^ k mod 16))) [3, 2, 1, 0]"

text \<open>The parts of an address, an IPv4 suffix written as two of them.\<close>

definition v6_parts :: "string \<Rightarrow> string list option" where
  "v6_parts s =
     (let parts = split_on CHR '':'' s
      in if length parts < 3 then None
         else if CHR ''.'' \<in> set (last parts)
         then (case ipv4_of (last parts) of
                 None \<Rightarrow> None
               | Some n \<Rightarrow> Some (butlast parts @ [hex_text (n div 65536), hex_text (n mod 65536)]))
         else Some parts)"

definition ipv6_of :: "string \<Rightarrow> int option" where
  "ipv6_of s =
     (case v6_parts s of
        None \<Rightarrow> None
      | Some parts \<Rightarrow>
          (let n = length parts; gaps = filter (\<lambda>i. parts ! i = []) [1..<n - 1]
           in if 9 < n \<or> 1 < length gaps then None
              else case gaps of
                     [] \<Rightarrow> if n \<noteq> 8 then None else hextets 0 parts
                   | k # _ \<Rightarrow>
                       (let hi = (if hd parts = [] then k - 1 else k);
                            lo = (if last parts = [] then n - k - 2 else n - k - 1)
                        in if hd parts = [] \<and> hi \<noteq> 0 \<or> last parts = [] \<and> lo \<noteq> 0 \<or> 8 < hi + lo + 1 then None
                           else case hextets 0 (take hi parts) of
                                  None \<Rightarrow> None
                                | Some h \<Rightarrow> hextets (h * 65536 ^ (8 - (hi + lo))) (drop (n - lo) parts))))"

definition ip_address :: "string \<Rightarrow> ip option" where
  "ip_address s =
     (case ipv4_of s of
        Some n \<Rightarrow> Some (V4 n)
      | None \<Rightarrow>
          (let (addr, sep, scope) = partition_on CHR ''%'' s
           in if CHR ''/'' \<in> set s \<or> sep \<noteq> [] \<and> (scope = [] \<or> CHR ''%'' \<in> set scope) then None
              else map_option V6 (ipv6_of addr)))"

definition link_local :: "ip \<Rightarrow> bool" where
  "link_local a = (case a of V4 n \<Rightarrow> n div 65536 = 0xA9FE | V6 n \<Rightarrow> n div 2 ^ 118 = 0x3FA)"

definition unspecified :: "ip \<Rightarrow> bool" where
  "unspecified a = (case a of V4 n \<Rightarrow> n = 0 | V6 n \<Rightarrow> n = 0)"

definition METADATA_ADDRESSES :: "ip list" where
  "METADATA_ADDRESSES = [V6 (0xFD000EC2 * 2 ^ 96 + 0x254), V4 0x646464C8]"

definition refused_plain :: "ip \<Rightarrow> bool" where
  "refused_plain a \<longleftrightarrow> link_local a \<or> unspecified a \<or> a \<in> set METADATA_ADDRESSES"

text \<open>An IPv4-mapped address is judged as the IPv4 address it carries.\<close>

definition refused_address :: "ip \<Rightarrow> bool" where
  "refused_address a =
     (case a of
        V6 n \<Rightarrow> if n div 2 ^ 32 = 0xFFFF then refused_plain (V4 (n mod 2 ^ 32)) else refused_plain a
      | V4 n \<Rightarrow> refused_plain a)"

section \<open>Targets\<close>

datatype egress_error = EgressRefusedError string | Escapes exn

text \<open>The check of a bracketed host, and whether \<open>urlsplit\<close> raises.\<close>

definition bracketed_ok :: "string \<Rightarrow> bool" where
  "bracketed_ok h =
     (if startswith h ''v''
      then let (hex, dot, r) = partition_on CHR ''.'' (tl h)
           in hex \<noteq> [] \<and> list_all (\<lambda>c. hex_nibble c \<noteq> None) hex \<and> dot \<noteq> [] \<and> r \<noteq> []
      else case ip_address h of Some (V6 n) \<Rightarrow> True | _ \<Rightarrow> False)"

definition netloc_raises :: "string \<Rightarrow> bool" where
  "netloc_raises netloc \<longleftrightarrow>
     (CHR ''['' \<in> set netloc) \<noteq> (CHR '']'' \<in> set netloc) \<or>
     CHR ''['' \<in> set netloc \<and> CHR '']'' \<in> set netloc \<and>
       \<not> bracketed_ok (fst (partition_on CHR '']'' (snd (snd (partition_on CHR ''['' netloc)))))"

definition hostinfo :: "string \<Rightarrow> string \<times> string" where
  "hostinfo netloc =
     (let (_, _, info) = rpartition_on CHR ''@'' netloc;
          (_, opened, bracketed) = partition_on CHR ''['' info
      in if opened \<noteq> []
         then let (host, _, rest) = partition_on CHR '']'' bracketed; (_, _, port) = partition_on CHR '':'' rest
              in (host, port)
         else let (host, _, port) = partition_on CHR '':'' info in (host, port))"

definition url_hostname :: "string \<Rightarrow> string" where
  "url_hostname netloc =
     (let (host, percent, zone) = partition_on CHR ''%'' (fst (hostinfo netloc)) in lower host @ percent @ zone)"

definition url_port :: "string \<Rightarrow> int option result" where
  "url_port netloc =
     (let port = snd (hostinfo netloc)
      in if port = [] then Inr None
         else case (if isdigit port then int_of_str port else None) of
                None \<Rightarrow> Inl (ValueError port)
              | Some n \<Rightarrow> if 65535 < n then Inl (ValueError ''Port out of range 0-65535'') else Inr (Some n))"

text \<open>\<open>x.split("%", 1)[0]\<close>.\<close>

definition unscoped :: "string \<Rightarrow> string" where
  "unscoped s = fst (partition_on CHR ''%'' s)"

fun check_resolved :: "string \<Rightarrow> string list \<Rightarrow> egress_error + unit" where
  "check_resolved host [] = Inr ()"
| "check_resolved host (a # as) =
     (case ip_address (unscoped a) of
        None \<Rightarrow> check_resolved host as
      | Some addr \<Rightarrow>
          (if refused_address addr
           then Inl (EgressRefusedError (host @ '' resolves to link-local or metadata address '' @ unscoped a))
           else check_resolved host as))"

definition check_outbound_url ::
  "bool \<Rightarrow> (string \<Rightarrow> int \<Rightarrow> string list option) \<Rightarrow> string \<Rightarrow> bool \<Rightarrow> egress_error + unit" where
  "check_outbound_url public_mode resolver url resolve =
     (if public_mode
      then Inl (EgressRefusedError ''outbound requests are disabled on a public instance (MOCKDR_PUBLIC)'')
      else let parts = urlsplit url; netloc = url_netloc parts; host = url_hostname netloc
           in if netloc_raises netloc then Inl (Escapes (ValueError ''Invalid IPv6 URL''))
              else if url_scheme parts \<notin> {''http'', ''https''} \<or> host = []
              then Inl (EgressRefusedError (''not an http(s) URL with a host: '' @ repr_str url))
              else case ip_address (unscoped host) of
                     Some addr \<Rightarrow>
                       (if refused_address addr
                        then Inl (EgressRefusedError (''refusing link-local or metadata address '' @ host)) else Inr ())
                   | None \<Rightarrow>
                       (if \<not> resolve then Inr ()
                        else case url_port netloc of
                               Inl e \<Rightarrow> Inl (Escapes e)
                             | Inr port \<Rightarrow>
                                 (case resolver host (case port of None \<Rightarrow> 443 | Some p \<Rightarrow> if p = 0 then 443 else p) of
                                    None \<Rightarrow> Inr ()
                                  | Some infos \<Rightarrow> check_resolved host infos)))"

section \<open>Dotted quads\<close>

lemma nonzero_lead: "0 < n \<Longrightarrow> hd (str_of_nat n) \<noteq> CHR ''0''"
proof (induction n rule: less_induct)
  case (less n)
  show ?case
  proof (cases "n < 10")
    case True
    then have "str_of_nat n = [digit_char n]" by (subst str_of_nat.simps) simp
    moreover have "digit_char n \<noteq> digit_char 0" using True less.prems digit_char_inj [of n 0] by simp
    moreover have "digit_char 0 = CHR ''0''" by code_simp
    ultimately show ?thesis by simp
  next
    case False
    then have "str_of_nat n = str_of_nat (n div 10) @ [digit_char (n mod 10)]" by (subst str_of_nat.simps) simp
    moreover have "hd (str_of_nat (n div 10)) \<noteq> CHR ''0''" using less.IH [of "n div 10"] False by simp
    ultimately show ?thesis by (simp add: hd_append)
  qed
qed

lemma str_of_nat_zero: "str_of_nat 0 = ''0''"
  by code_simp

lemma parse_octet_nat: "n < 256 \<Longrightarrow> parse_octet (str_of_nat n) = Some (int n)"
proof -
  assume n: "n < 256"
  have "length (str_of_nat n) \<le> 3" using length_str_of_nat [of n 3] n by simp
  moreover have "isdigit (str_of_nat n)" using str_of_nat_digits [of n] by (simp add: isdigit_def)
  moreover have "str_of_nat n = ''0'' \<or> hd (str_of_nat n) \<noteq> CHR ''0''"
    using nonzero_lead [of n] str_of_nat_zero by (cases "n = 0") auto
  ultimately show ?thesis using n by (simp add: parse_octet_def int_of_digits_eq nat_of_digits_str_of_nat)
qed

definition quad :: "nat \<Rightarrow> nat \<Rightarrow> nat \<Rightarrow> nat \<Rightarrow> string" where
  "quad a b c d = str_of_nat a @ ''.'' @ str_of_nat b @ ''.'' @ str_of_nat c @ ''.'' @ str_of_nat d"

definition quad_value :: "nat \<Rightarrow> nat \<Rightarrow> nat \<Rightarrow> nat \<Rightarrow> int" where
  "quad_value a b c d = ((int a * 256 + int b) * 256 + int c) * 256 + int d"

lemma digit_text: "c \<in> set (str_of_nat n) \<Longrightarrow> is_digit c"
  using str_of_nat_digits [of n] by (auto simp: list_all_iff)

lemma quad_chars: "x \<in> set (quad a b c d) \<Longrightarrow> is_digit x \<or> x = CHR ''.''"
  by (auto simp: quad_def dest: digit_text)

lemma quad_absent: "\<not> is_digit x \<Longrightarrow> x \<noteq> CHR ''.'' \<Longrightarrow> x \<notin> set (quad a b c d)"
  using quad_chars by blast

lemma ip_address_quad:
  assumes "a < 256" "b < 256" "c < 256" "d < 256"
  shows "ip_address (quad a b c d) = Some (V4 (quad_value a b c d))"
proof -
  have nd: "CHR ''.'' \<notin> set (str_of_nat n)" for n using digit_text [of "CHR ''.''" n] by (auto simp: is_digit_def)
  have cut: "split_on CHR ''.'' (str_of_nat n @ CHR ''.'' # r) = str_of_nat n # split_on CHR ''.'' r" for n r
    by (rule split_on_cut [OF nd])
  have "split_on CHR ''.'' (quad a b c d) = [str_of_nat a, str_of_nat b, str_of_nat c, str_of_nat d]"
    by (simp add: quad_def cut split_on_absent nd)
  then show ?thesis using assms by (simp add: ip_address_def ipv4_of_def parse_octet_nat quad_value_def)
qed

lemma base256: "x < 256 \<Longrightarrow> x' < 256 \<Longrightarrow> w * 256 + int x = w' * 256 + int x' \<longleftrightarrow> w = w' \<and> x = x'"
proof -
  assume x: "x < 256" "x' < 256"
  have "(w * 256 + int x) div 256 = w" "(w' * 256 + int x') div 256 = w'" using x by simp_all
  then show ?thesis by (metis add_left_cancel of_nat_eq_iff)
qed

lemma quad_value_inj:
  assumes "b < 256" "c < 256" "d < 256" "b' < 256" "c' < 256" "d' < 256"
  shows "quad_value a b c d = quad_value a' b' c' d' \<longleftrightarrow> a = a' \<and> b = b' \<and> c = c' \<and> d = d'"
  unfolding quad_value_def base256 [OF assms(3,6)] base256 [OF assms(2,5)] base256 [OF assms(1,4)] by auto

lemma refused_quad:
  assumes "a < 256" "b < 256" "c < 256" "d < 256"
  shows "refused_address (V4 (quad_value a b c d)) \<longleftrightarrow>
    a = 169 \<and> b = 254 \<or> (a, b, c, d) \<in> {(0, 0, 0, 0), (100, 100, 100, 200)}"
proof -
  have z: "0 = quad_value 0 0 0 0" "0x646464C8 = quad_value 100 100 100 200" by (simp_all add: quad_value_def)
  have "quad_value a b c d = 65536 * (int a * 256 + int b) + (int c * 256 + int d)" by (simp add: quad_value_def)
  moreover have "0 \<le> int c * 256 + int d" "int c * 256 + int d < 65536" using assms by auto
  ultimately have "quad_value a b c d div 65536 = int a * 256 + int b" by (rule int_div_pos_eq)
  then have "link_local (V4 (quad_value a b c d)) \<longleftrightarrow> int a * 256 + int b = 169 * 256 + int 254" by (simp add: link_local_def)
  also have "\<dots> \<longleftrightarrow> a = 169 \<and> b = 254" using base256 [of b 254 "int a" 169] assms(2) by auto
  finally have "link_local (V4 (quad_value a b c d)) \<longleftrightarrow> a = 169 \<and> b = 254" .
  moreover have "unspecified (V4 (quad_value a b c d)) \<longleftrightarrow> (a, b, c, d) = (0, 0, 0, 0)"
    using quad_value_inj [of b c d 0 0 0 a 0] assms z(1) by (simp add: unspecified_def)
  moreover have "V4 (quad_value a b c d) \<in> set METADATA_ADDRESSES \<longleftrightarrow> (a, b, c, d) = (100, 100, 100, 200)"
    using quad_value_inj [of b c d 100 100 200 a 100] assms z(2) by (simp add: METADATA_ADDRESSES_def)
  ultimately show ?thesis by (auto simp: refused_address_def refused_plain_def)
qed

text \<open>A URL with a host between an optional user part and an optional port.\<close>

lemma rpartition_at:
  "CHR ''@'' \<notin> set info \<Longrightarrow> pre = [] \<or> last pre = CHR ''@'' \<Longrightarrow> snd (snd (rpartition_on CHR ''@'' (pre @ info))) = info"
proof -
  assume i: "CHR ''@'' \<notin> set info" and "pre = [] \<or> last pre = CHR ''@''"
  then consider "pre = []" | u where "pre = u @ [CHR ''@'']" by (cases pre rule: rev_cases) auto
  then show ?thesis
  proof cases
    case 1
    then show ?thesis using i by (simp add: rpartition_on_def)
  next
    case 2
    have "takeWhile (\<lambda>c. c \<noteq> CHR ''@'') (rev info @ CHR ''@'' # rev u) = rev info"
      using i by (subst takeWhile_append2) auto
    then show ?thesis using 2 by (simp add: rpartition_on_def)
  qed
qed

lemma netloc_of_url:
  assumes "sch \<in> {''http'', ''https''}" "list_all (\<lambda>c. \<not> ends_netloc c \<and> \<not> is_unsafe_byte c) net"
    and "tail = [] \<or> ends_netloc (hd tail)"
  shows "url_scheme (urlsplit (sch @ ''://'' @ net @ tail)) = sch" "url_netloc (urlsplit (sch @ ''://'' @ net @ tail)) = net"
proof -
  let ?keep = "filter (\<lambda>c. \<not> is_unsafe_byte c)"
  have h: "hd sch = CHR ''h''" "sch \<noteq> []" "lower sch = sch" "list_all is_scheme_char sch" "?keep sch = sch"
    using assms(1) by (auto simp: is_scheme_char_def is_alnum_def is_lower_def is_unsafe_byte_def lower_def lower_char_def is_upper_def)
  obtain rest where sch: "sch = CHR ''h'' # rest" using h(1,2) by (cases sch) auto
  have net: "?keep net = net" using assms(2) by (auto simp: list_all_iff filter_id_conv)
  have tail: "?keep tail = [] \<or> ends_netloc (hd (?keep tail))"
    using assms(3) by (cases tail) (auto simp: ends_netloc_def is_unsafe_byte_def)
  have u: "dropWhile (\<lambda>c. of_char c \<le> (32 :: nat)) (sch @ ''://'' @ net @ tail) = sch @ ''://'' @ net @ tail" by (simp add: sch)
  have k: "?keep (sch @ ''://'' @ net @ tail) = sch @ CHR '':'' # ''//'' @ net @ ?keep tail"
    by (simp add: h net is_unsafe_byte_def [of "CHR '':''"] is_unsafe_byte_def [of "CHR ''/''"])
  have s: "split_scheme (sch @ CHR '':'' # ''//'' @ net @ ?keep tail) = (sch, ''//'' @ net @ ?keep tail)"
    using split_scheme_ok [OF h(2) _ h(4,3)] h(1) by (simp add: is_lower_def)
  have "takeWhile (\<lambda>c. \<not> ends_netloc c) (net @ ?keep tail) = net"
    using takeWhile_append_stop [of "\<lambda>c. \<not> ends_netloc c" net "?keep tail"] assms(2) tail by (auto simp: list_all_iff)
  then have n: "fst (split_netloc (''//'' @ net @ ?keep tail)) = net" by (simp add: split_netloc_def startswith_def)
  then show "url_scheme (urlsplit (sch @ ''://'' @ net @ tail)) = sch" "url_netloc (urlsplit (sch @ ''://'' @ net @ tail)) = net"
    unfolding urlsplit_def u k Let_def s case_prod_beta fst_conv snd_conv url_parts.simps n by simp_all
qed

definition plain_netloc :: "string \<Rightarrow> bool" where
  "plain_netloc s \<longleftrightarrow> list_all (\<lambda>c. \<not> ends_netloc c \<and> \<not> is_unsafe_byte c \<and> c \<noteq> CHR ''['' \<and> c \<noteq> CHR '']'') s"

lemma plain_append [simp]: "plain_netloc (x @ y) \<longleftrightarrow> plain_netloc x \<and> plain_netloc y"
  by (simp add: plain_netloc_def)

lemma plain_quad: "plain_netloc (quad a b c d)"
proof -
  have "\<not> ends_netloc x \<and> \<not> is_unsafe_byte x \<and> x \<noteq> CHR ''['' \<and> x \<noteq> CHR '']''" if "x \<in> set (quad a b c d)" for x
    using quad_chars [OF that] by (auto simp: ends_netloc_def is_unsafe_byte_def is_digit_def)
  then show ?thesis by (simp add: plain_netloc_def list_all_iff)
qed

text \<open>
  C14. A target given as an IPv4 address, whatever user part, port and path surround it, is accepted exactly when
  the address is none of the refused ones: no link-local address 169.254.x.y, not 0.0.0.0, not the metadata address
  100.100.100.200. On a public instance nothing is accepted.
\<close>

theorem quad_target_exact:
  assumes "a < 256" "b < 256" "c < 256" "d < 256" "sch \<in> {''http'', ''https''}"
    and "plain_netloc pre" "pre = [] \<or> last pre = CHR ''@''"
    and "plain_netloc post" "CHR ''@'' \<notin> set post" "post = [] \<or> hd post = CHR '':''"
    and "tail = [] \<or> ends_netloc (hd tail)"
  shows "check_outbound_url public_mode resolver (sch @ ''://'' @ (pre @ quad a b c d @ post) @ tail) resolve = Inr () \<longleftrightarrow>
    \<not> public_mode \<and> \<not> (a = 169 \<and> b = 254) \<and> (a, b, c, d) \<notin> {(0, 0, 0, 0), (100, 100, 100, 200)}"
proof -
  let ?q = "quad a b c d" and ?net = "pre @ quad a b c d @ post"
  have nd: "\<not> is_digit x \<and> x \<noteq> CHR ''.''" if "x \<in> {CHR ''['', CHR '']'', CHR ''@'', CHR '':'', CHR ''%'', CHR ''/'', CHR ''?'', CHR ''#''}" for x
    using that by (auto simp: is_digit_def)
  have "plain_netloc ?net" using assms(6,8) plain_quad by simp
  then have net: "list_all (\<lambda>c. \<not> ends_netloc c \<and> \<not> is_unsafe_byte c) ?net" "CHR ''['' \<notin> set ?net" "CHR '']'' \<notin> set ?net"
    unfolding plain_netloc_def list_all_iff by blast+
  note url = netloc_of_url [OF assms(5) net(1) assms(11)]
  have "CHR ''@'' \<notin> set (?q @ post)" using assms(9) quad_absent [of "CHR ''@''"] nd by auto
  from rpartition_at [OF this assms(7)]
  have at: "snd (snd (rpartition_on CHR ''@'' ?net)) = ?q @ post" .
  have "fst (partition_on CHR '':'' (?q @ post)) = ?q"
    using assms(10) quad_absent [of "CHR '':''" a b c d] nd
    by (cases post) (auto simp: partition_on_none partition_on_first)
  then have "fst (hostinfo ?net) = ?q"
    using at net(2) by (auto simp: hostinfo_def partition_on_none Let_def split: prod.splits)
  moreover have "lower_char x = x" if "x \<in> set ?q" for x
    using quad_chars [OF that] by (auto simp: lower_char_def is_upper_def is_digit_def)
  then have "lower ?q = ?q" by (simp add: lower_def map_idI)
  moreover have "partition_on CHR ''%'' ?q = (?q, [], [])" using quad_absent [of "CHR ''%''" a b c d] nd by (auto intro!: partition_on_none)
  ultimately have host: "url_hostname ?net = ?q" "unscoped ?q = ?q" by (simp_all add: url_hostname_def unscoped_def)
  have "?q \<noteq> []" by (simp add: quad_def)
  moreover have "\<not> netloc_raises ?net" using net(2,3) by (simp add: netloc_raises_def)
  ultimately have "check_outbound_url public_mode resolver (sch @ ''://'' @ ?net @ tail) resolve = Inr () \<longleftrightarrow>
      \<not> public_mode \<and> \<not> refused_address (V4 (quad_value a b c d))"
    unfolding check_outbound_url_def Let_def url host ip_address_quad [OF assms(1-4)] using assms(5) by (auto split: if_splits)
  then show ?thesis using refused_quad [OF assms(1-4)] by simp
qed

theorem quad_target_exact_witness:
  "check_outbound_url False (\<lambda>h p. None) ''http://user@169.254.169.254:80/latest/meta-data'' False \<noteq> Inr () \<and>
   check_outbound_url False (\<lambda>h p. None) ''http://user@10.0.0.1:80/latest/meta-data'' False = Inr ()"
proof -
  have p: "plain_netloc ''user@''" "plain_netloc '':80''" by (simp_all add: plain_netloc_def ends_netloc_def is_unsafe_byte_def)
  have t: "''/latest/meta-data'' = [] \<or> ends_netloc (hd ''/latest/meta-data'')" by (simp add: ends_netloc_def)
  have q: "''http://user@169.254.169.254:80/latest/meta-data'' =
      ''http'' @ ''://'' @ (''user@'' @ quad 169 254 169 254 @ '':80'') @ ''/latest/meta-data''"
    "''http://user@10.0.0.1:80/latest/meta-data'' = ''http'' @ ''://'' @ (''user@'' @ quad 10 0 0 1 @ '':80'') @ ''/latest/meta-data''"
    by code_simp+
  show ?thesis
    unfolding q
    using quad_target_exact [of 169 254 169 254 "''http''" "''user@''" "'':80''" "''/latest/meta-data''" False "\<lambda>h p. None" False]
      quad_target_exact [of 10 0 0 1 "''http''" "''user@''" "'':80''" "''/latest/meta-data''" False "\<lambda>h p. None" False] p t
    by simp
qed

text \<open>
  The port is only read when the name is resolved: a target with a port out of range passes the check at
  registration and raises a plain \<open>ValueError\<close> at every delivery.
\<close>

lemma bad_port_raises_late:
  "check_outbound_url False resolver ''http://host:99999/'' False = Inr ()"
  "check_outbound_url False resolver ''http://host:99999/'' True = Inl (Escapes (ValueError ''Port out of range 0-65535''))"
proof -
  have u: "url_netloc (urlsplit ''http://host:99999/'') = ''host:99999''" "url_scheme (urlsplit ''http://host:99999/'') = ''http''"
    by code_simp+
  have h: "url_hostname ''host:99999'' = ''host''" "netloc_raises ''host:99999'' = False" "ip_address (unscoped ''host'') = None"
    "url_port ''host:99999'' = Inl (ValueError ''Port out of range 0-65535'')" by code_simp+
  show "check_outbound_url False resolver ''http://host:99999/'' False = Inr ()"
    "check_outbound_url False resolver ''http://host:99999/'' True = Inl (Escapes (ValueError ''Port out of range 0-65535''))"
    unfolding check_outbound_url_def Let_def u h by simp_all
qed

end
