(* ===== verification/Webhooks.thy ===== *)
theory Webhooks
  imports World Egress Py_Hash Py_Json
begin

text \<open>
  Webhook subscriptions and their delivery, \<open>src/backend/application/webhooks\<close>. The answers of a
  receiver are the parameter \<open>post\<close>, from the number of the attempt; the pool of worker threads is the queue of the
  world, each entry of which is one call of \<open>deliver_with_retries\<close>. What a delivery logs and how long it sleeps are its
  result.

  Shown here: an event is queued once for every active subscription, signed, and a receiver that reads the
  body recovers the record; a delivery makes at most three attempts and stops at the first answer that settles it.
\<close>

section \<open>Subscriptions\<close>

definition ALL_EVENT_TYPES :: "string list" where
  "ALL_EVENT_TYPES = [''threat.created'', ''threat.updated'', ''alert.created'', ''alert.updated'', ''agent.offline'', ''agent.infected'']"

definition mask_secret :: "jobj \<Rightarrow> jobj" where
  "mask_secret d =
     (if truthy (dict_get d ''secret'')
      then let t = py_str (dict_get d ''secret'')
           in AList.update ''secret'' (VStr (if 4 \<le> length t then ''****'' @ drop (length t - 4) t else ''****'')) d
      else d)"

definition WebhookSubscription :: "string \<Rightarrow> jobj \<Rightarrow> pyval \<Rightarrow> string \<Rightarrow> jobj" where
  "WebhookSubscription i body event_types now =
     [(''id'', VStr i), (''url'', get_or body ''url'' (VStr [])), (''eventTypes'', event_types),
      (''secret'', get_or body ''secret'' (VStr [])), (''active'', get_or body ''active'' (VBool True)),
      (''description'', get_or body ''description'' (VStr [])), (''createdAt'', VStr now), (''updatedAt'', VStr now)]"

definition create_webhook ::
  "bool \<Rightarrow> (string \<Rightarrow> int \<Rightarrow> string list option) \<Rightarrow> string \<Rightarrow> int \<Rightarrow> jobj \<Rightarrow> db \<Rightarrow> (pyval \<times> db) result" where
  "create_webhook public_mode resolver new_id now body s =
     (case check_outbound_url public_mode resolver (py_str (get_or body ''url'' (VStr []))) False of
        Inl (EgressRefusedError m) \<Rightarrow> Inl (ValueError m)
      | Inl (Escapes e) \<Rightarrow> Inl e
      | Inr _ \<Rightarrow>
          (let event_types = get_or body ''eventTypes'' (get_or body ''event_types'' (VList []));
               invalid = filter (\<lambda>et. et \<notin> VStr ` set ALL_EVENT_TYPES) (case event_types of VList vs \<Rightarrow> vs | _ \<Rightarrow> [])
           in if invalid \<noteq> [] then Inl (ValueError (''Invalid event types: '' @ py_repr (VList invalid)))
              else let sub = WebhookSubscription new_id body event_types (utc_now now)
                   in Inr (VDict [(''data'', VDict (mask_secret sub))], repo_save s ''webhook_subscriptions'' sub)))"

definition delete_webhook :: "string \<Rightarrow> db \<Rightarrow> pyval \<times> db" where
  "delete_webhook webhook_id s =
     (let (s', deleted) = repo_delete s ''webhook_subscriptions'' webhook_id
      in (VDict [(''data'', VDict [(''affected'', VInt (if deleted then 1 else 0))])], s'))"

definition list_webhooks :: "db \<Rightarrow> pyval" where
  "list_webhooks s =
     VDict [(''data'', VList (map (\<lambda>sub. VDict (mask_secret (fields_of sub))) (repo_list_all s ''webhook_subscriptions'')))]"

definition get_webhook :: "string \<Rightarrow> db \<Rightarrow> pyval option" where
  "get_webhook webhook_id s =
     map_option (\<lambda>sub. VDict [(''data'', VDict (mask_secret sub))]) (repo_find s ''webhook_subscriptions'' webhook_id)"

section \<open>Events\<close>

definition THREAT_INTERNAL_FIELDS :: "string list" where
  "THREAT_INTERNAL_FIELDS = [''notes'', ''timeline'', ''_fetched_file'']"

definition AGENT_INTERNAL_FIELDS :: "string list" where
  "AGENT_INTERNAL_FIELDS = [''passphrase'', ''localIp'', ''isInfected'', ''installedAt'', ''agentLicenseType'', ''cpuUsage'',
     ''memoryUsage'', ''decommissionedAt'']"

definition build_headers :: "string \<Rightarrow> jobj \<Rightarrow> string \<Rightarrow> (string \<times> string) list" where
  "build_headers ev sub body_json =
     (let secret = dict_get sub ''secret''
      in [(''Content-Type'', ''application/json''), (''X-S1-Webhook-Event'', ev)] @
         (if truthy secret
          then [(''Authorization'', ''Bearer '' @ py_str secret),
                (''X-S1-Signature'', ''sha256='' @ hmac_sha256_hex (py_str secret) body_json)]
          else []))"

text \<open>
  What the body is made of. The records are the dictionaries of stored objects, and what of those is no JSON value (the bytes of a
  fetched file) is among the members removed, so the fallback \<open>default=str\<close> has nothing to render.
\<close>

definition event_payload :: "string \<Rightarrow> jobj \<Rightarrow> jobj" where
  "event_payload ev rec =
     (if ev \<in> {''threat.created'', ''threat.updated''} then strip_fields rec THREAT_INTERNAL_FIELDS
      else if ev \<in> {''agent.offline'', ''agent.infected''} then strip_fields rec AGENT_INTERNAL_FIELDS
      else rec)"

definition fire_event :: "string \<Rightarrow> jobj \<Rightarrow> world \<Rightarrow> world" where
  "fire_event ev rec w =
     (let body_json = json_dumps '', '' '': '' (VDict (event_payload ev rec))
      in fold (\<lambda>sub. submit \<lparr>dl_event = ev, dl_sub = fields_of sub, dl_body = body_json,
                            dl_headers = build_headers ev (fields_of sub) body_json\<rparr>)
           (get_active_for_event (wdb w) ev) w)"

section \<open>Delivery\<close>

text \<open>The answer of a receiver to one \<open>httpx.post\<close>: a status, or an exception with its text.\<close>

datatype post_outcome = Responded int | Failed string

definition MAX_RETRIES :: nat where
  "MAX_RETRIES = 3"

definition BACKOFF_BASE :: nat where
  "BACKOFF_BASE = 1"

definition DeliveryEntry :: "jobj \<Rightarrow> string \<Rightarrow> string \<Rightarrow> nat \<Rightarrow> int \<Rightarrow> string \<Rightarrow> jobj" where
  "DeliveryEntry sub ev status attempt now err =
     [(''subscription_id'', dict_get sub ''id''), (''event_type'', VStr ev), (''status'', VStr status),
      (''attempt'', VInt (int attempt)), (''timestamp'', VStr (utc_now now)), (''error'', VStr err)]"

text \<open>The loop from an attempt on: the entries recorded and the delays slept.\<close>

function attempts_from ::
  "(nat \<Rightarrow> post_outcome) \<Rightarrow> (nat \<Rightarrow> int) \<Rightarrow> string \<Rightarrow> jobj \<Rightarrow> nat \<Rightarrow> jobj list \<times> nat list" where
  "attempts_from post now ev sub attempt =
     (if MAX_RETRIES < attempt then ([], [])
      else let answered = (\<lambda>n. ''receiver answered '' @ str_of_int n);
               failed = (\<lambda>err. DeliveryEntry sub ev ''failure'' attempt (now attempt) err);
               retry = (\<lambda>err.
                 if attempt < MAX_RETRIES
                 then let (es, ds) = attempts_from post now ev sub (Suc attempt)
                      in (failed err # es, BACKOFF_BASE * 2 ^ (attempt - 1) # ds)
                 else ([failed err], []))
           in case post attempt of
                Failed err \<Rightarrow> retry err
              | Responded n \<Rightarrow>
                  (if 500 \<le> n then retry (answered n)
                   else if 400 \<le> n then ([failed (answered n)], [])
                   else ([DeliveryEntry sub ev ''success'' attempt (now attempt) []], [])))"
  by pat_completeness auto

termination attempts_from
  by (relation "measure (\<lambda>(post, now, ev, sub, attempt). Suc MAX_RETRIES - attempt)") (auto simp: MAX_RETRIES_def)

declare attempts_from.simps [simp del]

definition deliver_with_retries ::
  "bool \<Rightarrow> (string \<Rightarrow> int \<Rightarrow> string list option) \<Rightarrow> (nat \<Rightarrow> post_outcome) \<Rightarrow> (nat \<Rightarrow> int) \<Rightarrow> string \<Rightarrow> jobj \<Rightarrow>
   (jobj list \<times> nat list) result" where
  "deliver_with_retries public_mode resolver post now ev sub =
     (case check_outbound_url public_mode resolver (py_str (dict_get sub ''url'')) True of
        Inl (EgressRefusedError m) \<Rightarrow>
          Inr ([DeliveryEntry sub ev ''failure'' 1 (now 1) (''delivery refused: '' @ m)], [])
      | Inl (Escapes e) \<Rightarrow> Inl e
      | Inr _ \<Rightarrow> Inr (attempts_from post now ev sub 1))"

section \<open>The delivery log\<close>

definition MAX_ENTRIES :: nat where
  "MAX_ENTRIES = 100"

definition delivery_record :: "jobj \<Rightarrow> jobj list \<Rightarrow> jobj list" where
  "delivery_record entry entries = drop (length entries + 1 - MAX_ENTRIES) (entries @ [entry])"

definition list_entries :: "jobj list \<Rightarrow> jobj list" where
  "list_entries entries = rev entries"

definition clear_entries :: "jobj list \<Rightarrow> nat \<times> jobj list" where
  "clear_entries entries = (length entries, [])"

definition list_deliveries :: "jobj list \<Rightarrow> pyval" where
  "list_deliveries entries =
     VDict [(''data'', VList (map VDict (list_entries entries))),
            (''pagination'', VDict [(''totalItems'', VInt (int (length (list_entries entries))))])]"

section \<open>What an event queues\<close>

lemma fold_submit: "fold (\<lambda>x. submit (f x)) xs w = w\<lparr>queued := queued w @ map f xs\<rparr>"
  by (induction xs arbitrary: w) (simp_all add: submit_def)

lemma json_plain_strip: "json_plain (VDict d) \<Longrightarrow> json_plain (VDict (strip_fields d fs))"
  by (auto simp: strip_fields_def list_all_iff distinct_map_filter)

lemma json_plain_payload: "json_plain (VDict d) \<Longrightarrow> json_plain (VDict (event_payload ev d))"
  using json_plain_strip by (simp add: event_payload_def)

text \<open>
  C12. Firing an event queues one delivery for every active subscription of its type, in the order of the subscriptions, and
  changes nothing else. Every delivery carries a body from which a receiver reads back the record without the
  internal fields, and a subscription with a secret gets the signature of exactly that body under its secret.
\<close>

theorem fire_event_delivers:
  assumes "json_plain (VDict rec)"
  shows "\<exists>ds. fire_event ev rec w = w\<lparr>queued := queued w @ ds\<rparr> \<and>
    map dl_sub ds = map fields_of (filter (\<lambda>sub. truthy (field_get sub ''active'') \<and>
       (case field_get sub ''eventTypes'' of VList vs \<Rightarrow> VStr ev \<in> set vs | _ \<Rightarrow> False))
      (repo_list_all (wdb w) ''webhook_subscriptions'')) \<and>
    list_all (\<lambda>d. dl_event d = ev \<and> json_loads (dl_body d) = Some (VDict (event_payload ev rec)) \<and>
      (truthy (dict_get (dl_sub d) ''secret'') \<longrightarrow> map_of (dl_headers d) ''X-S1-Signature'' =
         Some (''sha256='' @ hmac_sha256_hex (py_str (dict_get (dl_sub d) ''secret'')) (dl_body d)))) ds"
proof -
  define body where "body = json_dumps '', '' '': '' (VDict (event_payload ev rec))"
  have read: "json_loads body = Some (VDict (event_payload ev rec))"
    unfolding body_def using json_plain_payload [OF assms]
    by (intro json_roundtrip) (auto simp: blank_tail_def)
  let ?f = "\<lambda>sub. \<lparr>dl_event = ev, dl_sub = fields_of sub, dl_body = body, dl_headers = build_headers ev (fields_of sub) body\<rparr>"
  have "fire_event ev rec w = w\<lparr>queued := queued w @ map ?f (get_active_for_event (wdb w) ev)\<rparr>"
    by (simp add: fire_event_def Let_def fold_submit body_def)
  then show ?thesis
    using read by (intro exI [of _ "map ?f (get_active_for_event (wdb w) ev)"])
      (auto simp: get_active_for_event_def list_all_iff build_headers_def Let_def)
qed

section \<open>The attempts of a delivery\<close>

definition settles :: "post_outcome \<Rightarrow> bool" where
  "settles outcome = (case outcome of Responded n \<Rightarrow> n < 500 | Failed err \<Rightarrow> False)"

definition accepted :: "post_outcome \<Rightarrow> bool" where
  "accepted outcome = (case outcome of Responded n \<Rightarrow> n < 400 | Failed err \<Rightarrow> False)"

definition outcome_error :: "post_outcome \<Rightarrow> string" where
  "outcome_error outcome = (case outcome of Responded n \<Rightarrow> ''receiver answered '' @ str_of_int n | Failed err \<Rightarrow> err)"

definition attempt_entry :: "(nat \<Rightarrow> post_outcome) \<Rightarrow> (nat \<Rightarrow> int) \<Rightarrow> string \<Rightarrow> jobj \<Rightarrow> nat \<Rightarrow> jobj" where
  "attempt_entry post now ev sub k =
     (if accepted (post k) then DeliveryEntry sub ev ''success'' k (now k) []
      else DeliveryEntry sub ev ''failure'' k (now k) (outcome_error (post k)))"

lemma attempt_step:
  assumes "k \<le> MAX_RETRIES"
  shows "attempts_from post now ev sub k =
    (if settles (post k) \<or> k = MAX_RETRIES then ([attempt_entry post now ev sub k], [])
     else let (es, ds) = attempts_from post now ev sub (Suc k) in (attempt_entry post now ev sub k # es, 2 ^ (k - 1) # ds))"
proof (cases "post k")
  case (Responded n)
  then show ?thesis using assms
    by (subst attempts_from.simps) (auto simp: settles_def accepted_def outcome_error_def attempt_entry_def BACKOFF_BASE_def Let_def)
next
  case (Failed err)
  then show ?thesis using assms
    by (subst attempts_from.simps) (auto simp: settles_def accepted_def outcome_error_def attempt_entry_def BACKOFF_BASE_def Let_def)
qed

lemma attempts_unrolled:
  "attempts_from post now ev sub 1 =
     (let e = attempt_entry post now ev sub
      in if settles (post 1) then ([e 1], []) else if settles (post 2) then ([e 1, e 2], [1]) else ([e 1, e 2, e 3], [1, 2]))"
proof -
  have "attempts_from post now ev sub 3 = ([attempt_entry post now ev sub 3], [])"
    using attempt_step [of 3] by (simp add: MAX_RETRIES_def)
  moreover have "Suc 2 = 3" "Suc 1 = 2" by simp_all
  ultimately show ?thesis
    using attempt_step [of 1 post now ev sub] attempt_step [of 2 post now ev sub]
    by (simp add: MAX_RETRIES_def Let_def del: One_nat_def)
qed

text \<open>
  C13. A delivery to a permitted target makes one, two or three attempts: it stops at the first answer below 500 and
  otherwise retries after one and two seconds. Every attempt is logged once, in order, and the delivery
  is logged a success exactly when the last attempt was answered below 400; no earlier attempt was.
\<close>

theorem delivery_attempts:
  assumes "check_outbound_url public_mode resolver (py_str (dict_get sub ''url'')) True = Inr ()"
  shows "\<exists>n \<in> {1, 2, 3}. deliver_with_retries public_mode resolver post now ev sub =
      Inr (map (attempt_entry post now ev sub) [1..<Suc n], take (n - 1) [1, 2]) \<and>
    (\<forall>k. 1 \<le> k \<and> k < n \<longrightarrow> \<not> settles (post k)) \<and> (settles (post n) \<or> n = 3) \<and>
    (\<forall>k \<in> {1..n}. dict_get (attempt_entry post now ev sub k) ''attempt'' = VInt (int k) \<and>
      (dict_get (attempt_entry post now ev sub k) ''status'' = VStr ''success'' \<longleftrightarrow> k = n \<and> accepted (post n)))"
proof -
  define n where "n = (if settles (post 1) then 1 else if settles (post 2) then 2 else 3 :: nat)"
  have n: "n \<in> {1, 2, 3}" by (simp add: n_def)
  have early: "\<not> settles (post k)" if k: "1 \<le> k" "k < n" for k
  proof -
    consider "k = 1" | "k = 2" "n = 3" using k n by (cases "k = 1") (auto simp: numeral_eq_Suc less_Suc_eq)
    then show ?thesis using k(2) by cases (auto simp: n_def split: if_splits)
  qed
  have run: "deliver_with_retries public_mode resolver post now ev sub =
      Inr (map (attempt_entry post now ev sub) [1..<Suc n], take (n - 1) [1, 2])"
    unfolding deliver_with_retries_def attempts_unrolled using assms by (simp add: n_def Let_def upt_rec numeral_eq_Suc)
  have acc: "accepted p \<Longrightarrow> settles p" for p by (cases p) (simp_all add: accepted_def settles_def)
  have "dict_get (attempt_entry post now ev sub k) ''attempt'' = VInt (int k) \<and>
      (dict_get (attempt_entry post now ev sub k) ''status'' = VStr ''success'' \<longleftrightarrow> k = n \<and> accepted (post n))"
    if "k \<in> {1..n}" for k
    using early [of k] acc [of "post k"] that by (cases "k = n") (auto simp: attempt_entry_def DeliveryEntry_def)
  moreover have "settles (post n) \<or> n = 3" by (simp add: n_def)
  ultimately show ?thesis using n run early by blast
qed

definition demo_hook :: jobj where
  "demo_hook = [(''id'', VStr ''1''), (''url'', VStr ''http://10.0.0.1/''), (''eventTypes'', VList [VStr ''agent.offline'']),
     (''secret'', VStr ''s3''), (''active'', VBool True)]"

theorem fire_event_delivers_witness:
  "\<exists>d. queued (fire_event ''agent.offline'' [(''id'', VStr ''7''), (''passphrase'', VStr ''x'')]
       \<lparr>wdb = repo_save init_store ''webhook_subscriptions'' demo_hook, published = [], queued = []\<rparr>) = [d] \<and>
     json_loads (dl_body d) = Some (VDict [(''id'', VStr ''7'')])"
proof -
  let ?w = "\<lparr>wdb = repo_save init_store ''webhook_subscriptions'' demo_hook, published = [], queued = []\<rparr>"
  let ?r = "[(''id'', VStr ''7''), (''passphrase'', VStr ''x'')]"
  have "''webhook_subscriptions'' \<in> set collection_names" "map_of caps ''webhook_subscriptions'' = None"
    by (simp_all add: collection_names_def caps_def)
  then have l: "repo_list_all (wdb ?w) ''webhook_subscriptions'' = [VDict demo_hook]"
    by (simp add: repo_save_def repo_save_raw_def store_save_def repo_list_all_def store_get_all_def coll_init evict_def demo_hook_def)
  have p: "event_payload ''agent.offline'' ?r = [(''id'', VStr ''7'')]"
    by (simp add: event_payload_def strip_fields_def AGENT_INTERNAL_FIELDS_def)
  have "json_plain (VDict ?r)" by (simp add: is_ascii_def)
  from fire_event_delivers [OF this, of "''agent.offline''" ?w] obtain ds where
    ds: "fire_event ''agent.offline'' ?r ?w = ?w\<lparr>queued := queued ?w @ ds\<rparr>"
    "map dl_sub ds = [demo_hook]" "list_all (\<lambda>d. json_loads (dl_body d) = Some (VDict [(''id'', VStr ''7'')])) ds"
    unfolding l p by (auto simp: demo_hook_def fields_of_def list_all_iff)
  then obtain d where "ds = [d]" by (cases ds) auto
  then show ?thesis using ds by simp
qed

theorem delivery_attempts_witness:
  "\<exists>es ds. deliver_with_retries False (\<lambda>h p. None) (\<lambda>k. if k = 1 then Failed ''refused'' else Responded 200) (\<lambda>k. 0)
     ''agent.offline'' demo_hook = Inr (es, ds) \<and> length es = 2 \<and> ds = [1]"
proof -
  let ?post = "\<lambda>k :: nat. if k = 1 then Failed ''refused'' else Responded 200"
  have "check_outbound_url False (\<lambda>h p. None) (py_str (dict_get demo_hook ''url'')) True = Inr ()" by code_simp
  from delivery_attempts [OF this, of ?post "\<lambda>k. 0" "''agent.offline''"] obtain n where
    n: "n \<in> {1, 2, 3}" "deliver_with_retries False (\<lambda>h p. None) ?post (\<lambda>k. 0) ''agent.offline'' demo_hook =
      Inr (map (attempt_entry ?post (\<lambda>k. 0) ''agent.offline'' demo_hook) [1..<Suc n], take (n - 1) [1, 2])"
    "\<forall>k. 1 \<le> k \<and> k < n \<longrightarrow> \<not> settles (?post k)" "settles (?post n) \<or> n = 3"
    by blast
  have s: "\<not> settles (?post 1)" "settles (?post 2)" by (simp_all add: settles_def)
  have "n \<noteq> 1" using n(4) s(1) by auto
  moreover have "n \<noteq> 3" using n(3) [rule_format, of 2] s(2) by auto
  ultimately have "n = 2" using n(1) by auto
  then show ?thesis using n(2) by auto
qed

text \<open>
  A subscription whose port is out of range is accepted, and then every delivery to it raises out of the worker
  before anything is logged.
\<close>

lemma bad_port_delivery_unlogged:
  assumes "dict_get sub ''url'' = VStr ''http://host:99999/''"
  shows "deliver_with_retries False resolver post now ev sub = Inl (ValueError ''Port out of range 0-65535'')"
  using assms bad_port_raises_late(2) [of resolver] by (simp add: deliver_with_retries_def)

end
