(* ===== verification/Documented_Filters.thy ===== *)
theory Documented_Filters
  imports S1_Filter
begin

text \<open>
  The filters the vendor's specification declares, \<open>src/backend/application/documented_filters.py\<close>: one list of
  specs per route of the SentinelOne API.
\<close>

definition documented :: "string \<Rightarrow> string \<Rightarrow> filter_type \<Rightarrow> bool \<Rightarrow> param_kind \<Rightarrow> filter_spec" where
  "documented p f t enum kind = \<lparr>spec_param = p, spec_field = f, spec_type = t, spec_enum = enum, spec_kind = kind\<rparr>"

definition DOC_accounts :: "filter_spec list" where
  "DOC_accounts = [
     documented ''billingMode'' ''billingMode'' F_eq True K_string,
     documented ''createdAt'' ''createdAt'' F_eq False K_string,
     documented ''expiration'' ''expiration'' F_eq False K_string,
     documented ''isDefault'' ''isDefault'' F_bool False K_boolean,
     documented ''module'' ''licenses.modules'' F_eq False K_string,
     documented ''name__contains'' ''name'' F_contains False K_string,
     documented ''sku'' ''skus'' F_eq False K_string,
     documented ''state'' ''state'' F_eq True K_string,
     documented ''statesNin'' ''state'' F_nin False K_string,
     documented ''totalLicenses'' ''totalLicenses'' F_eq False K_integer,
     documented ''usageType'' ''usageType'' F_eq True K_string]"

definition DOC_activities :: "filter_spec list" where
  "DOC_activities = [
     documented ''activityUuids'' ''activityUuid'' F_in False K_string,
     documented ''createdAt__between'' ''createdAt'' F_between False K_date_time,
     documented ''createdAt__gt'' ''createdAt'' F_gt False K_date_time,
     documented ''createdAt__lt'' ''createdAt'' F_lt False K_date_time,
     documented ''groupIds'' ''groupId'' F_in False K_string,
     documented ''threatIds'' ''threatId'' F_in False K_string]"

definition DOC_agents :: "filter_spec list" where
  "DOC_agents = [
     documented ''activeProtection'' ''activeProtection'' F_in True K_string,
     documented ''activeThreats'' ''activeThreats'' F_eq False K_integer,
     documented ''activeThreats__gt'' ''activeThreats'' F_gt False K_integer,
     documented ''agentVersion__between'' ''agentVersion'' F_between False K_string,
     documented ''agentVersion__gt'' ''agentVersion'' F_gt False K_string,
     documented ''agentVersion__gte'' ''agentVersion'' F_gte False K_string,
     documented ''agentVersion__lt'' ''agentVersion'' F_lt False K_string,
     documented ''agentVersion__lte'' ''agentVersion'' F_lte False K_string,
     documented ''agentVersions'' ''agentVersion'' F_in False K_string,
     documented ''agentVersionsNin'' ''agentVersion'' F_nin False K_string,
     documented ''cloudProvider'' ''cloudProviders'' F_in False K_string,
     documented ''cloudProviderNin'' ''cloudProviders'' F_nin False K_string,
     documented ''computerName__contains'' ''computerName'' F_contains False K_string,
     documented ''console'' ''proxyStates.console'' F_in False K_string,
     documented ''containerizedWorkloadCounts'' ''containerizedWorkloadCounts'' F_eq False K_string,
     documented ''coreCount__between'' ''coreCount'' F_between False K_string,
     documented ''coreCount__gt'' ''coreCount'' F_gt False K_integer,
     documented ''coreCount__gte'' ''coreCount'' F_gte False K_integer,
     documented ''coreCount__lt'' ''coreCount'' F_lt False K_integer,
     documented ''coreCount__lte'' ''coreCount'' F_lte False K_integer,
     documented ''cpuCount__between'' ''cpuCount'' F_between False K_string,
     documented ''cpuCount__gt'' ''cpuCount'' F_gt False K_integer,
     documented ''cpuCount__gte'' ''cpuCount'' F_gte False K_integer,
     documented ''cpuCount__lt'' ''cpuCount'' F_lt False K_integer,
     documented ''cpuCount__lte'' ''cpuCount'' F_lte False K_integer,
     documented ''cpuId__contains'' ''cpuId'' F_contains False K_string,
     documented ''createdAt__between'' ''createdAt'' F_between False K_date_time,
     documented ''createdAt__gt'' ''createdAt'' F_gt False K_date_time,
     documented ''createdAt__gte'' ''createdAt'' F_gte False K_date_time,
     documented ''createdAt__lt'' ''createdAt'' F_lt False K_date_time,
     documented ''createdAt__lte'' ''createdAt'' F_lte False K_date_time,
     documented ''deepVisibility'' ''proxyStates.deepVisibility'' F_in False K_string,
     documented ''domains'' ''domain'' F_in False K_string,
     documented ''domainsNin'' ''domain'' F_nin False K_string,
     documented ''encryptedApplications'' ''encryptedApplications'' F_in False K_string,
     documented ''externalId__contains'' ''externalId'' F_contains False K_string,
     documented ''externalIp__contains'' ''externalIp'' F_contains False K_string,
     documented ''firewallEnabled'' ''firewallEnabled'' F_in False K_string,
     documented ''gatewayIp'' ''networkInterfaces.gatewayIp'' F_eq False K_string,
     documented ''hasContainerizedWorkload'' ''hasContainerizedWorkload'' F_in False K_string,
     documented ''idsNin'' ''id'' F_nin False K_string,
     documented ''installerTypes'' ''installerType'' F_in True K_string,
     documented ''installerTypesNin'' ''installerType'' F_nin True K_string,
     documented ''isAdConnector'' ''isAdConnector'' F_in False K_string,
     documented ''isHyperAutomate'' ''isHyperAutomate'' F_in False K_string,
     documented ''isUninstalled'' ''isUninstalled'' F_in False K_string,
     documented ''lastActiveDate__between'' ''lastActiveDate'' F_between False K_date_time,
     documented ''lastActiveDate__gt'' ''lastActiveDate'' F_gt False K_date_time,
     documented ''lastActiveDate__gte'' ''lastActiveDate'' F_gte False K_date_time,
     documented ''lastActiveDate__lt'' ''lastActiveDate'' F_lt False K_date_time,
     documented ''lastActiveDate__lte'' ''lastActiveDate'' F_lte False K_date_time,
     documented ''lastLoggedInUserName__contains'' ''lastLoggedInUserName'' F_contains False K_string,
     documented ''lastSuccessfulScanDate__between'' ''lastSuccessfulScanDate'' F_between False K_date_time,
     documented ''lastSuccessfulScanDate__gt'' ''lastSuccessfulScanDate'' F_gt False K_date_time,
     documented ''lastSuccessfulScanDate__gte'' ''lastSuccessfulScanDate'' F_gte False K_date_time,
     documented ''lastSuccessfulScanDate__lt'' ''lastSuccessfulScanDate'' F_lt False K_date_time,
     documented ''lastSuccessfulScanDate__lte'' ''lastSuccessfulScanDate'' F_lte False K_date_time,
     documented ''locationEnabled'' ''locationEnabled'' F_in False K_string,
     documented ''machineTypes'' ''machineType'' F_in True K_string,
     documented ''machineTypesNin'' ''machineType'' F_nin True K_string,
     documented ''missingPermissions'' ''missingPermissions'' F_in True K_string,
     documented ''missingPermissionsNin'' ''missingPermissions'' F_nin True K_string,
     documented ''mitigationMode'' ''mitigationMode'' F_eq True K_string,
     documented ''mitigationModeSuspicious'' ''mitigationModeSuspicious'' F_eq True K_string,
     documented ''networkQuarantineEnabled'' ''networkQuarantineEnabled'' F_in False K_string,
     documented ''operationalStates'' ''operationalState'' F_in False K_string,
     documented ''operationalStatesNin'' ''operationalState'' F_nin False K_string,
     documented ''osArch'' ''osArch'' F_eq True K_string,
     documented ''osTypesNin'' ''osType'' F_nin True K_string,
     documented ''pacFileUsage'' ''proxyStates.pacFileUsage'' F_in False K_string,
     documented ''proxyMethod'' ''proxyStates.proxyMethod'' F_in False K_string,
     documented ''proxyMethodNin'' ''proxyStates.proxyMethod'' F_nin False K_string,
     documented ''rangerStatus'' ''rangerStatus'' F_eq True K_string,
     documented ''rangerVersions'' ''rangerVersion'' F_in False K_string,
     documented ''rangerVersionsNin'' ''rangerVersion'' F_nin False K_string,
     documented ''registeredAt__between'' ''registeredAt'' F_between False K_date_time,
     documented ''registeredAt__gt'' ''registeredAt'' F_gt False K_date_time,
     documented ''registeredAt__lt'' ''registeredAt'' F_lt False K_date_time,
     documented ''remoteProfilingStates'' ''remoteProfilingState'' F_in False K_string,
     documented ''remoteProfilingStatesNin'' ''remoteProfilingState'' F_nin False K_string,
     documented ''scanStatus'' ''scanStatus'' F_eq True K_string,
     documented ''serialNumber__contains'' ''serialNumber'' F_contains False K_string,
     documented ''storageTypes'' ''storageType'' F_in False K_string,
     documented ''storageTypesNin'' ''storageType'' F_nin False K_string,
     documented ''threatRebootRequired'' ''threatRebootRequired'' F_in False K_string,
     documented ''totalMemory__between'' ''totalMemory'' F_between False K_string,
     documented ''totalMemory__gt'' ''totalMemory'' F_gt False K_integer,
     documented ''totalMemory__gte'' ''totalMemory'' F_gte False K_integer,
     documented ''totalMemory__lt'' ''totalMemory'' F_lt False K_integer,
     documented ''totalMemory__lte'' ''totalMemory'' F_lte False K_integer,
     documented ''updatedAt__between'' ''updatedAt'' F_between False K_date_time,
     documented ''updatedAt__gt'' ''updatedAt'' F_gt False K_date_time,
     documented ''updatedAt__lt'' ''updatedAt'' F_lt False K_date_time,
     documented ''updatedAt__lte'' ''updatedAt'' F_lte False K_date_time,
     documented ''userActionsNeeded'' ''userActionsNeeded'' F_in True K_string,
     documented ''userActionsNeededNin'' ''userActionsNeeded'' F_nin True K_string,
     documented ''uuid'' ''uuid'' F_eq False K_string,
     documented ''uuid__contains'' ''uuid'' F_contains False K_string,
     documented ''uuids'' ''uuid'' F_in False K_string]"

definition DOC_agents_passphrases :: "filter_spec list" where
  "DOC_agents_passphrases = [
     documented ''computerName'' ''computerName'' F_eq False K_string,
     documented ''computerName__contains'' ''computerName'' F_contains False K_string,
     documented ''createdAt__between'' ''createdAt'' F_between False K_date_time,
     documented ''createdAt__gt'' ''createdAt'' F_gt False K_date_time,
     documented ''createdAt__gte'' ''createdAt'' F_gte False K_date_time,
     documented ''createdAt__lt'' ''createdAt'' F_lt False K_date_time,
     documented ''createdAt__lte'' ''createdAt'' F_lte False K_date_time,
     documented ''domains'' ''domain'' F_in False K_string,
     documented ''domainsNin'' ''domain'' F_nin False K_string,
     documented ''idsNin'' ''id'' F_nin False K_string,
     documented ''lastLoggedInUserName__contains'' ''lastLoggedInUserName'' F_contains False K_string,
     documented ''uuid'' ''uuid'' F_eq False K_string,
     documented ''uuid__contains'' ''uuid'' F_contains False K_string,
     documented ''uuids'' ''uuid'' F_in False K_string]"

definition DOC_agents_tags :: "filter_spec list" where
  "DOC_agents_tags = [
     documented ''createdBy'' ''createdBy'' F_eq False K_string,
     documented ''updatedBy'' ''updatedBy'' F_eq False K_string]"

definition DOC_cloud_detection_alerts :: "filter_spec list" where
  "DOC_cloud_detection_alerts = [
     documented ''createdAt__gt'' ''alertInfo.createdAt'' F_gt False K_date_time,
     documented ''createdAt__lt'' ''alertInfo.createdAt'' F_lt False K_date_time,
     documented ''machineType'' ''agentDetectionInfo.machineType'' F_in False K_string,
     documented ''reportedAt__gt'' ''alertInfo.reportedAt'' F_gt False K_date_time,
     documented ''reportedAt__gte'' ''alertInfo.reportedAt'' F_gte False K_date_time,
     documented ''reportedAt__lt'' ''alertInfo.reportedAt'' F_lt False K_date_time,
     documented ''reportedAt__lte'' ''alertInfo.reportedAt'' F_lte False K_date_time]"

definition DOC_cloud_detection_rules :: "filter_spec list" where
  "DOC_cloud_detection_rules = [
     documented ''accountIds'' ''accountId'' F_in False K_string,
     documented ''activeResponse'' ''activeResponse'' F_bool False K_boolean,
     documented ''creator__contains'' ''creator'' F_contains False K_string,
     documented ''description__contains'' ''description'' F_contains False K_string,
     documented ''expirationMode'' ''expirationMode'' F_eq True K_string,
     documented ''expired'' ''expired'' F_bool False K_boolean,
     documented ''name__contains'' ''name'' F_contains False K_string,
     documented ''reachedLimit'' ''reachedLimit'' F_bool False K_boolean,
     documented ''s1ql__contains'' ''s1ql'' F_contains False K_string,
     documented ''scopeId'' ''scopeId'' F_eq False K_string,
     documented ''scopes'' ''scope'' F_in True K_string,
     documented ''siteIds'' ''siteId'' F_in False K_string]"

definition DOC_device_control :: "filter_spec list" where
  "DOC_device_control = [
     documented ''accessPermissions'' ''accessPermission'' F_in True K_string,
     documented ''createdAt__between'' ''createdAt'' F_between False K_date_time,
     documented ''createdAt__gt'' ''createdAt'' F_gt False K_date_time,
     documented ''createdAt__gte'' ''createdAt'' F_gte False K_date_time,
     documented ''createdAt__lt'' ''createdAt'' F_lt False K_date_time,
     documented ''createdAt__lte'' ''createdAt'' F_lte False K_date_time,
     documented ''deviceIds'' ''deviceId'' F_in False K_string,
     documented ''deviceInformationServiceInfoKeys'' ''deviceInformationServiceInfoKey'' F_in False K_string,
     documented ''deviceNames'' ''deviceName'' F_in False K_string,
     documented ''gattServices'' ''gattService'' F_in False K_string,
     documented ''interfaces'' ''interface'' F_in True K_string,
     documented ''manufacturerNames'' ''manufacturerName'' F_in False K_string,
     documented ''minorClasses'' ''minorClasses'' F_in False K_string,
     documented ''productIds'' ''productId'' F_in False K_string,
     documented ''ruleName'' ''ruleName'' F_eq False K_string,
     documented ''scopes'' ''scope'' F_in True K_string,
     documented ''uids'' ''uid'' F_in False K_string,
     documented ''vendorIds'' ''vendorId'' F_in False K_string,
     documented ''versions'' ''version'' F_in False K_string]"

definition DOC_exclusions :: "filter_spec list" where
  "DOC_exclusions = [
     documented ''accountIds'' ''scope.accountIds'' F_in False K_string,
     documented ''applicationName__contains'' ''applicationName'' F_contains False K_string,
     documented ''createdAt__between'' ''createdAt'' F_between False K_date_time,
     documented ''createdAt__gt'' ''createdAt'' F_gt False K_date_time,
     documented ''createdAt__gte'' ''createdAt'' F_gte False K_date_time,
     documented ''createdAt__lt'' ''createdAt'' F_lt False K_date_time,
     documented ''createdAt__lte'' ''createdAt'' F_lte False K_date_time,
     documented ''description__contains'' ''description'' F_contains False K_string,
     documented ''groupIds'' ''scope.groupIds'' F_in False K_string,
     documented ''imported'' ''imported'' F_in False K_string,
     documented ''inAppInventory'' ''inAppInventory'' F_bool False K_boolean,
     documented ''modes'' ''mode'' F_in True K_string,
     documented ''notRecommended'' ''notRecommended'' F_in True K_string,
     documented ''pathExclusionTypes'' ''pathExclusionType'' F_in True K_string,
     documented ''scopePath__contains'' ''scopePath'' F_contains False K_string,
     documented ''source'' ''source'' F_in True K_string,
     documented ''updatedAt__between'' ''updatedAt'' F_between False K_date_time,
     documented ''updatedAt__gt'' ''updatedAt'' F_gt False K_date_time,
     documented ''updatedAt__gte'' ''updatedAt'' F_gte False K_date_time,
     documented ''updatedAt__lt'' ''updatedAt'' F_lt False K_date_time,
     documented ''updatedAt__lte'' ''updatedAt'' F_lte False K_date_time,
     documented ''userIds'' ''userId'' F_in False K_string,
     documented ''value'' ''value'' F_eq False K_string]"

definition DOC_firewall_control :: "filter_spec list" where
  "DOC_firewall_control = [
     documented ''application__contains'' ''application'' F_contains False K_string,
     documented ''applications'' ''application'' F_in False K_string,
     documented ''createdAt__between'' ''createdAt'' F_between False K_date_time,
     documented ''createdAt__gt'' ''createdAt'' F_gt False K_date_time,
     documented ''createdAt__gte'' ''createdAt'' F_gte False K_date_time,
     documented ''createdAt__lt'' ''createdAt'' F_lt False K_date_time,
     documented ''createdAt__lte'' ''createdAt'' F_lte False K_date_time,
     documented ''directions'' ''direction'' F_in True K_string,
     documented ''name'' ''name'' F_eq False K_string,
     documented ''name__contains'' ''name'' F_contains False K_string,
     documented ''osTypes'' ''osTypes'' F_in True K_string,
     documented ''protocol__contains'' ''protocol'' F_contains False K_string,
     documented ''protocols'' ''protocol'' F_in False K_string,
     documented ''scopes'' ''scope'' F_in True K_string,
     documented ''tagIds'' ''tagIds'' F_in False K_string,
     documented ''tagName__contains'' ''tagNames'' F_contains False K_string]"

definition DOC_groups :: "filter_spec list" where
  "DOC_groups = [
     documented ''description'' ''description'' F_eq False K_string,
     documented ''isDefault'' ''isDefault'' F_bool False K_boolean,
     documented ''rank'' ''rank'' F_eq False K_integer,
     documented ''registrationToken'' ''registrationToken'' F_eq False K_string,
     documented ''type'' ''type'' F_eq True K_string]"

definition DOC_installed_applications :: "filter_spec list" where
  "DOC_installed_applications = [
     documented ''agentComputerName__contains'' ''agentComputerName'' F_contains False K_string,
     documented ''agentMachineTypes'' ''agentMachineType'' F_in True K_string,
     documented ''agentMachineTypesNin'' ''agentMachineType'' F_nin True K_string,
     documented ''agentUuid__contains'' ''agentUuid'' F_contains False K_string,
     documented ''installedAt__between'' ''installedAt'' F_between False K_date_time,
     documented ''name__contains'' ''name'' F_contains False K_string,
     documented ''osTypes'' ''osType'' F_in True K_string,
     documented ''osTypesNin'' ''osType'' F_nin True K_string,
     documented ''publisher__contains'' ''publisher'' F_contains False K_string,
     documented ''riskLevels'' ''riskLevel'' F_in True K_string,
     documented ''riskLevelsNin'' ''riskLevel'' F_nin True K_string,
     documented ''size__between'' ''size'' F_between False K_string,
     documented ''types'' ''type'' F_in True K_string,
     documented ''typesNin'' ''type'' F_nin True K_string,
     documented ''version__contains'' ''version'' F_contains False K_string]"

definition DOC_restrictions :: "filter_spec list" where
  "DOC_restrictions = [
     documented ''accountIds'' ''scope.accountIds'' F_in False K_string,
     documented ''createdAt__between'' ''createdAt'' F_between False K_date_time,
     documented ''createdAt__gt'' ''createdAt'' F_gt False K_date_time,
     documented ''createdAt__gte'' ''createdAt'' F_gte False K_date_time,
     documented ''createdAt__lt'' ''createdAt'' F_lt False K_date_time,
     documented ''createdAt__lte'' ''createdAt'' F_lte False K_date_time,
     documented ''description__contains'' ''description'' F_contains False K_string,
     documented ''groupIds'' ''scope.groupIds'' F_in False K_string,
     documented ''imported'' ''imported'' F_in False K_string,
     documented ''osTypes'' ''osType'' F_in True K_string,
     documented ''source'' ''source'' F_in True K_string,
     documented ''type'' ''type'' F_eq True K_string,
     documented ''updatedAt__between'' ''updatedAt'' F_between False K_date_time,
     documented ''updatedAt__gt'' ''updatedAt'' F_gt False K_date_time,
     documented ''updatedAt__gte'' ''updatedAt'' F_gte False K_date_time,
     documented ''updatedAt__lt'' ''updatedAt'' F_lt False K_date_time,
     documented ''updatedAt__lte'' ''updatedAt'' F_lte False K_date_time,
     documented ''userIds'' ''userId'' F_in False K_string,
     documented ''value'' ''value'' F_eq False K_string,
     documented ''value__contains'' ''value'' F_contains False K_string]"

definition DOC_sites :: "filter_spec list" where
  "DOC_sites = [
     documented ''accountId'' ''accountId'' F_eq False K_string,
     documented ''accountName__contains'' ''accountName'' F_contains False K_string,
     documented ''activeLicenses'' ''activeLicenses'' F_eq False K_integer,
     documented ''createdAt'' ''createdAt'' F_eq False K_string,
     documented ''description'' ''description'' F_eq False K_string,
     documented ''description__contains'' ''description'' F_contains False K_string,
     documented ''expiration'' ''expiration'' F_eq False K_string,
     documented ''healthStatus'' ''healthStatus'' F_bool False K_boolean,
     documented ''isDefault'' ''isDefault'' F_bool False K_boolean,
     documented ''module'' ''licenses.modules'' F_eq False K_string,
     documented ''name__contains'' ''name'' F_contains False K_string,
     documented ''registrationToken'' ''registrationToken'' F_eq False K_string,
     documented ''siteType'' ''siteType'' F_eq True K_string,
     documented ''sku'' ''sku'' F_eq False K_string,
     documented ''state'' ''state'' F_eq True K_string,
     documented ''statesNin'' ''state'' F_nin False K_string,
     documented ''suite'' ''suite'' F_eq True K_string,
     documented ''totalLicenses'' ''totalLicenses'' F_eq False K_integer]"

definition DOC_threat_intelligence_iocs :: "filter_spec list" where
  "DOC_threat_intelligence_iocs = [
     documented ''batchId'' ''batchId'' F_eq False K_string,
     documented ''campaignNames__in'' ''campaignNames'' F_in False K_string,
     documented ''category__in'' ''category'' F_in False K_string,
     documented ''creationTime__gt'' ''creationTime'' F_gt False K_date_time,
     documented ''creationTime__gte'' ''creationTime'' F_gte False K_date_time,
     documented ''creationTime__lt'' ''creationTime'' F_lt False K_date_time,
     documented ''creationTime__lte'' ''creationTime'' F_lte False K_date_time,
     documented ''creator__contains'' ''creator'' F_contains False K_string,
     documented ''description__contains'' ''description'' F_contains False K_string,
     documented ''externalId'' ''externalId'' F_eq False K_string,
     documented ''labels__in'' ''labels'' F_in False K_string,
     documented ''malwareNames__in'' ''malwareNames'' F_in False K_string,
     documented ''name__contains'' ''name'' F_contains False K_string,
     documented ''severity'' ''severity'' F_in False K_string,
     documented ''threatActorTypes__in'' ''threatActorTypes'' F_in False K_string,
     documented ''threatActors__in'' ''threatActors'' F_in False K_string,
     documented ''updatedAt__gt'' ''updatedAt'' F_gt False K_date_time,
     documented ''updatedAt__gte'' ''updatedAt'' F_gte False K_date_time,
     documented ''updatedAt__lt'' ''updatedAt'' F_lt False K_date_time,
     documented ''updatedAt__lte'' ''updatedAt'' F_lte False K_date_time,
     documented ''uploadTime__gt'' ''uploadTime'' F_gt False K_date_time,
     documented ''uploadTime__gte'' ''uploadTime'' F_gte False K_date_time,
     documented ''uploadTime__lt'' ''uploadTime'' F_lt False K_date_time,
     documented ''uploadTime__lte'' ''uploadTime'' F_lte False K_date_time]"

definition DOC_threats :: "filter_spec list" where
  "DOC_threats = [
     documented ''agentIsActive'' ''agentRealtimeInfo.agentIsActive'' F_bool False K_boolean,
     documented ''agentMachineTypes'' ''agentRealtimeInfo.agentMachineType'' F_in True K_string,
     documented ''agentMachineTypesNin'' ''agentRealtimeInfo.agentMachineType'' F_nin True K_string,
     documented ''agentVersions'' ''agentRealtimeInfo.agentVersion'' F_in False K_string,
     documented ''agentVersionsNin'' ''agentRealtimeInfo.agentVersion'' F_nin False K_string,
     documented ''analystVerdictsNin'' ''threatInfo.analystVerdict'' F_nin True K_string,
     documented ''classificationSources'' ''threatInfo.classificationSource'' F_in True K_string,
     documented ''classificationSourcesNin'' ''threatInfo.classificationSource'' F_nin True K_string,
     documented ''classificationsNin'' ''threatInfo.classification'' F_nin False K_string,
     documented ''cloudProvider'' ''agentDetectionInfo.cloudProviders'' F_in False K_string,
     documented ''cloudProviderNin'' ''agentDetectionInfo.cloudProviders'' F_nin False K_string,
     documented ''collectionIds'' ''threatInfo.collectionId'' F_in False K_string,
     documented ''confidenceLevelsNin'' ''threatInfo.confidenceLevel'' F_nin True K_string,
     documented ''createdAt__gt'' ''threatInfo.createdAt'' F_gt False K_date_time,
     documented ''createdAt__lt'' ''threatInfo.createdAt'' F_lt False K_date_time,
     documented ''detectionEngines'' ''threatInfo.detectionEngines'' F_in True K_string,
     documented ''detectionEnginesNin'' ''threatInfo.detectionEngines'' F_nin True K_string,
     documented ''engines'' ''threatInfo.engines'' F_in True K_string,
     documented ''enginesNin'' ''threatInfo.engines'' F_nin True K_string,
     documented ''externalTicketExists'' ''threatInfo.externalTicketExists'' F_bool False K_boolean,
     documented ''externalTicketId__contains'' ''threatInfo.externalTicketId'' F_contains False K_string,
     documented ''externalTicketIds'' ''threatInfo.externalTicketId'' F_in False K_string,
     documented ''failedActions'' ''threatInfo.failedActions'' F_bool False K_boolean,
     documented ''filePath__contains'' ''threatInfo.filePath'' F_contains False K_string,
     documented ''initiatedBy'' ''threatInfo.initiatedBy'' F_in True K_string,
     documented ''initiatedByNin'' ''threatInfo.initiatedBy'' F_nin True K_string,
     documented ''mitigatedPreemptively'' ''threatInfo.mitigatedPreemptively'' F_bool False K_boolean,
     documented ''pendingActions'' ''threatInfo.pendingActions'' F_bool False K_boolean,
     documented ''publisherName__contains'' ''threatInfo.publisherName'' F_contains False K_string,
     documented ''rebootRequired'' ''threatInfo.rebootRequired'' F_bool False K_boolean,
     documented ''storyline__contains'' ''threatInfo.storyline'' F_contains False K_string,
     documented ''storylines'' ''threatInfo.storyline'' F_in False K_string,
     documented ''updatedAt__gt'' ''threatInfo.updatedAt'' F_gt False K_date_time,
     documented ''updatedAt__gte'' ''threatInfo.updatedAt'' F_gte False K_date_time,
     documented ''updatedAt__lt'' ''threatInfo.updatedAt'' F_lt False K_date_time,
     documented ''updatedAt__lte'' ''threatInfo.updatedAt'' F_lte False K_date_time]"

definition DOC_users :: "filter_spec list" where
  "DOC_users = [
     documented ''canGenerateApiToken'' ''canGenerateApiToken'' F_bool False K_boolean,
     documented ''dateJoined'' ''dateJoined'' F_eq False K_string,
     documented ''emailReadOnly'' ''emailReadOnly'' F_bool False K_boolean,
     documented ''emailVerified'' ''emailVerified'' F_bool False K_boolean,
     documented ''email__contains'' ''email'' F_contains False K_string,
     documented ''firstLogin'' ''firstLogin'' F_eq False K_string,
     documented ''fullName'' ''fullName'' F_eq False K_string,
     documented ''fullNameReadOnly'' ''fullNameReadOnly'' F_bool False K_boolean,
     documented ''fullName__contains'' ''fullName'' F_contains False K_string,
     documented ''groupsReadOnly'' ''groupsReadOnly'' F_bool False K_boolean,
     documented ''lastLogin'' ''lastLogin'' F_eq False K_string,
     documented ''primaryTwoFaMethod'' ''primaryTwoFaMethod'' F_eq False K_string,
     documented ''roleIds'' ''scopeRoles.roleId'' F_in False K_string,
     documented ''source'' ''source'' F_eq True K_string,
     documented ''sources'' ''source'' F_in True K_string,
     documented ''twoFaEnabled'' ''twoFaEnabled'' F_bool False K_boolean,
     documented ''twoFaStatus'' ''twoFaStatus'' F_eq False K_string]"

definition DOCUMENTED_FILTERS :: "(string \<times> filter_spec list) list" where
  "DOCUMENTED_FILTERS = [
     (''/accounts'', DOC_accounts),
     (''/activities'', DOC_activities),
     (''/agents'', DOC_agents),
     (''/agents/passphrases'', DOC_agents_passphrases),
     (''/agents/tags'', DOC_agents_tags),
     (''/cloud-detection/alerts'', DOC_cloud_detection_alerts),
     (''/cloud-detection/rules'', DOC_cloud_detection_rules),
     (''/device-control'', DOC_device_control),
     (''/exclusions'', DOC_exclusions),
     (''/firewall-control'', DOC_firewall_control),
     (''/groups'', DOC_groups),
     (''/installed-applications'', DOC_installed_applications),
     (''/restrictions'', DOC_restrictions),
     (''/sites'', DOC_sites),
     (''/threat-intelligence/iocs'', DOC_threat_intelligence_iocs),
     (''/threats'', DOC_threats),
     (''/users'', DOC_users)]"

text \<open>\<open>DOCUMENTED_FILTERS.get(route, [])\<close>.\<close>

definition documented_filters :: "string \<Rightarrow> filter_spec list" where
  "documented_filters route = (case map_of DOCUMENTED_FILTERS route of None \<Rightarrow> [] | Some specs \<Rightarrow> specs)"

end
