(* ===== verification/Agents.thy ===== *)
theory Agents
  imports Settling Webhooks Documented_Filters
begin

text \<open>
  The SentinelOne agents: the network state machine of \<open>src/backend/application/agents/network.py\<close>, and the actions and
  remote scripts of \<open>src/backend/application/agents/commands.py\<close>. Drawn ids come from \<open>e_draw\<close>, by the position of the agent in the
  request and the purpose; a request reads the clocks once. A reading of \<open>time.time\<close> is kept as the text of the double;
  the difference of two readings is exact, since both are multiples of the same power of two.
  The zip file of a file collection is not modelled.

  Shown here: the life of a connect or disconnect, and that an action reaches exactly the agents it names and tells
  the bus, the activity log and the webhooks about each of them once.
\<close>

record env =
  e_now :: int
  e_clock :: rat
  e_clock_repr :: string
  e_draw :: "nat \<Rightarrow> string \<Rightarrow> string"

section \<open>The network state\<close>

definition PENDING_FOR :: "(string \<times> string) list" where
  "PENDING_FOR = [(''connect'', ''connecting''), (''disconnect'', ''disconnecting'')]"

definition NET_SETTLES_INTO :: "(string \<times> string) list" where
  "NET_SETTLES_INTO = [(''connecting'', ''connected''), (''disconnecting'', ''disconnected'')]"

definition net_begin :: "env \<Rightarrow> jobj \<Rightarrow> string \<Rightarrow> db \<Rightarrow> jobj \<times> db" where
  "net_begin env agent state s =
     (let stamp = VStr (utc_now (e_now env));
          agent' = AList.update ''updatedAt'' stamp (AList.update ''networkStatus'' (VStr state) agent)
      in (agent', repo_save_raw s ''agent_network_requests'' (attr_text agent' ''id'')
            (VDict [(''requested_at'', VFloat (e_clock_repr env)), (''stamp'', stamp)])))"

text \<open>\<open>float(pending["requested_at"])\<close>.\<close>

definition request_time :: "jobj \<Rightarrow> rat result" where
  "request_time pending =
     (case dict_get pending ''requested_at'' of
        VFloat t \<Rightarrow> (case float_of_str t of Some (Fin q) \<Rightarrow> Inr q | _ \<Rightarrow> Inl (ValueError t))
      | VInt n \<Rightarrow> Inr (of_int n)
      | _ \<Rightarrow> Inl (TypeError ''float''))"

definition drop_request :: "string \<Rightarrow> world \<Rightarrow> world" where
  "drop_request i = on_db (\<lambda>s. fst (repo_delete s ''agent_network_requests'' i))"

definition net_settled :: "rat \<Rightarrow> jobj \<Rightarrow> world \<Rightarrow> (jobj \<times> world) result" where
  "net_settled clock agent w =
     (let agent_id = attr_text agent ''id''
      in case repo_find (wdb w) ''agent_network_requests'' agent_id of
           None \<Rightarrow> Inr (agent, w)
         | Some pending \<Rightarrow>
             (case request_time pending of
                Inl e \<Rightarrow> Inl e
              | Inr requested \<Rightarrow>
                  (case settles_into NET_SETTLES_INTO (get_or agent ''networkStatus'' (VStr [])) of
                     None \<Rightarrow> Inr (agent, drop_request agent_id w)
                   | Some target \<Rightarrow>
                       (if dict_get agent ''updatedAt'' \<noteq> dict_get pending ''stamp''
                        then Inr (agent, drop_request agent_id w)
                        else if \<not> has_answered (Some (clock - requested)) then Inr (agent, w)
                        else let agent' = AList.update ''networkStatus'' (VStr target) agent
                             in Inr (agent', agent_changed clock agent' (Some (requested + SETTLE_SECONDS))
                                  (on_db (\<lambda>s. repo_save s ''agents'' agent') (drop_request agent_id w)))))))"

fun settle_all :: "rat \<Rightarrow> jobj list \<Rightarrow> world \<Rightarrow> (jobj list \<times> world) result" where
  "settle_all clock [] w = Inr ([], w)"
| "settle_all clock (a # as) w =
     (case net_settled clock a w of
        Inl e \<Rightarrow> Inl e
      | Inr (a', w1) \<Rightarrow>
          (case settle_all clock as w1 of Inl e \<Rightarrow> Inl e | Inr (as', w2) \<Rightarrow> Inr (a' # as', w2)))"

definition request_ids :: "db \<Rightarrow> string list" where
  "request_ids s = (case store_get_all_with_keys s ''agent_network_requests'' of Inl e \<Rightarrow> [] | Inr d \<Rightarrow> dict_keys d)"

fun requested_agents :: "string list \<Rightarrow> world \<Rightarrow> jobj list \<times> world" where
  "requested_agents [] w = ([], w)"
| "requested_agents (i # ids) w =
     (case repo_find (wdb w) ''agents'' i of
        None \<Rightarrow> requested_agents ids (drop_request i w)
      | Some a \<Rightarrow> (let (as, w') = requested_agents ids w in (a # as, w')))"

definition net_settle_due :: "rat \<Rightarrow> world \<Rightarrow> (nat \<times> world) result" where
  "net_settle_due clock w =
     (let (agents, w1) = requested_agents (request_ids (wdb w)) w
      in settle_each agents ''networkStatus'' None (net_settled clock) w1)"

section \<open>Selecting agents\<close>

definition AGENT_FILTER_SPECS :: "filter_spec list" where
  "AGENT_FILTER_SPECS = [
     FilterSpec ''ids'' ''id'' F_in, FilterSpec ''accountIds'' ''accountId'' F_in, FilterSpec ''siteIds'' ''siteId'' F_in,
     FilterSpec ''groupIds'' ''groupId'' F_in, FilterSpec ''osTypes'' ''osType'' F_in,
     FilterSpec ''networkStatuses'' ''networkStatus'' F_in, FilterSpec ''isActive'' ''isActive'' F_bool,
     FilterSpec ''isDecommissioned'' ''isDecommissioned'' F_bool, documented ''infected'' ''infected'' F_bool False K_boolean,
     FilterSpec ''isPendingUninstall'' ''isPendingUninstall'' F_bool, FilterSpec ''isUpToDate'' ''isUpToDate'' F_bool,
     FilterSpec ''computerName'' ''computerName'' F_contains,
     FilterSpec ''query'' ''computerName|localIp|externalIp|osName|domain'' F_full_text,
     FilterSpec ''registeredAt__gte'' ''registeredAt'' F_gte_dt, FilterSpec ''registeredAt__lte'' ''registeredAt'' F_lte_dt,
     FilterSpec ''updatedAt__gte'' ''updatedAt'' F_gte_dt, FilterSpec ''decommissionedAt__gte'' ''decommissionedAt'' F_gte_dt]"

datatype agent_error = UnscopedActionError string | Select select_failure | Raise exn

definition resolve_agent_filter :: "validator \<Rightarrow> db \<Rightarrow> jobj \<Rightarrow> select_failure + pyval list" where
  "resolve_agent_filter validate s raw_filter =
     select_ids validate (repo_list_all s ''agents'') raw_filter (AGENT_FILTER_SPECS @ documented_filters ''/agents'')
       ''id'' [''ids''] []"

text \<open>The ids of a body, as \<open>for\<close> iterates them.\<close>

definition resolve_ids :: "validator \<Rightarrow> db \<Rightarrow> jobj \<Rightarrow> agent_error + pyval list" where
  "resolve_ids validate s body =
     (if truthy (dict_get body ''ids'')
      then case py_list (dict_get body ''ids'') of None \<Rightarrow> Inl (Raise (TypeError ''not iterable'')) | Some ids \<Rightarrow> Inr ids
      else if \<not> truthy (dict_get body ''filter'')
      then Inl (UnscopedActionError ''A filter is required. Supply at least one of: ids, groupIds, siteIds, accountIds.'')
      else case resolve_agent_filter validate s (fields_of (dict_get body ''filter'')) of
             Inl e \<Rightarrow> Inl (Select e)
           | Inr ids \<Rightarrow> Inr ids)"

section \<open>Actions\<close>

definition ACTIVITY_ONLY_ACTIONS :: "string list" where
  "ACTIVITY_ONLY_ACTIONS = [''restart-services'', ''fetch-logs'', ''broadcast'', ''restart-machine'', ''set-external-id'',
     ''fetch-installed-apps'', ''fetch-firewall-rules'', ''reset-local-config'', ''move-to-console'', ''set-config'',
     ''start-remote-shell'', ''can-start-remote-shell'', ''terminate-remote-shell'', ''clear-remote-shell-session'',
     ''firewall-logging'', ''local-upgrade-authorization'', ''reset-passphrase'', ''capability'', ''approve-stateless-upgrade'']"

definition KNOWN_ACTIONS :: "string list" where
  "KNOWN_ACTIONS = [''connect'', ''disconnect'', ''initiate-scan'', ''abort-scan'', ''shutdown'', ''enable-agent'', ''disable-agent'',
     ''uninstall'', ''decommission'', ''mark-up-to-date'', ''randomize-uuid'', ''move-to-site'', ''move-to-group'', ''manage-tags'',
     ''approve-uninstall'', ''reject-uninstall'', ''update-software'', ''ranger-enable'', ''ranger-disable'', ''start-profiling'',
     ''stop-profiling''] @ ACTIVITY_ONLY_ACTIONS"

definition move_to_site :: "db \<Rightarrow> pyval \<Rightarrow> jobj \<Rightarrow> jobj result" where
  "move_to_site s extra agent =
     (case obj_get extra ''targetSiteId'' VNone of
        Inl e \<Rightarrow> Inl e
      | Inr target \<Rightarrow>
          (if \<not> truthy target then Inr agent
           else case find_by_value s ''sites'' target of
                  Inl e \<Rightarrow> Inl e
                | Inr None \<Rightarrow> Inr agent
                | Inr (Some site) \<Rightarrow>
                    (let groups = map fields_of (get_by_site s (py_str target));
                         chosen = (case find (\<lambda>g. truthy (dict_get g ''isDefault'')) groups of
                                     Some g \<Rightarrow> Some g
                                   | None \<Rightarrow> (case groups of [] \<Rightarrow> None | g # _ \<Rightarrow> Some g))
                     in Inr (updates ([(''siteId'', target), (''siteName'', dict_get site ''name'')] @
                          (case chosen of
                             None \<Rightarrow> []
                           | Some g \<Rightarrow> [(''groupId'', dict_get g ''id''), (''groupName'', dict_get g ''name'')])) agent))))"

definition move_to_group :: "db \<Rightarrow> pyval \<Rightarrow> jobj \<Rightarrow> jobj result" where
  "move_to_group s extra agent =
     (case obj_get extra ''targetGroupId'' VNone of
        Inl e \<Rightarrow> Inl e
      | Inr target \<Rightarrow>
          (if \<not> truthy target then Inr agent
           else case find_by_value s ''groups'' target of
                  Inl e \<Rightarrow> Inl e
                | Inr None \<Rightarrow> Inr agent
                | Inr (Some g) \<Rightarrow> Inr (updates [(''groupId'', target), (''groupName'', dict_get g ''name'')] agent)))"

definition assigned_tag :: "env \<Rightarrow> pyval \<Rightarrow> pyval \<Rightarrow> pyval \<Rightarrow> pyval \<Rightarrow> pyval" where
  "assigned_tag env i k v actor =
     VDict [(''id'', i), (''key'', k), (''value'', v), (''assignedAt'', VStr (utc_now (e_now env))), (''assignedBy'', VStr ''user''),
            (''assignedById'', if truthy actor then actor else VStr [])]"

text \<open>One entry of the list form: \<open>remove\<close>, \<open>override\<close> or \<open>add\<close>.\<close>

definition tag_operation :: "env \<Rightarrow> db \<Rightarrow> pyval \<Rightarrow> pyval list \<Rightarrow> pyval \<Rightarrow> pyval list result" where
  "tag_operation env s actor current operation =
     (case obj_get operation ''tagId'' (VStr []) of
        Inl e \<Rightarrow> Inl e
      | Inr tag_id \<Rightarrow>
          (case find_by_value s ''tags'' tag_id of
             Inl e \<Rightarrow> Inl e
           | Inr tag_def \<Rightarrow>
               (let kind = field_get operation ''operation'';
                    made = (\<lambda>t. assigned_tag env (dict_get t ''id'') (dict_get t ''key'') (dict_get t ''value'') actor)
                in if kind = VStr ''remove'' then Inr (filter (\<lambda>t. \<not> py_eq (field_get t ''id'') tag_id) current)
                   else case tag_def of
                          None \<Rightarrow> Inr current
                        | Some t \<Rightarrow>
                            (if kind = VStr ''override'' then Inr [made t]
                             else if kind = VStr ''add'' \<and> \<not> list_ex (\<lambda>u. py_eq (field_get u ''id'') (dict_get t ''id'')) current
                             then Inr (current @ [made t])
                             else Inr current))))"

definition tag_by_key :: "db \<Rightarrow> pyval \<Rightarrow> jobj option" where
  "tag_by_key s k = map_option fields_of (find (\<lambda>t. py_eq (field_get t ''key'') k) (rev (repo_list_all s ''tags'')))"

text \<open>The legacy form: the keys to add and to remove. The keys present are read once, before anything is added.\<close>

definition tag_keys :: "env \<Rightarrow> nat \<Rightarrow> db \<Rightarrow> pyval \<Rightarrow> pyval list \<Rightarrow> pyval \<Rightarrow> pyval list result" where
  "tag_keys env n s actor current extra =
     (case (obj_get extra ''tagsToAdd'' (VList []), obj_get extra ''tagsToRemove'' (VList [])) of
        (Inr to_add, Inr to_remove) \<Rightarrow>
          (case (py_list to_add, py_list to_remove) of
             (Some adds, Some removes) \<Rightarrow>
               (let kept = filter (\<lambda>t. \<not> list_ex (py_eq (field_get t ''key'')) removes) current;
                    new = filter (\<lambda>k. \<not> list_ex (\<lambda>t. py_eq (field_get t ''key'') k) kept) adds;
                    made = (\<lambda>k. case tag_by_key s k of
                              Some t \<Rightarrow> assigned_tag env (dict_get t ''id'') k (dict_get t ''value'') actor
                            | None \<Rightarrow> assigned_tag env (VStr (e_draw env n (''tag:'' @ py_str k))) k k actor)
                in Inr (kept @ map made new))
           | _ \<Rightarrow> Inl (TypeError ''not iterable''))
      | (Inl e, _) \<Rightarrow> Inl e
      | (_, Inl e) \<Rightarrow> Inl e)"

definition manage_tags :: "env \<Rightarrow> nat \<Rightarrow> db \<Rightarrow> pyval \<Rightarrow> pyval \<Rightarrow> jobj \<Rightarrow> jobj result" where
  "manage_tags env n s actor extra agent =
     (let tags = fields_of (dict_get agent ''tags'');
          current = (case get_or tags ''sentinelone'' (VList []) of VList vs \<Rightarrow> vs | _ \<Rightarrow> []);
          changed = (case extra of VList ops \<Rightarrow> foldE (tag_operation env s actor) ops current
                                 | _ \<Rightarrow> tag_keys env n s actor current extra)
      in case changed of
           Inl e \<Rightarrow> Inl e
         | Inr cur \<Rightarrow> Inr (AList.update ''tags'' (VDict (AList.update ''sentinelone'' (VList cur) tags)) agent))"

text \<open>What an action that leaves the network state alone does to an agent.\<close>

definition agent_after :: "env \<Rightarrow> nat \<Rightarrow> db \<Rightarrow> string \<Rightarrow> pyval \<Rightarrow> pyval \<Rightarrow> jobj \<Rightarrow> jobj result" where
  "agent_after env n s action extra actor agent =
     (let stamp = VStr (utc_now (e_now env)); upd = (\<lambda>kvs. Inr (updates kvs agent))
      in if action = ''initiate-scan'' then upd [(''scanStatus'', VStr ''started''), (''scanStartedAt'', stamp)]
         else if action = ''abort-scan'' then upd [(''scanStatus'', VStr ''aborted''), (''scanAbortedAt'', stamp)]
         else if action = ''shutdown'' then upd [(''isActive'', VBool False)]
         else if action = ''enable-agent'' then upd [(''isActive'', VBool True)]
         else if action = ''disable-agent'' then upd [(''isActive'', VBool False)]
         else if action = ''uninstall'' then upd [(''isPendingUninstall'', VBool True)]
         else if action = ''decommission'' then upd [(''isDecommissioned'', VBool True), (''isActive'', VBool False)]
         else if action \<in> {''mark-up-to-date'', ''update-software''} then upd [(''isUpToDate'', VBool True)]
         else if action = ''approve-uninstall''
         then upd [(''isPendingUninstall'', VBool False), (''isUninstalled'', VBool True), (''isActive'', VBool False)]
         else if action = ''reject-uninstall'' then upd [(''isPendingUninstall'', VBool False)]
         else if action = ''ranger-enable'' then upd [(''rangerStatus'', VStr ''Enabled'')]
         else if action = ''ranger-disable'' then upd [(''rangerStatus'', VStr ''Disabled'')]
         else if action = ''start-profiling'' then upd [(''remoteProfilingState'', VStr ''enabled'')]
         else if action = ''stop-profiling'' then upd [(''remoteProfilingState'', VStr ''disabled'')]
         else if action = ''randomize-uuid'' then upd [(''uuid'', VStr (e_draw env n ''uuid''))]
         else if action = ''move-to-site'' then move_to_site s extra agent
         else if action = ''move-to-group'' then move_to_group s extra agent
         else if action = ''manage-tags'' then manage_tags env n s actor extra agent
         else Inr agent)"

text \<open>The turn of the loop for one agent that exists: its new state, and what follows for every action.\<close>

definition changed_by :: "env \<Rightarrow> nat \<Rightarrow> string \<Rightarrow> pyval \<Rightarrow> pyval \<Rightarrow> jobj \<Rightarrow> world \<Rightarrow> (jobj \<times> world) result" where
  "changed_by env n action extra actor agent w =
     (case map_of PENDING_FOR action of
        Some state \<Rightarrow> (let (a, s) = net_begin env agent state (wdb w) in Inr (a, w\<lparr>wdb := s\<rparr>))
      | None \<Rightarrow> (case agent_after env n (wdb w) action extra actor agent of Inl e \<Rightarrow> Inl e | Inr a \<Rightarrow> Inr (a, w)))"

definition act_on :: "env \<Rightarrow> nat \<Rightarrow> string \<Rightarrow> pyval \<Rightarrow> pyval \<Rightarrow> string \<Rightarrow> jobj \<Rightarrow> world \<Rightarrow> world result" where
  "act_on env n action extra actor agent_id agent w =
     (case changed_by env n action extra actor agent w of
        Inl e \<Rightarrow> Inl e
      | Inr (a, w1) \<Rightarrow>
          (let w2 = agent_changed (e_clock env) a None (on_db (\<lambda>s. repo_save s ''agents'' a) w1);
               (activity, w3) = activity_create (e_draw env n ''activity'') (e_now env) (e_clock env)
                 (if action = ''disconnect'' then 52 else 53) (''Agent action '' @ [CHR 0x27] @ action @ [CHR 0x27] @ '' executed'')
                 (VStr agent_id) VNone actor (dict_get a ''siteId'') w2
           in Inr (if action = ''disconnect'' then fire_event ''agent.offline'' a w3 else w3)))"

text \<open>The loop over the ids, with how many agents were found; an exception leaves what was done before it.\<close>

fun act_on_all :: "env \<Rightarrow> string \<Rightarrow> pyval \<Rightarrow> pyval \<Rightarrow> nat \<Rightarrow> pyval list \<Rightarrow> world \<Rightarrow> nat result \<times> world" where
  "act_on_all env action extra actor n [] w = (Inr 0, w)"
| "act_on_all env action extra actor n (v # vs) w =
     (case find_by_value (wdb w) ''agents'' v of
        Inl e \<Rightarrow> (Inl e, w)
      | Inr None \<Rightarrow> act_on_all env action extra actor (Suc n) vs w
      | Inr (Some agent) \<Rightarrow>
          (case act_on env n action extra actor (py_str v) agent w of
             Inl e \<Rightarrow> (Inl e, w)
           | Inr w1 \<Rightarrow>
               (case act_on_all env action extra actor (Suc n) vs w1 of
                  (Inl e, w2) \<Rightarrow> (Inl e, w2)
                | (Inr k, w2) \<Rightarrow> (Inr (Suc k), w2))))"

definition execute_action ::
  "validator \<Rightarrow> env \<Rightarrow> string \<Rightarrow> jobj \<Rightarrow> pyval \<Rightarrow> world \<Rightarrow> (agent_error + pyval) \<times> world" where
  "execute_action validate env action body actor w =
     (if action \<notin> set KNOWN_ACTIONS
      then (Inl (Raise (ValueError (''Unknown agent action: '' @ repr_str action))), w)
      else case resolve_ids validate (wdb w) body of
             Inl e \<Rightarrow> (Inl e, w)
           | Inr ids \<Rightarrow>
               (case act_on_all env action
                       (if truthy (dict_get body ''data'') then dict_get body ''data'' else VDict []) actor 0 ids w of
                  (Inl e, w') \<Rightarrow> (Inl (Raise e), w')
                | (Inr affected, w') \<Rightarrow> (Inr (VDict [(''data'', VDict [(''affected'', VInt (int affected))])]), w')))"

section \<open>Remote scripts\<close>

text \<open>
  The ids of the runs and of the task are drawn. The fields of the answer to \<open>repo.get\<close> are read off the
  stored agent; an exception leaves what was done before it.
\<close>

definition script_run :: "env \<Rightarrow> nat \<Rightarrow> jobj \<Rightarrow> string \<Rightarrow> jobj" where
  "script_run env n data agent_id =
     [(''id'', VStr (e_draw env n ''run'')), (''parentTaskId'', VStr (e_draw env 0 ''task'')), (''agentId'', VStr agent_id),
      (''scriptId'', get_or data ''scriptId'' (VStr [])), (''status'', VStr ''completed''),
      (''outputDestination'', get_or data ''outputDestination'' (VStr ''SentinelCloud'')),
      (''taskDescription'', get_or data ''taskDescription'' (VStr ''Remote script execution'')),
      (''timeout'', get_or data ''timeout'' (VInt 600)), (''createdAt'', VStr (utc_now (e_now env)))]"

fun run_on_all :: "env \<Rightarrow> jobj \<Rightarrow> pyval \<Rightarrow> nat \<Rightarrow> pyval list \<Rightarrow> world \<Rightarrow> nat result \<times> world" where
  "run_on_all env data user n [] w = (Inr 0, w)"
| "run_on_all env data user n (v # vs) w =
     (case find_by_value (wdb w) ''agents'' v of
        Inl e \<Rightarrow> (Inl e, w)
      | Inr found \<Rightarrow>
          (if (case found of None \<Rightarrow> True | Some a \<Rightarrow> truthy (dict_get a ''isDecommissioned''))
           then run_on_all env data user (Suc n) vs w
           else let w1 = on_db (\<lambda>s. repo_save_raw s ''remote_script_runs'' (e_draw env n ''run'')
                             (VDict (script_run env n data (py_str v)))) w;
                    (activity, w2) = activity_create (e_draw env n ''activity'') (e_now env) (e_clock env) 81
                      (''Remote script executed: '' @ py_str (get_or data ''taskDescription'' (VStr ''Remote script execution'')))
                      v VNone user (dict_get (the found) ''siteId'') w1
                in (case run_on_all env data user (Suc n) vs w2 of
                      (Inl e, w3) \<Rightarrow> (Inl e, w3)
                    | (Inr k, w3) \<Rightarrow> (Inr (Suc k), w3))))"

definition execute_remote_script :: "validator \<Rightarrow> env \<Rightarrow> jobj \<Rightarrow> pyval \<Rightarrow> world \<Rightarrow> (agent_error + pyval) \<times> world" where
  "execute_remote_script validate env body user w =
     (case resolve_ids validate (wdb w) body of
        Inl e \<Rightarrow> (Inl e, w)
      | Inr ids \<Rightarrow>
          (case (if truthy (dict_get body ''data'') then dict_get body ''data'' else VDict body) of
             VDict data \<Rightarrow>
               (case run_on_all env data user 0 ids w of
                  (Inl e, w') \<Rightarrow> (Inl (Raise e), w')
                | (Inr affected, w') \<Rightarrow>
                    (Inr (VDict [(''data'', VDict [(''affected'', VInt (int affected)),
                                                   (''parentTaskId'', VStr (e_draw env 0 ''task''))])]), w'))
           | _ \<Rightarrow> (Inl (Raise (AttributeError ''get'')), w)))"

section \<open>What an action changes\<close>

definition agents_keyed :: "db \<Rightarrow> bool" where
  "agents_keyed s \<longleftrightarrow>
     (\<forall>i v. repo_get s ''agents'' i = Some v \<longrightarrow> (\<exists>r. v = VDict r \<and> map_of r ''id'' = Some (VStr i)))"

lemma fire_event_sel [simp]: "wdb (fire_event ev r w) = wdb w" "published (fire_event ev r w) = published w"
  by (simp_all add: fire_event_def Let_def fold_submit)

lemma activity_create_sel [simp]:
  "wdb (snd (activity_create i now clock k d ag th us si w)) = activity_append (fst (activity_create i now clock k d ag th us si w)) (wdb w)"
  "published (snd (activity_create i now clock k d ag th us si w)) =
     published w @ [event_of ActivityCreated i (fst (activity_create i now clock k d ag th us si w)) clock]"
  "queued (snd (activity_create i now clock k d ag th us si w)) = queued w"
  by (simp_all add: activity_create_def Let_def)

lemma move_id:
  "move_to_site s extra a = Inr a' \<Longrightarrow> map_of a' ''id'' = map_of a ''id''"
  "move_to_group s extra a = Inr a' \<Longrightarrow> map_of a' ''id'' = map_of a ''id''"
  by (auto simp: move_to_site_def move_to_group_def Let_def map_of_updates_other split: if_splits sum.splits option.splits)

lemma manage_tags_id: "manage_tags env n s actor extra a = Inr a' \<Longrightarrow> map_of a' ''id'' = map_of a ''id''"
  by (auto simp: manage_tags_def Let_def update_conv' split: sum.splits)

lemma updates_id: "Inr (updates kvs a) = Inr a' \<Longrightarrow> ''id'' \<notin> set (map fst kvs) \<Longrightarrow> map_of a' ''id'' = map_of a ''id''"
  by (auto simp: map_of_updates_other)

lemma if_split_left: "(if c then x else y) = z \<Longrightarrow> (x = z \<Longrightarrow> P) \<Longrightarrow> (y = z \<Longrightarrow> P) \<Longrightarrow> P"
  by (cases c) auto

lemma agent_after_id: "agent_after env n s action extra actor a = Inr a' \<Longrightarrow> map_of a' ''id'' = map_of a ''id''"
  unfolding agent_after_def Let_def
  by (elim if_split_left) (erule move_id manage_tags_id | erule updates_id, simp | simp)+

lemma changed_by_effect:
  assumes "store_inv (wdb w)" "map_of a ''id'' = Some (VStr i)" "changed_by env n action extra actor a w = Inr (a', w1)"
  shows "map_of a' ''id'' = Some (VStr i) \<and> store_inv (wdb w1) \<and> published w1 = published w \<and> queued w1 = queued w \<and>
    (\<forall>c j. c \<noteq> ''agent_network_requests'' \<longrightarrow> repo_get (wdb w1) c j = repo_get (wdb w) c j)"
  using assms agent_after_id [of env n "wdb w" action extra actor a a']
  by (auto simp: changed_by_def net_begin_def Let_def update_conv' repo_save_other split: option.splits sum.splits)

lemma event_of_sel [simp]: "entity_id (event_of e i r t) = i" "event_type (event_of e i r t) = event_type e"
  by (simp_all add: event_of_def)

lemma keyed_name: "map_of r ''id'' = Some (VStr i) \<Longrightarrow> attr_text r ''id'' = i \<and> py_str (dict_get r ''id'') = i"
  by (simp add: attr_text_def get_or_def dict_get_def)

text \<open>
  What each action promises of an agent, beside the code: the members it writes and what it writes there.
  The two moves read the target off the body, the site's default group before its others.
\<close>

definition site_members :: "db \<Rightarrow> pyval \<Rightarrow> (string \<times> pyval) list" where
  "site_members s extra =
     (case field_get extra ''targetSiteId'' of
        VStr i \<Rightarrow>
          (case (if i = [] then None else repo_find s ''sites'' i) of
             None \<Rightarrow> []
           | Some site \<Rightarrow>
               (let groups = map fields_of (get_by_site s i)
                in [(''siteId'', VStr i), (''siteName'', dict_get site ''name'')] @
                   (case filter (\<lambda>g. truthy (dict_get g ''isDefault'')) groups @ groups of
                      [] \<Rightarrow> []
                    | g # _ \<Rightarrow> [(''groupId'', dict_get g ''id''), (''groupName'', dict_get g ''name'')])))
      | _ \<Rightarrow> [])"

definition group_members :: "db \<Rightarrow> pyval \<Rightarrow> (string \<times> pyval) list" where
  "group_members s extra =
     (case field_get extra ''targetGroupId'' of
        VStr i \<Rightarrow>
          (case (if i = [] then None else repo_find s ''groups'' i) of
             None \<Rightarrow> []
           | Some g \<Rightarrow> [(''groupId'', VStr i), (''groupName'', dict_get g ''name'')])
      | _ \<Rightarrow> [])"

definition plain_members :: "env \<Rightarrow> nat \<Rightarrow> (string \<times> (string \<times> pyval) list) list" where
  "plain_members env n =
     (let stamp = VStr (utc_now (e_now env)); yes = VBool True; no = VBool False
      in [(''connect'', [(''networkStatus'', VStr ''connecting''), (''updatedAt'', stamp)]),
          (''disconnect'', [(''networkStatus'', VStr ''disconnecting''), (''updatedAt'', stamp)]),
          (''initiate-scan'', [(''scanStatus'', VStr ''started''), (''scanStartedAt'', stamp)]),
          (''abort-scan'', [(''scanStatus'', VStr ''aborted''), (''scanAbortedAt'', stamp)]),
          (''shutdown'', [(''isActive'', no)]), (''enable-agent'', [(''isActive'', yes)]), (''disable-agent'', [(''isActive'', no)]),
          (''uninstall'', [(''isPendingUninstall'', yes)]),
          (''decommission'', [(''isDecommissioned'', yes), (''isActive'', no)]),
          (''mark-up-to-date'', [(''isUpToDate'', yes)]), (''update-software'', [(''isUpToDate'', yes)]),
          (''approve-uninstall'', [(''isPendingUninstall'', no), (''isUninstalled'', yes), (''isActive'', no)]),
          (''reject-uninstall'', [(''isPendingUninstall'', no)]),
          (''ranger-enable'', [(''rangerStatus'', VStr ''Enabled'')]), (''ranger-disable'', [(''rangerStatus'', VStr ''Disabled'')]),
          (''start-profiling'', [(''remoteProfilingState'', VStr ''enabled'')]),
          (''stop-profiling'', [(''remoteProfilingState'', VStr ''disabled'')]),
          (''randomize-uuid'', [(''uuid'', VStr (e_draw env n ''uuid''))])])"

definition promised :: "env \<Rightarrow> nat \<Rightarrow> db \<Rightarrow> string \<Rightarrow> pyval \<Rightarrow> (string \<times> pyval) list" where
  "promised env n s action extra =
     (case map_of (plain_members env n) action of
        Some kvs \<Rightarrow> kvs
      | None \<Rightarrow>
          (if action = ''move-to-site'' then site_members s extra
           else if action = ''move-to-group'' then group_members s extra
           else []))"

text \<open>The tags of an agent, and what the two forms of \<open>manage-tags\<close> make of their ids or keys.\<close>

definition tag_list :: "jobj \<Rightarrow> pyval list" where
  "tag_list agent = (case get_or (fields_of (dict_get agent ''tags'')) ''sentinelone'' (VList []) of VList vs \<Rightarrow> vs | _ \<Rightarrow> [])"

definition ids_after :: "db \<Rightarrow> pyval \<Rightarrow> pyval list \<Rightarrow> pyval list" where
  "ids_after s operation ids =
     (let tag_id = get_or (fields_of operation) ''tagId'' (VStr []); kind = field_get operation ''operation'';
          defined = (case tag_id of VStr i \<Rightarrow> repo_find s ''tags'' i | _ \<Rightarrow> None)
      in if kind = VStr ''remove'' then filter (\<lambda>i. \<not> py_eq i tag_id) ids
         else case defined of
                None \<Rightarrow> ids
              | Some t \<Rightarrow>
                  (if kind = VStr ''override'' then [dict_get t ''id'']
                   else if kind = VStr ''add'' \<and> \<not> list_ex (\<lambda>i. py_eq i (dict_get t ''id'')) ids then ids @ [dict_get t ''id'']
                   else ids))"

definition keys_after :: "pyval \<Rightarrow> pyval list \<Rightarrow> pyval list" where
  "keys_after extra ks =
     (let named = (\<lambda>k. case py_list (get_or (fields_of extra) k (VList [])) of Some vs \<Rightarrow> vs | None \<Rightarrow> []);
          kept = filter (\<lambda>k. \<not> list_ex (py_eq k) (named ''tagsToRemove'')) ks
      in kept @ filter (\<lambda>k. \<not> list_ex (\<lambda>k'. py_eq k' k) kept) (named ''tagsToAdd''))"

definition tags_managed :: "db \<Rightarrow> pyval \<Rightarrow> jobj \<Rightarrow> jobj \<Rightarrow> bool" where
  "tags_managed s extra old new \<longleftrightarrow>
     (\<forall>k. k \<noteq> ''sentinelone'' \<longrightarrow>
        map_of (fields_of (dict_get new ''tags'')) k = map_of (fields_of (dict_get old ''tags'')) k) \<and>
     (case extra of
        VList ops \<Rightarrow> map (\<lambda>t. field_get t ''id'') (tag_list new) = fold (ids_after s) ops (map (\<lambda>t. field_get t ''id'') (tag_list old))
      | _ \<Rightarrow> map (\<lambda>t. field_get t ''key'') (tag_list new) = keys_after extra (map (\<lambda>t. field_get t ''key'') (tag_list old)))"

text \<open>
  One turn of the loop: its place among the ids, the agent, and its record before and after. An agent is told
  what its action promises; everything else of its record stays.
\<close>

record turn =
  turn_at :: nat
  turn_of :: string
  turn_before :: jobj
  turn_after :: jobj

definition carried_out :: "env \<Rightarrow> db \<Rightarrow> string \<Rightarrow> pyval \<Rightarrow> turn \<Rightarrow> bool" where
  "carried_out env s action extra t \<longleftrightarrow>
     (\<forall>k. k = ''tags'' \<and> action = ''manage-tags'' \<or>
        map_of (turn_after t) k =
          (case map_of (promised env (turn_at t) s action extra) k of
             Some v \<Rightarrow> Some v
           | None \<Rightarrow> map_of (turn_before t) k)) \<and>
     (action = ''manage-tags'' \<longrightarrow> tags_managed s extra (turn_before t) (turn_after t))"

text \<open>The activity of a turn, and the two events of it: the agent's new record, then the activity's.\<close>

definition turn_activity :: "env \<Rightarrow> string \<Rightarrow> pyval \<Rightarrow> turn \<Rightarrow> jobj" where
  "turn_activity env action actor t =
     Activity (e_draw env (turn_at t) ''activity'') (if action = ''disconnect'' then 52 else 53)
       (''Agent action '' @ [CHR 0x27] @ action @ [CHR 0x27] @ '' executed'') (utc_now (e_now env))
       (VStr (turn_of t)) VNone actor (dict_get (turn_after t) ''siteId'')"

definition turn_events :: "env \<Rightarrow> string \<Rightarrow> pyval \<Rightarrow> turn \<Rightarrow> domain_event list" where
  "turn_events env action actor t =
     [event_of AgentUpdated (turn_of t) (turn_after t) (e_clock env),
      event_of ActivityCreated (e_draw env (turn_at t) ''activity'') (turn_activity env action actor t) (e_clock env)]"

text \<open>The turns follow one another: each starts from the record the ones before it left.\<close>

fun in_turn :: "turn list \<Rightarrow> (string \<Rightarrow> pyval option) \<Rightarrow> bool" where
  "in_turn [] m \<longleftrightarrow> True"
| "in_turn (t # ts) m \<longleftrightarrow>
     m (turn_of t) = Some (VDict (turn_before t)) \<and> in_turn ts (m(turn_of t \<mapsto> VDict (turn_after t)))"

fun agents_after :: "turn list \<Rightarrow> (string \<Rightarrow> pyval option) \<Rightarrow> string \<Rightarrow> pyval option" where
  "agents_after [] m = m"
| "agents_after (t # ts) m = agents_after ts (m(turn_of t \<mapsto> VDict (turn_after t)))"

subsection \<open>A turn carries the action out\<close>

lemma map_of_updates: "distinct (map fst kvs) \<Longrightarrow>
    map_of (updates kvs d) k = (case map_of kvs k of Some v \<Rightarrow> Some v | None \<Rightarrow> map_of d k)"
proof (induction kvs arbitrary: d)
  case (Cons kv kvs)
  then have "map_of (updates (kv # kvs) d) k =
      (case map_of kvs k of Some v \<Rightarrow> Some v | None \<Rightarrow> map_of (AList.update (fst kv) (snd kv) d) k)"
    by (simp add: updates_def split_beta)
  moreover have "k = fst kv \<Longrightarrow> map_of kvs k = None" using Cons.prems by (simp add: map_of_eq_None_iff)
  ultimately show ?case by (cases kv) (simp add: update_conv' split: option.split)
qed (simp add: updates_def)

lemma find_first: "find P xs = (case filter P xs of [] \<Rightarrow> None | x # _ \<Rightarrow> Some x)"
  by (induction xs) auto

lemma obj_get_text: "obj_get extra k VNone = Inr v \<Longrightarrow> field_get extra k = v"
  by (cases extra) (auto simp: obj_get_def field_get_def get_or_def dict_get_def split: option.splits)

lemma updates_Nil [simp]: "updates [] a = a"
  by (simp add: updates_def)

lemma move_to_site_promised:
  assumes "move_to_site s extra a = Inr a'"
  shows "a' = updates (site_members s extra) a"
proof -
  obtain v where v: "obj_get extra ''targetSiteId'' VNone = Inr v" using assms by (auto simp: move_to_site_def split: sum.splits)
  note f = obj_get_text [OF v]
  show ?thesis
  proof (cases "\<exists>i. v = VStr i \<and> i \<noteq> []")
    case True
    then obtain i where i: "v = VStr i" "i \<noteq> []" by blast
    show ?thesis
    proof (cases "repo_find s ''sites'' i")
      case None
      then show ?thesis using assms v i f by (simp add: move_to_site_def site_members_def find_by_value_def)
    next
      case (Some site)
      let ?gs = "map fields_of (get_by_site s i)"
      show ?thesis
      proof (cases "filter (\<lambda>g. truthy (dict_get g ''isDefault'')) ?gs")
        case Nil
        then show ?thesis using assms v i f Some
          by (cases ?gs) (simp_all add: move_to_site_def site_members_def find_by_value_def Let_def find_first)
      next
        case (Cons g gs)
        then show ?thesis using assms v i f Some
          by (simp add: move_to_site_def site_members_def find_by_value_def Let_def find_first)
      qed
    qed
  next
    case False
    then have "site_members s extra = []" using f by (auto simp: site_members_def split: pyval.splits)
    moreover have "a' = a" using assms v False
      by (cases v) (auto simp: move_to_site_def find_by_value_def split: if_splits)
    ultimately show ?thesis by simp
  qed
qed

lemma move_to_group_promised:
  assumes "move_to_group s extra a = Inr a'"
  shows "a' = updates (group_members s extra) a"
proof -
  obtain v where v: "obj_get extra ''targetGroupId'' VNone = Inr v" using assms by (auto simp: move_to_group_def split: sum.splits)
  note f = obj_get_text [OF v]
  show ?thesis
  proof (cases "\<exists>i. v = VStr i \<and> i \<noteq> []")
    case True
    then show ?thesis using assms v f
      by (cases "repo_find s ''groups'' (THE i. v = VStr i)") (auto simp: move_to_group_def group_members_def find_by_value_def)
  next
    case False
    then have "group_members s extra = []" using f by (auto simp: group_members_def split: pyval.splits)
    moreover have "a' = a" using assms v False
      by (cases v) (auto simp: move_to_group_def find_by_value_def split: if_splits)
    ultimately show ?thesis by simp
  qed
qed

lemma members_distinct:
  "distinct (map fst (site_members s extra))" "distinct (map fst (group_members s extra))"
  "map_of (plain_members env n) action = Some kvs \<Longrightarrow> distinct (map fst kvs)"
  by (auto simp: site_members_def group_members_def plain_members_def Let_def split: pyval.splits option.splits list.splits if_splits)

lemma get_keys_of_made:
  "field_get (assigned_tag env i k v actor) ''key'' = k" "field_get (assigned_tag env i k v actor) ''id'' = i"
  by (simp_all add: assigned_tag_def field_get_def dict_get_def)

lemma list_ex_map: "list_ex P (map f xs) \<longleftrightarrow> list_ex (\<lambda>x. P (f x)) xs"
  by (induction xs) auto

lemma tag_operation_ids:
  assumes "tag_operation env s actor cur operation = Inr cur'"
  shows "map (\<lambda>t. field_get t ''id'') cur' = ids_after s operation (map (\<lambda>t. field_get t ''id'') cur)"
proof -
  obtain v found where v: "obj_get operation ''tagId'' (VStr []) = Inr v" "find_by_value s ''tags'' v = Inr found"
    using assms by (auto simp: tag_operation_def split: sum.splits)
  have g: "get_or (fields_of operation) ''tagId'' (VStr []) = v"
    using v(1) by (cases operation) (auto simp: obj_get_def fields_of_def)
  have d: "(case v of VStr i \<Rightarrow> repo_find s ''tags'' i | _ \<Rightarrow> None) = found"
    using v(2) by (auto simp: find_by_value_def split: pyval.splits)
  show ?thesis
    using assms unfolding tag_operation_def ids_after_def g d Let_def
    by (cases found) (auto simp: v filter_map comp_def get_keys_of_made list_ex_map split: if_splits)
qed

lemma tag_operations_ids:
  "foldE (tag_operation env s actor) ops cur = Inr cur' \<Longrightarrow>
     map (\<lambda>t. field_get t ''id'') cur' = fold (ids_after s) ops (map (\<lambda>t. field_get t ''id'') cur)"
proof (induction ops arbitrary: cur)
  case (Cons p ops)
  then obtain c where "tag_operation env s actor cur p = Inr c" "foldE (tag_operation env s actor) ops c = Inr cur'"
    by (auto split: sum.splits)
  then show ?case using Cons.IH tag_operation_ids by fastforce
qed simp

lemma tag_keys_keys:
  assumes "tag_keys env n s actor cur extra = Inr cur'"
  shows "map (\<lambda>t. field_get t ''key'') cur' = keys_after extra (map (\<lambda>t. field_get t ''key'') cur)"
proof -
  obtain d where d: "extra = VDict d" using assms by (cases extra) (auto simp: tag_keys_def obj_get_def)
  obtain adds removes where l: "py_list (get_or d ''tagsToAdd'' (VList [])) = Some adds"
    "py_list (get_or d ''tagsToRemove'' (VList [])) = Some removes"
    using assms by (auto simp: d tag_keys_def obj_get_def split: option.splits)
  have made: "field_get (case tag_by_key s k of
                              Some t \<Rightarrow> assigned_tag env (dict_get t ''id'') k (dict_get t ''value'') actor
                            | None \<Rightarrow> assigned_tag env (VStr (e_draw env n (''tag:'' @ py_str k))) k k actor) ''key'' = k" for k
    by (simp add: get_keys_of_made split: option.split)
  show ?thesis using assms l
    by (auto simp: d tag_keys_def obj_get_def keys_after_def Let_def fields_of_def filter_map comp_def made list_ex_map)
qed

lemma manage_tags_managed:
  assumes "manage_tags env n s actor extra a = Inr a'"
  shows "tags_managed s extra a a'" and "k \<noteq> ''tags'' \<Longrightarrow> map_of a' k = map_of a k"
proof -
  let ?f = "case extra of VList ops \<Rightarrow> foldE (tag_operation env s actor) ops (tag_list a) | _ \<Rightarrow> tag_keys env n s actor (tag_list a) extra"
  obtain cur where cur: "?f = Inr cur"
    "a' = AList.update ''tags'' (VDict (AList.update ''sentinelone'' (VList cur) (fields_of (dict_get a ''tags'')))) a"
    using assms unfolding manage_tags_def tag_list_def Let_def by (auto split: sum.splits)
  have t: "tag_list a' = cur" by (simp add: cur(2) tag_list_def fields_of_def)
  show "tags_managed s extra a a'"
    using cur(1) tag_operations_ids [of env s actor _ "tag_list a" cur] tag_keys_keys [of env n s actor "tag_list a" extra cur]
    unfolding tags_managed_def t by (auto simp: cur(2) fields_of_def update_conv' split: pyval.splits)
  show "map_of a' k = map_of a k" if "k \<noteq> ''tags''" using that by (simp add: cur(2) update_conv')
qed

lemma if_split_cases: "(if c then x else y) = z \<Longrightarrow> (c \<Longrightarrow> x = z \<Longrightarrow> P) \<Longrightarrow> (\<not> c \<Longrightarrow> y = z \<Longrightarrow> P) \<Longrightarrow> P"
  by (cases c) auto

lemma agent_after_promised:
  assumes "agent_after env n s action extra actor a = Inr a'" "map_of PENDING_FOR action = None" "action \<noteq> ''manage-tags''"
  shows "a' = updates (promised env n s action extra) a"
proof (cases "action = ''move-to-site'' \<or> action = ''move-to-group''")
  case True
  then show ?thesis
    using assms(1) move_to_site_promised [of s extra a a'] move_to_group_promised [of s extra a a']
    by (auto simp: agent_after_def promised_def plain_members_def Let_def)
next
  case False
  then have p: "promised env n s action extra = (case map_of (plain_members env n) action of Some kvs \<Rightarrow> kvs | None \<Rightarrow> [])"
    by (simp add: promised_def split: option.split)
  have "action \<noteq> ''connect''" "action \<noteq> ''disconnect''" using assms(2) by (auto simp: PENDING_FOR_def)
  then show ?thesis
    using assms(1,3) False unfolding agent_after_def p plain_members_def Let_def
    by (elim if_split_cases insertE emptyE) simp_all
qed

lemma changed_by_promised:
  assumes "changed_by env n action extra actor a w = Inr (a', w1)"
  shows "carried_out env (wdb w) action extra \<lparr>turn_at = n, turn_of = i, turn_before = a, turn_after = a'\<rparr>"
proof (cases "map_of PENDING_FOR action")
  case (Some state)
  then have n: "action \<in> {''connect'', ''disconnect''}" "state = (if action = ''connect'' then ''connecting'' else ''disconnecting'')"
    by (auto simp: PENDING_FOR_def split: if_splits)
  from n have "promised env n (wdb w) action extra = [(''networkStatus'', VStr state), (''updatedAt'', VStr (utc_now (e_now env)))]"
    by (elim insertE emptyE) (simp_all add: promised_def plain_members_def Let_def)
  moreover have "a' = AList.update ''updatedAt'' (VStr (utc_now (e_now env))) (AList.update ''networkStatus'' (VStr state) a)"
    using assms Some by (simp add: changed_by_def net_begin_def Let_def)
  ultimately show ?thesis using n(1) by (auto simp: carried_out_def update_conv')
next
  case None
  then have a': "agent_after env n (wdb w) action extra actor a = Inr a'"
    using assms by (auto simp: changed_by_def split: sum.splits)
  show ?thesis
  proof (cases "action = ''manage-tags''")
    case True
    then have "manage_tags env n (wdb w) actor extra a = Inr a'" using a' by (simp add: agent_after_def)
    note m = manage_tags_managed [OF this]
    have "promised env n (wdb w) action extra = []" using True by (simp add: promised_def plain_members_def Let_def)
    then show ?thesis using m True by (auto simp: carried_out_def)
  next
    case False
    have "distinct (map fst (promised env n (wdb w) action extra))"
      by (auto simp: promised_def members_distinct split: option.split simp del: distinct_map)
    then show ?thesis
      using False agent_after_promised [OF a' None False] by (auto simp: carried_out_def map_of_updates split: option.split)
  qed
qed

subsection \<open>What the turns leave alone\<close>

definition unmoved :: "db \<Rightarrow> db \<Rightarrow> bool" where
  "unmoved s s' \<longleftrightarrow> (\<forall>c. c \<notin> {''agents'', ''agent_network_requests'', ''activities''} \<longrightarrow> coll s' c = coll s c)"

definition same_log :: "db \<Rightarrow> db \<Rightarrow> bool" where
  "same_log s s' \<longleftrightarrow> coll s' ''activities'' = coll s ''activities'' \<and> activity_order s' = activity_order s"

lemma save_leaves:
  "c \<in> {''agents'', ''agent_network_requests''} \<Longrightarrow> unmoved s (repo_save_raw s c i r) \<and> same_log s (repo_save_raw s c i r)"
  by (auto simp: unmoved_def same_log_def repo_save_raw_def store_save_def coll_def put_coll_def notify_def update_conv'
      split: sum.splits)

lemma append_leaves: "unmoved s (activity_append r s)"
  by (auto simp: unmoved_def activity_append_def append_activity_def coll_def put_coll_def notify_def update_conv' Let_def
      split: sum.splits)

lemma leaves_trans: "unmoved s s' \<Longrightarrow> unmoved s' s'' \<Longrightarrow> unmoved s s''" "same_log s s' \<Longrightarrow> same_log s' s'' \<Longrightarrow> same_log s s''"
  by (simp_all add: unmoved_def same_log_def)

lemma carried_out_unmoved:
  assumes "unmoved s s'"
  shows "carried_out env s' action extra t \<longleftrightarrow> carried_out env s action extra t"
proof -
  have c: "coll s' ''sites'' = coll s ''sites''" "coll s' ''groups'' = coll s ''groups''" "coll s' ''tags'' = coll s ''tags''"
    using assms by (simp_all add: unmoved_def)
  have f: "repo_find s' ''sites'' = repo_find s ''sites''" "repo_find s' ''groups'' = repo_find s ''groups''"
    "repo_find s' ''tags'' = repo_find s ''tags''"
    by (intro ext, simp add: repo_find_def repo_get_def store_get_def c)+
  have g: "get_by_site s' = get_by_site s"
    by (intro ext) (simp add: get_by_site_def repo_list_all_def store_get_all_def c)
  have ia: "ids_after s' = ids_after s" unfolding ids_after_def f ..
  have p: "promised env n s' action extra = promised env n s action extra" for n
    unfolding promised_def site_members_def group_members_def f g ..
  show ?thesis unfolding carried_out_def tags_managed_def p ia ..
qed

text \<open>The drawn ids of the activities are new to the log and to each other.\<close>

definition log_ready :: "env \<Rightarrow> nat list \<Rightarrow> db \<Rightarrow> bool" where
  "log_ready env ns s \<longleftrightarrow> activity_log_ok s \<and> distinct (map (\<lambda>n. e_draw env n ''activity'') ns) \<and>
     (\<forall>n \<in> set ns. e_draw env n ''activity'' \<notin> set (activity_order s))"

lemma log_ready_tl: "log_ready env (n # ns) s \<Longrightarrow> log_ready env ns s"
  by (simp add: log_ready_def)

lemma log_ready_append:
  assumes "log_ready env (turn_at t # ns) s" "same_log s s2"
  shows "activity_list_all (activity_append (turn_activity env action actor t) s2) =
      take activity_cap (VDict (turn_activity env action actor t) # activity_list_all s)"
    and "log_ready env ns (activity_append (turn_activity env action actor t) s2)"
proof -
  let ?i = "e_draw env (turn_at t) ''activity''" and ?a = "turn_activity env action actor t"
  have i: "py_str (dict_get ?a ''id'') = ?i" by (simp add: turn_activity_def Activity_def dict_get_def)
  have ok: "activity_log_ok s2" "?i \<notin> set (activity_order s2)" "list_activities s2 = list_activities s"
    using assms by (auto simp: log_ready_def activity_log_ok_def same_log_def list_activities_def)
  obtain rs where rs: "list_activities s2 = Inr rs"
    using ok(1) by (auto simp: activity_log_ok_def list_activities_def)
  from activity_log.append_law [OF ok(1) rs ok(2), of "VDict ?a"] obtain s3 where s3:
    "append_activity s2 ?i (VDict ?a) = Inr s3" "activity_log_ok s3" "list_activities s3 = Inr (take activity_cap (VDict ?a # rs))"
    "set (activity_order s3) \<subseteq> insert ?i (set (activity_order s2))" by blast
  have a: "activity_append ?a s2 = s3" using s3(1) by (simp add: activity_append_def i)
  show "activity_list_all (activity_append ?a s2) = take activity_cap (VDict ?a # activity_list_all s)"
    using s3(3) rs ok(3) by (simp add: a activity_list_all_def)
  show "log_ready env ns (activity_append ?a s2)"
  proof -
    have "e_draw env n ''activity'' \<notin> set (activity_order s3)" if n: "n \<in> set ns" for n
    proof
      assume "e_draw env n ''activity'' \<in> set (activity_order s3)"
      then have "e_draw env n ''activity'' = ?i \<or> e_draw env n ''activity'' \<in> set (activity_order s)"
        using s3(4) assms(2) by (auto simp: same_log_def)
      then show False using assms(1) n by (auto simp: log_ready_def image_iff dest: bspec)
    qed
    then show ?thesis using assms(1) s3(2) by (simp add: a log_ready_def)
  qed
qed

lemma act_on_effect:
  assumes "store_inv (wdb w)" "repo_get (wdb w) ''agents'' i = Some (VDict a)" "map_of a ''id'' = Some (VStr i)"
    and "act_on env n action extra actor i a w = Inr w'"
  obtains a' t s where "t = \<lparr>turn_at = n, turn_of = i, turn_before = a, turn_after = a'\<rparr>"
    "map_of a' ''id'' = Some (VStr i)" "store_inv (wdb w')" "carried_out env (wdb w) action extra t"
    "\<And>c j. c \<notin> {''agent_network_requests'', ''activities''} \<Longrightarrow>
       repo_get (wdb w') c j = (if c = ''agents'' \<and> j = i then Some (VDict a') else repo_get (wdb w) c j)"
    "published w' = published w @ turn_events env action actor t" "unmoved (wdb w) (wdb w')"
    "wdb w' = activity_append (turn_activity env action actor t) s" "same_log (wdb w) s"
    "action \<noteq> ''disconnect'' \<longrightarrow> queued w' = queued w"
proof -
  obtain a' w1 where turn: "changed_by env n action extra actor a w = Inr (a', w1)"
    using assms(4) by (auto simp: act_on_def split: sum.splits)
  define t where "t = \<lparr>turn_at = n, turn_of = i, turn_before = a, turn_after = a'\<rparr>"
  note c = changed_by_effect [OF assms(1,3) turn]
  have w1: "map_of a' ''id'' = Some (VStr i)" "store_inv (wdb w1)" "published w1 = published w" "queued w1 = queued w"
    "\<And>c j. c \<noteq> ''agent_network_requests'' \<Longrightarrow> repo_get (wdb w1) c j = repo_get (wdb w) c j"
    using c by auto
  have w1_leaves: "unmoved (wdb w) (wdb w1) \<and> same_log (wdb w) (wdb w1)"
    using turn save_leaves [of "''agent_network_requests''" "wdb w"]
    by (auto simp: changed_by_def net_begin_def Let_def unmoved_def same_log_def split: option.splits sum.splits)
  define w2 where "w2 = agent_changed (e_clock env) a' None (on_db (\<lambda>s. repo_save s ''agents'' a') w1)"
  define ac where "ac = activity_create (e_draw env n ''activity'') (e_now env) (e_clock env)
                 (if action = ''disconnect'' then 52 else 53) (''Agent action '' @ [CHR 0x27] @ action @ [CHR 0x27] @ '' executed'')
                 (VStr i) VNone actor (dict_get a' ''siteId'') w2"
  have w': "w' = (if action = ''disconnect'' then fire_event ''agent.offline'' a' (snd ac) else snd ac)"
    using assms(4) by (simp add: act_on_def turn Let_def w2_def ac_def split_beta split: if_split_asm)
  note name = keyed_name [OF w1(1)]
  have w2: "published w2 = published w @ [event_of AgentUpdated i a' (e_clock env)]" "queued w2 = queued w" "store_inv (wdb w2)"
    "wdb w2 = repo_save_raw (wdb w1) ''agents'' i (VDict a')"
    using w1(2-4) name by (simp_all add: w2_def agent_changed_def repo_save_def)
  have stored: "repo_get (wdb w1) ''agents'' i \<noteq> None" using w1(5) [of "''agents''" i] assms(2) by simp
  have get: "repo_get (wdb w2) c j = (if c = ''agents'' \<and> j = i then Some (VDict a') else repo_get (wdb w) c j)"
    if "c \<noteq> ''agent_network_requests''" for c j
    using w1(5) [OF that, of j] repo_update [OF stored] by (simp add: w2(4))
  have act: "fst ac = turn_activity env action actor t"
    by (simp add: ac_def activity_create_def turn_activity_def t_def Let_def)
  have s: "wdb w' = activity_append (turn_activity env action actor t) (wdb w2)"
    "published w' = published w2 @ [event_of ActivityCreated (e_draw env n ''activity'') (turn_activity env action actor t) (e_clock env)]"
    "action \<noteq> ''disconnect'' \<longrightarrow> queued w' = queued w2"
    unfolding act [symmetric] by (simp_all add: w' ac_def)
  have leaves: "unmoved (wdb w) (wdb w2)" "same_log (wdb w) (wdb w2)"
    using w1_leaves save_leaves [of "''agents''" "wdb w1"] leaves_trans by (auto simp: w2(4))
  show thesis
  proof (rule that [OF t_def w1(1)])
    show "store_inv (wdb w')" using w2(3) by (simp add: s(1))
    show "carried_out env (wdb w) action extra t" unfolding t_def by (rule changed_by_promised [OF turn])
    show "repo_get (wdb w') c j = (if c = ''agents'' \<and> j = i then Some (VDict a') else repo_get (wdb w) c j)"
      if "c \<notin> {''agent_network_requests'', ''activities''}" for c j
      using that get [of c j] by (simp add: s(1) activity_append_other)
    show "published w' = published w @ turn_events env action actor t" by (simp add: s(2) w2(1) turn_events_def t_def)
    show "unmoved (wdb w) (wdb w')" unfolding s(1) by (rule leaves_trans(1) [OF leaves(1) append_leaves])
    show "action \<noteq> ''disconnect'' \<longrightarrow> queued w' = queued w" using s(3) w2(2) by simp
  qed (fact s(1) leaves(2))+
qed

text \<open>The agents of a list of ids that exist.\<close>

definition existing :: "db \<Rightarrow> pyval list \<Rightarrow> string list" where
  "existing s vs = [i. VStr i \<leftarrow> vs, repo_get s ''agents'' i \<noteq> None]"

lemma existing_cong: "(\<And>i. (repo_get s ''agents'' i = None) = (repo_get s' ''agents'' i = None)) \<Longrightarrow> existing s vs = existing s' vs"
  by (simp add: existing_def cong: list.map_cong pyval.case_cong)

definition told :: "domain_event list \<Rightarrow> string list" where
  "told es = map entity_id (filter (\<lambda>e. event_type e = event_type AgentUpdated) es)"

lemma told_append [simp]: "told (xs @ ys) = told xs @ told ys"
  by (simp add: told_def)

lemma told_turns: "told (concat (map (turn_events env action actor) ts)) = map turn_of ts"
  by (induction ts) (simp_all add: turn_events_def told_def AgentUpdated_def ActivityCreated_def)

lemma length_turns: "length (concat (map (turn_events env action actor) ts)) = 2 * length ts"
  by (induction ts) (simp_all add: turn_events_def)

lemma agents_after_other: "j \<notin> set (map turn_of ts) \<Longrightarrow> agents_after ts m j = m j"
  by (induction ts arbitrary: m) auto

text \<open>A run of the loop from place \<open>n\<close> on is a run of turns.\<close>

definition runs ::
  "env \<Rightarrow> string \<Rightarrow> pyval \<Rightarrow> pyval \<Rightarrow> nat \<Rightarrow> pyval list \<Rightarrow> world \<Rightarrow> turn list \<Rightarrow> world \<Rightarrow> bool" where
  "runs env action extra actor n vs w ts w' \<longleftrightarrow>
     map turn_of ts = existing (wdb w) vs \<and> sorted_wrt (<) (map turn_at ts) \<and>
     (\<forall>t \<in> set ts. n \<le> turn_at t \<and> turn_at t < n + length vs \<and> vs ! (turn_at t - n) = VStr (turn_of t) \<and>
        carried_out env (wdb w) action extra t) \<and>
     in_turn ts (repo_get (wdb w) ''agents'') \<and>
     repo_get (wdb w') ''agents'' = agents_after ts (repo_get (wdb w) ''agents'') \<and>
     published w' = published w @ concat (map (turn_events env action actor) ts) \<and>
     (log_ready env [n..<n + length vs] (wdb w) \<longrightarrow>
        activity_list_all (wdb w') =
          take activity_cap (rev (map (\<lambda>t. VDict (turn_activity env action actor t)) ts) @ activity_list_all (wdb w)))"

lemma runs_skip:
  assumes "runs env action extra actor (Suc n) vs w ts w'" "existing (wdb w) (v # vs) = existing (wdb w) vs"
  shows "runs env action extra actor n (v # vs) w ts w'"
proof -
  have "[n..<n + length (v # vs)] = n # [Suc n..<Suc n + length vs]" using upt_conv_Cons [of n "n + length (v # vs)"] by simp
  moreover have "n \<le> turn_at t \<and> turn_at t < n + length (v # vs) \<and> (v # vs) ! (turn_at t - n) = VStr (turn_of t)"
    if "t \<in> set ts" for t
  proof -
    have t: "Suc n \<le> turn_at t" "turn_at t < Suc n + length vs" "vs ! (turn_at t - Suc n) = VStr (turn_of t)"
      using assms(1) that by (auto simp: runs_def)
    then have "turn_at t - n = Suc (turn_at t - Suc n)" by simp
    then show ?thesis using t by simp
  qed
  ultimately show ?thesis using assms log_ready_tl unfolding runs_def by (metis (no_types, lifting))
qed

lemma runs_turn:
  assumes "runs env action extra actor (Suc n) vs w1 ts w'"
    and t: "t = \<lparr>turn_at = n, turn_of = i, turn_before = a, turn_after = a'\<rparr>" "carried_out env (wdb w) action extra t"
    and i: "repo_get (wdb w) ''agents'' i = Some (VDict a)"
    and get: "\<And>j. repo_get (wdb w1) ''agents'' j = (if j = i then Some (VDict a') else repo_get (wdb w) ''agents'' j)"
    and pub: "published w1 = published w @ turn_events env action actor t" and un: "unmoved (wdb w) (wdb w1)"
    and log: "wdb w1 = activity_append (turn_activity env action actor t) s" "same_log (wdb w) s"
  shows "runs env action extra actor n (VStr i # vs) w (t # ts) w'"
proof -
  note r = assms(1) [unfolded runs_def]
  have m: "repo_get (wdb w1) ''agents'' = (repo_get (wdb w) ''agents'')(i \<mapsto> VDict a')" using get by auto
  have "existing (wdb w1) vs = existing (wdb w) vs" by (rule existing_cong) (auto simp: get i)
  then have e: "map turn_of (t # ts) = existing (wdb w) (VStr i # vs)" using r i by (simp add: existing_def t(1))
  have at: "n \<le> turn_at x \<and> turn_at x < n + length (VStr i # vs) \<and> (VStr i # vs) ! (turn_at x - n) = VStr (turn_of x) \<and>
      carried_out env (wdb w) action extra x" if x: "x \<in> set (t # ts)" for x
  proof (cases "x \<in> set ts")
    case True
    then have "Suc n \<le> turn_at x" "turn_at x < Suc n + length vs" "vs ! (turn_at x - Suc n) = VStr (turn_of x)"
      "carried_out env (wdb w1) action extra x" using r by auto
    moreover from this have "turn_at x - n = Suc (turn_at x - Suc n)" by simp
    ultimately show ?thesis using carried_out_unmoved [OF un] by simp
  next
    case False
    then show ?thesis using x t by simp
  qed
  have sorted: "sorted_wrt (<) (map turn_at (t # ts))"
    using r unfolding t(1) by (auto simp: Suc_le_eq)
  have log': "activity_list_all (wdb w') =
      take activity_cap (rev (map (\<lambda>t. VDict (turn_activity env action actor t)) (t # ts)) @ activity_list_all (wdb w))"
    if ready: "log_ready env [n..<n + length (VStr i # vs)] (wdb w)"
  proof -
    have "[n..<n + length (VStr i # vs)] = turn_at t # [Suc n..<Suc n + length vs]"
      using upt_conv_Cons [of n "n + length (VStr i # vs)"] by (simp add: t(1))
    with ready have "log_ready env (turn_at t # [Suc n..<Suc n + length vs]) (wdb w)" by simp
    note step = log_ready_append [OF this log(2), of action actor, folded log(1)]
    have "activity_list_all (wdb w') =
        take activity_cap (rev (map (\<lambda>t. VDict (turn_activity env action actor t)) ts) @ activity_list_all (wdb w1))"
      using r step(2) by simp
    then show ?thesis by (simp add: step(1) take_take_append)
  qed
  have "in_turn (t # ts) (repo_get (wdb w) ''agents'')" "repo_get (wdb w') ''agents'' = agents_after (t # ts) (repo_get (wdb w) ''agents'')"
    "published w' = published w @ concat (map (turn_events env action actor) (t # ts))"
    using r i pub by (simp_all add: m t(1))
  then show ?thesis using e sorted at log' unfolding runs_def by blast
qed

lemma act_on_all_effect:
  assumes "store_inv (wdb w)" "agents_keyed (wdb w)" "act_on_all env action extra actor n vs w = (Inr k, w')"
  shows "agents_keyed (wdb w') \<and> k = length (existing (wdb w) vs) \<and>
    (\<forall>c j. c \<notin> {''agents'', ''agent_network_requests'', ''activities''} \<longrightarrow> repo_get (wdb w') c j = repo_get (wdb w) c j) \<and>
    (\<forall>j. (repo_get (wdb w') ''agents'' j = None) = (repo_get (wdb w) ''agents'' j = None)) \<and>
    (action \<noteq> ''disconnect'' \<longrightarrow> queued w' = queued w) \<and> (\<exists>ts. runs env action extra actor n vs w ts w')"
  using assms
proof (induction vs arbitrary: n k w)
  case Nil
  have "length (activity_list_all (wdb w)) \<le> activity_cap" if "activity_log_ok (wdb w)"
    using activity_log.listing_cap [OF that] by (auto simp: activity_list_all_def split: sum.splits)
  then have "runs env action extra actor n [] w [] w'"
    using Nil by (auto simp: runs_def existing_def log_ready_def)
  then show ?case using Nil by (auto simp: existing_def)
next
  case (Cons v vs)
  show ?case
  proof (cases "\<exists>i. v = VStr i \<and> repo_get (wdb w) ''agents'' i \<noteq> None")
    case False
    then have "find_by_value (wdb w) ''agents'' v = Inr None \<or> (\<exists>e. find_by_value (wdb w) ''agents'' v = Inl e)"
      by (auto simp: find_by_value_def repo_find_def split: pyval.splits)
    then have rest: "act_on_all env action extra actor (Suc n) vs w = (Inr k, w')" using Cons.prems(3) by auto
    from False have ex: "existing (wdb w) (v # vs) = existing (wdb w) vs"
      by (auto simp: existing_def split: pyval.splits)
    note ih = Cons.IH [OF Cons.prems(1,2) rest]
    then obtain ts where "runs env action extra actor (Suc n) vs w ts w'" by (elim conjE exE)
    from runs_skip [OF this ex] have "\<exists>ts. runs env action extra actor n (v # vs) w ts w'" by (rule exI)
    with ih show ?thesis unfolding ex by - (elim conjE, intro conjI, assumption+)
  next
    case True
    then obtain i a where i: "v = VStr i" "repo_get (wdb w) ''agents'' i = Some (VDict a)" "map_of a ''id'' = Some (VStr i)"
      using Cons.prems(2) unfolding agents_keyed_def by blast
    have f: "find_by_value (wdb w) ''agents'' v = Inr (Some a)" "py_str v = i"
      using i by (simp_all add: find_by_value_def repo_find_def fields_of_def)
    obtain w1 k1 where step: "act_on env n action extra actor i a w = Inr w1" "k = Suc k1"
      "act_on_all env action extra actor (Suc n) vs w1 = (Inr k1, w')"
      using Cons.prems(3) f by (auto split: sum.splits prod.splits)
    obtain a' t s where e:
      "t = \<lparr>turn_at = n, turn_of = i, turn_before = a, turn_after = a'\<rparr>"
      "map_of a' ''id'' = Some (VStr i)" "store_inv (wdb w1)" "carried_out env (wdb w) action extra t"
      "\<And>c j. c \<notin> {''agent_network_requests'', ''activities''} \<Longrightarrow>
         repo_get (wdb w1) c j = (if c = ''agents'' \<and> j = i then Some (VDict a') else repo_get (wdb w) c j)"
      "published w1 = published w @ turn_events env action actor t" "unmoved (wdb w) (wdb w1)"
      "wdb w1 = activity_append (turn_activity env action actor t) s" "same_log (wdb w) s"
      "action \<noteq> ''disconnect'' \<longrightarrow> queued w1 = queued w"
      by (rule act_on_effect [OF Cons.prems(1) i(2,3) step(1)]) (rule that)
    have get: "repo_get (wdb w1) ''agents'' j = (if j = i then Some (VDict a') else repo_get (wdb w) ''agents'' j)" for j
      using e(5) [of "''agents''" j] by simp
    have "agents_keyed (wdb w1)"
      using Cons.prems(2) e(2) by (simp add: agents_keyed_def get)
    note ih = Cons.IH [OF e(3) this step(3)]
    then obtain ts where "runs env action extra actor (Suc n) vs w1 ts w'" by blast
    then have r: "runs env action extra actor n (v # vs) w (t # ts) w'"
      unfolding i(1) using e(1,4) i(2) get e(6,7,8,9) by (rule runs_turn)
    have "existing (wdb w1) vs = existing (wdb w) vs" by (rule existing_cong) (auto simp: get i(2))
    moreover have "existing (wdb w) (v # vs) = i # existing (wdb w) vs" using i(1,2) by (simp add: existing_def)
    ultimately have c1: "k = length (existing (wdb w) (v # vs))" using ih step(2) by simp
    have c3: "repo_get (wdb w') c j = repo_get (wdb w) c j"
      if c: "c \<notin> {''agents'', ''agent_network_requests'', ''activities''}" for c j
    proof -
      have "repo_get (wdb w') c j = repo_get (wdb w1) c j" using ih c by blast
      then show ?thesis using e(5) [of c j] c by simp
    qed
    have c4: "(repo_get (wdb w') ''agents'' j = None) = (repo_get (wdb w) ''agents'' j = None)" for j
    proof -
      have "(repo_get (wdb w') ''agents'' j = None) = (repo_get (wdb w1) ''agents'' j = None)" using ih by blast
      then show ?thesis using get [of j] i(2) by simp
    qed
    have c5: "agents_keyed (wdb w')" "action \<noteq> ''disconnect'' \<longrightarrow> queued w' = queued w" using ih e(10) by simp_all
    show ?thesis by (intro conjI allI impI c1 c3 c4 c5(1) c5(2) [rule_format] exI [of _ "t # ts"] r)
  qed
qed

text \<open>
  C16. An action reaches exactly the agents it names, and does to each what it promises. When it answers, the answer counts the
  named agents that exist (each time they are named), and its run is one turn for each of these in the order named. A turn
  finds the agent as the turns before left it and writes the members the action promises, no other; the bus then hears of
  the agent's new record and of one activity for it (type 52 for a disconnect, else 53, naming the action, the agent, its
  site and the caller), and the activities of the run stand at the head of the log, newest first, up to its bound. The agents
  end as the last turns left them; every other agent and every other collection but the transitions in flight is untouched, no agent
  appears or disappears, and no webhook is fired unless the action is a disconnect.
\<close>

theorem action_reaches_named:
  assumes "store_inv (wdb w)" "agents_keyed (wdb w)" "resolve_ids validate (wdb w) body = Inr vs"
    and "execute_action validate env action body actor w = (Inr answer, w')"
    and "extra = (if truthy (dict_get body ''data'') then dict_get body ''data'' else VDict [])"
  shows "answer = VDict [(''data'', VDict [(''affected'', VInt (int (length (existing (wdb w) vs))))])] \<and>
    (\<forall>c j. c \<notin> {''agent_network_requests'', ''activities''} \<and> \<not> (c = ''agents'' \<and> j \<in> set (existing (wdb w) vs)) \<longrightarrow>
       repo_get (wdb w') c j = repo_get (wdb w) c j) \<and>
    (\<forall>j. (repo_get (wdb w') ''agents'' j = None) = (repo_get (wdb w) ''agents'' j = None)) \<and>
    told (published w') = told (published w) @ existing (wdb w) vs \<and>
    length (published w') = length (published w) + 2 * length (existing (wdb w) vs) \<and>
    (action \<noteq> ''disconnect'' \<longrightarrow> queued w' = queued w) \<and> agents_keyed (wdb w') \<and>
    (\<exists>ts. map turn_of ts = existing (wdb w) vs \<and> sorted_wrt (<) (map turn_at ts) \<and>
       (\<forall>t \<in> set ts. turn_at t < length vs \<and> vs ! turn_at t = VStr (turn_of t) \<and> carried_out env (wdb w) action extra t) \<and>
       in_turn ts (repo_get (wdb w) ''agents'') \<and>
       repo_get (wdb w') ''agents'' = agents_after ts (repo_get (wdb w) ''agents'') \<and>
       published w' = published w @ concat (map (turn_events env action actor) ts) \<and>
       (log_ready env [0..<length vs] (wdb w) \<longrightarrow>
          activity_list_all (wdb w') =
            take activity_cap (rev (map (\<lambda>t. VDict (turn_activity env action actor t)) ts) @ activity_list_all (wdb w))))"
proof -
  obtain k where run: "act_on_all env action extra actor 0 vs w = (Inr k, w')"
    "answer = VDict [(''data'', VDict [(''affected'', VInt (int k))])]"
    using assms(3-5) by (auto simp: execute_action_def split: if_split_asm prod.splits sum.splits)
  note e = act_on_all_effect [OF assms(1,2) run(1)]
  then obtain ts where "runs env action extra actor 0 vs w ts w'" by blast
  note r = this [unfolded runs_def]
  have of: "existing (wdb w) vs = map turn_of ts" using r by simp
  have "told (published w') = told (published w) @ existing (wdb w) vs"
    "length (published w') = length (published w) + 2 * length (existing (wdb w) vs)"
    using r unfolding of by (simp_all add: told_turns length_turns)
  moreover have "repo_get (wdb w') c j = repo_get (wdb w) c j"
    if "c \<notin> {''agent_network_requests'', ''activities''}" "\<not> (c = ''agents'' \<and> j \<in> set (existing (wdb w) vs))" for c j
    using e r that agents_after_other [of j ts] by (cases "c = ''agents''") auto
  ultimately show ?thesis using e r run(2) by (intro conjI exI [of _ ts]) auto
qed

section \<open>The life of a transition\<close>

lemma request_stored:
  assumes "store_inv (wdb w)" "map_of PENDING_FOR action = Some p" "repo_get (wdb w) ''agents'' i = Some (VDict a)"
    and "map_of a ''id'' = Some (VStr i)" "act_on env n action extra actor i a w = Inr w'"
  shows "\<exists>a1. map_of a1 ''id'' = Some (VStr i) \<and> dict_get a1 ''networkStatus'' = VStr p \<and>
    dict_get a1 ''updatedAt'' = VStr (utc_now (e_now env)) \<and> store_inv (wdb w') \<and>
    repo_get (wdb w') ''agents'' i = Some (VDict a1) \<and>
    repo_get (wdb w') ''agent_network_requests'' i =
      Some (VDict [(''requested_at'', VFloat (e_clock_repr env)), (''stamp'', VStr (utc_now (e_now env)))])"
proof -
  define a1 where "a1 = AList.update ''updatedAt'' (VStr (utc_now (e_now env))) (AList.update ''networkStatus'' (VStr p) a)"
  define s1 where "s1 = repo_save_raw (wdb w) ''agent_network_requests'' i
      (VDict [(''requested_at'', VFloat (e_clock_repr env)), (''stamp'', VStr (utc_now (e_now env)))])"
  have id: "map_of a1 ''id'' = Some (VStr i)" using assms(4) by (simp add: a1_def update_conv')
  note name = keyed_name [OF id]
  have "changed_by env n action extra actor a w = Inr (a1, w\<lparr>wdb := s1\<rparr>)"
    using assms(2) name by (simp add: changed_by_def net_begin_def Let_def a1_def s1_def)
  then have "wdb w' = activity_append (fst (activity_create (e_draw env n ''activity'') (e_now env) (e_clock env)
        (if action = ''disconnect'' then 52 else 53) (''Agent action '' @ [CHR 0x27] @ action @ [CHR 0x27] @ '' executed'')
        (VStr i) VNone actor (dict_get a1 ''siteId'') (agent_changed (e_clock env) a1 None
           (on_db (\<lambda>s. repo_save s ''agents'' a1) (w\<lparr>wdb := s1\<rparr>))))) (repo_save_raw s1 ''agents'' i (VDict a1))"
    using assms(5) name by (auto simp: act_on_def Let_def split_beta repo_save_def)
  then obtain activity where w': "wdb w' = activity_append activity (repo_save_raw s1 ''agents'' i (VDict a1))" by blast
  have s1: "store_inv s1" "repo_get s1 ''agents'' i \<noteq> None" using assms(1,3) by (simp_all add: s1_def repo_save_other)
  have "repo_get s1 ''agent_network_requests'' i =
      Some (VDict [(''requested_at'', VFloat (e_clock_repr env)), (''stamp'', VStr (utc_now (e_now env)))])"
    using assms(1) by (simp add: s1_def repo_save_same)
  then show ?thesis
    using s1 id by (intro exI [of _ a1]) (simp add: w' activity_append_other repo_update, simp add: a1_def)
qed

lemma settled_request:
  assumes "store_inv (wdb w)" "repo_get (wdb w) ''agents'' i = Some (VDict a1)" "map_of a1 ''id'' = Some (VStr i)"
    and "dict_get a1 ''networkStatus'' = VStr p" "map_of NET_SETTLES_INTO p = Some final" "dict_get a1 ''updatedAt'' = VStr stamp"
    and "repo_get (wdb w) ''agent_network_requests'' i = Some (VDict [(''requested_at'', VFloat t), (''stamp'', VStr stamp)])"
    and "float_of_str t = Some (Fin r)"
  shows "if clock - r \<le> 1 then net_settled clock a1 w = Inr (a1, w)
    else \<exists>w'. net_settled clock a1 w = Inr (AList.update ''networkStatus'' (VStr final) a1, w') \<and> store_inv (wdb w') \<and>
      repo_get (wdb w') ''agents'' i = Some (VDict (AList.update ''networkStatus'' (VStr final) a1)) \<and>
      repo_get (wdb w') ''agent_network_requests'' i = None \<and>
      published w' = published w @ [event_of AgentUpdated i (AList.update ''networkStatus'' (VStr final) a1) (r + 1)]"
proof -
  define a2 where "a2 = AList.update ''networkStatus'' (VStr final) a1"
  define pending where "pending = [(''requested_at'', VFloat t), (''stamp'', VStr stamp)]"
  note name = keyed_name [OF assms(3)]
  have id2: "map_of a2 ''id'' = Some (VStr i)" using assms(3) by (simp add: a2_def update_conv')
  have into: "settles_into NET_SETTLES_INTO (get_or a1 ''networkStatus'' (VStr [])) = Some final"
    using assms(4,5) by (auto simp: settles_into_def get_or_def dict_get_def split: option.splits)
  have req: "repo_find (wdb w) ''agent_network_requests'' i = Some pending" "request_time pending = Inr r"
    "dict_get pending ''stamp'' = VStr stamp"
    using assms(7,8) by (simp_all add: repo_find_def fields_of_def pending_def request_time_def dict_get_def)
  have out: "net_settled clock a1 w = (if clock - r \<le> 1 then Inr (a1, w)
      else Inr (a2, agent_changed clock a2 (Some (r + 1)) (on_db (\<lambda>s. repo_save s ''agents'' a2) (drop_request i w))))"
    using req into name assms(6)
    by (simp add: net_settled_def has_answered_def SETTLE_SECONDS_def a2_def Let_def)
  define w' where "w' = agent_changed clock a2 (Some (r + 1)) (on_db (\<lambda>s. repo_save s ''agents'' a2) (drop_request i w))"
  have pub: "published w' = published w @ [event_of AgentUpdated i a2 (r + 1)]"
    using keyed_name [OF id2] by (simp add: w'_def agent_changed_def drop_request_def)
  have inv: "store_inv (wdb (drop_request i w))" using assms(1) by (simp add: drop_request_def)
  have db: "wdb w' = repo_save_raw (wdb (drop_request i w)) ''agents'' i (VDict a2)"
    using keyed_name [OF id2] by (simp add: w'_def repo_save_def)
  have get: "repo_get (wdb (drop_request i w)) c j =
      (if c = ''agent_network_requests'' \<and> j = i then None else repo_get (wdb w) c j)" for c j
    using assms(1) by (simp add: drop_request_def repo_delete_get)
  have "repo_get (wdb w') ''agents'' i = Some (VDict a2)" "repo_get (wdb w') ''agent_network_requests'' i = None" "store_inv (wdb w')"
    using inv by (simp_all add: db repo_save_same repo_save_other get)
  then show ?thesis using out pub unfolding w'_def [symmetric] a2_def [symmetric] by simp
qed

lemma no_request_no_change:
  "map_of a ''id'' = Some (VStr i) \<Longrightarrow> repo_get (wdb w) ''agent_network_requests'' i = None \<Longrightarrow> net_settled clock a w = Inr (a, w)"
  by (simp add: net_settled_def keyed_name repo_find_def)

text \<open>
  C15. The life of a connect or disconnect of a stored agent, asked at clock reading \<open>r\<close>: the agent reads \<open>connecting\<close>
  (\<open>disconnecting\<close>) until one second after; at the first read after that it is \<open>connected\<close> (\<open>disconnected\<close>), the change is
  stored, the transition is no longer in flight, and the bus is told of it once, dated by the agent's answer and not by the read; no
  later read changes anything.
\<close>

theorem agent_transition_lifecycle:
  assumes "store_inv (wdb w)" "repo_get (wdb w) ''agents'' i = Some (VDict a)" "map_of a ''id'' = Some (VStr i)"
    and "(action, p, final) \<in> {(''connect'', ''connecting'', ''connected''), (''disconnect'', ''disconnecting'', ''disconnected'')}"
    and "dict_get body ''ids'' = VList [VStr i]" "float_of_str (e_clock_repr env) = Some (Fin r)"
  shows "\<exists>w1 a1. execute_action validate env action body actor w =
      (Inr (VDict [(''data'', VDict [(''affected'', VInt 1)])]), w1) \<and>
    repo_find (wdb w1) ''agents'' i = Some a1 \<and> dict_get a1 ''networkStatus'' = VStr p \<and>
    (if clock - r \<le> 1 then net_settled clock a1 w1 = Inr (a1, w1)
     else \<exists>w2 a2. net_settled clock a1 w1 = Inr (a2, w2) \<and> a2 = AList.update ''networkStatus'' (VStr final) a1 \<and>
       repo_find (wdb w2) ''agents'' i = Some a2 \<and> repo_find (wdb w2) ''agent_network_requests'' i = None \<and>
       published w2 = published w1 @ [event_of AgentUpdated i a2 (r + 1)] \<and>
       net_settled again a2 w2 = Inr (a2, w2))"
proof -
  have p: "map_of PENDING_FOR action = Some p" "map_of NET_SETTLES_INTO p = Some final" "action \<in> set KNOWN_ACTIONS"
    using assms(4) by (auto simp: PENDING_FOR_def NET_SETTLES_INTO_def KNOWN_ACTIONS_def)
  let ?x = "if truthy (dict_get body ''data'') then dict_get body ''data'' else VDict []"
  obtain w1 where act: "act_on env 0 action ?x actor i a w = Inr w1"
    using p(1) by (simp add: act_on_def changed_by_def net_begin_def Let_def split_beta)
  obtain a1 where a1: "map_of a1 ''id'' = Some (VStr i)" "dict_get a1 ''networkStatus'' = VStr p"
    "dict_get a1 ''updatedAt'' = VStr (utc_now (e_now env))" "store_inv (wdb w1)" "repo_get (wdb w1) ''agents'' i = Some (VDict a1)"
    "repo_get (wdb w1) ''agent_network_requests'' i =
      Some (VDict [(''requested_at'', VFloat (e_clock_repr env)), (''stamp'', VStr (utc_now (e_now env)))])"
    using request_stored [OF assms(1) p(1) assms(2,3) act] by blast
  have "resolve_ids validate (wdb w) body = Inr [VStr i]"
    using assms(5) by (simp add: resolve_ids_def truthy_def py_list_def)
  then have run: "execute_action validate env action body actor w = (Inr (VDict [(''data'', VDict [(''affected'', VInt 1)])]), w1)"
    using p(3) act assms(2) by (simp add: execute_action_def find_by_value_def repo_find_def fields_of_def)
  have find: "repo_find (wdb w1) ''agents'' i = Some a1" using a1(5) by (simp add: repo_find_def fields_of_def)
  note s = settled_request [OF a1(4,5,1,2) p(2) a1(3,6) assms(6), of clock]
  show ?thesis
  proof (cases "clock - r \<le> 1")
    case True
    then show ?thesis using s run find a1(2) by (intro exI [of _ w1] exI [of _ a1]) simp
  next
    case False
    define a2 where "a2 = AList.update ''networkStatus'' (VStr final) a1"
    obtain w2 where w2: "net_settled clock a1 w1 = Inr (a2, w2)" "repo_get (wdb w2) ''agents'' i = Some (VDict a2)"
      "repo_get (wdb w2) ''agent_network_requests'' i = None" "published w2 = published w1 @ [event_of AgentUpdated i a2 (r + 1)]"
      using s False unfolding a2_def by auto
    have "net_settled again a2 w2 = Inr (a2, w2)"
      using no_request_no_change w2(3) a1(1) by (simp add: a2_def update_conv')
    then have "\<exists>w2 a2. net_settled clock a1 w1 = Inr (a2, w2) \<and> a2 = AList.update ''networkStatus'' (VStr final) a1 \<and>
       repo_find (wdb w2) ''agents'' i = Some a2 \<and> repo_find (wdb w2) ''agent_network_requests'' i = None \<and>
       published w2 = published w1 @ [event_of AgentUpdated i a2 (r + 1)] \<and> net_settled again a2 w2 = Inr (a2, w2)"
      using w2 by (intro exI [of _ w2] exI [of _ a2]) (simp add: repo_find_def fields_of_def a2_def)
    then show ?thesis using run find a1(2) False by (intro exI [of _ w1] exI [of _ a1]) simp
  qed
qed

section \<open>Witnesses\<close>

definition demo_agent :: jobj where
  "demo_agent = [(''id'', VStr ''7''), (''networkStatus'', VStr ''connected'')]"

definition demo_agents :: world where
  "demo_agents = \<lparr>wdb = repo_save init_store ''agents'' demo_agent, published = [], queued = []\<rparr>"

definition demo_env :: env where
  "demo_env = \<lparr>e_now = 63840009600500000, e_clock = 2, e_clock_repr = ''2.0'', e_draw = (\<lambda>n p. p)\<rparr>"

lemma demo_agents_ok: "store_inv (wdb demo_agents)" "agents_keyed (wdb demo_agents)"
  "repo_get (wdb demo_agents) ''agents'' j = (if j = ''7'' then Some (VDict demo_agent) else None)"
proof -
  show g: "repo_get (wdb demo_agents) ''agents'' j = (if j = ''7'' then Some (VDict demo_agent) else None)" for j
    by (simp add: demo_agents_def repo_save_def demo_agent_def repo_save_uncapped store_inv_init)
  show "store_inv (wdb demo_agents)" by (simp add: demo_agents_def store_inv_init)
  show "agents_keyed (wdb demo_agents)" by (simp add: agents_keyed_def g demo_agent_def)
qed

theorem agent_transition_lifecycle_witness:
  "\<exists>w1 a1. execute_action (\<lambda>k s. []) demo_env ''disconnect'' [(''ids'', VList [VStr ''7''])] VNone demo_agents =
      (Inr (VDict [(''data'', VDict [(''affected'', VInt 1)])]), w1) \<and>
    repo_find (wdb w1) ''agents'' ''7'' = Some a1 \<and> dict_get a1 ''networkStatus'' = VStr ''disconnecting'' \<and>
    (\<exists>w2 a2. net_settled 5 a1 w1 = Inr (a2, w2) \<and> dict_get a2 ''networkStatus'' = VStr ''disconnected'')"
proof -
  have g: "repo_get (wdb demo_agents) ''agents'' ''7'' = Some (VDict demo_agent)" by (simp add: demo_agents_ok(3))
  have i: "map_of demo_agent ''id'' = Some (VStr ''7'')" by (simp add: demo_agent_def)
  have m: "(''disconnect'', ''disconnecting'', ''disconnected'') \<in>
    {(''connect'', ''connecting'', ''connected''), (''disconnect'', ''disconnecting'', ''disconnected'')}" by simp
  have b: "dict_get [(''ids'', VList [VStr ''7''])] ''ids'' = VList [VStr ''7'']" by (simp add: dict_get_def)
  have r: "float_of_str (e_clock_repr demo_env) = Some (Fin 2)" unfolding demo_env_def by code_simp
  from agent_transition_lifecycle [OF demo_agents_ok(1) g i m b r, of "\<lambda>k s. []" VNone 5 5]
  obtain w1 a1 where x: "execute_action (\<lambda>k s. []) demo_env ''disconnect'' [(''ids'', VList [VStr ''7''])] VNone demo_agents =
      (Inr (VDict [(''data'', VDict [(''affected'', VInt 1)])]), w1)"
    "repo_find (wdb w1) ''agents'' ''7'' = Some a1" "dict_get a1 ''networkStatus'' = VStr ''disconnecting''"
    "\<exists>w2 a2. net_settled 5 a1 w1 = Inr (a2, w2) \<and> a2 = AList.update ''networkStatus'' (VStr ''disconnected'') a1"
    by auto
  then show ?thesis by (intro exI [of _ w1] exI [of _ a1]) auto
qed

definition demo_draws :: env where
  "demo_draws = demo_env\<lparr>e_draw := (\<lambda>n p. p @ replicate n CHR ''x'')\<rparr>"

lemma demo_log: "log_ready demo_draws [0..<2] (wdb demo_agents)" "activity_list_all (wdb demo_agents) = []"
proof -
  have "same_log init_store (wdb demo_agents)"
    using save_leaves [of "''agents''" init_store] by (simp add: demo_agents_def repo_save_def)
  then have l: "coll (wdb demo_agents) ''activities'' = coll init_store ''activities''" "activity_order (wdb demo_agents) = []"
    by (simp_all add: same_log_def)
  have two: "[0..<2] = [0::nat, 1]" by (simp add: upt_rec)
  show "log_ready demo_draws [0..<2] (wdb demo_agents)"
    using logs_init(1) by (simp add: log_ready_def activity_log_ok_def l two demo_draws_def)
  show "activity_list_all (wdb demo_agents) = []"
    by (simp add: activity_list_all_def list_activities_def l coll_init log_collections records_in_order_def List.map_filter_def)
qed

theorem action_reaches_named_witness:
  "\<exists>w' a' activity. execute_action (\<lambda>k s. []) demo_draws ''shutdown'' [(''ids'', VList [VStr ''7'', VStr ''8''])] VNone demo_agents =
      (Inr (VDict [(''data'', VDict [(''affected'', VInt 1)])]), w') \<and>
    repo_get (wdb w') ''agents'' ''7'' = Some (VDict a') \<and> dict_get a' ''isActive'' = VBool False \<and>
    published w' = [event_of AgentUpdated ''7'' a' 2, event_of ActivityCreated ''activity'' activity 2] \<and>
    dict_get activity ''activityType'' = VInt 53 \<and> activity_list_all (wdb w') = [VDict activity] \<and>
    repo_get (wdb w') ''agents'' ''8'' = None \<and> queued w' = []"
proof -
  let ?b = "[(''ids'', VList [VStr ''7'', VStr ''8''])]"
  have ids: "resolve_ids (\<lambda>k s. []) (wdb demo_agents) ?b = Inr [VStr ''7'', VStr ''8'']"
    by (simp add: resolve_ids_def dict_get_def truthy_def py_list_def)
  have ex: "existing (wdb demo_agents) [VStr ''7'', VStr ''8''] = [''7'']" by (simp add: existing_def demo_agents_ok)
  obtain k w' where "act_on_all demo_draws ''shutdown'' (VDict []) VNone 0 [VStr ''7'', VStr ''8''] demo_agents = (Inr k, w')"
    by (simp add: find_by_value_def repo_find_def demo_agents_ok fields_of_def act_on_def changed_by_def agent_after_def
        PENDING_FOR_def Let_def split_beta activity_append_other repo_update agent_changed_def publish_event_def on_db_def
        activity_create_def updates_def repo_save_def demo_agent_def dict_get_def)
  then obtain answer where run: "execute_action (\<lambda>k s. []) demo_draws ''shutdown'' ?b VNone demo_agents = (Inr answer, w')"
    using ids by (simp add: execute_action_def KNOWN_ACTIONS_def dict_get_def truthy_def)
  have extra: "VDict [] = (if truthy (dict_get ?b ''data'') then dict_get ?b ''data'' else VDict [])"
    by (simp add: dict_get_def truthy_def)
  have len: "length [VStr ''7'', VStr ''8''] = 2" by simp
  note r = action_reaches_named [OF demo_agents_ok(1,2) ids run extra, unfolded ex len]
  then obtain ts where "map turn_of ts = [''7''] \<and> sorted_wrt (<) (map turn_at ts) \<and>
       (\<forall>t \<in> set ts. turn_at t < 2 \<and> [VStr ''7'', VStr ''8''] ! turn_at t = VStr (turn_of t) \<and>
          carried_out demo_draws (wdb demo_agents) ''shutdown'' (VDict []) t) \<and>
       in_turn ts (repo_get (wdb demo_agents) ''agents'') \<and>
       repo_get (wdb w') ''agents'' = agents_after ts (repo_get (wdb demo_agents) ''agents'') \<and>
       published w' = published demo_agents @ concat (map (turn_events demo_draws ''shutdown'' VNone) ts) \<and>
       (log_ready demo_draws [0..<2] (wdb demo_agents) \<longrightarrow>
          activity_list_all (wdb w') = take activity_cap
            (rev (map (\<lambda>t. VDict (turn_activity demo_draws ''shutdown'' VNone t)) ts) @ activity_list_all (wdb demo_agents)))"
    by - (elim conjE, elim exE, rule that)
  then have ts: "map turn_of ts = [''7'']" "\<forall>t \<in> set ts. turn_at t < 2 \<and> [VStr ''7'', VStr ''8''] ! turn_at t = VStr (turn_of t) \<and>
        carried_out demo_draws (wdb demo_agents) ''shutdown'' (VDict []) t"
    "repo_get (wdb w') ''agents'' = agents_after ts (repo_get (wdb demo_agents) ''agents'')"
    "published w' = published demo_agents @ concat (map (turn_events demo_draws ''shutdown'' VNone) ts)"
    "activity_list_all (wdb w') =
       take activity_cap (rev (map (\<lambda>t. VDict (turn_activity demo_draws ''shutdown'' VNone t)) ts) @ activity_list_all (wdb demo_agents))"
    using demo_log(1) by blast+
  then obtain t where t: "ts = [t]" "turn_of t = ''7''" by (auto simp: map_eq_Cons_conv)
  have at: "turn_at t = 0" using ts(2) t by (auto simp: less_2_cases_iff)
  have off: "dict_get (turn_after t) ''isActive'' = VBool False"
    using ts(2) by (simp add: t carried_out_def promised_def plain_members_def Let_def dict_get_def)
  let ?a = "turn_activity demo_draws ''shutdown'' VNone t"
  have "repo_get (wdb w') ''agents'' ''7'' = Some (VDict (turn_after t))" using ts(3) t by simp
  moreover have "published w' = [event_of AgentUpdated ''7'' (turn_after t) 2, event_of ActivityCreated ''activity'' ?a 2]"
    using ts(4) t at by (simp add: turn_events_def demo_draws_def demo_env_def demo_agents_def)
  moreover have "dict_get ?a ''activityType'' = VInt 53" by (simp add: turn_activity_def Activity_def dict_get_def)
  moreover have "activity_list_all (wdb w') = [VDict ?a]" using ts(5) t by (simp add: demo_log(2) activity_cap_def)
  moreover have "answer = VDict [(''data'', VDict [(''affected'', VInt 1)])]" "repo_get (wdb w') ''agents'' ''8'' = None" "queued w' = []"
    using r by (simp_all add: demo_agents_ok, simp_all add: demo_agents_def)
  ultimately show ?thesis using run off by blast
qed

end
