(* ===== verification/Xdr_Filter.thy ===== *)
theory Xdr_Filter
  imports S1_Filter Repository
begin

text \<open>
  The filters and the sort of a Cortex request: \<open>src/backend/utils/xdr_filters.py\<close>. A request is JSON, so a filter block is
  whatever value the client sent; iterating one that cannot be iterated and reading a member of an entry that is not
  an object raise.

  Shown here: a filtered listing is exactly the records for which every entry holds, whatever the entries, and every
  entry names a supported field.
\<close>

section \<open>One entry\<close>

datatype xdr_failure = XdrFilterError string | Escapes exn

definition as_list :: "pyval \<Rightarrow> pyval list" where
  "as_list v = (case v of VList vs \<Rightarrow> vs | _ \<Rightarrow> [v])"

definition none_blank :: "pyval \<Rightarrow> string" where
  "none_blank v = (case v of VNone \<Rightarrow> [] | _ \<Rightarrow> py_str v)"

definition xdr_compare :: "pyval \<Rightarrow> pyval \<Rightarrow> string \<Rightarrow> xdr_failure + bool" where
  "xdr_compare record_value operand operator =
     (let among = list_ex (\<lambda>v. lower (none_blank v) \<in> set (map (\<lambda>w. lower (none_blank w)) (as_list operand))) (as_list record_value);
          same = list_ex (\<lambda>v. none_blank v = none_blank operand) (as_list record_value);
          holds = list_ex (\<lambda>v. str_in (lower (none_blank operand)) (lower (none_blank v))) (as_list record_value)
      in if operator \<in> {''in'', ''in_list''} then Inr among
         else if operator \<in> {''nin'', ''not_in''} then Inr (\<not> among)
         else if operator \<in> {''eq'', ''=''} then Inr same
         else if operator \<in> {''neq'', ''!=''} then Inr (\<not> same)
         else if operator = ''contains'' then Inr holds
         else if operator = ''not_contains'' then Inr (\<not> holds)
         else case (as_float record_value, as_float operand) of
                (Inl e, _) \<Rightarrow> Inl (Escapes e)
              | (_, Inl e) \<Rightarrow> Inl (Escapes e)
              | (Inr (Some left), Inr (Some right)) \<Rightarrow>
                  (if operator = ''gte'' then Inr (fl_le right left)
                   else if operator = ''lte'' then Inr (fl_le left right)
                   else if operator = ''gt'' then Inr (fl_less right left)
                   else if operator = ''lt'' then Inr (fl_less left right)
                   else Inl (XdrFilterError (''Unsupported filter operator '' @ [CHR 0x27] @ operator @ [CHR 0x27])))
              | _ \<Rightarrow> Inr False)"

text \<open>\<open>[r for r in records if test(r)]\<close> with a test that may raise.\<close>

fun keepE :: "('a \<Rightarrow> 'e + bool) \<Rightarrow> 'a list \<Rightarrow> 'e + 'a list" where
  "keepE test [] = Inr []"
| "keepE test (x # xs) =
     (case test x of
        Inl e \<Rightarrow> Inl e
      | Inr b \<Rightarrow> (case keepE test xs of Inl e \<Rightarrow> Inl e | Inr ys \<Rightarrow> Inr (if b then x # ys else ys)))"

section \<open>The filter block\<close>

definition unsupported_field :: "(string \<times> string) list \<Rightarrow> string \<Rightarrow> string" where
  "unsupported_field field_map fld =
     ''Unsupported filter field '' @ [CHR 0x27] @ fld @ [CHR 0x27] @ ''. Supported fields: '' @
       join '', '' (sort (map fst field_map))"

text \<open>The comparisons an entry asks for: its operator, or the bounds beside the field when it has none.\<close>

definition entry_operator :: "jobj \<Rightarrow> string" where
  "entry_operator entry =
     lower (if truthy (dict_get entry ''operator'') then py_str (dict_get entry ''operator'') else [])"

definition entry_tests :: "jobj \<Rightarrow> (string \<times> pyval) list" where
  "entry_tests entry =
     (let operator = entry_operator entry;
          bounds = [(op, dict_get entry op). op \<leftarrow> [''gte'', ''lte''], dict_get entry op \<noteq> VNone]
      in if operator = [] \<and> bounds \<noteq> [] then bounds
         else [(if operator = [] then ''in'' else operator, dict_get entry ''value'')])"

fun apply_tests :: "string \<Rightarrow> (string \<times> pyval) list \<Rightarrow> pyval list \<Rightarrow> xdr_failure + pyval list" where
  "apply_tests k [] rs = Inr rs"
| "apply_tests k ((op, operand) # ts) rs =
     (case keepE (\<lambda>r. xdr_compare (get_nested r k) operand op) rs of
        Inl e \<Rightarrow> Inl e
      | Inr kept \<Rightarrow> apply_tests k ts kept)"

fun apply_entries :: "(string \<times> string) list \<Rightarrow> pyval list \<Rightarrow> pyval list \<Rightarrow> xdr_failure + pyval list" where
  "apply_entries field_map [] rs = Inr rs"
| "apply_entries field_map (entry # entries) rs =
     (case entry of
        VDict d \<Rightarrow>
          (let fld = py_str (get_or d ''field'' (VStr []))
           in case map_of field_map fld of
                None \<Rightarrow> Inl (XdrFilterError (unsupported_field field_map fld))
              | Some k \<Rightarrow>
                  (case apply_tests k (entry_tests d) rs of
                     Inl e \<Rightarrow> Inl e
                   | Inr kept \<Rightarrow> apply_entries field_map entries kept))
      | _ \<Rightarrow> Inl (Escapes (AttributeError ''get'')))"

definition apply_xdr_filters :: "pyval list \<Rightarrow> pyval \<Rightarrow> (string \<times> string) list \<Rightarrow> xdr_failure + pyval list" where
  "apply_xdr_filters records filters field_map =
     (if \<not> truthy filters then Inr records
      else case py_list filters of
             None \<Rightarrow> Inl (Escapes (TypeError ''not iterable''))
           | Some entries \<Rightarrow> apply_entries field_map entries records)"

section \<open>The sort block\<close>

text \<open>\<open>float(value)\<close>, which takes a boolean for the number it is.\<close>

definition xdr_sort_key :: "string \<Rightarrow> pyval \<Rightarrow> order_key result" where
  "xdr_sort_key fld record =
     (case get_nested record fld of
        VNone \<Rightarrow> Inr (2, Fin 0, [])
      | VBool b \<Rightarrow> Inr (0, Fin (if b then 1 else 0), [])
      | v \<Rightarrow> (case as_float v of
               Inl e \<Rightarrow> Inl e
             | Inr (Some x) \<Rightarrow> Inr (0, x, [])
             | Inr None \<Rightarrow> Inr (1, Fin 0, py_str v)))"

definition apply_xdr_sort :: "pyval list \<Rightarrow> pyval \<Rightarrow> pyval list result" where
  "apply_xdr_sort records srt =
     (case srt of
        VDict d \<Rightarrow>
          (let fld = strip (if truthy (dict_get d ''field'') then py_str (dict_get d ''field'') else []);
               keyword = (if truthy (dict_get d ''keyword'') then py_str (dict_get d ''keyword'') else ''asc'')
           in if fld = [] then Inr records
              else sorted_records (xdr_sort_key fld) (lower keyword = ''desc'') records)
      | _ \<Rightarrow> Inr records)"

section \<open>What a filter keeps\<close>

definition entry_holds :: "(string \<times> string) list \<Rightarrow> pyval \<Rightarrow> pyval \<Rightarrow> bool" where
  "entry_holds field_map entry r =
     (case map_of field_map (py_str (get_or (fields_of entry) ''field'' (VStr []))) of
        None \<Rightarrow> False
      | Some k \<Rightarrow> list_all (\<lambda>(op, operand). xdr_compare (get_nested r k) operand op = Inr True) (entry_tests (fields_of entry)))"

definition supported_entry :: "(string \<times> string) list \<Rightarrow> pyval \<Rightarrow> bool" where
  "supported_entry field_map entry \<longleftrightarrow>
     (\<exists>d. entry = VDict d) \<and> py_str (get_or (fields_of entry) ''field'' (VStr [])) \<in> set (map fst field_map)"

lemma keepE_Inr: "keepE test xs = Inr ys \<Longrightarrow> ys = filter (\<lambda>x. test x = Inr True) xs"
  by (induction xs arbitrary: ys) (auto split: sum.splits)

lemma apply_tests_Inr:
  "apply_tests k ts rs = Inr kept \<Longrightarrow>
     kept = filter (\<lambda>r. list_all (\<lambda>(op, operand). xdr_compare (get_nested r k) operand op = Inr True) ts) rs"
proof (induction ts arbitrary: rs)
  case (Cons t ts)
  obtain op operand where t: "t = (op, operand)" by fastforce
  obtain mid where "keepE (\<lambda>r. xdr_compare (get_nested r k) operand op) rs = Inr mid" "apply_tests k ts mid = Inr kept"
    using Cons.prems by (auto simp: t split: sum.splits)
  then show ?case using Cons.IH keepE_Inr by (fastforce simp: t filter_filter conj_commute)
qed simp

lemma apply_entries_Inr:
  "apply_entries fm es rs = Inr kept \<Longrightarrow>
     kept = filter (\<lambda>r. list_all (\<lambda>e. entry_holds fm e r) es) rs \<and> list_all (supported_entry fm) es"
proof (induction es arbitrary: rs)
  case (Cons e es)
  obtain d k mid where e: "e = VDict d" "map_of fm (py_str (get_or d ''field'' (VStr []))) = Some k"
    "apply_tests k (entry_tests d) rs = Inr mid" "apply_entries fm es mid = Inr kept"
    using Cons.prems by (auto simp: Let_def split: pyval.splits option.splits sum.splits)
  have "mid = filter (entry_holds fm e) rs"
    using apply_tests_Inr [OF e(3)] e(1,2) by (simp add: entry_holds_def [abs_def] fields_of_def)
  moreover have "supported_entry fm e"
    using map_of_SomeD [OF e(2)] by (force simp: supported_entry_def e(1) fields_of_def)
  ultimately show ?case using Cons.IH [OF e(4)] by (simp add: filter_filter conj_commute)
qed simp

text \<open>What an operator says of a record, for the operators on text and the negated ones.\<close>

lemma compare_negated:
  "xdr_compare v operand ''nin'' = map_sum id Not (xdr_compare v operand ''in'')"
  "xdr_compare v operand ''neq'' = map_sum id Not (xdr_compare v operand ''eq'')"
  "xdr_compare v operand ''not_contains'' = map_sum id Not (xdr_compare v operand ''contains'')"
  by (simp_all add: xdr_compare_def Let_def)

lemma compare_text_total: "op \<in> {''in'', ''eq'', ''contains''} \<Longrightarrow> \<exists>b. xdr_compare v operand op = Inr b"
  by (auto simp: xdr_compare_def Let_def)

text \<open>
  C19. A Cortex listing that answers honours every entry of the request's filter block: each names a field the route
  supports, and the records returned are, in order, exactly those for which every entry holds; and the negation of a
  text operator keeps exactly the records its positive form drops.
\<close>

theorem xdr_filter_exact:
  assumes "py_list filters = Some entries" "apply_xdr_filters rs filters field_map = Inr kept"
    and "(op, neg) \<in> {(''in'', ''nin''), (''eq'', ''neq''), (''contains'', ''not_contains'')}"
  shows "kept = filter (\<lambda>r. list_all (\<lambda>e. entry_holds field_map e r) entries) rs \<and>
    list_all (supported_entry field_map) entries \<and>
    (\<forall>fld k v. map_of field_map fld = Some k \<longrightarrow> (\<exists>pos dropped.
       apply_xdr_filters rs (VList [VDict [(''field'', VStr fld), (''operator'', VStr op), (''value'', v)]]) field_map = Inr pos \<and>
       apply_xdr_filters rs (VList [VDict [(''field'', VStr fld), (''operator'', VStr neg), (''value'', v)]]) field_map = Inr dropped \<and>
       mset pos + mset dropped = mset rs \<and> set pos \<inter> set dropped = {}))"
proof (intro conjI allI impI)
  have ne: "truthy filters = (entries \<noteq> [])"
    using assms(1) by (auto simp: py_list_def truthy_def split: pyval.splits)
  have "apply_entries field_map entries rs = Inr kept"
    using assms(1,2) ne by (auto simp: apply_xdr_filters_def split: if_splits)
  then show "kept = filter (\<lambda>r. list_all (\<lambda>e. entry_holds field_map e r) entries) rs"
    "list_all (supported_entry field_map) entries" using apply_entries_Inr by blast+
next
  fix fld k v assume k: "map_of field_map fld = Some k"
  let ?test = "\<lambda>opn r. xdr_compare (get_nested r k) v opn"
  have one: "apply_xdr_filters rs (VList [VDict [(''field'', VStr fld), (''operator'', VStr o'), (''value'', v)]]) field_map =
      (case keepE (?test o') rs of Inl e \<Rightarrow> Inl e | Inr x \<Rightarrow> Inr x)" if "o' \<in> {op, neg}" for o'
    using that assms(3) k
    by (auto simp: apply_xdr_filters_def py_list_def get_or_def entry_tests_def entry_operator_def lower_def lower_char_def is_upper_def split: sum.splits)
  have total: "\<exists>b. ?test op r = Inr b" "?test neg r = map_sum id Not (?test op r)" for r
    using assms(3) compare_text_total [of op "get_nested r k" v] compare_negated [of "get_nested r k" v] by auto
  have keep: "keepE f xs = Inr (filter (\<lambda>x. f x = Inr True) xs)" if "\<And>x. \<exists>b. f x = Inr b"
    for f :: "pyval \<Rightarrow> xdr_failure + bool" and xs
  proof (induction xs)
    case (Cons x xs)
    then show ?case using that [of x] by auto
  qed simp
  have neg: "\<exists>b. ?test neg r = Inr b" "(?test neg r = Inr True) = (\<not> ?test op r = Inr True)" for r
    using total [of r] by auto
  have "keepE (?test op) rs = Inr (filter (\<lambda>r. ?test op r = Inr True) rs)"
    "keepE (?test neg) rs = Inr (filter (\<lambda>r. \<not> ?test op r = Inr True) rs)"
    using keep [of "?test op"] keep [of "?test neg"] total(1) neg by auto
  then show "\<exists>pos dropped.
       apply_xdr_filters rs (VList [VDict [(''field'', VStr fld), (''operator'', VStr op), (''value'', v)]]) field_map = Inr pos \<and>
       apply_xdr_filters rs (VList [VDict [(''field'', VStr fld), (''operator'', VStr neg), (''value'', v)]]) field_map = Inr dropped \<and>
       mset pos + mset dropped = mset rs \<and> set pos \<inter> set dropped = {}"
    using one [of op] one [of neg] by (auto simp: multiset_partition [symmetric])
qed

text \<open>
  An operator the module does not know is refused only when both sides are numbers; on any other field it silently
  matches nothing.
\<close>

lemma unknown_operator_unrefused:
  "xdr_compare (VStr ''windows'') (VStr ''win.*'') ''regex'' = Inr False"
  "apply_xdr_filters [VDict [(''os_type'', VStr ''windows'')]]
     (VList [VDict [(''field'', VStr ''platform''), (''operator'', VStr ''regex''), (''value'', VStr ''win.*'')]])
     [(''platform'', ''os_type'')] = Inr []"
  by code_simp+

theorem xdr_filter_exact_witness:
  "\<exists>pos dropped. mset pos + mset dropped = mset [VDict [(''os'', VStr ''Linux'')], VDict [(''os'', VStr ''macos'')]] \<and>
     apply_xdr_filters [VDict [(''os'', VStr ''Linux'')], VDict [(''os'', VStr ''macos'')]]
       (VList [VDict [(''field'', VStr ''p''), (''operator'', VStr ''nin''), (''value'', VStr ''linux'')]]) [(''p'', ''os'')] = Inr dropped"
proof -
  let ?rs = "[VDict [(''os'', VStr ''Linux'')], VDict [(''os'', VStr ''macos'')]]"
  have "py_list (VList []) = Some []" by (simp add: py_list_def)
  moreover have "apply_xdr_filters ?rs (VList []) [(''p'', ''os'')] = Inr ?rs" by (simp add: apply_xdr_filters_def)
  moreover have "(''in'', ''nin'') \<in> {(''in'', ''nin''), (''eq'', ''neq''), (''contains'', ''not_contains'')}" by simp
  ultimately have "\<forall>fld k v. map_of [(''p'', ''os'')] fld = Some k \<longrightarrow> (\<exists>pos dropped.
       apply_xdr_filters ?rs (VList [VDict [(''field'', VStr fld), (''operator'', VStr ''in''), (''value'', v)]]) [(''p'', ''os'')] = Inr pos \<and>
       apply_xdr_filters ?rs (VList [VDict [(''field'', VStr fld), (''operator'', VStr ''nin''), (''value'', v)]]) [(''p'', ''os'')] = Inr dropped \<and>
       mset pos + mset dropped = mset ?rs \<and> set pos \<inter> set dropped = {})"
    by (rule xdr_filter_exact [THEN conjunct2, THEN conjunct2])
  from this [rule_format, of "''p''" "''os''" "VStr ''linux''"] show ?thesis by auto
qed

end
