(* ===== verification/Xdr_Endpoints.thy ===== *)
theory Xdr_Endpoints
  imports Settling World Xdr_Filter Responses
begin

text \<open>
  The Cortex endpoints and the actions on them: \<open>src/backend/application/xdr_endpoints\<close> and
  \<open>src/backend/application/xdr_actions\<close>. A request reads the clock once: \<open>ms\<close> is \<open>_epoch_ms()\<close> and \<open>clock\<close> the reading of
  \<open>time.time\<close>; the id of an action is drawn. The difference of two readings is exact, since both are multiples of the same power
  of two. A record read from the store is the stored object, so what settles while a listing is selected is stored, also when the
  selection then fails.

  Shown here: the life of an isolation, that an isolation reported complete is one its endpoints agree with, and which
  writes reach which endpoints.
\<close>

section \<open>Isolation\<close>

definition AGENT_ISOLATED :: string where "AGENT_ISOLATED = ''AGENT_ISOLATED''"

definition AGENT_UNISOLATED :: string where "AGENT_UNISOLATED = ''AGENT_UNISOLATED''"

definition AGENT_PENDING_ISOLATION :: string where "AGENT_PENDING_ISOLATION = ''AGENT_PENDING_ISOLATION''"

definition AGENT_PENDING_ISOLATION_CANCELLATION :: string where
  "AGENT_PENDING_ISOLATION_CANCELLATION = ''AGENT_PENDING_ISOLATION_CANCELLATION''"

definition XDR_SETTLES_INTO :: "(string \<times> string) list" where
  "XDR_SETTLES_INTO =
     [(AGENT_PENDING_ISOLATION, AGENT_ISOLATED), (AGENT_PENDING_ISOLATION_CANCELLATION, AGENT_UNISOLATED)]"

definition ISOLATE_FILTER_VALUES :: "(string \<times> string) list" where
  "ISOLATE_FILTER_VALUES = [(''isolated'', AGENT_ISOLATED), (''unisolated'', AGENT_UNISOLATED)]"

definition ENDPOINT_FILTER_FIELDS :: "(string \<times> string) list" where
  "ENDPOINT_FILTER_FIELDS = [
     (''endpoint_id_list'', ''endpoint_id''), (''endpoint_status'', ''endpoint_status''), (''dist_name'', ''installation_package''),
     (''ip_list'', ''ip''), (''public_ip_list'', ''public_ip''), (''group_name'', ''group_name''), (''platform'', ''os_type''),
     (''alias'', ''alias''), (''isolate'', ''is_isolated''), (''hostname'', ''endpoint_name''), (''username'', ''users''),
     (''first_seen'', ''first_seen''), (''last_seen'', ''last_seen''), (''scan_status'', ''scan_status'')]"

definition xdr_key :: "jobj \<Rightarrow> string" where
  "xdr_key endpoint = py_str (dict_get endpoint ''endpoint_id'')"

definition xdr_save :: "jobj \<Rightarrow> db \<Rightarrow> db" where
  "xdr_save endpoint s = repo_save_raw s ''xdr_endpoints'' (xdr_key endpoint) (VDict endpoint)"

text \<open>\<open>requested / 1000\<close>, for \<open>isolation_requested_at or 0\<close>: only the commands write it, as the integer \<open>_epoch_ms()\<close>, and settling as \<open>None\<close>. The quotient of a clock reading is finite.\<close>

definition requested_ms :: "jobj \<Rightarrow> int" where
  "requested_ms endpoint = (case get_or endpoint ''isolation_requested_at'' VNone of VInt n \<Rightarrow> n | _ \<Rightarrow> 0)"

definition seconds_of_ms :: "int \<Rightarrow> rat" where
  "seconds_of_ms ms = (case round_double (of_int ms / 1000) of Fin q \<Rightarrow> q | _ \<Rightarrow> 0)"

definition isolation_settled :: "string \<Rightarrow> jobj \<Rightarrow> jobj" where
  "isolation_settled target endpoint =
     updates ([(''is_isolated'', VStr target), (''isolation_requested_at'', VNone)] @
       (if target = AGENT_UNISOLATED then [(''isolated_date'', VNone)] else [])) endpoint"

definition settle_isolation :: "rat \<Rightarrow> bool \<Rightarrow> jobj \<Rightarrow> world \<Rightarrow> jobj \<times> world" where
  "settle_isolation clock at_once endpoint w =
     (case settles_into XDR_SETTLES_INTO (get_or endpoint ''is_isolated'' (VStr [])) of
        None \<Rightarrow> (endpoint, w)
      | Some target \<Rightarrow>
          (let requested = requested_ms endpoint
           in if \<not> at_once \<and> \<not> has_answered (Some (clock - seconds_of_ms requested)) then (endpoint, w)
              else let endpoint' = isolation_settled target endpoint;
                       answered = seconds_of_ms requested + SETTLE_SECONDS
                   in (endpoint', xdr_endpoint_changed clock endpoint'
                         (if requested \<noteq> 0 \<and> answered \<noteq> 0 then Some (min answered clock) else None)
                         (on_db (xdr_save endpoint') w))))"

definition xdr_settle_due :: "rat \<Rightarrow> world \<Rightarrow> (nat \<times> world) result" where
  "xdr_settle_due clock w =
     settle_each (map fields_of (repo_list_all (wdb w) ''xdr_endpoints'')) ''is_isolated'' (Some (in_table XDR_SETTLES_INTO))
       (\<lambda>e w. Inr (settle_isolation clock False e w)) w"

section \<open>Selecting endpoints\<close>

definition translated_filters :: "pyval \<Rightarrow> pyval" where
  "translated_filters filters =
     (case filters of
        VList entries \<Rightarrow>
          VList (map (\<lambda>entry. case entry of
              VDict d \<Rightarrow>
                (if dict_get d ''field'' = VStr ''isolate''
                 then let v = dict_get d ''value'';
                          word = (\<lambda>u. case map_of ISOLATE_FILTER_VALUES (lower (py_str u)) of None \<Rightarrow> u | Some t \<Rightarrow> VStr t)
                      in VDict (AList.update ''value'' (case v of VList us \<Rightarrow> VList (map word us) | _ \<Rightarrow> word v) d)
                 else VDict d)
            | _ \<Rightarrow> entry) entries)
      | _ \<Rightarrow> filters)"

text \<open>\<open>x in container\<close> for a JSON value: a membership in a list, a substring of a string, a key of an object.\<close>

definition py_in :: "pyval \<Rightarrow> pyval \<Rightarrow> xdr_failure + bool" where
  "py_in x container =
     (case container of
        VList vs \<Rightarrow> Inr (list_ex (py_eq x) vs)
      | VStr t \<Rightarrow> (case x of VStr s \<Rightarrow> Inr (str_in s t) | _ \<Rightarrow> Inl (Escapes (TypeError ''requires string as left operand'')))
      | VDict d \<Rightarrow> Inr (list_ex (\<lambda>(k, v). x = VStr k) d)
      | _ \<Rightarrow> Inl (Escapes (TypeError ''not a container'')))"

fun settle_endpoints :: "rat \<Rightarrow> jobj list \<Rightarrow> world \<Rightarrow> jobj list \<times> world" where
  "settle_endpoints clock [] w = ([], w)"
| "settle_endpoints clock (e # es) w =
     (let (e', w1) = settle_isolation clock False e w; (es', w2) = settle_endpoints clock es w1 in (e' # es', w2))"

definition select_endpoints :: "rat \<Rightarrow> jobj \<Rightarrow> world \<Rightarrow> (xdr_failure + pyval list) \<times> world" where
  "select_endpoints clock request_data w =
     (let (es, w') = settle_endpoints clock (map fields_of (repo_list_all (wdb w) ''xdr_endpoints'')) w;
          id_list = dict_get request_data ''endpoint_id_list''
      in (case apply_xdr_filters (map VDict es) (translated_filters (dict_get request_data ''filters'')) ENDPOINT_FILTER_FIELDS of
            Inl e \<Rightarrow> Inl e
          | Inr hits \<Rightarrow>
              (if truthy id_list then keepE (\<lambda>x. py_in (get_nested x ''endpoint_id'') id_list) hits else Inr hits), w'))"

datatype xdr_stop = Refused xdr_failure | Answered failure

definition get_endpoints :: "rat \<Rightarrow> jobj \<Rightarrow> world \<Rightarrow> (xdr_stop + pyval) \<times> world" where
  "get_endpoints clock request_data w =
     (let (selected, w') = select_endpoints clock request_data w
      in (case selected of
            Inl e \<Rightarrow> Inl (Refused e)
          | Inr es \<Rightarrow>
              (case apply_xdr_sort es (dict_get request_data ''sort'') of
                 Inl e \<Rightarrow> Inl (Refused (Escapes e))
               | Inr hits \<Rightarrow>
                   (case page_bounds request_data (Some XDR_MAX_PAGE) of
                      Inl f \<Rightarrow> Inl (Answered f)
                    | Inr (search_from, search_to) \<Rightarrow>
                        (case foldE (\<lambda>page r. map_sum id (\<lambda>e. page @ [VDict e]) (serialise_endpoint (fields_of r)))
                                (py_slice hits search_from search_to) [] of
                           Inl e \<Rightarrow> Inl (Refused (Escapes e))
                         | Inr page \<Rightarrow> Inr (build_xdr_list_reply page (int (length hits)) None ''endpoints'')))), w'))"

definition get_policy :: "string \<Rightarrow> db \<Rightarrow> pyval option" where
  "get_policy endpoint_id s =
     map_option (\<lambda>endpoint. build_xdr_reply (VDict [
       (''endpoint_id'', VStr endpoint_id), (''policy_name'', VStr ''Default Policy''), (''policy_type'', VStr ''device''),
       (''is_default'', VBool True),
       (''rules'', VDict [(''malware_protection'', VBool True), (''exploit_protection'', VBool True),
          (''behavioral_threat_protection'', VBool True), (''restriction_profile'', VStr ''moderate'')])]))
       (repo_find s ''xdr_endpoints'' endpoint_id)"

section \<open>Commands\<close>

definition XdrAction :: "string \<Rightarrow> string \<Rightarrow> string \<Rightarrow> string list \<Rightarrow> int \<Rightarrow> jobj" where
  "XdrAction action_id action_type endpoint_id endpoint_ids ms =
     [(''action_id'', VStr action_id), (''action_type'', VStr action_type), (''status'', VStr ''pending''),
      (''endpoint_id'', VStr endpoint_id), (''endpoint_ids'', VList (map VStr endpoint_ids)), (''result'', VNone),
      (''creation_time'', VInt ms)]"

definition xdr_action_save :: "jobj \<Rightarrow> db \<Rightarrow> db" where
  "xdr_action_save action s = repo_save_raw s ''xdr_actions'' (py_str (dict_get action ''action_id'')) (VDict action)"

text \<open>Every caller passes the covered endpoints, of which there is at least one.\<close>

definition xdr_create_action :: "string \<Rightarrow> int \<Rightarrow> string \<Rightarrow> string \<Rightarrow> string list \<Rightarrow> db \<Rightarrow> jobj \<times> db" where
  "xdr_create_action uuid ms endpoint_id action_type endpoint_ids s =
     (let action = XdrAction uuid action_type endpoint_id (if endpoint_ids = [] then [endpoint_id] else endpoint_ids) ms
      in (action, xdr_action_save action s))"

definition names_a_target :: "jobj \<Rightarrow> bool" where
  "names_a_target request_data \<longleftrightarrow>
     truthy (dict_get request_data ''filters'') \<or> truthy (dict_get request_data ''endpoint_id_list'') \<or>
     truthy (dict_get request_data ''endpoint_id'') \<or> truthy (dict_get request_data ''agent_id'')"

definition endpoints_named_by :: "rat \<Rightarrow> jobj \<Rightarrow> world \<Rightarrow> (xdr_failure + string list) \<times> world" where
  "endpoints_named_by clock request_data w =
     (let a = dict_get request_data ''endpoint_id''; b = dict_get request_data ''agent_id'';
          single = (if truthy a then py_str a else if truthy b then py_str b else [])
      in if single \<noteq> [] then (Inr [single], w)
         else if \<not> truthy (dict_get request_data ''filters'') \<and> \<not> truthy (dict_get request_data ''endpoint_id_list'')
         then (Inr [], w)
         else let (selected, w') = select_endpoints clock request_data w
              in (map_sum id (map (\<lambda>e. xdr_key (fields_of e))) selected, w'))"

text \<open>The ids an action covers: those of the named endpoints that exist.\<close>

definition covered :: "db \<Rightarrow> string list \<Rightarrow> string list" where
  "covered s endpoint_ids = map xdr_key (List.map_filter (repo_find s ''xdr_endpoints'') endpoint_ids)"

text \<open>
  The loop over the endpoints found; \<open>change\<close> is \<open>None\<close> for one that is left as it is. An endpoint named twice is the same
  object both times, as the second look-up finds it.
\<close>

fun on_endpoints :: "rat \<Rightarrow> (jobj \<Rightarrow> jobj option) \<Rightarrow> string list \<Rightarrow> world \<Rightarrow> world" where
  "on_endpoints clock change [] w = w"
| "on_endpoints clock change (i # ids) w =
     on_endpoints clock change ids
       (case repo_find (wdb w) ''xdr_endpoints'' i of
          None \<Rightarrow> w
        | Some e \<Rightarrow> (case change e of
                     None \<Rightarrow> w
                   | Some e' \<Rightarrow> xdr_endpoint_changed clock e' None (on_db (xdr_save e') w)))"

text \<open>What follows the loop: the action, its result when it has one, and the reply.\<close>

definition started :: "string \<Rightarrow> int \<Rightarrow> string \<Rightarrow> pyval option \<Rightarrow> bool \<Rightarrow> string list \<Rightarrow> world \<Rightarrow> pyval option \<times> world" where
  "started uuid ms action_type outcome grouped ids w =
     (let (action, s1) = xdr_create_action uuid ms (hd ids) action_type ids (wdb w);
          s2 = (case outcome of None \<Rightarrow> s1 | Some v \<Rightarrow> xdr_action_save (AList.update ''result'' v action) s1)
      in (Some (build_xdr_reply (VDict ([(''action_id'', VStr uuid)] @
            (if grouped then [(''group_action_id'', VStr uuid)] else []) @
            [(''endpoints_count'', VStr (str_of_nat (length ids)))]))), w\<lparr>wdb := s2\<rparr>))"

definition isolating :: "int \<Rightarrow> jobj \<Rightarrow> jobj option" where
  "isolating ms endpoint =
     (if dict_get endpoint ''is_isolated'' \<in> {VStr AGENT_ISOLATED, VStr AGENT_PENDING_ISOLATION} then None
      else Some (updates [(''is_isolated'', VStr AGENT_PENDING_ISOLATION), (''isolation_requested_at'', VInt ms),
                          (''isolated_date'', VInt ms)] endpoint))"

definition isolate_endpoint :: "string \<Rightarrow> int \<Rightarrow> rat \<Rightarrow> string list \<Rightarrow> world \<Rightarrow> pyval option \<times> world" where
  "isolate_endpoint uuid ms clock endpoint_ids w =
     (case covered (wdb w) endpoint_ids of
        [] \<Rightarrow> (None, w)
      | ids \<Rightarrow> started uuid ms ''isolate'' None False ids (on_endpoints clock (isolating ms) endpoint_ids w))"

definition releasing :: "int \<Rightarrow> jobj \<Rightarrow> jobj option" where
  "releasing ms endpoint =
     (if dict_get endpoint ''is_isolated'' \<in> {VStr AGENT_UNISOLATED, VStr AGENT_PENDING_ISOLATION_CANCELLATION} then None
      else Some (updates [(''is_isolated'', VStr AGENT_PENDING_ISOLATION_CANCELLATION), (''isolation_requested_at'', VInt ms)]
             endpoint))"

definition unisolate_endpoint :: "string \<Rightarrow> int \<Rightarrow> rat \<Rightarrow> string list \<Rightarrow> world \<Rightarrow> pyval option \<times> world" where
  "unisolate_endpoint uuid ms clock endpoint_ids w =
     (case covered (wdb w) endpoint_ids of
        [] \<Rightarrow> (None, w)
      | ids \<Rightarrow> started uuid ms ''unisolate'' None False ids (on_endpoints clock (releasing ms) endpoint_ids w))"

definition scan_endpoint :: "string \<Rightarrow> int \<Rightarrow> rat \<Rightarrow> string list \<Rightarrow> world \<Rightarrow> pyval option \<times> world" where
  "scan_endpoint uuid ms clock endpoint_ids w =
     (case covered (wdb w) endpoint_ids of
        [] \<Rightarrow> (None, w)
      | ids \<Rightarrow> started uuid ms ''scan'' None False ids
          (on_endpoints clock (\<lambda>e. Some (AList.update ''scan_status'' (VStr ''in_progress'') e)) endpoint_ids w))"

definition delete_endpoints :: "string list \<Rightarrow> world \<Rightarrow> pyval \<times> world" where
  "delete_endpoints endpoint_ids w =
     (build_xdr_reply (VBool True), w\<lparr>wdb := fold (\<lambda>i s. fst (repo_delete s ''xdr_endpoints'' i)) endpoint_ids (wdb w)\<rparr>)"

definition terminate_process :: "string \<Rightarrow> int \<Rightarrow> string list \<Rightarrow> jobj \<Rightarrow> world \<Rightarrow> pyval option \<times> world" where
  "terminate_process uuid ms endpoint_ids params w =
     (case covered (wdb w) endpoint_ids of
        [] \<Rightarrow> (None, w)
      | ids \<Rightarrow> started uuid ms ''terminate_process''
          (Some (VDict [(''pid'', dict_get params ''pid''), (''process_name'', dict_get params ''process_name'')])) True ids w)"

definition quarantine_file :: "string \<Rightarrow> int \<Rightarrow> string list \<Rightarrow> jobj \<Rightarrow> world \<Rightarrow> pyval option \<times> world" where
  "quarantine_file uuid ms endpoint_ids params w =
     (case covered (wdb w) endpoint_ids of
        [] \<Rightarrow> (None, w)
      | ids \<Rightarrow> started uuid ms ''quarantine''
          (Some (VDict [(''file_path'', dict_get params ''file_path''), (''file_hash'', dict_get params ''file_hash'')])) False ids w)"

definition restore_file :: "string \<Rightarrow> int \<Rightarrow> string list \<Rightarrow> jobj \<Rightarrow> world \<Rightarrow> pyval option \<times> world" where
  "restore_file uuid ms endpoint_ids params w =
     (case covered (wdb w) endpoint_ids of
        [] \<Rightarrow> (None, w)
      | ids \<Rightarrow> started uuid ms ''restore'' (Some (VDict [(''file_hash'', dict_get params ''file_hash'')])) False ids w)"

definition file_retrieval :: "string \<Rightarrow> int \<Rightarrow> string list \<Rightarrow> jobj \<Rightarrow> world \<Rightarrow> pyval option \<times> world" where
  "file_retrieval uuid ms endpoint_ids params w =
     (case covered (wdb w) endpoint_ids of
        [] \<Rightarrow> (None, w)
      | ids \<Rightarrow> started uuid ms ''file_retrieval''
          (Some (VDict [(''files'', if truthy (dict_get params ''files'') then dict_get params ''files'' else VDict [])])) False ids w)"

text \<open>The writes whose target is a \<open>filters\<close> block.\<close>

definition save_each :: "(jobj \<Rightarrow> jobj) \<Rightarrow> pyval list \<Rightarrow> world \<Rightarrow> world" where
  "save_each change es w = w\<lparr>wdb := fold (\<lambda>e. xdr_save (change (fields_of e))) es (wdb w)\<rparr>"

definition update_agent_name :: "rat \<Rightarrow> jobj \<Rightarrow> pyval \<Rightarrow> world \<Rightarrow> (xdr_failure + pyval option) \<times> world" where
  "update_agent_name clock request_data alias w =
     (if \<not> names_a_target request_data then (Inr None, w)
      else case select_endpoints clock request_data w of
             (Inl e, w') \<Rightarrow> (Inl e, w')
           | (Inr hits, w') \<Rightarrow>
               (if hits = [] then (Inr None, w')
                else (Inr (Some (build_xdr_reply (VBool True))), save_each (AList.update ''alias'' alias) hits w')))"

definition retagged :: "bool \<Rightarrow> string \<Rightarrow> jobj \<Rightarrow> jobj" where
  "retagged assign tag endpoint =
     (let tags = (case dict_get endpoint ''endpoint_tags'' of VList vs \<Rightarrow> vs | _ \<Rightarrow> []);
          tags' = (if assign \<and> tag \<noteq> [] \<and> VStr tag \<notin> set tags then tags @ [VStr tag]
                   else if \<not> assign \<and> VStr tag \<in> set tags then remove1 (VStr tag) tags
                   else tags)
      in AList.update ''endpoint_tags'' (VList tags') endpoint)"

definition tag_endpoints :: "rat \<Rightarrow> jobj \<Rightarrow> bool \<Rightarrow> world \<Rightarrow> (xdr_failure + pyval) \<times> world" where
  "tag_endpoints clock body assign w =
     (let request_data = (if truthy (dict_get body ''request_data'') then dict_get body ''request_data'' else VDict []);
          context = (if truthy (dict_get body ''context'') then dict_get body ''context'' else VDict [])
      in case (request_data, context) of
           (VDict data, VDict ctx) \<Rightarrow>
             (let lcaas = dict_get ctx ''lcaas_id''
              in if \<not> names_a_target data \<and> \<not> truthy lcaas then (Inr (build_xdr_reply (VDict [])), w)
                 else case select_endpoints clock data w of
                        (Inl e, w') \<Rightarrow> (Inl e, w')
                      | (Inr selected, w') \<Rightarrow>
                          (case (if truthy lcaas then keepE (\<lambda>e. py_in (dict_get (fields_of e) ''endpoint_id'') lcaas) selected
                                 else Inr selected) of
                             Inl e \<Rightarrow> (Inl e, w')
                           | Inr hits \<Rightarrow>
                               (Inr (build_xdr_reply (VDict [])),
                                save_each (retagged assign (if truthy (dict_get data ''tag'') then py_str (dict_get data ''tag'') else []))
                                  hits w')))
         | _ \<Rightarrow> (Inl (Escapes (AttributeError ''get'')), w))"

section \<open>The status of an action\<close>

definition WIRE_STATUS :: "(string \<times> string) list" where
  "WIRE_STATUS = [(''completed'', ''COMPLETED_SUCCESSFULLY''), (''failed'', ''FAILED'')]"

text \<open>\<open>action.endpoint_ids or [action.endpoint_id]\<close>.\<close>

definition action_covers :: "jobj \<Rightarrow> string list" where
  "action_covers action =
     (case dict_get action ''endpoint_ids'' of
        VList (v # vs) \<Rightarrow> map py_str (v # vs)
      | _ \<Rightarrow> [py_str (dict_get action ''endpoint_id'')])"

fun settle_covered :: "rat \<Rightarrow> string list \<Rightarrow> world \<Rightarrow> world" where
  "settle_covered clock [] w = w"
| "settle_covered clock (i # ids) w =
     settle_covered clock ids
       (case repo_find (wdb w) ''xdr_endpoints'' i of None \<Rightarrow> w | Some e \<Rightarrow> snd (settle_isolation clock True e w))"

definition get_action_status :: "rat \<Rightarrow> string \<Rightarrow> world \<Rightarrow> pyval option \<times> world" where
  "get_action_status clock action_id w =
     (case repo_find (wdb w) ''xdr_actions'' action_id of
        None \<Rightarrow> (None, w)
      | Some found \<Rightarrow>
          (let waiting = (dict_get found ''status'' = VStr ''pending'');
               action = (if waiting then AList.update ''status'' (VStr ''completed'') found else found);
               w1 = (if waiting then on_db (xdr_action_save action) w else w);
               ids = action_covers action;
               w2 = (if waiting \<and> dict_get action ''action_type'' \<in> {VStr ''isolate'', VStr ''unisolate''}
                     then settle_covered clock ids w1 else w1);
               status = (case dict_get action ''status'' of
                           VStr t \<Rightarrow> (case map_of WIRE_STATUS t of None \<Rightarrow> ''COMPLETED_SUCCESSFULLY'' | Some u \<Rightarrow> u)
                         | _ \<Rightarrow> ''COMPLETED_SUCCESSFULLY'');
               per = (\<lambda>v. VDict (fold (\<lambda>i. AList.update i v) ids []));
               reason = VDict [(''errorData'', VStr []), (''terminated_by'', VStr []), (''errorDescription'', VStr []),
                               (''terminate_result'', VList [])]
           in (Some (build_xdr_reply (VDict ([(''data'', per (VStr status))] @
                 (if status = ''FAILED'' then [(''errorReasons'', per reason)] else [])))), w2)))"

definition get_file_retrieval_details :: "string \<Rightarrow> db \<Rightarrow> pyval option" where
  "get_file_retrieval_details action_id s =
     map_option (\<lambda>action. build_xdr_reply (VDict [
       (''action_id'', VStr action_id), (''endpoint_id'', dict_get action ''endpoint_id''),
       (''file_link'', VStr (''https://xdr-mock.acmecorp.internal/files/'' @ action_id @ ''/download'')),
       (''file_name'', VStr ''retrieved_file.zip''), (''file_size'', VInt 1048576), (''status'', VStr ''ready'')]))
       (repo_find s ''xdr_actions'' action_id)"

section \<open>The contract of an isolation\<close>

definition xdr_due :: "rat \<Rightarrow> jobj \<Rightarrow> bool" where
  "xdr_due clock e \<longleftrightarrow> settles_into XDR_SETTLES_INTO (get_or e ''is_isolated'' (VStr [])) \<noteq> None \<and>
     has_answered (Some (clock - seconds_of_ms (requested_ms e)))"

definition xdr_finish :: "jobj \<Rightarrow> jobj" where
  "xdr_finish e =
     (case settles_into XDR_SETTLES_INTO (get_or e ''is_isolated'' (VStr [])) of None \<Rightarrow> e | Some t \<Rightarrow> isolation_settled t e)"

lemma xdr_targets: "settles_into XDR_SETTLES_INTO v = Some t \<Longrightarrow> t \<in> {AGENT_ISOLATED, AGENT_UNISOLATED}"
  by (auto simp: settles_into_def XDR_SETTLES_INTO_def split: pyval.splits if_splits)

lemma isolation_settled_sel [simp]:
  "dict_get (isolation_settled t e) ''is_isolated'' = VStr t"
  "get_or (isolation_settled t e) ''is_isolated'' d = VStr t"
  "xdr_key (isolation_settled t e) = xdr_key e"
  by (simp_all add: isolation_settled_def updates_def xdr_key_def)

lemma settled_not_pending:
  "t \<in> {AGENT_ISOLATED, AGENT_UNISOLATED} \<Longrightarrow> settles_into XDR_SETTLES_INTO (VStr t) = None \<and> \<not> in_table XDR_SETTLES_INTO (VStr t)"
  by (auto simp: settles_into_def in_table_def XDR_SETTLES_INTO_def AGENT_ISOLATED_def AGENT_UNISOLATED_def
      AGENT_PENDING_ISOLATION_def AGENT_PENDING_ISOLATION_CANCELLATION_def)

lemma settle_waits: "\<not> xdr_due clock e \<Longrightarrow> settle_isolation clock False e w = (e, w)"
  by (auto simp: settle_isolation_def xdr_due_def Let_def split: option.splits)

lemma settle_moves:
  assumes "xdr_due clock e \<or> at_once \<and> settles_into XDR_SETTLES_INTO (get_or e ''is_isolated'' (VStr [])) \<noteq> None"
  shows "\<exists>w'. settle_isolation clock at_once e w = (xdr_finish e, w') \<and> wdb w' = xdr_save (xdr_finish e) (wdb w) \<and>
    queued w' = queued w \<and>
    published w' = published w @ [event_of XdrEndpointUpdated (attr_text (xdr_finish e) ''endpoint_id'') (xdr_finish e)
      (let answered = seconds_of_ms (requested_ms e) + 1
       in if requested_ms e \<noteq> 0 \<and> answered \<noteq> 0 then min answered clock else clock)]"
  using assms
  by (auto simp: settle_isolation_def xdr_due_def xdr_finish_def Let_def SETTLE_SECONDS_def xdr_endpoint_changed_def
      split: option.splits)

lemma pending_text:
  "settles_into table (get_or e k (VStr [])) = Some t \<Longrightarrow> \<not> in_table table (VStr []) \<Longrightarrow> in_table table (dict_get e k)"
  using settles_into_in_table [of table "get_or e k (VStr [])" t] by (auto simp: get_or_def dict_get_def split: option.splits)

interpretation cortex_endpoints: device_action wdb "''xdr_endpoints''" xdr_key "''is_isolated''" "in_table XDR_SETTLES_INTO"
  xdr_due "\<lambda>clock e. Inr (xdr_finish e)" "\<lambda>clock e w. Inr (settle_isolation clock False e w)"
proof
  fix clock r w show "\<not> xdr_due clock r \<Longrightarrow> Inr (settle_isolation clock False r w) = (Inr (r, w) :: (jobj \<times> world) result)"
    by (simp add: settle_waits)
next
  fix clock r r' w assume d: "xdr_due clock r" "Inr (xdr_finish r) = (Inr r' :: jobj result)"
  then have "xdr_key r' = xdr_key r" by (auto simp: xdr_finish_def split: option.splits)
  then show "\<exists>w'. Inr (settle_isolation clock False r w) = (Inr (r', w') :: (jobj \<times> world) result) \<and>
      wdb w' = repo_save_raw (wdb w) ''xdr_endpoints'' (xdr_key r) (VDict r')"
    using settle_moves [of clock r False w] d by (auto simp: xdr_save_def)
next
  fix clock r assume "xdr_due clock r"
  then show "in_table XDR_SETTLES_INTO (dict_get r ''is_isolated'')"
    using pending_text [of XDR_SETTLES_INTO r "''is_isolated''"]
    by (auto simp: xdr_due_def in_table_def XDR_SETTLES_INTO_def AGENT_PENDING_ISOLATION_def AGENT_PENDING_ISOLATION_CANCELLATION_def)
next
  fix clock r r' assume d: "xdr_due clock r" "Inr (xdr_finish r) = (Inr r' :: jobj result)"
  then obtain t where "r' = isolation_settled t r" "t \<in> {AGENT_ISOLATED, AGENT_UNISOLATED}"
    using xdr_targets by (auto simp: xdr_due_def xdr_finish_def)
  then show "\<not> in_table XDR_SETTLES_INTO (dict_get r' ''is_isolated'') \<and> xdr_key r' = xdr_key r"
    using settled_not_pending by auto
qed

section \<open>The life of an isolation\<close>

lemma xdr_collections [simp]:
  "''xdr_endpoints'' \<in> set collection_names" "''xdr_actions'' \<in> set collection_names" "map_of caps ''xdr_endpoints'' = None"
  by (simp_all add: collection_names_def caps_def)

lemma round_half_even_nonneg: "0 \<le> q \<Longrightarrow> 0 \<le> round_half_even q"
  by (simp add: round_half_even_def Let_def)

lemma seconds_of_ms_nonneg: "0 \<le> ms \<Longrightarrow> 0 \<le> seconds_of_ms ms"
proof -
  assume "0 \<le> ms"
  have "0 \<le> v" if "round_double (of_int ms / 1000) = Fin v" for v
  proof -
    have "0 \<le> rat_of_int (round_half_even (rat_of_int ms / (1000 * pow2 x))) * pow2 x" for x
      using \<open>0 \<le> ms\<close> by (intro mult_nonneg_nonneg) (simp_all add: round_half_even_nonneg pow2_def)
    then show ?thesis using that \<open>0 \<le> ms\<close> by (auto simp: round_double_def Let_def split: if_splits)
  qed
  then show ?thesis by (auto simp: seconds_of_ms_def split: pyfloat.splits)
qed

lemma on_endpoints_one:
  assumes "repo_get (wdb w) ''xdr_endpoints'' i = Some (VDict e)" "xdr_key e = i" "change e = Some e'" "xdr_key e' = i" "store_inv (wdb w)"
  shows "\<exists>w'. on_endpoints clock change [i] w = w' \<and> store_inv (wdb w') \<and>
    repo_get (wdb w') ''xdr_endpoints'' i = Some (VDict e')"
  using assms by (simp add: repo_find_def fields_of_def xdr_save_def repo_save_existing)

lemma started_effect:
  assumes "store_inv (wdb w)"
  shows "\<exists>w'. started uuid ms kind None False [i] w = (Some (build_xdr_reply (VDict
      [(''action_id'', VStr uuid), (''endpoints_count'', VStr ''1'')])), w') \<and> store_inv (wdb w') \<and>
    repo_find (wdb w') ''xdr_actions'' uuid = Some (XdrAction uuid kind i [i] ms) \<and>
    (\<forall>j. repo_get (wdb w') ''xdr_endpoints'' j = repo_get (wdb w) ''xdr_endpoints'' j)"
proof -
  have one: "str_of_nat 1 = ''1''" by code_simp
  show ?thesis
    using assms one
    by (simp add: started_def xdr_create_action_def Let_def xdr_action_save_def XdrAction_def repo_find_def fields_of_def
        repo_save_same repo_save_other)
qed

lemma settle_stored:
  assumes "repo_get (wdb w) ''xdr_endpoints'' i = Some (VDict e)" "xdr_key e = i"
    and "settles_into XDR_SETTLES_INTO (get_or e ''is_isolated'' (VStr [])) = Some t" "at_once \<or> xdr_due clock e"
  shows "\<exists>w'. settle_isolation clock at_once e w = (isolation_settled t e, w') \<and>
    repo_find (wdb w') ''xdr_endpoints'' i = Some (isolation_settled t e) \<and>
    published w' = published w @ [event_of XdrEndpointUpdated (attr_text e ''endpoint_id'') (isolation_settled t e)
      (let answered = seconds_of_ms (requested_ms e) + 1
       in if requested_ms e \<noteq> 0 \<and> answered \<noteq> 0 then min answered clock else clock)]"
proof -
  have fin: "xdr_finish e = isolation_settled t e" using assms(3) by (simp add: xdr_finish_def)
  have "attr_text (isolation_settled t e) ''endpoint_id'' = attr_text e ''endpoint_id''"
    by (simp add: attr_text_def isolation_settled_def updates_def)
  then show ?thesis
    using settle_moves [of clock e at_once w] assms fin
    by (auto simp: xdr_save_def repo_find_def fields_of_def repo_save_existing)
qed

text \<open>
  C17. The life of an isolation (a release), asked at millisecond \<open>ms\<close> of an endpoint that is not isolated (released)
  nor on its way: the endpoint reads \<open>AGENT_PENDING_ISOLATION\<close> (\<open>..._CANCELLATION\<close>) until one second after; from then on
  it reads \<open>AGENT_ISOLATED\<close> (\<open>AGENT_UNISOLATED\<close>), the change is stored and published dated by the answer, and it
  never moves again. A client that polls the action instead is told at once that the endpoint has completed, and then
  the stored endpoint is indeed isolated (released).
\<close>

theorem isolation_lifecycle:
  assumes "store_inv (wdb w)" "repo_get (wdb w) ''xdr_endpoints'' i = Some (VDict e)" "map_of e ''endpoint_id'' = Some (VStr i)"
    and "(ask, p, final) \<in> {(isolate_endpoint, AGENT_PENDING_ISOLATION, AGENT_ISOLATED),
           (unisolate_endpoint, AGENT_PENDING_ISOLATION_CANCELLATION, AGENT_UNISOLATED)}"
    and "dict_get e ''is_isolated'' \<notin> {VStr p, VStr final}" "0 < ms"
  shows "\<exists>w1 e1. ask uuid ms clock [i] w =
      (Some (build_xdr_reply (VDict [(''action_id'', VStr uuid), (''endpoints_count'', VStr ''1'')])), w1) \<and>
    repo_find (wdb w1) ''xdr_endpoints'' i = Some e1 \<and> dict_get e1 ''is_isolated'' = VStr p \<and>
    (if later - seconds_of_ms ms \<le> 1 then settle_isolation later False e1 w1 = (e1, w1)
     else \<exists>w2 e2. settle_isolation later False e1 w1 = (e2, w2) \<and> dict_get e2 ''is_isolated'' = VStr final \<and>
       repo_find (wdb w2) ''xdr_endpoints'' i = Some e2 \<and>
       published w2 = published w1 @ [event_of XdrEndpointUpdated i e2 (seconds_of_ms ms + 1)] \<and>
       settle_isolation again False e2 w2 = (e2, w2)) \<and>
    (\<exists>w3 e3. get_action_status soon uuid w1 =
       (Some (build_xdr_reply (VDict [(''data'', VDict [(i, VStr ''COMPLETED_SUCCESSFULLY'')])])), w3) \<and>
       repo_find (wdb w3) ''xdr_endpoints'' i = Some e3 \<and> dict_get e3 ''is_isolated'' = VStr final)"
proof -
  obtain change kind where ask: "\<And>w. ask uuid ms clock [i] w = (case covered (wdb w) [i] of
        [] \<Rightarrow> (None, w) | ids \<Rightarrow> started uuid ms kind None False ids (on_endpoints clock (change ms) [i] w))"
    and kind: "kind \<in> {''isolate'', ''unisolate''}" and change: "(change, p, final) \<in> {(isolating, AGENT_PENDING_ISOLATION, AGENT_ISOLATED),
       (releasing, AGENT_PENDING_ISOLATION_CANCELLATION, AGENT_UNISOLATED)}"
    using assms(4) by (auto simp: isolate_endpoint_def unisolate_endpoint_def)
  have key: "xdr_key e = i" "attr_text e ''endpoint_id'' = i"
    using assms(3) by (simp_all add: xdr_key_def attr_text_def get_or_def dict_get_def)
  obtain e1 where e1: "change ms e = Some e1" "xdr_key e1 = i" "attr_text e1 ''endpoint_id'' = i" "dict_get e1 ''is_isolated'' = VStr p"
    "get_or e1 ''is_isolated'' (VStr []) = VStr p" "requested_ms e1 = ms"
    using change assms(5) key
    by (auto simp: isolating_def releasing_def updates_def xdr_key_def attr_text_def requested_ms_def)
  have cov: "covered (wdb w) [i] = [i]" using assms(2) key by (simp add: covered_def repo_find_def fields_of_def List.map_filter_def)
  obtain w0 where w0: "on_endpoints clock (change ms) [i] w = w0" "store_inv (wdb w0)" "repo_get (wdb w0) ''xdr_endpoints'' i = Some (VDict e1)"
    using on_endpoints_one [where change = "change ms", OF assms(2) key(1) e1(1,2) assms(1), of clock] by blast
  obtain w1 where w1: "ask uuid ms clock [i] w =
      (Some (build_xdr_reply (VDict [(''action_id'', VStr uuid), (''endpoints_count'', VStr ''1'')])), w1)" "store_inv (wdb w1)"
    "repo_find (wdb w1) ''xdr_actions'' uuid = Some (XdrAction uuid kind i [i] ms)" "repo_get (wdb w1) ''xdr_endpoints'' i = Some (VDict e1)"
    using started_effect [OF w0(2), of uuid ms kind i] w0 by (auto simp: ask cov)
  have find1: "repo_find (wdb w1) ''xdr_endpoints'' i = Some e1" using w1(4) by (simp add: repo_find_def fields_of_def)
  have into: "settles_into XDR_SETTLES_INTO (get_or e1 ''is_isolated'' (VStr [])) = Some final"
    using change by (auto simp: e1(5) settles_into_def XDR_SETTLES_INTO_def AGENT_PENDING_ISOLATION_def AGENT_PENDING_ISOLATION_CANCELLATION_def)
  have due: "xdr_due later e1 \<longleftrightarrow> \<not> later - seconds_of_ms ms \<le> 1"
    using into by (auto simp: xdr_due_def e1(6) has_answered_def SETTLE_SECONDS_def)
  define e2 where "e2 = isolation_settled final e1"
  have "\<not> xdr_due again e2"
    using settled_not_pending [OF xdr_targets [OF into]] by (simp add: xdr_due_def e2_def)
  then have listing: "if later - seconds_of_ms ms \<le> 1 then settle_isolation later False e1 w1 = (e1, w1)
     else \<exists>w2 e2. settle_isolation later False e1 w1 = (e2, w2) \<and> dict_get e2 ''is_isolated'' = VStr final \<and>
       repo_find (wdb w2) ''xdr_endpoints'' i = Some e2 \<and>
       published w2 = published w1 @ [event_of XdrEndpointUpdated i e2 (seconds_of_ms ms + 1)] \<and>
       settle_isolation again False e2 w2 = (e2, w2)"
    using settle_waits [of later e1 w1] settle_stored [OF w1(4) e1(2) into, of False later] due assms(6) seconds_of_ms_nonneg [of ms] e1(3,6)
    by (auto simp: e2_def Let_def settle_waits)
  define a where "a = AList.update ''status'' (VStr ''completed'') (XdrAction uuid kind i [i] ms)"
  define w2 where "w2 = on_db (xdr_action_save a) w1"
  have w2e: "repo_get (wdb w2) ''xdr_endpoints'' i = Some (VDict e1)"
    using w1(4) by (simp add: w2_def xdr_action_save_def repo_save_other)
  then have find2: "repo_find (wdb w2) ''xdr_endpoints'' i = Some e1" by (simp add: repo_find_def fields_of_def)
  obtain w3 where w3: "settle_isolation soon True e1 w2 = (e2, w3)" "repo_find (wdb w3) ''xdr_endpoints'' i = Some e2"
    using settle_stored [OF w2e e1(2) into, of True] e2_def by blast
  have "get_action_status soon uuid w1 =
      (Some (build_xdr_reply (VDict [(''data'', VDict [(i, VStr ''COMPLETED_SUCCESSFULLY'')])])), w3)"
    using w1(3) kind find2 w3(1)
    by (auto simp: get_action_status_def Let_def XdrAction_def a_def w2_def action_covers_def WIRE_STATUS_def)
  then show ?thesis
    using w1(1) find1 e1(4) listing w3(2) e2_def by (intro exI [of _ w1] exI [of _ e1]) auto
qed

section \<open>Which endpoints a write reaches\<close>

lemma settle_endpoints_fst:
  "fst (settle_endpoints clock es w) = map (\<lambda>e. if xdr_due clock e then xdr_finish e else e) es"
proof (induction es arbitrary: w)
  case (Cons e es)
  have "fst (settle_isolation clock False e w) = (if xdr_due clock e then xdr_finish e else e)"
    using settle_waits [of clock e w] settle_moves [of clock e False w] by auto
  then show ?case using Cons by (simp add: Let_def split_beta)
qed simp

lemma settle_endpoints_db:
  assumes "distinct (map xdr_key es)" "\<forall>e \<in> set es. repo_get (wdb w) ''xdr_endpoints'' (xdr_key e) = Some (VDict e)"
  shows "repo_get (wdb (snd (settle_endpoints clock es w))) c j =
    (if c = ''xdr_endpoints'' then
       (case find (\<lambda>e. xdr_key e = j) es of
          None \<Rightarrow> repo_get (wdb w) c j | Some e \<Rightarrow> Some (VDict (if xdr_due clock e then xdr_finish e else e)))
     else repo_get (wdb w) c j)"
  using assms
proof (induction es arbitrary: w)
  case (Cons e es)
  define w1 where "w1 = snd (settle_isolation clock False e w)"
  have key: "xdr_key (xdr_finish e) = xdr_key e" by (simp add: xdr_finish_def split: option.splits)
  have db: "wdb w1 = (if xdr_due clock e then repo_save_raw (wdb w) ''xdr_endpoints'' (xdr_key e) (VDict (xdr_finish e)) else wdb w)"
    using settle_waits [of clock e w] settle_moves [of clock e False w] key by (auto simp: w1_def xdr_save_def)
  have here: "repo_get (wdb w) ''xdr_endpoints'' (xdr_key e) \<noteq> None" using Cons.prems(2) by simp
  have get: "repo_get (wdb w1) c j = (if c = ''xdr_endpoints'' \<and> j = xdr_key e
      then Some (VDict (if xdr_due clock e then xdr_finish e else e)) else repo_get (wdb w) c j)" for c j
    using Cons.prems(2) repo_update [OF here] by (simp add: db)
  have absent: "find (\<lambda>x. xdr_key x = xdr_key e) es = None"
    using Cons.prems(1) by (auto simp: find_None_iff image_iff)
  have "\<forall>x \<in> set es. repo_get (wdb w1) ''xdr_endpoints'' (xdr_key x) = Some (VDict x)"
    using Cons.prems by (auto simp: get image_iff)
  then have "repo_get (wdb (snd (settle_endpoints clock es w1))) c j =
    (if c = ''xdr_endpoints'' then
       (case find (\<lambda>e. xdr_key e = j) es of
          None \<Rightarrow> repo_get (wdb w1) c j | Some e \<Rightarrow> Some (VDict (if xdr_due clock e then xdr_finish e else e)))
     else repo_get (wdb w1) c j)"
    using Cons.IH [of w1] Cons.prems(1) by simp
  then show ?case using absent by (cases "j = xdr_key e") (auto simp: Let_def split_beta w1_def [symmetric] get split: option.splits)
qed simp

lemma save_each_get:
  assumes "\<And>e. e \<in> set es \<Longrightarrow> repo_get (wdb w) ''xdr_endpoints'' (xdr_key (fields_of e)) \<noteq> None"
    and "\<And>r. xdr_key (change r) = xdr_key r" "distinct (map (\<lambda>e. xdr_key (fields_of e)) es)"
  shows "repo_get (wdb (save_each change es w)) ''xdr_endpoints'' j =
    (case find (\<lambda>e. xdr_key (fields_of e) = j) es of
       None \<Rightarrow> repo_get (wdb w) ''xdr_endpoints'' j | Some e \<Rightarrow> Some (VDict (change (fields_of e))))"
  using assms(1,3)
proof (induction es arbitrary: w)
  case (Cons e es)
  define w1 where "w1 = w\<lparr>wdb := xdr_save (change (fields_of e)) (wdb w)\<rparr>"
  have get: "repo_get (wdb w1) ''xdr_endpoints'' j = (if j = xdr_key (fields_of e) then Some (VDict (change (fields_of e)))
      else repo_get (wdb w) ''xdr_endpoints'' j)" for j
    using Cons.prems(1) assms(2) by (simp add: w1_def xdr_save_def repo_save_existing)
  have "save_each change (e # es) w = save_each change es w1" by (simp add: save_each_def w1_def)
  moreover have "find (\<lambda>x. xdr_key (fields_of x) = xdr_key (fields_of e)) es = None"
    using Cons.prems(2) by (auto simp: find_None_iff image_iff)
  moreover have "repo_get (wdb (save_each change es w1)) ''xdr_endpoints'' j =
      (case find (\<lambda>e. xdr_key (fields_of e) = j) es of
       None \<Rightarrow> repo_get (wdb w1) ''xdr_endpoints'' j | Some e \<Rightarrow> Some (VDict (change (fields_of e))))"
    using Cons.IH [of w1] Cons.prems by (auto simp: get)
  ultimately show ?case by (cases "j = xdr_key (fields_of e)") (auto simp: get split: option.splits)
qed (simp add: save_each_def)

lemma keepE_subset: "keepE test xs = Inr ys \<Longrightarrow> \<exists>P. ys = filter P xs"
  using keepE_Inr by blast

lemma apply_xdr_filters_subset: "apply_xdr_filters rs fs fm = Inr kept \<Longrightarrow> \<exists>P. kept = filter P rs"
  unfolding apply_xdr_filters_def using apply_entries_Inr [of fm _ rs kept]
  by (auto split: if_splits option.splits intro: exI [of _ "\<lambda>_. True"])

lemma selected_stored:
  assumes "store_inv (wdb w)" "keyed_by xdr_key (wdb w) ''xdr_endpoints''" "select_endpoints clock rd w = (Inr sel, w1)"
  shows "distinct (map (\<lambda>e. xdr_key (fields_of e)) sel)"
    "\<And>e. e \<in> set sel \<Longrightarrow> \<exists>r. e = VDict r \<and> repo_get (wdb w1) ''xdr_endpoints'' (xdr_key r) = Some e"
proof -
  let ?rs = "map fields_of (repo_list_all (wdb w) ''xdr_endpoints'')"
  let ?now = "\<lambda>e. if xdr_due clock e then xdr_finish e else e"
  have key: "xdr_key (?now e) = xdr_key e" for e by (simp add: xdr_finish_def split: option.splits)
  note keyed = keyed_by_list [OF assms(1,2)]
  obtain mid P Q where mid: "mid = filter P (map VDict (map ?now ?rs))" "sel = filter Q mid"
    and w1: "w1 = snd (settle_endpoints clock ?rs w)"
  proof -
    obtain mid where m: "apply_xdr_filters (map VDict (map ?now ?rs)) (translated_filters (dict_get rd ''filters'')) ENDPOINT_FILTER_FIELDS = Inr mid"
      "(if truthy (dict_get rd ''endpoint_id_list'') then keepE (\<lambda>x. py_in (get_nested x ''endpoint_id'') (dict_get rd ''endpoint_id_list'')) mid
        else Inr mid) = Inr sel" "w1 = snd (settle_endpoints clock ?rs w)"
      using assms(3) unfolding select_endpoints_def Let_def split_beta settle_endpoints_fst
      by (cases "apply_xdr_filters (map VDict (map ?now ?rs)) (translated_filters (dict_get rd ''filters'')) ENDPOINT_FILTER_FIELDS")
        auto
    obtain P where "mid = filter P (map VDict (map ?now ?rs))" using apply_xdr_filters_subset [OF m(1)] by blast
    moreover obtain Q where "sel = filter Q mid"
      using m(2) keepE_subset [of _ mid sel] by (auto split: if_splits intro: filter_True [symmetric])
    ultimately show ?thesis using that m(3) by blast
  qed
  have "map (\<lambda>e. xdr_key (fields_of e)) (map VDict (map ?now ?rs)) = map (\<lambda>e. xdr_key (?now e)) ?rs"
    by (simp add: fields_of_def)
  then have "map (\<lambda>e. xdr_key (fields_of e)) (map VDict (map ?now ?rs)) = map xdr_key ?rs"
    unfolding key .
  then have "distinct (map (\<lambda>e. xdr_key (fields_of e)) (map VDict (map ?now ?rs)))" using keyed(1) by metis
  then show "distinct (map (\<lambda>e. xdr_key (fields_of e)) sel)" unfolding mid by (intro distinct_map_filter)
  fix e assume "e \<in> set sel"
  then obtain r where r: "r \<in> set ?rs" "e = VDict (?now r)" unfolding mid by auto
  have "\<forall>r \<in> set ?rs. repo_get (wdb w) ''xdr_endpoints'' (xdr_key r) = Some (VDict r)" using keyed(2) by blast
  note db = settle_endpoints_db [OF keyed(1) this, of clock "''xdr_endpoints''" "xdr_key r"]
  have "find (\<lambda>x. xdr_key x = xdr_key r) ?rs = Some r"
  proof (cases "find (\<lambda>x. xdr_key x = xdr_key r) ?rs")
    case None then show ?thesis using r(1) by (auto simp: find_None_iff)
  next
    case (Some x)
    then have "x \<in> set ?rs" "xdr_key x = xdr_key r" by (auto simp: find_Some_iff)
    then have "x = r" using keyed(1) r(1) by (metis distinct_map inj_onD)
    then show ?thesis using Some by simp
  qed
  then have "repo_get (wdb w1) ''xdr_endpoints'' (xdr_key (?now r)) = Some e" using db key [of r] by (simp add: w1 r(2))
  then show "\<exists>r. e = VDict r \<and> repo_get (wdb w1) ''xdr_endpoints'' (xdr_key r) = Some e" using r(2) by blast
qed

text \<open>
  C18. A rename reaches what its filters show: when \<open>update_agent_name\<close> answers success, the endpoints whose alias is set are exactly
  those a listing with the same request would return; every other endpoint is as the settling listing left it.
  A request that names no target changes nothing at all.
\<close>

theorem rename_reaches_selection:
  assumes "store_inv (wdb w)" "keyed_by xdr_key (wdb w) ''xdr_endpoints''"
    and "update_agent_name clock request_data alias w = (Inr reply, w')"
  shows "(\<not> names_a_target request_data \<longrightarrow> reply = None \<and> w' = w) \<and>
    (reply \<noteq> None \<longrightarrow> (\<exists>sel w1. select_endpoints clock request_data w = (Inr sel, w1) \<and> sel \<noteq> [] \<and>
      (\<forall>j. repo_get (wdb w') ''xdr_endpoints'' j =
        (case find (\<lambda>e. xdr_key (fields_of e) = j) sel of
           None \<Rightarrow> repo_get (wdb w1) ''xdr_endpoints'' j
         | Some e \<Rightarrow> Some (VDict (AList.update ''alias'' alias (fields_of e)))))))"
proof (intro conjI impI)
  show "\<not> names_a_target request_data \<Longrightarrow> reply = None" "\<not> names_a_target request_data \<Longrightarrow> w' = w"
    using assms(3) by (simp_all add: update_agent_name_def)
next
  assume "reply \<noteq> None"
  then obtain sel w1 where sel: "select_endpoints clock request_data w = (Inr sel, w1)" "sel \<noteq> []"
    "w' = save_each (AList.update ''alias'' alias) sel w1"
    using assms(3) by (auto simp: update_agent_name_def split: if_splits prod.splits sum.splits)
  note stored = selected_stored [OF assms(1,2) sel(1)]
  have "repo_get (wdb w') ''xdr_endpoints'' j =
        (case find (\<lambda>e. xdr_key (fields_of e) = j) sel of
           None \<Rightarrow> repo_get (wdb w1) ''xdr_endpoints'' j
         | Some e \<Rightarrow> Some (VDict (AList.update ''alias'' alias (fields_of e))))" for j
    unfolding sel(3) using stored by (intro save_each_get) (force simp: xdr_key_def fields_of_def)+
  then show "\<exists>sel w1. select_endpoints clock request_data w = (Inr sel, w1) \<and> sel \<noteq> [] \<and>
      (\<forall>j. repo_get (wdb w') ''xdr_endpoints'' j =
        (case find (\<lambda>e. xdr_key (fields_of e) = j) sel of
           None \<Rightarrow> repo_get (wdb w1) ''xdr_endpoints'' j
         | Some e \<Rightarrow> Some (VDict (AList.update ''alias'' alias (fields_of e)))))"
    using sel(1,2) by blast
qed

text \<open>
  The guard against a write without a target accepts an \<open>endpoint_id\<close>, but the selection does not read it: a rename of one
  endpoint by its id selects all of them.
\<close>

lemma rename_by_id_selects_all:
  assumes "dict_get rd ''endpoint_id'' = VStr (c # i)" "dict_get rd ''filters'' = VNone" "dict_get rd ''endpoint_id_list'' = VNone"
  shows "names_a_target rd"
    "fst (select_endpoints clock rd w) = Inr (map VDict (fst (settle_endpoints clock (map fields_of (repo_list_all (wdb w) ''xdr_endpoints'')) w)))"
  using assms by (simp_all add: names_a_target_def select_endpoints_def Let_def split_beta translated_filters_def apply_xdr_filters_def)

text \<open>An \<open>endpoint_id_list\<close> sent as text is searched as text: \<open>ep-10\<close> also selects \<open>ep-1\<close>.\<close>

lemma id_list_text_is_substring: "py_in (VStr ''ep-1'') (VStr ''ep-10'') = Inr True"
  by code_simp

section \<open>Witnesses\<close>

definition demo_endpoint :: "string \<Rightarrow> jobj" where
  "demo_endpoint i = [(''endpoint_id'', VStr i), (''os_type'', VStr ''linux''), (''is_isolated'', VStr AGENT_UNISOLATED), (''alias'', VStr [])]"

definition demo_estate :: world where
  "demo_estate = \<lparr>wdb = xdr_save (demo_endpoint ''b'') (xdr_save (demo_endpoint ''a'') init_store), published = [], queued = []\<rparr>"

lemma demo_estate_get: "repo_get (wdb demo_estate) ''xdr_endpoints'' j = (if j \<in> {''a'', ''b''} then Some (VDict (demo_endpoint j)) else None)"
  by (simp add: demo_estate_def xdr_save_def demo_endpoint_def xdr_key_def repo_save_uncapped store_inv_init)

lemma demo_estate_ok: "store_inv (wdb demo_estate)" "keyed_by xdr_key (wdb demo_estate) ''xdr_endpoints''"
  by (simp add: demo_estate_def xdr_save_def store_inv_init)
    (simp add: keyed_by_def demo_estate_get demo_endpoint_def xdr_key_def)

lemma demo_estate_list: "repo_list_all (wdb demo_estate) ''xdr_endpoints'' = [VDict (demo_endpoint ''a''), VDict (demo_endpoint ''b'')]"
  by (simp add: demo_estate_def xdr_save_def repo_save_raw_def store_save_def repo_list_all_def store_get_all_def
      coll_init evict_def demo_endpoint_def xdr_key_def)

theorem isolation_lifecycle_witness:
  "\<exists>w1 e1 (w3 :: world) e3. isolate_endpoint ''u'' 1700000000000 0 [''a''] demo_estate =
      (Some (build_xdr_reply (VDict [(''action_id'', VStr ''u''), (''endpoints_count'', VStr ''1'')])), w1) \<and>
    repo_find (wdb w1) ''xdr_endpoints'' ''a'' = Some e1 \<and> dict_get e1 ''is_isolated'' = VStr AGENT_PENDING_ISOLATION \<and>
    repo_find (wdb w3) ''xdr_endpoints'' ''a'' = Some e3 \<and> dict_get e3 ''is_isolated'' = VStr AGENT_ISOLATED"
proof -
  have g: "repo_get (wdb demo_estate) ''xdr_endpoints'' ''a'' = Some (VDict (demo_endpoint ''a''))" by (simp add: demo_estate_get)
  have i: "map_of (demo_endpoint ''a'') ''endpoint_id'' = Some (VStr ''a'')" by (simp add: demo_endpoint_def)
  have m: "(isolate_endpoint, AGENT_PENDING_ISOLATION, AGENT_ISOLATED) \<in> {(isolate_endpoint, AGENT_PENDING_ISOLATION, AGENT_ISOLATED),
      (unisolate_endpoint, AGENT_PENDING_ISOLATION_CANCELLATION, AGENT_UNISOLATED)}" by simp
  have n: "dict_get (demo_endpoint ''a'') ''is_isolated'' \<notin> {VStr AGENT_PENDING_ISOLATION, VStr AGENT_ISOLATED}"
    by (simp add: demo_endpoint_def AGENT_PENDING_ISOLATION_def AGENT_ISOLATED_def AGENT_UNISOLATED_def)
  have t: "(0 :: int) < 1700000000000" by simp
  show ?thesis
    using isolation_lifecycle [where uuid = "''u''" and clock = 0 and later = 5 and again = 5 and soon = 5,
        OF demo_estate_ok(1) g i m n t]
    by (elim exE conjE) (intro exI conjI; assumption)
qed

theorem rename_reaches_selection_witness:
  "\<exists>w'. update_agent_name 5 [(''endpoint_id_list'', VList [VStr ''b''])] (VStr ''n'') demo_estate =
      (Inr (Some (build_xdr_reply (VBool True))), w') \<and>
    repo_get (wdb w') ''xdr_endpoints'' ''a'' = Some (VDict (demo_endpoint ''a'')) \<and>
    repo_get (wdb w') ''xdr_endpoints'' ''b'' = Some (VDict (AList.update ''alias'' (VStr ''n'') (demo_endpoint ''b'')))"
proof -
  let ?rd = "[(''endpoint_id_list'', VList [VStr ''b''])]"
  have idle: "settle_isolation 5 False (demo_endpoint i) w = (demo_endpoint i, w)" for i w
    by (simp add: settle_isolation_def demo_endpoint_def get_or_def settles_into_def XDR_SETTLES_INTO_def AGENT_PENDING_ISOLATION_def
        AGENT_PENDING_ISOLATION_CANCELLATION_def AGENT_UNISOLATED_def)
  have n: "get_nested (VDict (demo_endpoint i)) ''endpoint_id'' = VStr i" for i
    by (simp add: get_nested_flat demo_endpoint_def)
  have sel: "select_endpoints 5 ?rd demo_estate = (Inr [VDict (demo_endpoint ''b'')], demo_estate)"
    by (simp add: select_endpoints_def demo_estate_list fields_of_def idle translated_filters_def apply_xdr_filters_def n py_in_def)
  then obtain w' where upd: "update_agent_name 5 ?rd (VStr ''n'') demo_estate = (Inr (Some (build_xdr_reply (VBool True))), w')"
    by (simp add: update_agent_name_def names_a_target_def)
  from rename_reaches_selection [OF demo_estate_ok upd] have
    "repo_get (wdb w') ''xdr_endpoints'' j =
        (case find (\<lambda>e. xdr_key (fields_of e) = j) [VDict (demo_endpoint ''b'')] of
           None \<Rightarrow> repo_get (wdb demo_estate) ''xdr_endpoints'' j
         | Some e \<Rightarrow> Some (VDict (AList.update ''alias'' (VStr ''n'') (fields_of e))))" for j
    using sel by auto
  then have "repo_get (wdb w') ''xdr_endpoints'' ''a'' = Some (VDict (demo_endpoint ''a''))"
    "repo_get (wdb w') ''xdr_endpoints'' ''b'' = Some (VDict (AList.update ''alias'' (VStr ''n'') (demo_endpoint ''b'')))"
    by (simp_all add: demo_estate_get fields_of_def xdr_key_def demo_endpoint_def)
  then show ?thesis using upd by blast
qed

end
