(* ===== verification/Odata.thy ===== *)
theory Odata
  imports Py_Sort
begin

text \<open>
  The OData filters, orders and projections of Defender and Graph: \<open>src/backend/utils/mde_odata.py\<close>. The regular
  expression of the tokeniser is written out, with its backtracking where it has one; outside quotes the text is ASCII.
  The descent through parentheses is bounded by \<open>MAX_DEPTH\<close>, so the parser recurses on the depth that is
  left; the loop over the operands of one level runs on fuel, of which the tokens left are enough.

  Shown here: the parser accepts exactly the token lists of the grammar and never runs out of fuel; a printed filter is
  read back and keeps exactly the records it describes.
\<close>

section \<open>Tokens\<close>

datatype odata_failure = ODataFilterError string | Out_of_fuel | Odata_raises exn

datatype tok_kind =
  T_func | T_paren | T_string | T_op | T_conj | T_bool | T_null | T_guid | T_datetime | T_word | T_number | T_comma

type_synonym token = "tok_kind \<times> string"

abbreviation (input) quote :: char where "quote \<equiv> CHR 0x27"

text \<open>\<open>(?:[^']|'')*'\<close> after the opening quote: the longest match, which gives up a doubled quote when nothing closes the text after it.\<close>

fun quoted :: "string \<Rightarrow> (string \<times> string) option" where
  "quoted [] = None"
| "quoted (c # s) =
     (if c \<noteq> quote then map_option (\<lambda>(b, r). (c # b, r)) (quoted s)
      else case s of
             d # s' \<Rightarrow> (if d = quote
                       then (case quoted s' of Some (b, r) \<Rightarrow> Some (quote # b, r) | None \<Rightarrow> Some ([], s))
                       else Some ([], s))
           | [] \<Rightarrow> Some ([], s))"

text \<open>\<open>\b\<close> behind a word character.\<close>

definition word_ends :: "string \<Rightarrow> bool" where
  "word_ends s = (case s of [] \<Rightarrow> True | c # cs \<Rightarrow> \<not> is_word_char c)"

definition keyword_at :: "string list \<Rightarrow> string \<Rightarrow> (string \<times> string) option" where
  "keyword_at ws s =
     map_option (\<lambda>w. (w, drop (length w) s))
       (find (\<lambda>w. lower (take (length w) s) = w \<and> word_ends (drop (length w) s)) ws)"

definition FUNCS :: "string list" where "FUNCS = [''contains'', ''startswith'', ''endswith'']"

definition OPS :: "string list" where "OPS = [''eq'', ''ne'', ''ge'', ''gt'', ''le'', ''lt'', ''in'']"

definition CONJS :: "string list" where "CONJS = [''and'', ''or'']"

definition BOOLS :: "string list" where "BOOLS = [''true'', ''false'']"

definition call_opens :: "string \<Rightarrow> bool" where
  "call_opens s = (case dropWhile is_space s of [] \<Rightarrow> False | c # cs \<Rightarrow> c = CHR ''('')"

definition func_at :: "string \<Rightarrow> (string \<times> string) option" where
  "func_at s =
     map_option (\<lambda>f. (f, tl (dropWhile is_space (drop (length f) s))))
       (find (\<lambda>f. lower (take (length f) s) = f \<and> call_opens (drop (length f) s)) FUNCS)"

text \<open>A fixed sequence of character classes.\<close>

definition fits :: "(char \<Rightarrow> bool) list \<Rightarrow> string \<Rightarrow> bool" where
  "fits ps s \<longleftrightarrow> length ps \<le> length s \<and> list_all2 (\<lambda>p c. p c) ps (take (length ps) s)"

definition is_hex :: "char \<Rightarrow> bool" where
  "is_hex c \<longleftrightarrow> is_digit c \<or> lower_char c \<in> set ''abcdef''"

definition GUID_CLASSES :: "(char \<Rightarrow> bool) list" where
  "GUID_CLASSES =
     (let dash = (\<lambda>c. c = CHR ''-'')
      in replicate 8 is_hex @ [dash] @ replicate 4 is_hex @ [dash] @ replicate 4 is_hex @ [dash] @
         replicate 4 is_hex @ [dash] @ replicate 12 is_hex)"

definition DATE_CLASSES :: "(char \<Rightarrow> bool) list" where
  "DATE_CLASSES =
     (let dash = (\<lambda>c. c = CHR ''-'')
      in replicate 4 is_digit @ [dash] @ replicate 2 is_digit @ [dash] @ replicate 2 is_digit)"

definition TIME_CLASSES :: "(char \<Rightarrow> bool) list" where
  "TIME_CLASSES =
     (let colon = (\<lambda>c. c = CHR '':'')
      in [\<lambda>c. c \<in> set ''Tt ''] @ replicate 2 is_digit @ [colon] @ replicate 2 is_digit @ [colon] @ replicate 2 is_digit)"

definition ZONE_CLASSES :: "(char \<Rightarrow> bool) list" where
  "ZONE_CLASSES = [\<lambda>c. c \<in> set ''+-''] @ replicate 2 is_digit @ [\<lambda>c. c = CHR '':''] @ replicate 2 is_digit"

text \<open>How many characters of \<open>s\<close> a fraction \<open>\.\d+\<close> takes, none when there is none.\<close>

definition fraction_length :: "string \<Rightarrow> nat" where
  "fraction_length s =
     (case s of
        c # cs \<Rightarrow> (if c = CHR ''.'' \<and> takeWhile is_digit cs \<noteq> [] then Suc (length (takeWhile is_digit cs)) else 0)
      | [] \<Rightarrow> 0)"

definition datetime_length :: "string \<Rightarrow> nat" where
  "datetime_length s =
     (if \<not> fits DATE_CLASSES s then 0
      else let r = drop 10 s
           in if \<not> fits TIME_CLASSES r then 10
              else let n = 19 + fraction_length (drop 9 r); z = drop n s
                   in if z \<noteq> [] \<and> lower_char (hd z) = CHR ''z'' then n + 1
                      else if fits ZONE_CLASSES z then n + 6
                      else n)"

definition number_length :: "string \<Rightarrow> nat" where
  "number_length s =
     (let sign = (case s of c # cs \<Rightarrow> if c = CHR ''-'' then 1 else 0 | [] \<Rightarrow> 0);
          n = length (takeWhile is_digit (drop sign s))
      in if n = 0 then 0 else sign + n + fraction_length (drop (sign + n) s))"

definition is_path_char :: "char \<Rightarrow> bool" where
  "is_path_char c \<longleftrightarrow> is_word_char c \<or> c = CHR ''.'' \<or> c = CHR ''/''"

text \<open>The token at the front of the text, if any pattern matches there: white space is a match without a token.\<close>

definition lex1 :: "string \<Rightarrow> (token option \<times> string) option" where
  "lex1 s =
     (case func_at s of
        Some (f, r) \<Rightarrow> Some (Some (T_func, f), r)
      | None \<Rightarrow>
     (case s of
        [] \<Rightarrow> None
      | c # cs \<Rightarrow>
          if c = CHR ''('' \<or> c = CHR '')'' then Some (Some (T_paren, [c]), cs)
          else case (if c = quote then quoted cs else None) of
                 Some (b, r) \<Rightarrow> Some (Some (T_string, b), r)
               | None \<Rightarrow>
          (case keyword_at OPS s of
             Some (w, r) \<Rightarrow> Some (Some (T_op, w), r)
           | None \<Rightarrow>
          (case keyword_at CONJS s of
             Some (w, r) \<Rightarrow> Some (Some (T_conj, w), r)
           | None \<Rightarrow>
          (case keyword_at BOOLS s of
             Some (w, r) \<Rightarrow> Some (Some (T_bool, w), r)
           | None \<Rightarrow>
          (case keyword_at [''null''] s of
             Some (w, r) \<Rightarrow> Some (Some (T_null, ''null''), r)
           | None \<Rightarrow>
          (let d = datetime_length s; n = number_length s
           in if fits GUID_CLASSES s \<and> word_ends (drop 36 s) then Some (Some (T_guid, take 36 s), drop 36 s)
              else if 0 < d then Some (Some (T_datetime, take d s), drop d s)
              else if is_ident_start c
              then Some (Some (T_word, c # takeWhile is_path_char cs), dropWhile is_path_char cs)
              else if 0 < n then Some (Some (T_number, take n s), drop n s)
              else if c = CHR '','' then Some (Some (T_comma, '',''), cs)
              else if is_space c then Some (None, dropWhile is_space cs)
              else None)))))))"

lemma quoted_shorter: "quoted s = Some (b, r) \<Longrightarrow> length r < length s"
  by (induction s arbitrary: b r rule: quoted.induct) (fastforce split: if_splits list.splits option.splits)+

lemma find_holds: "find P xs = Some x \<Longrightarrow> P x \<and> x \<in> set xs"
  by (auto simp: find_Some_iff)

lemma keyword_at_shorter: "keyword_at ws s = Some (w, r) \<Longrightarrow> [] \<notin> set ws \<Longrightarrow> s \<noteq> [] \<Longrightarrow> length r < length s"
  by (cases w) (auto simp: keyword_at_def dest!: find_holds)

lemma func_at_shorter: "func_at s = Some (f, r) \<Longrightarrow> length r < length s"
proof -
  assume "func_at s = Some (f, r)"
  then have f: "call_opens (drop (length f) s)" "r = tl (dropWhile is_space (drop (length f) s))"
    by (auto simp: func_at_def dest: find_holds)
  have "length (dropWhile is_space (drop (length f) s)) \<le> length s"
    using length_dropWhile_le [of is_space "drop (length f) s"] by simp
  then show ?thesis using f by (cases "dropWhile is_space (drop (length f) s)") (simp_all add: call_opens_def)
qed

lemma lex1_shorter: "lex1 s = Some (t, r) \<Longrightarrow> length r < length s"
proof (cases s)
  case Nil
  then show "lex1 s = Some (t, r) \<Longrightarrow> length r < length s" using func_at_shorter [of s] by (auto simp: lex1_def split: option.splits)
next
  case (Cons c cs)
  have ne: "[] \<notin> set OPS" "[] \<notin> set CONJS" "[] \<notin> set BOOLS" "[] \<notin> set [''null'']" by (simp_all add: OPS_def CONJS_def BOOLS_def)
  have k: "keyword_at ws s = Some (w, r) \<Longrightarrow> [] \<notin> set ws \<Longrightarrow> length r < length s" for ws w r
    using keyword_at_shorter Cons by blast
  have d: "length (dropWhile P cs) < length s" for P using length_dropWhile_le [of P cs] by (simp add: Cons)
  show "lex1 s = Some (t, r) \<Longrightarrow> length r < length s"
    using quoted_shorter [of cs] func_at_shorter [of s] k [OF _ ne(1)] k [OF _ ne(2)] k [OF _ ne(3)] k [OF _ ne(4)] d
    unfolding lex1_def
    by (auto simp: Cons Let_def less_Suc_eq split: option.splits if_splits prod.splits)
qed

text \<open>What the error quotes: the characters up to the next place where a pattern matches.\<close>

fun junk :: "string \<Rightarrow> string" where
  "junk [] = []"
| "junk (c # cs) = c # (case lex1 cs of None \<Rightarrow> junk cs | Some m \<Rightarrow> [])"

function tokenise :: "string \<Rightarrow> odata_failure + token list" where
  "tokenise s =
     (if s = [] then Inr []
      else case lex1 s of
             None \<Rightarrow> Inl (ODataFilterError (''unexpected character(s) in filter: '' @ repr_str (junk s)))
           | Some (t, r) \<Rightarrow>
               (case tokenise r of
                  Inl e \<Rightarrow> Inl e
                | Inr ts \<Rightarrow> Inr (case t of None \<Rightarrow> ts | Some tok \<Rightarrow> tok # ts)))"
  by pat_completeness auto
termination by (relation "measure length") (auto dest: lex1_shorter)

declare tokenise.simps [simp del]

section \<open>The parser\<close>

datatype odata_node =
    ODataClause (od_field: string) (od_operator: string) (od_value: string) (od_literal: string)
  | ODataGroup string "odata_node list"

type_synonym 'a parse = "odata_failure + 'a \<times> token list"

definition MAX_DEPTH :: nat where "MAX_DEPTH = 50"

definition KIND_NAMES :: "(tok_kind \<times> string) list" where
  "KIND_NAMES = [(T_func, ''FUNC''), (T_paren, ''PAREN''), (T_string, ''STRING''), (T_op, ''OP''), (T_conj, ''CONJ''),
     (T_bool, ''BOOL''), (T_null, ''NULL''), (T_guid, ''GUID''), (T_datetime, ''DATETIME''), (T_word, ''WORD''),
     (T_number, ''NUMBER''), (T_comma, ''COMMA'')]"

definition VALUE_TOKENS :: "(tok_kind \<times> string) list" where
  "VALUE_TOKENS = [(T_string, ''string''), (T_word, ''string''), (T_number, ''string''), (T_datetime, ''string''),
     (T_guid, ''string''), (T_bool, ''bool''), (T_null, ''null'')]"

definition expect :: "tok_kind \<Rightarrow> token list \<Rightarrow> string parse" where
  "expect kind ts =
     (case ts of
        [] \<Rightarrow> Inl (ODataFilterError ''unexpected end of filter expression'')
      | (k, v) # r \<Rightarrow>
          (if k = kind then Inr (v, r)
           else Inl (ODataFilterError (''expected '' @ the (map_of KIND_NAMES kind) @ '', got '' @ repr_str v))))"

definition expect_exact :: "token \<Rightarrow> token list \<Rightarrow> unit parse" where
  "expect_exact tok ts =
     (case ts of
        [] \<Rightarrow> Inl (ODataFilterError ''unexpected end of filter expression'')
      | t # r \<Rightarrow>
          (if t = tok then Inr ((), r)
           else Inl (ODataFilterError (''expected '' @ repr_str (snd tok) @ '', got '' @ repr_str (snd t)))))"

definition expect_value :: "token list \<Rightarrow> (string \<times> string) parse" where
  "expect_value ts =
     (case ts of
        [] \<Rightarrow> Inl (ODataFilterError (''expected a value, got '' @ repr_str ''end of expression''))
      | (k, v) # r \<Rightarrow>
          (case map_of VALUE_TOKENS k of
             None \<Rightarrow> Inl (ODataFilterError (''expected a value, got '' @ repr_str v))
           | Some literal \<Rightarrow> Inr ((v, literal), r)))"

text \<open>The members of an \<open>in\<close> list behind its opening parenthesis.\<close>

fun in_members :: "string \<Rightarrow> token list \<Rightarrow> odata_node list parse" where
  "in_members fld (tok # sep # r) =
     (case expect_value [tok] of
        Inl e \<Rightarrow> Inl e
      | Inr ((v, literal), _) \<Rightarrow>
          (if sep = (T_paren, '')'') then Inr ([ODataClause fld ''eq'' v literal], r)
           else if fst sep \<noteq> T_comma
           then Inl (ODataFilterError (''expected '' @ [quote] @ '','' @ [quote] @ '' or '' @ [quote] @ '')'' @ [quote] @ '' in the '' @
                  [quote] @ ''in'' @ [quote] @ '' list, got '' @ repr_str (snd sep)))
           else case in_members fld r of
                  Inl e \<Rightarrow> Inl e
                | Inr (clauses, r') \<Rightarrow> Inr (ODataClause fld ''eq'' v literal # clauses, r')))"
| "in_members fld ts =
     (case expect_value ts of
        Inl e \<Rightarrow> Inl e
      | Inr _ \<Rightarrow> Inl (ODataFilterError ''unexpected end of filter expression''))"

definition parse_in :: "bool \<Rightarrow> string \<Rightarrow> token list \<Rightarrow> odata_node parse" where
  "parse_in allow_in fld ts =
     (if \<not> allow_in then Inl (ODataFilterError (''the '' @ [quote] @ ''in'' @ [quote] @ '' operator is not supported here''))
      else case expect_exact (T_paren, ''('') ts of
             Inl e \<Rightarrow> Inl e
           | Inr (_, r) \<Rightarrow>
               (case in_members fld r of
                  Inl e \<Rightarrow> Inl e
                | Inr (clauses, r') \<Rightarrow>
                    Inr (case clauses of [x] \<Rightarrow> x | _ \<Rightarrow> ODataGroup ''or'' clauses, r')))"

fun binary_loop ::
  "nat \<Rightarrow> string \<Rightarrow> (token list \<Rightarrow> odata_node option parse) \<Rightarrow> odata_node list \<Rightarrow> token list \<Rightarrow> odata_node list parse" where
  "binary_loop 0 cj operand children ts = Inl Out_of_fuel"
| "binary_loop (Suc k) cj operand children ts =
     (case ts of
        [] \<Rightarrow> Inr (children, [])
      | t # r \<Rightarrow>
          (if t \<noteq> (T_conj, cj) then Inr (children, ts)
           else case operand r of
                  Inl e \<Rightarrow> Inl e
                | Inr (None, r') \<Rightarrow> Inl (ODataFilterError (repr_str cj @ '' has no right-hand operand''))
                | Inr (Some x, r') \<Rightarrow> binary_loop k cj operand (children @ [x]) r'))"

definition parse_binary ::
  "string \<Rightarrow> (token list \<Rightarrow> odata_node option parse) \<Rightarrow> token list \<Rightarrow> odata_node option parse" where
  "parse_binary cj operand ts =
     (case operand ts of
        Inl e \<Rightarrow> Inl e
      | Inr (first, r) \<Rightarrow>
          (case binary_loop (Suc (length r)) cj operand (case first of None \<Rightarrow> [] | Some x \<Rightarrow> [x]) r of
             Inl e \<Rightarrow> Inl e
           | Inr (children, r') \<Rightarrow>
               Inr (case children of [] \<Rightarrow> None | [x] \<Rightarrow> Some x | _ \<Rightarrow> Some (ODataGroup cj children), r')))"

text \<open>The rest of a function call, whose parenthesis the token has taken, and of a comparison.\<close>

definition parse_call :: "string \<Rightarrow> token list \<Rightarrow> odata_node parse" where
  "parse_call func ts =
     (case expect T_word ts of
        Inl e \<Rightarrow> Inl e
      | Inr (fld, r1) \<Rightarrow>
          (case expect T_comma r1 of
             Inl e \<Rightarrow> Inl e
           | Inr (_, r2) \<Rightarrow>
               (case expect_value r2 of
                  Inl e \<Rightarrow> Inl e
                | Inr ((value, literal), r3) \<Rightarrow>
                    (case expect_exact (T_paren, '')'') r3 of
                       Inl e \<Rightarrow> Inl e
                     | Inr (_, r4) \<Rightarrow> Inr (ODataClause fld func value literal, r4)))))"

definition parse_comparison :: "bool \<Rightarrow> string \<Rightarrow> token list \<Rightarrow> odata_node parse" where
  "parse_comparison allow_in fld ts =
     (case expect T_op ts of
        Inl e \<Rightarrow> Inl e
      | Inr (op, r) \<Rightarrow>
          (if op = ''in'' then parse_in allow_in fld r
           else case expect_value r of
                  Inl e \<Rightarrow> Inl e
                | Inr ((value, literal), r') \<Rightarrow> Inr (ODataClause fld op value literal, r')))"

text \<open>\<open>inner\<close> parses what stands between parentheses; there is none when the depth is used up.\<close>

definition parse_parens ::
  "(token list \<Rightarrow> odata_node option parse) option \<Rightarrow> token list \<Rightarrow> odata_node parse" where
  "parse_parens inner ts =
     (case inner of
        None \<Rightarrow> Inl (ODataFilterError (''filter nested deeper than '' @ str_of_nat MAX_DEPTH @ '' levels''))
      | Some p \<Rightarrow>
          (case p ts of
             Inl e \<Rightarrow> Inl e
           | Inr (None, r) \<Rightarrow> Inl (ODataFilterError ''empty parentheses in filter'')
           | Inr (Some x, r) \<Rightarrow>
               (case expect_exact (T_paren, '')'') r of Inl e \<Rightarrow> Inl e | Inr (_, r') \<Rightarrow> Inr (x, r'))))"

definition parse_atom_with ::
  "bool \<Rightarrow> (token list \<Rightarrow> odata_node option parse) option \<Rightarrow> token list \<Rightarrow> odata_node option parse" where
  "parse_atom_with allow_in inner ts =
     (case ts of
        [] \<Rightarrow> Inr (None, [])
      | (k, v) # r \<Rightarrow>
          map_sum id (\<lambda>(x, r'). (Some x, r'))
            (if (k, v) = (T_paren, ''('') then parse_parens inner r
             else if k = T_func then parse_call v r
             else if k = T_word then parse_comparison allow_in v r
             else Inl (ODataFilterError (''unexpected token: '' @ repr_str v))))"

definition parse_or_with :: "(token list \<Rightarrow> odata_node option parse) \<Rightarrow> token list \<Rightarrow> odata_node option parse" where
  "parse_or_with atom = parse_binary ''or'' (parse_binary ''and'' atom)"

primrec parse_atom :: "nat \<Rightarrow> bool \<Rightarrow> token list \<Rightarrow> odata_node option parse" where
  "parse_atom 0 allow_in = parse_atom_with allow_in None"
| "parse_atom (Suc n) allow_in = parse_atom_with allow_in (Some (parse_or_with (parse_atom n allow_in)))"

definition parse_tokens :: "bool \<Rightarrow> token list \<Rightarrow> odata_failure + odata_node option" where
  "parse_tokens allow_in ts =
     (case parse_or_with (parse_atom MAX_DEPTH allow_in) ts of
        Inl e \<Rightarrow> Inl e
      | Inr (node, []) \<Rightarrow> Inr node
      | Inr (node, r) \<Rightarrow> Inl (ODataFilterError (''unparsed trailing input: '' @ repr_str (join '' '' (map snd r)))))"

definition parse_odata_filter :: "bool \<Rightarrow> string \<Rightarrow> odata_failure + odata_node option" where
  "parse_odata_filter allow_in filter_str =
     (if strip filter_str = [] then Inr None
      else case tokenise filter_str of Inl e \<Rightarrow> Inl e | Inr ts \<Rightarrow> parse_tokens allow_in ts)"

section \<open>Filtering\<close>

definition odata_nested :: "pyval \<Rightarrow> string \<Rightarrow> pyval" where
  "odata_nested rec path = get_nested rec (replace_str ''/'' ''.'' path)"

text \<open>The clause against an unquoted \<open>true\<close>, \<open>false\<close> or \<open>null\<close>.\<close>

definition match_keyword_literal :: "pyval \<Rightarrow> string \<Rightarrow> string \<Rightarrow> string \<Rightarrow> bool" where
  "match_keyword_literal field_val operator value literal =
     (if operator \<notin> {''eq'', ''ne''} then False
      else let equal =
             (if literal = ''null'' then field_val = VNone
              else case field_val of
                     VBool b \<Rightarrow> b = (value = ''true'')
                   | VStr t \<Rightarrow> lower t \<in> {''true'', ''false''} \<and> (lower t = ''true'') = (value = ''true'')
                   | _ \<Rightarrow> False)
           in if operator = ''eq'' then equal else \<not> equal)"

definition odata_range :: "string \<Rightarrow> bool \<Rightarrow> bool \<Rightarrow> bool" where
  "odata_range op lt eq =
     (if op = ''gt'' then \<not> lt \<and> \<not> eq else if op = ''ge'' then \<not> lt else if op = ''lt'' then lt else lt \<or> eq)"

definition odata_compare_range :: "pyval \<Rightarrow> string \<Rightarrow> string \<Rightarrow> bool" where
  "odata_compare_range field_val target op =
     (if field_val = VNone then False
      else case (float_of_str (py_str field_val), float_of_str target) of
             (Some fv, Some tv) \<Rightarrow>
               (if op = ''gt'' then fl_less tv fv else if op = ''ge'' then fl_le tv fv
                else if op = ''lt'' then fl_less fv tv else fl_le fv tv)
           | _ \<Rightarrow> odata_range op (py_str field_val < target) (py_str field_val = target))"

text \<open>A clause on one value: \<open>txt\<close> is the value as text.\<close>

definition match_scalar :: "pyval \<Rightarrow> string \<Rightarrow> string \<Rightarrow> bool" where
  "match_scalar v op target =
     (let txt = (if v = VNone then [] else py_str v)
      in if op = ''eq'' then txt = target
         else if op = ''ne'' then txt \<noteq> target
         else if op = ''contains'' then str_in (lower target) (lower txt)
         else if op = ''startswith'' then startswith (lower txt) (lower target)
         else if op = ''endswith'' then endswith (lower txt) (lower target)
         else if op \<in> {''gt'', ''ge'', ''lt'', ''le''} then odata_compare_range v target op
         else False)"

definition odata_match_clause :: "pyval \<Rightarrow> string \<Rightarrow> string \<Rightarrow> string \<Rightarrow> string \<Rightarrow> bool" where
  "odata_match_clause rec fld op target literal =
     (let v = odata_nested rec fld
      in if literal \<in> {''bool'', ''null''} then match_keyword_literal v op target literal
         else case v of
                VList vs \<Rightarrow>
                  (let members = map py_str vs
                   in if op = ''eq'' then list_ex (\<lambda>m. m = target) members
                      else if op = ''ne'' then list_all (\<lambda>m. m \<noteq> target) members
                      else list_ex (\<lambda>m. match_scalar (odata_nested (VDict [(fld, VStr m)]) fld) op target) members)
              | _ \<Rightarrow> match_scalar v op target)"

fun match_node :: "pyval \<Rightarrow> odata_node \<Rightarrow> bool" where
  "match_node rec (ODataClause fld op target literal) = odata_match_clause rec fld op target literal"
| "match_node rec (ODataGroup op children) =
     (if op = ''or'' then list_ex (match_node rec) children else list_all (match_node rec) children)"

definition apply_odata_filter :: "bool \<Rightarrow> pyval list \<Rightarrow> string \<Rightarrow> odata_failure + pyval list" where
  "apply_odata_filter allow_in records filter_str =
     (case parse_odata_filter allow_in filter_str of
        Inl e \<Rightarrow> Inl e
      | Inr None \<Rightarrow> Inr records
      | Inr (Some top_node) \<Rightarrow> Inr (filter (\<lambda>r. match_node r top_node) records))"

section \<open>Order and projection\<close>

text \<open>\<open>float(value)\<close> takes a boolean for a number; an integer beyond the doubles raises.\<close>

definition orderby_key :: "string \<Rightarrow> string list \<Rightarrow> pyval \<Rightarrow> order_key result" where
  "orderby_key fld members rec =
     (let v = odata_nested rec fld
      in if v = VNone \<or> v = VStr [] then Inr (2, Fin 0, [])
         else if members \<noteq> []
         then Inr (0, Fin (of_nat (case map_of (rev (zip members [0..<length members])) (py_str v) of
                                     None \<Rightarrow> length (remdups members) | Some n \<Rightarrow> n)), [])
         else case v of
                VBool b \<Rightarrow> Inr (0, Fin (if b then 1 else 0), [])
              | _ \<Rightarrow> (case as_float v of
                       Inl e \<Rightarrow> Inl e
                     | Inr (Some x) \<Rightarrow> Inr (0, x, [])
                     | Inr None \<Rightarrow> Inr (1, Fin 0, py_str v)))"

definition orderby_clauses :: "string \<Rightarrow> (string \<times> bool) list" where
  "orderby_clauses orderby =
     map (\<lambda>c. let parts = split_ws c in (hd parts, 1 < length parts \<and> lower (parts ! 1) = ''desc''))
       (filter (\<lambda>c. c \<noteq> []) (map strip (split_on CHR '','' orderby)))"

definition enum_members :: "(string \<times> string list) list \<Rightarrow> string \<Rightarrow> string list" where
  "enum_members enums fld =
     (case map_of enums (snd (snd (rpartition_on CHR ''/'' fld))) of None \<Rightarrow> [] | Some ms \<Rightarrow> ms)"

definition apply_odata_orderby ::
  "pyval list \<Rightarrow> string option \<Rightarrow> (string \<times> string list) list \<Rightarrow> pyval list result" where
  "apply_odata_orderby records orderby enums =
     (case orderby of
        None \<Rightarrow> Inr records
      | Some text \<Rightarrow>
          (if strip text = [] then Inr records
           else foldE (\<lambda>rs (fld, desc). sorted_records (orderby_key fld (enum_members enums fld)) desc rs)
                  (rev (orderby_clauses text)) records))"

definition apply_odata_select :: "jobj list \<Rightarrow> string option \<Rightarrow> jobj list" where
  "apply_odata_select records select =
     (case select of
        None \<Rightarrow> records
      | Some text \<Rightarrow>
          (if strip text = [] then records
           else let fields = map strip (split_on CHR '','' text)
                in map (filter (\<lambda>(k, v). k \<in> set fields)) records))"

section \<open>The grammar\<close>

text \<open>The literal a token stands for.\<close>

definition literal_token :: "token \<Rightarrow> string \<Rightarrow> string \<Rightarrow> bool" where
  "literal_token t value literal \<longleftrightarrow> value = snd t \<and> map_of VALUE_TOKENS (fst t) = Some literal"

inductive in_list :: "string \<Rightarrow> odata_node list \<Rightarrow> token list \<Rightarrow> bool" for fld where
  one: "literal_token t v l \<Longrightarrow> in_list fld [ODataClause fld ''eq'' v l] [t, (T_paren, '')'')]"
| more: "literal_token t v l \<Longrightarrow> in_list fld cs ts \<Longrightarrow> in_list fld (ODataClause fld ''eq'' v l # cs) (t # (T_comma, c) # ts)"

text \<open>Operands of one conjunction, and the node they make.\<close>

inductive operands :: "string \<Rightarrow> (odata_node \<Rightarrow> token list \<Rightarrow> bool) \<Rightarrow> odata_node list \<Rightarrow> token list \<Rightarrow> bool" for cj G where
  last: "G x us \<Longrightarrow> operands cj G [x] us"
| next_one: "G x us \<Longrightarrow> operands cj G xs ts \<Longrightarrow> operands cj G (x # xs) (us @ (T_conj, cj) # ts)"

definition grouped :: "string \<Rightarrow> odata_node list \<Rightarrow> odata_node" where
  "grouped cj xs = (case xs of [x] \<Rightarrow> x | _ \<Rightarrow> ODataGroup cj xs)"

definition level :: "string \<Rightarrow> (odata_node \<Rightarrow> token list \<Rightarrow> bool) \<Rightarrow> odata_node \<Rightarrow> token list \<Rightarrow> bool" where
  "level cj G x ts \<longleftrightarrow> (\<exists>xs. operands cj G xs ts \<and> x = grouped cj xs)"

inductive atom_form :: "bool \<Rightarrow> (odata_node \<Rightarrow> token list \<Rightarrow> bool) \<Rightarrow> odata_node \<Rightarrow> token list \<Rightarrow> bool" for allow_in G where
  comparison: "op \<noteq> ''in'' \<Longrightarrow> literal_token t v l \<Longrightarrow> atom_form allow_in G (ODataClause fld op v l) [(T_word, fld), (T_op, op), t]"
| function_call: "literal_token t v l \<Longrightarrow>
    atom_form allow_in G (ODataClause fld f v l) [(T_func, f), (T_word, fld), (T_comma, c), t, (T_paren, '')'')]"
| membership: "allow_in \<Longrightarrow> in_list fld cs ts \<Longrightarrow>
    atom_form allow_in G (grouped ''or'' cs) ((T_word, fld) # (T_op, ''in'') # (T_paren, ''('') # ts)"
| parenthesised: "G x ts \<Longrightarrow> atom_form allow_in G x ((T_paren, ''('') # ts @ [(T_paren, '')'')])"

text \<open>The filters with at most \<open>n\<close> nested parentheses.\<close>

primrec atom_at :: "nat \<Rightarrow> bool \<Rightarrow> odata_node \<Rightarrow> token list \<Rightarrow> bool" where
  "atom_at 0 allow_in = atom_form allow_in (\<lambda>x ts. False)"
| "atom_at (Suc n) allow_in = atom_form allow_in (level ''or'' (level ''and'' (atom_at n allow_in)))"

definition filter_at :: "nat \<Rightarrow> bool \<Rightarrow> odata_node \<Rightarrow> token list \<Rightarrow> bool" where
  "filter_at n allow_in = level ''or'' (level ''and'' (atom_at n allow_in))"

section \<open>The parser accepts the grammar\<close>

text \<open>\<open>stop r\<close>: nothing in \<open>r\<close> continues what \<open>p\<close> has read.\<close>

definition recognises ::
  "(token list \<Rightarrow> odata_node option parse) \<Rightarrow> (odata_node \<Rightarrow> token list \<Rightarrow> bool) \<Rightarrow> (token list \<Rightarrow> bool) \<Rightarrow> bool" where
  "recognises p G stop \<longleftrightarrow>
     (\<forall>ts x r. p ts = Inr (Some x, r) \<longrightarrow> (\<exists>us. ts = us @ r \<and> G x us)) \<and>
     (\<forall>x us r. G x us \<longrightarrow> stop r \<longrightarrow> p (us @ r) = Inr (Some x, r)) \<and>
     (\<forall>ts r. p ts = Inr (None, r) \<longrightarrow> ts = [] \<and> r = []) \<and> p [] = Inr (None, []) \<and>
     (\<forall>ts. p ts \<noteq> Inl Out_of_fuel)"

lemma recognisesD:
  assumes "recognises p G stop"
  shows "p ts = Inr (Some x, r) \<Longrightarrow> \<exists>us. ts = us @ r \<and> G x us"
    "G x us \<Longrightarrow> stop r \<Longrightarrow> p (us @ r) = Inr (Some x, r)"
    "p ts = Inr (None, r) \<Longrightarrow> ts = [] \<and> r = []" "p [] = Inr (None, [])" "p ts \<noteq> Inl Out_of_fuel"
  using assms unfolding recognises_def by blast+

lemma loop_sound:
  assumes "recognises p G stop"
  shows "binary_loop k cj p acc ts = Inr (children, r) \<Longrightarrow>
    \<exists>xs us. children = acc @ xs \<and> ts = us @ r \<and>
      (xs = [] \<and> us = [] \<or> (\<exists>vs. us = (T_conj, cj) # vs \<and> operands cj G xs vs))"
proof (induction k arbitrary: acc ts)
  case (Suc k)
  show ?case
  proof (cases "\<exists>rest. ts = (T_conj, cj) # rest")
    case False
    then have "children = acc \<and> ts = r" using Suc.prems by (auto split: list.splits if_splits)
    then show ?thesis by simp
  next
    case True
    then obtain rest where ts: "ts = (T_conj, cj) # rest" by blast
    then obtain x r1 where x: "p rest = Inr (Some x, r1)" "binary_loop k cj p (acc @ [x]) r1 = Inr (children, r)"
      using Suc.prems by (auto split: sum.splits option.splits)
    obtain vs where vs: "rest = vs @ r1" "G x vs" using recognisesD(1) [OF assms x(1)] by blast
    obtain xs us where us: "children = (acc @ [x]) @ xs" "r1 = us @ r"
      "xs = [] \<and> us = [] \<or> (\<exists>vs. us = (T_conj, cj) # vs \<and> operands cj G xs vs)"
      using Suc.IH [OF x(2)] by blast
    have "operands cj G (x # xs) (vs @ us)"
      using us(3) vs(2) operands.last [of G x vs cj] operands.next_one [of G x vs cj xs] by auto
    then show ?thesis using ts vs(1) us(1,2) by (intro exI [of _ "x # xs"] exI [of _ "(T_conj, cj) # vs @ us"]) simp
  qed
qed simp

lemma operands_nonempty: "operands cj G xs ts \<Longrightarrow> xs \<noteq> []"
  by (induction rule: operands.induct) auto

lemma loop_stops: "r = [] \<or> hd r \<noteq> (T_conj, cj) \<Longrightarrow> binary_loop (Suc k) cj p acc r = Inr (acc, r)"
  by (cases r) auto

lemma loop_complete:
  assumes "recognises p G stop" "\<And>r. stop ((T_conj, cj) # r)" "stop r" "r = [] \<or> hd r \<noteq> (T_conj, cj)"
  shows "operands cj G xs us \<Longrightarrow> length us + 1 < k \<Longrightarrow>
    binary_loop k cj p acc ((T_conj, cj) # us @ r) = Inr (acc @ xs, r)"
proof (induction arbitrary: k acc rule: operands.induct)
  case (last x us)
  then obtain k' where "k = Suc (Suc k')" by (metis Suc_eq_plus1 gr0_implies_Suc less_trans_Suc zero_less_Suc Suc_lessE)
  then show ?case using recognisesD(2) [OF assms(1) last(1) assms(3)] loop_stops [OF assms(4)] by simp
next
  case (next_one x us xs ts)
  then obtain k' where k': "k = Suc k'" "length ts + 1 < k'" by (cases k) auto
  have "p (us @ (T_conj, cj) # ts @ r) = Inr (Some x, (T_conj, cj) # ts @ r)"
    using recognisesD(2) [OF assms(1) next_one(1) assms(2)] by simp
  then show ?case using next_one.IH [OF k'(2), of "acc @ [x]"] by (simp add: k'(1))
qed

lemma loop_fuel:
  assumes "recognises p G stop"
  shows "length ts < k \<Longrightarrow> binary_loop k cj p acc ts \<noteq> Inl Out_of_fuel"
proof (induction k arbitrary: acc ts)
  case (Suc k)
  have "length r' < k" if "ts = t # r" "p r = Inr (Some x, r')" for t r x r'
    using recognisesD(1) [OF assms that(2)] Suc.prems that(1) by auto
  then show ?case using Suc.IH recognisesD(5) [OF assms] by (auto split: list.splits sum.splits option.splits)
qed simp

declare binary_loop.simps [simp del]

lemma parse_binary_Inr:
  "parse_binary cj p ts = Inr (y, r) \<longleftrightarrow> (\<exists>first r1 children. p ts = Inr (first, r1) \<and>
     binary_loop (Suc (length r1)) cj p (case first of None \<Rightarrow> [] | Some x \<Rightarrow> [x]) r1 = Inr (children, r) \<and>
     y = (if children = [] then None else Some (grouped cj children)))"
proof (cases "p ts")
  case (Inr q)
  obtain first r1 where q: "q = (first, r1)" by fastforce
  show ?thesis
  proof (cases "binary_loop (Suc (length r1)) cj p (case first of None \<Rightarrow> [] | Some x \<Rightarrow> [x]) r1")
    case (Inr b)
    then show ?thesis using \<open>p ts = Inr q\<close> q
      by (cases b) (auto simp: parse_binary_def grouped_def split: list.splits)
  qed (simp add: parse_binary_def \<open>p ts = Inr q\<close> q)
qed (simp add: parse_binary_def)

lemma level_recognises:
  assumes "recognises p G stop" "\<And>r. stop ((T_conj, cj) # r)"
  shows "recognises (parse_binary cj p) (level cj G) (\<lambda>r. stop r \<and> (r = [] \<or> hd r \<noteq> (T_conj, cj)))"
  unfolding recognises_def
proof (intro conjI allI impI)
  fix ts x r assume "parse_binary cj p ts = Inr (Some x, r)"
  then obtain first r1 children where step: "p ts = Inr (first, r1)"
    "binary_loop (Suc (length r1)) cj p (case first of None \<Rightarrow> [] | Some y \<Rightarrow> [y]) r1 = Inr (children, r)" "x = grouped cj children"
    "children \<noteq> []"
    by (auto simp: parse_binary_Inr split: if_splits)
  obtain xs us where us: "children = (case first of None \<Rightarrow> [] | Some y \<Rightarrow> [y]) @ xs" "r1 = us @ r"
      "xs = [] \<and> us = [] \<or> (\<exists>vs. us = (T_conj, cj) # vs \<and> operands cj G xs vs)"
    using loop_sound [OF assms(1) step(2)] by blast
  show "\<exists>us. ts = us @ r \<and> level cj G x us"
  proof (cases first)
    case None
    then have "r1 = []" using recognisesD(3) [OF assms(1)] step(1) by blast
    then show ?thesis using us step(4) None by auto
  next
    case (Some y)
    then obtain ys where ys: "ts = ys @ r1" "G y ys" using recognisesD(1) [OF assms(1)] step(1) by blast
    have "operands cj G (y # xs) (ys @ us)"
      using us(3) ys(2) operands.last [of G y ys cj] operands.next_one [of G y ys cj xs] by auto
    then show ?thesis using ys(1) us(1,2) step(3) Some by (auto simp: level_def)
  qed
next
  fix x us r assume a: "level cj G x us" "stop r \<and> (r = [] \<or> hd r \<noteq> (T_conj, cj))"
  then obtain xs where xs: "operands cj G xs us" "x = grouped cj xs" by (auto simp: level_def)
  from xs(1) show "parse_binary cj p (us @ r) = Inr (Some x, r)"
  proof cases
    case (last y)
    have "p (us @ r) = Inr (Some y, r)" using recognisesD(2) [OF assms(1)] last a(2) by blast
    then show ?thesis using loop_stops [of r cj "length r" p "[y]"] a(2) last xs(2)
      by (auto simp: parse_binary_Inr)
  next
    case (next_one y ys zs ts)
    have "p (us @ r) = Inr (Some y, (T_conj, cj) # ts @ r)"
      using recognisesD(2) [OF assms(1) next_one(3) assms(2)] next_one(2) by simp
    moreover have "binary_loop (Suc (length ((T_conj, cj) # ts @ r))) cj p [y] ((T_conj, cj) # ts @ r) = Inr ([y] @ zs, r)"
      using a(2) by (intro loop_complete [OF assms]) (use next_one(4) in auto)
    ultimately show ?thesis using next_one(1) xs(2) by (auto simp: parse_binary_Inr)
  qed
next
  fix ts r assume "parse_binary cj p ts = Inr (None, r)"
  then obtain first r1 where step: "p ts = Inr (first, r1)"
    "binary_loop (Suc (length r1)) cj p (case first of None \<Rightarrow> [] | Some y \<Rightarrow> [y]) r1 = Inr ([], r)"
    by (auto simp: parse_binary_Inr split: if_splits)
  then have "first = None" using loop_sound [OF assms(1) step(2)] by (cases first) auto
  then have "ts = []" "r1 = []" using step(1) recognisesD(3) [OF assms(1)] by auto
  then show "ts = []" "r = []" using step(2) \<open>first = None\<close> loop_stops [of "[]" cj 0 p "[]"] by auto
next
  show "parse_binary cj p [] = Inr (None, [])"
    using recognisesD(4) [OF assms(1)] loop_stops [of "[]" cj 0 p "[]"] by (auto simp: parse_binary_Inr)
next
  fix ts show "parse_binary cj p ts \<noteq> Inl Out_of_fuel"
    using recognisesD(5) [OF assms(1), of ts] loop_fuel [OF assms(1)]
    by (auto simp: parse_binary_def split: sum.splits prod.splits)
qed

lemma expect_value_Inr: "expect_value ts = Inr (vl, r) \<longleftrightarrow> (\<exists>t. ts = t # r \<and> literal_token t (fst vl) (snd vl))"
  by (cases vl) (auto simp: expect_value_def literal_token_def split: list.splits option.splits)

lemma expect_Inr: "expect k ts = Inr (v, r) \<longleftrightarrow> ts = (k, v) # r"
  by (auto simp: expect_def split: list.splits if_splits)

lemma expect_exact_Inr: "expect_exact tok ts = Inr (u, r) \<longleftrightarrow> ts = tok # r"
  by (auto simp: expect_exact_def split: list.splits if_splits)

lemma expect_no_fuel [simp]:
  "expect k ts \<noteq> Inl Out_of_fuel" "expect_exact tok ts \<noteq> Inl Out_of_fuel" "expect_value ts \<noteq> Inl Out_of_fuel"
  by (auto simp: expect_def expect_exact_def expect_value_def split: list.splits option.splits)

lemma in_members_sound: "in_members fld ts = Inr (cs, r) \<Longrightarrow> \<exists>us. ts = us @ r \<and> in_list fld cs us"
proof (induction fld ts arbitrary: cs rule: in_members.induct)
  case (1 fld tok sep rest)
  obtain vl where vl: "expect_value [tok] = Inr (vl, [])" using 1(2) by (auto simp: expect_value_Inr split: sum.splits)
  then have lit: "literal_token tok (fst vl) (snd vl)" by (simp add: expect_value_Inr)
  show ?case
  proof (cases "sep = (T_paren, '')'')")
    case True
    then have "cs = [ODataClause fld ''eq'' (fst vl) (snd vl)]" "r = rest" using 1(2) vl by (auto split: prod.splits)
    then show ?thesis using in_list.one [OF lit, of fld] True by auto
  next
    case False
    then obtain cs' where rec: "fst sep = T_comma" "in_members fld rest = Inr (cs', r)"
      "cs = ODataClause fld ''eq'' (fst vl) (snd vl) # cs'"
      using 1(2) vl by (auto split: prod.splits if_splits sum.splits)
    have "\<exists>us. rest = us @ r \<and> in_list fld cs' us" using 1(1) vl False rec by (cases vl) auto
    then show ?thesis using in_list.more [OF lit, of fld cs' _ "snd sep"] rec by (metis append_Cons prod.collapse)
  qed
qed (auto split: sum.splits)

lemma in_members_complete: "in_list fld cs us \<Longrightarrow> in_members fld (us @ r) = Inr (cs, r)"
proof (induction rule: in_list.induct)
  case (one t v l)
  then have "expect_value [t] = Inr ((v, l), [])" by (simp add: expect_value_Inr)
  then show ?case by simp
next
  case (more t v l cs ts c)
  then have "expect_value [t] = Inr ((v, l), [])" by (simp add: expect_value_Inr)
  then show ?case using more.IH by simp
qed

lemma in_members_fuel: "in_members fld ts \<noteq> Inl Out_of_fuel"
proof (induction ts rule: induct_list012)
  case (3 tok sep r)
  show ?case
  proof (cases "expect_value [tok]")
    case (Inl e)
    then show ?thesis using expect_no_fuel(3) [of "[tok]"] by auto
  next
    case (Inr q)
    then show ?thesis using 3 by (cases q) (auto split: sum.splits prod.splits if_splits)
  qed
qed (auto simp: expect_value_Inr split: sum.splits)

lemma in_list_nonempty: "in_list fld cs ts \<Longrightarrow> cs \<noteq> []"
  by (induction rule: in_list.induct) auto

lemma parse_in_Inr: "parse_in allow_in fld ts = Inr (x, r) \<longleftrightarrow>
    allow_in \<and> (\<exists>cs us. ts = (T_paren, ''('') # us @ r \<and> in_list fld cs us \<and> x = grouped ''or'' cs)"
proof
  assume "parse_in allow_in fld ts = Inr (x, r)"
  then obtain rest cs where "allow_in" "ts = (T_paren, ''('') # rest" "in_members fld rest = Inr (cs, r)" "x = grouped ''or'' cs"
    by (auto simp: parse_in_def grouped_def expect_exact_Inr split: if_splits sum.splits)
  then show "allow_in \<and> (\<exists>cs us. ts = (T_paren, ''('') # us @ r \<and> in_list fld cs us \<and> x = grouped ''or'' cs)"
    using in_members_sound by blast
next
  assume "allow_in \<and> (\<exists>cs us. ts = (T_paren, ''('') # us @ r \<and> in_list fld cs us \<and> x = grouped ''or'' cs)"
  then show "parse_in allow_in fld ts = Inr (x, r)"
    using in_members_complete by (auto simp: parse_in_def grouped_def expect_exact_def)
qed

lemma parse_in_fuel: "parse_in allow_in fld ts \<noteq> Inl Out_of_fuel"
  using in_members_fuel by (auto simp: parse_in_def expect_exact_def split: list.splits sum.splits)

lemma parse_call_Inr: "parse_call f ts = Inr (x, r) \<longleftrightarrow>
    (\<exists>fld c t v l. ts = (T_word, fld) # (T_comma, c) # t # (T_paren, '')'') # r \<and> literal_token t v l \<and> x = ODataClause fld f v l)"
proof
  assume "parse_call f ts = Inr (x, r)"
  then obtain fld c v l r2 where "ts = (T_word, fld) # (T_comma, c) # r2" "expect_value r2 = Inr ((v, l), (T_paren, '')'') # r)"
    "x = ODataClause fld f v l"
    by (auto simp: parse_call_def expect_Inr expect_exact_Inr split: sum.splits)
  then show "\<exists>fld c t v l. ts = (T_word, fld) # (T_comma, c) # t # (T_paren, '')'') # r \<and> literal_token t v l \<and> x = ODataClause fld f v l"
    by (auto simp: expect_value_Inr)
next
  assume "\<exists>fld c t v l. ts = (T_word, fld) # (T_comma, c) # t # (T_paren, '')'') # r \<and> literal_token t v l \<and> x = ODataClause fld f v l"
  then obtain fld c t v l where a: "ts = (T_word, fld) # (T_comma, c) # t # (T_paren, '')'') # r" "literal_token t v l" "x = ODataClause fld f v l"
    by blast
  have "expect_value (t # (T_paren, '')'') # r) = Inr ((v, l), (T_paren, '')'') # r)" using a by (simp add: expect_value_Inr)
  then show "parse_call f ts = Inr (x, r)" using a by (simp add: parse_call_def expect_def expect_exact_def)
qed

lemma parse_comparison_Inr: "parse_comparison allow_in fld ts = Inr (x, r) \<longleftrightarrow>
    (\<exists>op r1. ts = (T_op, op) # r1 \<and> (if op = ''in'' then parse_in allow_in fld r1 = Inr (x, r)
       else \<exists>t v l. r1 = t # r \<and> literal_token t v l \<and> x = ODataClause fld op v l))"
proof (cases "\<exists>op r1. ts = (T_op, op) # r1")
  case True
  then obtain op r1 where ts: "ts = (T_op, op) # r1" by blast
  show ?thesis
  proof (cases "op = ''in''")
    case False
    have "parse_comparison allow_in fld ts = Inr (x, r) \<longleftrightarrow> (\<exists>v l. expect_value r1 = Inr ((v, l), r) \<and> x = ODataClause fld op v l)"
      using False by (auto simp: parse_comparison_def expect_def ts split: sum.splits)
    then show ?thesis using False ts by (auto simp: expect_value_Inr)
  qed (simp add: parse_comparison_def expect_def ts)
next
  case False
  then show ?thesis by (auto simp: parse_comparison_def expect_Inr split: sum.splits)
qed

lemma parse_parens_Inr: "parse_parens inner ts = Inr (x, r) \<longleftrightarrow>
    (\<exists>q. inner = Some q \<and> q ts = Inr (Some x, (T_paren, '')'') # r))"
  by (auto simp: parse_parens_def expect_exact_def split: option.splits sum.splits list.splits if_splits)

lemma parts_no_fuel:
  "parse_call f ts \<noteq> Inl Out_of_fuel" "parse_comparison allow_in fld ts \<noteq> Inl Out_of_fuel"
  "\<forall>q ts. inner = Some q \<longrightarrow> q ts \<noteq> Inl Out_of_fuel \<Longrightarrow> parse_parens inner ts \<noteq> Inl Out_of_fuel"
proof -
  show "parse_call f ts \<noteq> Inl Out_of_fuel" by (auto simp: parse_call_def split: sum.splits)
  show "parse_comparison allow_in fld ts \<noteq> Inl Out_of_fuel"
    using parse_in_fuel by (auto simp: parse_comparison_def split: sum.splits)
  show "\<forall>q ts. inner = Some q \<longrightarrow> q ts \<noteq> Inl Out_of_fuel \<Longrightarrow> parse_parens inner ts \<noteq> Inl Out_of_fuel"
    by (auto simp: parse_parens_def split: option.splits sum.splits)
qed

lemma map_sum_Inr: "map_sum id f s = Inr y \<longleftrightarrow> (\<exists>x. s = Inr x \<and> y = f x)"
  by (cases s) auto

lemma map_sum_Inl: "map_sum id f s = Inl e \<longleftrightarrow> s = Inl e"
  by (cases s) auto

lemma atom_with_no_fuel:
  assumes "\<forall>q ts. inner = Some q \<longrightarrow> q ts \<noteq> Inl Out_of_fuel"
  shows "parse_atom_with allow_in inner ts \<noteq> Inl Out_of_fuel"
  using parts_no_fuel(1,2) parts_no_fuel(3) [OF assms] by (auto simp: parse_atom_with_def map_sum_Inl split: list.splits if_splits)

lemma atom_with_sound:
  assumes "parse_atom_with allow_in inner ts = Inr (Some x, r)"
    and "\<And>q us x r. inner = Some q \<Longrightarrow> q us = Inr (Some x, r) \<Longrightarrow> \<exists>vs. us = vs @ r \<and> G x vs"
  shows "\<exists>us. ts = us @ r \<and> atom_form allow_in G x us"
proof -
  obtain k v rest where ts: "ts = (k, v) # rest"
    using assms(1) by (cases ts) (auto simp: parse_atom_with_def)
  consider (paren) "(k, v) = (T_paren, ''('')" "parse_parens inner rest = Inr (x, r)"
    | (func) "k = T_func" "parse_call v rest = Inr (x, r)" | (word) "k = T_word" "parse_comparison allow_in v rest = Inr (x, r)"
    using assms(1) by (auto simp: parse_atom_with_def ts map_sum_Inr split: if_splits)
  then show ?thesis
  proof cases
    case paren
    then obtain q where q: "inner = Some q" "q rest = Inr (Some x, (T_paren, '')'') # r)" by (auto simp: parse_parens_Inr)
    then obtain vs where "rest = vs @ (T_paren, '')'') # r" "G x vs" using assms(2) by blast
    then show ?thesis using paren atom_form.parenthesised [of G x vs allow_in]
      by (intro exI [of _ "(T_paren, ''('') # vs @ [(T_paren, '')'')]"]) (simp add: ts)
  next
    case func
    then obtain fld c t w l where "rest = (T_word, fld) # (T_comma, c) # t # (T_paren, '')'') # r" "literal_token t w l"
      "x = ODataClause fld v w l" by (auto simp: parse_call_Inr)
    then show ?thesis using func(1) atom_form.function_call [of t w l allow_in G fld v c]
      by (intro exI [of _ "[(T_func, v), (T_word, fld), (T_comma, c), t, (T_paren, '')'')]"]) (simp add: ts)
  next
    case word
    then obtain op r1 where op: "rest = (T_op, op) # r1" "if op = ''in'' then parse_in allow_in v r1 = Inr (x, r)
       else \<exists>t w l. r1 = t # r \<and> literal_token t w l \<and> x = ODataClause v op w l" by (auto simp: parse_comparison_Inr)
    show ?thesis
    proof (cases "op = ''in''")
      case True
      then obtain cs us where u: "allow_in" "r1 = (T_paren, ''('') # us @ r" "in_list v cs us" "x = grouped ''or'' cs"
        using op(2) by (auto simp: parse_in_Inr)
      show ?thesis using atom_form.membership [OF u(1,3), of G] True word(1) op(1) u(2,4)
        by (intro exI [of _ "(T_word, v) # (T_op, ''in'') # (T_paren, ''('') # us"]) (simp add: ts)
    next
      case False
      then obtain t w l where u: "r1 = t # r" "literal_token t w l" "x = ODataClause v op w l" using op(2) by auto
      show ?thesis using atom_form.comparison [OF False u(2), of allow_in G v] word(1) op(1) u(1,3)
        by (intro exI [of _ "[(T_word, v), (T_op, op), t]"]) (simp add: ts)
    qed
  qed
qed

lemma atom_with_complete:
  assumes "atom_form allow_in G x us"
    and "\<And>x us r. G x us \<Longrightarrow> \<exists>q. inner = Some q \<and> q (us @ (T_paren, '')'') # r) = Inr (Some x, (T_paren, '')'') # r)"
  shows "parse_atom_with allow_in inner (us @ r) = Inr (Some x, r)"
  using assms(1)
proof cases
  case (comparison op t v l fld)
  then have "parse_comparison allow_in fld ((T_op, op) # t # r) = Inr (x, r)" by (auto simp: parse_comparison_Inr)
  then show ?thesis using comparison by (simp add: parse_atom_with_def)
next
  case (function_call t v l fld f c)
  then have "parse_call f ((T_word, fld) # (T_comma, c) # t # (T_paren, '')'') # r) = Inr (x, r)" by (auto simp: parse_call_Inr)
  then show ?thesis using function_call by (simp add: parse_atom_with_def)
next
  case (membership fld cs ts)
  have "parse_in allow_in fld ((T_paren, ''('') # ts @ r) = Inr (x, r)" using membership by (auto simp: parse_in_Inr)
  then have "parse_comparison allow_in fld ((T_op, ''in'') # (T_paren, ''('') # ts @ r) = Inr (x, r)" by (simp add: parse_comparison_Inr)
  then show ?thesis using membership by (simp add: parse_atom_with_def)
next
  case (parenthesised ts)
  then have "parse_parens inner (ts @ (T_paren, '')'') # r) = Inr (x, r)" using assms(2) by (auto simp: parse_parens_Inr)
  then show ?thesis using parenthesised by (simp add: parse_atom_with_def)
qed

lemma parse_atom_empty: "parse_atom_with allow_in inner ts = Inr (None, r) \<Longrightarrow> ts = [] \<and> r = []"
  by (auto simp: parse_atom_with_def map_sum_Inr split: list.splits)

lemma atom_with_recognises:
  assumes sound: "\<And>q us x r. inner = Some q \<Longrightarrow> q us = Inr (Some x, r) \<Longrightarrow> \<exists>vs. us = vs @ r \<and> G x vs"
    and complete: "\<And>x us r. G x us \<Longrightarrow> \<exists>q. inner = Some q \<and> q (us @ (T_paren, '')'') # r) = Inr (Some x, (T_paren, '')'') # r)"
    and fuel: "\<forall>q ts. inner = Some q \<longrightarrow> q ts \<noteq> Inl Out_of_fuel"
  shows "recognises (parse_atom_with allow_in inner) (atom_form allow_in G) (\<lambda>r. True)"
  unfolding recognises_def
proof (intro conjI allI impI)
  fix ts x r assume "parse_atom_with allow_in inner ts = Inr (Some x, r)"
  then show "\<exists>us. ts = us @ r \<and> atom_form allow_in G x us" using atom_with_sound sound by blast
next
  fix x us r assume "atom_form allow_in G x us"
  then show "parse_atom_with allow_in inner (us @ r) = Inr (Some x, r)" using atom_with_complete complete by blast
next
  fix ts r assume "parse_atom_with allow_in inner ts = Inr (None, r)"
  then show "ts = []" "r = []" using parse_atom_empty by blast+
next
  show "parse_atom_with allow_in inner [] = Inr (None, [])" by (simp add: parse_atom_with_def)
next
  fix ts show "parse_atom_with allow_in inner ts \<noteq> Inl Out_of_fuel" by (rule atom_with_no_fuel [OF fuel])
qed

lemma atom_recognises: "recognises (parse_atom n allow_in) (atom_at n allow_in) (\<lambda>r. True)"
proof (induction n)
  case 0
  show ?case unfolding parse_atom.simps atom_at.simps by (rule atom_with_recognises) auto
next
  case (Suc n)
  let ?p = "parse_or_with (parse_atom n allow_in)" and ?G = "level ''or'' (level ''and'' (atom_at n allow_in))"
  have p: "recognises ?p ?G (\<lambda>r. (True \<and> (r = [] \<or> hd r \<noteq> (T_conj, ''and''))) \<and> (r = [] \<or> hd r \<noteq> (T_conj, ''or'')))"
    unfolding parse_or_with_def by (rule level_recognises [OF level_recognises [OF Suc TrueI]]) simp
  show ?case
    unfolding parse_atom.simps atom_at.simps
  proof (rule atom_with_recognises)
    fix q us x r assume "Some ?p = Some q" "q us = Inr (Some x, r)"
    then show "\<exists>vs. us = vs @ r \<and> ?G x vs" using recognisesD(1) [OF p] by blast
  next
    fix x us r assume "?G x us"
    then show "\<exists>q. Some ?p = Some q \<and> q (us @ (T_paren, '')'') # r) = Inr (Some x, (T_paren, '')'') # r)"
      using recognisesD(2) [OF p] by simp
  next
    show "\<forall>q ts. Some ?p = Some q \<longrightarrow> q ts \<noteq> Inl Out_of_fuel" using recognisesD(5) [OF p] by blast
  qed
qed

lemma filter_recognises:
  "recognises (parse_or_with (parse_atom n allow_in)) (filter_at n allow_in)
     (\<lambda>r. r = [] \<or> hd r \<notin> {(T_conj, ''and''), (T_conj, ''or'')})"
proof -
  have "recognises (parse_or_with (parse_atom n allow_in)) (filter_at n allow_in)
     (\<lambda>r. (True \<and> (r = [] \<or> hd r \<noteq> (T_conj, ''and''))) \<and> (r = [] \<or> hd r \<noteq> (T_conj, ''or'')))"
    unfolding parse_or_with_def filter_at_def
    by (rule level_recognises [OF level_recognises [OF atom_recognises]]) simp_all
  moreover have "(\<lambda>r :: token list. (True \<and> (r = [] \<or> hd r \<noteq> (T_conj, ''and''))) \<and> (r = [] \<or> hd r \<noteq> (T_conj, ''or''))) =
      (\<lambda>r. r = [] \<or> hd r \<notin> {(T_conj, ''and''), (T_conj, ''or'')})" by auto
  ultimately show ?thesis by simp
qed

text \<open>
  C20. The parser accepts exactly the grammar: a token list is read as the tree \<open>x\<close> just when the grammar derives \<open>x\<close> from the
  whole list, with \<open>and\<close> binding tighter than \<open>or\<close> and at most fifty nested parentheses; nothing is skipped, only the
  empty list has no tree, and parsing always ends with a tree, with nothing or with a refusal.
\<close>

theorem parser_exact:
  "(parse_tokens allow_in ts = Inr (Some x) \<longleftrightarrow> filter_at MAX_DEPTH allow_in x ts) \<and>
   (parse_tokens allow_in ts = Inr None \<longleftrightarrow> ts = []) \<and> parse_tokens allow_in ts \<noteq> Inl Out_of_fuel"
proof -
  note p = recognisesD [OF filter_recognises [of MAX_DEPTH allow_in]]
  let ?p = "parse_or_with (parse_atom MAX_DEPTH allow_in)"
  have "parse_tokens allow_in ts = Inr y \<longleftrightarrow> ?p ts = Inr (y, [])" for y
    by (auto simp: parse_tokens_def split: sum.splits list.splits)
  moreover have "?p ts = Inr (Some x, []) \<longleftrightarrow> filter_at MAX_DEPTH allow_in x ts"
    using p(1) [of ts x "[]"] p(2) [of x ts "[]"] by auto
  moreover have "?p ts = Inr (None, []) \<longleftrightarrow> ts = []" using p(3) [of ts "[]"] p(4) by auto
  moreover have "parse_tokens allow_in ts \<noteq> Inl Out_of_fuel"
    using p(5) [of ts] by (auto simp: parse_tokens_def split: sum.splits list.splits)
  ultimately show ?thesis by simp
qed

section \<open>Filters as text\<close>

text \<open>How a client spells a token; a space separates tokens.\<close>

definition escape_quotes :: "string \<Rightarrow> string" where
  "escape_quotes v = concat (map (\<lambda>c. if c = quote then [quote, quote] else [c]) v)"

definition token_text :: "token \<Rightarrow> string" where
  "token_text t =
     (if fst t = T_func then snd t @ ''('' else if fst t = T_string then [quote] @ escape_quotes (snd t) @ [quote] else snd t)"

definition text_of :: "token list \<Rightarrow> string" where
  "text_of ts = join '' '' (map token_text ts)"

definition KEYWORDS :: "string list" where
  "KEYWORDS = OPS @ CONJS @ BOOLS @ [''null'']"

definition field_name :: "string \<Rightarrow> bool" where
  "field_name v \<longleftrightarrow> v \<noteq> [] \<and> is_ident_start (hd v) \<and> list_all is_path_char (tl v) \<and> lower v \<notin> set FUNCS \<and>
     lower (takeWhile is_word_char v) \<notin> set KEYWORDS"

text \<open>The tokens a client writes: GUIDs and dates it may quote.\<close>

definition printable :: "token \<Rightarrow> bool" where
  "printable t \<longleftrightarrow> (case fst t of
       T_func \<Rightarrow> snd t \<in> set FUNCS | T_paren \<Rightarrow> snd t \<in> {''('', '')''} | T_string \<Rightarrow> True | T_op \<Rightarrow> snd t \<in> set OPS
     | T_conj \<Rightarrow> snd t \<in> set CONJS | T_bool \<Rightarrow> snd t \<in> set BOOLS | T_null \<Rightarrow> snd t = ''null'' | T_word \<Rightarrow> field_name (snd t)
     | T_number \<Rightarrow> snd t \<noteq> [] \<and> list_all is_digit (snd t) | T_comma \<Rightarrow> snd t = '','' | _ \<Rightarrow> False)"

definition blank_next :: "string \<Rightarrow> bool" where
  "blank_next r \<longleftrightarrow> r = [] \<or> hd r = CHR '' ''"

lemma blank_nextE: "blank_next r \<Longrightarrow> (r = [] \<Longrightarrow> P) \<Longrightarrow> (\<And>r'. r = CHR '' '' # r' \<Longrightarrow> P) \<Longrightarrow> P"
  by (cases r) (auto simp: blank_next_def)

lemma blank_chars [simp]:
  "\<not> is_word_char CHR '' ''" "\<not> is_path_char CHR '' ''" "\<not> is_digit CHR '' ''" "is_space CHR '' ''" "\<not> is_hex CHR '' ''"
  by code_simp+

lemma word_ends_blank: "blank_next r \<Longrightarrow> word_ends r"
  by (auto elim!: blank_nextE simp: word_ends_def)

lemma quoted_escaped: "blank_next r \<Longrightarrow> quoted (escape_quotes v @ quote # r) = Some (v, r)"
  by (induction v) (auto simp: escape_quotes_def elim: blank_nextE)

text \<open>A lower-case word matches the front of the text only inside its leading word characters.\<close>

lemma lower_word: "list_all is_word_char w \<Longrightarrow> lower u = w \<Longrightarrow> list_all is_word_char u"
  by (auto simp: lower_def list_all_iff lower_char_def is_word_char_def is_ident_start_def)

lemma all_word_keywords: "w \<in> set (FUNCS @ KEYWORDS) \<Longrightarrow> list_all is_word_char w \<and> w \<noteq> []"
  by (simp add: FUNCS_def KEYWORDS_def OPS_def CONJS_def BOOLS_def) (elim disjE; simp; code_simp)

lemma front_inside:
  assumes "blank_next r" "lower (take (length w) (v @ r)) = w" "list_all is_word_char w"
  shows "length w \<le> length v"
proof (rule ccontr)
  assume "\<not> length w \<le> length v"
  moreover have "length (take (length w) (v @ r)) = length w" using assms(2) by (metis length_map lower_def)
  ultimately have "r \<noteq> [] \<and> hd r \<in> set (take (length w) (v @ r))"
    by (cases r) (auto simp: take_Cons')
  moreover have "list_all is_word_char (take (length w) (v @ r))" using lower_word assms(2,3) by blast
  ultimately have "is_word_char (hd r)" "r \<noteq> []" unfolding list_all_iff by blast+
  then show False using assms(1) by (auto elim: blank_nextE)
qed

lemma takeWhile_front: "list_all P (take n v) \<Longrightarrow> n \<le> length v \<Longrightarrow> (drop n v = [] \<or> \<not> P (hd (drop n v))) \<Longrightarrow> takeWhile P v = take n v"
proof (induction n arbitrary: v)
  case 0
  then show ?case by (cases v) auto
next
  case (Suc n)
  then show ?case by (cases v) auto
qed

lemma field_not_keyword:
  assumes "field_name v" "blank_next r" "set ws \<subseteq> set KEYWORDS"
  shows "keyword_at ws (v @ r) = None"
proof -
  have "\<not> (lower (take (length w) (v @ r)) = w \<and> word_ends (drop (length w) (v @ r)))" if "w \<in> set ws" for w
  proof
    assume a: "lower (take (length w) (v @ r)) = w \<and> word_ends (drop (length w) (v @ r))"
    have word: "list_all is_word_char w" using all_word_keywords that assms(3) by auto
    have n: "length w \<le> length v" using front_inside [OF assms(2) _ word] a by blast
    then have t: "take (length w) (v @ r) = take (length w) v" by simp
    then have "list_all is_word_char (take (length w) v)" using lower_word [OF word] a by metis
    moreover have "drop (length w) v = [] \<or> \<not> is_word_char (hd (drop (length w) v))"
      using a n by (cases "drop (length w) v") (auto simp: word_ends_def)
    ultimately have "takeWhile is_word_char v = take (length w) v" using takeWhile_front n by blast
    then have "lower (takeWhile is_word_char v) = w" using a t by metis
    then show False using assms(1,3) that by (auto simp: field_name_def)
  qed
  then have "find (\<lambda>w. lower (take (length w) (v @ r)) = w \<and> word_ends (drop (length w) (v @ r))) ws = None"
    by (auto simp: find_None_iff)
  then show ?thesis by (simp add: keyword_at_def)
qed

lemma path_char_plain: "is_path_char c \<Longrightarrow> \<not> is_space c \<and> c \<noteq> CHR ''('' \<and> c \<noteq> CHR ''-''"
  by (auto simp: is_path_char_def is_word_char_def is_ident_start_def is_upper_def is_lower_def is_digit_def is_space_def)

lemma field_not_call:
  assumes "field_name v" "blank_next r"
  shows "func_at (v @ r) = None"
proof -
  have path: "list_all is_path_char v"
  proof -
    obtain c w where "v = c # w" "is_ident_start c" "list_all is_path_char w" using assms(1) by (cases v) (auto simp: field_name_def)
    then show ?thesis by (simp add: is_path_char_def is_word_char_def)
  qed
  have "\<not> (lower (take (length f) (v @ r)) = f \<and> call_opens (drop (length f) (v @ r)))" if "f \<in> set FUNCS" for f
  proof
    assume a: "lower (take (length f) (v @ r)) = f \<and> call_opens (drop (length f) (v @ r))"
    have word: "list_all is_word_char f" using all_word_keywords [of f] that by simp
    have n: "length f \<le> length v" using front_inside [OF assms(2) _ word] a by blast
    have "drop (length f) v = []"
    proof (rule ccontr)
      assume "drop (length f) v \<noteq> []"
      then obtain c cs where d: "drop (length f) v = c # cs" by (cases "drop (length f) v") auto
      then have "c \<in> set v" by (metis list.set_intros(1) in_set_dropD)
      then have "is_path_char c" using path by (simp add: list_all_iff)
      then show False using a n d path_char_plain by (auto simp: call_opens_def)
    qed
    then have "lower v = f" using a n by simp
    then show False using assms(1) that by (auto simp: field_name_def)
  qed
  then have "find (\<lambda>f. lower (take (length f) (v @ r)) = f \<and> call_opens (drop (length f) (v @ r))) FUNCS = None"
    by (auto simp: find_None_iff)
  then show ?thesis by (simp add: func_at_def)
qed

lemma not_dashed:
  assumes "\<forall>c \<in> set v. c \<noteq> CHR ''-''" "blank_next r" "n < length ps"
    and dash: "\<And>c. (ps ! n) c \<Longrightarrow> c = CHR ''-''" and blank: "\<And>k. k < n \<Longrightarrow> \<not> (ps ! k) CHR '' ''"
  shows "\<not> fits ps (v @ r)"
proof
  assume f: "fits ps (v @ r)"
  then have len: "length ps \<le> length (v @ r)" and all: "list_all2 (\<lambda>p c. p c) ps (take (length ps) (v @ r))"
    by (simp_all add: fits_def)
  have at: "(ps ! k) ((v @ r) ! k)" if "k < length ps" for k
    using list_all2_nthD [OF all that] that by (simp del: take_append)
  show False
  proof (cases "length v \<le> n")
    case True
    then have "r \<noteq> []" "(v @ r) ! length v = CHR '' ''" using len assms(2,3) by (auto elim: blank_nextE)
    moreover have "(ps ! length v) ((v @ r) ! length v)" using at True assms(3) by simp
    ultimately show False using blank [of "length v"] dash [of "CHR '' ''"] True by (cases "length v = n") auto
  next
    case False
    then have "(v @ r) ! n \<in> set v" by (simp add: nth_append)
    then show False using at [OF assms(3)] dash assms(1) by auto
  qed
qed

lemma not_guid: "\<forall>c \<in> set v. c \<noteq> CHR ''-'' \<Longrightarrow> blank_next r \<Longrightarrow> \<not> fits GUID_CLASSES (v @ r)"
  by (rule not_dashed [of v r 8]) (auto simp: GUID_CLASSES_def Let_def nth_append)

lemma not_date: "\<forall>c \<in> set v. c \<noteq> CHR ''-'' \<Longrightarrow> blank_next r \<Longrightarrow> \<not> fits DATE_CLASSES (v @ r)"
  by (rule not_dashed [of v r 4]) (auto simp: DATE_CLASSES_def Let_def nth_append)

lemma keyword_starts: "w \<in> set (FUNCS @ KEYWORDS) \<Longrightarrow> \<exists>a u. w = a # u \<and> is_lower a"
  by (simp add: FUNCS_def KEYWORDS_def OPS_def CONJS_def BOOLS_def) (elim disjE; simp; code_simp)

lemma no_letter_front:
  assumes "\<not> is_upper c" "\<not> is_lower c"
  shows "set ws \<subseteq> set KEYWORDS \<Longrightarrow> keyword_at ws (c # s) = None" "func_at (c # s) = None"
proof -
  have no: "lower (take (length w) (c # s)) \<noteq> w" if "w \<in> set (FUNCS @ KEYWORDS)" for w
    using keyword_starts [OF that] assms by (auto simp: lower_def lower_char_def)
  show "set ws \<subseteq> set KEYWORDS \<Longrightarrow> keyword_at ws (c # s) = None"
    using no by (auto simp: keyword_at_def find_None_iff)
  show "func_at (c # s) = None" using no by (auto simp: func_at_def find_None_iff)
qed

lemma keyword_sets: "set OPS \<subseteq> set KEYWORDS" "set CONJS \<subseteq> set KEYWORDS" "set BOOLS \<subseteq> set KEYWORDS" "set [''null''] \<subseteq> set KEYWORDS"
  by (auto simp: KEYWORDS_def)

lemmas read_off = func_at_def keyword_at_def FUNCS_def OPS_def CONJS_def BOOLS_def lower_def lower_char_def is_upper_def call_opens_def

lemma lex_op: "w \<in> set OPS \<Longrightarrow> word_ends r \<Longrightarrow> func_at (w @ r) = None \<and> keyword_at OPS (w @ r) = Some (w, r)"
  by (simp only: OPS_def list.set insert_iff empty_iff) (elim disjE; simp add: read_off)

lemma lex_conj: "w \<in> set CONJS \<Longrightarrow> word_ends r \<Longrightarrow>
    func_at (w @ r) = None \<and> keyword_at OPS (w @ r) = None \<and> keyword_at CONJS (w @ r) = Some (w, r)"
  by (simp only: CONJS_def list.set insert_iff empty_iff) (elim disjE; simp add: read_off)

lemma lex_bool: "w \<in> set BOOLS \<Longrightarrow> word_ends r \<Longrightarrow> func_at (w @ r) = None \<and> keyword_at OPS (w @ r) = None \<and>
    keyword_at CONJS (w @ r) = None \<and> keyword_at BOOLS (w @ r) = Some (w, r)"
  by (simp only: BOOLS_def list.set insert_iff empty_iff) (elim disjE; simp add: read_off)

lemma lex_null: "word_ends r \<Longrightarrow> func_at (''null'' @ r) = None \<and> keyword_at OPS (''null'' @ r) = None \<and>
    keyword_at CONJS (''null'' @ r) = None \<and> keyword_at BOOLS (''null'' @ r) = None \<and>
    keyword_at [''null''] (''null'' @ r) = Some (''null'', r)"
  by (simp add: read_off)

lemma lex_func: "f \<in> set FUNCS \<Longrightarrow> func_at (f @ CHR ''('' # r) = Some (f, r)"
  by (simp only: FUNCS_def list.set insert_iff empty_iff) (elim disjE; simp add: read_off is_space_def)

lemma number_front:
  assumes "v \<noteq> []" "list_all is_digit v" "blank_next r"
  shows "number_length (v @ r) = length v"
proof -
  have t: "takeWhile is_digit (v @ r) = v" using assms(2,3) by (auto simp: list_all_iff takeWhile_append2 elim: blank_nextE)
  have "hd v \<noteq> CHR ''-''" using assms(1,2) by (cases v) (auto simp: is_digit_def)
  then have "(case v @ r of c # cs \<Rightarrow> if c = CHR ''-'' then 1 else 0 | [] \<Rightarrow> 0) = (0 :: nat)"
    using assms(1) by (cases v) auto
  moreover have "fraction_length r = 0" using assms(3) by (auto simp: fraction_length_def elim: blank_nextE)
  ultimately show ?thesis using t assms(1) by (simp add: number_length_def Let_def)
qed

lemma lex_word:
  assumes "field_name v" "blank_next r"
  shows "lex1 (v @ r) = Some (Some (T_word, v), r)"
proof -
  obtain c w where v: "v = c # w" "is_ident_start c" "list_all is_path_char w" using assms(1) by (cases v) (auto simp: field_name_def)
  have first: "c \<noteq> CHR ''('' \<and> c \<noteq> CHR '')'' \<and> c \<noteq> quote \<and> \<not> is_digit c \<and> is_path_char c"
    using v(2) by (auto simp: is_ident_start_def is_upper_def is_lower_def is_digit_def is_path_char_def is_word_char_def)
  have "\<forall>c \<in> set v. c \<noteq> CHR ''-''" using v first path_char_plain by (auto simp: list_all_iff)
  note g = not_guid [OF this assms(2)]
  have d: "datetime_length (v @ r) = 0" using first by (simp add: datetime_length_def v(1) fits_def DATE_CLASSES_def Let_def numeral_eq_Suc)
  have "takeWhile is_path_char (w @ r) = w" "dropWhile is_path_char (w @ r) = r"
    using v(3) assms(2) by (auto simp: list_all_iff takeWhile_append2 dropWhile_append2 elim: blank_nextE)
  then show ?thesis
    using field_not_call [OF assms] field_not_keyword [OF assms keyword_sets(1)] field_not_keyword [OF assms keyword_sets(2)]
      field_not_keyword [OF assms keyword_sets(3)] field_not_keyword [OF assms keyword_sets(4)] g d first v
    by (simp add: lex1_def Let_def)
qed

lemma lex_number:
  assumes "v \<noteq> []" "list_all is_digit v" "blank_next r"
  shows "lex1 (v @ r) = Some (Some (T_number, v), r)"
proof -
  obtain c w where v: "v = c # w" "is_digit c" using assms(1,2) by (cases v) auto
  have first: "\<not> is_upper c" "\<not> is_lower c" "\<not> is_ident_start c" "c \<noteq> CHR ''('' \<and> c \<noteq> CHR '')'' \<and> c \<noteq> quote"
    using v(2) by (auto simp: is_ident_start_def is_upper_def is_lower_def is_digit_def)
  have "\<forall>c \<in> set v. c \<noteq> CHR ''-''" using assms(2) by (auto simp: list_all_iff is_digit_def)
  note g = not_guid [OF this assms(3)] not_date [OF this assms(3)]
  note k = no_letter_front [OF first(1,2), where s = "w @ r"]
  show ?thesis
    using number_front [OF assms] k(1) [OF keyword_sets(1)] k(1) [OF keyword_sets(2)] k(1) [OF keyword_sets(3)] k(1) [OF keyword_sets(4)]
      k(2) g first v(1)
    by (simp add: lex1_def Let_def datetime_length_def)
qed

lemma lex_symbols:
  "lex1 (CHR ''('' # r) = Some (Some (T_paren, ''(''), r)" "lex1 (CHR '')'' # r) = Some (Some (T_paren, '')''), r)"
  "lex1 (CHR '','' # r) = Some (Some (T_comma, '',''), r)" "lex1 (CHR '' '' # r) = Some (None, dropWhile is_space r)"
proof -
  have c: "\<not> is_upper c \<and> \<not> is_lower c \<and> \<not> is_ident_start c \<and> \<not> is_digit c \<and> \<not> is_hex c" if "c \<in> set ''(), ''" for c
    using that by (auto simp: is_upper_def is_lower_def is_ident_start_def is_digit_def is_hex_def lower_char_def)
  note k = no_letter_front [where s = r]
  have none: "func_at (c # r) = None \<and> keyword_at OPS (c # r) = None \<and> keyword_at CONJS (c # r) = None \<and> keyword_at BOOLS (c # r) = None \<and>
      keyword_at [''null''] (c # r) = None \<and> datetime_length (c # r) = 0 \<and> \<not> fits GUID_CLASSES (c # r) \<and> number_length (c # r) = 0"
    if "c \<in> set ''(), ''" for c
    using c [OF that] k keyword_sets that
    by (auto simp: datetime_length_def fits_def DATE_CLASSES_def GUID_CLASSES_def Let_def numeral_eq_Suc number_length_def)
  show "lex1 (CHR ''('' # r) = Some (Some (T_paren, ''(''), r)" "lex1 (CHR '')'' # r) = Some (Some (T_paren, '')''), r)"
    "lex1 (CHR '','' # r) = Some (Some (T_comma, '',''), r)" "lex1 (CHR '' '' # r) = Some (None, dropWhile is_space r)"
    using none [of "CHR ''(''"] none [of "CHR '')''"] none [of "CHR '',''"] none [of "CHR '' ''"] c
    by (simp_all add: lex1_def Let_def is_space_def)
qed

lemma keyword_head:
  assumes "v \<in> set ws" "set ws \<subseteq> set KEYWORDS"
    "\<And>c cs. v = c # cs \<Longrightarrow> c \<noteq> CHR ''('' \<Longrightarrow> c \<noteq> CHR '')'' \<Longrightarrow> c \<noteq> quote \<Longrightarrow> P"
  shows P
proof -
  obtain c cs where "v = c # cs" "is_lower c" using keyword_starts [of v] assms(1,2) by auto
  moreover have "c \<noteq> CHR ''(''" "c \<noteq> CHR '')''" "c \<noteq> quote" using \<open>is_lower c\<close> by (auto simp: is_lower_def)
  ultimately show P using assms(3) by blast
qed

lemma tokenise_blank: "lex1 s = Some (None, r) \<Longrightarrow> tokenise s = tokenise r"
  using lex1_shorter [of s None r] by (subst tokenise.simps) (auto split: sum.splits)

lemma tokenise_token: "lex1 s = Some (Some t, r) \<Longrightarrow> tokenise r = Inr ts \<Longrightarrow> tokenise s = Inr (t # ts)"
  using lex1_shorter [of s "Some t" r] by (subst tokenise.simps) auto

lemma lex_front:
  assumes "printable t" "blank_next r"
  shows "lex1 (token_text t @ r) = Some (Some t, r)"
proof -
  obtain k v where t: "t = (k, v)" by fastforce
  note e = word_ends_blank [OF assms(2)]
  show ?thesis
  proof (cases k)
    case T_func
    then show ?thesis using assms lex_func [of v r] by (auto simp: t token_text_def printable_def lex1_def)
  next
    case T_paren
    then show ?thesis using assms lex_symbols(1,2) by (auto simp: t token_text_def printable_def)
  next
    case T_string
    have "func_at (quote # s) = None" for s using no_letter_front(2) [of quote s] by (simp add: is_upper_def is_lower_def)
    then show ?thesis using quoted_escaped [OF assms(2)] T_string by (simp add: t token_text_def lex1_def)
  next
    case T_op
    then have v: "v \<in> set OPS" using assms(1) by (simp add: t printable_def)
    then obtain c cs where "v = c # cs" "c \<noteq> CHR ''(''" "c \<noteq> CHR '')''" "c \<noteq> quote" by (rule keyword_head) (auto simp: KEYWORDS_def)
    then show ?thesis using lex_op [OF v e] T_op by (simp add: t token_text_def lex1_def)
  next
    case T_conj
    then have v: "v \<in> set CONJS" using assms(1) by (simp add: t printable_def)
    then obtain c cs where "v = c # cs" "c \<noteq> CHR ''(''" "c \<noteq> CHR '')''" "c \<noteq> quote" by (rule keyword_head) (auto simp: KEYWORDS_def)
    then show ?thesis using lex_conj [OF v e] T_conj by (simp add: t token_text_def lex1_def)
  next
    case T_bool
    then have v: "v \<in> set BOOLS" using assms(1) by (simp add: t printable_def)
    then obtain c cs where "v = c # cs" "c \<noteq> CHR ''(''" "c \<noteq> CHR '')''" "c \<noteq> quote" by (rule keyword_head) (auto simp: KEYWORDS_def)
    then show ?thesis using lex_bool [OF v e] T_bool by (simp add: t token_text_def lex1_def)
  next
    case T_null
    then have "v = ''null''" using assms(1) by (simp add: t printable_def)
    then show ?thesis using lex_null [OF e] T_null by (auto simp: t token_text_def lex1_def)
  next
    case T_word
    then show ?thesis using lex_word [OF _ assms(2), of v] assms(1) by (simp add: t token_text_def printable_def)
  next
    case T_number
    then show ?thesis using lex_number [OF _ _ assms(2), of v] assms(1) by (simp add: t token_text_def printable_def)
  next
    case T_comma
    then show ?thesis using assms lex_symbols(3) by (simp add: t token_text_def printable_def)
  qed (use assms(1) in \<open>simp_all add: t printable_def\<close>)
qed

lemma token_text_head: "printable t \<Longrightarrow> \<exists>c cs. token_text t = c # cs \<and> \<not> is_space c"
proof -
  assume p: "printable t"
  obtain k v where t: "t = (k, v)" by fastforce
  have word: "\<exists>c cs. w = c # cs \<and> \<not> is_space c" if "w \<in> set (FUNCS @ KEYWORDS)" for w
    using keyword_starts [OF that] by (auto simp: is_lower_def is_space_def)
  show ?thesis
  proof (cases k)
    case T_word
    then have "field_name v" using p by (simp add: t printable_def)
    then obtain c w where v: "v = c # w" "is_ident_start c" by (cases v) (auto simp: field_name_def)
    have "\<not> is_space c" using v(2) by (auto simp: is_ident_start_def is_upper_def is_lower_def is_space_def)
    then show ?thesis using T_word v(1) by (simp add: t token_text_def)
  next
    case T_number
    then obtain c w where v: "v = c # w" "is_digit c" using p by (cases v) (simp_all add: t printable_def)
    have "\<not> is_space c" using v(2) by (auto simp: is_digit_def is_space_def)
    then show ?thesis using T_number v(1) by (simp add: t token_text_def)
  next
    case T_func
    then have "v \<in> set (FUNCS @ KEYWORDS)" using p by (simp add: t printable_def)
    then obtain c w where "v = c # w" "\<not> is_space c" using word by blast
    then show ?thesis using T_func by (simp add: t token_text_def)
  next
    case T_op
    then have "v \<in> set (FUNCS @ KEYWORDS)" using p by (simp add: t printable_def KEYWORDS_def)
    then show ?thesis using word T_op by (simp add: t token_text_def)
  next
    case T_conj
    then have "v \<in> set (FUNCS @ KEYWORDS)" using p by (simp add: t printable_def KEYWORDS_def)
    then show ?thesis using word T_conj by (simp add: t token_text_def)
  next
    case T_bool
    then have "v \<in> set (FUNCS @ KEYWORDS)" using p by (simp add: t printable_def KEYWORDS_def)
    then show ?thesis using word T_bool by (simp add: t token_text_def)
  next
    case T_paren
    then have "v = ''('' \<or> v = '')''" using p by (simp add: t printable_def)
    moreover have "\<not> is_space CHR ''(''" "\<not> is_space CHR '')''" by code_simp+
    ultimately show ?thesis using T_paren by (elim disjE) (simp_all add: t token_text_def)
  next
    case T_string
    then show ?thesis by (simp add: t token_text_def is_space_def)
  next
    case T_null
    then show ?thesis using p by (simp add: t token_text_def printable_def is_space_def)
  next
    case T_comma
    then show ?thesis using p by (simp add: t token_text_def printable_def is_space_def)
  qed (use p in \<open>simp_all add: t printable_def\<close>)
qed

lemma text_of_Cons: "text_of (t # ts) = token_text t @ (if ts = [] then [] else CHR '' '' # text_of ts)"
  by (cases ts) (simp_all add: text_of_def)

lemma text_of_head: "list_all printable ts \<Longrightarrow> ts \<noteq> [] \<Longrightarrow> \<exists>c cs. text_of ts = c # cs \<and> \<not> is_space c"
  using token_text_head by (cases ts) (fastforce simp: text_of_Cons)+

lemma tokenise_text: "list_all printable ts \<Longrightarrow> tokenise (text_of ts) = Inr ts"
proof (induction ts)
  case Nil
  then show ?case by (simp add: text_of_def tokenise.simps)
next
  case (Cons t ts)
  define r where "r = (if ts = [] then [] else CHR '' '' # text_of ts)"
  have "tokenise r = Inr ts"
  proof (cases "ts = []")
    case False
    then obtain c cs where "text_of ts = c # cs" "\<not> is_space c" using text_of_head [of ts] Cons.prems by auto
    then have "tokenise r = tokenise (text_of ts)"
      using False lex_symbols(4) [of "text_of ts"] by (intro tokenise_blank) (simp add: r_def)
    then show ?thesis using Cons by simp
  qed (simp add: r_def tokenise.simps)
  moreover have "lex1 (text_of (t # ts)) = Some (Some t, r)"
    using lex_front [of t r] Cons.prems by (simp add: text_of_Cons r_def blank_next_def)
  ultimately show ?case using tokenise_token by blast
qed

lemma strip_nonblank: "\<not> is_space c \<Longrightarrow> strip (c # cs) \<noteq> []"
  by (simp add: strip_def lstrip_def rstrip_def dropWhile_eq_Nil_conv)

lemma parse_text: "list_all printable ts \<Longrightarrow> parse_odata_filter allow_in (text_of ts) = parse_tokens allow_in ts"
proof (cases "ts = []")
  case True
  then show ?thesis
    by (simp add: parse_odata_filter_def text_of_def strip_def lstrip_def rstrip_def parse_tokens_def
        recognisesD(4) [OF filter_recognises])
next
  case False
  assume p: "list_all printable ts"
  then obtain c cs where "text_of ts = c # cs" "\<not> is_space c" using text_of_head False by blast
  then show ?thesis using tokenise_text [OF p] strip_nonblank by (simp add: parse_odata_filter_def)
qed

text \<open>
  C21. A filter keeps what it says: whatever tree the grammar derives from a list of tokens, with at most fifty nested
  parentheses, the text a client writes for these tokens (any quoted literal with its quotes doubled, names that are not
  keywords) returns exactly the records the tree matches, in order.
\<close>

theorem odata_filter_correct:
  assumes "list_all printable ts" "filter_at MAX_DEPTH allow_in x ts"
  shows "apply_odata_filter allow_in records (text_of ts) = Inr (filter (\<lambda>r. match_node r x) records)"
proof -
  have "parse_or_with (parse_atom MAX_DEPTH allow_in) (ts @ []) = Inr (Some x, [])"
    using recognisesD(2) [OF filter_recognises assms(2)] by blast
  then have "parse_tokens allow_in ts = Inr (Some x)" by (simp add: parse_tokens_def)
  then show ?thesis using parse_text [OF assms(1)] by (simp add: apply_odata_filter_def)
qed

theorem odata_filter_correct_witness:
  "apply_odata_filter False [VDict [(''sev'', VStr ''O'' )], VDict [(''sev'', VStr [CHR ''O'', quote, CHR ''B''])]]
     (text_of [(T_word, ''sev''), (T_op, ''eq''), (T_string, [CHR ''O'', quote, CHR ''B''])]) =
   Inr [VDict [(''sev'', VStr [CHR ''O'', quote, CHR ''B''])]]"
proof -
  let ?ts = "[(T_word, ''sev''), (T_op, ''eq''), (T_string, [CHR ''O'', quote, CHR ''B''])]"
  have depth: "MAX_DEPTH = Suc 49" by (simp add: MAX_DEPTH_def)
  let ?x = "ODataClause ''sev'' ''eq'' [CHR ''O'', quote, CHR ''B''] ''string''"
  have "literal_token (T_string, [CHR ''O'', quote, CHR ''B'']) [CHR ''O'', quote, CHR ''B''] ''string''"
    by (simp add: literal_token_def VALUE_TOKENS_def)
  then have "atom_at MAX_DEPTH False ?x ?ts" unfolding depth atom_at.simps by (rule atom_form.comparison [rotated]) simp
  from operands.last [of "atom_at MAX_DEPTH False", OF this, of "''and''"]
  have "level ''and'' (atom_at MAX_DEPTH False) ?x ?ts" by (force simp: level_def grouped_def)
  from operands.last [of "level ''and'' (atom_at MAX_DEPTH False)", OF this, of "''or''"]
  have g: "filter_at MAX_DEPTH False ?x ?ts" by (force simp: filter_at_def level_def grouped_def)
  have p: "list_all printable ?ts" by code_simp
  have "match_node (VDict [(''sev'', VStr ''O'')]) ?x = False" "match_node (VDict [(''sev'', VStr [CHR ''O'', quote, CHR ''B''])]) ?x"
    by code_simp+
  then show ?thesis using odata_filter_correct [OF p g] by simp
qed

text \<open>A member of a list field named by a path is looked up under the path again, and never found.\<close>

lemma nested_list_member_unmatched:
  "\<not> match_node (VDict [(''user'', VDict [(''roles'', VList [VStr ''admin''])])]) (ODataClause ''user/roles'' ''startswith'' ''adm'' ''string'')"
  "match_node (VDict [(''roles'', VList [VStr ''admin''])]) (ODataClause ''roles'' ''startswith'' ''adm'' ''string'')"
  by code_simp+

end
