(* ===== verification/Mde_Resources.thy ===== *)
theory Mde_Resources
  imports World Odata Paging
begin

text \<open>
  What the Defender for Endpoint queries share: the primary key of a resource (\<open>src/backend/utils/mde_serde.py\<close>), the
  completion of a record to its documented shape (\<open>utils/mde_fixtures.py\<close>; the generated JSON file of an entity is the
  parameter \<open>fixture\<close>), the properties a filter may name (\<open>utils/mde_filterable.py\<close>), and the steps of a listing. A stored
  record is the dictionary of its fields.

  Shown here: a completed resource answers every documented property and every stored one exactly once, whatever the
  spelling.
\<close>

section \<open>Resources\<close>

definition to_mde_resource :: "jobj \<Rightarrow> string \<Rightarrow> jobj" where
  "to_mde_resource rec primary_key =
     (if primary_key = ''id'' \<or> primary_key \<notin> set (dict_keys rec) then rec
      else fold (\<lambda>(key, v) out. AList.update (if key = primary_key then ''id'' else key) v out) rec [])"

definition machine_name :: "string \<Rightarrow> db \<Rightarrow> string" where
  "machine_name machine_id s =
     (case repo_find s ''mde_machines'' machine_id of
        None \<Rightarrow> []
      | Some machine \<Rightarrow> (let v = get_or machine ''computerDnsName'' (VStr []) in if truthy v then py_str v else []))"

fun mde_blank :: "pyval \<Rightarrow> pyval" where
  "mde_blank (VList vs) = VList []"
| "mde_blank (VDict d) = VDict (map (\<lambda>(k, v). (k, mde_blank v)) d)"
| "mde_blank v = v"

text \<open>The spelling the record has for a declared key: its own, or the last one that differs in case only.\<close>

definition spelling :: "jobj \<Rightarrow> string \<Rightarrow> string option" where
  "spelling actual key =
     (if key \<in> set (dict_keys actual) then Some key
      else map_of (rev (map (\<lambda>k. (lower k, k)) (dict_keys actual))) (lower key))"

lemma template_smaller: "(key, template) \<in> set defaults \<Longrightarrow> size template < size_list (size_prod (\<lambda>_. 0) size) defaults"
  by (induction defaults) auto

text \<open>The two loops of \<open>deep_complete\<close>, over the declared keys and over those of the record.\<close>

function mde_complete :: "jobj \<Rightarrow> jobj \<Rightarrow> jobj" where
  "mde_complete defaults actual =
     fold (\<lambda>(key, v) out. if key \<in> set (dict_keys defaults) then out else AList.update key v out) actual
       (fold (\<lambda>(key, template) out.
            case spelling actual key of
              None \<Rightarrow> AList.update key (mde_blank template) out
            | Some k \<Rightarrow>
                AList.update k
                  (case (template, dict_get actual k) of
                     (VDict t, VDict v) \<Rightarrow> VDict (mde_complete t v)
                   | (VList (VDict t # _), VList vs) \<Rightarrow>
                       VList (map (\<lambda>i. case i of VDict v \<Rightarrow> VDict (mde_complete t v) | _ \<Rightarrow> i) vs)
                   | (_, v) \<Rightarrow> v) out)
          defaults [])"
  by pat_completeness auto

termination mde_complete
  by (relation "measure (\<lambda>(defaults, actual). size_list (size_prod (\<lambda>_. 0) size) defaults)") (auto dest!: template_smaller)

declare mde_complete.simps [simp del]

definition DATE_SUFFIXES :: "string list" where
  "DATE_SUFFIXES = [''Time'', ''DateTimeUtc'', ''Seen'', ''Observed'', ''On'', ''Detected'']"

text \<open>\<open>$\<close> also matches before a final newline.\<close>

definition DATE_FIELD :: "string \<Rightarrow> bool" where
  "DATE_FIELD k \<longleftrightarrow> list_ex (\<lambda>e. endswith k e \<or> endswith k (e @ [CHR 0x0A])) DATE_SUFFIXES"

fun null_unset_dates :: "pyval \<Rightarrow> pyval" where
  "null_unset_dates (VDict d) =
     VDict (map (\<lambda>(k, v). (k, if v = VStr [] \<and> DATE_FIELD k then VNone else null_unset_dates v)) d)"
| "null_unset_dates (VList vs) = VList (map null_unset_dates vs)"
| "null_unset_dates v = v"

definition complete_mde :: "(string \<Rightarrow> jobj) \<Rightarrow> jobj \<Rightarrow> string \<Rightarrow> jobj" where
  "complete_mde fixture rec entity =
     (let defaults = fixture entity
      in fields_of (null_unset_dates (VDict (if defaults = [] then rec else mde_complete defaults rec))))"

section \<open>Filterable properties\<close>

definition FILTERABLE :: "(string \<times> string list) list" where
  "FILTERABLE = [
     (''machines'', [''computerDnsName'', ''id'', ''version'', ''deviceValue'', ''aadDeviceId'', ''machineTags'',
        ''lastSeen'', ''exposureLevel'', ''onboardingStatus'', ''lastIpAddress'', ''healthStatus'',
        ''osPlatform'', ''riskScore'', ''rbacGroupId'']),
     (''alerts'', [''alertCreationTime'', ''lastUpdateTime'', ''incidentId'', ''investigationId'', ''id'',
        ''assignedTo'', ''detectionSource'', ''lastEventTime'', ''status'', ''severity'', ''category'']),
     (''indicators'', [''application'', ''createdByDisplayName'', ''expirationTime'', ''generateAlert'', ''title'',
        ''rbacGroupNames'', ''rbacGroupIds'', ''indicatorValue'', ''indicatorType'',
        ''creationTimeDateTimeUtc'', ''createdBy'', ''action'', ''severity'']),
     (''machineactions'', [''id'', ''status'', ''machineId'', ''type'', ''requestor'', ''creationDateTimeUtc'']),
     (''software'', [''id'', ''name'', ''vendor'']),
     (''vulnerabilities'', [''id'', ''name'', ''description'', ''cvssV3'', ''publishedOn'', ''severity'', ''updatedOn'']),
     (''investigations'', [''startTime'', ''id'', ''state'', ''machineId'', ''triggeringAlertId''])]"

fun node_fields :: "odata_node \<Rightarrow> string list" where
  "node_fields (ODataClause fld op v l) = [fld]"
| "node_fields (ODataGroup op children) = concat (map node_fields children)"

definition refuse_unfilterable :: "string option \<Rightarrow> string \<Rightarrow> unit http" where
  "refuse_unfilterable filter_str collection =
     (case filter_str of
        None \<Rightarrow> Inr ()
      | Some text \<Rightarrow>
          (if strip text = [] then Inr ()
           else case parse_odata_filter False text of
                  Inl e \<Rightarrow> Inr ()
                | Inr node \<Rightarrow>
                    (let named = (case node of None \<Rightarrow> [] | Some x \<Rightarrow> node_fields x);
                         allowed = map lower (case map_of FILTERABLE collection of None \<Rightarrow> [] | Some ns \<Rightarrow> ns)
                     in case find (\<lambda>n. lower n \<notin> set allowed) (sort (remdups named)) of
                          None \<Rightarrow> Inr ()
                        | Some n \<Rightarrow>
                            Inl (HTTPException 400 (build_mde_error_response ''ODataError''
                              (''Invalid OData URI query: the property '' @ [CHR 0x27] @ n @ [CHR 0x27] @
                               '' cannot be used in the $filter query option.'') None) []))))"

section \<open>Listings\<close>

text \<open>
  \<open>$filter\<close> and \<open>$orderby\<close> over the rendered records, the first two steps of every listing. A filter that does not parse is an
  \<open>ODataFilterError\<close>, answered by the handler of the application.
\<close>

definition odata_selected ::
  "jobj list \<Rightarrow> string option \<Rightarrow> string option \<Rightarrow> (string \<times> string list) list \<Rightarrow> odata_failure + jobj list" where
  "odata_selected records filter_str orderby enums =
     (case (case filter_str of
              None \<Rightarrow> Inr (map VDict records)
            | Some f \<Rightarrow> if f = [] then Inr (map VDict records) else apply_odata_filter False (map VDict records) f) of
        Inl e \<Rightarrow> Inl e
      | Inr rs \<Rightarrow> (case apply_odata_orderby rs orderby enums of Inl e \<Rightarrow> Inl (Odata_raises e) | Inr rs' \<Rightarrow> Inr (map fields_of rs')))"

text \<open>The page that is left, and the link to the next one.\<close>

definition odata_listing ::
  "string option \<Rightarrow> (jobj list \<Rightarrow> jobj list) \<Rightarrow> string \<Rightarrow> string \<Rightarrow> int \<Rightarrow> int \<Rightarrow> bool \<Rightarrow> jobj list \<Rightarrow> pyval" where
  "odata_listing request_url on_page entity_set path page_size skip counted records =
     build_mde_list_response (map VDict (on_page (py_slice records skip (skip + page_size)))) (mde_context entity_set)
       (page_link request_url (skip + page_size) (int (length records))
          (''https://api.security.microsoft.com/api/'' @ path @ ''?$top='' @ str_of_int page_size) SKIP)
       (if counted then Some (int (length records)) else None)"

section \<open>Completion answers every property once\<close>

text \<open>The key under which the completed record carries a declared property.\<close>

definition answered_key :: "jobj \<Rightarrow> string \<Rightarrow> string" where
  "answered_key actual key = (case spelling actual key of None \<Rightarrow> key | Some k \<Rightarrow> k)"

definition answered_value :: "jobj \<Rightarrow> string \<Rightarrow> pyval \<Rightarrow> pyval" where
  "answered_value actual key template =
     (case spelling actual key of
        None \<Rightarrow> mde_blank template
      | Some k \<Rightarrow>
          (case (template, dict_get actual k) of
             (VDict t, VDict v) \<Rightarrow> VDict (mde_complete t v)
           | (VList (VDict t # _), VList vs) \<Rightarrow> VList (map (\<lambda>i. case i of VDict v \<Rightarrow> VDict (mde_complete t v) | _ \<Rightarrow> i) vs)
           | (_, v) \<Rightarrow> v))"

lemma mde_complete_loops:
  "mde_complete defaults actual =
     fold (\<lambda>(key, v) out. if key \<in> set (dict_keys defaults) then out else AList.update key v out) actual
       (fold (\<lambda>(key, template) out. AList.update (answered_key actual key) (answered_value actual key template) out) defaults [])"
proof -
  have step: "(\<lambda>(key, template) out. AList.update (answered_key actual key) (answered_value actual key template) out) =
      (\<lambda>(key, template) out.
            case spelling actual key of
              None \<Rightarrow> AList.update key (mde_blank template) out
            | Some k \<Rightarrow>
                AList.update k
                  (case (template, dict_get actual k) of
                     (VDict t, VDict v) \<Rightarrow> VDict (mde_complete t v)
                   | (VList (VDict t # _), VList vs) \<Rightarrow>
                       VList (map (\<lambda>i. case i of VDict v \<Rightarrow> VDict (mde_complete t v) | _ \<Rightarrow> i) vs)
                   | (_, v) \<Rightarrow> v) out)"
    by (intro ext) (auto simp: answered_key_def answered_value_def split: option.splits)
  show ?thesis unfolding step by (rule mde_complete.simps)
qed

lemma spelling_Some: "spelling actual key = Some k \<Longrightarrow> k \<in> set (dict_keys actual) \<and> lower k = lower key"
  by (auto simp: spelling_def split: if_splits dest!: map_of_SomeD)

lemma spelling_None: "spelling actual key = None \<Longrightarrow> lower key \<notin> lower ` set (dict_keys actual)"
  by (auto simp: spelling_def map_of_eq_None_iff image_image split: if_splits)

lemma lower_answered [simp]: "lower (answered_key actual key) = lower key"
  by (auto simp: answered_key_def split: option.splits dest: spelling_Some)

lemma answered_own: "key \<in> set (dict_keys actual) \<Longrightarrow> answered_key actual key = key"
  by (simp add: answered_key_def spelling_def)

lemma keys_first_loop:
  "fst ` set (fold (\<lambda>(key, t) out. AList.update (f key) (g key t) out) ds out) = f ` fst ` set ds \<union> fst ` set out"
  "wf_dict out \<Longrightarrow> wf_dict (fold (\<lambda>(key, t) out. AList.update (f key) (g key t) out) ds out)"
proof (induction ds arbitrary: out)
  case (Cons d ds)
  {
    case 1 show ?case using Cons(1) by (cases d) simp
  next
    case 2 then show ?case using Cons(2) by (cases d) simp
  }
qed simp_all

lemma value_first_loop:
  assumes "inj_on f (fst ` set ds)" "wf_dict ds" "(key, t) \<in> set ds"
  shows "map_of (fold (\<lambda>(key, t) out. AList.update (f key) (g key t) out) ds out) (f key) = Some (g key t)"
  using assms
proof (induction ds arbitrary: out)
  case (Cons d ds)
  obtain k u where d: "d = (k, u)" by fastforce
  have other: "map_of (fold (\<lambda>(key, t) out. AList.update (f key) (g key t) out) ds out') i = map_of out' i"
    if "i \<notin> f ` fst ` set ds" for i out'
    using that by (induction ds arbitrary: out') auto
  show ?case
  proof (cases "(key, t) = (k, u)")
    case True
    then have "f key \<notin> f ` fst ` set ds" using Cons.prems(1,2) d by (auto simp: inj_on_def)
    then show ?thesis using other True d by simp
  next
    case False
    then have "(key, t) \<in> set ds" "inj_on f (fst ` set ds)" "wf_dict ds" using Cons.prems d by auto
    from Cons.IH [OF this(2,3,1)] show ?thesis by (simp add: d)
  qed
qed simp

lemma second_loop:
  "fst ` set (fold (\<lambda>(key, v) out. if key \<in> D then out else AList.update key v out) as out) = (fst ` set as - D) \<union> fst ` set out"
  "wf_dict out \<Longrightarrow> wf_dict (fold (\<lambda>(key, v) out. if key \<in> D then out else AList.update key v out) as out)"
  "wf_dict as \<Longrightarrow> map_of (fold (\<lambda>(key, v) out. if key \<in> D then out else AList.update key v out) as out) k =
     (if k \<in> D then map_of out k else case map_of as k of None \<Rightarrow> map_of out k | Some v \<Rightarrow> Some v)"
proof (induction as arbitrary: out)
  case (Cons a as)
  {
    case 1 show ?case using Cons(1) by (cases a) auto
  next
    case 2 then show ?case using Cons(2) by (cases a) auto
  next
    case 3
    obtain i v where a: "a = (i, v)" by fastforce
    have "map_of as i = None" using 3 a by (simp add: map_of_eq_None_iff)
    then show ?case using Cons(3) 3 a by (auto split: option.splits)
  }
qed auto

lemma distinct_lower_inj: "distinct (map lower ks) \<longleftrightarrow> distinct ks \<and> inj_on lower (set ks)"
  by (rule distinct_map)

definition is_scalar :: "pyval \<Rightarrow> bool" where
  "is_scalar v = (case v of VDict _ \<Rightarrow> False | VList _ \<Rightarrow> False | _ \<Rightarrow> True)"

lemma completed_scalars:
  assumes "distinct (map lower (dict_keys defaults))" "distinct (map lower (dict_keys actual))" "map_of actual k = Some v" "is_scalar v"
  shows "map_of (mde_complete defaults actual) k = Some v"
proof -
  let ?f = "answered_key actual"
  let ?one = "fold (\<lambda>(key, template) out. AList.update (?f key) (answered_value actual key template) out) defaults []"
  have d: "wf_dict defaults" "inj_on lower (set (dict_keys defaults))" and a: "wf_dict actual"
    using assms(1,2) by (simp_all only: distinct_lower_inj)
  have inj: "inj_on ?f (fst ` set defaults)"
    using d(2) lower_answered by (metis inj_onD inj_onI list.set_map)
  show ?thesis
  proof (cases "k \<in> set (dict_keys defaults)")
    case False
    then show ?thesis using assms(3) by (simp add: mde_complete_loops second_loop(3) [OF a])
  next
    case True
    then obtain t where t: "(k, t) \<in> set defaults" by auto
    have own: "k \<in> set (dict_keys actual)" using map_of_SomeD [OF assms(3)] by force
    have "spelling actual k = Some k" using own by (simp add: spelling_def)
    moreover have "dict_get actual k = v" using assms(3) by (simp add: dict_get_def)
    ultimately have "answered_value actual k t = v"
      using assms(4) by (auto simp: answered_value_def is_scalar_def split: pyval.splits list.splits)
    then have "map_of ?one k = Some v"
      using value_first_loop [OF inj d(1) t, of "answered_value actual" "[]"] answered_own [OF own] by simp
    then show ?thesis using True by (simp add: mde_complete_loops second_loop(3) [OF a])
  qed
qed

lemma renamed_resource:
  assumes "distinct (map (\<lambda>kv. if fst kv = pk then ''id'' else fst kv) rec)" "pk \<noteq> ''id''" "pk \<in> fst ` set rec"
  shows "to_mde_resource rec pk = map (\<lambda>(k, v). (if k = pk then ''id'' else k, v)) rec"
proof -
  have "fold (\<lambda>(key, v) out. AList.update (f key) v out) rec out = out @ map (\<lambda>(k, v). (f k, v)) rec"
    if "distinct (map fst out @ map (\<lambda>kv. f (fst kv)) rec)" for f :: "string \<Rightarrow> string" and out
    using that
  proof (induction rec arbitrary: out)
    case (Cons p rec)
    obtain k v where p: "p = (k, v)" by fastforce
    have "f k \<notin> fst ` set out" using Cons.prems p by auto
    then have "AList.update (f k) v out = out @ [(f k, v)]" by (rule update_fresh)
    then show ?case using Cons.IH [of "out @ [(f k, v)]"] Cons.prems p by auto
  qed simp
  from this [of "[]" "\<lambda>k. if k = pk then ''id'' else k"] show ?thesis using assms by (simp add: to_mde_resource_def)
qed

text \<open>A scalar field of a record, as the completed resource answers it.\<close>

lemma completed_scalar:
  assumes "distinct (map lower (dict_keys (fixtures entity)))" "distinct (map lower (dict_keys rec))"
    and "map_of rec k = Some v" "is_scalar v" "v \<noteq> VStr []"
  shows "dict_get (complete_mde fixtures rec entity) k = v"
proof -
  define c where "c = (if fixtures entity = [] then rec else mde_complete (fixtures entity) rec)"
  have c: "map_of c k = Some v" using completed_scalars [OF assms(1-4)] assms(3) by (simp add: c_def)
  have "null_unset_dates v = v" using assms(4) by (cases v) (simp_all add: is_scalar_def)
  then have "map_of (map (\<lambda>(k, v). (k, if v = VStr [] \<and> DATE_FIELD k then VNone else null_unset_dates v)) c) k = Some v"
    using c assms(5) by (induction c) (auto split: if_splits)
  then show ?thesis unfolding complete_mde_def Let_def c_def [symmetric] by (simp add: fields_of_def dict_get_def)
qed

text \<open>The same, through the renaming of the primary key.\<close>

lemma resource_scalar:
  assumes "distinct (map lower (dict_keys (fixtures entity)))"
    and "distinct (map (\<lambda>k. lower (if k = pk then ''id'' else k)) (map fst rec))" "pk \<noteq> ''id''" "pk \<in> set (map fst rec)"
    and "is_scalar v" "v \<noteq> VStr []"
  shows "k \<noteq> pk \<Longrightarrow> map_of rec k = Some v \<Longrightarrow> dict_get (complete_mde fixtures (to_mde_resource rec pk) entity) k = v"
    and "map_of rec pk = Some v \<Longrightarrow> dict_get (complete_mde fixtures (to_mde_resource rec pk) entity) ''id'' = v"
proof -
  let ?r = "map (\<lambda>(k, v). (if k = pk then ''id'' else k, v)) rec"
  have names: "dict_keys ?r = map (\<lambda>k. if k = pk then ''id'' else k) (map fst rec)"
    "map (\<lambda>kv. if fst kv = pk then ''id'' else fst kv) rec = map (\<lambda>k. if k = pk then ''id'' else k) (map fst rec)"
    by (induction rec) auto
  have low: "distinct (map lower (dict_keys ?r))" unfolding names(1) using assms(2) by (simp add: comp_def)
  then have "distinct (dict_keys ?r)" by (simp only: distinct_map [of lower])
  then have single: "distinct (map (\<lambda>k. if k = pk then ''id'' else k) (map fst rec))" unfolding names .
  have "to_mde_resource rec pk = ?r"
    using renamed_resource [of pk rec] assms(3,4) single unfolding names by simp
  then have res: "complete_mde fixtures (to_mde_resource rec pk) entity = complete_mde fixtures ?r entity" by simp
  have scalar: "map_of ?r k = Some v \<Longrightarrow> dict_get (complete_mde fixtures (to_mde_resource rec pk) entity) k = v" for k
    unfolding res by (rule completed_scalar [where fixtures = fixtures and entity = entity, OF assms(1) low _ assms(5,6)])
  have no_id: "''id'' \<notin> fst ` set rec"
  proof
    assume "''id'' \<in> fst ` set rec"
    moreover have "inj_on (\<lambda>k. if k = pk then ''id'' else k) (set (map fst rec))" using single by (simp only: distinct_map)
    ultimately show False using assms(3,4) by (auto dest!: inj_onD [where x = "''id''" and y = pk])
  qed
  have kept: "map_of (map (\<lambda>(k, v). (if k = pk then ''id'' else k, v)) d) k = map_of d k" if "k \<noteq> pk" "k \<noteq> ''id''" for k and d :: jobj
    using that by (induction d) auto
  have key: "map_of (map (\<lambda>(k, v). (if k = pk then ''id'' else k, v)) d) ''id'' = map_of d pk" if "''id'' \<notin> fst ` set d" for d :: jobj
    using that by (induction d) auto
  show "dict_get (complete_mde fixtures (to_mde_resource rec pk) entity) k = v" if "k \<noteq> pk" "map_of rec k = Some v"
  proof (rule scalar)
    have "k \<noteq> ''id''" using no_id map_of_SomeD [OF that(2)] by force
    from kept [OF that(1) this] show "map_of ?r k = Some v" by (rule trans [OF _ that(2)])
  qed
  show "dict_get (complete_mde fixtures (to_mde_resource rec pk) entity) ''id'' = v" if "map_of rec pk = Some v"
    by (rule scalar, rule trans [OF key [OF no_id] that])
qed

text \<open>
  A completed resource answers every property once: when neither the declared object nor the record spells a property
  twice (up to case), the answer does not either, it has exactly the properties declared or stored, and each scalar the record
  stores is answered unchanged under the record's own spelling.
\<close>

theorem completed_once:
  assumes "distinct (map lower (dict_keys defaults))" "distinct (map lower (dict_keys actual))"
  shows "distinct (map lower (dict_keys (mde_complete defaults actual))) \<and>
    lower ` set (dict_keys (mde_complete defaults actual)) =
      lower ` set (dict_keys defaults) \<union> lower ` set (dict_keys actual) \<and>
    (\<forall>k v. map_of actual k = Some v \<longrightarrow> is_scalar v \<longrightarrow> map_of (mde_complete defaults actual) k = Some v)"
proof -
  let ?D = "set (dict_keys defaults)" and ?A = "set (dict_keys actual)" and ?f = "answered_key actual"
  let ?out = "mde_complete defaults actual"
  have d: "wf_dict defaults" "inj_on lower ?D" and a: "wf_dict actual" "inj_on lower ?A"
    using assms by (simp_all only: distinct_lower_inj)
  have keys: "set (dict_keys ?out) = (?A - ?D) \<union> ?f ` ?D"
    by (simp add: mde_complete_loops second_loop(1) keys_first_loop(1))
  have "inj_on lower ((?A - ?D) \<union> ?f ` ?D)"
  proof (rule inj_onI)
    have part: "(k \<in> ?A) \<or> (k \<in> ?D \<and> lower k \<notin> lower ` ?A)" if k: "k \<in> (?A - ?D) \<union> ?f ` ?D" for k
    proof (cases "k \<in> ?A")
      case False
      then obtain i where i: "i \<in> ?D" "k = ?f i" using k by blast
      show ?thesis
      proof (cases "spelling actual i")
        case None
        then show ?thesis using i spelling_None by (simp add: answered_key_def)
      next
        case (Some k')
        then show ?thesis using i spelling_Some [OF Some] by (simp add: answered_key_def)
      qed
    qed simp
    fix x y
    assume "x \<in> (?A - ?D) \<union> ?f ` ?D" "y \<in> (?A - ?D) \<union> ?f ` ?D" and eq: "lower x = lower y"
    with part [of x] part [of y] show "x = y"
      using inj_onD [OF a(2) eq] inj_onD [OF d(2) eq] by (metis imageI)
  qed
  moreover have "wf_dict ?out" by (simp add: mde_complete_loops second_loop(2) keys_first_loop(2))
  ultimately have once: "distinct (map lower (dict_keys ?out))" using keys by (simp only: distinct_lower_inj simp_thms)
  have fd: "lower ` (?f ` ?D) = lower ` ?D" by (simp add: image_image)
  have "lower ` (?A - ?D) \<union> lower ` ?D = lower ` ?D \<union> lower ` ?A" by blast
  then have all: "lower ` set (dict_keys ?out) = lower ` ?D \<union> lower ` ?A" unfolding keys image_Un fd .
  show ?thesis using once all completed_scalars [OF assms] by blast
qed

theorem completed_once_witness:
  "map_of (mde_complete [(''id'', VStr []), (''onboardingstatus'', VStr []), (''tags'', VList [])]
     [(''id'', VStr ''m1''), (''onboardingStatus'', VStr ''Onboarded'')]) ''onboardingStatus'' = Some (VStr ''Onboarded'')"
proof -
  let ?d = "[(''id'', VStr []), (''onboardingstatus'', VStr []), (''tags'', VList [])]"
  let ?a = "[(''id'', VStr ''m1''), (''onboardingStatus'', VStr ''Onboarded'')]"
  have "distinct (map lower (dict_keys ?d))" "distinct (map lower (dict_keys ?a))" by code_simp+
  from completed_once [OF this] show ?thesis by (simp add: is_scalar_def)
qed

text \<open>A stored object under another spelling than the declared one is completed, then replaced by what was stored.\<close>

lemma other_spelling_uncompleted:
  defines "t \<equiv> [(''seen'', VInt 0), (''host'', VStr [])]" and "v \<equiv> [(''seen'', VInt 3)]"
  shows "dict_get (mde_complete [(''stats'', VDict t)] [(''Stats'', VDict v)]) ''Stats'' = VDict v"
    and "dict_get (mde_complete [(''stats'', VDict t)] [(''stats'', VDict v)]) ''stats'' = VDict [(''seen'', VInt 3), (''host'', VStr [])]"
proof -
  have low: "lower ''Stats'' = ''stats''" "lower ''stats'' = ''stats''" "lower ''host'' = ''host''" "lower ''seen'' = ''seen''" by code_simp+
  note parts = answered_key_def answered_value_def spelling_def
  have inner: "mde_complete t v = [(''seen'', VInt 3), (''host'', VStr [])]"
    unfolding mde_complete_loops [of t v] by (simp add: t_def v_def parts low)
  show "dict_get (mde_complete [(''stats'', VDict t)] [(''Stats'', VDict v)]) ''Stats'' = VDict v"
    unfolding mde_complete_loops [of "[(''stats'', VDict t)]"] by (simp add: parts low)
  show "dict_get (mde_complete [(''stats'', VDict t)] [(''stats'', VDict v)]) ''stats'' = VDict [(''seen'', VInt 3), (''host'', VStr [])]"
    unfolding mde_complete_loops [of "[(''stats'', VDict t)]"] by (simp add: parts low inner)
qed

end
