(* ===== verification/Mde_Machines.thy ===== *)
theory Mde_Machines
  imports Settling Mde_Resources
begin

text \<open>
  The Defender machines and the actions on them: \<open>src/backend/application/mde_machines/commands.py\<close>,
  \<open>application/mde_machine_actions\<close> and the routes of \<open>api/routers/mde_machines.py\<close> that run them. A request reads the clock
  once: \<open>now\<close> is the instant of \<open>datetime.now\<close> and \<open>clock\<close> the reading of \<open>time.time\<close>; the id of an action is drawn. A machine
  read from the store is the stored object, so what a command assigns before it refuses is stored.

  Shown here: an action reads pending for one second and succeeded ever after, whoever reads it first; no machine
  ever has two pending actions of one guarded type, over every sequence of requests.
\<close>

section \<open>Refusals\<close>

datatype mde_stop = MachineActionError string string | InvalidMachineUpdateError string | Mde_raises exn

definition require_comment :: "jobj \<Rightarrow> mde_stop + string" where
  "require_comment body =
     (case dict_get body ''Comment'' of
        VStr c \<Rightarrow> if strip c = [] then Inl (MachineActionError ''MissingRequiredParameter'' ''Parameter Comment is missing.'')
                  else Inr c
      | _ \<Rightarrow> Inl (MachineActionError ''MissingRequiredParameter'' ''Parameter Comment is missing.''))"

definition choice :: "jobj \<Rightarrow> string \<Rightarrow> string list \<Rightarrow> bool \<Rightarrow> mde_stop + string option" where
  "choice body key allowed required =
     (let v = dict_get body key
      in if v = VNone
         then (if required then Inl (MachineActionError ''MissingRequiredParameter'' (''Parameter '' @ key @ '' is missing.''))
               else Inr None)
         else if v \<in> VStr ` set allowed then Inr (Some (py_str v))
         else Inl (MachineActionError ''InvalidRequestBody''
                (''Invalid request body. '' @ key @ '' must be one of '' @ join '', '' allowed @ ''.'')))"

section \<open>Settling\<close>

definition mde_action_key :: "jobj \<Rightarrow> string" where
  "mde_action_key action = py_str (dict_get action ''actionId'')"

definition mde_action_save :: "db \<Rightarrow> jobj \<Rightarrow> db" where
  "mde_action_save s action = repo_save_raw s ''mde_machine_actions'' (mde_action_key action) (VDict action)"

definition mde_pending :: "pyval \<Rightarrow> bool" where
  "mde_pending v \<longleftrightarrow> v = VStr ''Pending''"

text \<open>The instant an action was created, in the one format that settles; any other value never does.\<close>

definition created_at :: "jobj \<Rightarrow> int option" where
  "created_at action =
     (case dict_get action ''creationDateTimeUtc'' of VStr t \<Rightarrow> strptime_datetime True t | _ \<Rightarrow> None)"

definition mde_settled :: "int \<Rightarrow> jobj \<Rightarrow> db \<Rightarrow> (jobj \<times> db) result" where
  "mde_settled now action s =
     (if \<not> mde_pending (dict_get action ''status'') then Inr (action, s)
      else case created_at action of
             None \<Rightarrow> Inr (action, s)
           | Some created \<Rightarrow>
               (if \<not> has_answered (Some (of_int (now - created) / 1000000)) then Inr (action, s)
                else case answered_at (py_str (dict_get action ''creationDateTimeUtc'')) of
                       Inl e \<Rightarrow> Inl e
                     | Inr done_at \<Rightarrow>
                         (let action' = AList.update ''lastUpdateDateTimeUtc'' (case done_at of None \<Rightarrow> VNone | Some t \<Rightarrow> VStr t)
                                          (AList.update ''status'' (VStr ''Succeeded'') action)
                          in Inr (action', mde_action_save s action'))))"

definition mde_settle_due :: "int \<Rightarrow> db \<Rightarrow> (nat \<times> db) result" where
  "mde_settle_due now s =
     settle_each (map fields_of (repo_list_all s ''mde_machine_actions'')) ''status'' (Some mde_pending) (mde_settled now) s"

section \<open>Commands\<close>

text \<open>The loop of \<open>_refuse_if_pending\<close>: an action it finds due is settled on the way.\<close>

fun refuse_pending :: "int \<Rightarrow> string \<Rightarrow> string \<Rightarrow> jobj list \<Rightarrow> db \<Rightarrow> (mde_stop + unit) \<times> db" where
  "refuse_pending now machine_id action_type [] s = (Inr (), s)"
| "refuse_pending now machine_id action_type (a # as) s =
     (if dict_get a ''machineId'' \<noteq> VStr machine_id \<or> dict_get a ''type'' \<noteq> VStr action_type
      then refuse_pending now machine_id action_type as s
      else case mde_settled now a s of
             Inl e \<Rightarrow> (Inl (Mde_raises e), s)
           | Inr (a', s') \<Rightarrow>
               (if mde_pending (dict_get a' ''status'')
                then (Inl (MachineActionError ''ActiveRequestAlreadyExists'' ''Action is already in progress''), s')
                else refuse_pending now machine_id action_type as s'))"

definition refuse_if_pending :: "int \<Rightarrow> string \<Rightarrow> string \<Rightarrow> db \<Rightarrow> (mde_stop + unit) \<times> db" where
  "refuse_if_pending now machine_id action_type s =
     refuse_pending now machine_id action_type (map fields_of (repo_list_all s ''mde_machine_actions'')) s"

definition ISOLATION_TYPES :: "string list" where
  "ISOLATION_TYPES = [''Full'', ''Selective'', ''UnManagedDevice'']"

definition SCAN_TYPES :: "string list" where
  "SCAN_TYPES = [''Quick'', ''Full'']"

definition MdeMachineAction :: "string \<Rightarrow> string \<Rightarrow> string \<Rightarrow> string \<Rightarrow> string \<Rightarrow> pyval \<Rightarrow> pyval \<Rightarrow> jobj" where
  "MdeMachineAction action_id action_type machine_id dns_name now requestor comment =
     [(''actionId'', VStr action_id), (''type'', VStr action_type), (''status'', VStr ''Pending''), (''machineId'', VStr machine_id),
      (''computerDnsName'', VStr dns_name), (''creationDateTimeUtc'', VStr now), (''lastUpdateDateTimeUtc'', VStr now),
      (''requestor'', requestor), (''requestorComment'', comment), (''cancellationRequestor'', VStr []), (''scope'', VStr ''Full''),
      (''commands'', VList [])]"

text \<open>What one request reads of the world outside: the fixtures, the two clocks and the id it draws.\<close>

record mde_request =
  fixture :: "string \<Rightarrow> jobj"
  req_now :: int
  req_clock :: rat
  drawn_id :: string

definition action_resource :: "mde_request \<Rightarrow> jobj \<Rightarrow> jobj" where
  "action_resource q rec = complete_mde (fixture q) (to_mde_resource rec ''actionId'') ''machineaction''"

definition create_action :: "mde_request \<Rightarrow> string \<Rightarrow> string \<Rightarrow> pyval \<Rightarrow> pyval \<Rightarrow> world \<Rightarrow> jobj \<times> world" where
  "create_action q machine_id action_type comment requestor w =
     (let action = MdeMachineAction (drawn_id q) action_type machine_id (machine_name machine_id (wdb w)) (utc_now (req_now q))
                     requestor comment
      in (action_resource q action, on_db (\<lambda>s. mde_action_save s action) w))"

definition mde_machine_key :: "jobj \<Rightarrow> string" where
  "mde_machine_key machine = py_str (dict_get machine ''machineId'')"

definition publish_machine_updated :: "mde_request \<Rightarrow> jobj \<Rightarrow> world \<Rightarrow> world" where
  "publish_machine_updated q machine w =
     publish_event (event_of MdeMachineUpdated (mde_machine_key machine) (to_mde_resource machine ''machineId'') (req_clock q))
       (on_db (\<lambda>s. repo_save_raw s ''mde_machines'' (mde_machine_key machine) (VDict machine)) w)"

definition requestor_of :: "jobj \<Rightarrow> pyval" where
  "requestor_of body = get_or body ''Requestor'' (VStr ''analyst@acmecorp.internal'')"

type_synonym 'a command = "(mde_stop + 'a option) \<times> world"

text \<open>The steps the commands have in common, each as the code has it.\<close>

definition on_machine :: "string \<Rightarrow> (jobj \<Rightarrow> world \<Rightarrow> 'a command) \<Rightarrow> world \<Rightarrow> 'a command" where
  "on_machine machine_id k w =
     (case repo_find (wdb w) ''mde_machines'' machine_id of None \<Rightarrow> (Inr None, w) | Some machine \<Rightarrow> k machine w)"

definition unless_refused :: "mde_stop + 'b \<Rightarrow> ('b \<Rightarrow> world \<Rightarrow> 'a command) \<Rightarrow> world \<Rightarrow> 'a command" where
  "unless_refused check k w = (case check of Inl e \<Rightarrow> (Inl e, w) | Inr x \<Rightarrow> k x w)"

definition unless_pending :: "mde_request \<Rightarrow> string \<Rightarrow> string \<Rightarrow> (world \<Rightarrow> 'a command) \<Rightarrow> world \<Rightarrow> 'a command" where
  "unless_pending q machine_id action_type k w =
     (let (checked, s) = refuse_if_pending (req_now q) machine_id action_type (wdb w); w' = on_db (\<lambda>_. s) w
      in case checked of Inl e \<Rightarrow> (Inl e, w') | Inr u \<Rightarrow> k w')"

definition queue_action :: "mde_request \<Rightarrow> string \<Rightarrow> string \<Rightarrow> string \<Rightarrow> jobj \<Rightarrow> world \<Rightarrow> jobj command" where
  "queue_action q machine_id action_type comment body w =
     (let (action, w') = create_action q machine_id action_type (VStr comment) (requestor_of body) w in (Inr (Some action), w'))"

definition isolate_machine :: "mde_request \<Rightarrow> string \<Rightarrow> jobj \<Rightarrow> world \<Rightarrow> jobj command" where
  "isolate_machine q machine_id body =
     on_machine machine_id (\<lambda>machine.
       unless_refused (require_comment body) (\<lambda>comment.
       unless_refused (choice body ''IsolationType'' ISOLATION_TYPES False) (\<lambda>_ w.
         queue_action q machine_id ''Isolate'' comment body
           (publish_machine_updated q (AList.update ''healthStatus'' (VStr ''ImpairedCommunication'') machine) w))))"

definition unisolate_machine :: "mde_request \<Rightarrow> string \<Rightarrow> jobj \<Rightarrow> world \<Rightarrow> jobj command" where
  "unisolate_machine q machine_id body =
     on_machine machine_id (\<lambda>machine.
       unless_refused (require_comment body) (\<lambda>comment.
       unless_pending q machine_id ''Unisolate'' (\<lambda>w.
         queue_action q machine_id ''Unisolate'' comment body
           (publish_machine_updated q (AList.update ''healthStatus'' (VStr ''Active'') machine) w))))"

definition run_av_scan :: "mde_request \<Rightarrow> string \<Rightarrow> jobj \<Rightarrow> world \<Rightarrow> jobj command" where
  "run_av_scan q machine_id body =
     on_machine machine_id (\<lambda>machine.
       unless_refused (require_comment body) (\<lambda>comment.
       unless_refused (choice body ''ScanType'' SCAN_TYPES True) (\<lambda>_.
       unless_pending q machine_id ''RunAntiVirusScan'' (queue_action q machine_id ''RunAntiVirusScan'' comment body))))"

definition restrict_code_execution :: "mde_request \<Rightarrow> string \<Rightarrow> jobj \<Rightarrow> world \<Rightarrow> jobj command" where
  "restrict_code_execution q machine_id body =
     on_machine machine_id (\<lambda>machine.
       unless_refused (require_comment body) (\<lambda>comment.
       unless_pending q machine_id ''RestrictCodeExecution''
         (queue_action q machine_id ''RestrictCodeExecution'' comment body)))"

definition unrestrict_code_execution :: "mde_request \<Rightarrow> string \<Rightarrow> jobj \<Rightarrow> world \<Rightarrow> jobj command" where
  "unrestrict_code_execution q machine_id body =
     on_machine machine_id (\<lambda>machine.
       unless_refused (require_comment body) (\<lambda>comment.
       unless_pending q machine_id ''UnrestrictCodeExecution''
         (queue_action q machine_id ''UnrestrictCodeExecution'' comment body)))"

definition collect_investigation_package :: "mde_request \<Rightarrow> string \<Rightarrow> jobj \<Rightarrow> world \<Rightarrow> jobj command" where
  "collect_investigation_package q machine_id body =
     on_machine machine_id (\<lambda>machine.
       unless_refused (require_comment body) (\<lambda>comment.
       unless_pending q machine_id ''CollectInvestigationPackage''
         (queue_action q machine_id ''CollectInvestigationPackage'' comment body)))"

definition offboard_machine :: "mde_request \<Rightarrow> string \<Rightarrow> jobj \<Rightarrow> world \<Rightarrow> jobj command" where
  "offboard_machine q machine_id body =
     on_machine machine_id (\<lambda>machine.
       unless_refused (require_comment body) (\<lambda>comment w.
         queue_action q machine_id ''Offboard'' comment body
           (publish_machine_updated q (AList.update ''onboardingStatus'' (VStr ''CanBeOnboarded'') machine) w)))"

text \<open>The commands of a session, attached to the action once it is stored.\<close>

definition live_session :: "mde_request \<Rightarrow> string \<Rightarrow> jobj \<Rightarrow> world \<Rightarrow> jobj command" where
  "live_session q machine_id body w =
     (let (action, w') = create_action q machine_id ''RunLiveResponse'' (get_or body ''Comment'' (VStr [])) (requestor_of body) w;
          commands = get_or body ''Commands'' (VList [])
      in if \<not> truthy commands then (Inr (Some action), w')
         else case repo_find (wdb w') ''mde_machine_actions'' (py_str (dict_get action ''id'')) of
                None \<Rightarrow> (Inr (Some action), w')
              | Some stored \<Rightarrow>
                  (Inr (Some (AList.update ''commands'' commands action)),
                   on_db (\<lambda>s. mde_action_save s (AList.update ''commands'' commands stored)) w'))"

definition run_live_response :: "mde_request \<Rightarrow> string \<Rightarrow> jobj \<Rightarrow> world \<Rightarrow> jobj command" where
  "run_live_response q machine_id body =
     on_machine machine_id (\<lambda>machine. unless_pending q machine_id ''RunLiveResponse'' (live_session q machine_id body))"

definition DEVICE_VALUES :: "string list" where
  "DEVICE_VALUES = [''Normal'', ''Low'', ''High'']"

definition set_tags :: "jobj \<Rightarrow> jobj \<Rightarrow> mde_stop + jobj" where
  "set_tags body machine =
     (case map_of body ''machineTags'' of
        None \<Rightarrow> Inr machine
      | Some (VList tags) \<Rightarrow>
          (if list_all (\<lambda>t. case t of VStr _ \<Rightarrow> True | _ \<Rightarrow> False) tags then Inr (AList.update ''machineTags'' (VList tags) machine)
           else Inl (InvalidMachineUpdateError ''machineTags must be a list of strings''))
      | Some _ \<Rightarrow> Inl (InvalidMachineUpdateError ''machineTags must be a list of strings''))"

definition set_device_value :: "jobj \<Rightarrow> jobj \<Rightarrow> mde_stop + jobj" where
  "set_device_value body machine =
     (case map_of body ''deviceValue'' of
        None \<Rightarrow> Inr machine
      | Some v \<Rightarrow>
          (if v \<in> VStr ` set DEVICE_VALUES then Inr (AList.update ''deviceValue'' v machine)
           else Inl (InvalidMachineUpdateError (''deviceValue must be one of '' @ join '', '' DEVICE_VALUES))))"

definition UNDECLARED :: "string list" where
  "UNDECLARED = [''groupName'', ''loggedOnUsers'', ''agentVersion'']"

definition declared_only :: "jobj \<Rightarrow> jobj" where
  "declared_only rec =
     (let os_release = get_or rec ''osVersion'' (VStr []); rest = strip_fields rec (''osVersion'' # UNDECLARED)
      in if truthy os_release then AList.update ''version'' os_release rest else rest)"

definition machine_resource :: "(string \<Rightarrow> jobj) \<Rightarrow> jobj \<Rightarrow> jobj" where
  "machine_resource fix rec = complete_mde fix (to_mde_resource (declared_only rec) ''machineId'') ''machine''"

definition update_machine :: "mde_request \<Rightarrow> string \<Rightarrow> jobj \<Rightarrow> world \<Rightarrow> jobj command" where
  "update_machine q machine_id body =
     on_machine machine_id (\<lambda>machine.
       unless_refused (set_tags body machine) (\<lambda>tagged w.
         let w1 = on_db (\<lambda>s. assign_stored s ''mde_machines'' machine_id tagged) w
         in unless_refused (set_device_value body tagged) (\<lambda>valued w.
              (Inr (Some (machine_resource (fixture q) valued)),
               publish_machine_updated q valued
                 (on_db (\<lambda>s. repo_save_raw s ''mde_machines'' (mde_machine_key valued) (VDict valued)) w))) w1))"

section \<open>The actions of the routes\<close>

datatype machine_call =
    Isolate | Unisolate | Run_av_scan | Restrict | Unrestrict | Collect | Offboard | Live_response

fun call_command :: "machine_call \<Rightarrow> mde_request \<Rightarrow> string \<Rightarrow> jobj \<Rightarrow> world \<Rightarrow> jobj command" where
  "call_command Isolate = isolate_machine"
| "call_command Unisolate = unisolate_machine"
| "call_command Run_av_scan = run_av_scan"
| "call_command Restrict = restrict_code_execution"
| "call_command Unrestrict = unrestrict_code_execution"
| "call_command Collect = collect_investigation_package"
| "call_command Offboard = offboard_machine"
| "call_command Live_response = run_live_response"

definition not_found :: "string \<Rightarrow> string \<Rightarrow> failure" where
  "not_found what i =
     HTTPException 404 (build_mde_error_response ''ResourceNotFound'' (what @ '' '' @ i @ '' not found'') None) []"

definition act :: "machine_call \<Rightarrow> mde_request \<Rightarrow> string \<Rightarrow> jobj \<Rightarrow> world \<Rightarrow> jobj option http \<times> world" where
  "act call q machine_id body w =
     (let (out, w') = call_command call q machine_id body w
      in (case out of
            Inl (MachineActionError c message) \<Rightarrow> Inl (HTTPException 400 (build_mde_error_response c message None) [])
          | Inl (InvalidMachineUpdateError message) \<Rightarrow> Inl (Raised (ValueError message))
          | Inl (Mde_raises e) \<Rightarrow> Inl (Raised e)
          | Inr r \<Rightarrow> Inr r, w'))"

definition machine_action_route :: "machine_call \<Rightarrow> mde_request \<Rightarrow> string \<Rightarrow> jobj \<Rightarrow> world \<Rightarrow> (int \<times> jobj) http \<times> world" where
  "machine_action_route call q machine_id body w =
     (let (out, w') = act call q machine_id body w
      in (case out of
            Inl f \<Rightarrow> Inl f
          | Inr None \<Rightarrow> Inl (not_found ''Machine'' machine_id)
          | Inr (Some r) \<Rightarrow> Inr (if call = Offboard then 200 else 201, r), w'))"

definition update_machine_route :: "mde_request \<Rightarrow> string \<Rightarrow> jobj \<Rightarrow> world \<Rightarrow> jobj http \<times> world" where
  "update_machine_route q machine_id body w =
     (let (out, w') = update_machine q machine_id body w
      in (case out of
            Inl (InvalidMachineUpdateError message) \<Rightarrow>
              Inl (HTTPException 400 (build_mde_error_response ''BadRequest'' message None) [])
          | Inl (MachineActionError c message) \<Rightarrow> Inl (Raised (ValueError message))
          | Inl (Mde_raises e) \<Rightarrow> Inl (Raised e)
          | Inr None \<Rightarrow> Inl (not_found ''Machine'' machine_id)
          | Inr (Some r) \<Rightarrow> Inr r, w'))"

section \<open>Reading the actions\<close>

fun settle_actions :: "int \<Rightarrow> jobj list \<Rightarrow> db \<Rightarrow> (jobj list \<times> db) result" where
  "settle_actions now [] s = Inr ([], s)"
| "settle_actions now (a # as) s =
     (case mde_settled now a s of
        Inl e \<Rightarrow> Inl e
      | Inr (a', s1) \<Rightarrow>
          (case settle_actions now as s1 of Inl e \<Rightarrow> Inl e | Inr (as', s2) \<Rightarrow> Inr (a' # as', s2)))"

definition list_machine_actions ::
  "mde_request \<Rightarrow> string option \<Rightarrow> string option \<Rightarrow> int \<Rightarrow> int \<Rightarrow> string option \<Rightarrow> db \<Rightarrow> (odata_failure + pyval) \<times> db" where
  "list_machine_actions q request_url filter_str page_size skip orderby s =
     (case settle_actions (req_now q) (map fields_of (repo_list_all s ''mde_machine_actions'')) s of
        Inl e \<Rightarrow> (Inl (Odata_raises e), s)
      | Inr (actions, s') \<Rightarrow>
          (map_sum id (odata_listing request_url id ''MachineActions'' ''machineactions'' page_size skip False)
             (odata_selected (map (action_resource q) actions) filter_str orderby []), s'))"

definition get_machine_action :: "mde_request \<Rightarrow> string \<Rightarrow> db \<Rightarrow> (jobj option \<times> db) result" where
  "get_machine_action q action_id s =
     (case repo_find s ''mde_machine_actions'' action_id of
        None \<Rightarrow> Inr (None, s)
      | Some a \<Rightarrow>
          (case mde_settled (req_now q) a s of Inl e \<Rightarrow> Inl e | Inr (a', s') \<Rightarrow> Inr (Some (action_resource q a'), s')))"

definition get_package_uri :: "string \<Rightarrow> db \<Rightarrow> pyval option" where
  "get_package_uri action_id s =
     map_option (\<lambda>a. VDict [(''value'', VStr (''https://api.securitycenter.microsoft.com/api/machineactions/'' @ action_id @
         ''/GetPackageUri/mock-investigation-package.zip''))])
       (repo_find s ''mde_machine_actions'' action_id)"

section \<open>Actions settle\<close>

definition mde_due :: "int \<Rightarrow> jobj \<Rightarrow> bool" where
  "mde_due now action \<longleftrightarrow> mde_pending (dict_get action ''status'') \<and>
     has_answered (map_option (\<lambda>c. of_int (now - c) / 1000000) (created_at action))"

definition mde_finish :: "int \<Rightarrow> jobj \<Rightarrow> jobj result" where
  "mde_finish now action =
     map_sum id (\<lambda>done_at. AList.update ''lastUpdateDateTimeUtc'' (case done_at of None \<Rightarrow> VNone | Some t \<Rightarrow> VStr t)
         (AList.update ''status'' (VStr ''Succeeded'') action))
       (answered_at (py_str (dict_get action ''creationDateTimeUtc'')))"

lemma mde_settled_due: "mde_settled now action s =
    (if mde_due now action then map_sum id (\<lambda>a. (a, mde_action_save s a)) (mde_finish now action) else Inr (action, s))"
  by (auto simp: mde_settled_def mde_due_def mde_finish_def has_answered_def Let_def split: option.splits sum.splits)

lemma mde_finishD:
  "mde_finish now r = Inr r' \<Longrightarrow> dict_get r' ''status'' = VStr ''Succeeded'' \<and> mde_action_key r' = mde_action_key r"
  by (cases "answered_at (py_str (dict_get r ''creationDateTimeUtc''))") (auto simp: mde_finish_def mde_action_key_def)

interpretation defender_actions: device_action "\<lambda>s. s" "''mde_machine_actions''" mde_action_key "''status''" mde_pending
  mde_due mde_finish mde_settled
proof
  fix now r and w :: db
  show "\<not> mde_due now r \<Longrightarrow> mde_settled now r w = Inr (r, w)" by (simp add: mde_settled_due)
next
  fix now r r' and w :: db
  assume "mde_due now r" "mde_finish now r = Inr r'"
  then show "\<exists>w'. mde_settled now r w = Inr (r', w') \<and>
      w' = repo_save_raw w ''mde_machine_actions'' (mde_action_key r) (VDict r')"
    using mde_finishD [of now r r'] by (simp add: mde_settled_due mde_action_save_def)
next
  fix now r show "mde_due now r \<Longrightarrow> mde_pending (dict_get r ''status'')" by (simp add: mde_due_def)
next
  fix now r r' assume "mde_finish now r = Inr r'"
  then show "\<not> mde_pending (dict_get r' ''status'') \<and> mde_action_key r' = mde_action_key r"
    using mde_finishD by (simp add: mde_pending_def)
qed

section \<open>One pending action of a type\<close>

abbreviation action_at :: "db \<Rightarrow> string \<Rightarrow> pyval option" where
  "action_at s i \<equiv> repo_get s ''mde_machine_actions'' i"

definition actions_ok :: "db \<Rightarrow> bool" where
  "actions_ok s \<longleftrightarrow> store_inv s \<and> keyed_by mde_action_key s ''mde_machine_actions''"

text \<open>The types whose command asks first whether one is pending.\<close>

definition GUARDED :: "string list" where
  "GUARDED = [''Unisolate'', ''RunAntiVirusScan'', ''RestrictCodeExecution'', ''UnrestrictCodeExecution'',
     ''CollectInvestigationPackage'', ''RunLiveResponse'']"

definition pending_for :: "string \<Rightarrow> string \<Rightarrow> jobj \<Rightarrow> bool" where
  "pending_for machine_id action_type a \<longleftrightarrow> mde_pending (dict_get a ''status'') \<and>
     dict_get a ''machineId'' = VStr machine_id \<and> dict_get a ''type'' = VStr action_type"

definition one_pending :: "db \<Rightarrow> bool" where
  "one_pending s \<longleftrightarrow> (\<forall>i j a b m. \<forall>ty \<in> set GUARDED.
     action_at s i = Some (VDict a) \<longrightarrow> action_at s j = Some (VDict b) \<longrightarrow> pending_for m ty a \<longrightarrow> pending_for m ty b \<longrightarrow> i = j)"

text \<open>\<open>s'\<close> holds the actions of \<open>s\<close>, some of them settled.\<close>

definition settles_to :: "db \<Rightarrow> db \<Rightarrow> bool" where
  "settles_to s s' \<longleftrightarrow> (\<forall>i. action_at s' i = action_at s i \<or>
     (\<exists>a a'. action_at s i = Some (VDict a) \<and> action_at s' i = Some (VDict a') \<and> \<not> mde_pending (dict_get a' ''status'')))"

lemma settles_to_refl [simp]: "settles_to s s"
  by (simp add: settles_to_def)

lemma settles_to_trans: "settles_to s1 s2 \<Longrightarrow> settles_to s2 s3 \<Longrightarrow> settles_to s1 s3"
  unfolding settles_to_def by (metis (no_types, lifting) option.inject pyval.inject(6))

lemma settles_to_pending:
  assumes "settles_to s s'" "action_at s' i = Some (VDict a)" "mde_pending (dict_get a ''status'')"
  shows "action_at s i = Some (VDict a)"
  using assms unfolding settles_to_def by (metis option.inject pyval.inject(6))

lemma one_pending_settles: "settles_to s s' \<Longrightarrow> one_pending s \<Longrightarrow> one_pending s'"
  unfolding one_pending_def pending_for_def using settles_to_pending by blast

lemma actions_ok_found: "actions_ok s \<Longrightarrow> action_at s i = Some v \<Longrightarrow> \<exists>a. v = VDict a \<and> mde_action_key a = i"
  unfolding actions_ok_def keyed_by_def by blast

lemma mde_settled_step:
  assumes "actions_ok s" "action_at s (mde_action_key a) = Some (VDict a)" "mde_settled now a s = Inr (a', s')"
  shows "actions_ok s' \<and> settles_to s s' \<and> action_at s' (mde_action_key a) = Some (VDict a') \<and> mde_action_key a' = mde_action_key a \<and>
    (\<forall>i. i \<noteq> mde_action_key a \<longrightarrow> action_at s' i = action_at s i)"
proof (cases "mde_due now a")
  case False
  then show ?thesis using assms by (simp add: mde_settled_due)
next
  case True
  then obtain f: "mde_finish now a = Inr a'" and s': "s' = mde_action_save s a'"
    using assms(3) by (cases "mde_finish now a") (auto simp: mde_settled_due)
  note k = mde_finishD [OF f]
  have get: "action_at s' i = (if i = mde_action_key a then Some (VDict a') else action_at s i)" for i
    using assms(2) k by (simp add: s' mde_action_save_def repo_save_existing)
  have "actions_ok s'"
    using assms(1,2) k by (auto simp: actions_ok_def s' mde_action_save_def intro!: keyed_by_save)
  moreover have "settles_to s s'" using get k assms(2) by (auto simp: settles_to_def mde_pending_def)
  ultimately show ?thesis using get k by simp
qed

lemma actions_listed:
  assumes "actions_ok s"
  defines "as \<equiv> map fields_of (repo_list_all s ''mde_machine_actions'')"
  shows "distinct (map mde_action_key as)" "a \<in> set as \<longleftrightarrow> action_at s (mde_action_key a) = Some (VDict a)"
  using keyed_by_list [of s mde_action_key "''mde_machine_actions''"] assms(1) unfolding as_def actions_ok_def by blast+

lemma refuse_pending_step:
  assumes "actions_ok s" "distinct (map mde_action_key as)" "\<forall>a \<in> set as. action_at s (mde_action_key a) = Some (VDict a)"
    and "refuse_pending now m ty as s = (r, s')"
  shows "actions_ok s' \<and> settles_to s s' \<and>
    (r = Inr () \<longrightarrow> (\<forall>a \<in> set as. \<exists>a'. action_at s' (mde_action_key a) = Some (VDict a') \<and> \<not> pending_for m ty a'))"
  using assms
proof (induction as arbitrary: s)
  case (Cons a as)
  have rest: "distinct (map mde_action_key as)" "mde_action_key a \<notin> mde_action_key ` set as" using Cons.prems(2) by auto
  show ?case
  proof (cases "dict_get a ''machineId'' \<noteq> VStr m \<or> dict_get a ''type'' \<noteq> VStr ty")
    case True
    then have r: "refuse_pending now m ty as s = (r, s')" using Cons.prems(4) by simp
    have all: "\<forall>a \<in> set as. action_at s (mde_action_key a) = Some (VDict a)" using Cons.prems(3) by simp
    note ih = Cons.IH [OF Cons.prems(1) rest(1) all r]
    have "action_at s (mde_action_key a) = Some (VDict a)" using Cons.prems(3) by simp
    moreover have "\<not> pending_for m ty a" using True by (auto simp: pending_for_def)
    ultimately have "\<exists>a'. action_at s' (mde_action_key a) = Some (VDict a') \<and> \<not> pending_for m ty a'"
      using ih unfolding settles_to_def pending_for_def by metis
    then show ?thesis using ih by simp
  next
    case False
    show ?thesis
    proof (cases "mde_settled now a s")
      case (Inl e)
      then show ?thesis using False Cons.prems(1,4) by auto
    next
      case (Inr p)
      obtain a' s1 where p: "p = (a', s1)" by fastforce
      have here: "action_at s (mde_action_key a) = Some (VDict a)" using Cons.prems(3) by simp
      note step = mde_settled_step [OF Cons.prems(1) here Inr [unfolded p]]
      show ?thesis
      proof (cases "mde_pending (dict_get a' ''status'')")
        case True
        then show ?thesis using False Inr p Cons.prems(4) step by auto
      next
        case settled: False
        then have r: "refuse_pending now m ty as s1 = (r, s')" using False Inr p Cons.prems(4) by simp
        have all: "\<forall>b \<in> set as. action_at s1 (mde_action_key b) = Some (VDict b)"
          using step Cons.prems(3) rest(2) by (metis image_eqI list.set_intros(2))
        note ih = Cons.IH [OF step [THEN conjunct1] rest(1) all r]
        have "\<exists>b. action_at s' (mde_action_key a) = Some (VDict b) \<and> \<not> pending_for m ty b"
          using ih step settled unfolding settles_to_def pending_for_def by metis
        then show ?thesis using ih step settles_to_trans [of s s1 s'] by simp
      qed
    qed
  qed
qed auto

lemma refuse_if_pending_step:
  assumes "actions_ok s" "refuse_if_pending now m ty s = (r, s')"
  shows "actions_ok s' \<and> settles_to s s' \<and> (r = Inr () \<longrightarrow> (\<forall>i a. action_at s' i = Some (VDict a) \<longrightarrow> \<not> pending_for m ty a))"
proof -
  let ?as = "map fields_of (repo_list_all s ''mde_machine_actions'')"
  note l = actions_listed [OF assms(1)]
  have all: "\<forall>a \<in> set ?as. action_at s (mde_action_key a) = Some (VDict a)" using l(2) by blast
  note step = refuse_pending_step [OF assms(1) l(1) all assms(2) [unfolded refuse_if_pending_def]]
  have "\<not> pending_for m ty a" if r: "r = Inr ()" and a: "action_at s' i = Some (VDict a)" for i a
  proof
    assume p: "pending_for m ty a"
    then have "mde_pending (dict_get a ''status'')" by (simp add: pending_for_def)
    with step a have "action_at s i = Some (VDict a)" using settles_to_pending by blast
    then have "mde_action_key a = i" "a \<in> set ?as" using actions_ok_found [OF assms(1)] l(2) by auto
    then show False using step r a p by fastforce
  qed
  then show ?thesis using step by blast
qed
text \<open>A record that is saved: what a collection holds afterwards was there before, or is the record.\<close>

lemma repo_save_holds:
  assumes "store_inv s" "repo_get (repo_save_raw s c i r) c j = Some v"
  shows "(j = i \<and> v = r) \<or> (j \<noteq> i \<and> repo_get s c j = Some v)"
proof (cases "coll s c")
  case (Inr d)
  have tail: "map_of d j = Some v" if "map_of (tl d) j = Some v" for j
  proof (cases d)
    case (Cons p e)
    have "j \<in> fst ` set e" using map_of_SomeD [of e j v] that Cons by force
    moreover have "fst p \<notin> fst ` set e" using store_inv_wf [OF assms(1) Inr] Cons by simp
    ultimately have "j \<noteq> fst p" by blast
    then show ?thesis using that Cons by (cases p) simp
  qed (use that in simp)
  have "map_of (AList.update i r (evict c i d)) j = Some v"
    using assms(2) Inr by (simp add: repo_save_raw_def repo_get_def store_get_def store_save_def)
  then show ?thesis
    using tail [of j] Inr by (auto simp: evict_def repo_get_def store_get_def split: if_splits option.splits)
qed (use assms(2) in \<open>simp add: repo_save_raw_def repo_get_def store_get_def store_save_def\<close>)

lemma action_saved:
  assumes "actions_ok s" "one_pending s"
    and "\<And>m ty i b. ty \<in> set GUARDED \<Longrightarrow> pending_for m ty a \<Longrightarrow> action_at s i = Some (VDict b) \<Longrightarrow> i \<noteq> mde_action_key a \<Longrightarrow>
      \<not> pending_for m ty b"
  shows "actions_ok (mde_action_save s a) \<and> one_pending (mde_action_save s a)"
proof -
  have inv: "store_inv s" using assms(1) by (simp add: actions_ok_def)
  note holds = repo_save_holds [OF inv, of "''mde_machine_actions''" "mde_action_key a" "VDict a", folded mde_action_save_def]
  have "actions_ok (mde_action_save s a)"
    unfolding actions_ok_def keyed_by_def
  proof (intro conjI allI impI)
    show "store_inv (mde_action_save s a)" using inv by (simp add: mde_action_save_def)
    fix i v assume "action_at (mde_action_save s a) i = Some v"
    then show "\<exists>r. v = VDict r \<and> mde_action_key r = i" using holds actions_ok_found [OF assms(1)] by blast
  qed
  moreover have "one_pending (mde_action_save s a)"
    unfolding one_pending_def
  proof (intro allI ballI impI)
    fix i j b c m ty
    assume x: "action_at (mde_action_save s a) i = Some (VDict b)" "action_at (mde_action_save s a) j = Some (VDict c)"
      "pending_for m ty b" "pending_for m ty c" "ty \<in> set GUARDED"
    note i = holds [OF x(1)] and j = holds [OF x(2)]
    show "i = j"
    proof (cases "i = mde_action_key a")
      case True
      then have "j = mde_action_key a" using i j x assms(3) by (metis pyval.inject(6))
      then show ?thesis using True by simp
    next
      case False
      then have old: "action_at s i = Some (VDict b)" using i by simp
      then have "j \<noteq> mde_action_key a" using False j x assms(3) by (metis pyval.inject(6))
      then have "action_at s j = Some (VDict c)" using j by simp
      then show ?thesis using old x assms(2) unfolding one_pending_def by blast
    qed
  qed
  ultimately show ?thesis ..
qed

lemma actions_other: "(\<And>i. action_at s' i = action_at s i) \<Longrightarrow> store_inv s' \<Longrightarrow> actions_ok s \<Longrightarrow> actions_ok s'"
  "(\<And>i. action_at s' i = action_at s i) \<Longrightarrow> one_pending s \<Longrightarrow> one_pending s'"
  by (simp_all add: actions_ok_def keyed_by_def one_pending_def)

definition calm :: "db \<Rightarrow> bool" where
  "calm s \<longleftrightarrow> actions_ok s \<and> one_pending s"

lemma calm_published [simp]: "calm (wdb (publish_machine_updated q machine w)) = calm (wdb w)"
  "action_at (wdb (publish_machine_updated q machine w)) i = action_at (wdb w) i" if "store_inv (wdb w)"
proof -
  have same: "action_at (wdb (publish_machine_updated q machine w)) i = action_at (wdb w) i" for i
    by (simp add: publish_machine_updated_def repo_save_other)
  moreover have "store_inv (wdb (publish_machine_updated q machine w))" using that by (simp add: publish_machine_updated_def)
  ultimately show "calm (wdb (publish_machine_updated q machine w)) = calm (wdb w)" "action_at (wdb (publish_machine_updated q machine w)) i = action_at (wdb w) i"
    using that by (simp_all add: calm_def actions_ok_def keyed_by_def one_pending_def)
qed

lemma calm_settles: "settles_to s s' \<Longrightarrow> actions_ok s' \<Longrightarrow> calm s \<Longrightarrow> calm s'"
  using one_pending_settles by (simp add: calm_def)

lemma calm_inv: "calm s \<Longrightarrow> store_inv s" "calm s \<Longrightarrow> actions_ok s"
  by (simp_all add: calm_def actions_ok_def)

text \<open>An action is created: nothing of its guarded type was pending for the machine.\<close>

lemma calm_created:
  assumes "calm (wdb w)"
    and "action_type \<in> set GUARDED \<Longrightarrow> \<forall>i a. action_at (wdb w) i = Some (VDict a) \<longrightarrow> \<not> pending_for machine_id action_type a"
    and "create_action q machine_id action_type comment requestor w = (r, w')"
  shows "calm (wdb w')"
proof -
  let ?a = "MdeMachineAction (drawn_id q) action_type machine_id (machine_name machine_id (wdb w)) (utc_now (req_now q)) requestor comment"
  have w': "wdb w' = mde_action_save (wdb w) ?a" using assms(3) by (auto simp: create_action_def Let_def)
  have "pending_for m ty ?a \<Longrightarrow> m = machine_id \<and> ty = action_type" for m ty
    by (simp add: pending_for_def MdeMachineAction_def)
  then show ?thesis
    using action_saved [of "wdb w" ?a] assms(1,2) unfolding w' calm_def by blast
qed

lemma calm_pending:
  assumes "calm (wdb w)" "unless_pending q machine_id action_type k w = (r, w')"
    and "\<And>v. calm (wdb v) \<Longrightarrow> \<forall>i a. action_at (wdb v) i = Some (VDict a) \<longrightarrow> \<not> pending_for machine_id action_type a \<Longrightarrow>
      calm (wdb (snd (k v)))"
  shows "calm (wdb w')"
proof -
  obtain checked s where c: "refuse_if_pending (req_now q) machine_id action_type (wdb w) = (checked, s)" by fastforce
  note step = refuse_if_pending_step [OF calm_inv(2) [OF assms(1)] c]
  have calm: "calm s" using step calm_settles assms(1) by blast
  show ?thesis
  proof (cases checked)
    case (Inl e)
    then show ?thesis using assms(2) calm c by (auto simp: unless_pending_def)
  next
    case (Inr u)
    then show ?thesis using assms(2) calm c step assms(3) [of "on_db (\<lambda>_. s) w"] by (simp add: unless_pending_def)
  qed
qed

lemma calm_queued:
  assumes "calm (wdb w)"
    and "action_type \<in> set GUARDED \<Longrightarrow> \<forall>i a. action_at (wdb w) i = Some (VDict a) \<longrightarrow> \<not> pending_for machine_id action_type a"
  shows "calm (wdb (snd (queue_action q machine_id action_type comment body w)))"
  using calm_created [OF assms] by (auto simp: queue_action_def split: prod.splits)

lemma on_machine_snd: "calm (wdb w) \<Longrightarrow> (\<And>machine. calm (wdb (snd (k machine w)))) \<Longrightarrow> calm (wdb (snd (on_machine machine_id k w)))"
  by (simp add: on_machine_def split: option.split)

lemma unless_refused_snd: "calm (wdb w) \<Longrightarrow> (\<And>x. calm (wdb (snd (k x w)))) \<Longrightarrow> calm (wdb (snd (unless_refused check k w)))"
  by (simp add: unless_refused_def split: sum.split)

lemma unless_pending_snd:
  assumes "calm (wdb w)"
    and "\<And>v. calm (wdb v) \<Longrightarrow> \<forall>i a. action_at (wdb v) i = Some (VDict a) \<longrightarrow> \<not> pending_for machine_id action_type a \<Longrightarrow>
      calm (wdb (snd (k v)))"
  shows "calm (wdb (snd (unless_pending q machine_id action_type k w)))"
  by (rule calm_pending [OF assms(1) surjective_pairing assms(2)])

lemmas command_steps = on_machine_snd unless_refused_snd unless_pending_snd calm_queued

lemma calm_call:
  assumes "calm (wdb w)"
  shows "calm (wdb (snd (call_command call q machine_id body w)))"
proof (cases call)
  case Live_response
  have k: "calm (wdb (snd (live_session q machine_id body v)))"
    if "calm (wdb v)" "\<forall>i a. action_at (wdb v) i = Some (VDict a) \<longrightarrow> \<not> pending_for machine_id ''RunLiveResponse'' a" for v
  proof -
    let ?commands = "get_or body ''Commands'' (VList [])"
    obtain action w' where c: "create_action q machine_id ''RunLiveResponse'' (get_or body ''Comment'' (VStr [])) (requestor_of body) v =
        (action, w')" by fastforce
    have calm: "calm (wdb w')" using calm_created [OF that(1) _ c] that(2) by blast
    show ?thesis
    proof (cases "action_at (wdb w') (py_str (dict_get action ''id''))")
      case (Some x)
      then obtain a where a: "x = VDict a" "mde_action_key a = py_str (dict_get action ''id'')"
        using actions_ok_found [OF calm_inv(2) [OF calm]] by blast
      let ?a = "AList.update ''commands'' ?commands a"
      have same: "pending_for m ty ?a = pending_for m ty a" "mde_action_key ?a = mde_action_key a" for m ty
        by (simp_all add: pending_for_def mde_action_key_def)
      have "\<not> pending_for m ty b" if "ty \<in> set GUARDED" "pending_for m ty ?a" "action_at (wdb w') i = Some (VDict b)" "i \<noteq> mde_action_key ?a"
        for m ty i b
        using that same calm Some a unfolding calm_def one_pending_def by metis
      from action_saved [OF _ _ this] have "calm (mde_action_save (wdb w') ?a)" using calm by (simp add: calm_def)
      then show ?thesis using c calm Some a(1) by (simp add: live_session_def repo_find_def fields_of_def Let_def)
    qed (use c calm in \<open>simp add: live_session_def repo_find_def Let_def\<close>)
  qed
  then show ?thesis using assms k unfolding call_command.simps run_live_response_def
    by (auto intro!: on_machine_snd unless_pending_snd simp: Live_response run_live_response_def)
next
  case Isolate
  have "calm (wdb (snd (queue_action q machine_id ''Isolate'' comment body (publish_machine_updated q machine w))))" for comment machine
    using assms by (intro calm_queued) (simp_all add: calm_inv GUARDED_def)
  then show ?thesis unfolding Isolate call_command.simps isolate_machine_def
    using assms by (intro on_machine_snd unless_refused_snd)
next
  case Offboard
  have "calm (wdb (snd (queue_action q machine_id ''Offboard'' comment body (publish_machine_updated q machine w))))" for comment machine
    using assms by (intro calm_queued) (simp_all add: calm_inv GUARDED_def)
  then show ?thesis unfolding Offboard call_command.simps offboard_machine_def
    using assms by (intro on_machine_snd unless_refused_snd)
qed (use assms in \<open>simp_all add: unisolate_machine_def run_av_scan_def restrict_code_execution_def
    unrestrict_code_execution_def collect_investigation_package_def command_steps calm_inv GUARDED_def\<close>)

lemma calm_update: "calm (wdb w) \<Longrightarrow> calm (wdb (snd (update_machine q machine_id body w)))"
proof -
  assume calm: "calm (wdb w)"
  note inv = calm_inv(1) [OF calm]
  have same: "calm s" if "store_inv s" "\<And>i. action_at s i = action_at (wdb w) i" for s
    using that calm by (simp add: calm_def actions_ok_def keyed_by_def one_pending_def)
  show ?thesis
    using calm inv unfolding update_machine_def
    by (intro on_machine_snd unless_refused_snd)
      (auto simp: unless_refused_def Let_def store_inv_assigned assigned_other repo_save_other intro!: same split: sum.split)
qed

section \<open>Sequences of requests\<close>

datatype machine_step =
    Act machine_call string jobj | Patch string jobj
  | List_actions "string option" "string option" int int "string option" | Get_action string

definition machine_step :: "mde_request \<Rightarrow> machine_step \<Rightarrow> world \<Rightarrow> world" where
  "machine_step q step w =
     (case step of
        Act call i body \<Rightarrow> snd (machine_action_route call q i body w)
      | Patch i body \<Rightarrow> snd (update_machine_route q i body w)
      | List_actions url filter_str page_size skip orderby \<Rightarrow>
          on_db (\<lambda>s. snd (list_machine_actions q url filter_str page_size skip orderby s)) w
      | Get_action i \<Rightarrow> on_db (\<lambda>s. case get_machine_action q i s of Inl e \<Rightarrow> s | Inr (a, s') \<Rightarrow> s') w)"

definition machine_steps :: "(mde_request \<times> machine_step) list \<Rightarrow> world \<Rightarrow> world" where
  "machine_steps steps w = fold (\<lambda>(q, step). machine_step q step) steps w"

lemma settle_actions_step:
  assumes "actions_ok s" "distinct (map mde_action_key as)" "\<forall>a \<in> set as. action_at s (mde_action_key a) = Some (VDict a)"
    and "settle_actions now as s = Inr (as', s')"
  shows "actions_ok s' \<and> settles_to s s'"
  using assms
proof (induction as arbitrary: s as')
  case (Cons a as)
  obtain a' s1 bs where s1: "mde_settled now a s = Inr (a', s1)" "settle_actions now as s1 = Inr (bs, s')"
    using Cons.prems(4) by (auto split: sum.splits prod.splits)
  have here: "action_at s (mde_action_key a) = Some (VDict a)" using Cons.prems(3) by simp
  note step = mde_settled_step [OF Cons.prems(1) here s1(1)]
  have rest: "distinct (map mde_action_key as)" "mde_action_key a \<notin> mde_action_key ` set as" using Cons.prems(2) by auto
  have all: "\<forall>b \<in> set as. action_at s1 (mde_action_key b) = Some (VDict b)"
    using step Cons.prems(3) rest(2) by (metis image_eqI list.set_intros(2))
  from Cons.IH [OF step [THEN conjunct1] rest(1) all s1(2)] show ?case using step settles_to_trans by blast
qed simp

lemma calm_step: "calm (wdb w) \<Longrightarrow> calm (wdb (machine_step q step w))"
proof (cases step)
  case (Act call i body)
  assume "calm (wdb w)"
  then show ?thesis using calm_call [of w call q i body] Act
    by (auto simp: machine_step_def machine_action_route_def act_def split: prod.splits)
next
  case (Patch i body)
  assume "calm (wdb w)"
  then show ?thesis using calm_update [of w q i body] Patch by (auto simp: machine_step_def update_machine_route_def split: prod.splits)
next
  case (List_actions url f n k o')
  assume calm: "calm (wdb w)"
  let ?as = "map fields_of (repo_list_all (wdb w) ''mde_machine_actions'')"
  show ?thesis
  proof (cases "settle_actions (req_now q) ?as (wdb w)")
    case (Inr p)
    obtain as s' where p: "p = (as, s')" by fastforce
    note l = actions_listed [OF calm_inv(2) [OF calm]]
    have "\<forall>a \<in> set ?as. action_at (wdb w) (mde_action_key a) = Some (VDict a)" using l(2) by blast
    from settle_actions_step [OF calm_inv(2) [OF calm] l(1) this Inr [unfolded p]] have "calm s'" using calm_settles calm by blast
    then show ?thesis using Inr p List_actions by (simp add: machine_step_def list_machine_actions_def)
  qed (use calm List_actions in \<open>simp add: machine_step_def list_machine_actions_def\<close>)
next
  case (Get_action i)
  assume calm: "calm (wdb w)"
  show ?thesis
  proof (cases "action_at (wdb w) i")
    case (Some v)
    then obtain a where a: "v = VDict a" "mde_action_key a = i" using actions_ok_found [OF calm_inv(2) [OF calm]] by blast
    show ?thesis
    proof (cases "mde_settled (req_now q) a (wdb w)")
      case (Inr p)
      obtain a' s' where p: "p = (a', s')" by fastforce
      have "action_at (wdb w) (mde_action_key a) = Some (VDict a)" using Some a by simp
      from mde_settled_step [OF calm_inv(2) [OF calm] this Inr [unfolded p]] have "calm s'" using calm_settles calm by blast
      then show ?thesis using Get_action Some a Inr p by (simp add: machine_step_def get_machine_action_def repo_find_def fields_of_def)
    qed (use calm Get_action Some a in \<open>simp add: machine_step_def get_machine_action_def repo_find_def fields_of_def\<close>)
  qed (use calm Get_action in \<open>simp add: machine_step_def get_machine_action_def repo_find_def\<close>)
qed

text \<open>
  C22. No double action: over every sequence of requests (actions, updates, readings, at any instants), from any store
  where the actions are stored under their ids and none is doubly pending, no machine ever has two pending actions of one of
  the types whose command checks first.
\<close>

theorem no_double_action:
  assumes "store_inv (wdb w)" "keyed_by mde_action_key (wdb w) ''mde_machine_actions''" "one_pending (wdb w)"
  shows "one_pending (wdb (machine_steps steps w))"
proof -
  have "calm (wdb w) \<Longrightarrow> calm (wdb (machine_steps steps w))"
    by (induction steps arbitrary: w) (auto simp: machine_steps_def calm_step)
  then show ?thesis using assms by (simp add: calm_def actions_ok_def)
qed
definition scanned_world :: world where
  "scanned_world = \<lparr>wdb = repo_save_raw init_store ''mde_machines'' ''m1''
       (VDict [(''machineId'', VStr ''m1''), (''computerDnsName'', VStr ''ws1'')]), published = [], queued = []\<rparr>"

lemma scanned_world:
  "store_inv (wdb scanned_world)" "action_at (wdb scanned_world) i = None"
  "repo_find (wdb scanned_world) ''mde_machines'' ''m1'' = Some [(''machineId'', VStr ''m1''), (''computerDnsName'', VStr ''ws1'')]"
proof -
  have "''mde_machines'' \<in> set collection_names" by (simp add: collection_names_def)
  then show "store_inv (wdb scanned_world)" "action_at (wdb scanned_world) i = None"
    "repo_find (wdb scanned_world) ''mde_machines'' ''m1'' = Some [(''machineId'', VStr ''m1''), (''computerDnsName'', VStr ''ws1'')]"
    by (simp_all add: scanned_world_def store_inv_init repo_save_other repo_save_same repo_find_def fields_of_def)
qed

lemma scanned_world_empty: "repo_list_all (wdb scanned_world) ''mde_machine_actions'' = []"
proof -
  have "v \<notin> set (repo_list_all (wdb scanned_world) ''mde_machine_actions'')" for v
    using keyed_by_member [of "wdb scanned_world" mde_action_key "''mde_machine_actions''" v] by (simp add: scanned_world keyed_by_def)
  then show ?thesis by (meson last_in_set)
qed

theorem no_double_action_witness:
  "\<forall>q1 q2 q3. one_pending (wdb (machine_steps
     [(q1, Act Run_av_scan ''m1'' [(''Comment'', VStr ''look''), (''ScanType'', VStr ''Quick'')]), (q2, Get_action ''a1''),
      (q3, Act Run_av_scan ''m1'' [(''Comment'', VStr ''again''), (''ScanType'', VStr ''Full'')])] scanned_world))"
proof (intro allI)
  fix q1 q2 q3 :: mde_request
  have "keyed_by mde_action_key (wdb scanned_world) ''mde_machine_actions''" "one_pending (wdb scanned_world)"
    by (simp_all add: keyed_by_def one_pending_def scanned_world)
  with scanned_world(1) show "one_pending (wdb (machine_steps
     [(q1, Act Run_av_scan ''m1'' [(''Comment'', VStr ''look''), (''ScanType'', VStr ''Quick'')]), (q2, Get_action ''a1''),
      (q3, Act Run_av_scan ''m1'' [(''Comment'', VStr ''again''), (''ScanType'', VStr ''Full'')])] scanned_world))"
    by (rule no_double_action)
qed

section \<open>The life of an action\<close>

definition started :: "mde_request \<Rightarrow> string \<Rightarrow> string \<Rightarrow> string \<Rightarrow> pyval \<Rightarrow> pyval \<Rightarrow> pyval \<Rightarrow> jobj" where
  "started q action_type machine_id dns requestor comment commands =
     AList.update ''commands'' commands (MdeMachineAction (drawn_id q) action_type machine_id dns (utc_now (req_now q)) requestor comment)"

lemma action_resource_fields:
  assumes "distinct (map lower (dict_keys (fixture q ''machineaction'')))"
    and "map fst rec = map fst (MdeMachineAction a b c d e f g)" "is_scalar v" "v \<noteq> VStr []"
  shows "k \<noteq> ''actionId'' \<Longrightarrow> map_of rec k = Some v \<Longrightarrow> dict_get (action_resource q rec) k = v"
    and "map_of rec ''actionId'' = Some v \<Longrightarrow> dict_get (action_resource q rec) ''id'' = v"
proof -
  have keys: "map fst rec = [''actionId'', ''type'', ''status'', ''machineId'', ''computerDnsName'', ''creationDateTimeUtc'',
      ''lastUpdateDateTimeUtc'', ''requestor'', ''requestorComment'', ''cancellationRequestor'', ''scope'', ''commands'']"
    using assms(2) by (simp add: MdeMachineAction_def)
  have "distinct (map (\<lambda>k. lower (if k = ''actionId'' then ''id'' else k)) (map fst rec))" "''actionId'' \<in> set (map fst rec)"
    unfolding keys by code_simp+
  note shown = resource_scalar [where fixtures = "fixture q" and entity = "''machineaction''", OF assms(1) this(1) _ this(2) assms(3,4)]
  show "k \<noteq> ''actionId'' \<Longrightarrow> map_of rec k = Some v \<Longrightarrow> dict_get (action_resource q rec) k = v"
    "map_of rec ''actionId'' = Some v \<Longrightarrow> dict_get (action_resource q rec) ''id'' = v"
    unfolding action_resource_def by (rule shown(1), simp_all) (rule shown(2), simp_all)
qed

lemma created_action:
  assumes "create_action q m ty com req w = (r, w')" "store_inv (wdb w)" "drawn_id q \<noteq> []"
    and "distinct (map lower (dict_keys (fixture q ''machineaction'')))"
  shows "store_inv (wdb w') \<and>
    (\<exists>dns. action_at (wdb w') (drawn_id q) = Some (VDict (MdeMachineAction (drawn_id q) ty m dns (utc_now (req_now q)) req com))) \<and>
    dict_get r ''id'' = VStr (drawn_id q) \<and> dict_get r ''status'' = VStr ''Pending''"
proof -
  define a where "a = MdeMachineAction (drawn_id q) ty m (machine_name m (wdb w)) (utc_now (req_now q)) req com"
  have c: "''mde_machine_actions'' \<in> set collection_names" by (simp add: collection_names_def)
  have rw: "r = action_resource q a" "wdb w' = mde_action_save (wdb w) a" using assms(1) by (auto simp: create_action_def a_def Let_def)
  have key: "mde_action_key a = drawn_id q" by (simp add: a_def mde_action_key_def MdeMachineAction_def)
  have "action_at (wdb w') (drawn_id q) = Some (VDict a)"
    using repo_save_same [OF assms(2) c] by (simp add: rw mde_action_save_def key)
  moreover have "dict_get r ''status'' = VStr ''Pending''"
    unfolding rw a_def by (rule action_resource_fields(1) [OF assms(4) refl]) (simp_all add: is_scalar_def MdeMachineAction_def)
  moreover have "dict_get r ''id'' = VStr (drawn_id q)"
    unfolding rw a_def using assms(3)
    by (intro action_resource_fields(2) [OF assms(4) refl]) (simp_all add: is_scalar_def MdeMachineAction_def)
  ultimately show ?thesis using assms(2) unfolding a_def [symmetric] by (auto simp: rw mde_action_save_def a_def)
qed

lemma refusals_Inr:
  "on_machine i k w = (Inr (Some r), w') \<Longrightarrow> \<exists>machine. k machine w = (Inr (Some r), w')"
  "unless_refused check k' w = (Inr (Some r), w') \<Longrightarrow> \<exists>x. k' x w = (Inr (Some r), w')"
  by (auto simp: on_machine_def unless_refused_def split: option.splits sum.splits)

lemma mde_settled_inv: "mde_settled now a s = Inr (a', s') \<Longrightarrow> store_inv s \<Longrightarrow> store_inv s'"
  by (cases "mde_finish now a") (auto simp: mde_settled_due mde_action_save_def split: if_splits)

lemma refuse_pending_inv: "refuse_pending now m ty as s = (x, s') \<Longrightarrow> store_inv s \<Longrightarrow> store_inv s'"
  by (induction as arbitrary: s) (auto split: if_splits sum.splits prod.splits dest: mde_settled_inv)

lemma pending_Inr:
  assumes "unless_pending q i ty k w = (Inr (Some r), w')" "store_inv (wdb w)"
  shows "\<exists>v. k v = (Inr (Some r), w') \<and> store_inv (wdb v)"
proof -
  obtain x s where x: "refuse_if_pending (req_now q) i ty (wdb w) = (x, s)" by fastforce
  have "store_inv s" using refuse_pending_inv x assms(2) by (simp add: refuse_if_pending_def)
  then show ?thesis using assms(1) x
    by (cases x) (auto simp: unless_pending_def Let_def intro!: exI [of _ "on_db (\<lambda>_. s) w"])
qed

lemma live_session_Inr:
  assumes "live_session q m body v = (Inr (Some r), w')"
    and "create_action q m ''RunLiveResponse'' (get_or body ''Comment'' (VStr [])) (requestor_of body) v = (x, v1)"
  shows "(r = x \<and> w' = v1) \<or>
    (\<exists>cs stored. repo_find (wdb v1) ''mde_machine_actions'' (py_str (dict_get x ''id'')) = Some stored \<and>
       r = AList.update ''commands'' cs x \<and> w' = on_db (\<lambda>s. mde_action_save s (AList.update ''commands'' cs stored)) v1)"
  using assms by (auto simp: live_session_def Let_def split: if_splits option.splits)

text \<open>Every action that starts ends in one of these two ways.\<close>

lemma call_creates:
  assumes "call_command call q m body w = (Inr (Some r), w')" "store_inv (wdb w)"
  shows "\<exists>ty com v. store_inv (wdb v) \<and> (create_action q m ty com (requestor_of body) v = (r, w') \<or>
    (\<exists>x v1 cs. create_action q m ty com (requestor_of body) v = (x, v1) \<and> r = AList.update ''commands'' cs x \<and>
       (\<exists>stored. repo_find (wdb v1) ''mde_machine_actions'' (py_str (dict_get x ''id'')) = Some stored \<and>
          w' = on_db (\<lambda>s. mde_action_save s (AList.update ''commands'' cs stored)) v1)))"
proof -
  have queued: ?thesis if "queue_action q m ty com body v = (Inr (Some r), w')" "store_inv (wdb v)" for ty com v
    using that by (auto simp: queue_action_def split: prod.splits)
  have published: "store_inv (wdb v) \<Longrightarrow> store_inv (wdb (publish_machine_updated q x v))" for x v by (simp add: publish_machine_updated_def)
  have other: "\<exists>ty com v. queue_action q m ty com body v = (Inr (Some r), w') \<and> store_inv (wdb v)" if "call \<noteq> Live_response"
  proof (cases call)
    case Isolate
    then show ?thesis using assms published by (fastforce simp: isolate_machine_def dest!: refusals_Inr)
  next
    case Offboard
    then show ?thesis using assms published by (fastforce simp: offboard_machine_def dest!: refusals_Inr)
  next
    case Unisolate
    then show ?thesis using assms published by (fastforce simp: unisolate_machine_def dest!: refusals_Inr pending_Inr)
  next
    case Run_av_scan
    then show ?thesis using assms by (fastforce simp: run_av_scan_def dest!: refusals_Inr pending_Inr)
  next
    case Restrict
    then show ?thesis using assms by (fastforce simp: restrict_code_execution_def dest!: refusals_Inr pending_Inr)
  next
    case Unrestrict
    then show ?thesis using assms by (fastforce simp: unrestrict_code_execution_def dest!: refusals_Inr pending_Inr)
  next
    case Collect
    then show ?thesis using assms by (fastforce simp: collect_investigation_package_def dest!: refusals_Inr pending_Inr)
  qed (use that in simp)
  show ?thesis
  proof (cases "call = Live_response")
    case True
    then have "on_machine m (\<lambda>machine. unless_pending q m ''RunLiveResponse'' (live_session q m body)) w = (Inr (Some r), w')"
      using assms(1) by (simp add: run_live_response_def)
    from refusals_Inr(1) [OF this] have "unless_pending q m ''RunLiveResponse'' (live_session q m body) w = (Inr (Some r), w')" by blast
    from pending_Inr [OF this assms(2)] obtain v where v: "live_session q m body v = (Inr (Some r), w')" "store_inv (wdb v)" by blast
    obtain x v1 where x: "create_action q m ''RunLiveResponse'' (get_or body ''Comment'' (VStr [])) (requestor_of body) v = (x, v1)" by fastforce
    show ?thesis using live_session_Inr [OF v(1) x] x v(2) by blast
  next
    case False
    then show ?thesis using other queued by blast
  qed
qed
lemma call_stored:
  assumes "call_command call q m body w = (Inr (Some r), w')" "store_inv (wdb w)" "drawn_id q \<noteq> []"
    and "distinct (map lower (dict_keys (fixture q ''machineaction'')))"
  shows "store_inv (wdb w') \<and> dict_get r ''status'' = VStr ''Pending'' \<and>
    (\<exists>ty dns req com cs. action_at (wdb w') (drawn_id q) = Some (VDict (started q ty m dns req com cs)))"
proof -
  have plain: "MdeMachineAction a ty m dns t req com = AList.update ''commands'' (VList []) (MdeMachineAction a ty m dns t req com)"
    for a ty dns t req com by (simp add: MdeMachineAction_def)
  obtain ty com v where v: "store_inv (wdb v)" and out: "create_action q m ty com (requestor_of body) v = (r, w') \<or>
    (\<exists>x v1 cs. create_action q m ty com (requestor_of body) v = (x, v1) \<and> r = AList.update ''commands'' cs x \<and>
       (\<exists>stored. repo_find (wdb v1) ''mde_machine_actions'' (py_str (dict_get x ''id'')) = Some stored \<and>
          w' = on_db (\<lambda>s. mde_action_save s (AList.update ''commands'' cs stored)) v1))"
    using call_creates [OF assms(1,2)] by blast
  from out show ?thesis
  proof (elim disjE exE conjE)
    assume "create_action q m ty com (requestor_of body) v = (r, w')"
    from created_action [OF this v assms(3,4)] show ?thesis unfolding started_def by (metis plain)
  next
    fix x v1 cs stored
    assume c: "create_action q m ty com (requestor_of body) v = (x, v1)" and r: "r = AList.update ''commands'' cs x"
      and f: "repo_find (wdb v1) ''mde_machine_actions'' (py_str (dict_get x ''id'')) = Some stored"
      and w': "w' = on_db (\<lambda>s. mde_action_save s (AList.update ''commands'' cs stored)) v1"
    note made = created_action [OF c v assms(3,4)]
    then obtain dns where at: "action_at (wdb v1) (drawn_id q) =
        Some (VDict (MdeMachineAction (drawn_id q) ty m dns (utc_now (req_now q)) (requestor_of body) com))" by blast
    have st: "stored = MdeMachineAction (drawn_id q) ty m dns (utc_now (req_now q)) (requestor_of body) com"
      using f made at by (simp add: repo_find_def fields_of_def)
    let ?a = "started q ty m dns (requestor_of body) com cs"
    have key: "mde_action_key ?a = drawn_id q" by (simp add: started_def mde_action_key_def MdeMachineAction_def)
    have w: "wdb w' = repo_save_raw (wdb v1) ''mde_machine_actions'' (drawn_id q) (VDict ?a)"
      using key by (simp add: w' st mde_action_save_def started_def)
    have "action_at (wdb w') (drawn_id q) = Some (VDict ?a)" using at by (simp add: w repo_save_existing)
    moreover have "store_inv (wdb w')" using made by (simp add: w)
    moreover have "dict_get r ''status'' = VStr ''Pending''" using made r by simp
    ultimately show ?thesis by blast
  qed
qed

text \<open>
  C23. The life of a machine action: whatever the call that starts it, the action is answered as pending, and reads pending up
  to one second after the second it was started in; at every later moment it reads succeeded, dated one second after its start
  however late the read is, under its own id, and it never moves again.
\<close>

theorem machine_action_lifecycle:
  assumes "call_command call q m body w = (Inr (Some r), w')" "store_inv (wdb w)" "drawn_id q \<noteq> []"
    and "distinct (map lower (dict_keys (fixture q ''machineaction'')))" "fixture q2 = fixture q" "fixture q3 = fixture q"
    and "365000 * day_micros \<le> req_now q" "req_now q + 1000000 < max_ordinal * day_micros"
  shows "dict_get r ''status'' = VStr ''Pending'' \<and>
    (\<exists>r2 s2. get_machine_action q2 (drawn_id q) (wdb w') = Inr (Some r2, s2) \<and>
       (let t = req_now q div 1000000 * 1000000 + 1000000; settled = t < req_now q2
        in dict_get r2 ''id'' = VStr (drawn_id q) \<and> (m \<noteq> [] \<longrightarrow> dict_get r2 ''machineId'' = VStr m) \<and>
           dict_get r2 ''status'' = VStr (if settled then ''Succeeded'' else ''Pending'') \<and>
           dict_get r2 ''lastUpdateDateTimeUtc'' = VStr (if settled then iso_ms (t, 0) else utc_now (req_now q)) \<and>
           (settled \<longrightarrow> get_machine_action q3 (drawn_id q) s2 = Inr (Some r2, s2))))"
proof -
  obtain ty dns req com cs where st: "store_inv (wdb w')" "dict_get r ''status'' = VStr ''Pending''"
    "action_at (wdb w') (drawn_id q) = Some (VDict (started q ty m dns req com cs))"
    using call_stored [OF assms(1-4)] by blast
  define t where "t = req_now q div 1000000 * 1000000 + 1000000"
  define a where "a = started q ty m dns req com cs"
  define a' where "a' = AList.update ''lastUpdateDateTimeUtc'' (VStr (iso_ms (t, 0))) (AList.update ''status'' (VStr ''Succeeded'') a)"
  define s2 where "s2 = (if t < req_now q2 then mde_action_save (wdb w') a' else wdb w')"
  define b where "b = (if t < req_now q2 then a' else a)"
  have now: "req_now q < max_ordinal * day_micros" using assms(8) by simp
  have created: "created_at a = Some (t - 1000000)"
    using strptime_strftime_000 [OF assms(7) now]
    by (simp add: a_def created_at_def started_def MdeMachineAction_def utc_now_def t_def)
  have due: "mde_due later a \<longleftrightarrow> t < later" for later
    using created by (simp add: mde_due_def mde_pending_def a_def started_def MdeMachineAction_def has_answered_def
        SETTLE_SECONDS_def less_divide_eq)
  have fin: "mde_finish later a = Inr a'" for later
    using plus_seconds_utc_now [OF assms(7,8)]
    by (simp add: mde_finish_def a'_def a_def started_def MdeMachineAction_def answered_at_def SETTLE_SECONDS_def t_def)
  have read: "get_machine_action q2 (drawn_id q) (wdb w') = Inr (Some (action_resource q b), s2)"
    using st(3) assms(5) fin due
    by (simp add: get_machine_action_def repo_find_def fields_of_def mde_settled_due a_def [symmetric] b_def s2_def action_resource_def)
  have key: "mde_action_key a = drawn_id q" "mde_action_key a' = drawn_id q"
    by (simp_all add: a_def a'_def mde_action_key_def started_def MdeMachineAction_def)
  have again: "get_machine_action q3 (drawn_id q) s2 = Inr (Some (action_resource q b), s2)" if "t < req_now q2"
  proof -
    have "action_at s2 (drawn_id q) = Some (VDict a')"
      using st(3) that key by (simp add: s2_def mde_action_save_def repo_save_existing)
    moreover have "\<not> mde_due (req_now q3) a'" by (simp add: mde_due_def mde_pending_def a'_def)
    ultimately show ?thesis using that assms(6)
      by (simp add: get_machine_action_def repo_find_def fields_of_def mde_settled_due b_def action_resource_def)
  qed
  have keys: "map fst b = map fst (MdeMachineAction [] [] [] [] [] VNone VNone)"
    by (simp add: b_def a'_def a_def started_def MdeMachineAction_def)
  note shown = action_resource_fields [OF assms(4) keys]
  have blank: "iso_ms (t, 0) \<noteq> []" "utc_now (req_now q) \<noteq> []" by (simp_all add: iso_ms_nonempty utc_now_def strftime_000_def)
  have "dict_get (action_resource q b) ''id'' = VStr (drawn_id q)"
    using assms(3) by (intro shown(2)) (simp_all add: is_scalar_def b_def a'_def a_def started_def MdeMachineAction_def)
  moreover have "dict_get (action_resource q b) ''status'' = VStr (if t < req_now q2 then ''Succeeded'' else ''Pending'')"
    by (intro shown(1)) (simp_all add: is_scalar_def b_def a'_def a_def started_def MdeMachineAction_def)
  moreover have "dict_get (action_resource q b) ''lastUpdateDateTimeUtc'' = VStr (if t < req_now q2 then iso_ms (t, 0) else utc_now (req_now q))"
    using blank by (intro shown(1)) (simp_all add: is_scalar_def b_def a'_def a_def started_def MdeMachineAction_def)
  moreover have "m \<noteq> [] \<Longrightarrow> dict_get (action_resource q b) ''machineId'' = VStr m"
    by (intro shown(1)) (simp_all add: is_scalar_def b_def a'_def a_def started_def MdeMachineAction_def)
  ultimately show ?thesis
    using st(2) read again unfolding Let_def t_def [symmetric] by (intro conjI exI [of _ "action_resource q b"] exI [of _ s2]) auto
qed

definition demo_request :: "int \<Rightarrow> mde_request" where
  "demo_request now = \<lparr>fixture = (\<lambda>_. [(''id'', VStr []), (''status'', VStr [])]), req_now = now, req_clock = 0, drawn_id = ''a1''\<rparr>"

theorem machine_action_lifecycle_witness:
  "\<exists>r w' r2 s2. call_command Restrict (demo_request 63840009600500000) ''m1'' [(''Comment'', VStr ''look'')] scanned_world = (Inr (Some r), w') \<and>
     get_machine_action (demo_request 63840096000000000) ''a1'' (wdb w') = Inr (Some r2, s2) \<and> dict_get r2 ''status'' = VStr ''Succeeded''"
proof -
  let ?q = "demo_request 63840009600500000" and ?body = "[(''Comment'', VStr ''look'')]"
  have body: "require_comment ?body = Inr ''look''" by code_simp
  have "refuse_if_pending (req_now ?q) ''m1'' ''RestrictCodeExecution'' (wdb scanned_world) = (Inr (), wdb scanned_world)"
    by (simp add: refuse_if_pending_def scanned_world_empty)
  then have pending: "unless_pending ?q ''m1'' ''RestrictCodeExecution'' k scanned_world = k (on_db (\<lambda>_. wdb scanned_world) scanned_world)"
    for k :: "world \<Rightarrow> jobj command" by (simp add: unless_pending_def demo_request_def)
  have "call_command Restrict ?q ''m1'' ?body scanned_world =
      queue_action ?q ''m1'' ''RestrictCodeExecution'' ''look'' ?body (on_db (\<lambda>_. wdb scanned_world) scanned_world)"
    unfolding call_command.simps restrict_code_execution_def on_machine_def scanned_world(3) unless_refused_def body
    by (simp add: pending)
  then obtain r w' where call: "call_command Restrict ?q ''m1'' ?body scanned_world = (Inr (Some r), w')"
    unfolding queue_action_def by (simp split: prod.splits)
  have "distinct (map lower (dict_keys (fixture ?q ''machineaction'')))" by code_simp
  from machine_action_lifecycle [OF call scanned_world(1) _ this, of "demo_request 63840096000000000" "demo_request 0"]
  have "\<exists>r2 s2. get_machine_action (demo_request 63840096000000000) ''a1'' (wdb w') = Inr (Some r2, s2) \<and> dict_get r2 ''status'' = VStr ''Succeeded''"
    by (fastforce simp: demo_request_def day_micros_def max_ordinal_def Let_def)
  then show ?thesis using call by blast
qed

text \<open>An update refused for its device value has already changed the tags, and nobody is told.\<close>

lemma refused_update_changes_tags:
  assumes "store_inv (wdb w)" "repo_get (wdb w) ''mde_machines'' i = Some (VDict machine)"
  defines "body \<equiv> [(''machineTags'', VList [VStr ''pwned'']), (''deviceValue'', VStr ''Priceless'')]"
  shows "fst (update_machine q i body w) = Inl (InvalidMachineUpdateError ''deviceValue must be one of Normal, Low, High'')"
    and "repo_get (wdb (snd (update_machine q i body w))) ''mde_machines'' i =
      Some (VDict (AList.update ''machineTags'' (VList [VStr ''pwned'']) machine))"
    and "published (snd (update_machine q i body w)) = published w"
proof -
  let ?tagged = "AList.update ''machineTags'' (VList [VStr ''pwned'']) machine"
  have msg: "''deviceValue must be one of '' @ join '', '' DEVICE_VALUES = ''deviceValue must be one of Normal, Low, High''"
    by (simp add: DEVICE_VALUES_def)
  have "set_device_value body ?tagged = Inl (InvalidMachineUpdateError ''deviceValue must be one of Normal, Low, High'')"
    unfolding set_device_value_def msg by (simp add: body_def DEVICE_VALUES_def)
  moreover have "set_tags body machine = Inr ?tagged" by (simp add: set_tags_def body_def)
  ultimately have u: "update_machine q i body w =
      (Inl (InvalidMachineUpdateError ''deviceValue must be one of Normal, Low, High''), on_db (\<lambda>s. assign_stored s ''mde_machines'' i ?tagged) w)"
    using assms(2) by (simp add: update_machine_def on_machine_def repo_find_def fields_of_def unless_refused_def Let_def)
  then show "fst (update_machine q i body w) = Inl (InvalidMachineUpdateError ''deviceValue must be one of Normal, Low, High'')"
    "published (snd (update_machine q i body w)) = published w" by simp_all
  obtain d where d: "coll (wdb w) ''mde_machines'' = Inr d" "map_of d i = Some (VDict machine)"
    using assms(2) by (cases "coll (wdb w) ''mde_machines''") (auto simp: repo_get_def store_get_def)
  then have "i \<in> set (dict_keys d)" by (metis map_of_eq_None_iff option.distinct(1) list.set_map)
  then show "repo_get (wdb (snd (update_machine q i body w))) ''mde_machines'' i = Some (VDict ?tagged)"
    using d by (simp add: u assign_stored_def repo_get_def store_get_def)
qed

end
