(* ===== verification/Mde_Catalogue.thy ===== *)
theory Mde_Catalogue
  imports Mde_Machines
begin

text \<open>
  What Defender lists: the machines and their sub-resources (\<open>src/backend/application/mde_machines/queries.py\<close>), the
  vulnerabilities, the software, the machines of a user and the synthetic file, domain and address statistics
  (\<open>application/mde_vulnerabilities\<close>, \<open>mde_software\<close>, \<open>mde_users\<close>, \<open>mde_file_info\<close>). \<open>request_url\<close> is the URL the router
  remembers for the next link.

  Shown here: every machine is referenced by exactly one vulnerability, and the count a vulnerability reports is that of
  its references; the list a machine reports is another association.
\<close>

section \<open>Machines\<close>

definition list_machines ::
  "(string \<Rightarrow> jobj) \<Rightarrow> string option \<Rightarrow> string option \<Rightarrow> int \<Rightarrow> int \<Rightarrow> string option \<Rightarrow> string option \<Rightarrow> bool \<Rightarrow> db \<Rightarrow>
    odata_failure + pyval" where
  "list_machines fixtures request_url filter_str page_size skip orderby select counted s =
     map_sum id
       (odata_listing request_url (\<lambda>page. apply_odata_select (map (\<lambda>r. complete_mde fixtures r ''machine'') page) select)
          ''Machines'' ''machines'' page_size skip counted)
       (odata_selected (map (\<lambda>m. to_mde_resource (declared_only (fields_of m)) ''machineId'') (repo_list_all s ''mde_machines''))
          filter_str orderby [])"

definition get_machine :: "(string \<Rightarrow> jobj) \<Rightarrow> string \<Rightarrow> db \<Rightarrow> jobj option" where
  "get_machine fixtures machine_id s = map_option (machine_resource fixtures) (repo_find s ''mde_machines'' machine_id)"

definition DEFAULT_CONTEXT :: string where
  "DEFAULT_CONTEXT = ''https://api.securitycenter.microsoft.com/api/$metadata''"

definition get_machine_logon_users :: "(string \<Rightarrow> jobj) \<Rightarrow> string \<Rightarrow> db \<Rightarrow> pyval option" where
  "get_machine_logon_users fixtures machine_id s =
     map_option (\<lambda>machine. build_mde_list_response
         (map (\<lambda>u. VDict (complete_mde fixtures (fields_of u) ''user''))
            (case dict_get machine ''loggedOnUsers'' of VList us \<Rightarrow> us | _ \<Rightarrow> [])) DEFAULT_CONTEXT None None)
       (repo_find s ''mde_machines'' machine_id)"

definition get_by_machine_id :: "db \<Rightarrow> string \<Rightarrow> string \<Rightarrow> jobj list" where
  "get_by_machine_id s c machine_id =
     filter (\<lambda>a. dict_get a ''machineId'' = VStr machine_id) (map fields_of (repo_list_all s c))"

definition get_machine_alerts :: "string \<Rightarrow> db \<Rightarrow> pyval option" where
  "get_machine_alerts machine_id s =
     map_option (\<lambda>machine. build_mde_list_response
         (map (\<lambda>a. VDict (to_mde_resource a ''alertId'')) (get_by_machine_id s ''mde_alerts'' machine_id)) (mde_context ''Alerts'') None None)
       (repo_find s ''mde_machines'' machine_id)"

section \<open>Installed software\<close>

definition get_agent_id_for_machine :: "string \<Rightarrow> db \<Rightarrow> string option" where
  "get_agent_id_for_machine machine_id s =
     (case store_get_all_with_keys s ''edr_id_map'' of
        Inl e \<Rightarrow> None
      | Inr maps \<Rightarrow> map_option fst (find (\<lambda>(agent_id, m). field_get m ''mde_machine_id'' = VStr machine_id) maps))"

text \<open>\<open>.lower().replace(...)\<close>, which only a string has.\<close>

definition id_part :: "pyval \<Rightarrow> string result" where
  "id_part v =
     (case v of
        VStr t \<Rightarrow> Inr (replace_str ''.'' [] (replace_str '','' [] (replace_str '' '' ''_'' (lower t))))
      | _ \<Rightarrow> Inl (AttributeError ''lower''))"

definition make_software_id :: "pyval \<Rightarrow> pyval \<Rightarrow> string result" where
  "make_software_id publisher name =
     (case id_part publisher of
        Inl e \<Rightarrow> Inl e
      | Inr v \<Rightarrow> map_sum id (\<lambda>n. v @ ''-_-'' @ n) (id_part name))"

definition publisher_of :: "jobj \<Rightarrow> pyval" where
  "publisher_of app = get_or app ''publisher'' (get_or app ''publisherName'' (VStr []))"

definition app_to_mde_software :: "jobj \<Rightarrow> pyval result" where
  "app_to_mde_software app =
     (let name = get_or app ''name'' (VStr []); publisher = publisher_of app
      in map_sum id (\<lambda>i. VDict
           [(''id'', VStr i), (''name'', name), (''vendor'', publisher), (''version'', get_or app ''version'' (VStr [])),
            (''weaknesses'', VInt 0), (''publicExploit'', VBool False), (''activeAlert'', VBool False),
            (''exposedMachines'', VInt 1), (''impactScore'', VFloat ''0.0'')]) (make_software_id publisher name))"

text \<open>A page of a list that carries a link to the next one, and no count.\<close>

definition mde_page :: "string option \<Rightarrow> string \<Rightarrow> string \<Rightarrow> int \<Rightarrow> int \<Rightarrow> pyval list \<Rightarrow> pyval" where
  "mde_page request_url entity_set path page_size skip items =
     build_mde_list_response (py_slice items skip (skip + page_size)) (mde_context entity_set)
       (page_link request_url (skip + page_size) (int (length items))
          (''https://api.security.microsoft.com/api/'' @ path @ ''?$top='' @ str_of_int page_size) SKIP) None"

definition get_machine_software :: "string option \<Rightarrow> string \<Rightarrow> int \<Rightarrow> int \<Rightarrow> db \<Rightarrow> pyval option result" where
  "get_machine_software request_url machine_id page_size skip s =
     (case repo_find s ''mde_machines'' machine_id of
        None \<Rightarrow> Inr None
      | Some machine \<Rightarrow>
          (let agent = get_agent_id_for_machine machine_id s
           in if agent = None \<or> agent = Some [] then Inr (Some (build_mde_list_response [] (mde_context ''Software'') None None))
              else let apps = filter (\<lambda>a. dict_get a ''agentId'' = VStr (the agent)) (map fields_of (repo_list_all s ''installed_apps''))
                   in map_sum id (\<lambda>software. Some (mde_page request_url ''Software'' (''machines/'' @ machine_id @ ''/software'') page_size skip software))
                        (foldE (\<lambda>out app. map_sum id (\<lambda>x. out @ [x]) (app_to_mde_software app)) apps [])))"

definition get_software_inventory_export :: "int \<Rightarrow> pyval" where
  "get_software_inventory_export now = VDict
     [(''@odata.context'', VStr ''https://api.securitycenter.microsoft.com/api/$metadata#ExportFilesResponse''),
      (''exportFiles'', VList [VStr ''/_mock/mde/software-export-data.json'']),
      (''generatedTime'', VStr (strf_seconds now @ ''Z''))]"

text \<open>The agents mapped to a machine: \<open>agent_info\<close>, by agent id.\<close>

definition agent_info :: "db \<Rightarrow> (string \<times> jobj) list" where
  "agent_info s =
     (let maps = (case store_get_all_with_keys s ''edr_id_map'' of Inl e \<Rightarrow> [] | Inr m \<Rightarrow> m)
      in fold (\<lambda>agent out.
             let i = py_str (dict_get agent ''id'');
                 mde_id = (case map_of maps i of None \<Rightarrow> VNone | Some m \<Rightarrow> field_get m ''mde_machine_id'')
             in if truthy mde_id
                then AList.update i [(''mde_machine_id'', mde_id), (''hostname'', dict_get agent ''computerName''),
                                     (''os_platform'', dict_get agent ''osType'')] out
                else out) (map fields_of (repo_list_all s ''agents'')) [])"

definition export_row :: "jobj \<Rightarrow> jobj \<Rightarrow> pyval" where
  "export_row info app = VDict
     [(''deviceId'', dict_get info ''mde_machine_id''), (''deviceName'', dict_get info ''hostname''),
      (''osPlatform'', dict_get info ''os_platform''), (''softwareVendor'', publisher_of app),
      (''softwareName'', get_or app ''name'' (VStr [])), (''softwareVersion'', get_or app ''version'' (VStr [])),
      (''numberOfWeaknesses'', VInt 0), (''diskPaths'', VList []), (''registryPaths'', VList []),
      (''softwareFirstSeenTimestamp'', get_or app ''installedDate'' (VStr [])), (''endOfSupportStatus'', VStr []),
      (''endOfSupportDate'', VNone)]"

text \<open>The ids of the agents are strings; no other value is one of their keys.\<close>

definition get_software_export_data :: "db \<Rightarrow> pyval list" where
  "get_software_export_data s =
     List.map_filter (\<lambda>app. case get_or app ''agentId'' (VStr []) of
           VStr i \<Rightarrow> map_option (\<lambda>info. export_row info app) (map_of (agent_info s) i) | _ \<Rightarrow> None)
       (map fields_of (repo_list_all s ''installed_apps''))"

section \<open>Vulnerabilities and software\<close>

text \<open>The position of the first record with a key, and \<open>_machine_refs_for\<close> over the collection \<open>c\<close> keyed by the field \<open>key\<close>.\<close>

definition index_of :: "(jobj \<Rightarrow> bool) \<Rightarrow> jobj list \<Rightarrow> nat option" where
  "index_of P rs = map_option fst (find (\<lambda>(i, r). P r) (enumerate 0 rs))"

definition machine_ref :: "jobj \<Rightarrow> jobj" where
  "machine_ref machine =
     [(''id'', dict_get machine ''machineId''), (''computerDnsName'', dict_get machine ''computerDnsName''),
      (''osPlatform'', dict_get machine ''osPlatform''), (''rbacGroupName'', dict_get machine ''rbacGroupName'')]"

definition machine_refs_for :: "string \<Rightarrow> string \<Rightarrow> pyval \<Rightarrow> db \<Rightarrow> jobj list" where
  "machine_refs_for c key i s =
     (let everything = map fields_of (repo_list_all s c)
      in case index_of (\<lambda>r. dict_get r key = i) everything of
           None \<Rightarrow> []
         | Some idx \<Rightarrow>
             map (\<lambda>(j, machine). machine_ref machine)
               (filter (\<lambda>(j, machine). j mod length everything = idx)
                  (enumerate 0 (map fields_of (repo_list_all s ''mde_machines'')))))"

definition with_exposed_count :: "string \<Rightarrow> string \<Rightarrow> string \<Rightarrow> (string \<Rightarrow> jobj) \<Rightarrow> db \<Rightarrow> jobj \<Rightarrow> jobj" where
  "with_exposed_count c key entity fixtures s rec =
     complete_mde fixtures
       (to_mde_resource
          (AList.update ''exposedMachines'' (VInt (int (length (machine_refs_for c key (get_or rec key (VStr [])) s)))) rec) key) entity"

definition list_vulnerabilities ::
  "(string \<Rightarrow> jobj) \<Rightarrow> string option \<Rightarrow> string option \<Rightarrow> int \<Rightarrow> int \<Rightarrow> string option \<Rightarrow> string option \<Rightarrow> db \<Rightarrow> odata_failure + pyval" where
  "list_vulnerabilities fixtures request_url filter_str page_size skip orderby select s =
     map_sum id (odata_listing request_url (\<lambda>page. apply_odata_select page select) ''Vulnerabilities'' ''vulnerabilities'' page_size skip False)
       (odata_selected (map (\<lambda>v. with_exposed_count ''mde_vulnerabilities'' ''vulnerabilityId'' ''vulnerability'' fixtures s (fields_of v))
            (repo_list_all s ''mde_vulnerabilities'')) filter_str orderby [])"

definition get_vulnerability :: "(string \<Rightarrow> jobj) \<Rightarrow> string \<Rightarrow> db \<Rightarrow> jobj option" where
  "get_vulnerability fixtures vuln_id s =
     map_option (with_exposed_count ''mde_vulnerabilities'' ''vulnerabilityId'' ''vulnerability'' fixtures s)
       (repo_find s ''mde_vulnerabilities'' vuln_id)"

definition get_vulnerability_machine_references :: "string option \<Rightarrow> string \<Rightarrow> int \<Rightarrow> int \<Rightarrow> db \<Rightarrow> pyval option" where
  "get_vulnerability_machine_references request_url vuln_id page_size skip s =
     map_option (\<lambda>v. mde_page request_url ''MachineReferences'' (''vulnerabilities/'' @ vuln_id @ ''/machineReferences'') page_size skip
         (map VDict (machine_refs_for ''mde_vulnerabilities'' ''vulnerabilityId'' (VStr vuln_id) s)))
       (repo_find s ''mde_vulnerabilities'' vuln_id)"

definition list_software ::
  "(string \<Rightarrow> jobj) \<Rightarrow> string option \<Rightarrow> string option \<Rightarrow> int \<Rightarrow> int \<Rightarrow> string option \<Rightarrow> string option \<Rightarrow> db \<Rightarrow> odata_failure + pyval" where
  "list_software fixtures request_url filter_str page_size skip orderby select s =
     map_sum id (odata_listing request_url (\<lambda>page. apply_odata_select page select) ''Software'' ''software'' page_size skip False)
       (odata_selected (map (\<lambda>v. with_exposed_count ''mde_software'' ''softwareId'' ''software'' fixtures s (fields_of v))
            (repo_list_all s ''mde_software'')) filter_str orderby [])"

definition get_software :: "(string \<Rightarrow> jobj) \<Rightarrow> string \<Rightarrow> db \<Rightarrow> jobj option" where
  "get_software fixtures software_id s =
     map_option (with_exposed_count ''mde_software'' ''softwareId'' ''software'' fixtures s) (repo_find s ''mde_software'' software_id)"

definition get_software_machine_references :: "string \<Rightarrow> db \<Rightarrow> pyval option" where
  "get_software_machine_references software_id s =
     map_option (\<lambda>v. build_mde_list_response (map VDict (machine_refs_for ''mde_software'' ''softwareId'' (VStr software_id) s))
         DEFAULT_CONTEXT None None) (repo_find s ''mde_software'' software_id)"

text \<open>What a machine reports: the vulnerabilities whose position falls on that of the machine.\<close>

definition vulnerabilities_of :: "string \<Rightarrow> db \<Rightarrow> jobj list" where
  "vulnerabilities_of machine_id s =
     (let machines = map fields_of (repo_list_all s ''mde_machines'')
      in case index_of (\<lambda>m. dict_get m ''machineId'' = VStr machine_id) machines of
           None \<Rightarrow> []
         | Some idx \<Rightarrow>
             map snd (filter (\<lambda>(j, v). j mod length machines = idx)
               (enumerate 0 (map fields_of (repo_list_all s ''mde_vulnerabilities'')))))"

definition get_machine_vulnerabilities :: "(string \<Rightarrow> jobj) \<Rightarrow> string \<Rightarrow> db \<Rightarrow> pyval option" where
  "get_machine_vulnerabilities fixtures machine_id s =
     map_option (\<lambda>machine. build_mde_list_response
         (map (\<lambda>v. VDict (with_exposed_count ''mde_vulnerabilities'' ''vulnerabilityId'' ''vulnerability'' fixtures s v))
            (vulnerabilities_of machine_id s)) DEFAULT_CONTEXT None None)
       (repo_find s ''mde_machines'' machine_id)"

definition recommendation :: "string \<Rightarrow> string \<Rightarrow> string \<Rightarrow> int \<Rightarrow> string \<Rightarrow> string \<Rightarrow> string \<Rightarrow> string \<Rightarrow> string \<Rightarrow> string \<Rightarrow> pyval" where
  "recommendation i product_name name weaknesses version sub severity config_impact exposure related = VDict
     [(''id'', VStr i), (''productName'', VStr product_name), (''recommendationName'', VStr name), (''weaknesses'', VInt weaknesses),
      (''vendor'', VStr ''microsoft''), (''recommendedVersion'', VStr version), (''recommendationCategory'', VStr ''Application''),
      (''subCategory'', VStr sub), (''severityScore'', VFloat severity), (''publicExploit'', VBool False), (''activeAlert'', VBool False),
      (''associatedThreats'', VList []), (''remediationType'', VStr ''Update''), (''status'', VStr ''Active''),
      (''configScoreImpact'', VFloat config_impact), (''exposureImpact'', VFloat exposure), (''totalMachineCount'', VInt 1),
      (''exposedMachinesCount'', VInt 1), (''nonProductivityImpactedAssets'', VInt 0), (''relatedComponent'', VStr related)]"

definition get_machine_recommendations :: "string \<Rightarrow> db \<Rightarrow> pyval option" where
  "get_machine_recommendations machine_id s =
     map_option (\<lambda>machine.
         let i = (\<lambda>n. ''rec-'' @ take 8 machine_id @ ''-'' @ n)
         in build_mde_list_response
              [recommendation (i ''001'') ''Windows 10'' ''Update operating system'' 3 ''22H2'' ''OS'' ''7.5'' ''2.0'' ''3.0'' ''OS'',
               recommendation (i ''002'') ''Microsoft Edge'' ''Update browser to latest version'' 1 ''120.0'' ''Browser'' ''5.0'' ''1.0'' ''1.5'' ''Browser'']
              DEFAULT_CONTEXT None None)
       (repo_find s ''mde_machines'' machine_id)"

section \<open>Users\<close>

text \<open>The two texts a user id is compared with; a name that is no string has no \<open>lower\<close>.\<close>

definition logged_on :: "string \<Rightarrow> pyval \<Rightarrow> bool result" where
  "logged_on user_id user =
     (case (get_or (fields_of user) ''accountName'' (VStr []), get_or (fields_of user) ''accountDomain'' (VStr [])) of
        (VStr name, VStr domain) \<Rightarrow>
          Inr (lower name = lower user_id \<or> lower domain @ [CHR 0x5C] @ lower name = lower user_id)
      | _ \<Rightarrow> Inl (AttributeError ''lower''))"

fun any_logged_on :: "string \<Rightarrow> pyval list \<Rightarrow> bool result" where
  "any_logged_on user_id [] = Inr False"
| "any_logged_on user_id (u # us) =
     (case logged_on user_id u of Inl e \<Rightarrow> Inl e | Inr b \<Rightarrow> if b then Inr True else any_logged_on user_id us)"

definition machines_of_user :: "string \<Rightarrow> db \<Rightarrow> jobj list result" where
  "machines_of_user user_id s =
     foldE (\<lambda>out machine. map_sum id (\<lambda>b. if b then out @ [machine] else out)
           (any_logged_on user_id (case dict_get machine ''loggedOnUsers'' of VList us \<Rightarrow> us | _ \<Rightarrow> [])))
       (map fields_of (repo_list_all s ''mde_machines'')) []"

definition get_user_machines :: "string \<Rightarrow> db \<Rightarrow> pyval result" where
  "get_user_machines user_id s =
     map_sum id (\<lambda>ms. build_mde_list_response (map VDict ms) DEFAULT_CONTEXT None None) (machines_of_user user_id s)"

text \<open>The ids are collected in a set, whose order Python leaves open: \<open>in_order\<close> is the order it takes.\<close>

definition get_user_alerts :: "(string list \<Rightarrow> string list) \<Rightarrow> string \<Rightarrow> db \<Rightarrow> pyval result" where
  "get_user_alerts in_order user_id s =
     map_sum id (\<lambda>ms.
         build_mde_list_response
           (map VDict (concat (map (get_by_machine_id s ''mde_alerts'') (in_order (remdups (map mde_machine_key ms))))))
           DEFAULT_CONTEXT None None) (machines_of_user user_id s)"

section \<open>Files, domains and addresses\<close>

definition hash_if :: "nat \<Rightarrow> string \<Rightarrow> pyval" where
  "hash_if n file_hash = VStr (if length file_hash = n then file_hash else [])"

definition get_file_info :: "int \<Rightarrow> string \<Rightarrow> pyval" where
  "get_file_info now file_hash = VDict
     [(''sha1'', hash_if 40 file_hash), (''sha256'', hash_if 64 file_hash), (''md5'', VStr []), (''globalPrevalence'', VInt 142),
      (''globalFirstObserved'', VStr ''2024-01-15T08:30:00Z''), (''globalLastObserved'', VStr (utc_now now)), (''size'', VInt 245760),
      (''fileType'', VStr ''PortableExecutable''), (''isPeFile'', VBool True), (''filePublisher'', VStr ''Acme Corp''),
      (''fileProductName'', VStr ''AcmeAgent''), (''signer'', VStr ''Acme Corp Code Signing CA''),
      (''issuer'', VStr ''DigiCert SHA2 Assured ID Code Signing CA''),
      (''signerHash'', VStr ''a1b2c3d4e5f6a1b2c3d4e5f6a1b2c3d4e5f6a1b2''), (''isValidCertificate'', VBool True),
      (''determinationType'', VStr ''Unknown''), (''determinationValue'', VStr [])]"

definition get_file_stats :: "int \<Rightarrow> string \<Rightarrow> pyval" where
  "get_file_stats now file_hash = VDict
     [(''sha1'', hash_if 40 file_hash), (''sha256'', hash_if 64 file_hash), (''organizationPrevalence'', VInt 12),
      (''globallyPrevalence'', VInt 48213), (''globalFirstObserved'', VStr ''2023-11-14T08:21:00Z''),
      (''globalLastObserved'', VStr (utc_now now)), (''orgFirstSeen'', VStr ''2024-02-01T10:00:00Z''), (''orgLastSeen'', VStr (utc_now now)),
      (''topFileNames'', VList [VStr ''agent.exe'', VStr ''updater.exe''])]"

definition top_device :: "string \<Rightarrow> string \<Rightarrow> pyval" where
  "top_device i name = VDict [(''deviceId'', VStr i), (''deviceName'', VStr name)]"

definition get_domain_stats :: "int \<Rightarrow> string \<Rightarrow> pyval" where
  "get_domain_stats now domain = VDict
     [(''host'', VStr domain), (''organizationPrevalence'', VInt 8), (''orgFirstSeen'', VStr ''2024-03-01T12:00:00Z''),
      (''orgLastSeen'', VStr (utc_now now)),
      (''topDevices'', VList [top_device ''a1b2c3d4-e5f6-7890-abcd-ef1234567890'' ''ws-fin-001'',
                              top_device ''b2c3d4e5-f6a7-8901-bcde-f12345678901'' ''srv-dc-01''])]"

definition get_ip_stats :: "int \<Rightarrow> string \<Rightarrow> pyval" where
  "get_ip_stats now ip = VDict
     [(''ipAddress'', VStr ip), (''organizationPrevalence'', VInt 3), (''orgFirstSeen'', VStr ''2024-04-01T14:00:00Z''),
      (''orgLastSeen'', VStr (utc_now now)),
      (''topDevices'', VList [top_device ''a1b2c3d4-e5f6-7890-abcd-ef1234567890'' ''ws-fin-001''])]"

section \<open>Which machine is exposed to what\<close>

lemma index_of_nth:
  assumes "i < length rs" "P (rs ! i)" "\<And>j. j < length rs \<Longrightarrow> P (rs ! j) \<Longrightarrow> j = i"
  shows "index_of P rs = Some i"
proof -
  have e: "enumerate 0 rs ! j = (j, rs ! j)" if "j < length rs" for j using that by (simp add: nth_enumerate_eq)
  have "\<not> P (rs ! k)" if "k < i" for k using assms(1) assms(3) [of k] that by auto
  then have "find (\<lambda>(i, r). P r) (enumerate 0 rs) = Some (i, rs ! i)"
    unfolding find_Some_iff using assms(1,2) e by (intro exI [of _ i]) simp
  then show ?thesis by (simp add: index_of_def)
qed

lemma mset_classes: "mset (concat (map (\<lambda>i. filter (\<lambda>x. f x = i) xs) [0..<n])) = filter_mset (\<lambda>x. f x < n) (mset xs)"
proof (induction n)
  case (Suc n)
  have "filter_mset (\<lambda>x. f x < Suc n) M = filter_mset (\<lambda>x. f x < n) M + filter_mset (\<lambda>x. f x = n) M" for M
    by (induction M) auto
  then show ?case using Suc by simp
qed simp

lemma refs_of_nth:
  assumes "i < length rs" "rs = map fields_of (repo_list_all s c)" "distinct (map (\<lambda>r. dict_get r key) rs)"
  shows "machine_refs_for c key (dict_get (rs ! i) key) s =
    map (\<lambda>(j, machine). machine_ref machine)
      (filter (\<lambda>(j, machine). j mod length rs = i) (enumerate 0 (map fields_of (repo_list_all s ''mde_machines''))))"
proof -
  have "j = i" if "j < length rs" "dict_get (rs ! j) key = dict_get (rs ! i) key" for j
    using assms(1,3) that by (auto simp: distinct_conv_nth)
  then have "index_of (\<lambda>r. dict_get r key = dict_get (rs ! i) key) rs = Some i"
    using assms(1) by (intro index_of_nth) auto
  then show ?thesis by (simp add: machine_refs_for_def assms(2) [symmetric] Let_def)
qed

definition VULNERABILITY_FIELDS :: "string list" where
  "VULNERABILITY_FIELDS = [''vulnerabilityId'', ''name'', ''description'', ''severity'', ''cvssV3'', ''exposedMachines'',
     ''publicExploit'', ''publishedOn'', ''updatedOn'']"

text \<open>
  C24. Exposure is a partition: with at least one vulnerability and no id twice, every machine of the estate is referenced by
  exactly one vulnerability, and the number of exposed machines each vulnerability answers is the length of the list of references it serves,
  so the numbers add up to the estate.
\<close>

theorem exposure_partition:
  fixes s :: db
  defines "vulns \<equiv> map fields_of (repo_list_all s ''mde_vulnerabilities'')"
    and "refs \<equiv> \<lambda>v. machine_refs_for ''mde_vulnerabilities'' ''vulnerabilityId'' (dict_get v ''vulnerabilityId'') s"
  assumes "vulns \<noteq> []" "distinct (map (\<lambda>v. dict_get v ''vulnerabilityId'') vulns)" "\<forall>v \<in> set vulns. map fst v = VULNERABILITY_FIELDS"
    and "distinct (map lower (dict_keys (fixtures ''vulnerability'')))"
  shows "mset (concat (map refs vulns)) = mset (map (\<lambda>m. machine_ref (fields_of m)) (repo_list_all s ''mde_machines'')) \<and>
    (\<forall>v \<in> set vulns.
       dict_get (with_exposed_count ''mde_vulnerabilities'' ''vulnerabilityId'' ''vulnerability'' fixtures s v) ''exposedMachines'' =
         VInt (int (length (refs v)))) \<and>
    sum_list (map (\<lambda>v. length (refs v)) vulns) = length (repo_list_all s ''mde_machines'')"
proof -
  let ?ms = "map fields_of (repo_list_all s ''mde_machines'')"
  let ?share = "\<lambda>i. filter (\<lambda>(j, machine). j mod length vulns = i) (enumerate 0 ?ms)"
  have "map refs vulns = map (\<lambda>i. refs (vulns ! i)) [0..<length vulns]"
    by (rule nth_equalityI) simp_all
  also have "\<dots> = map (\<lambda>i. map (\<lambda>(j, machine). machine_ref machine) (?share i)) [0..<length vulns]"
    using refs_of_nth [OF _ meta_eq_to_obj_eq [OF vulns_def] assms(4)] by (intro map_cong refl) (simp add: refs_def)
  finally have "concat (map refs vulns) = map (\<lambda>(j, machine). machine_ref machine) (concat (map ?share [0..<length vulns]))"
    by (simp add: map_concat comp_def)
  moreover have "mset (concat (map ?share [0..<length vulns])) = mset (enumerate 0 ?ms)"
  proof -
    have "(\<lambda>(j, machine :: jobj). j mod length vulns = i) = (\<lambda>p. fst p mod length vulns = i)" for i by auto
    then have cl: "?share = (\<lambda>i. filter (\<lambda>p. fst p mod length vulns = i) (enumerate 0 ?ms))" by simp
    show ?thesis unfolding cl mset_classes using assms(3) by (simp add: filter_mset_eq_conv)
  qed
  ultimately have "mset (concat (map refs vulns)) = image_mset (\<lambda>(j, machine). machine_ref machine) (mset (enumerate 0 ?ms))" by simp
  also have "\<dots> = mset (map (\<lambda>p. machine_ref (snd p)) (enumerate 0 ?ms))"
  proof -
    have "(\<lambda>(j :: nat, machine). machine_ref machine) = (\<lambda>p. machine_ref (snd p))" by auto
    then show ?thesis by simp
  qed
  also have "map (\<lambda>p. machine_ref (snd p)) (enumerate 0 ?ms) = map (\<lambda>m. machine_ref (fields_of m)) (repo_list_all s ''mde_machines'')"
    by (rule nth_equalityI) (simp_all add: nth_enumerate_eq)
  finally have part: "mset (concat (map refs vulns)) = mset (map (\<lambda>m. machine_ref (fields_of m)) (repo_list_all s ''mde_machines''))" .
  have "sum_list (map (\<lambda>v. length (refs v)) vulns) = length (concat (map refs vulns))" by (simp add: length_concat comp_def)
  also have "\<dots> = length (repo_list_all s ''mde_machines'')" using arg_cong [OF part, of size] by simp
  finally have total: "sum_list (map (\<lambda>v. length (refs v)) vulns) = length (repo_list_all s ''mde_machines'')" .
  have "dict_get (with_exposed_count ''mde_vulnerabilities'' ''vulnerabilityId'' ''vulnerability'' fixtures s v) ''exposedMachines'' =
      VInt (int (length (refs v)))" if "v \<in> set vulns" for v
  proof -
    let ?v = "AList.update ''exposedMachines'' (VInt (int (length (refs v)))) v"
    have f: "map fst v = VULNERABILITY_FIELDS" using assms(5) that by blast
    then have "''vulnerabilityId'' \<in> set (map fst v)" "''exposedMachines'' \<in> fst ` set v"
      by (simp_all add: VULNERABILITY_FIELDS_def flip: set_map)
    then obtain y where y: "map_of v ''vulnerabilityId'' = Some y" by (metis map_of_eq_None_iff not_None_eq list.set_map)
    have keys: "map fst ?v = VULNERABILITY_FIELDS" "get_or v ''vulnerabilityId'' (VStr []) = dict_get v ''vulnerabilityId''"
      using f \<open>''exposedMachines'' \<in> fst ` set v\<close> y by (simp_all add: keys_update get_or_def dict_get_def)
    have "distinct (map (\<lambda>k. lower (if k = ''vulnerabilityId'' then ''id'' else k)) (map fst ?v))" "''vulnerabilityId'' \<in> set (map fst ?v)"
      unfolding keys(1) by code_simp+
    from resource_scalar(1) [where fixtures = fixtures and entity = "''vulnerability''", OF assms(6) this(1) _ this(2), of "VInt (int (length (refs v)))"]
    show ?thesis by (simp add: with_exposed_count_def keys(2) refs_def is_scalar_def)
  qed
  then show ?thesis using part total by blast
qed
text \<open>An estate of two machines and three vulnerabilities.\<close>

definition estate :: db where
  "estate = init_store\<lparr>collections :=
     [(''mde_machines'', map (\<lambda>i. (i, VDict [(''machineId'', VStr i), (''computerDnsName'', VStr (''ws-'' @ i)),
          (''osPlatform'', VStr ''Linux''), (''rbacGroupName'', VStr [])])) [''m1'', ''m2'']),
      (''mde_vulnerabilities'', map (\<lambda>i. (i, VDict (map (\<lambda>k. (k, if k = ''vulnerabilityId'' then VStr i else VInt 0)) VULNERABILITY_FIELDS)))
          [''v1'', ''v2'', ''v3''])]\<rparr>"

lemma estate_lists:
  "map fields_of (repo_list_all estate ''mde_machines'') =
     map (\<lambda>i. [(''machineId'', VStr i), (''computerDnsName'', VStr (''ws-'' @ i)), (''osPlatform'', VStr ''Linux''), (''rbacGroupName'', VStr [])])
       [''m1'', ''m2'']"
  "map fields_of (repo_list_all estate ''mde_vulnerabilities'') =
     map (\<lambda>i. map (\<lambda>k. (k, if k = ''vulnerabilityId'' then VStr i else VInt 0)) VULNERABILITY_FIELDS) [''v1'', ''v2'', ''v3'']"
  by (simp_all add: estate_def repo_list_all_def store_get_all_def coll_def fields_of_def)

theorem exposure_partition_witness:
  "sum_list (map (\<lambda>v. length (machine_refs_for ''mde_vulnerabilities'' ''vulnerabilityId'' (dict_get v ''vulnerabilityId'') estate))
     (map fields_of (repo_list_all estate ''mde_vulnerabilities''))) = 2"
proof -
  let ?vs = "map fields_of (repo_list_all estate ''mde_vulnerabilities'')"
  have "?vs \<noteq> []" "distinct (map (\<lambda>v. dict_get v ''vulnerabilityId'') ?vs)" "\<forall>v \<in> set ?vs. map fst v = VULNERABILITY_FIELDS"
    unfolding estate_lists by (simp_all add: VULNERABILITY_FIELDS_def)
  from exposure_partition [OF this, of "\<lambda>_. []"]
  have "sum_list (map (\<lambda>v. length (machine_refs_for ''mde_vulnerabilities'' ''vulnerabilityId'' (dict_get v ''vulnerabilityId'') estate)) ?vs) =
      length (map fields_of (repo_list_all estate ''mde_machines''))" by simp
  then show ?thesis unfolding estate_lists(1) by simp
qed

text \<open>
  The two directions of the association disagree: the machine \<open>m1\<close> reports the vulnerability \<open>v3\<close>, whose references name no machine.
\<close>

lemma association_one_way:
  "[(''vulnerabilityId'', VStr ''v3'')] \<in> set (map (filter (\<lambda>(k, v). k = ''vulnerabilityId'')) (vulnerabilities_of ''m1'' estate))"
  "machine_refs_for ''mde_vulnerabilities'' ''vulnerabilityId'' (VStr ''v3'') estate = []"
  unfolding vulnerabilities_of_def machine_refs_for_def Let_def estate_lists by code_simp+

end
