(* ===== verification/Mde_Alerts.thy ===== *)
theory Mde_Alerts
  imports Mde_Catalogue
begin

text \<open>
  The Defender alerts, indicators and investigations: \<open>src/backend/application/mde_alerts\<close>,
  \<open>application/mde_indicators\<close> and \<open>application/mde_investigations\<close>. A request reads the clocks once and draws one id
  (\<open>mde_request\<close>). The enumerations an alert is ordered by are vendored data, the parameter \<open>enums\<close>.

  Shown here: a refused batch leaves every alert as it was, an accepted one changes exactly the named alerts; a batch
  deletion of indicators deletes exactly the named ones.
\<close>

section \<open>Updating alerts\<close>

datatype alert_stop = InvalidAlertUpdateError string string | Alert_raises exn

definition UPDATABLE :: "(string \<times> string list) list" where
  "UPDATABLE = [
     (''status'', [''New'', ''InProgress'', ''Resolved'']),
     (''classification'', [''TruePositive'', ''InformationalExpectedActivity'', ''FalsePositive'']),
     (''determination'', [''MultiStagedAttack'', ''MaliciousUserActivity'', ''CompromisedUser'', ''Malware'', ''Phishing'',
        ''UnwantedSoftware'', ''Other'', ''SecurityTesting'', ''LineOfBusinessApplication'',
        ''ConfirmedActivity'', ''ConfirmedUserActivity'', ''NotMalicious'', ''Clean'', ''InsufficientData''])]"

text \<open>A value that cannot be hashed is no member of a set: the test raises.\<close>

definition validate_field :: "jobj \<Rightarrow> string \<Rightarrow> string list \<Rightarrow> alert_stop + unit" where
  "validate_field body fld allowed =
     (let v = dict_get body fld
      in case v of
           VNone \<Rightarrow> Inr ()
         | VList _ \<Rightarrow> Inl (Alert_raises (TypeError ''unhashable type''))
         | VDict _ \<Rightarrow> Inl (Alert_raises (TypeError ''unhashable type''))
         | _ \<Rightarrow> (if v \<in> VStr ` set allowed then Inr ()
                else Inl (InvalidAlertUpdateError ''InvalidRequestBody''
                   (''Invalid request body. '' @ fld @ '' '' @ [CHR 0x27] @ py_str v @ [CHR 0x27] @ '' is not one of '' @
                    join '', '' (sort allowed) @ ''.''))))"

fun validate_fields :: "jobj \<Rightarrow> (string \<times> string list) list \<Rightarrow> alert_stop + unit" where
  "validate_fields body [] = Inr ()"
| "validate_fields body ((fld, allowed) # others) =
     (case validate_field body fld allowed of Inl e \<Rightarrow> Inl e | Inr u \<Rightarrow> validate_fields body others)"

definition validate_alert_update :: "jobj \<Rightarrow> alert_stop + unit" where
  "validate_alert_update body = validate_fields body UPDATABLE"

definition set_given :: "jobj \<Rightarrow> string \<Rightarrow> jobj \<Rightarrow> jobj" where
  "set_given body fld alert = (case map_of body fld of None \<Rightarrow> alert | Some v \<Rightarrow> AList.update fld v alert)"

definition add_comment :: "string \<Rightarrow> jobj \<Rightarrow> jobj \<Rightarrow> jobj" where
  "add_comment now body alert =
     (case map_of body ''comment'' of
        None \<Rightarrow> alert
      | Some c \<Rightarrow>
          AList.update ''comments''
            (VList ((case dict_get alert ''comments'' of VList cs \<Rightarrow> cs | _ \<Rightarrow> []) @
               [VDict [(''comment'', c), (''createdBy'', get_or body ''assignedTo'' (VStr ''analyst@acmecorp.internal'')),
                       (''createdTime'', VStr now)]])) alert)"

text \<open>The alert after an update whose values are allowed.\<close>

definition updated_alert :: "string \<Rightarrow> jobj \<Rightarrow> jobj \<Rightarrow> jobj" where
  "updated_alert now body alert =
     (let set_all = set_given body ''assignedTo'' (set_given body ''determination''
            (set_given body ''classification'' (set_given body ''status'' alert)));
          stamped = AList.update ''lastUpdateTime'' (VStr now) (add_comment now body set_all)
      in if dict_get stamped ''status'' = VStr ''Resolved'' \<and> \<not> truthy (dict_get stamped ''resolvedTime'')
         then AList.update ''resolvedTime'' (VStr now) stamped else stamped)"

definition mde_alert_key :: "jobj \<Rightarrow> string" where
  "mde_alert_key alert = py_str (dict_get alert ''alertId'')"

definition mde_alert_save :: "jobj \<Rightarrow> db \<Rightarrow> db" where
  "mde_alert_save alert s = repo_save_raw s ''mde_alerts'' (mde_alert_key alert) (VDict alert)"

definition mde_alert_resource :: "(string \<Rightarrow> jobj) \<Rightarrow> jobj \<Rightarrow> jobj" where
  "mde_alert_resource fixtures rec = complete_mde fixtures (to_mde_resource rec ''alertId'') ''alert''"

definition mde_update_alert :: "mde_request \<Rightarrow> string \<Rightarrow> jobj \<Rightarrow> world \<Rightarrow> (alert_stop + jobj option) \<times> world" where
  "mde_update_alert q alert_id body w =
     (case validate_alert_update body of
        Inl e \<Rightarrow> (Inl e, w)
      | Inr u \<Rightarrow>
          (case repo_find (wdb w) ''mde_alerts'' alert_id of
             None \<Rightarrow> (Inr None, w)
           | Some alert \<Rightarrow>
               (let alert' = updated_alert (utc_now (req_now q)) body alert
                in (Inr (Some (mde_alert_resource (fixture q) alert')),
                    mde_alert_changed (req_clock q) alert' (on_db (mde_alert_save alert') w)))))"

definition MdeAlert :: "string \<Rightarrow> string \<Rightarrow> jobj \<Rightarrow> jobj" where
  "MdeAlert alert_id now body =
     [(''alertId'', VStr alert_id), (''title'', get_or body ''title'' (VStr ''Custom Alert'')),
      (''description'', get_or body ''description'' (VStr [])), (''severity'', get_or body ''severity'' (VStr ''Medium'')),
      (''status'', VStr ''New''), (''classification'', VStr []), (''determination'', VStr []), (''assignedTo'', VStr []),
      (''machineId'', get_or body ''machineId'' (VStr [])), (''computerDnsName'', VStr []), (''rbacGroupName'', VStr []),
      (''incidentId'', VInt 0), (''investigationId'', VInt 0), (''investigationState'', VStr []),
      (''category'', get_or body ''category'' (VStr ''SuspiciousActivity'')),
      (''detectionSource'', get_or body ''detectionSource'' (VStr ''CustomDetection'')),
      (''threatName'', get_or body ''threatName'' (VStr [])), (''threatFamilyName'', get_or body ''threatFamilyName'' (VStr [])),
      (''alertCreationTime'', VStr now), (''lastUpdateTime'', VStr now), (''resolvedTime'', VStr []),
      (''firstEventTime'', get_or body ''eventTime'' (VStr now)), (''lastEventTime'', get_or body ''eventTime'' (VStr now)),
      (''comments'', VList []), (''evidence'', VList [])]"

definition create_alert_by_reference :: "mde_request \<Rightarrow> jobj \<Rightarrow> world \<Rightarrow> jobj \<times> world" where
  "create_alert_by_reference q body w =
     (let alert = MdeAlert (drawn_id q) (utc_now (req_now q)) body; answer = to_mde_resource alert ''alertId''
      in (answer, publish_event (event_of MdeAlertCreated (drawn_id q) answer (req_clock q)) (on_db (mde_alert_save alert) w)))"

fun update_each :: "mde_request \<Rightarrow> jobj \<Rightarrow> pyval list \<Rightarrow> world \<Rightarrow> (alert_stop + unit) \<times> world" where
  "update_each q body [] w = (Inr (), w)"
| "update_each q body (i # is) w =
     (let (out, w') = mde_update_alert q (py_str i) body w
      in case out of Inl e \<Rightarrow> (Inl e, w') | Inr a \<Rightarrow> update_each q body is w')"

definition batch_update_alerts :: "mde_request \<Rightarrow> jobj \<Rightarrow> world \<Rightarrow> (alert_stop + unit) \<times> world" where
  "batch_update_alerts q body w =
     (case dict_get body ''alertIds'' of
        VList (i # is) \<Rightarrow>
          (case validate_alert_update body of Inl e \<Rightarrow> (Inl e, w) | Inr u \<Rightarrow> update_each q body (i # is) w)
      | _ \<Rightarrow> (Inl (InvalidAlertUpdateError ''MissingRequiredParameter'' ''Parameter alertIds is missing.''), w))"

section \<open>Listing alerts\<close>

definition list_alerts ::
  "(string \<Rightarrow> jobj) \<Rightarrow> (string \<times> string list) list \<Rightarrow> string option \<Rightarrow> string option \<Rightarrow> int \<Rightarrow> int \<Rightarrow> string option \<Rightarrow>
    string option \<Rightarrow> bool \<Rightarrow> db \<Rightarrow> odata_failure + pyval" where
  "list_alerts fixtures enums request_url filter_str page_size skip orderby select counted s =
     map_sum id
       (odata_listing request_url (\<lambda>page. apply_odata_select (map (\<lambda>r. complete_mde fixtures r ''alert'') page) select)
          ''Alerts'' ''alerts'' page_size skip counted)
       (odata_selected (map (\<lambda>a. to_mde_resource (fields_of a) ''alertId'') (repo_list_all s ''mde_alerts'')) filter_str orderby enums)"

definition get_alert :: "(string \<Rightarrow> jobj) \<Rightarrow> string \<Rightarrow> db \<Rightarrow> jobj option" where
  "get_alert fixtures alert_id s = map_option (mde_alert_resource fixtures) (repo_find s ''mde_alerts'' alert_id)"

section \<open>Indicators\<close>

definition MdeIndicator :: "string \<Rightarrow> string \<Rightarrow> jobj \<Rightarrow> jobj" where
  "MdeIndicator indicator_id now body =
     (let g = get_or body; by = g ''createdBy'' (VStr ''analyst@acmecorp.internal'')
      in [(''indicatorId'', VStr indicator_id), (''indicatorValue'', g ''indicatorValue'' (VStr [])),
          (''indicatorType'', g ''indicatorType'' (VStr [])), (''action'', g ''action'' (VStr ''Alert'')),
          (''severity'', g ''severity'' (VStr ''Medium'')), (''title'', g ''title'' (VStr [])),
          (''description'', g ''description'' (VStr [])), (''recommendedActions'', g ''recommendedActions'' (VStr [])),
          (''rbacGroupNames'', g ''rbacGroupNames'' (VList [])), (''generateAlert'', g ''generateAlert'' (VBool True)),
          (''createdBy'', by), (''createdByDisplayName'', g ''createdByDisplayName'' (VStr [])),
          (''createdBySource'', g ''createdBySource'' (VStr ''User'')), (''creationTimeDateTimeUtc'', VStr now),
          (''expirationTime'', g ''expirationTime'' (VStr [])), (''lastUpdatedBy'', by), (''lastUpdateTime'', VStr now)])"

definition indicator_key :: "jobj \<Rightarrow> string" where
  "indicator_key indicator = py_str (dict_get indicator ''indicatorId'')"

definition indicator_resource :: "(string \<Rightarrow> jobj) \<Rightarrow> jobj \<Rightarrow> jobj" where
  "indicator_resource fixtures rec = complete_mde fixtures (to_mde_resource rec ''indicatorId'') ''indicator''"

definition create_indicator :: "mde_request \<Rightarrow> jobj \<Rightarrow> db \<Rightarrow> jobj \<times> db" where
  "create_indicator q body s =
     (let indicator = MdeIndicator (drawn_id q) (utc_now (req_now q)) body
      in (indicator_resource (fixture q) indicator, repo_save_raw s ''mde_indicators'' (indicator_key indicator) (VDict indicator)))"

definition delete_indicator :: "string \<Rightarrow> db \<Rightarrow> db \<times> bool" where
  "delete_indicator indicator_id s = repo_delete s ''mde_indicators'' indicator_id"

text \<open>What a \<open>for\<close> runs over, and \<open>x in container\<close>, for a JSON value.\<close>

definition iter_values :: "pyval \<Rightarrow> pyval list result" where
  "iter_values v =
     (case v of VList vs \<Rightarrow> Inr vs | VStr t \<Rightarrow> Inr (map (\<lambda>c. VStr [c]) t) | VDict d \<Rightarrow> Inr (map (\<lambda>(k, u). VStr k) d)
      | _ \<Rightarrow> Inl (TypeError ''not iterable''))"

definition contained_in :: "pyval \<Rightarrow> pyval \<Rightarrow> bool result" where
  "contained_in x container =
     (case container of
        VList vs \<Rightarrow> Inr (list_ex (py_eq x) vs)
      | VStr t \<Rightarrow> (case x of VStr u \<Rightarrow> Inr (str_in u t) | _ \<Rightarrow> Inl (TypeError ''requires string as left operand''))
      | VDict d \<Rightarrow> (case x of VList _ \<Rightarrow> Inl (TypeError ''unhashable type'') | VDict _ \<Rightarrow> Inl (TypeError ''unhashable type'')
                   | _ \<Rightarrow> Inr (list_ex (\<lambda>(k, v). x = VStr k) d))
      | _ \<Rightarrow> Inl (TypeError ''not a container''))"

fun delete_matching :: "pyval \<Rightarrow> string list \<Rightarrow> jobj list \<Rightarrow> nat \<Rightarrow> db \<Rightarrow> nat result \<times> db" where
  "delete_matching values_named ids [] deleted s = (Inr deleted, s)"
| "delete_matching values_named ids (x # xs) deleted s =
     (case contained_in (dict_get x ''indicatorValue'') values_named of
        Inl e \<Rightarrow> (Inl e, s)
      | Inr hit \<Rightarrow>
          (if hit \<or> indicator_key x \<in> set ids
           then delete_matching values_named ids xs (Suc deleted) (fst (repo_delete s ''mde_indicators'' (indicator_key x)))
           else delete_matching values_named ids xs deleted s))"

definition batch_update_indicators :: "jobj \<Rightarrow> db \<Rightarrow> pyval result \<times> db" where
  "batch_update_indicators body s =
     (case iter_values (get_or body ''IndicatorIds'' (VList [])) of
        Inl e \<Rightarrow> (Inl e, s)
      | Inr ids \<Rightarrow>
          (let (out, s') = delete_matching (get_or body ''indicatorValues'' (VList [])) (map py_str ids)
                             (map fields_of (repo_list_all s ''mde_indicators'')) 0 s
           in (map_sum id (\<lambda>n. VDict [(''value'', VInt (int n))]) out, s')))"

definition list_indicators ::
  "(string \<Rightarrow> jobj) \<Rightarrow> string option \<Rightarrow> string option \<Rightarrow> int \<Rightarrow> int \<Rightarrow> string option \<Rightarrow> string option \<Rightarrow> db \<Rightarrow> odata_failure + pyval" where
  "list_indicators fixtures request_url filter_str page_size skip orderby select s =
     map_sum id (odata_listing request_url (\<lambda>page. apply_odata_select page select) ''Indicators'' ''indicators'' page_size skip False)
       (odata_selected (map (\<lambda>v. indicator_resource fixtures (fields_of v)) (repo_list_all s ''mde_indicators'')) filter_str orderby [])"

section \<open>Investigations\<close>

definition investigation_resource :: "(string \<Rightarrow> jobj) \<Rightarrow> jobj \<Rightarrow> jobj" where
  "investigation_resource fixtures rec = complete_mde fixtures (to_mde_resource rec ''investigationId'') ''investigation''"

definition list_investigations ::
  "(string \<Rightarrow> jobj) \<Rightarrow> string option \<Rightarrow> string option \<Rightarrow> int \<Rightarrow> int \<Rightarrow> string option \<Rightarrow> db \<Rightarrow> odata_failure + pyval" where
  "list_investigations fixtures request_url filter_str page_size skip orderby s =
     map_sum id (odata_listing request_url id ''Investigations'' ''investigations'' page_size skip False)
       (odata_selected (map (\<lambda>v. investigation_resource fixtures (fields_of v)) (repo_list_all s ''mde_investigations'')) filter_str orderby [])"

definition get_investigation :: "(string \<Rightarrow> jobj) \<Rightarrow> string \<Rightarrow> db \<Rightarrow> jobj option" where
  "get_investigation fixtures investigation_id s =
     map_option (investigation_resource fixtures) (repo_find s ''mde_investigations'' investigation_id)"

section \<open>Batches\<close>

lemma updated_alert_key [simp]: "mde_alert_key (updated_alert now body alert) = mde_alert_key alert"
  by (simp add: mde_alert_key_def updated_alert_def set_given_def add_comment_def Let_def split: option.split)

lemma mde_update_alert_get:
  assumes "validate_alert_update body = Inr ()" "keyed_by mde_alert_key (wdb w) ''mde_alerts''"
    and "mde_update_alert q i body w = (out, w')"
  shows "(\<exists>a. out = Inr a) \<and> keyed_by mde_alert_key (wdb w') ''mde_alerts'' \<and>
    repo_get (wdb w') c j =
      (if c = ''mde_alerts'' \<and> j = i then map_option (\<lambda>v. VDict (updated_alert (utc_now (req_now q)) body (fields_of v))) (repo_get (wdb w) c j)
       else repo_get (wdb w) c j)"
proof (cases "repo_get (wdb w) ''mde_alerts'' i")
  case None
  then show ?thesis using assms by (auto simp: mde_update_alert_def repo_find_def)
next
  case (Some v)
  then obtain a where a: "v = VDict a" "mde_alert_key a = i" using assms(2) unfolding keyed_by_def by blast
  let ?a = "updated_alert (utc_now (req_now q)) body a"
  have w': "wdb w' = repo_save_raw (wdb w) ''mde_alerts'' i (VDict ?a)" "\<exists>a. out = Inr a"
    using assms(1,3) Some a by (auto simp: mde_update_alert_def repo_find_def fields_of_def mde_alert_save_def mde_alert_changed_def Let_def)
  have "keyed_by mde_alert_key (wdb w') ''mde_alerts''"
    unfolding w'(1) using assms(2) Some a(2) by (intro keyed_by_save) simp_all
  moreover have "repo_get (wdb w') c j = (if c = ''mde_alerts'' \<and> j = i then Some (VDict ?a) else repo_get (wdb w) c j)"
    unfolding w'(1) using Some by (simp add: repo_update)
  ultimately show ?thesis using w'(2) Some a(1) by (simp add: fields_of_def)
qed

lemma update_each_get:
  assumes "validate_alert_update body = Inr ()" "keyed_by mde_alert_key (wdb w) ''mde_alerts''" "update_each q body ids w = (out, w')"
  shows "out = Inr () \<and>
    repo_get (wdb w') ''mde_alerts'' i =
      map_option (\<lambda>v. VDict ((updated_alert (utc_now (req_now q)) body ^^ count_list (map py_str ids) i) (fields_of v)))
        (repo_get (wdb w) ''mde_alerts'' i) \<and>
    (c \<noteq> ''mde_alerts'' \<longrightarrow> repo_get (wdb w') c i = repo_get (wdb w) c i)"
  using assms
proof (induction ids arbitrary: w)
  case Nil
  have "v = VDict (fields_of v)" if found: "repo_get (wdb w) ''mde_alerts'' i = Some v" for v
  proof -
    obtain r where "v = VDict r" using Nil.prems(2) found unfolding keyed_by_def by blast
    then show ?thesis by (simp add: fields_of_def)
  qed
  then show ?case using Nil.prems(3) by (cases "repo_get (wdb w) ''mde_alerts'' i") auto
next
  case (Cons x ids)
  obtain o1 w1 where one: "mde_update_alert q (py_str x) body w = (o1, w1)" by fastforce
  note step = mde_update_alert_get [OF assms(1) Cons.prems(2) one]
  from step obtain a where "o1 = Inr a" by blast
  then have rest: "update_each q body ids w1 = (out, w')" using Cons.prems(3) one by simp
  from step have k: "keyed_by mde_alert_key (wdb w1) ''mde_alerts''" by blast
  note ih = Cons.IH [OF assms(1) k rest]
  show ?case using ih step [of "''mde_alerts''" i] step [of c i]
    by (cases "repo_get (wdb w) ''mde_alerts'' i") (auto simp: fields_of_def funpow_swap1)
qed

text \<open>
  C25. A batch of alert updates: refused, it leaves the store, the events and the queue as they were, so no alert carries half of it;
  accepted, every alert has been updated once for each time the list names it, and no other alert and no other collection has changed.
\<close>

theorem batch_update_exact:
  assumes "keyed_by mde_alert_key (wdb w) ''mde_alerts''" "dict_get body ''alertIds'' = VList ids"
    and "batch_update_alerts q body w = (out, w')"
  shows "(out \<noteq> Inr () \<longrightarrow> w' = w) \<and> (out = Inr () \<longleftrightarrow> ids \<noteq> [] \<and> validate_alert_update body = Inr ()) \<and>
    (out = Inr () \<longrightarrow>
       (\<forall>i. repo_get (wdb w') ''mde_alerts'' i =
          map_option (\<lambda>v. VDict ((updated_alert (utc_now (req_now q)) body ^^ count_list (map py_str ids) i) (fields_of v)))
            (repo_get (wdb w) ''mde_alerts'' i)) \<and>
       (\<forall>c i. c \<noteq> ''mde_alerts'' \<longrightarrow> repo_get (wdb w') c i = repo_get (wdb w) c i))"
proof (cases "ids = [] \<or> validate_alert_update body \<noteq> Inr ()")
  case True
  then show ?thesis using assms(2,3)
    by (cases ids; cases "validate_alert_update body") (auto simp: batch_update_alerts_def)
next
  case False
  then obtain x xs where ids: "ids = x # xs" and ok: "validate_alert_update body = Inr ()" by (cases ids) auto
  then have each: "update_each q body ids w = (out, w')" using assms(2,3) by (simp add: batch_update_alerts_def)
  show ?thesis using update_each_get [OF ok assms(1) each] False by blast
qed

theorem batch_update_exact_witness:
  "\<exists>w' a. batch_update_alerts (demo_request 0) [(''alertIds'', VList [VStr ''x1'']), (''status'', VStr ''Resolved'')]
       \<lparr>wdb = repo_save_raw init_store ''mde_alerts'' ''x1'' (VDict [(''alertId'', VStr ''x1'')]), published = [], queued = []\<rparr> = (Inr (), w') \<and>
     repo_get (wdb w') ''mde_alerts'' ''x1'' = Some (VDict a) \<and> dict_get a ''status'' = VStr ''Resolved''"
proof -
  let ?body = "[(''alertIds'', VList [VStr ''x1'']), (''status'', VStr ''Resolved'')]"
  let ?w = "\<lparr>wdb = repo_save_raw init_store ''mde_alerts'' ''x1'' (VDict [(''alertId'', VStr ''x1'')]), published = [], queued = []\<rparr> :: world"
  have c: "''mde_alerts'' \<in> set collection_names" "map_of caps ''mde_alerts'' = None" by (simp_all add: collection_names_def caps_def)
  then have get: "repo_get (wdb ?w) ''mde_alerts'' i = (if i = ''x1'' then Some (VDict [(''alertId'', VStr ''x1'')]) else None)" for i
    by (simp add: repo_save_uncapped store_inv_init)
  have k: "keyed_by mde_alert_key (wdb ?w) ''mde_alerts''" by (simp add: keyed_by_def get mde_alert_key_def del: world.simps)
  obtain o1 w' where b: "batch_update_alerts (demo_request 0) ?body ?w = (o1, w')" by fastforce
  have "dict_get ?body ''alertIds'' = VList [VStr ''x1'']" by simp
  note exact = batch_update_exact [OF k this b]
  have "validate_alert_update ?body = Inr ()" by code_simp
  with exact have o: "o1 = Inr ()" by simp
  have upd: "dict_get (updated_alert now ?body a) ''status'' = VStr ''Resolved''" for now a
    by (simp add: updated_alert_def set_given_def add_comment_def Let_def)
  have "repo_get (wdb w') ''mde_alerts'' ''x1'' =
      Some (VDict (updated_alert (utc_now (req_now (demo_request 0))) ?body (fields_of (VDict [(''alertId'', VStr ''x1'')]))))"
    using exact o get [of "''x1''"] by simp
  then show ?thesis using b o upd by blast
qed

section \<open>Deleting indicators\<close>

lemma delete_matching_lists:
  assumes "store_inv s" "distinct (map indicator_key xs)"
  shows "\<exists>s'. delete_matching (VList vs) ids xs n s =
      (Inr (n + length (filter (\<lambda>x. list_ex (py_eq (dict_get x ''indicatorValue'')) vs \<or> indicator_key x \<in> set ids) xs)), s') \<and>
    (\<forall>c i. repo_get s' c i =
       (if c = ''mde_indicators'' \<and> (\<exists>x \<in> set xs. indicator_key x = i \<and>
            (list_ex (py_eq (dict_get x ''indicatorValue'')) vs \<or> indicator_key x \<in> set ids)) then None
        else repo_get s c i))"
  using assms
proof (induction xs arbitrary: n s)
  case (Cons x xs)
  have c: "''mde_indicators'' \<in> set collection_names" by (simp add: collection_names_def)
  let ?hit = "list_ex (py_eq (dict_get x ''indicatorValue'')) vs \<or> indicator_key x \<in> set ids"
  show ?case
  proof (cases ?hit)
    case True
    let ?s = "fst (repo_delete s ''mde_indicators'' (indicator_key x))"
    from Cons.prems have "store_inv ?s" "distinct (map indicator_key xs)" by simp_all
    from Cons.IH [OF this, of "Suc n"] obtain s' where s': "delete_matching (VList vs) ids xs (Suc n) ?s =
        (Inr (Suc n + length (filter (\<lambda>x. list_ex (py_eq (dict_get x ''indicatorValue'')) vs \<or> indicator_key x \<in> set ids) xs)), s')"
      "\<And>c i. repo_get s' c i = (if c = ''mde_indicators'' \<and> (\<exists>x \<in> set xs. indicator_key x = i \<and>
            (list_ex (py_eq (dict_get x ''indicatorValue'')) vs \<or> indicator_key x \<in> set ids)) then None else repo_get ?s c i)" by blast
    show ?thesis using s' True repo_delete_get [OF Cons.prems(1) c, of "indicator_key x"]
      by (intro exI [of _ s']) (auto simp: contained_in_def)
  next
    case False
    from Cons.prems have "distinct (map indicator_key xs)" by simp
    from Cons.IH [OF Cons.prems(1) this, of n] show ?thesis using False by (auto simp: contained_in_def)
  qed
qed simp

lemma keyed_by_key: "keyed_by key s c \<Longrightarrow> repo_get s c i = Some (VDict r) \<Longrightarrow> key r = i"
  unfolding keyed_by_def by (drule spec [where x = i], drule spec [where x = "VDict r"]) simp

text \<open>
  A batch deletion of indicators, by value or by id, removes exactly the indicators it names, counts them, and leaves every
  other record of the store as it was.
\<close>

theorem batch_delete_exact:
  fixes s :: db
  defines "named \<equiv> \<lambda>vs ids x. list_ex (py_eq (dict_get x ''indicatorValue'')) vs \<or> indicator_key x \<in> set (map py_str ids)"
  assumes "store_inv s" "keyed_by indicator_key s ''mde_indicators''"
    and "get_or body ''indicatorValues'' (VList []) = VList vs" "get_or body ''IndicatorIds'' (VList []) = VList ids"
  shows "\<exists>s'. batch_update_indicators body s =
      (Inr (VDict [(''value'', VInt (int (length (filter (named vs ids) (map fields_of (repo_list_all s ''mde_indicators''))))))]), s') \<and>
    (\<forall>c i. repo_get s' c i =
       (if c = ''mde_indicators'' \<and> (\<exists>x. repo_get s c i = Some (VDict x) \<and> named vs ids x) then None else repo_get s c i))"
proof -
  let ?xs = "map fields_of (repo_list_all s ''mde_indicators'')"
  note l = keyed_by_list [OF assms(2,3)]
  obtain s' where s': "delete_matching (VList vs) (map py_str ids) ?xs 0 s = (Inr (length (filter (named vs ids) ?xs)), s')"
    "\<And>c i. repo_get s' c i = (if c = ''mde_indicators'' \<and> (\<exists>x \<in> set ?xs. indicator_key x = i \<and> named vs ids x) then None else repo_get s c i)"
    using delete_matching_lists [OF assms(2) l(1), of vs "map py_str ids" 0] unfolding named_def by auto
  have key: "indicator_key x = i" if "repo_get s ''mde_indicators'' i = Some (VDict x)" for i x
    by (rule keyed_by_key [OF assms(3) that])
  have "(\<exists>x \<in> set ?xs. indicator_key x = i \<and> P x) \<longleftrightarrow> (\<exists>x. repo_get s ''mde_indicators'' i = Some (VDict x) \<and> P x)" for i P
  proof
    assume "\<exists>x \<in> set ?xs. indicator_key x = i \<and> P x"
    then obtain x where x: "x \<in> set ?xs" "indicator_key x = i" "P x" by blast
    then show "\<exists>x. repo_get s ''mde_indicators'' i = Some (VDict x) \<and> P x" using l(2) [of x] by auto
  next
    assume "\<exists>x. repo_get s ''mde_indicators'' i = Some (VDict x) \<and> P x"
    then obtain x where x: "repo_get s ''mde_indicators'' i = Some (VDict x)" "P x" by blast
    then have "x \<in> set ?xs" using l(2) [of x] key by simp
    then show "\<exists>x \<in> set ?xs. indicator_key x = i \<and> P x" using x key by blast
  qed
  then have "repo_get s' c i =
      (if c = ''mde_indicators'' \<and> (\<exists>x. repo_get s c i = Some (VDict x) \<and> named vs ids x) then None else repo_get s c i)" for c i
    using s'(2) [of c i] by auto
  then show ?thesis using s'(1) assms(4,5)
    by (intro exI [of _ s']) (simp add: batch_update_indicators_def iter_values_def comp_def)
qed

theorem batch_delete_exact_witness:
  "\<exists>s'. batch_update_indicators [(''IndicatorIds'', VList [VStr ''i1''])]
       (repo_save_raw init_store ''mde_indicators'' ''i1'' (VDict [(''indicatorId'', VStr ''i1'')])) =
     (Inr (VDict [(''value'', VInt 1)]), s') \<and> repo_get s' ''mde_indicators'' ''i1'' = None"
proof -
  let ?x = "[(''indicatorId'', VStr ''i1'')]"
  let ?s = "repo_save_raw init_store ''mde_indicators'' ''i1'' (VDict ?x)" and ?body = "[(''IndicatorIds'', VList [VStr ''i1''])]"
  have c: "''mde_indicators'' \<in> set collection_names" "map_of caps ''mde_indicators'' = None" by (simp_all add: collection_names_def caps_def)
  then have get: "repo_get ?s ''mde_indicators'' i = (if i = ''i1'' then Some (VDict ?x) else None)" for i
    by (simp add: repo_save_uncapped store_inv_init)
  have inv: "store_inv ?s" by (simp add: store_inv_init)
  have k: "keyed_by indicator_key ?s ''mde_indicators''" by (simp add: keyed_by_def get indicator_key_def)
  have all: "repo_list_all ?s ''mde_indicators'' = [VDict ?x]"
    using c by (simp add: repo_list_all_def store_get_all_def repo_save_raw_def store_save_def coll_init evict_def)
  have "get_or ?body ''indicatorValues'' (VList []) = VList []" "get_or ?body ''IndicatorIds'' (VList []) = VList [VStr ''i1'']"
    by (simp_all add: get_or_def)
  from batch_delete_exact [OF inv k this] show ?thesis unfolding all by (auto simp: get indicator_key_def fields_of_def)
qed

end
