(* ===== verification/Py_Arith.thy ===== *)
theory Py_Arith
  imports Py_Json
begin

text \<open>
  Arithmetic on Python's \<open>float\<close>: correctly rounded sums and quotients, \<open>sum\<close> with the compensation CPython applies since
  3.12 (the version of the repository's image), \<open>min\<close>, \<open>max\<close> and \<open>round(x, 6)\<close>.
\<close>

section \<open>Arithmetic\<close>

fun fl_neg :: "pyfloat \<Rightarrow> pyfloat" where
  "fl_neg (Fin a) = Fin (- a)"
| "fl_neg PosInf = NegInf"
| "fl_neg NegInf = PosInf"
| "fl_neg NaN = NaN"

fun fl_abs :: "pyfloat \<Rightarrow> pyfloat" where
  "fl_abs (Fin a) = Fin \<bar>a\<bar>"
| "fl_abs NaN = NaN"
| "fl_abs _ = PosInf"

fun fl_add :: "pyfloat \<Rightarrow> pyfloat \<Rightarrow> pyfloat" where
  "fl_add (Fin a) (Fin b) = round_double (a + b)"
| "fl_add NaN _ = NaN"
| "fl_add _ NaN = NaN"
| "fl_add PosInf NegInf = NaN"
| "fl_add NegInf PosInf = NaN"
| "fl_add (Fin _) b = b"
| "fl_add a _ = a"

definition fl_sub :: "pyfloat \<Rightarrow> pyfloat \<Rightarrow> pyfloat" where
  "fl_sub a b = fl_add a (fl_neg b)"

text \<open>Division by a positive count.\<close>

fun fl_div_nat :: "pyfloat \<Rightarrow> nat \<Rightarrow> pyfloat" where
  "fl_div_nat (Fin a) n = round_double (a / of_nat n)"
| "fl_div_nat a n = a"

text \<open>\<open>sum(xs)\<close> of floats: the first is added to the integer 0, the rest with Neumaier's compensation \<open>c\<close>.\<close>

definition sum_step :: "pyfloat \<times> pyfloat \<Rightarrow> pyfloat \<Rightarrow> pyfloat \<times> pyfloat" where
  "sum_step st x =
     (let (f, c) = st; t = fl_add f x
      in (t, fl_add c (if fl_le (fl_abs x) (fl_abs f) then fl_add (fl_sub f t) x else fl_add (fl_sub x t) f)))"

definition fl_sum :: "pyfloat list \<Rightarrow> pyfloat" where
  "fl_sum xs =
     (case xs of
        [] \<Rightarrow> Fin 0
      | x # ys \<Rightarrow>
          (let (f, c) = foldl sum_step (x, Fin 0) ys
           in case c of Fin q \<Rightarrow> if q = 0 then f else fl_add f c | _ \<Rightarrow> f))"

text \<open>\<open>min(xs)\<close> and \<open>max(xs)\<close> keep the first extreme element.\<close>

definition fl_min :: "pyfloat \<Rightarrow> pyfloat list \<Rightarrow> pyfloat" where
  "fl_min x ys = foldl (\<lambda>m y. if fl_less y m then y else m) x ys"

definition fl_max :: "pyfloat \<Rightarrow> pyfloat list \<Rightarrow> pyfloat" where
  "fl_max x ys = foldl (\<lambda>m y. if fl_less m y then y else m) x ys"

section \<open>Rounding and text\<close>

text \<open>\<open>repr\<close> of a value whose sign is known: the model of a double has one zero.\<close>

definition signed_repr :: "bool \<Rightarrow> pyfloat \<Rightarrow> string" where
  "signed_repr negative f = (if negative \<and> f = Fin 0 then ''-0.0'' else float_repr f)"

text \<open>\<open>round(x, 6)\<close>: the exact value to six places, ties to even, read back as a double.\<close>

definition round6 :: "rat \<Rightarrow> pyfloat" where
  "round6 q = round_double (of_int (round_half_even (q * 1000000)) / 1000000)"

end
