(* ===== verification/Kql.thy ===== *)
theory Kql
  imports Py_Arith Py_Sort Py_Format
begin

text \<open>
  The hunting query language: \<open>src/backend/utils/mde_kql.py\<close>, with \<open>src/backend/utils/safe_regex.py\<close>. The predicate
  parser of the source builds closures, so the parser here returns functions on rows; the regular expressions of the
  tokeniser and of the aggregations are written out, the text outside quotes being ASCII. Python's \<open>re\<close> is a parameter:
  the parse tree of a pattern and the search for it. The clock is read once per query, an argument. The interpreter's own
  recursion limit (a chain of about a thousand operands) and the wording of an \<open>OverflowError\<close> are not modelled.

  Shown here: a printed filter is read back as the predicate it describes; an operator keeps the columns of
  a table uniform and decides them by itself; \<open>summarize\<close> partitions the rows; the operators that choose rows invent none.
\<close>

section \<open>Failures, values and the regular expressions of \<open>re\<close>\<close>

datatype kql_failure = KqlError string | Kql_raises exn | Re_error | Kql_fuel

type_synonym 'a kql = "kql_failure + 'a"

text \<open>An operand's value: that of a column or literal, or an instant as local time and offset.\<close>

datatype kval = KV pyval | KT int int

text \<open>The nodes of \<open>re._parser\<close> that \<open>safe_regex\<close> tells apart; the flag of a repeat is whether it is unbounded.\<close>

datatype re_node =
    Re_char
  | Re_repeat bool "re_node list"
  | Re_sub "re_node list"
  | Re_branch "re_node list list"
  | Re_other

record regex_engine =
  sre_parse :: "string \<Rightarrow> re_node list option"
  re_search :: "string \<Rightarrow> string \<Rightarrow> bool option"

fun has_unbounded_repeat :: "re_node \<Rightarrow> bool" where
  "has_unbounded_repeat (Re_repeat unbounded body) \<longleftrightarrow> unbounded \<or> list_ex has_unbounded_repeat body"
| "has_unbounded_repeat (Re_sub body) \<longleftrightarrow> list_ex has_unbounded_repeat body"
| "has_unbounded_repeat (Re_branch bs) \<longleftrightarrow> list_ex (list_ex has_unbounded_repeat) bs"
| "has_unbounded_repeat _ \<longleftrightarrow> False"

fun required_boundary :: "re_node \<Rightarrow> bool" where
  "required_boundary Re_char \<longleftrightarrow> True"
| "required_boundary (Re_sub body) \<longleftrightarrow> list_ex required_boundary body"
| "required_boundary _ \<longleftrightarrow> False"

fun nests_unbounded :: "re_node \<Rightarrow> bool" where
  "nests_unbounded (Re_repeat unbounded body) \<longleftrightarrow>
     unbounded \<and> list_ex has_unbounded_repeat body \<and> \<not> list_ex required_boundary body \<or> list_ex nests_unbounded body"
| "nests_unbounded (Re_sub body) \<longleftrightarrow> list_ex nests_unbounded body"
| "nests_unbounded (Re_branch bs) \<longleftrightarrow> list_ex (list_ex nests_unbounded) bs"
| "nests_unbounded _ \<longleftrightarrow> False"

text \<open>\<open>check_regex\<close>: whether \<open>UnsafeRegexError\<close> is raised. A pattern that does not parse is left to \<open>re\<close>.\<close>

definition check_regex :: "regex_engine \<Rightarrow> string \<Rightarrow> bool" where
  "check_regex engine pattern =
     (case sre_parse engine pattern of None \<Rightarrow> False | Some nodes \<Rightarrow> list_ex nests_unbounded nodes)"

section \<open>Splitting a query\<close>

definition type_name_of :: "pyval \<Rightarrow> string" where
  "type_name_of v =
     (case v of VNone \<Rightarrow> ''NoneType'' | VBool b \<Rightarrow> ''bool'' | VInt n \<Rightarrow> ''int'' | VFloat s \<Rightarrow> ''float'' | VStr s \<Rightarrow> ''str''
      | VList vs \<Rightarrow> ''list'' | VDict d \<Rightarrow> ''dict'')"

definition is_quote :: "char \<Rightarrow> bool" where
  "is_quote c \<longleftrightarrow> c = CHR 0x22 \<or> c = CHR 0x27"

text \<open>
  The loops of \<open>_split_pipeline\<close> and \<open>_split_commas\<close>: split at a separator outside quotes and brackets. The state is the
  quote that is open, if any, and the depth; a step without a state is a cut.
\<close>

definition pipe_step :: "string \<Rightarrow> string \<Rightarrow> char \<Rightarrow> char option \<Rightarrow> nat \<Rightarrow> char \<Rightarrow> (char option \<times> nat) option" where
  "pipe_step opens closes sep q depth c =
     (case q of
        Some d \<Rightarrow> Some (if c = d then None else q, depth)
      | None \<Rightarrow>
          (if is_quote c then Some (Some c, depth)
           else if c \<in> set opens then Some (None, depth + 1)
           else if c \<in> set closes then Some (None, depth - 1)
           else if c = sep \<and> depth = 0 then None
           else Some (None, depth)))"

fun split_outside :: "string \<Rightarrow> string \<Rightarrow> char \<Rightarrow> char option \<Rightarrow> nat \<Rightarrow> string \<Rightarrow> string list" where
  "split_outside opens closes sep q depth [] = [[]]"
| "split_outside opens closes sep q depth (c # cs) =
     (case pipe_step opens closes sep q depth c of
        None \<Rightarrow> [] # split_outside opens closes sep None 0 cs
      | Some (q', depth') \<Rightarrow>
          (case split_outside opens closes sep q' depth' cs of [] \<Rightarrow> [[c]] | w # ws \<Rightarrow> (c # w) # ws))"

definition split_pipeline :: "string \<Rightarrow> string list" where
  "split_pipeline txt = filter (\<lambda>p. p \<noteq> []) (map strip (split_outside ''(['' '')]'' (CHR ''|'') None 0 txt))"

definition split_commas :: "string \<Rightarrow> string list" where
  "split_commas txt = split_outside ''('' '')'' (CHR '','') None 0 txt"

definition kql_columns :: "string \<Rightarrow> string list" where
  "kql_columns txt = filter (\<lambda>c. c \<noteq> []) (map strip (split_commas txt))"

text \<open>\<open>re.sub(r"//[^\n]*", " ", text)\<close>: the flag is whether a comment is being dropped.\<close>

fun drop_comments :: "bool \<Rightarrow> string \<Rightarrow> string" where
  "drop_comments True (c # cs) = (if c = CHR 0x0A then c # drop_comments False cs else drop_comments True cs)"
| "drop_comments False (c # d # cs) =
     (if c = CHR ''/'' \<and> d = CHR ''/'' then CHR '' '' # drop_comments True cs else c # drop_comments False (d # cs))"
| "drop_comments b cs = cs"

definition OPERATORS :: "string list" where
  "OPERATORS = [''where'', ''project'', ''project-away'', ''extend'', ''summarize'', ''order'', ''sort'', ''take'', ''limit'',
     ''distinct'', ''count'', ''top'']"

text \<open>\<open>re.sub(r"^\s*by\s+", "", argument, flags=re.IGNORECASE)\<close>.\<close>

definition strip_by :: "string \<Rightarrow> string" where
  "strip_by s =
     (let r = lstrip s; t = drop 2 r
      in if lower (take 2 r) = ''by'' \<and> t \<noteq> [] \<and> is_space (hd t) then lstrip t else s)"

definition parse_operator :: "string \<Rightarrow> (string \<times> string) kql" where
  "parse_operator segment =
     (let (name, _, argument) = partition_on CHR '' '' segment;
          name = lower (strip name);
          (name, argument) = (if name = ''order'' \<or> name = ''sort'' then (''order'', strip_by argument) else (name, argument))
      in if name \<notin> set OPERATORS then Inl (KqlError (''The operator '' @ [CHR 0x27] @ name @ [CHR 0x27] @ '' is not supported''))
         else Inr (name, strip argument))"

fun each :: "('a \<Rightarrow> 'e + 'b) \<Rightarrow> 'a list \<Rightarrow> 'e + 'b list" where
  "each f [] = Inr []"
| "each f (x # xs) =
     (case f x of
        Inl e \<Rightarrow> Inl e
      | Inr y \<Rightarrow> (case each f xs of Inl e \<Rightarrow> Inl e | Inr ys \<Rightarrow> Inr (y # ys)))"

definition is_table_name :: "string \<Rightarrow> bool" where
  "is_table_name s \<longleftrightarrow> s \<noteq> [] \<and> is_ident_start (hd s) \<and> list_all is_word_char s"

type_synonym kql_query = "string \<times> (string \<times> string) list"

definition RECOGNIZED :: string where
  "RECOGNIZED = ''A recognized query is expected''"

definition parse_kql :: "pyval \<Rightarrow> kql_query kql" where
  "parse_kql query =
     (case query of
        VNone \<Rightarrow> Inl (KqlError RECOGNIZED)
      | VStr q \<Rightarrow>
          (case split_pipeline (strip (drop_comments False q)) of
             [] \<Rightarrow> Inl (KqlError RECOGNIZED)
           | table # segments \<Rightarrow>
               (if \<not> is_table_name table
                then Inl (KqlError (''A recognized table name is expected, found '' @ [CHR 0x27] @ table @ [CHR 0x27]))
                else case each parse_operator segments of
                       Inl e \<Rightarrow> Inl e
                     | Inr operators \<Rightarrow> Inr (table, operators)))
      | v \<Rightarrow> Inl (KqlError (RECOGNIZED @ '', found '' @ type_name_of v)))"

section \<open>Tokens of a predicate\<close>

datatype kql_kind = K_string | K_number | K_op | K_word

type_synonym kql_token = "kql_kind \<times> string"

text \<open>The string behind an opening quote, its closing quote included, and what follows; a backslash takes the next character with it.\<close>

fun string_rest :: "char \<Rightarrow> string \<Rightarrow> (string \<times> string) option" where
  "string_rest q [] = None"
| "string_rest q (c # cs) =
     (if c = q then Some ([c], cs)
      else if c = CHR 0x5C
      then (case cs of
              [] \<Rightarrow> None
            | d # ds \<Rightarrow>
                (if d = CHR 0x0A then None
                 else map_option (\<lambda>(s, r). (c # d # s, r)) (string_rest q ds)))
      else map_option (\<lambda>(s, r). (c # s, r)) (string_rest q cs))"

text \<open>\<open>-?\d+\.\d+|-?\d+\<close>, as the length it takes.\<close>

definition kql_number_length :: "string \<Rightarrow> nat" where
  "kql_number_length s =
     (let sign = (if s \<noteq> [] \<and> hd s = CHR ''-'' then 1 else 0);
          n = length (takeWhile is_digit (drop sign s)); r = drop (sign + n) s;
          m = length (takeWhile is_digit (tl r))
      in if n = 0 then 0 else if r \<noteq> [] \<and> hd r = CHR ''.'' \<and> m \<noteq> 0 then sign + n + 1 + m else sign + n)"

definition is_kql_word :: "char \<Rightarrow> bool" where
  "is_kql_word c \<longleftrightarrow> \<not> is_space c \<and> c \<notin> set ''()=<>!,''"

definition TWO_CHAR_OPS :: "string list" where
  "TWO_CHAR_OPS = [''=='', ''!='', ''<='', ''>='', ''=~'', ''!~'']"

definition kql_lex1 :: "string \<Rightarrow> (kql_token \<times> string) option" where
  "kql_lex1 s =
     (case s of
        [] \<Rightarrow> None
      | c # cs \<Rightarrow>
          (case if is_quote c then string_rest c cs else None of
             Some (b, r) \<Rightarrow> Some ((K_string, c # b), r)
           | None \<Rightarrow>
               (let n = kql_number_length s
                in if 0 < n then Some ((K_number, take n s), drop n s)
                   else if take 2 s \<in> set TWO_CHAR_OPS then Some ((K_op, take 2 s), drop 2 s)
                   else if c \<in> set ''<>(),'' then Some ((K_op, [c]), cs)
                   else if is_kql_word c then Some ((K_word, takeWhile is_kql_word s), dropWhile is_kql_word s)
                   else None)))"

lemma string_rest_shorter: "string_rest q s = Some (b, r) \<Longrightarrow> length r < length s"
  by (induction s arbitrary: b r rule: string_rest.induct) (fastforce split: if_splits list.splits)+

lemma kql_lex1_shorter: "kql_lex1 s = Some (t, r) \<Longrightarrow> length r < length s"
proof (cases s)
  case (Cons c cs)
  have d: "length (dropWhile P cs) < Suc (length cs)" for P using length_dropWhile_le [of P cs] by simp
  show "kql_lex1 s = Some (t, r) \<Longrightarrow> length r < length s"
    using string_rest_shorter [of c cs] d
    by (fastforce simp: kql_lex1_def Cons Let_def less_Suc_eq split: option.splits if_splits)
qed (simp add: kql_lex1_def)

function kql_tokens :: "nat \<Rightarrow> string \<Rightarrow> kql_token list kql" where
  "kql_tokens pos s =
     (case s of
        [] \<Rightarrow> Inr []
      | c # cs \<Rightarrow>
          (if is_space c
           then (let r = dropWhile is_space cs in kql_tokens (pos + (length s - length r)) r)
           else case kql_lex1 s of
                  None \<Rightarrow> Inl (KqlError (''Unexpected character at offset '' @ str_of_nat pos))
                | Some (t, r) \<Rightarrow>
                    (case kql_tokens (pos + (length s - length r)) r of Inl e \<Rightarrow> Inl e | Inr ts \<Rightarrow> Inr (t # ts))))"
  by pat_completeness auto
termination kql_tokens
  by (relation "measure (\<lambda>(pos, s). length s)")
    (auto dest: kql_lex1_shorter simp: le_imp_less_Suc length_dropWhile_le)

declare kql_tokens.simps [simp del]

definition kql_tokenize :: "string \<Rightarrow> kql_token list kql" where
  "kql_tokenize source = kql_tokens 0 source"

section \<open>Operands\<close>

type_synonym krow = jobj

type_synonym kpred = "krow \<Rightarrow> bool kql"

type_synonym koperand = "krow \<Rightarrow> kval"

type_synonym 'a kparse = "kql_failure + 'a \<times> kql_token list"

definition next_is :: "string \<Rightarrow> kql_token list \<Rightarrow> bool" where
  "next_is w ts \<longleftrightarrow> ts \<noteq> [] \<and> lower (snd (hd ts)) = w"

definition END :: kql_failure where
  "END = KqlError ''Unexpected end of expression''"

definition number_literal :: "string \<Rightarrow> pyval kql" where
  "number_literal t =
     (if CHR ''.'' \<in> set t
      then (case float_of_str t of
              None \<Rightarrow> Inl (Kql_raises (ValueError ''could not convert string to float''))
            | Some f \<Rightarrow> Inr (VFloat (signed_repr (hd t = CHR ''-'') f)))
      else case int_of_str t of
             None \<Rightarrow> Inl (Kql_raises (ValueError ''Exceeds the limit (4300 digits) for integer string conversion''))
           | Some n \<Rightarrow> Inr (VInt n))"

definition unquoted :: "string \<Rightarrow> string" where
  "unquoted t = butlast (tl t)"

definition list_item :: "kql_token \<Rightarrow> pyval kql" where
  "list_item tok =
     (case tok of
        (K_string, t) \<Rightarrow> Inr (VStr (unquoted t))
      | (K_number, t) \<Rightarrow> number_literal t
      | (_, t) \<Rightarrow> Inr (VStr t))"

text \<open>A value list behind its opening parenthesis.\<close>

fun value_list :: "kql_token list \<Rightarrow> pyval list kparse" where
  "value_list [] = Inl END"
| "value_list (tok # r) =
     (if snd tok = '')'' then Inr ([], r)
      else if snd tok = '','' then value_list r
      else case list_item tok of
             Inl e \<Rightarrow> Inl e
           | Inr v \<Rightarrow> (case value_list r of Inl e \<Rightarrow> Inl e | Inr (vs, r') \<Rightarrow> Inr (v # vs, r')))"

text \<open>The raw text of a time function's argument, up to the closing parenthesis.\<close>

fun raw_argument :: "kql_token list \<Rightarrow> string kparse" where
  "raw_argument [] = Inl END"
| "raw_argument (tok # r) =
     (if snd tok = '')'' then Inr ([], r)
      else case raw_argument r of Inl e \<Rightarrow> Inl e | Inr (t, r') \<Rightarrow> Inr (snd tok @ t, r'))"

definition TIME_FUNCTIONS :: "string list" where
  "TIME_FUNCTIONS = [''ago'', ''now'', ''datetime'']"

text \<open>Microseconds in a unit.\<close>

definition TIMESPAN_UNITS :: "(string \<times> int) list" where
  "TIMESPAN_UNITS = [(''d'', day_micros), (''h'', 3600000000), (''m'', 60000000), (''s'', 1000000), (''ms'', 1000)]"

text \<open>
  \<open>timedelta\<close> of a float: the whole part is exact, the fraction is multiplied as a double, and the sum is rounded to
  microseconds, ties to even. A \<open>timedelta\<close> has at most 999999999 days.
\<close>

definition float_micros :: "int \<Rightarrow> pyfloat \<Rightarrow> int kql" where
  "float_micros unit f =
     (case f of
        Fin q \<Rightarrow>
          (let whole = \<lfloor>q\<rfloor> * unit;
               part = (case round_double ((q - of_int \<lfloor>q\<rfloor>) * of_int unit) of Fin w \<Rightarrow> w | _ \<Rightarrow> 0);
               t = round_half_even (of_int whole + part)
           in if 999999999 < t div day_micros then Inl (Kql_raises (OverflowError ''days'')) else Inr t)
      | _ \<Rightarrow> Inl (Kql_raises (OverflowError ''cannot convert float infinity to integer'')))"

definition quoted_in :: "string \<Rightarrow> string \<Rightarrow> kql_failure" where
  "quoted_in msg t = KqlError (msg @ [CHR 0x27] @ t @ [CHR 0x27])"

definition timespan :: "string \<Rightarrow> int kql" where
  "timespan t =
     (let s = lower t; ip = takeWhile is_digit s; r = dropWhile is_digit s;
          fp = takeWhile is_digit (tl r);
          has_fp = (r \<noteq> [] \<and> hd r = CHR ''.'' \<and> fp \<noteq> []);
          u = (if has_fp then dropWhile is_digit (tl r) else r)
      in case (if ip = [] then None else map_of TIMESPAN_UNITS u) of
           None \<Rightarrow> Inl (quoted_in ''A timespan literal is expected, found '' t)
         | Some unit \<Rightarrow>
             (case float_of_str (ip @ (if has_fp then CHR ''.'' # fp else [])) of
                None \<Rightarrow> Inl (Kql_raises (ValueError ''could not convert string to float''))
              | Some f \<Rightarrow> float_micros unit f))"

text \<open>\<open>_parse_datetime\<close> as local time and offset; a moment without an offset is UTC.\<close>

definition moment_of :: "string \<Rightarrow> (int \<times> int) option" where
  "moment_of s =
     (case fromisoformat (replace_str ''Z'' ''+00:00'' s) of
        None \<Rightarrow> None
      | Some (local, off) \<Rightarrow> Some (local, case off of None \<Rightarrow> 0 | Some d \<Rightarrow> d))"

definition time_function :: "int \<Rightarrow> string \<Rightarrow> kql_token list \<Rightarrow> koperand kparse" where
  "time_function now name ts =
     (if \<not> next_is ''('' ts then Inl (KqlError (''Expected '' @ [CHR 0x27] @ ''('' @ [CHR 0x27] @ '' after '' @ [CHR 0x27] @ name @ [CHR 0x27]))
      else case raw_argument (tl ts) of
             Inl e \<Rightarrow> Inl e
           | Inr (argument, r) \<Rightarrow>
               (if name = ''now'' \<and> argument = [] then Inr (\<lambda>_. KT now 0, r)
                else if name = ''ago''
                then (case timespan argument of
                        Inl e \<Rightarrow> Inl e
                      | Inr d \<Rightarrow> if now - d < 0 then Inl (Kql_raises (OverflowError ''date value out of range''))
                                 else Inr (\<lambda>_. KT (now - d) 0, r))
                else if name = ''datetime''
                then (case moment_of argument of
                        None \<Rightarrow> Inl (quoted_in ''A datetime literal is expected, found '' argument)
                      | Some (local, off) \<Rightarrow> Inr (\<lambda>_. KT local off, r))
                else Inl (KqlError ([CHR 0x27] @ name @ ''()'' @ [CHR 0x27] @ '' takes no argument in this mock''))))"

definition parse_operand :: "int \<Rightarrow> kql_token list \<Rightarrow> koperand kparse" where
  "parse_operand now ts =
     (case ts of
        [] \<Rightarrow> Inl END
      | (k, t) # r \<Rightarrow>
          (if k = K_string then Inr (\<lambda>_. KV (VStr (unquoted t)), r)
           else if k = K_number
           then (case number_literal t of Inl e \<Rightarrow> Inl e | Inr n \<Rightarrow> Inr (\<lambda>_. KV n, r))
           else if t = ''(''
           then (case value_list r of Inl e \<Rightarrow> Inl e | Inr (vs, r') \<Rightarrow> Inr (\<lambda>_. KV (VList vs), r'))
           else if k = K_word \<and> lower t \<in> set TIME_FUNCTIONS then time_function now (lower t) r
           else Inr (\<lambda>row. KV (dict_get row t), r)))"

section \<open>Comparisons\<close>

text \<open>\<open>str\<close> and truth of an operand's value; \<open>str\<close> of an instant is \<open>isoformat\<close> with a space.\<close>

definition kval_str :: "kval \<Rightarrow> string" where
  "kval_str v =
     (case v of
        KV p \<Rightarrow> py_str p
      | KT local off \<Rightarrow>
          (let (y, m, d) = ordinal_ymd (local div day_micros + 1); u = nat (local mod 1000000)
           in pad 4 (nat y) @ ''-'' @ pad 2 (nat m) @ ''-'' @ pad 2 (nat d) @ '' '' @
              strf_time (nat (local mod day_micros div 1000000)) @ (if u = 0 then [] else ''.'' @ pad 6 u) @ iso_offset off))"

definition kval_truthy :: "kval \<Rightarrow> bool" where
  "kval_truthy v = (case v of KV p \<Rightarrow> truthy p | KT _ _ \<Rightarrow> True)"

fun as_datetime :: "kval \<Rightarrow> int option" where
  "as_datetime (KT local off) = Some (local - off)"
| "as_datetime (KV (VStr s)) = parse_utc s"
| "as_datetime _ = None"

definition is_instant :: "kval \<Rightarrow> bool" where
  "is_instant v = (case v of KT _ _ \<Rightarrow> True | KV _ \<Rightarrow> False)"

definition kval_float :: "kval \<Rightarrow> pyfloat option kql" where
  "kval_float v =
     (case v of
        KT _ _ \<Rightarrow> Inr None
      | KV p \<Rightarrow> (case as_float p of Inl e \<Rightarrow> Inl (Kql_raises e) | Inr f \<Rightarrow> Inr f))"

text \<open>Both sides as floats: numbers when both are, else text.\<close>

definition on_numbers :: "kval \<Rightarrow> kval \<Rightarrow> (pyfloat \<Rightarrow> pyfloat \<Rightarrow> bool) \<Rightarrow> (string \<Rightarrow> string \<Rightarrow> bool) \<Rightarrow> bool kql" where
  "on_numbers a b num txt =
     (case kval_float a of
        Inl e \<Rightarrow> Inl e
      | Inr an \<Rightarrow>
          (case kval_float b of
             Inl e \<Rightarrow> Inl e
           | Inr bn \<Rightarrow>
               Inr (case (an, bn) of (Some x, Some y) \<Rightarrow> num x y | _ \<Rightarrow> txt (kval_str a) (kval_str b))))"

definition kql_equal :: "kval \<Rightarrow> kval \<Rightarrow> bool kql" where
  "kql_equal a b =
     (if a = KV VNone \<or> b = KV VNone then Inr (a = b)
      else if is_instant a \<or> is_instant b then Inr (as_datetime a \<noteq> None \<and> as_datetime a = as_datetime b)
      else on_numbers a b fl_eq (\<lambda>s t. s = t))"

text \<open>\<open>_order\<close> at a strict and a reflexive order; the operators are those of the tokeniser.\<close>

definition order_by :: "string \<Rightarrow> ('a \<Rightarrow> 'a \<Rightarrow> bool) \<Rightarrow> ('a \<Rightarrow> 'a \<Rightarrow> bool) \<Rightarrow> 'a \<Rightarrow> 'a \<Rightarrow> bool" where
  "order_by oper lt le a b =
     (if oper = ''<'' then lt a b else if oper = ''<='' then le a b else if oper = ''>'' then lt b a else le b a)"

definition comparison :: "string \<Rightarrow> koperand \<Rightarrow> koperand \<Rightarrow> kpred" where
  "comparison oper left right row =
     (let a = left row; b = right row
      in if oper = ''=='' then kql_equal a b
         else if oper = ''!='' then map_sum id Not (kql_equal a b)
         else if oper = ''=~'' then Inr (lower (kval_str a) = lower (kval_str b))
         else if oper = ''!~'' then Inr (lower (kval_str a) \<noteq> lower (kval_str b))
         else if a = KV VNone \<or> b = KV VNone then Inr False
         else if is_instant a \<or> is_instant b
         then Inr (case (as_datetime a, as_datetime b) of
                     (Some x, Some y) \<Rightarrow> order_by oper (<) (\<le>) x y
                   | _ \<Rightarrow> False)
         else on_numbers a b (order_by oper fl_less fl_le) (order_by oper (<) (\<le>)))"

text \<open>\<open>re.split(r"[^0-9a-z_]+", text)\<close>: the flag is whether the character before was a separator.\<close>

definition is_term_char :: "char \<Rightarrow> bool" where
  "is_term_char c \<longleftrightarrow> is_digit c \<or> is_lower c \<or> c = CHR ''_''"

fun split_terms :: "bool \<Rightarrow> string \<Rightarrow> string list" where
  "split_terms sep [] = [[]]"
| "split_terms sep (c # cs) =
     (if is_term_char c then (case split_terms False cs of [] \<Rightarrow> [[c]] | w # ws \<Rightarrow> (c # w) # ws)
      else if sep then split_terms True cs
      else [] # split_terms True cs)"

definition STRING_OPS :: "string list" where
  "STRING_OPS = [''contains'', ''!contains'', ''startswith'', ''!startswith'', ''endswith'', ''!endswith'', ''has'', ''!has'',
     ''in'', ''!in'', ''matches'']"

definition candidates :: "kval \<Rightarrow> kval list" where
  "candidates target = (case target of KV (VList vs) \<Rightarrow> map KV vs | _ \<Rightarrow> [target])"

definition string_op :: "regex_engine \<Rightarrow> string \<Rightarrow> koperand \<Rightarrow> koperand \<Rightarrow> kpred" where
  "string_op engine oper left right row =
     (let negated = startswith oper ''!''; base = lstrip_chars ''!'' oper; v = left row; target = right row;
          txt = (if v = KV VNone then [] else lower (kval_str v)); wanted = lower (kval_str target);
          result =
            (if base = ''in'' then Inr (list_ex (\<lambda>c. lower (kval_str c) = txt) (candidates target))
             else if base = ''contains'' then Inr (str_in wanted txt)
             else if base = ''startswith'' then Inr (startswith txt wanted)
             else if base = ''endswith'' then Inr (endswith txt wanted)
             else if base = ''has'' then Inr (wanted \<in> set (split_terms False txt))
             else let pattern = kval_str target
                  in if check_regex engine pattern
                     then Inl (KqlError (''regex '' @ [CHR 0x27] @ pattern @ [CHR 0x27] @ '' can backtrack catastrophically''))
                     else case re_search engine pattern (if kval_truthy v then kval_str v else []) of
                            None \<Rightarrow> Inl Re_error
                          | Some found \<Rightarrow> Inr found)
      in if negated then map_sum id Not result else result)"

section \<open>The predicate parser\<close>

text \<open>Python's \<open>or\<close>, \<open>and\<close> and \<open>not\<close> on predicates that may raise.\<close>

definition pred_or :: "kpred \<Rightarrow> kpred \<Rightarrow> kpred" where
  "pred_or a b row = (case a row of Inl e \<Rightarrow> Inl e | Inr x \<Rightarrow> if x then Inr True else b row)"

definition pred_and :: "kpred \<Rightarrow> kpred \<Rightarrow> kpred" where
  "pred_and a b row = (case a row of Inl e \<Rightarrow> Inl e | Inr x \<Rightarrow> if x then b row else Inr False)"

definition pred_not :: "kpred \<Rightarrow> kpred" where
  "pred_not a row = map_sum id Not (a row)"

text \<open>The loops of \<open>_parse_or_inner\<close> and \<open>_parse_and\<close> behind their first operand; the tokens left are enough fuel.\<close>

fun kql_chain ::
  "nat \<Rightarrow> string \<Rightarrow> (kpred \<Rightarrow> kpred \<Rightarrow> kpred) \<Rightarrow> (kql_token list \<Rightarrow> kpred kparse) \<Rightarrow> kpred \<Rightarrow> kql_token list \<Rightarrow> kpred kparse" where
  "kql_chain fuel word join_preds operand left ts =
     (if \<not> next_is word ts then Inr (left, ts)
      else case fuel of
             0 \<Rightarrow> Inl Kql_fuel
           | Suc k \<Rightarrow>
               (case operand (tl ts) of
                  Inl e \<Rightarrow> Inl e
                | Inr (right, r) \<Rightarrow> kql_chain k word join_preds operand (join_preds left right) r))"

declare kql_chain.simps [simp del]

definition parse_chain ::
  "string \<Rightarrow> (kpred \<Rightarrow> kpred \<Rightarrow> kpred) \<Rightarrow> (kql_token list \<Rightarrow> kpred kparse) \<Rightarrow> kql_token list \<Rightarrow> kpred kparse" where
  "parse_chain word join_preds operand ts =
     (case operand ts of
        Inl e \<Rightarrow> Inl e
      | Inr (left, r) \<Rightarrow> kql_chain (length r) word join_preds operand left r)"

fun parse_not :: "(kql_token list \<Rightarrow> kpred kparse) \<Rightarrow> kql_token list \<Rightarrow> kpred kparse" where
  "parse_not operand [] = operand []"
| "parse_not operand (t # ts) =
     (if lower (snd t) = ''not''
      then (case parse_not operand ts of Inl e \<Rightarrow> Inl e | Inr (p, r) \<Rightarrow> Inr (pred_not p, r))
      else operand (t # ts))"

definition COMPARISON_OPS :: "string list" where
  "COMPARISON_OPS = [''=='', ''!='', ''<'', ''<='', ''>'', ''>='', ''=~'', ''!~'']"

definition truth_of :: "koperand \<Rightarrow> kpred" where
  "truth_of left row = Inr (kval_truthy (left row))"

definition read_comparison ::
  "regex_engine \<Rightarrow> int \<Rightarrow> (kql_token list \<Rightarrow> kpred kparse) \<Rightarrow> kql_token list \<Rightarrow> kpred kparse" where
  "read_comparison engine now inner ts =
     (if next_is ''('' ts
      then (case inner (tl ts) of
              Inl e \<Rightarrow> Inl e
            | Inr (p, r) \<Rightarrow>
                (if next_is '')'' r then Inr (p, tl r)
                 else Inl (KqlError (''Expected '' @ [CHR 0x27] @ '')'' @ [CHR 0x27]))))
      else case parse_operand now ts of
             Inl e \<Rightarrow> Inl e
           | Inr (left, r) \<Rightarrow>
               (case r of
                  [] \<Rightarrow> Inr (truth_of left, [])
                | (k, t) # r' \<Rightarrow>
                    (if k = K_op \<and> lower t \<in> set COMPARISON_OPS
                     then (case parse_operand now r' of
                             Inl e \<Rightarrow> Inl e
                           | Inr (right, r'') \<Rightarrow> Inr (comparison (lower t) left right, r''))
                     else if lower t \<in> set STRING_OPS
                     then (case parse_operand now (if lower t = ''matches'' \<and> next_is ''regex'' r' then tl r' else r') of
                             Inl e \<Rightarrow> Inl e
                           | Inr (right, r'') \<Rightarrow> Inr (string_op engine (lower t) left right, r''))
                     else Inr (truth_of left, r))))"

text \<open>The recursion is on the depth that is left of \<open>_MAX_DEPTH\<close>.\<close>

definition KQL_MAX_DEPTH :: nat where
  "KQL_MAX_DEPTH = 60"

fun parse_or :: "regex_engine \<Rightarrow> int \<Rightarrow> nat \<Rightarrow> kql_token list \<Rightarrow> kpred kparse" where
  "parse_or engine now 0 ts = Inl (KqlError ''Expression is nested too deeply'')"
| "parse_or engine now (Suc depth) ts =
     parse_chain ''or'' pred_or
       (parse_chain ''and'' pred_and (parse_not (read_comparison engine now (parse_or engine now depth)))) ts"

definition parse_predicate :: "regex_engine \<Rightarrow> int \<Rightarrow> kql_token list \<Rightarrow> kpred kql" where
  "parse_predicate engine now ts =
     (case parse_or engine now KQL_MAX_DEPTH ts of
        Inl e \<Rightarrow> Inl e
      | Inr (p, r) \<Rightarrow> (if r \<noteq> [] then Inl (quoted_in ''Unexpected input near '' (snd (hd r))) else Inr p))"

section \<open>Operators\<close>

fun keep_rows :: "kpred \<Rightarrow> krow list \<Rightarrow> krow list kql" where
  "keep_rows p [] = Inr []"
| "keep_rows p (row # rows) =
     (case p row of
        Inl e \<Rightarrow> Inl e
      | Inr x \<Rightarrow> (case keep_rows p rows of Inl e \<Rightarrow> Inl e | Inr kept \<Rightarrow> Inr (if x then row # kept else kept)))"

definition op_where :: "regex_engine \<Rightarrow> int \<Rightarrow> krow list \<Rightarrow> string \<Rightarrow> krow list kql" where
  "op_where engine now rows argument =
     (case kql_tokenize argument of
        Inl e \<Rightarrow> Inl e
      | Inr ts \<Rightarrow> (case parse_predicate engine now ts of Inl e \<Rightarrow> Inl e | Inr p \<Rightarrow> keep_rows p rows))"

text \<open>\<open>{c: row.get(c) for c in columns}\<close>.\<close>

definition pick :: "string list \<Rightarrow> krow \<Rightarrow> krow" where
  "pick columns row = fold (\<lambda>c. AList.update c (dict_get row c)) columns []"

definition op_project :: "krow list \<Rightarrow> string \<Rightarrow> krow list" where
  "op_project rows argument = map (pick (kql_columns argument)) rows"

definition op_project_away :: "krow list \<Rightarrow> string \<Rightarrow> krow list" where
  "op_project_away rows argument = map (filter (\<lambda>(k, v). k \<notin> set (kql_columns argument))) rows"

text \<open>A timestamp a row holds is text: local time to the millisecond, with a \<open>Z\<close>.\<close>

definition row_value :: "kval \<Rightarrow> pyval" where
  "row_value v =
     (case v of
        KV p \<Rightarrow> p
      | KT local off \<Rightarrow> VStr (strf_seconds local @ ''.'' @ pad 3 (nat (local mod 1000000 div 1000)) @ ''Z''))"

definition evaluate_operand :: "int \<Rightarrow> string \<Rightarrow> krow \<Rightarrow> kval kql" where
  "evaluate_operand now expression row =
     (case kql_tokenize expression of
        Inl e \<Rightarrow> Inl e
      | Inr ts \<Rightarrow> (case parse_operand now ts of Inl e \<Rightarrow> Inl e | Inr (f, r) \<Rightarrow> Inr (f row)))"

fun extend_row :: "int \<Rightarrow> string list \<Rightarrow> krow \<Rightarrow> krow kql" where
  "extend_row now [] row = Inr row"
| "extend_row now (a # as) row =
     (let (name, _, expression) = partition_on (CHR ''='') a
      in case evaluate_operand now (strip expression) row of
           Inl e \<Rightarrow> Inl e
         | Inr v \<Rightarrow> extend_row now as (AList.update (strip name) (row_value v) row))"

definition op_extend :: "int \<Rightarrow> krow list \<Rightarrow> string \<Rightarrow> krow list kql" where
  "op_extend now rows argument =
     each (extend_row now (filter (\<lambda>a. CHR ''='' \<in> set a) (split_commas argument))) rows"

text \<open>\<open>re.split(r"(?i)\sby\s", argument, maxsplit=1)\<close>: the text before, and behind when there is a match.\<close>

definition grouping_at :: "string \<Rightarrow> bool" where
  "grouping_at s \<longleftrightarrow> 4 \<le> length s \<and> is_space (s ! 0) \<and> lower (take 2 (drop 1 s)) = ''by'' \<and> is_space (s ! 3)"

fun split_grouping :: "string \<Rightarrow> string \<times> string" where
  "split_grouping [] = ([], [])"
| "split_grouping (c # cs) =
     (if grouping_at (c # cs) then ([], drop 4 (c # cs))
      else case split_grouping cs of (a, g) \<Rightarrow> (c # a, g))"

text \<open>A match of \<open>_AGG_RE\<close> at the front: alias, function and column, and what follows.\<close>

definition call_at :: "string \<Rightarrow> (string \<times> string) option" where
  "call_at t =
     (if t \<noteq> [] \<and> hd t = CHR ''('' \<and> CHR '')'' \<in> set t
      then Some (strip (takeWhile (\<lambda>c. c \<noteq> CHR '')'') (tl t)), tl (dropWhile (\<lambda>c. c \<noteq> CHR '')'') t))
      else None)"

definition agg_at :: "string \<Rightarrow> ((string option \<times> string \<times> string) \<times> string) option" where
  "agg_at s =
     (let w = takeWhile is_word_char s; r = lstrip (dropWhile is_word_char s)
      in if w = [] then None
         else if r \<noteq> [] \<and> hd r = CHR ''=''
         then (let t = lstrip (tl r); f = takeWhile is_word_char t
               in if f = [] then None
                  else map_option (\<lambda>(col, q). ((Some w, f, col), q)) (call_at (lstrip (dropWhile is_word_char t))))
         else map_option (\<lambda>(col, q). ((None, w, col), q)) (call_at r))"

lemma length_lstrip: "length (lstrip s) \<le> length s"
  by (simp add: lstrip_def length_dropWhile_le)

lemma call_at_shorter: "call_at t = Some (c, r) \<Longrightarrow> length r < length t"
  using length_dropWhile_le [of "\<lambda>c. c \<noteq> CHR '')''" t]
  by (cases "dropWhile (\<lambda>c. c \<noteq> CHR '')'') t") (auto simp: call_at_def split: if_splits)

lemma agg_at_shorter: "agg_at s = Some (m, r) \<Longrightarrow> length r < length s"
proof -
  assume a: "agg_at s = Some (m, r)"
  let ?r = "lstrip (dropWhile is_word_char s)" and ?t = "lstrip (tl (lstrip (dropWhile is_word_char s)))"
  have le: "length ?r \<le> length s" "length ?t \<le> length ?r" "length (lstrip (dropWhile is_word_char ?t)) \<le> length ?t"
    using length_lstrip [of "dropWhile is_word_char s"] length_dropWhile_le [of is_word_char s]
      length_lstrip [of "tl ?r"] length_lstrip [of "dropWhile is_word_char ?t"] length_dropWhile_le [of is_word_char ?t]
    by simp_all
  show ?thesis using a le call_at_shorter [of ?r] call_at_shorter [of "lstrip (dropWhile is_word_char ?t)"]
    by (fastforce simp: agg_at_def Let_def split: if_splits)
qed

function find_aggs :: "string \<Rightarrow> (string option \<times> string \<times> string) list" where
  "find_aggs s =
     (if s = [] then []
      else case agg_at s of None \<Rightarrow> find_aggs (tl s) | Some (m, r) \<Rightarrow> m # find_aggs r)"
  by pat_completeness auto
termination find_aggs
  by (relation "measure length") (auto dest: agg_at_shorter)

declare find_aggs.simps [simp del]

section \<open>Aggregations\<close>

definition DEFAULT_PREFIX :: "(string \<times> string) list" where
  "DEFAULT_PREFIX = [(''make_set'', ''set''), (''make_list'', ''list''), (''take_any'', ''any''), (''any'', ''any'')]"

definition default_name :: "string \<Rightarrow> string \<Rightarrow> string" where
  "default_name function column =
     (case map_of DEFAULT_PREFIX function of None \<Rightarrow> function | Some p \<Rightarrow> p) @ ''_'' @ column"

definition parse_aggregations :: "string \<Rightarrow> (string \<times> string \<times> string) list" where
  "parse_aggregations txt =
     (case map (\<lambda>(alias, function, column).
              (case alias of None \<Rightarrow> default_name (lower function) column | Some a \<Rightarrow> a, lower function, column)) (find_aggs txt) of
        [] \<Rightarrow> [(''count_'', ''count'', [])]
      | aggs \<Rightarrow> aggs)"

text \<open>An integral result is an \<open>int\<close>; the sign of a rounded zero is that of the value.\<close>

definition shrink :: "pyfloat \<Rightarrow> pyval" where
  "shrink f =
     (case f of
        Fin q \<Rightarrow> (if of_int \<lfloor>q\<rfloor> = q then VInt \<lfloor>q\<rfloor> else VFloat (signed_repr (q < 0) (round6 q)))
      | _ \<Rightarrow> VFloat (float_repr f))"

definition present_values :: "string \<Rightarrow> krow list \<Rightarrow> pyval list" where
  "present_values column rows = filter (\<lambda>v. v \<noteq> VNone) (map (\<lambda>row. dict_get row column) rows)"

definition numbers_in :: "string \<Rightarrow> krow list \<Rightarrow> pyfloat list kql" where
  "numbers_in column rows =
     map_sum id (\<lambda>ns. map the (filter (\<lambda>n. n \<noteq> None) ns)) (each (\<lambda>row. kval_float (KV (dict_get row column))) rows)"

definition aggregate :: "string \<Rightarrow> string \<Rightarrow> krow list \<Rightarrow> pyval kql" where
  "aggregate function column rows =
     (if function = ''count'' then Inr (VInt (int (length rows)))
      else if function = ''dcount'' then Inr (VInt (int (length (remdups (map py_str (present_values column rows))))))
      else if function = ''make_set'' then Inr (VList (map VStr (sort (remdups (map py_str (present_values column rows))))))
      else if function = ''make_list'' then Inr (VList (present_values column rows))
      else if function \<in> set [''any'', ''take_any'', ''arg_max'', ''arg_min'']
      then Inr (case rows of [] \<Rightarrow> VNone | row # _ \<Rightarrow> dict_get row column)
      else case numbers_in column rows of
             Inl e \<Rightarrow> Inl e
           | Inr [] \<Rightarrow> Inr (if function = ''sum'' then VInt 0 else VNone)
           | Inr (n # ns) \<Rightarrow>
               (if function = ''sum'' then Inr (shrink (fl_sum (n # ns)))
                else if function = ''avg'' then Inr (shrink (fl_div_nat (fl_sum (n # ns)) (Suc (length ns))))
                else if function = ''min'' then Inr (shrink (fl_min n ns))
                else if function = ''max'' then Inr (shrink (fl_max n ns))
                else Inl (KqlError (''The aggregation function '' @ [CHR 0x27] @ function @ [CHR 0x27] @ '' is not supported''))))"

text \<open>The buckets of \<open>_op_summarize\<close>, a dictionary in order of the first row of each.\<close>

definition group_key :: "string list \<Rightarrow> krow \<Rightarrow> string list" where
  "group_key columns row = map (\<lambda>c. py_str (get_or row c (VStr []))) columns"

definition add_to_bucket :: "string list \<Rightarrow> krow \<Rightarrow> (string list \<times> krow list) list \<Rightarrow> (string list \<times> krow list) list" where
  "add_to_bucket columns row buckets =
     (let key = group_key columns row
      in AList.update key ((case map_of buckets key of None \<Rightarrow> [] | Some members \<Rightarrow> members) @ [row]) buckets)"

definition buckets_of :: "string list \<Rightarrow> krow list \<Rightarrow> (string list \<times> krow list) list" where
  "buckets_of columns rows = fold (add_to_bucket columns) rows []"

fun add_aggregates :: "(string \<times> string \<times> string) list \<Rightarrow> krow list \<Rightarrow> krow \<Rightarrow> krow kql" where
  "add_aggregates [] members record = Inr record"
| "add_aggregates ((alias, function, column) # aggs) members record =
     (case aggregate function column members of
        Inl e \<Rightarrow> Inl e
      | Inr v \<Rightarrow> add_aggregates aggs members (AList.update alias v record))"

definition summary_row :: "string list \<Rightarrow> (string \<times> string \<times> string) list \<Rightarrow> string list \<times> krow list \<Rightarrow> krow kql" where
  "summary_row columns aggs bucket =
     add_aggregates aggs (snd bucket) (fold (\<lambda>(c, k). AList.update c (VStr k)) (zip columns (fst bucket)) [])"

definition op_summarize :: "krow list \<Rightarrow> string \<Rightarrow> krow list kql" where
  "op_summarize rows argument =
     (let (aggregation, grouping) = split_grouping argument; columns = kql_columns grouping
      in each (summary_row columns (parse_aggregations aggregation)) (buckets_of columns rows))"

section \<open>Ordering and limits\<close>

definition kql_sort_key :: "string \<Rightarrow> pyval \<Rightarrow> order_key result" where
  "kql_sort_key column rec =
     (let v = field_get rec column
      in if v = VNone then Inr (2, Fin 0, [])
         else case as_float v of
                Inl e \<Rightarrow> Inl e
              | Inr (Some n) \<Rightarrow> Inr (0, n, [])
              | Inr None \<Rightarrow> Inr (1, Fin 0, py_str v))"

definition fields :: "pyval \<Rightarrow> jobj" where
  "fields v = (case v of VDict d \<Rightarrow> d | _ \<Rightarrow> [])"

definition order_clause :: "string \<Rightarrow> krow list \<Rightarrow> krow list kql" where
  "order_clause clause rows =
     (case split_ws clause of
        [] \<Rightarrow> Inr rows
      | column # ps \<Rightarrow>
          (let descending = (ps \<noteq> [] \<and> startswith (lower (hd ps)) ''desc'')
           in case sorted_records (kql_sort_key column) descending (map VDict rows) of
                Inl e \<Rightarrow> Inl (Kql_raises e)
              | Inr rs \<Rightarrow> Inr (map fields rs)))"

fun order_clauses :: "string list \<Rightarrow> krow list \<Rightarrow> krow list kql" where
  "order_clauses [] rows = Inr rows"
| "order_clauses (c # cs) rows = (case order_clause c rows of Inl e \<Rightarrow> Inl e | Inr rs \<Rightarrow> order_clauses cs rs)"

definition op_order :: "krow list \<Rightarrow> string \<Rightarrow> krow list kql" where
  "op_order rows argument = order_clauses (rev (split_commas argument)) rows"

definition take_rows :: "string \<Rightarrow> krow list \<Rightarrow> krow list kql" where
  "take_rows digits rows =
     (case int_of_str digits of
        None \<Rightarrow> Inl (Kql_raises (ValueError ''Exceeds the limit (4300 digits) for integer string conversion''))
      | Some n \<Rightarrow> Inr (take (nat n) rows))"

definition op_take :: "krow list \<Rightarrow> string \<Rightarrow> krow list kql" where
  "op_take rows argument =
     (let digits = takeWhile is_digit (dropWhile (\<lambda>c. \<not> is_digit c) argument)
      in if digits = [] then Inr rows else take_rows digits rows)"

text \<open>\<open>\s*(\d+)\s*(?:by\s+(.*))?$\<close>: the count, and the order if there is one.\<close>

definition top_parts :: "string \<Rightarrow> (string \<times> string) option" where
  "top_parts argument =
     (let s = lstrip argument; n = takeWhile is_digit s; r = lstrip (dropWhile is_digit s); t = drop 2 r; w = lstrip t
      in if n = [] then None
         else if r = [] then Some (n, [])
         else if lower (take 2 r) = ''by'' \<and> t \<noteq> [] \<and> is_space (hd t) \<and> CHR 0x0A \<notin> set w then Some (n, w)
         else None)"

definition op_top :: "krow list \<Rightarrow> string \<Rightarrow> krow list kql" where
  "op_top rows argument =
     (case top_parts argument of
        None \<Rightarrow> Inl (KqlError (''Cannot parse '' @ [CHR 0x27] @ ''top '' @ argument @ [CHR 0x27]))
      | Some (n, by_clause) \<Rightarrow>
          (case (if by_clause = [] then Inr rows else op_order rows by_clause) of
             Inl e \<Rightarrow> Inl e
           | Inr ordered \<Rightarrow> take_rows n ordered))"

fun distinct_rows :: "string list list \<Rightarrow> krow list \<Rightarrow> krow list" where
  "distinct_rows seen [] = []"
| "distinct_rows seen (row # rows) =
     (let key = map (\<lambda>(k, v). py_str v) row
      in if key \<in> set seen then distinct_rows seen rows else row # distinct_rows (key # seen) rows)"

definition op_distinct :: "krow list \<Rightarrow> string \<Rightarrow> krow list" where
  "op_distinct rows argument =
     (let columns = kql_columns argument in distinct_rows [] (if columns = [] then rows else map (pick columns) rows))"

definition op_count :: "krow list \<Rightarrow> krow list" where
  "op_count rows = [[(''Count'', VInt (int (length rows)))]]"

section \<open>Running a query\<close>

definition apply_op :: "regex_engine \<Rightarrow> int \<Rightarrow> string \<times> string \<Rightarrow> krow list \<Rightarrow> krow list kql" where
  "apply_op engine now oper rows =
     (case oper of (name, argument) \<Rightarrow>
        if name = ''where'' then op_where engine now rows argument
        else if name = ''project'' then Inr (op_project rows argument)
        else if name = ''project-away'' then Inr (op_project_away rows argument)
        else if name = ''extend'' then op_extend now rows argument
        else if name = ''summarize'' then op_summarize rows argument
        else if name = ''order'' then op_order rows argument
        else if name = ''take'' \<or> name = ''limit'' then op_take rows argument
        else if name = ''top'' then op_top rows argument
        else if name = ''distinct'' then Inr (op_distinct rows argument)
        else if name = ''count'' then Inr (op_count rows)
        else Inl (Kql_raises (KeyError name)))"

fun evaluate_kql :: "regex_engine \<Rightarrow> int \<Rightarrow> (string \<times> string) list \<Rightarrow> krow list \<Rightarrow> krow list kql" where
  "evaluate_kql engine now [] rows = Inr rows"
| "evaluate_kql engine now (oper # opers) rows =
     (case apply_op engine now oper rows of Inl e \<Rightarrow> Inl e | Inr rs \<Rightarrow> evaluate_kql engine now opers rs)"

section \<open>The columns of a result\<close>

text \<open>The columns an operator leaves, as a function of those it is given: the query alone decides them.\<close>

definition insert_key :: "'a \<Rightarrow> 'a list \<Rightarrow> 'a list" where
  "insert_key k ks = (if k \<in> set ks then ks else ks @ [k])"

definition columns_after_op :: "string \<times> string \<Rightarrow> string list \<Rightarrow> string list" where
  "columns_after_op oper ks =
     (case oper of (name, argument) \<Rightarrow>
        if name = ''project'' then fold insert_key (kql_columns argument) []
        else if name = ''project-away'' then filter (\<lambda>k. k \<notin> set (kql_columns argument)) ks
        else if name = ''extend''
        then fold (\<lambda>a. insert_key (strip (fst (partition_on (CHR ''='') a))))
               (filter (\<lambda>a. CHR ''='' \<in> set a) (split_commas argument)) ks
        else if name = ''summarize''
        then (let (aggregation, grouping) = split_grouping argument
              in fold insert_key (kql_columns grouping @ map fst (parse_aggregations aggregation)) [])
        else if name = ''distinct'' \<and> kql_columns argument \<noteq> [] then fold insert_key (kql_columns argument) []
        else if name = ''count'' then [''Count'']
        else ks)"

lemma keys_updated: "map fst (AList.update k v d) = insert_key k (map fst d)"
  using keys_update [of k v d] by (auto simp: insert_key_def)

lemma keys_updates: "map fst (fold (\<lambda>c. AList.update (key c) (val c)) cs d) = fold (\<lambda>c. insert_key (key c)) cs (map fst d)"
  by (induction cs arbitrary: d) (simp_all add: keys_updated)

lemma keys_pick: "map fst (pick columns row) = fold insert_key columns []"
  using keys_updates [of "\<lambda>c. c" "\<lambda>c. dict_get row c" columns "[]"] by (simp add: pick_def)

lemma each_all: "each f xs = Inr ys \<Longrightarrow> \<forall>x \<in> set xs. \<forall>y. f x = Inr y \<longrightarrow> P y \<Longrightarrow> \<forall>y \<in> set ys. P y"
  by (induction xs arbitrary: ys) (auto split: sum.splits)

lemma keep_rows_subset: "keep_rows p rows = Inr kept \<Longrightarrow> mset kept \<subseteq># mset rows"
  by (induction rows arbitrary: kept) (auto split: sum.splits if_splits intro: subset_mset.order_trans)

lemma map_fields_VDict [simp]: "map fields (map VDict rows) = rows"
  by (induction rows) (simp_all add: fields_def)

lemma order_clause_mset: "order_clause c rows = Inr out \<Longrightarrow> mset out = mset rows"
proof -
  assume "order_clause c rows = Inr out"
  then consider "out = rows"
    | key desc rs where "sorted_records key desc (map VDict rows) = Inr rs" "out = map fields rs"
    by (auto simp: order_clause_def Let_def split: list.splits sum.splits)
  then show ?thesis
  proof cases
    case 2
    then have "mset out = image_mset fields (mset (map VDict rows))" by (simp add: sorted_records_perm)
    also have "\<dots> = mset rows" using map_fields_VDict [of rows] by (metis mset_map)
    finally show ?thesis .
  qed simp
qed

lemma order_clauses_mset: "order_clauses cs rows = Inr out \<Longrightarrow> mset out = mset rows"
  by (induction cs arbitrary: rows) (auto split: sum.splits dest: order_clause_mset)

lemma take_rows_take: "take_rows n rows = Inr out \<Longrightarrow> \<exists>m. out = take m rows"
  by (auto simp: take_rows_def split: option.splits)

text \<open>The operators that choose rows.\<close>

definition ROW_OPERATORS :: "string list" where
  "ROW_OPERATORS = [''where'', ''order'', ''take'', ''limit'', ''top'']"

lemma take_subset: "mset (take m xs) \<subseteq># mset xs"
  by (metis append_take_drop_id mset_append mset_subset_eq_add_left)

lemma row_operator_subset:
  assumes "apply_op engine now (name, argument) rows = Inr out" "name \<in> set ROW_OPERATORS"
  shows "mset out \<subseteq># mset rows"
proof -
  have order: "mset r \<subseteq># mset rows" if "op_order rows a = Inr r" for a r
    using order_clauses_mset [OF that [unfolded op_order_def]] by simp
  have taken: "mset out \<subseteq># mset r" if "take_rows n r = Inr out" for n r
    using take_rows_take [OF that] take_subset by auto
  from assms(2) consider "name = ''where''" | "name = ''order''" | "name = ''take'' \<or> name = ''limit''" | "name = ''top''"
    by (auto simp: ROW_OPERATORS_def)
  then show ?thesis
  proof cases
    case 1
    then show ?thesis using assms(1) by (auto simp: apply_op_def op_where_def dest: keep_rows_subset split: sum.splits)
  next
    case 2
    then show ?thesis using assms(1) order by (simp add: apply_op_def)
  next
    case 3
    then have "op_take rows argument = Inr out" using assms(1) by (auto simp: apply_op_def)
    then show ?thesis using taken by (auto simp: op_take_def Let_def split: if_splits)
  next
    case 4
    then have "op_top rows argument = Inr out" using assms(1) by (simp add: apply_op_def)
    then obtain n r where "take_rows n r = Inr out" "mset r \<subseteq># mset rows"
      using order by (auto simp: op_top_def split: option.splits sum.splits if_splits)
    then show ?thesis using taken subset_mset.order_trans by blast
  qed
qed

lemma row_operators_subset:
  "evaluate_kql engine now opers rows = Inr out \<Longrightarrow> set (map fst opers) \<subseteq> set ROW_OPERATORS \<Longrightarrow> mset out \<subseteq># mset rows"
proof (induction opers arbitrary: rows)
  case (Cons oper opers)
  then obtain rs where rs: "apply_op engine now oper rows = Inr rs" "evaluate_kql engine now opers rs = Inr out"
    by (auto split: sum.splits)
  have "mset rs \<subseteq># mset rows" using rs(1) Cons.prems(2) by (cases oper) (auto dest: row_operator_subset)
  moreover have "mset out \<subseteq># mset rs" using Cons.IH [OF rs(2)] Cons.prems(2) by simp
  ultimately show ?case by (rule subset_mset.order_trans [rotated])
qed simp

lemma rows_of_subset: "mset out \<subseteq># mset rows \<Longrightarrow> set out \<subseteq> set rows"
  using set_mset_mono [of "mset out" "mset rows"] by simp

lemma keys_extend_row:
  "extend_row now as row = Inr out \<Longrightarrow>
   map fst out = fold (\<lambda>a. insert_key (strip (fst (partition_on (CHR ''='') a)))) as (map fst row)"
proof (induction as arbitrary: row)
  case (Cons a as)
  obtain name sep expression where p: "partition_on (CHR ''='') a = (name, sep, expression)" by (cases "partition_on (CHR ''='') a")
  with Cons.prems obtain v where "extend_row now as (AList.update (strip name) (row_value v) row) = Inr out"
    by (auto split: sum.splits)
  from Cons.IH [OF this] show ?case by (simp add: p keys_updated)
qed simp

lemma keys_add_aggregates:
  "add_aggregates aggs members rec = Inr out \<Longrightarrow> map fst out = fold insert_key (map fst aggs) (map fst rec)"
  by (induction aggs members rec rule: add_aggregates.induct) (auto simp: keys_updated split: sum.splits)

lemma keys_zip_updates:
  "length ks = length cs \<Longrightarrow>
   map fst (fold (\<lambda>(c, k). AList.update c (val k)) (zip cs ks) d) = fold insert_key cs (map fst d)"
  by (induction cs ks arbitrary: d rule: list_induct2') (simp_all add: keys_updated)

lemma bucket_keys_step:
  "\<forall>(key, members) \<in> set bs. length key = n \<Longrightarrow> length columns = n \<Longrightarrow>
   \<forall>(key, members) \<in> set (add_to_bucket columns row bs). length key = n"
proof -
  assume a: "\<forall>(key, members) \<in> set bs. length key = n" "length columns = n"
  have "\<forall>(key, members) \<in> set (AList.update (group_key columns row) v bs). length key = n" for v
    using a by (induction bs) (auto simp: group_key_def)
  then show ?thesis by (simp add: add_to_bucket_def Let_def)
qed

lemma bucket_keys: "\<forall>(key, members) \<in> set (buckets_of columns rows). length key = length columns"
proof -
  have h: "\<forall>(key, members) \<in> set (fold (add_to_bucket columns) rows bs). length key = length columns"
    if "\<forall>(key, members) \<in> set bs. length key = length columns" for bs
    using that
  proof (induction rows arbitrary: bs)
    case (Cons row rows)
    have "fold (add_to_bucket columns) (row # rows) bs = fold (add_to_bucket columns) rows (add_to_bucket columns row bs)" by simp
    then show ?case using Cons.IH [OF bucket_keys_step [OF Cons.prems refl]] by (simp only:)
  qed simp
  show ?thesis unfolding buckets_of_def by (rule h) simp
qed

lemma keys_distinct_rows: "\<forall>row \<in> set rows. map fst row = ks \<Longrightarrow> \<forall>row \<in> set (distinct_rows seen rows). map fst row = ks"
  by (induction seen rows rule: distinct_rows.induct) (auto simp: Let_def)

lemma keys_kept: "map fst (filter (\<lambda>(k, v). P k) row) = filter P (map fst row)"
  by (induction row) auto

lemma op_names:
  assumes "apply_op engine now (name, argument) rows = Inr out"
  shows "name \<in> set (ROW_OPERATORS @ [''project'', ''project-away'', ''extend'', ''summarize'', ''distinct'', ''count''])"
proof (rule ccontr)
  assume "\<not> ?thesis"
  then show False using assms by (simp add: apply_op_def ROW_OPERATORS_def)
qed

lemma columns_of_op:
  assumes "apply_op engine now oper rows = Inr out" "\<forall>row \<in> set rows. map fst row = ks"
  shows "\<forall>row \<in> set out. map fst row = columns_after_op oper ks"
proof -
  obtain name argument where o: "oper = (name, argument)" by (cases oper)
  consider "name \<in> set ROW_OPERATORS" | "name = ''project''" | "name = ''project-away''" | "name = ''extend''"
    | "name = ''summarize''" | "name = ''distinct''" | "name = ''count''"
    using op_names [OF assms(1) [unfolded o]] by (simp only: set_append Un_iff set_simps insert_iff empty_iff) metis
  then show ?thesis
  proof cases
    case 1
    have "set out \<subseteq> set rows" using row_operator_subset [OF assms(1) [unfolded o] 1] by (rule rows_of_subset)
    moreover have "columns_after_op oper ks = ks" using 1 by (auto simp: o columns_after_op_def ROW_OPERATORS_def)
    ultimately show ?thesis using assms(2) by auto
  next
    case 4
    then have e: "op_extend now rows argument = Inr out" using assms(1) by (simp add: o apply_op_def)
    show ?thesis
      by (rule each_all [OF e [unfolded op_extend_def]])
        (use assms(2) 4 in \<open>auto simp: o columns_after_op_def dest: keys_extend_row\<close>)
  next
    case 5
    obtain a g where s: "split_grouping argument = (a, g)" by (cases "split_grouping argument")
    with 5 have e: "each (summary_row (kql_columns g) (parse_aggregations a)) (buckets_of (kql_columns g) rows) = Inr out"
      using assms(1) by (simp add: o apply_op_def op_summarize_def Let_def)
    show ?thesis
    proof (rule each_all [OF e], intro ballI allI impI)
      fix bucket out assume b: "bucket \<in> set (buckets_of (kql_columns g) rows)"
        and r: "summary_row (kql_columns g) (parse_aggregations a) bucket = Inr out"
      have "length (fst bucket) = length (kql_columns g)" using b bucket_keys by fastforce
      then show "map fst out = columns_after_op oper ks"
        using keys_add_aggregates [OF r [unfolded summary_row_def]] 5 s
        by (simp add: o columns_after_op_def keys_zip_updates)
    qed
  next
    case 6
    then have out: "out = op_distinct rows argument" using assms(1) by (simp add: o apply_op_def)
    have "\<forall>row \<in> set (if kql_columns argument = [] then rows else map (pick (kql_columns argument)) rows).
        map fst row = columns_after_op oper ks"
      using assms(2) 6 by (simp add: o columns_after_op_def keys_pick)
    from keys_distinct_rows [OF this, of "[]"] show ?thesis unfolding out op_distinct_def Let_def .
  qed (use assms in \<open>auto simp: o apply_op_def columns_after_op_def op_project_def op_project_away_def op_count_def keys_pick keys_kept\<close>)
qed

lemma columns_after_ops:
  "evaluate_kql engine now opers rows = Inr out \<Longrightarrow> \<forall>row \<in> set rows. map fst row = ks \<Longrightarrow>
   \<forall>row \<in> set out. map fst row = fold columns_after_op opers ks"
proof (induction opers arbitrary: rows ks)
  case (Cons oper opers)
  then obtain rs where rs: "apply_op engine now oper rows = Inr rs" "evaluate_kql engine now opers rs = Inr out"
    by (auto split: sum.splits)
  show ?case using Cons.IH [OF rs(2) columns_of_op [OF rs(1) Cons.prems(2)]] by simp
qed simp

lemma columns_ignore_where: "fold columns_after_op (filter (\<lambda>(name, a). name \<noteq> ''where'') opers) ks = fold columns_after_op opers ks"
  by (induction opers arbitrary: ks) (auto simp: columns_after_op_def)

section \<open>Groups\<close>

lemma insert_key_distinct [simp]: "distinct ks \<Longrightarrow> distinct (insert_key k ks)"
  by (simp add: insert_key_def)

lemma set_insert_key [simp]: "set (insert_key k ks) = insert k (set ks)"
  by (auto simp: insert_key_def)

lemma first_occurrences_insert: "first_occurrences (xs @ [x]) = insert_key x (first_occurrences xs)"
  by (simp add: first_occurrences_snoc insert_key_def)

lemma update_keyed:
  "distinct ks \<Longrightarrow> AList.update k v (map (\<lambda>j. (j, f j)) ks) = map (\<lambda>j. (j, if j = k then v else f j)) (insert_key k ks)"
proof (induction ks)
  case (Cons i ks)
  then show ?case by (cases "i = k") (auto simp: insert_key_def)
qed (simp add: insert_key_def)

lemma map_of_keyed: "map_of (map (\<lambda>j. (j, f j)) ks) k = (if k \<in> set ks then Some (f k) else None)"
  by (induction ks) auto

lemma buckets_exact:
  "buckets_of columns rows =
   map (\<lambda>key. (key, filter (\<lambda>row. group_key columns row = key) rows)) (first_occurrences (map (group_key columns) rows))"
proof (induction rows rule: rev_induct)
  case Nil
  show ?case by (simp add: buckets_of_def first_occurrences_def)
next
  case (snoc row rows)
  let ?key = "group_key columns row" and ?ks = "first_occurrences (map (group_key columns) rows)"
  have none: "?key \<notin> group_key columns ` set rows \<Longrightarrow> filter (\<lambda>r. group_key columns r = ?key) rows = []"
    unfolding filter_empty_conv by (metis image_eqI)
  have "buckets_of columns (rows @ [row]) = add_to_bucket columns row (buckets_of columns rows)" by (simp add: buckets_of_def)
  also have "\<dots> = AList.update ?key (filter (\<lambda>r. group_key columns r = ?key) rows @ [row])
      (map (\<lambda>key. (key, filter (\<lambda>r. group_key columns r = key) rows)) ?ks)"
    using none by (simp add: snoc add_to_bucket_def Let_def map_of_keyed)
  also have "\<dots> = map (\<lambda>key. (key, filter (\<lambda>r. group_key columns r = key) (rows @ [row]))) (insert_key ?key ?ks)"
    unfolding update_keyed [OF distinct_first_occurrences] by (rule map_cong) auto
  finally show ?case by (simp add: first_occurrences_insert)
qed

lemma sum_of_groups:
  "distinct ks \<Longrightarrow> g ` set rows \<subseteq> set ks \<Longrightarrow> sum_list (map (\<lambda>k. length (filter (\<lambda>r. g r = k) rows)) ks) = length rows"
proof (induction rows)
  case (Cons row rows)
  have one: "sum_list (map (\<lambda>k. if g row = k then 1 else 0) ks) = (1 :: nat)"
    using Cons.prems by (simp add: sum_list_distinct_conv_sum_set)
  have "sum_list (map (\<lambda>k. length (filter (\<lambda>r. g r = k) (row # rows))) ks) =
      sum_list (map (\<lambda>k. (if g row = k then 1 else 0) + length (filter (\<lambda>r. g r = k) rows)) ks)"
    by (rule arg_cong [where f = sum_list], rule map_cong) auto
  also have "\<dots> = 1 + length rows" using Cons one by (simp add: sum_list_addf)
  finally show ?case by simp
qed simp

lemma zip_updates_other: "c \<notin> set cs \<Longrightarrow> dict_get (fold (\<lambda>(c, k). AList.update c (VStr k)) (zip cs ks) d) c = dict_get d c"
  by (induction cs ks arbitrary: d rule: list_induct2') auto

lemma zip_updates_values:
  "length cs = length ks \<Longrightarrow> distinct cs \<Longrightarrow>
   map (dict_get (fold (\<lambda>(c, k). AList.update c (VStr k)) (zip cs ks) d)) cs = map VStr ks"
  by (induction cs ks arbitrary: d rule: list_induct2) (simp_all add: zip_updates_other)

lemma each_Inr: "each (\<lambda>x. Inr (f x)) xs = Inr (map f xs)"
  by (induction xs) simp_all

lemma summarize_groups:
  "split_grouping argument = (aggregation, grouping) \<Longrightarrow>
   op_summarize rows argument =
   each (\<lambda>key. summary_row (kql_columns grouping) (parse_aggregations aggregation)
       (key, filter (\<lambda>row. group_key (kql_columns grouping) row = key) rows))
     (first_occurrences (map (group_key (kql_columns grouping)) rows))"
proof -
  have "each f (map g xs) = each (\<lambda>x. f (g x)) xs" for f :: "'a \<Rightarrow> 'e + 'c" and g :: "'b \<Rightarrow> 'a" and xs
    by (induction xs) (auto split: sum.splits)
  then show "split_grouping argument = (aggregation, grouping) \<Longrightarrow> ?thesis"
    by (simp add: op_summarize_def Let_def buckets_exact)
qed

text \<open>
  C29. Grouping loses and doubles no row: \<open>summarize count() by ...\<close> gives one row for each combination of the grouping
  columns that occurs, in the order of first occurrence and with their text in those columns; its count is that of the rows
  with that combination, and the counts add up to the number of rows.
\<close>

theorem summarize_counts:
  assumes "split_grouping argument = (aggregation, grouping)"
    and "parse_aggregations aggregation = [(alias, ''count'', column)]"
    and "distinct (kql_columns grouping)" "alias \<notin> set (kql_columns grouping)"
  shows "\<exists>out. op_summarize rows argument = Inr out \<and>
    map (\<lambda>r. map (dict_get r) (kql_columns grouping)) out =
      map (map VStr) (first_occurrences (map (group_key (kql_columns grouping)) rows)) \<and>
    map (\<lambda>r. dict_get r alias) out =
      map (\<lambda>key. VInt (int (length (filter (\<lambda>row. group_key (kql_columns grouping) row = key) rows))))
        (first_occurrences (map (group_key (kql_columns grouping)) rows)) \<and>
    sum_list (map (\<lambda>key. length (filter (\<lambda>row. group_key (kql_columns grouping) row = key) rows))
        (first_occurrences (map (group_key (kql_columns grouping)) rows))) = length rows"
proof -
  let ?cs = "kql_columns grouping" and ?members = "\<lambda>key. filter (\<lambda>row. group_key (kql_columns grouping) row = key) rows"
  let ?keys = "first_occurrences (map (group_key ?cs) rows)"
  let ?rec = "\<lambda>key. AList.update alias (VInt (int (length (?members key))))
      (fold (\<lambda>(c, k). AList.update c (VStr k)) (zip ?cs key) [])"
  have "op_summarize rows argument = Inr (map ?rec ?keys)"
    unfolding summarize_groups [OF assms(1)] assms(2) summary_row_def by (simp add: aggregate_def each_Inr)
  moreover have "map (dict_get (?rec key)) ?cs = map VStr key" if "key \<in> set ?keys" for key
  proof -
    have "length ?cs = length key" using that by (auto simp: group_key_def)
    moreover have "map (dict_get (?rec key)) ?cs = map (dict_get (fold (\<lambda>(c, k). AList.update c (VStr k)) (zip ?cs key) [])) ?cs"
      using assms(4) by (intro map_cong) auto
    ultimately show ?thesis using zip_updates_values assms(3) by metis
  qed
  moreover have "sum_list (map (\<lambda>key. length (?members key)) ?keys) = length rows"
    by (rule sum_of_groups) auto
  ultimately show ?thesis by (intro exI [of _ "map ?rec ?keys"]) simp
qed

theorem summarize_counts_witness:
  "\<exists>out. op_summarize [[(''DeviceName'', VStr ''pc2''), (''RemotePort'', VInt 443)], [(''DeviceName'', VStr ''pc1''), (''RemotePort'', VInt 443)],
       [(''DeviceName'', VStr ''pc2''), (''RemotePort'', VInt 80)]] ''hits = count() by DeviceName'' = Inr out \<and>
     map (\<lambda>r. map (dict_get r) [''DeviceName'']) out = [[VStr ''pc2''], [VStr ''pc1'']] \<and>
     map (\<lambda>r. dict_get r ''hits'') out = [VInt 2, VInt 1] \<and> 2 + 1 = (3 :: nat)"
proof -
  have s: "split_grouping ''hits = count() by DeviceName'' = (''hits = count()'', ''DeviceName'')" by code_simp
  have m: "agg_at ''hits = count()'' = Some ((Some ''hits'', ''count'', []), [])" "lower ''count'' = ''count''" by code_simp+
  have "find_aggs [] = []" by (subst find_aggs.simps) simp
  then have "find_aggs ''hits = count()'' = [(Some ''hits'', ''count'', [])]" by (subst find_aggs.simps) (simp add: m(1))
  then have a: "parse_aggregations ''hits = count()'' = [(''hits'', ''count'', [])]" by (simp add: parse_aggregations_def m(2))
  have c: "kql_columns ''DeviceName'' = [''DeviceName'']" by code_simp
  show ?thesis
    using summarize_counts [OF s a, of "[[(''DeviceName'', VStr ''pc2''), (''RemotePort'', VInt 443)],
       [(''DeviceName'', VStr ''pc1''), (''RemotePort'', VInt 443)], [(''DeviceName'', VStr ''pc2''), (''RemotePort'', VInt 80)]]"]
    unfolding c by (simp add: first_occurrences_def group_key_def get_or_def)
qed

section \<open>Filters in print\<close>

text \<open>
  Filters as trees, what they say of a row, and how they are written. \<open>Test\<close> is for the operators with a name;
  the ones that begin with an exclamation mark have no token.
\<close>

datatype kql_term = Col string | Text string | Number nat | Values "string list"

datatype kql_expr =
    Truthy string
  | Compare string kql_term kql_term
  | Test string kql_term kql_term
  | Not kql_expr
  | And kql_expr kql_expr
  | Or kql_expr kql_expr

fun term_value :: "kql_term \<Rightarrow> koperand" where
  "term_value (Col c) row = KV (dict_get row c)"
| "term_value (Text s) row = KV (VStr s)"
| "term_value (Number n) row = KV (VInt (int n))"
| "term_value (Values vs) row = KV (VList (map VStr vs))"

fun holds :: "regex_engine \<Rightarrow> kql_expr \<Rightarrow> kpred" where
  "holds engine (Truthy c) row = Inr (truthy (dict_get row c))"
| "holds engine (Compare oper a b) row = comparison oper (term_value a) (term_value b) row"
| "holds engine (Test oper a b) row = string_op engine oper (term_value a) (term_value b) row"
| "holds engine (Not e) row = (case holds engine e row of Inl f \<Rightarrow> Inl f | Inr x \<Rightarrow> Inr (\<not> x))"
| "holds engine (And a b) row =
     (case holds engine a row of Inl f \<Rightarrow> Inl f | Inr x \<Rightarrow> if x then holds engine b row else Inr False)"
| "holds engine (Or a b) row =
     (case holds engine a row of Inl f \<Rightarrow> Inl f | Inr x \<Rightarrow> if x then Inr True else holds engine b row)"

definition dquoted :: "string \<Rightarrow> string" where
  "dquoted s = CHR 0x22 # s @ [CHR 0x22]"

fun write_term :: "kql_term \<Rightarrow> string" where
  "write_term (Col c) = c"
| "write_term (Text s) = dquoted s"
| "write_term (Number n) = str_of_nat n"
| "write_term (Values vs) = ''('' @ concat (map (\<lambda>v. dquoted v @ '','') vs) @ '')''"

fun print_expr :: "kql_expr \<Rightarrow> string" where
  "print_expr (Truthy c) = c"
| "print_expr (Compare oper a b) = write_term a @ '' '' @ oper @ '' '' @ write_term b"
| "print_expr (Test oper a b) = write_term a @ '' '' @ oper @ '' '' @ write_term b"
| "print_expr (Not e) = ''not '' @ print_expr e"
| "print_expr (And a b) = ''('' @ print_expr a @ '' and '' @ print_expr b @ '')''"
| "print_expr (Or a b) = ''('' @ print_expr a @ '' or '' @ print_expr b @ '')''"

definition RESERVED :: "string list" where
  "RESERVED = [''and'', ''or'', ''not'', ''ago'', ''now'', ''datetime'', ''regex'']"

definition wf_column :: "string \<Rightarrow> bool" where
  "wf_column c \<longleftrightarrow> is_table_name c \<and> lower c \<notin> set RESERVED"

text \<open>A literal the language can write: no quote, no backslash, and no comment sign.\<close>

definition wf_text :: "string \<Rightarrow> bool" where
  "wf_text s \<longleftrightarrow> CHR 0x22 \<notin> set s \<and> CHR 0x5C \<notin> set s \<and> \<not> str_in ''//'' s"

fun wf_operand :: "kql_term \<Rightarrow> bool" where
  "wf_operand (Col c) = wf_column c"
| "wf_operand (Text s) = wf_text s"
| "wf_operand (Number n) = (n < 10 ^ max_int_digits)"
| "wf_operand (Values vs) = list_all wf_text vs"

fun is_values :: "kql_term \<Rightarrow> bool" where
  "is_values (Values vs) = True"
| "is_values _ = False"

definition NAMED_OPS :: "string list" where
  "NAMED_OPS = [''contains'', ''startswith'', ''endswith'', ''has'', ''in'', ''matches'']"

fun wf_expr :: "kql_expr \<Rightarrow> bool" where
  "wf_expr (Truthy c) = wf_column c"
| "wf_expr (Compare oper a b) \<longleftrightarrow> oper \<in> set COMPARISON_OPS \<and> wf_operand a \<and> wf_operand b \<and> \<not> is_values a"
| "wf_expr (Test oper a b) \<longleftrightarrow> oper \<in> set NAMED_OPS \<and> wf_operand a \<and> wf_operand b \<and> \<not> is_values a"
| "wf_expr (Not e) = wf_expr e"
| "wf_expr (And a b) \<longleftrightarrow> wf_expr a \<and> wf_expr b"
| "wf_expr (Or a b) \<longleftrightarrow> wf_expr a \<and> wf_expr b"

fun nesting :: "kql_expr \<Rightarrow> nat" where
  "nesting (Not e) = nesting e"
| "nesting (And a b) = Suc (max (nesting a) (nesting b))"
| "nesting (Or a b) = Suc (max (nesting a) (nesting b))"
| "nesting _ = 0"

fun term_tokens :: "kql_term \<Rightarrow> kql_token list" where
  "term_tokens (Col c) = [(K_word, c)]"
| "term_tokens (Text s) = [(K_string, dquoted s)]"
| "term_tokens (Number n) = [(K_number, str_of_nat n)]"
| "term_tokens (Values vs) = (K_op, ''('') # concat (map (\<lambda>v. [(K_string, dquoted v), (K_op, '','')]) vs) @ [(K_op, '')'')]"

fun expr_tokens :: "kql_expr \<Rightarrow> kql_token list" where
  "expr_tokens (Truthy c) = [(K_word, c)]"
| "expr_tokens (Compare oper a b) = term_tokens a @ (K_op, oper) # term_tokens b"
| "expr_tokens (Test oper a b) = term_tokens a @ (K_word, oper) # term_tokens b"
| "expr_tokens (Not e) = (K_word, ''not'') # expr_tokens e"
| "expr_tokens (And a b) = (K_op, ''('') # expr_tokens a @ (K_word, ''and'') # expr_tokens b @ [(K_op, '')'')]"
| "expr_tokens (Or a b) = (K_op, ''('') # expr_tokens a @ (K_word, ''or'') # expr_tokens b @ [(K_op, '')'')]"

text \<open>The parser reads the tokens of a tree back.\<close>

lemma word_lower_char: "is_word_char c \<Longrightarrow> is_word_char (lower_char c)"
  by (auto simp: char_class_defs)

lemma word_lower: "list_all is_word_char s \<Longrightarrow> list_all is_word_char (lower s)"
  by (simp add: lower_def list_all_iff word_lower_char)

lemma not_word_chars: "\<not> is_word_char CHR ''(''" "\<not> is_word_char CHR '')''" "\<not> is_word_char CHR 0x22"
  by (simp_all add: char_class_defs)

lemma column_facts:
  assumes "wf_column c"
  shows "c \<noteq> []" "list_all is_word_char c" "lower c \<notin> set RESERVED" "lower c \<noteq> ''(''" "c \<noteq> ''(''" "c \<noteq> '')''"
  using assms word_lower [of c] not_word_chars by (auto simp: wf_column_def is_table_name_def)

lemma lower_dquoted: "lower (dquoted s) = CHR 0x22 # lower s @ [CHR 0x22]"
  by (simp add: dquoted_def lower_def lower_char_def is_upper_def)

lemma unquoted_dquoted [simp]: "unquoted (dquoted s) = s"
  by (simp add: unquoted_def dquoted_def)

lemma lower_digits: "list_all is_digit s \<Longrightarrow> lower s = s"
  by (induction s) (auto simp: lower_def lower_char_def is_upper_def is_digit_def)

lemma number_text: "list_all is_digit (str_of_nat n)" "lower (str_of_nat n) = str_of_nat n"
  using str_of_nat_digits lower_digits by blast+

lemma digits_not_word: "list_all is_digit s \<Longrightarrow> w \<noteq> [] \<Longrightarrow> \<not> is_digit (hd w) \<Longrightarrow> s \<noteq> w"
  by (cases w) auto

lemma value_tokens:
  "value_list (concat (map (\<lambda>v. [(K_string, dquoted v), (K_op, '','')]) vs) @ (K_op, '')'') # r) = Inr (map VStr vs, r)"
  by (induction vs) (simp_all add: list_item_def dquoted_def unquoted_def)

lemma number_literal_nat: "n < 10 ^ max_int_digits \<Longrightarrow> number_literal (str_of_nat n) = Inr (VInt (int n))"
proof -
  have "CHR ''.'' \<notin> set (str_of_nat n)" using number_text(1) [of n] by (auto simp: list_all_iff is_digit_def)
  then show "n < 10 ^ max_int_digits \<Longrightarrow> ?thesis" by (simp add: number_literal_def int_of_str_of_nat)
qed

lemma operand_read:
  assumes "wf_operand t"
  shows "parse_operand now (term_tokens t @ r) = Inr (term_value t, r)"
proof (cases t)
  case (Col c)
  then have "lower c \<notin> set TIME_FUNCTIONS" "c \<noteq> ''(''"
    using assms column_facts [of c] by (auto simp: RESERVED_def TIME_FUNCTIONS_def)
  then show ?thesis using Col by (auto simp: parse_operand_def)
next
  case (Text s)
  then show ?thesis by (auto simp: parse_operand_def)
next
  case (Number n)
  then show ?thesis using assms number_literal_nat by (auto simp: parse_operand_def)
next
  case (Values vs)
  then show ?thesis by (auto simp: parse_operand_def value_tokens)
qed

text \<open>The first token of an operand that is not a value list opens no bracket and is no keyword.\<close>

definition plain_front :: "kql_token list \<Rightarrow> bool" where
  "plain_front ts \<longleftrightarrow> ts \<noteq> [] \<and> lower (snd (hd ts)) \<notin> set [''('', ''not'', ''regex'', ''or'', ''and'']"

lemma term_front: "wf_operand t \<Longrightarrow> \<not> is_values t \<Longrightarrow> plain_front (term_tokens t @ r)"
proof (cases t)
  case (Col c)
  assume "wf_operand t"
  then show ?thesis using Col column_facts [of c] by (auto simp: plain_front_def RESERVED_def)
next
  case (Number n)
  have "str_of_nat n \<noteq> w" if "w \<in> set [''('', ''not'', ''regex'', ''or'', ''and'']" for w
    using that by (intro digits_not_word [OF number_text(1)]) (auto simp: is_digit_def)
  then show ?thesis using Number by (auto simp: plain_front_def number_text(2))
qed (auto simp: plain_front_def lower_dquoted)

lemma regex_front: "wf_operand t \<Longrightarrow> \<not> next_is ''regex'' (term_tokens t @ r)"
proof (cases t)
  case (Values vs)
  then show ?thesis by (simp add: next_is_def lower_def lower_char_def is_upper_def)
qed (use term_front [of t r] in \<open>auto simp: plain_front_def next_is_def\<close>)

definition stops :: "kql_token list \<Rightarrow> bool" where
  "stops r \<longleftrightarrow> r = [] \<or> lower (snd (hd r)) \<in> set ['')'', ''or'', ''and'']"

lemma lower_keywords:
  "w \<in> set [''('', '')'', ''not'', ''or'', ''and''] \<Longrightarrow> lower w = w"
  "w \<in> set COMPARISON_OPS \<Longrightarrow> lower w = w"
  "w \<in> set NAMED_OPS \<Longrightarrow> lower w = w"
  by (auto simp: COMPARISON_OPS_def NAMED_OPS_def lower_def lower_char_def is_upper_def)

lemma truth_read:
  assumes "wf_column c" "stops r"
  shows "read_comparison engine now inner ((K_word, c) # r) = Inr (\<lambda>row. Inr (truthy (dict_get row c)), r)"
proof -
  have t: "truth_of (term_value (Col c)) = (\<lambda>row. Inr (truthy (dict_get row c)))" by (rule ext) (simp add: truth_of_def kval_truthy_def)
  have n: "\<not> next_is ''('' ((K_word, c) # r)" using column_facts [OF assms(1)] by (simp add: next_is_def)
  have p: "parse_operand now ((K_word, c) # r) = Inr (term_value (Col c), r)" using operand_read [of "Col c" now r] assms(1) by simp
  show ?thesis
  proof (cases r)
    case Nil
    then show ?thesis using n p t by (simp add: read_comparison_def)
  next
    case (Cons tok r')
    obtain k w where tok: "tok = (k, w)" by (cases tok)
    have "lower w \<notin> set COMPARISON_OPS" "lower w \<notin> set STRING_OPS"
      using assms(2) by (auto simp: Cons tok stops_def COMPARISON_OPS_def STRING_OPS_def)
    then show ?thesis using n p t by (simp add: read_comparison_def Cons tok)
  qed
qed

lemma compare_read:
  assumes "oper \<in> set COMPARISON_OPS" "wf_operand a" "wf_operand b" "\<not> is_values a"
  shows "read_comparison engine now inner (term_tokens a @ (K_op, oper) # term_tokens b @ r) =
    Inr (comparison oper (term_value a) (term_value b), r)"
proof -
  have "\<not> next_is ''('' (term_tokens a @ (K_op, oper) # term_tokens b @ r)"
    using term_front [OF assms(2,4)] by (auto simp: plain_front_def next_is_def)
  then show ?thesis
    using assms(1) by (simp add: read_comparison_def operand_read assms lower_keywords)
qed

lemma named_not_comparison: "w \<in> set NAMED_OPS \<Longrightarrow> w \<in> set STRING_OPS"
  by (auto simp: NAMED_OPS_def STRING_OPS_def)

lemma test_read:
  assumes "oper \<in> set NAMED_OPS" "wf_operand a" "wf_operand b" "\<not> is_values a"
  shows "read_comparison engine now inner (term_tokens a @ (K_word, oper) # term_tokens b @ r) =
    Inr (string_op engine oper (term_value a) (term_value b), r)"
proof -
  have "\<not> next_is ''('' (term_tokens a @ (K_word, oper) # term_tokens b @ r)"
    using term_front [OF assms(2,4)] by (auto simp: plain_front_def next_is_def)
  then show ?thesis
    using named_not_comparison [OF assms(1)] by (simp add: read_comparison_def operand_read assms lower_keywords regex_front)
qed

lemma parse_not_plain: "ts \<noteq> [] \<Longrightarrow> lower (snd (hd ts)) \<noteq> ''not'' \<Longrightarrow> parse_not p ts = p ts"
  by (cases ts) auto

lemma chain_stops: "\<not> next_is w r \<Longrightarrow> kql_chain k w j p left r = Inr (left, r)"
  by (simp add: kql_chain.simps)

lemma chain_once:
  assumes "p (a @ (k, w) # b @ r) = Inr (f, (k, w) # b @ r)" "p (b @ r) = Inr (g, r)" "lower w = w" "\<not> next_is w r"
  shows "parse_chain w j p (a @ (k, w) # b @ r) = Inr (j f g, r)"
  using assms by (simp add: parse_chain_def kql_chain.simps [of "Suc n" for n] next_is_def chain_stops [unfolded next_is_def])

lemma chain_none: "p ts = Inr (f, r) \<Longrightarrow> \<not> next_is w r \<Longrightarrow> parse_chain w j p ts = Inr (f, r)"
  by (simp add: parse_chain_def chain_stops)

lemma holds_preds:
  "holds engine (Truthy c) = (\<lambda>row. Inr (truthy (dict_get row c)))"
  "holds engine (Compare oper a b) = comparison oper (term_value a) (term_value b)"
  "holds engine (Test oper a b) = string_op engine oper (term_value a) (term_value b)"
  "holds engine (Not e) = pred_not (holds engine e)"
  "holds engine (And e f) = pred_and (holds engine e) (holds engine f)"
  "holds engine (Or e f) = pred_or (holds engine e) (holds engine f)"
  by (rule ext; simp add: pred_not_def pred_and_def pred_or_def map_sum.simps split: sum.split)+

lemma brackets_read:
  assumes "inner ts = Inr (f, (K_op, '')'') # r)"
  shows "parse_not (read_comparison engine now inner) ((K_op, ''('') # ts) = Inr (f, r)"
  using assms by (simp add: read_comparison_def next_is_def lower_keywords)

lemma tokens_read:
  "nesting e \<le> d \<Longrightarrow> wf_expr e \<Longrightarrow> stops r \<Longrightarrow>
   parse_not (read_comparison engine now (parse_or engine now d)) (expr_tokens e @ r) = Inr (holds engine e, r)"
proof (induction e arbitrary: d r)
  case (Truthy c)
  then show ?case using truth_read [of c r] column_facts [of c] by (simp add: holds_preds RESERVED_def)
next
  case (Compare oper a b)
  then show ?case
    using compare_read [of oper a b engine now "parse_or engine now d" r] term_front [of a "(K_op, oper) # term_tokens b @ r"]
    by (simp add: holds_preds parse_not_plain plain_front_def)
next
  case (Test oper a b)
  then show ?case
    using test_read [of oper a b engine now "parse_or engine now d" r] term_front [of a "(K_word, oper) # term_tokens b @ r"]
    by (simp add: holds_preds parse_not_plain plain_front_def)
next
  case (Not e)
  then show ?case by (simp add: holds_preds lower_keywords)
next
  case (And a b)
  then obtain k where d: "d = Suc k" by (cases d) auto
  let ?p = "parse_not (read_comparison engine now (parse_or engine now k))"
  let ?r = "(K_op, '')'') # r"
  have "?p (expr_tokens a @ (K_word, ''and'') # expr_tokens b @ ?r) = Inr (holds engine a, (K_word, ''and'') # expr_tokens b @ ?r)"
    "?p (expr_tokens b @ ?r) = Inr (holds engine b, ?r)"
    using And.IH(1) [of k] And.IH(2) [of k] And.prems d by (simp_all add: stops_def lower_keywords)
  then have "parse_or engine now d (expr_tokens a @ (K_word, ''and'') # expr_tokens b @ ?r) =
      Inr (pred_and (holds engine a) (holds engine b), ?r)"
    unfolding d parse_or.simps by (intro chain_none chain_once) (simp_all add: next_is_def lower_keywords)
  from brackets_read [where inner = "parse_or engine now d", OF this] show ?case by (simp add: holds_preds lower_keywords)
next
  case (Or a b)
  then obtain k where d: "d = Suc k" by (cases d) auto
  let ?p = "parse_not (read_comparison engine now (parse_or engine now k))"
  let ?r = "(K_op, '')'') # r"
  have "?p (expr_tokens a @ (K_word, ''or'') # expr_tokens b @ ?r) = Inr (holds engine a, (K_word, ''or'') # expr_tokens b @ ?r)"
    "?p (expr_tokens b @ ?r) = Inr (holds engine b, ?r)"
    using Or.IH(1) [of k] Or.IH(2) [of k] Or.prems d by (simp_all add: stops_def lower_keywords)
  then have "parse_or engine now d (expr_tokens a @ (K_word, ''or'') # expr_tokens b @ ?r) =
      Inr (pred_or (holds engine a) (holds engine b), ?r)"
    unfolding d parse_or.simps by (intro chain_none chain_once) (simp_all add: next_is_def lower_keywords)
  from brackets_read [where inner = "parse_or engine now d", OF this] show ?case by (simp add: holds_preds lower_keywords)
qed

lemma predicate_read:
  assumes "wf_expr e" "nesting e < KQL_MAX_DEPTH"
  shows "parse_predicate engine now (expr_tokens e) = Inr (holds engine e)"
proof -
  obtain d where d: "KQL_MAX_DEPTH = Suc d" "nesting e \<le> d" using assms(2) by (cases KQL_MAX_DEPTH) auto
  have "parse_not (read_comparison engine now (parse_or engine now d)) (expr_tokens e) = Inr (holds engine e, [])"
    using tokens_read [OF d(2) assms(1), of "[]"] by (simp add: stops_def)
  then have "parse_or engine now KQL_MAX_DEPTH (expr_tokens e) = Inr (holds engine e, [])"
    unfolding d(1) parse_or.simps by (intro chain_none) (simp_all add: next_is_def)
  then show ?thesis by (simp add: parse_predicate_def)
qed

text \<open>The loops never run out of fuel: an operand gives back no more tokens than it was given.\<close>

definition shrinks :: "('a list \<Rightarrow> kql_failure + 'b \<times> 'a list) \<Rightarrow> bool" where
  "shrinks p \<longleftrightarrow> (\<forall>ts. p ts \<noteq> Inl Kql_fuel \<and> (\<forall>f r. p ts = Inr (f, r) \<longrightarrow> length r \<le> length ts))"

lemma shrinksI: "(\<And>ts. p ts \<noteq> Inl Kql_fuel) \<Longrightarrow> (\<And>ts f r. p ts = Inr (f, r) \<Longrightarrow> length r \<le> length ts) \<Longrightarrow> shrinks p"
  by (simp add: shrinks_def)

lemma shrinksD: "shrinks p \<Longrightarrow> p ts \<noteq> Inl Kql_fuel" "shrinks p \<Longrightarrow> p ts = Inr (f, r) \<Longrightarrow> length r \<le> length ts"
  by (simp_all add: shrinks_def)

lemma number_literal_no_fuel: "number_literal t \<noteq> Inl Kql_fuel"
  by (simp add: number_literal_def split: option.split)

lemma shrinks_value_list: "shrinks value_list"
proof (rule shrinksI)
  fix ts
  show "value_list ts \<noteq> Inl Kql_fuel"
    by (induction ts) (auto simp: END_def list_item_def number_literal_no_fuel split: sum.splits prod.splits kql_kind.splits)
next
  fix ts f r
  show "value_list ts = Inr (f, r) \<Longrightarrow> length r \<le> length ts"
    by (induction ts arbitrary: f r) (fastforce split: sum.splits if_splits)+
qed

lemma shrinks_raw_argument: "shrinks raw_argument"
proof (rule shrinksI)
  fix ts
  show "raw_argument ts \<noteq> Inl Kql_fuel" by (induction ts) (auto simp: END_def split: sum.splits)
next
  fix ts f r
  show "raw_argument ts = Inr (f, r) \<Longrightarrow> length r \<le> length ts"
    by (induction ts arbitrary: f r) (fastforce split: sum.splits if_splits)+
qed

lemma timespan_no_fuel: "timespan t \<noteq> Inl Kql_fuel"
  by (simp add: timespan_def Let_def quoted_in_def float_micros_def split: option.split pyfloat.split)

lemma shrinks_time_function: "shrinks (time_function now name)"
proof (rule shrinksI)
  fix ts
  show "time_function now name ts \<noteq> Inl Kql_fuel"
    using shrinksD(1) [OF shrinks_raw_argument, of "tl ts"] timespan_no_fuel
    by (auto simp: time_function_def quoted_in_def split: sum.splits prod.splits option.splits)
next
  fix ts f r assume "time_function now name ts = Inr (f, r)"
  then obtain t where "raw_argument (tl ts) = Inr (t, r)"
    by (auto simp: time_function_def quoted_in_def split: sum.splits prod.splits option.splits if_splits)
  from shrinksD(2) [OF shrinks_raw_argument this] show "length r \<le> length ts" by simp
qed

lemma shrinks_operand: "shrinks (parse_operand now)"
proof (rule shrinksI)
  fix ts
  show "parse_operand now ts \<noteq> Inl Kql_fuel"
    using shrinksD(1) [OF shrinks_value_list] shrinksD(1) [OF shrinks_time_function] number_literal_no_fuel
    by (auto simp: parse_operand_def END_def split: sum.splits list.splits)
next
  fix ts f r assume "parse_operand now ts = Inr (f, r)"
  then consider "ts \<noteq> []" "r = tl ts" | vs where "value_list (tl ts) = Inr (vs, r)"
    | name f where "time_function now name (tl ts) = Inr (f, r)"
    by (auto simp: parse_operand_def split: sum.splits list.splits if_splits)
  then show "length r \<le> length ts"
    using shrinksD(2) [OF shrinks_value_list] shrinksD(2) [OF shrinks_time_function] by cases fastforce+
qed

lemma shrinks_not: "shrinks p \<Longrightarrow> shrinks (parse_not p)"
proof (rule shrinksI)
  fix ts assume "shrinks p"
  then show "parse_not p ts \<noteq> Inl Kql_fuel" by (induction ts) (auto dest: shrinksD split: sum.splits)
next
  fix ts f r assume "shrinks p"
  then show "parse_not p ts = Inr (f, r) \<Longrightarrow> length r \<le> length ts"
    by (induction ts arbitrary: f r) (fastforce dest: shrinksD split: sum.splits if_splits)+
qed

lemma shrinks_loop:
  "shrinks p \<Longrightarrow> length ts \<le> k \<Longrightarrow>
   kql_chain k w j p left ts \<noteq> Inl Kql_fuel \<and> (\<forall>f r. kql_chain k w j p left ts = Inr (f, r) \<longrightarrow> length r \<le> length ts)"
proof (induction k arbitrary: left ts)
  case 0
  then show ?case by (simp add: kql_chain.simps [of 0] next_is_def)
next
  case (Suc k)
  show ?case
  proof (cases "next_is w ts")
    case True
    then have ne: "ts \<noteq> []" by (simp add: next_is_def)
    show ?thesis
    proof (cases "p (tl ts)")
      case (Inl e)
      then show ?thesis using True shrinksD(1) [OF Suc.prems(1), of "tl ts"] by (simp add: kql_chain.simps [of "Suc k"])
    next
      case (Inr fr)
      obtain f r where fr: "fr = (f, r)" by (cases fr)
      have le: "length r \<le> length (tl ts)" using shrinksD(2) [OF Suc.prems(1)] Inr fr by blast
      with ne Suc.prems(2) have "length r \<le> k" "length r \<le> length ts" by simp_all
      then show ?thesis using Suc.IH [OF Suc.prems(1), of r "j left f"] True Inr fr
        by (fastforce simp: kql_chain.simps [of "Suc k"])
    qed
  qed (simp add: chain_stops)
qed

lemma shrinks_chain: "shrinks p \<Longrightarrow> shrinks (parse_chain w j p)"
proof (rule shrinksI)
  fix ts assume "shrinks p"
  then show "parse_chain w j p ts \<noteq> Inl Kql_fuel"
    using shrinks_loop [of p r "length r" w j f for r f] shrinksD(1) [of p ts]
    by (auto simp: parse_chain_def split: sum.splits)
next
  fix ts f r assume p: "shrinks p" and c: "parse_chain w j p ts = Inr (f, r)"
  then obtain g q where q: "p ts = Inr (g, q)" "kql_chain (length q) w j p g q = Inr (f, r)"
    by (auto simp: parse_chain_def split: sum.splits)
  have "length r \<le> length q" using shrinks_loop [OF p order_refl] q(2) by blast
  then show "length r \<le> length ts" using shrinksD(2) [OF p q(1)] by simp
qed

lemma shrinks_comparison: "shrinks inner \<Longrightarrow> shrinks (read_comparison engine now inner)"
proof (rule shrinksI)
  fix ts assume "shrinks inner"
  then show "read_comparison engine now inner ts \<noteq> Inl Kql_fuel"
    using shrinksD(1) [of inner "tl ts"] shrinksD(1) [OF shrinks_operand]
    by (auto simp: read_comparison_def split: sum.splits prod.splits list.splits)
next
  fix ts f r assume i: "shrinks inner" and c: "read_comparison engine now inner ts = Inr (f, r)"
  show "length r \<le> length ts"
  proof (cases "next_is ''('' ts")
    case True
    then obtain g q where "inner (tl ts) = Inr (g, q)" "r = tl q"
      using c by (auto simp: read_comparison_def split: sum.splits if_splits)
    then show ?thesis using shrinksD(2) [OF i, of "tl ts"] by fastforce
  next
    case False
    then obtain left q where q: "parse_operand now ts = Inr (left, q)" using c by (auto simp: read_comparison_def split: sum.splits)
    have "length r \<le> length q"
    proof (cases q)
      case Nil
      then show ?thesis using c False q by (simp add: read_comparison_def)
    next
      case (Cons tok q')
      obtain k t where tok: "tok = (k, t)" by (cases tok)
      from c False q Cons tok consider "r = q"
        | g where "parse_operand now q' = Inr (g, r)" | g where "parse_operand now (tl q') = Inr (g, r)"
        by (auto simp: read_comparison_def split: sum.splits if_splits)
      then show ?thesis using shrinksD(2) [OF shrinks_operand] Cons by cases fastforce+
    qed
    then show ?thesis using shrinksD(2) [OF shrinks_operand q] by simp
  qed
qed

lemma shrinks_or: "shrinks (parse_or engine now d)"
proof (induction d)
  case 0
  show ?case by (simp add: shrinks_def)
next
  case (Suc d)
  have "shrinks (parse_chain ''or'' pred_or (parse_chain ''and'' pred_and (parse_not (read_comparison engine now (parse_or engine now d)))))"
    by (intro shrinks_chain shrinks_not shrinks_comparison Suc)
  then show ?case by (simp add: shrinks_def)
qed

lemma predicate_no_fuel: "parse_predicate engine now ts \<noteq> Inl Kql_fuel"
  using shrinksD(1) [OF shrinks_or] by (auto simp: parse_predicate_def quoted_in_def split: sum.splits)

text \<open>The tokeniser reads a printed tree.\<close>

definition push :: "kql_token list \<Rightarrow> kql_token list kql \<Rightarrow> kql_token list kql" where
  "push ts x = (case x of Inl e \<Rightarrow> Inl e | Inr us \<Rightarrow> Inr (ts @ us))"

lemma push_push [simp]: "push ts (push us x) = push (ts @ us) x"
  by (simp add: push_def split: sum.split)

lemma push_Nil [simp]: "push [] x = x"
  by (simp add: push_def split: sum.split)

definition delim :: "string \<Rightarrow> bool" where
  "delim r \<longleftrightarrow> r = [] \<or> hd r \<in> set '' ),''"

lemma delim_simps [simp]: "delim []" "delim (CHR '' '' # r)" "delim (CHR '')'' # r)" "delim (CHR '','' # r)"
  by (simp_all add: delim_def)

lemma tokens_space [simp]: "kql_tokens pos (CHR '' '' # r) = kql_tokens (Suc pos) r"
proof -
  have s: "is_space CHR '' ''" by (simp add: is_space_def)
  have drop: "kql_tokens p q = kql_tokens (p + (length q - length (dropWhile is_space q))) (dropWhile is_space q)" for p q
  proof (cases q)
    case (Cons c cs)
    then show ?thesis using length_dropWhile_le [of is_space cs] by (cases "is_space c") (simp_all add: kql_tokens.simps [of p "c # cs"] Let_def)
  qed simp
  have "kql_tokens pos (CHR '' '' # r) = kql_tokens (pos + (Suc (length r) - length (dropWhile is_space r))) (dropWhile is_space r)"
    by (simp add: kql_tokens.simps [of pos "CHR '' '' # r"] s Let_def)
  also have "\<dots> = kql_tokens (Suc pos + (length r - length (dropWhile is_space r))) (dropWhile is_space r)"
    using length_dropWhile_le [of is_space r] by (simp add: Suc_diff_le)
  finally show ?thesis using drop [of "Suc pos" r] by simp
qed

lemma token_step:
  assumes "kql_lex1 (t @ r) = Some (tok, r)" "t \<noteq> []" "\<not> is_space (hd t)"
  shows "kql_tokens pos (t @ r) = push [tok] (kql_tokens (pos + length t) r)"
proof -
  obtain c cs where t: "t = c # cs" using assms(2) by (cases t) auto
  show ?thesis using assms by (simp add: kql_tokens.simps [of pos "c # cs @ r"] push_def t split: sum.split)
qed

lemma ident_plain:
  "is_ident_start c \<Longrightarrow> \<not> is_space c \<and> \<not> is_quote c \<and> \<not> is_digit c \<and> c \<noteq> CHR ''-'' \<and> c \<notin> set ''()=<>!,''"
  by (auto simp: char_class_defs is_quote_def)

lemma word_kql: "is_word_char c \<Longrightarrow> is_kql_word c"
  by (auto simp: char_class_defs is_kql_word_def)

lemma two_char_front: "c \<notin> set ''=!<>'' \<Longrightarrow> take 2 (c # cs) \<notin> set TWO_CHAR_OPS"
  by (auto simp: TWO_CHAR_OPS_def)

lemma delim_front: "delim (c # q) \<Longrightarrow> \<not> is_kql_word c \<and> \<not> is_digit c \<and> c \<noteq> CHR ''.''"
proof -
  have "list_all (\<lambda>c. \<not> is_kql_word c \<and> \<not> is_digit c \<and> c \<noteq> CHR ''.'') '' ),''" by code_simp
  moreover assume "delim (c # q)"
  then have "c \<in> set '' ),''" by (simp only: delim_def list.sel list.distinct simp_thms)
  ultimately show ?thesis unfolding list_all_iff by (rule bspec)
qed

lemma kql_lex_word:
  assumes "is_table_name w" "delim r"
  shows "kql_lex1 (w @ r) = Some ((K_word, w), r)"
proof -
  obtain c cs where w: "w = c # cs" using assms(1) by (cases w) (auto simp: is_table_name_def)
  have c: "is_ident_start c" and all: "list_all is_kql_word w"
    using assms(1) word_kql by (auto simp: is_table_name_def w list_all_iff)
  have r: "takeWhile is_kql_word r = []" "dropWhile is_kql_word r = r"
    using assms(2) delim_front by (cases r; simp)+
  have split: "takeWhile is_kql_word (w @ r) = w" "dropWhile is_kql_word (w @ r) = r"
    using all r by (simp_all add: list_all_iff)
  have "kql_number_length (w @ r) = 0" using ident_plain [OF c] by (simp add: w kql_number_length_def)
  moreover have "take 2 (w @ r) \<notin> set TWO_CHAR_OPS" using two_char_front [of c "cs @ r"] ident_plain [OF c] by (simp add: w)
  ultimately show ?thesis using ident_plain [OF c] all split by (simp add: w kql_lex1_def)
qed

lemma lex_dquoted:
  assumes "CHR 0x22 \<notin> set s" "CHR 0x5C \<notin> set s"
  shows "kql_lex1 (dquoted s @ r) = Some ((K_string, dquoted s), r)"
proof -
  have "string_rest CHR 0x22 (s @ CHR 0x22 # r) = Some (s @ [CHR 0x22], r)" using assms by (induction s) auto
  then show ?thesis by (simp add: dquoted_def kql_lex1_def is_quote_def)
qed

lemma kql_lex_number:
  assumes "delim r"
  shows "kql_lex1 (str_of_nat n @ r) = Some ((K_number, str_of_nat n), r)"
proof -
  obtain c cs where w: "str_of_nat n = c # cs" by (cases "str_of_nat n") auto
  have d: "list_all is_digit (str_of_nat n)" by (rule str_of_nat_digits)
  then have c: "is_digit c" by (simp add: w)
  then have nq: "c \<noteq> CHR ''-''" "\<not> is_quote c" by (auto simp: is_digit_def is_quote_def)
  have r: "takeWhile is_digit r = []" "r \<noteq> [] \<Longrightarrow> hd r \<noteq> CHR ''.''"
    using assms delim_front by (cases r; simp)+
  have "takeWhile is_digit (str_of_nat n @ r) = str_of_nat n" using d r(1) by (simp add: list_all_iff)
  then have "kql_number_length (str_of_nat n @ r) = length (str_of_nat n)"
    using nq r(2) by (cases "r = []") (simp_all add: kql_number_length_def Let_def w)
  then show ?thesis using nq by (simp add: kql_lex1_def w)
qed

lemma lex_bracket: "c \<in> set ''(),'' \<Longrightarrow> kql_lex1 (c # r) = Some ((K_op, [c]), r)"
  using two_char_front [of c r] by (auto simp: kql_lex1_def is_quote_def kql_number_length_def is_digit_def)

lemma lex_comparison: "oper \<in> set COMPARISON_OPS \<Longrightarrow> kql_lex1 (oper @ CHR '' '' # r) = Some ((K_op, oper), CHR '' '' # r)"
  by (auto simp: COMPARISON_OPS_def kql_lex1_def is_quote_def kql_number_length_def is_digit_def TWO_CHAR_OPS_def)

lemma tokens_bracket [simp]: "kql_tokens pos (c # r) = push [(K_op, [c])] (kql_tokens (Suc pos) r)" if "c \<in> set ''(),''"
  using token_step [of "[c]" r] lex_bracket [OF that] that by (auto simp: is_space_def)

lemma tokens_word: "is_table_name w \<Longrightarrow> delim r \<Longrightarrow> kql_tokens pos (w @ r) = push [(K_word, w)] (kql_tokens (pos + length w) r)"
  using ident_plain by (intro token_step kql_lex_word) (auto simp: is_table_name_def)

lemma tokens_dquoted: "wf_text s \<Longrightarrow> kql_tokens pos (dquoted s @ r) = push [(K_string, dquoted s)] (kql_tokens (pos + length (dquoted s)) r)"
  by (intro token_step lex_dquoted) (auto simp: wf_text_def dquoted_def is_space_def)

lemma tokens_number: "delim r \<Longrightarrow> kql_tokens pos (str_of_nat n @ r) = push [(K_number, str_of_nat n)] (kql_tokens (pos + length (str_of_nat n)) r)"
proof (intro token_step kql_lex_number)
  obtain c cs where w: "str_of_nat n = c # cs" by (cases "str_of_nat n") auto
  have "is_digit c" using str_of_nat_digits [of n] by (simp add: w)
  then show "\<not> is_space (hd (str_of_nat n))" by (simp add: w is_digit_def is_space_def)
qed simp_all

lemma tokens_values:
  "list_all wf_text vs \<Longrightarrow>
   kql_tokens pos (concat (map (\<lambda>v. dquoted v @ '','') vs) @ r) =
     push (concat (map (\<lambda>v. [(K_string, dquoted v), (K_op, '','')]) vs))
       (kql_tokens (pos + length (concat (map (\<lambda>v. dquoted v @ '','') vs))) r)"
  by (induction vs arbitrary: pos) (simp_all add: tokens_dquoted add.assoc)

lemma tokens_term:
  assumes "wf_operand t" "delim r"
  shows "kql_tokens pos (write_term t @ r) = push (term_tokens t) (kql_tokens (pos + length (write_term t)) r)"
proof (cases t)
  case (Col c)
  then show ?thesis using assms tokens_word [of c r] by (simp add: wf_column_def)
next
  case (Text s)
  then show ?thesis using assms tokens_dquoted [of s] by simp
next
  case (Number n)
  then show ?thesis using assms tokens_number by simp
next
  case (Values vs)
  then show ?thesis using assms tokens_values [of vs] by (simp add: ac_simps)
qed

lemma keyword_names: "w \<in> set (''and'' # ''or'' # ''not'' # NAMED_OPS) \<Longrightarrow> is_table_name w"
  by (auto simp: NAMED_OPS_def is_table_name_def char_class_defs)

lemma tokens_expr:
  "wf_expr e \<Longrightarrow> delim r \<Longrightarrow> kql_tokens pos (print_expr e @ r) = push (expr_tokens e) (kql_tokens (pos + length (print_expr e)) r)"
proof (induction e arbitrary: pos r)
  case (Truthy c)
  then show ?case using tokens_word [of c r] by (simp add: wf_column_def)
next
  case (Compare oper a b)
  have "kql_tokens p (oper @ CHR '' '' # q) = push [(K_op, oper)] (kql_tokens (p + length oper) (CHR '' '' # q))" for p q
    using Compare by (intro token_step lex_comparison) (auto simp: COMPARISON_OPS_def is_space_def)
  then show ?case using Compare by (simp add: tokens_term add.assoc add.commute add.left_commute)
next
  case (Test oper a b)
  then show ?case using keyword_names [of oper] by (simp add: tokens_term tokens_word ac_simps)
next
  case (Not e)
  then show ?case using keyword_names [of "''not''"] tokens_word [of "''not''" "CHR '' '' # print_expr e @ r" pos] by (simp add: ac_simps)
next
  case (And a b)
  then show ?case using keyword_names [of "''and''"] tokens_word [of "''and''" "CHR '' '' # print_expr b @ CHR '')'' # r"] by (simp add: ac_simps)
next
  case (Or a b)
  then show ?case using keyword_names [of "''or''"] tokens_word [of "''or''" "CHR '' '' # print_expr b @ CHR '')'' # r"] by (simp add: ac_simps)
qed

lemma tokenize_print: "wf_expr e \<Longrightarrow> kql_tokenize (print_expr e) = Inr (expr_tokens e)"
  using tokens_expr [of e "[]" 0] by (simp add: kql_tokenize_def kql_tokens.simps [of _ "[]"] push_def)

text \<open>A printed tree stands whole between the pipes of a query, and holds no comment.\<close>

definition glue :: "string \<Rightarrow> string list \<Rightarrow> string list" where
  "glue s ws = (case ws of [] \<Rightarrow> [s] | w # us \<Rightarrow> (s @ w) # us)"

lemma glue_glue [simp]: "glue s (glue t ws) = glue (s @ t) ws"
  by (simp add: glue_def split: list.split)

lemma glue_Nil [simp]: "glue [] (split_outside opens closes sep q d s) = split_outside opens closes sep q d s"
proof -
  have "split_outside opens closes sep q d s \<noteq> []" by (cases s) (auto split: option.split list.split)
  then show ?thesis by (auto simp: glue_def split: list.split)
qed

abbreviation pipes :: "nat \<Rightarrow> string \<Rightarrow> string list" where
  "pipes d s \<equiv> split_outside ''(['' '')]'' CHR ''|'' None d s"

definition solid :: "string \<Rightarrow> bool" where
  "solid s \<longleftrightarrow> (\<forall>d r. pipes d (s @ r) = glue s (pipes d r))"

definition clean :: "string \<Rightarrow> bool" where
  "clean s \<longleftrightarrow> (\<forall>r. drop_comments False (s @ r) = s @ drop_comments False r)"

lemma solid_append: "solid s \<Longrightarrow> solid t \<Longrightarrow> solid (s @ t)"
  by (simp add: solid_def)

lemma clean_append: "clean s \<Longrightarrow> clean t \<Longrightarrow> clean (s @ t)"
  by (simp add: clean_def)

lemma solid_char: "c \<notin> set ''([)]|'' \<Longrightarrow> \<not> is_quote c \<Longrightarrow> solid [c]"
  by (auto simp: solid_def pipe_step_def glue_def split: list.split)

lemma clean_char: "c \<noteq> CHR ''/'' \<Longrightarrow> clean [c]"
proof -
  assume "c \<noteq> CHR ''/''"
  then have "drop_comments False (c # r) = c # drop_comments False r" for r by (cases r) simp_all
  then show ?thesis by (simp add: clean_def)
qed

lemma solid_chars: "list_all (\<lambda>c. c \<notin> set ''([)]|'' \<and> \<not> is_quote c) s \<Longrightarrow> solid s"
proof (induction s)
  case (Cons c s)
  then show ?case using solid_append [of "[c]" s] solid_char [of c] by simp
qed (simp add: solid_def)

lemma clean_chars: "CHR ''/'' \<notin> set s \<Longrightarrow> clean s"
proof (induction s)
  case (Cons c s)
  then show ?case using clean_append [of "[c]" s] clean_char [of c] by auto
qed (simp add: clean_def)

lemma solid_brackets:
  assumes "solid s"
  shows "solid (''('' @ s @ '')'')"
proof -
  have "pipes d (''('' @ x) = glue ''('' (pipes (Suc d) x)" "pipes (Suc d) ('')'' @ x) = glue '')'' (pipes d x)" for d x
    by (auto simp: pipe_step_def is_quote_def glue_def split: list.split)
  with assms show ?thesis by (simp add: solid_def)
qed

lemma solid_dquoted: "CHR 0x22 \<notin> set s \<Longrightarrow> solid (dquoted s)"
proof -
  have "split_outside opens closes sep (Some (CHR 0x22)) d (s @ CHR 0x22 # r) = glue (s @ [CHR 0x22]) (split_outside opens closes sep None d r)"
    if "CHR 0x22 \<notin> set s" for opens closes sep d r
    using that
  proof (induction s)
    case Nil
    show ?case by (simp add: pipe_step_def glue_def split: list.split)
  next
    case (Cons c s)
    then show ?case by (auto simp: pipe_step_def glue_def split: list.split)
  qed
  then show "CHR 0x22 \<notin> set s \<Longrightarrow> ?thesis"
    by (simp add: solid_def dquoted_def pipe_step_def is_quote_def) (auto simp: glue_def split: list.split)
qed

lemma clean_dquoted:
  assumes "\<not> str_in ''//'' s"
  shows "clean (dquoted s)"
proof -
  have "drop_comments False (s @ CHR 0x22 # r) = s @ CHR 0x22 # drop_comments False r" for r
    using assms
  proof (induction s)
    case Nil
    show ?case using clean_char [of "CHR 0x22"] by (simp add: clean_def)
  next
    case (Cons c s)
    then have ih: "drop_comments False (s @ CHR 0x22 # r) = s @ CHR 0x22 # drop_comments False r" by simp
    show ?case
    proof (cases "c = CHR ''/''")
      case True
      then have "s = [] \<or> hd s \<noteq> CHR ''/''" using Cons.prems by (cases s) (auto simp: startswith_def)
      then show ?thesis using ih True by (cases s) simp_all
    next
      case False
      then show ?thesis using ih clean_char [OF False] by (simp add: clean_def)
    qed
  qed
  then show ?thesis using clean_char [of "CHR 0x22"] by (simp add: clean_def dquoted_def)
qed

lemma word_solid_clean: "is_table_name w \<Longrightarrow> solid w \<and> clean w"
proof -
  have "c \<notin> set ''([)]|'' \<and> \<not> is_quote c \<and> c \<noteq> CHR ''/''" if "is_word_char c" for c
    using that by (auto simp: char_class_defs is_quote_def)
  then show "is_table_name w \<Longrightarrow> ?thesis" by (intro conjI solid_chars clean_chars) (auto simp: is_table_name_def list_all_iff)
qed

lemma term_solid_clean:
  assumes "wf_operand t"
  shows "solid (write_term t)" "clean (write_term t)"
proof -
  have digits: "solid (str_of_nat n) \<and> clean (str_of_nat n)" for n
  proof -
    have "c \<notin> set ''([)]|'' \<and> \<not> is_quote c \<and> c \<noteq> CHR ''/''" if "is_digit c" for c
      using that by (auto simp: is_digit_def is_quote_def)
    then show ?thesis using str_of_nat_digits [of n] by (intro conjI solid_chars clean_chars) (auto simp: list_all_iff)
  qed
  have comma: "solid '',''" "clean '',''" by (simp_all add: solid_char clean_char is_quote_def)
  have empty: "solid []" "clean []" by (simp_all add: solid_def clean_def)
  have "solid (concat (map (\<lambda>v. dquoted v @ '','') vs)) \<and> clean (concat (map (\<lambda>v. dquoted v @ '','') vs))" if "list_all wf_text vs" for vs
    using that
  proof (induction vs)
    case (Cons v vs)
    then have "solid (dquoted v)" "clean (dquoted v)" by (simp_all add: wf_text_def solid_dquoted clean_dquoted)
    with Cons show ?case using solid_append [OF solid_append [OF _ comma(1)]] clean_append [OF clean_append [OF _ comma(2)]] by simp
  qed (simp add: empty)
  moreover have "clean ''(''" "clean '')''" by (simp_all add: clean_char)
  ultimately have listed: "solid (write_term (Values vs)) \<and> clean (write_term (Values vs))" if "list_all wf_text vs" for vs
    using that solid_brackets [of "concat (map (\<lambda>v. dquoted v @ '','') vs)"] clean_append [OF clean_append, of "''(''" _ "'')''"] by simp
  have "solid (write_term t) \<and> clean (write_term t)"
  proof (cases t)
    case (Col c)
    then show ?thesis using assms word_solid_clean by (simp add: wf_column_def)
  next
    case (Text s)
    then show ?thesis using assms by (simp add: wf_text_def solid_dquoted clean_dquoted)
  next
    case (Number n)
    then show ?thesis using digits by simp
  next
    case (Values vs)
    then show ?thesis using assms listed by simp
  qed
  then show "solid (write_term t)" "clean (write_term t)" by simp_all
qed

lemma keyword_solid_clean:
  assumes "oper \<in> set (COMPARISON_OPS @ NAMED_OPS)"
  shows "solid ('' '' @ oper @ '' '')" "clean ('' '' @ oper @ '' '')"
proof -
  have "list_all (\<lambda>oper. list_all (\<lambda>c. c \<notin> set ''([)]|'' \<and> \<not> is_quote c) ('' '' @ oper @ '' '') \<and> CHR ''/'' \<notin> set ('' '' @ oper @ '' ''))
      (COMPARISON_OPS @ NAMED_OPS)" by code_simp
  with assms show "solid ('' '' @ oper @ '' '')" "clean ('' '' @ oper @ '' '')"
    unfolding list_all_iff by (blast intro: solid_chars [unfolded list_all_iff] clean_chars)+
qed

lemma expr_solid: "wf_expr e \<Longrightarrow> solid (print_expr e)"
proof (induction e)
  case (Compare oper a b)
  then show ?case
    using solid_append [OF solid_append [OF term_solid_clean(1) [of a] keyword_solid_clean(1) [of oper]] term_solid_clean(1) [of b]] by simp
next
  case (Test oper a b)
  then show ?case
    using solid_append [OF solid_append [OF term_solid_clean(1) [of a] keyword_solid_clean(1) [of oper]] term_solid_clean(1) [of b]] by simp
next
  case (Not e)
  have "solid ''not ''" by (rule solid_chars) (simp add: is_quote_def)
  then show ?case using Not solid_append [of "''not ''" "print_expr e"] by simp
next
  case (And a b)
  have "solid '' and ''" by (rule solid_chars) (simp add: is_quote_def)
  then show ?case using And solid_brackets [OF solid_append [OF solid_append, of "print_expr a" "'' and ''" "print_expr b"]] by simp
next
  case (Or a b)
  have "solid '' or ''" by (rule solid_chars) (simp add: is_quote_def)
  then show ?case using Or solid_brackets [OF solid_append [OF solid_append, of "print_expr a" "'' or ''" "print_expr b"]] by simp
qed (simp add: wf_column_def word_solid_clean)

lemma expr_clean: "wf_expr e \<Longrightarrow> clean (print_expr e)"
proof (induction e)
  case (Compare oper a b)
  then show ?case
    using clean_append [OF clean_append [OF term_solid_clean(2) [of a] keyword_solid_clean(2) [of oper]] term_solid_clean(2) [of b]] by simp
next
  case (Test oper a b)
  then show ?case
    using clean_append [OF clean_append [OF term_solid_clean(2) [of a] keyword_solid_clean(2) [of oper]] term_solid_clean(2) [of b]] by simp
next
  case (Not e)
  then show ?case using clean_append [OF clean_chars [of "''not ''"]] by simp
next
  case (And a b)
  then show ?case
    using clean_append [OF clean_append [OF clean_append [OF clean_append [OF clean_chars [of "''(''"]] clean_chars [of "'' and ''"]]] clean_chars [of "'')''"]]
    by simp
next
  case (Or a b)
  then show ?case
    using clean_append [OF clean_append [OF clean_append [OF clean_append [OF clean_chars [of "''(''"]] clean_chars [of "'' or ''"]]] clean_chars [of "'')''"]]
    by simp
qed (simp add: wf_column_def word_solid_clean)

definition tight :: "string \<Rightarrow> bool" where
  "tight s \<longleftrightarrow> s \<noteq> [] \<and> \<not> is_space (hd s) \<and> \<not> is_space (last s)"

lemma tight_strip: "tight s \<Longrightarrow> strip s = s"
  by (simp add: tight_def strip_no_space)

lemma tight_append: "tight s \<Longrightarrow> tight t \<Longrightarrow> tight (s @ m @ t)"
  by (simp add: tight_def)

lemma tight_words: "s \<noteq> [] \<Longrightarrow> list_all is_word_char s \<Longrightarrow> tight s"
proof -
  have "\<not> is_space c" if "is_word_char c" for c using that by (auto simp: char_class_defs)
  then show "s \<noteq> [] \<Longrightarrow> list_all is_word_char s \<Longrightarrow> ?thesis" by (simp add: tight_def list_all_iff)
qed

lemma tight_brackets: "tight (CHR ''('' # s @ '')'')" "tight (dquoted s)"
  by (simp_all add: tight_def dquoted_def is_space_def)

lemma tight_term: "wf_operand t \<Longrightarrow> tight (write_term t)"
proof (cases t)
  case (Number n)
  have "list_all is_word_char (str_of_nat n)" using str_of_nat_digits [of n] by (auto simp: list_all_iff is_word_char_def)
  then show ?thesis using Number tight_words by simp
qed (auto simp: tight_brackets tight_words wf_column_def is_table_name_def)

lemma tight_expr: "wf_expr e \<Longrightarrow> tight (print_expr e)"
proof (induction e)
  case (Compare oper a b)
  then show ?case using tight_append [of "write_term a" "write_term b" "'' '' @ oper @ '' ''"] by (simp add: tight_term)
next
  case (Test oper a b)
  then show ?case using tight_append [of "write_term a" "write_term b" "'' '' @ oper @ '' ''"] by (simp add: tight_term)
next
  case (Not e)
  have "tight ''not''" by (simp add: tight_def is_space_def)
  then show ?case using Not tight_append [of "''not''" "print_expr e" "'' ''"] by simp
next
  case (And a b)
  show ?case using tight_brackets(1) [of "print_expr a @ '' and '' @ print_expr b"] by simp
next
  case (Or a b)
  show ?case using tight_brackets(1) [of "print_expr a @ '' or '' @ print_expr b"] by simp
qed (auto simp: tight_words wf_column_def is_table_name_def)

lemma strip_spaced: "tight s \<Longrightarrow> strip ('' '' @ s) = s" "tight s \<Longrightarrow> strip (s @ '' '') = s"
proof -
  have sp: "is_space CHR '' ''" by (simp add: is_space_def)
  show "tight s \<Longrightarrow> strip ('' '' @ s) = s" using tight_strip [of s] by (simp add: strip_def lstrip_def sp)
  show "tight s \<Longrightarrow> strip (s @ '' '') = s"
    using tight_strip [of s] by (cases s) (simp_all add: strip_def lstrip_def rstrip_def sp tight_def)
qed

lemma hunting_filter_read:
  assumes "is_table_name table" "wf_expr e" "nesting e < KQL_MAX_DEPTH"
  shows "parse_kql (VStr (table @ '' | where '' @ print_expr e)) = Inr (table, [(''where'', print_expr e)]) \<and>
    evaluate_kql engine now [(''where'', print_expr e)] rows = keep_rows (holds engine e) rows"
proof
  let ?q = "table @ '' | where '' @ print_expr e"
  note whole = word_solid_clean [OF assms(1)] expr_solid [OF assms(2)] expr_clean [OF assms(2)]
  have tight: "tight table" "tight (print_expr e)" "tight (''where '' @ print_expr e)"
    using assms(1) tight_words [of table] tight_expr [OF assms(2)] tight_append [of "''where''" "print_expr e" "'' ''"]
    by (auto simp: is_table_name_def tight_def is_space_def)
  have "clean ?q" using whole clean_append [OF clean_append, of table "'' | where ''" "print_expr e"] clean_chars [of "'' | where ''"] by simp
  then have d: "drop_comments False ?q = ?q" unfolding clean_def by (metis append_Nil2 drop_comments.simps(3))
  have s: "strip ?q = ?q" using tight_strip [OF tight_append [OF tight(1,2), of "'' | where ''"]] by simp
  have "solid ('' where '' @ print_expr e)" using whole solid_append [of "'' where ''" "print_expr e"] solid_chars [of "'' where ''"] by (simp add: is_quote_def)
  then have b: "pipes 0 ('' where '' @ print_expr e) = ['' where '' @ print_expr e]"
    unfolding solid_def by (metis append_Nil2 glue_def list.case(2) split_outside.simps(1))
  have "solid (table @ '' '')" using whole solid_append [of table "'' ''"] solid_chars [of "'' ''"] by (simp add: is_quote_def)
  then have "pipes 0 ((table @ '' '') @ ''|'' @ '' where '' @ print_expr e) = glue (table @ '' '') (pipes 0 (''|'' @ '' where '' @ print_expr e))"
    unfolding solid_def by blast
  also have "\<dots> = [table @ '' '', '' where '' @ print_expr e]"
    using b by (simp add: pipe_step_def is_quote_def glue_def)
  finally have "split_pipeline ?q = [table, ''where '' @ print_expr e]"
    using strip_spaced(2) [OF tight(1)] strip_spaced(1) [OF tight(3)] tight by (simp add: split_pipeline_def tight_def)
  moreover have "parse_operator (''where '' @ print_expr e) = Inr (''where'', print_expr e)"
    using tight_strip [OF tight(2)] tight_strip [of "''where''"]
    by (simp add: parse_operator_def partition_on_def OPERATORS_def tight_def is_space_def lower_def lower_char_def is_upper_def)
  ultimately show "parse_kql (VStr ?q) = Inr (table, [(''where'', print_expr e)])"
    using assms(1) unfolding parse_kql_def pyval.case d s by simp
  show "evaluate_kql engine now [(''where'', print_expr e)] rows = keep_rows (holds engine e) rows"
    by (simp add: apply_op_def op_where_def tokenize_print [OF assms(2)] predicate_read [OF assms(2,3)] split: sum.split)
qed

text \<open>
  C26. A hunting query of a table and a written filter is understood as written: any tree of comparisons, tests, negations,
  conjunctions and disjunctions nested fewer than 60 deep, printed and put behind the table, parses to that table and one
  \<open>where\<close>, and running it keeps exactly the rows the tree holds for, with the exception a row raises.
\<close>

theorem hunting_filter_exact:
  assumes "is_table_name table" "wf_expr e" "nesting e < KQL_MAX_DEPTH"
  shows "parse_kql (VStr (table @ '' | where '' @ print_expr e)) = Inr (table, [(''where'', print_expr e)]) \<and>
    evaluate_kql engine now [(''where'', print_expr e)] rows = keep_rows (holds engine e) rows"
  using hunting_filter_read [OF assms] .

theorem hunting_filter_exact_witness:
  "parse_kql (VStr (''DeviceNetworkEvents'' @ '' | where '' @ ''(RemotePort == 443 and not RemoteUrl contains '' @ dquoted ''a|b'' @ '')'')) =
     Inr (''DeviceNetworkEvents'', [(''where'', ''(RemotePort == 443 and not RemoteUrl contains '' @ dquoted ''a|b'' @ '')'')]) \<and>
   (\<forall>engine now rows.
      evaluate_kql engine now [(''where'', ''(RemotePort == 443 and not RemoteUrl contains '' @ dquoted ''a|b'' @ '')'')] rows =
        keep_rows (holds engine (And (Compare ''=='' (Col ''RemotePort'') (Number 443)) (Not (Test ''contains'' (Col ''RemoteUrl'') (Text ''a|b''))))) rows)"
proof -
  let ?e = "And (Compare ''=='' (Col ''RemotePort'') (Number 443)) (Not (Test ''contains'' (Col ''RemoteUrl'') (Text ''a|b'')))"
  have t: "is_table_name ''DeviceNetworkEvents''" "wf_column ''RemotePort''" "wf_column ''RemoteUrl''" "wf_text ''a|b''"
    "''=='' \<in> set COMPARISON_OPS" "''contains'' \<in> set NAMED_OPS" by code_simp+
  have "(443 :: nat) < 10 ^ 4" by simp
  also have "(10 :: nat) ^ 4 \<le> 10 ^ max_int_digits" by (rule power_increasing) (simp_all add: max_int_digits_def)
  finally have w: "wf_expr ?e" using t by simp
  have n: "nesting ?e < KQL_MAX_DEPTH" by (simp add: KQL_MAX_DEPTH_def)
  have p: "print_expr ?e = ''(RemotePort == 443 and not RemoteUrl contains '' @ dquoted ''a|b'' @ '')''" by simp code_simp
  show ?thesis using hunting_filter_exact [OF t(1) w n] unfolding p by blast
qed

section \<open>What the language does not do\<close>

text \<open>The operators with an exclamation mark have no token, so the documented \<open>!contains\<close> is refused.\<close>

lemma negated_operators_refused:
  "kql_lex1 ''!contains x'' = None" "kql_lex1 ''!in (1)'' = None" "kql_lex1 ''!has x'' = None"
  by code_simp+

lemma not_contains_refused:
  "kql_tokenize ''RemoteUrl !contains x'' = Inl (KqlError ''Unexpected character at offset 10'')"
proof -
  have d: "delim (CHR '' '' # s)" "is_table_name ''RemoteUrl''" for s by (simp, code_simp)
  have "kql_tokens 10 ''!contains x'' = Inl (KqlError ''Unexpected character at offset 10'')"
    by (subst kql_tokens.simps) (simp add: negated_operators_refused is_space_def, code_simp)
  then show ?thesis
    using tokens_word [OF d(2) d(1), of 0 "''!contains x''"] by (simp add: kql_tokenize_def push_def eval_nat_numeral)
qed

text \<open>A comment sign inside a literal ends the query there: the filter on a URL compares with a shorter text.\<close>

lemma literal_cut_at_comment:
  "parse_kql (VStr (''T | where RemoteUrl == '' @ dquoted ''http://x'')) =
     Inr (''T'', [(''where'', ''RemoteUrl == '' @ CHR 0x22 # ''http:'')])"
  by code_simp

text \<open>An assignment of \<open>extend\<close> takes its first operand and drops the rest.\<close>

lemma extend_first_operand:
  assumes "kql_tokenize expression = Inr (term_tokens t @ ts)" "wf_operand t"
  shows "evaluate_operand now expression row = Inr (term_value t row)"
  by (simp add: evaluate_operand_def assms operand_read)

text \<open>A moment is written as its local time with a \<open>Z\<close>, whatever its offset: noon at +02:00 becomes noon UTC.\<close>

lemma extended_moment_loses_offset:
  "row_value (KT local off) = row_value (KT local 0)" "off \<noteq> 0 \<Longrightarrow> as_datetime (KT local off) \<noteq> as_datetime (KT local 0)"
  by (simp_all add: row_value_def)

text \<open>An aggregation nobody implements is null, not an error, over a column without numbers.\<close>

lemma unknown_aggregation_null: "aggregate ''stdev'' ''DeviceName'' [[(''DeviceName'', VStr ''pc'')]] = Inr VNone"
  by code_simp

text \<open>\<open>take\<close> without a number takes everything.\<close>

lemma take_without_number: "op_take rows ''some'' = Inr rows"
  by (simp add: op_take_def is_digit_def)

end
