(* ===== verification/Hunting.thy ===== *)
theory Hunting
  imports Kql Mde_Catalogue
begin

text \<open>
  Advanced hunting: the tables projected from the store and the query handler
  (\<open>src/backend/application/mde_advanced_hunting\<close>), and Graph's action over them with its time span
  (\<open>src/backend/application/graph/security/queries.py\<close>).

  Shown here: the schema of an answer is decided by the query; hunting for a vulnerability finds the machines its REST
  resource references.
\<close>

section \<open>Tables\<close>

definition project_record :: "(string \<times> string) list \<Rightarrow> jobj \<Rightarrow> krow" where
  "project_record columns rec = map (\<lambda>(column, attr). (column, dict_get rec attr)) columns"

definition records_of :: "string \<Rightarrow> db \<Rightarrow> jobj list" where
  "records_of c s = map fields_of (repo_list_all s c)"

definition device_info :: "db \<Rightarrow> krow list" where
  "device_info s = map (project_record
     [(''Timestamp'', ''lastSeen''), (''DeviceId'', ''machineId''), (''DeviceName'', ''computerDnsName''),
      (''ClientVersion'', ''agentVersion''), (''PublicIP'', ''lastExternalIpAddress''), (''OSArchitecture'', ''osProcessor''),
      (''OSPlatform'', ''osPlatform''), (''OSBuild'', ''osBuild''), (''OSVersion'', ''osVersion''), (''MachineGroup'', ''rbacGroupName''),
      (''OnboardingStatus'', ''onboardingStatus''), (''HealthStatus'', ''healthStatus''), (''RiskScore'', ''riskScore''),
      (''ExposureLevel'', ''exposureLevel'')]) (records_of ''mde_machines'' s)"

definition alert_info :: "db \<Rightarrow> krow list" where
  "alert_info s = map (project_record
     [(''Timestamp'', ''alertCreationTime''), (''AlertId'', ''alertId''), (''Title'', ''title''), (''Category'', ''category''),
      (''Severity'', ''severity''), (''ServiceSource'', ''detectionSource''), (''DetectionSource'', ''detectionSource''),
      (''Status'', ''status''), (''Classification'', ''classification''), (''Determination'', ''determination'')])
     (records_of ''mde_alerts'' s)"

definition alert_evidence :: "db \<Rightarrow> krow list" where
  "alert_evidence s =
     (let names = map (\<lambda>m. (dict_get m ''machineId'', dict_get m ''computerDnsName'')) (records_of ''mde_machines'' s)
      in map (\<lambda>a.
           [(''Timestamp'', dict_get a ''alertCreationTime''), (''AlertId'', dict_get a ''alertId''), (''DeviceId'', dict_get a ''machineId''),
            (''DeviceName'', case map_of (rev names) (dict_get a ''machineId'') of None \<Rightarrow> VStr [] | Some n \<Rightarrow> n),
            (''EntityType'', VStr ''Machine''), (''EvidenceRole'', VStr ''Impacted''), (''Title'', dict_get a ''title''),
            (''Severity'', dict_get a ''severity''), (''Categories'', dict_get a ''category'')])
         (records_of ''mde_alerts'' s))"

text \<open>\<open>xs[::n]\<close>.\<close>

fun every_nth :: "nat \<Rightarrow> 'a list \<Rightarrow> 'a list" where
  "every_nth n [] = []"
| "every_nth n (x # xs) = x # every_nth n (drop (n - 1) xs)"

text \<open>The round robin of machines over the entries of a catalogue.\<close>

definition round_robin :: "(jobj \<Rightarrow> jobj \<Rightarrow> krow) \<Rightarrow> jobj list \<Rightarrow> jobj list \<Rightarrow> krow list" where
  "round_robin row machines entries =
     (if machines = [] \<or> entries = [] then []
      else concat (map (\<lambda>(index, machine).
             map (row machine) (every_nth (length entries) (drop (index mod length entries) entries))) (enumerate 0 machines)))"

definition device_software_inventory :: "db \<Rightarrow> krow list" where
  "device_software_inventory s =
     round_robin (\<lambda>machine entry.
         [(''DeviceId'', dict_get machine ''machineId''), (''DeviceName'', dict_get machine ''computerDnsName''),
          (''OSPlatform'', dict_get machine ''osPlatform''), (''SoftwareVendor'', dict_get entry ''vendor''),
          (''SoftwareName'', dict_get entry ''name''), (''SoftwareVersion'', dict_get entry ''version'')])
       (records_of ''mde_machines'' s) (records_of ''mde_software'' s)"

definition vulnerability_row :: "jobj \<Rightarrow> jobj \<Rightarrow> krow" where
  "vulnerability_row machine vuln =
     [(''DeviceId'', dict_get machine ''machineId''), (''DeviceName'', dict_get machine ''computerDnsName''),
      (''OSPlatform'', dict_get machine ''osPlatform''), (''CveId'', dict_get vuln ''vulnerabilityId''),
      (''VulnerabilitySeverityLevel'', dict_get vuln ''severity''), (''CvssScore'', dict_get vuln ''cvssV3''),
      (''IsExploitAvailable'', dict_get vuln ''publicExploit'')]"

definition device_software_vulnerabilities :: "db \<Rightarrow> krow list" where
  "device_software_vulnerabilities s =
     round_robin vulnerability_row (records_of ''mde_machines'' s) (records_of ''mde_vulnerabilities'' s)"

definition device_network_events :: "db \<Rightarrow> krow list" where
  "device_network_events s = map (project_record
     [(''Timestamp'', ''timestamp''), (''DeviceId'', ''machineId''), (''DeviceName'', ''computerDnsName''), (''ActionType'', ''actionType''),
      (''RemoteIP'', ''remoteIp''), (''RemotePort'', ''remotePort''), (''RemoteUrl'', ''remoteUrl''), (''LocalIP'', ''localIp''),
      (''LocalPort'', ''localPort''), (''Protocol'', ''protocol''), (''RemoteIPType'', ''remoteIpType''),
      (''InitiatingProcessFileName'', ''processFileName''), (''InitiatingProcessFolderPath'', ''processFolderPath''),
      (''InitiatingProcessCommandLine'', ''processCommandLine''), (''InitiatingProcessId'', ''processId''),
      (''InitiatingProcessVersionInfoCompanyName'', ''processCompanyName''), (''InitiatingProcessAccountDomain'', ''accountDomain''),
      (''InitiatingProcessAccountName'', ''accountName''), (''InitiatingProcessAccountUpn'', ''accountUpn''),
      (''InitiatingProcessAccountObjectId'', ''accountObjectId''), (''ReportId'', ''reportId'')])
     (records_of ''mde_network_events'' s)"

definition TABLES :: "(string \<times> (db \<Rightarrow> krow list)) list" where
  "TABLES = [(''DeviceInfo'', device_info), (''DeviceNetworkEvents'', device_network_events), (''AlertInfo'', alert_info),
     (''AlertEvidence'', alert_evidence), (''DeviceTvmSoftwareInventory'', device_software_inventory),
     (''DeviceTvmSoftwareVulnerabilities'', device_software_vulnerabilities)]"

definition TABLE_NAMES :: "string list" where
  "TABLE_NAMES = sort (map fst TABLES)"

definition get_table :: "string \<Rightarrow> db \<Rightarrow> krow list option" where
  "get_table name s = map_option (\<lambda>(table, builder). builder s) (find (\<lambda>(table, builder). lower table = lower name) TABLES)"

section \<open>Running a hunt\<close>

definition looks_like_datetime :: "string \<Rightarrow> bool" where
  "looks_like_datetime v \<longleftrightarrow> fromisoformat (replace_str ''Z'' ''+00:00'' v) \<noteq> None"

definition type_name :: "pyval \<Rightarrow> string" where
  "type_name v =
     (case v of
        VStr t \<Rightarrow> if looks_like_datetime t then ''DateTime'' else ''String''
      | VBool b \<Rightarrow> ''Boolean'' | VInt n \<Rightarrow> ''Int64'' | VFloat f \<Rightarrow> ''Double'' | VList vs \<Rightarrow> ''SByte'' | VDict d \<Rightarrow> ''SByte''
      | VNone \<Rightarrow> ''String'')"

definition schema_columns :: "krow \<Rightarrow> pyval list" where
  "schema_columns sample = map (\<lambda>(name, v). VDict [(''Name'', VStr name), (''Type'', VStr (type_name v))]) sample"

text \<open>The columns of the first result, or of the query without its filters over one source row.\<close>

definition schema_for :: "regex_engine \<Rightarrow> int \<Rightarrow> krow list \<Rightarrow> (string \<times> string) list \<Rightarrow> krow list \<Rightarrow> pyval list kql" where
  "schema_for engine now results operators source =
     (let sample = (case results of [] \<Rightarrow> [] | row # _ \<Rightarrow> row)
      in if sample \<noteq> [] \<or> source = [] then Inr (schema_columns sample)
         else case evaluate_kql engine now (filter (\<lambda>(name, argument). name \<noteq> ''where'') operators) (take 1 source) of
                Inl e \<Rightarrow> Inl e
              | Inr shaped \<Rightarrow> Inr (schema_columns (case shaped of [] \<Rightarrow> [] | row # _ \<Rightarrow> row)))"

text \<open>Whether a row lies in a window of instants; a timestamp without an offset cannot be compared with one.\<close>

definition in_window :: "(int \<times> int) \<times> (int \<times> int) \<Rightarrow> krow \<Rightarrow> bool kql" where
  "in_window window row =
     (let stamp = dict_get row ''Timestamp''; instant = (\<lambda>(local, off). local - off)
      in if stamp = VNone then Inr True
         else case fromisoformat (replace_str ''Z'' ''+00:00'' (py_str stamp)) of
                None \<Rightarrow> Inr True
              | Some (local, None) \<Rightarrow> Inl (Kql_raises (TypeError ''can not compare offset-naive and offset-aware datetimes''))
              | Some (local, Some off) \<Rightarrow> Inr (instant (fst window) \<le> local - off \<and> local - off \<le> instant (snd window)))"

definition run_query :: "regex_engine \<Rightarrow> int \<Rightarrow> jobj \<Rightarrow> ((int \<times> int) \<times> (int \<times> int)) option \<Rightarrow> db \<Rightarrow> jobj kql" where
  "run_query engine now body window s =
     (case parse_kql (get_or body ''Query'' (VStr [])) of
        Inl e \<Rightarrow> Inl e
      | Inr (table, operators) \<Rightarrow>
          (case get_table table s of
             None \<Rightarrow>
               Inl (KqlError (''A recognized table name is expected, found '' @ [CHR 0x27] @ table @ [CHR 0x27] @
                 ''. Tables available in this mock: '' @ join '', '' TABLE_NAMES))
           | Some source \<Rightarrow>
               (case (case window of None \<Rightarrow> Inr source | Some w \<Rightarrow> keep_rows (in_window w) source) of
                  Inl e \<Rightarrow> Inl e
                | Inr rows \<Rightarrow>
                    (case evaluate_kql engine now operators rows of
                       Inl e \<Rightarrow> Inl e
                     | Inr results \<Rightarrow>
                         (case schema_for engine now results operators source of
                            Inl e \<Rightarrow> Inl e
                          | Inr schema \<Rightarrow>
                              Inr [(''Schema'', VList schema), (''Results'', VList (map VDict results)),
                                (''Stats'', VDict [(''ExecutionTime'', VFloat ''0.05''),
                                   (''resource_usage'', VDict [(''cache'', VDict [(''memory'', VDict [(''hits'', VInt 0), (''misses'', VInt 0)])])]),
                                   (''dataset_statistics'', VList [VDict [(''table_row_count'', VInt (int (length results)))]])])])))))"

section \<open>Graph's time span\<close>

datatype hunt_failure = Hunt_kql kql_failure | InvalidTimespanError string

text \<open>Digits and their unit at the front of a duration.\<close>

definition duration_part :: "char \<Rightarrow> string \<Rightarrow> string \<times> string" where
  "duration_part unit s =
     (let n = takeWhile is_digit s; r = dropWhile is_digit s
      in if n \<noteq> [] \<and> r \<noteq> [] \<and> hd r = unit then (n, tl r) else ([], s))"

definition duration_seconds :: "string \<Rightarrow> string \<times> string" where
  "duration_seconds s =
     (let n = takeWhile is_digit s; r = dropWhile is_digit s; f = takeWhile is_digit (tl r); q = dropWhile is_digit (tl r)
      in if n \<noteq> [] \<and> r \<noteq> [] \<and> hd r = CHR ''S'' then (n, tl r)
         else if n \<noteq> [] \<and> r \<noteq> [] \<and> hd r = CHR ''.'' \<and> f \<noteq> [] \<and> q \<noteq> [] \<and> hd q = CHR ''S'' then (n @ ''.'' @ f, tl q)
         else ([], s))"

text \<open>The numbers of \<open>_DURATION\<close> (weeks, days, hours, minutes, seconds; empty when absent), if it matches the whole text.\<close>

definition duration_parts :: "string \<Rightarrow> string list option" where
  "duration_parts s =
     (if s = [] \<or> hd s \<noteq> CHR ''P'' then None
      else let (w, s1) = duration_part (CHR ''W'') (tl s); (d, s2) = duration_part (CHR ''D'') s1
           in if s2 = [] then Some [w, d, [], [], []]
              else if hd s2 \<noteq> CHR ''T'' then None
              else let (h, s3) = duration_part (CHR ''H'') (tl s2); (m, s4) = duration_part (CHR ''M'') s3; (sec, s5) = duration_seconds s4
                   in if s5 = [] then Some [w, d, h, m, sec] else None)"

definition part_value :: "string \<Rightarrow> pyfloat" where
  "part_value t = (if t = [] then Fin 0 else case float_of_str t of None \<Rightarrow> NaN | Some f \<Rightarrow> f)"

text \<open>\<open>timedelta\<close> of the parts: whole parts are exact, the fraction of the seconds is rounded with the sum.\<close>

definition timedelta_micros :: "(int \<times> pyfloat) list \<Rightarrow> int kql" where
  "timedelta_micros parts =
     (if list_all (\<lambda>(unit, f). case f of Fin q \<Rightarrow> True | _ \<Rightarrow> False) parts
      then (let whole = (\<lambda>(unit, f). case f of Fin q \<Rightarrow> \<lfloor>q\<rfloor> * unit | _ \<Rightarrow> 0);
                rest_of = (\<lambda>(unit, f). case f of
                    Fin q \<Rightarrow> (case round_double ((q - of_int \<lfloor>q\<rfloor>) * of_int unit) of Fin w \<Rightarrow> w | _ \<Rightarrow> 0) | _ \<Rightarrow> 0);
                t = round_half_even (of_int (sum_list (map whole parts)) + sum_list (map rest_of parts))
            in if 999999999 < t div day_micros then Inl (Kql_raises (OverflowError ''days'')) else Inr t)
      else Inl (Kql_raises (OverflowError ''cannot convert float infinity to integer'')))"

definition duration :: "string \<Rightarrow> int option kql" where
  "duration txt =
     (let s = upper (strip txt)
      in case duration_parts s of
           None \<Rightarrow> Inr None
         | Some ps \<Rightarrow>
             (if s = ''P'' \<or> s = ''PT'' then Inr None
              else map_sum id Some (timedelta_micros (zip [7 * day_micros, day_micros, 3600000000, 60000000, 1000000] (map part_value ps)))))"

text \<open>A moment moved by a duration; the years 1 to 9999 bound the local time.\<close>

definition moved :: "int \<times> int \<Rightarrow> int \<Rightarrow> (int \<times> int) kql" where
  "moved moment d =
     (let t = fst moment + d
      in if t < 0 \<or> max_ordinal * day_micros \<le> t then Inl (Kql_raises (OverflowError ''date value out of range''))
         else Inr (t, snd moment))"

definition invalid_timespan :: "string \<Rightarrow> hunt_failure" where
  "invalid_timespan txt =
     InvalidTimespanError (''Timespan '' @ [CHR 0x27] @ txt @ [CHR 0x27] @ '' is not a valid ISO 8601 interval, duration or date.'')"

definition interval_window :: "string \<Rightarrow> hunt_failure + (int \<times> int) \<times> (int \<times> int)" where
  "interval_window txt =
     (let (left, _, right) = partition_on (CHR ''/'') txt; start = moment_of (strip left); stop = moment_of (strip right)
      in case (start, stop) of
           (Some a, Some b) \<Rightarrow> Inr (a, b)
         | (None, Some b) \<Rightarrow>
             (case duration left of
                Inl e \<Rightarrow> Inl (Hunt_kql e)
              | Inr None \<Rightarrow> Inl (invalid_timespan txt)
              | Inr (Some back) \<Rightarrow> (case moved b (- back) of Inl e \<Rightarrow> Inl (Hunt_kql e) | Inr a \<Rightarrow> Inr (a, b)))
         | (Some a, None) \<Rightarrow>
             (case duration right of
                Inl e \<Rightarrow> Inl (Hunt_kql e)
              | Inr None \<Rightarrow> Inl (invalid_timespan txt)
              | Inr (Some ahead) \<Rightarrow> (case moved a ahead of Inl e \<Rightarrow> Inl (Hunt_kql e) | Inr b \<Rightarrow> Inr (a, b)))
         | (None, None) \<Rightarrow> Inl (invalid_timespan txt))"

definition hunting_window :: "pyval \<Rightarrow> int \<Rightarrow> hunt_failure + (int \<times> int) \<times> (int \<times> int)" where
  "hunting_window given now =
     (let txt = strip (py_str given); back_from = (\<lambda>d.
          case moved (now, 0) (- d) of Inl e \<Rightarrow> Inl (Hunt_kql e) | Inr a \<Rightarrow> Inr (a, (now, 0)))
      in if given = VNone \<or> txt = [] then back_from (30 * day_micros)
         else if CHR ''/'' \<in> set txt then interval_window txt
         else case duration txt of
                Inl e \<Rightarrow> Inl (Hunt_kql e)
              | Inr (Some back) \<Rightarrow> back_from back
              | Inr None \<Rightarrow> (case moment_of txt of None \<Rightarrow> Inl (invalid_timespan txt) | Some start \<Rightarrow> Inr (start, (now, 0))))"

definition action_parameters :: "jobj \<Rightarrow> jobj" where
  "action_parameters body = fold (\<lambda>(k, v). AList.update (lower k) v) body []"

definition graph_column :: "pyval \<Rightarrow> pyval" where
  "graph_column c = VDict [(''name'', dict_get (fields_of c) ''Name''), (''type'', dict_get (fields_of c) ''Type'')]"

definition list_in :: "pyval \<Rightarrow> pyval list" where
  "list_in v = (case v of VList vs \<Rightarrow> vs | _ \<Rightarrow> [])"

definition run_hunting_query :: "regex_engine \<Rightarrow> int \<Rightarrow> jobj \<Rightarrow> db \<Rightarrow> hunt_failure + jobj" where
  "run_hunting_query engine now body s =
     (let params = action_parameters body
      in case hunting_window (dict_get params ''timespan'') now of
           Inl e \<Rightarrow> Inl e
         | Inr window \<Rightarrow>
             (case run_query engine now [(''Query'', get_or params ''query'' (VStr []))] (Some window) s of
                Inl e \<Rightarrow> Inl (Hunt_kql e)
              | Inr hunt \<Rightarrow>
                  Inr [(''@odata.context'', VStr ''https://graph.microsoft.com/v1.0/$metadata#microsoft.graph.security.huntingQueryResults''),
                    (''schema'', VList (map graph_column (list_in (dict_get hunt ''Schema'')))), (''results'', dict_get hunt ''Results'')]))"

section \<open>The schema of an answer\<close>

lemma keys_project_record [simp]: "map fst (project_record columns rec) = map fst columns"
  by (induction columns) (simp_all add: project_record_def case_prod_beta)

lemma round_robin_uniform: "(\<And>m e. map fst (f m e) = ks) \<Longrightarrow> \<forall>row \<in> set (round_robin f machines entries). map fst row = ks"
  by (auto simp: round_robin_def)

lemma table_uniform:
  assumes "get_table name s = Some rows"
  shows "\<exists>ks. \<forall>row \<in> set rows. map fst row = ks"
proof -
  obtain table builder where b: "(table, builder) \<in> set TABLES" "rows = builder s"
    using assms by (auto simp: get_table_def dest!: find_holds)
  have "\<exists>ks. \<forall>row \<in> set (builder s). map fst row = ks" if "(table, builder) \<in> set TABLES" for table builder
  proof -
    from that consider "builder \<in> {device_info, alert_info, device_network_events}" | "builder = alert_evidence"
      | "builder = device_software_inventory" | "builder = device_software_vulnerabilities"
      by (auto simp: TABLES_def)
    then show ?thesis
    proof cases
      case 1
      then show ?thesis by (auto simp: device_info_def alert_info_def device_network_events_def)
    next
      case 2
      then show ?thesis by (auto simp: alert_evidence_def Let_def)
    next
      case 3
      show ?thesis unfolding 3 device_software_inventory_def by (rule exI, rule round_robin_uniform) simp
    next
      case 4
      show ?thesis unfolding 4 device_software_vulnerabilities_def by (rule exI, rule round_robin_uniform) (simp add: vulnerability_row_def)
    qed
  qed
  then show ?thesis using b by blast
qed

definition schema_names :: "jobj \<Rightarrow> pyval list" where
  "schema_names hunt = map (\<lambda>c. dict_get (fields_of c) ''Name'') (list_in (dict_get hunt ''Schema''))"

definition result_rows :: "jobj \<Rightarrow> krow list" where
  "result_rows hunt = map fields_of (list_in (dict_get hunt ''Results''))"

lemma names_of_columns: "map (\<lambda>c. dict_get (fields_of c) ''Name'') (schema_columns row) = map VStr (map fst row)"
  by (induction row) (auto simp: schema_columns_def fields_of_def)

lemma run_queryE:
  assumes "run_query engine now body window s = Inr hunt"
  obtains table operators source rows results schema where
    "parse_kql (get_or body ''Query'' (VStr [])) = Inr (table, operators)" "get_table table s = Some source"
    "set rows \<subseteq> set source" "evaluate_kql engine now operators rows = Inr results"
    "schema_for engine now results operators source = Inr schema"
    "dict_get hunt ''Schema'' = VList schema" "dict_get hunt ''Results'' = VList (map VDict results)"
proof -
  obtain table operators where p: "parse_kql (get_or body ''Query'' (VStr [])) = Inr (table, operators)"
    using assms by (cases "parse_kql (get_or body ''Query'' (VStr []))") (auto simp: run_query_def)
  obtain source where g: "get_table table s = Some source"
    using assms p by (cases "get_table table s") (simp_all add: run_query_def)
  let ?kept = "case window of None \<Rightarrow> Inr source | Some w \<Rightarrow> keep_rows (in_window w) source"
  obtain rows where w: "?kept = Inr rows" using assms p g by (cases ?kept) (simp_all add: run_query_def)
  obtain results where e: "evaluate_kql engine now operators rows = Inr results"
    using assms p g w by (cases "evaluate_kql engine now operators rows") (simp_all add: run_query_def)
  obtain schema where c: "schema_for engine now results operators source = Inr schema"
    using assms p g w e by (cases "schema_for engine now results operators source") (simp_all add: run_query_def)
  have sub: "set rows \<subseteq> set source"
    using w by (cases window) (simp, metis keep_rows_subset rows_of_subset option.simps(5))
  have "dict_get hunt ''Schema'' = VList schema" "dict_get hunt ''Results'' = VList (map VDict results)"
    using assms p g w e c by (auto simp: run_query_def)
  with p g sub e c show ?thesis by (rule that)
qed

text \<open>
  Whether a query leaves a row of a table that has one, its \<open>where\<close> clauses aside: a limit of zero takes the last row, and a
  later \<open>count\<close> has one again.
\<close>

definition positive_count :: "string \<Rightarrow> bool" where
  "positive_count digits \<longleftrightarrow> (case int_of_str digits of None \<Rightarrow> True | Some n \<Rightarrow> 0 < n)"

definition leaves_a_row :: "string \<times> string \<Rightarrow> bool \<Rightarrow> bool" where
  "leaves_a_row oper b \<longleftrightarrow>
     (case oper of (name, argument) \<Rightarrow>
        if name = ''count'' then True
        else if name = ''take'' \<or> name = ''limit''
        then b \<and> (let digits = takeWhile is_digit (dropWhile (\<lambda>c. \<not> is_digit c) argument)
                  in digits = [] \<or> positive_count digits)
        else if name = ''top''
        then b \<and> (case top_parts argument of None \<Rightarrow> True | Some (digits, order) \<Rightarrow> positive_count digits)
        else b)"

lemma each_empty: "each f xs = Inr ys \<Longrightarrow> (ys = []) = (xs = [])"
  by (cases xs) (auto split: sum.splits)

lemma order_empty: "op_order rows argument = Inr out \<Longrightarrow> (out = []) = (rows = [])"
  using order_clauses_mset [of "rev (split_commas argument)" rows out] by (auto simp: op_order_def)

lemma take_rows_empty: "take_rows digits rows = Inr out \<Longrightarrow> (out = []) = (rows = [] \<or> \<not> positive_count digits)"
  by (auto simp: take_rows_def positive_count_def split: option.splits)

lemma update_nonempty: "AList.update k v d \<noteq> []"
  by (cases d) auto

lemma buckets_empty: "(buckets_of columns rows = []) = (rows = [])"
proof (cases rows rule: rev_cases)
  case (snoc init row)
  then have "buckets_of columns rows = add_to_bucket columns row (buckets_of columns init)" by (simp add: buckets_of_def)
  then show ?thesis using snoc by (simp add: add_to_bucket_def Let_def update_nonempty)
qed (simp add: buckets_of_def)

lemma distinct_rows_empty: "(distinct_rows [] rows = []) = (rows = [])"
  by (cases rows) (simp_all add: Let_def)

lemma op_leaves_a_row:
  assumes "apply_op engine now oper rows = Inr out" "fst oper \<noteq> ''where''"
  shows "out \<noteq> [] \<longleftrightarrow> leaves_a_row oper (rows \<noteq> [])"
proof -
  obtain name argument where o: "oper = (name, argument)" by (cases oper)
  have "name \<in> set (ROW_OPERATORS @ [''project'', ''project-away'', ''extend'', ''summarize'', ''distinct'', ''count''])"
    using op_names assms(1) unfolding o .
  then consider "name = ''order''" | "name = ''take'' \<or> name = ''limit''" | "name = ''top''"
    | "name = ''project'' \<or> name = ''project-away''" | "name = ''extend''" | "name = ''summarize''" | "name = ''distinct''" | "name = ''count''"
    using assms(2) unfolding ROW_OPERATORS_def o append.simps list.set by (elim insertE emptyE) simp_all
  then show ?thesis
  proof cases
    case 1
    then show ?thesis using assms(1) by (simp add: o apply_op_def leaves_a_row_def order_empty)
  next
    case 2
    then have "op_take rows argument = Inr out" using assms(1) by (auto simp: o apply_op_def)
    moreover have "leaves_a_row oper b \<longleftrightarrow> b \<and> (let digits = takeWhile is_digit (dropWhile (\<lambda>c. \<not> is_digit c) argument)
                  in digits = [] \<or> positive_count digits)" for b
      using 2 by (auto simp: o leaves_a_row_def)
    ultimately show ?thesis using take_rows_empty by (auto simp: op_take_def Let_def split: if_splits)
  next
    case 3
    then have t: "op_top rows argument = Inr out" using assms(1) by (simp add: o apply_op_def)
    then obtain digits order where p: "top_parts argument = Some (digits, order)" by (auto simp: op_top_def split: option.splits)
    then obtain ordered where d: "take_rows digits ordered = Inr out" "(ordered = []) = (rows = [])"
      using t by (auto simp: op_top_def order_empty split: if_splits sum.splits)
    from take_rows_empty [OF d(1)] show ?thesis using 3 d(2) by (simp add: o leaves_a_row_def p)
  next
    case 4
    then have "out = op_project rows argument \<or> out = op_project_away rows argument" using assms(1) by (auto simp: o apply_op_def)
    then have "(out = []) = (rows = [])" by (auto simp: op_project_def op_project_away_def)
    then show ?thesis using 4 by (auto simp: o leaves_a_row_def)
  next
    case 5
    then have "op_extend now rows argument = Inr out" using assms(1) by (simp add: o apply_op_def)
    then show ?thesis using 5 each_empty by (auto simp: o leaves_a_row_def op_extend_def)
  next
    case 6
    then have "op_summarize rows argument = Inr out" using assms(1) by (simp add: o apply_op_def)
    then have "(out = []) = (rows = [])"
      by (auto simp: op_summarize_def Let_def split_beta buckets_empty dest!: each_empty)
    then show ?thesis using 6 by (simp add: o leaves_a_row_def)
  next
    case 7
    then have "out = op_distinct rows argument" using assms(1) by (simp add: o apply_op_def)
    then show ?thesis using 7 by (simp add: o leaves_a_row_def op_distinct_def Let_def distinct_rows_empty)
  next
    case 8
    then have "out = op_count rows" using assms(1) by (simp add: o apply_op_def)
    then show ?thesis using 8 by (simp add: o leaves_a_row_def op_count_def)
  qed
qed

lemma ops_leave_a_row:
  "evaluate_kql engine now opers rows = Inr out \<Longrightarrow> \<forall>oper \<in> set opers. fst oper \<noteq> ''where'' \<Longrightarrow>
   out \<noteq> [] \<longleftrightarrow> fold leaves_a_row opers (rows \<noteq> [])"
proof (induction opers arbitrary: rows)
  case (Cons oper opers)
  then obtain rs where rs: "apply_op engine now oper rows = Inr rs" "evaluate_kql engine now opers rs = Inr out"
    by (auto split: sum.splits)
  show ?case using Cons.IH [OF rs(2)] Cons.prems(2) op_leaves_a_row [OF rs(1)] by simp
qed simp

lemma where_ignored: "fold leaves_a_row (filter (\<lambda>(name, a). name \<noteq> ''where'') opers) b = fold leaves_a_row opers b"
proof (induction opers arbitrary: b)
  case (Cons oper opers)
  have "leaves_a_row (''where'', argument) b = b" for argument b by (simp add: leaves_a_row_def)
  then show ?case using Cons by (cases oper) simp
qed simp

lemma columns_named:
  assumes "schema_for engine now results operators source = Inr schema" "source \<noteq> []" "fold columns_after_op operators ks \<noteq> []"
    and "\<forall>row \<in> set source. map fst row = ks" "\<forall>row \<in> set results. map fst row = fold columns_after_op operators ks"
  shows "map (\<lambda>c. dict_get (fields_of c) ''Name'') schema =
    (if results \<noteq> [] \<or> fold leaves_a_row operators True then map VStr (fold columns_after_op operators ks) else [])"
proof -
  let ?cols = "fold columns_after_op operators ks" and ?ops = "filter (\<lambda>(name, argument). name \<noteq> ''where'') operators"
  show ?thesis
  proof (cases "results = []")
    case False
    then have direct: "map fst (hd results) = ?cols" using assms(5) by simp
    then have "hd results \<noteq> []" using assms(3) by auto
    then have "schema = schema_columns (hd results)" using assms(1) False by (cases results) (auto simp: schema_for_def)
    then show ?thesis using direct False by (simp add: names_of_columns)
  next
    case True
    then obtain shaped where shaped: "evaluate_kql engine now ?ops (take 1 source) = Inr shaped"
      "schema = schema_columns (case shaped of [] \<Rightarrow> [] | row # _ \<Rightarrow> row)"
      using assms(1,2) by (auto simp: schema_for_def split: sum.splits)
    have "\<forall>row \<in> set (take 1 source). map fst row = ks" using assms(4) by (meson in_set_takeD)
    from columns_after_ops [OF shaped(1) this] have cols: "map fst row = ?cols" if "row \<in> set shaped" for row
      using that by (simp add: columns_ignore_where)
    have "shaped \<noteq> [] \<longleftrightarrow> fold leaves_a_row ?ops (take 1 source \<noteq> [])"
      by (rule ops_leave_a_row [OF shaped(1)]) auto
    then have "shaped \<noteq> [] \<longleftrightarrow> fold leaves_a_row operators True" using assms(2) by (simp add: where_ignored)
    moreover have "schema_columns [] = []" by (simp add: schema_columns_def)
    ultimately show ?thesis using cols [of "hd shaped"] unfolding True shaped(2)
      by (cases shaped) (simp_all add: names_of_columns)
  qed
qed

text \<open>
  C28. The query decides the shape of its answer, whatever the rows hold and however many survive: every result row of a hunt has
  exactly the columns the operators compute from those of the table, and the schema names those columns, in order, also when the
  filters have let no row through. Only a query whose own limits leave no row of any table (a \<open>take 0\<close> not followed by a
  \<open>count\<close>) names none.
\<close>

theorem hunt_shape:
  assumes "run_query engine now body window s = Inr hunt"
    and "parse_kql (get_or body ''Query'' (VStr [])) = Inr (table, operators)"
    and "get_table table s = Some (row # rows)" "fold columns_after_op operators (map fst row) \<noteq> []"
  shows "(\<forall>r \<in> set (result_rows hunt). map fst r = fold columns_after_op operators (map fst row)) \<and>
    schema_names hunt =
      (if result_rows hunt \<noteq> [] \<or> fold leaves_a_row operators True
       then map VStr (fold columns_after_op operators (map fst row)) else [])"
proof -
  let ?cols = "fold columns_after_op operators (map fst row)"
  obtain table' operators' source used results schema where q:
    "parse_kql (get_or body ''Query'' (VStr [])) = Inr (table', operators')" "get_table table' s = Some source"
    "set used \<subseteq> set source" "evaluate_kql engine now operators' used = Inr results"
    "schema_for engine now results operators' source = Inr schema"
    "dict_get hunt ''Schema'' = VList schema" "dict_get hunt ''Results'' = VList (map VDict results)"
    by (rule run_queryE [OF assms(1)])
  have "operators' = operators" "source = row # rows" using q(1,2) assms(2,3) by simp_all
  note r = q(3-7) [unfolded this]
  have ks: "\<forall>q \<in> set (row # rows). map fst q = map fst row" using table_uniform [OF assms(3)] by auto
  have out: "\<forall>q \<in> set results. map fst q = ?cols" using columns_after_ops [OF r(2)] ks r(1) by blast
  have "result_rows hunt = results" by (simp add: result_rows_def list_in_def r(5) fields_of_def comp_def)
  moreover have "schema_names hunt = map (\<lambda>c. dict_get (fields_of c) ''Name'') schema" by (simp add: schema_names_def list_in_def r(4))
  ultimately show ?thesis using columns_named [OF r(3) _ assms(4) ks out] out by simp
qed

section \<open>Hunting for a vulnerability\<close>

lemma every_nth_one: "i < length xs \<Longrightarrow> every_nth (length xs) (drop i xs) = [xs ! i]"
  by (simp flip: Cons_nth_drop_Suc)

lemma round_robin_exact:
  assumes "entries \<noteq> []"
  shows "round_robin f machines entries = map (\<lambda>(j, m). f m (entries ! (j mod length entries))) (enumerate 0 machines)"
proof -
  have "every_nth (length entries) (drop (j mod length entries) entries) = [entries ! (j mod length entries)]" for j
    using assms by (intro every_nth_one) simp
  then have "concat (map (\<lambda>(index, machine).
        map (f machine) (every_nth (length entries) (drop (index mod length entries) entries))) xs) =
      map (\<lambda>(j, m). f m (entries ! (j mod length entries))) xs" for xs
    by (induction xs) auto
  then show ?thesis using assms by (simp add: round_robin_def)
qed

lemma keep_rows_filter: "(\<And>row. row \<in> set rows \<Longrightarrow> p row = Inr (f row)) \<Longrightarrow> keep_rows p rows = Inr (filter f rows)"
  by (induction rows) simp_all

lemma text_equal:
  assumes "dict_get row c = VStr t" "float_of_str t = None"
  shows "holds engine (Compare ''=='' (Col c) (Text u)) row = Inr (t = u)"
  using assms by (auto simp: comparison_def kql_equal_def is_instant_def on_numbers_def kval_float_def as_float_def kval_str_def)

lemma vulnerability_table: "get_table ''DeviceTvmSoftwareVulnerabilities'' s = Some (device_software_vulnerabilities s)"
  by (simp add: get_table_def TABLES_def lower_def lower_char_def is_upper_def)

lemma schema_of_filter: "\<exists>schema. schema_for engine now results [(''where'', argument)] source = Inr schema"
  by (simp add: schema_for_def Let_def)

text \<open>
  C27. Hunting and REST agree: with ids that are text and no number, none twice, the query for the rows of one vulnerability in
  \<open>DeviceTvmSoftwareVulnerabilities\<close> answers exactly the devices the machine references of that vulnerability list, in their order.
\<close>

theorem hunt_finds_references:
  fixes s :: db
  defines "vulns \<equiv> records_of ''mde_vulnerabilities'' s"
  assumes "v \<in> set vulns" "dict_get v ''vulnerabilityId'' = VStr cve" "wf_text cve"
    and "distinct (map (\<lambda>u. dict_get u ''vulnerabilityId'') vulns)"
    and "\<forall>u \<in> set vulns. \<exists>c. dict_get u ''vulnerabilityId'' = VStr c \<and> float_of_str c = None"
  shows "\<exists>hunt. run_query engine now [(''Query'', VStr (''DeviceTvmSoftwareVulnerabilities | where CveId == '' @ dquoted cve))] None s = Inr hunt \<and>
    map (\<lambda>r. (dict_get r ''DeviceId'', dict_get r ''DeviceName'')) (result_rows hunt) =
    map (\<lambda>m. (dict_get m ''id'', dict_get m ''computerDnsName''))
      (machine_refs_for ''mde_vulnerabilities'' ''vulnerabilityId'' (VStr cve) s)"
proof -
  let ?e = "Compare ''=='' (Col ''CveId'') (Text cve)"
  let ?arg = "''CveId == '' @ dquoted cve" and ?machines = "records_of ''mde_machines'' s"
  let ?source = "device_software_vulnerabilities s" and ?n = "length vulns"
  have names: "is_table_name ''DeviceTvmSoftwareVulnerabilities''" "wf_column ''CveId''" "''=='' \<in> set COMPARISON_OPS" by code_simp+
  have wf: "wf_expr ?e" "nesting ?e < KQL_MAX_DEPTH" using assms(4) names by (simp_all add: KQL_MAX_DEPTH_def)
  have read: "parse_kql (VStr (''DeviceTvmSoftwareVulnerabilities | where CveId == '' @ dquoted cve)) =
      Inr (''DeviceTvmSoftwareVulnerabilities'', [(''where'', ?arg)])"
    "evaluate_kql engine now [(''where'', ?arg)] ?source = keep_rows (holds engine ?e) ?source"
    using hunting_filter_read [OF names(1) wf] by simp_all
  have ne: "vulns \<noteq> []" using assms(2) by auto
  have source: "?source = map (\<lambda>(j, m). vulnerability_row m (vulns ! (j mod ?n))) (enumerate 0 ?machines)"
    using round_robin_exact [OF ne] by (simp add: device_software_vulnerabilities_def vulns_def)
  have cve: "dict_get (vulnerability_row m u) ''CveId'' = dict_get u ''vulnerabilityId''" for m u by (simp add: vulnerability_row_def)
  have "holds engine ?e row = Inr (dict_get row ''CveId'' = VStr cve)" if "row \<in> set ?source" for row
  proof -
    obtain j m where row: "row = vulnerability_row m (vulns ! (j mod ?n))" using \<open>row \<in> set ?source\<close> unfolding source by auto
    have "vulns ! (j mod ?n) \<in> set vulns" using ne by simp
    then obtain c where "dict_get row ''CveId'' = VStr c" "float_of_str c = None" using assms(6) cve row by auto
    then show ?thesis using text_equal by simp
  qed
  then have kept: "keep_rows (holds engine ?e) ?source = Inr (filter (\<lambda>row. dict_get row ''CveId'' = VStr cve) ?source)"
    by (rule keep_rows_filter)
  obtain i where i: "i < ?n" "vulns ! i = v" using assms(2) by (auto simp: in_set_conv_nth)
  have hit: "dict_get (vulns ! (j mod ?n)) ''vulnerabilityId'' = VStr cve \<longleftrightarrow> j mod ?n = i" for j
  proof -
    have "j mod ?n < ?n" using ne by simp
    then show ?thesis using nth_eq_iff_index_eq [OF assms(5), of "j mod ?n" i] i assms(3) by auto
  qed
  let ?result = "filter (\<lambda>row. dict_get row ''CveId'' = VStr cve) ?source"
  obtain schema where "schema_for engine now ?result [(''where'', ?arg)] ?source = Inr schema" using schema_of_filter by blast
  then obtain hunt where hunt: "run_query engine now [(''Query'', VStr (''DeviceTvmSoftwareVulnerabilities | where CveId == '' @ dquoted cve))] None s = Inr hunt"
    "dict_get hunt ''Results'' = VList (map VDict ?result)"
    using read kept by (simp add: run_query_def get_or_def vulnerability_table del: evaluate_kql.simps)
  have "result_rows hunt = ?result" by (simp add: result_rows_def hunt(2) list_in_def fields_of_def comp_def)
  also have "\<dots> = map (\<lambda>(j, m). vulnerability_row m (vulns ! (j mod ?n))) (filter (\<lambda>(j, m). j mod ?n = i) (enumerate 0 ?machines))"
    unfolding source filter_map by (intro arg_cong [where f = "map _"] filter_cong refl) (auto simp: cve hit)
  finally have "map (\<lambda>r. (dict_get r ''DeviceId'', dict_get r ''DeviceName'')) (result_rows hunt) =
      map (\<lambda>(j, m). (dict_get m ''machineId'', dict_get m ''computerDnsName'')) (filter (\<lambda>(j, m). j mod ?n = i) (enumerate 0 ?machines))"
    by (simp add: vulnerability_row_def case_prod_beta comp_def)
  also have "\<dots> = map (\<lambda>m. (dict_get m ''id'', dict_get m ''computerDnsName'')) (machine_refs_for ''mde_vulnerabilities'' ''vulnerabilityId'' (VStr cve) s)"
    using refs_of_nth [of i vulns s "''mde_vulnerabilities''" "''vulnerabilityId''"] i assms(3,5)
    by (simp add: vulns_def records_of_def machine_ref_def case_prod_beta comp_def)
  finally show ?thesis using hunt(1) by blast
qed

theorem hunt_finds_references_witness:
  "\<exists>hunt. run_query \<lparr>sre_parse = \<lambda>_. None, re_search = \<lambda>_ _. None\<rparr> 0
      [(''Query'', VStr (''DeviceTvmSoftwareVulnerabilities | where CveId == '' @ dquoted ''v2''))] None estate = Inr hunt \<and>
    map (\<lambda>r. (dict_get r ''DeviceId'', dict_get r ''DeviceName'')) (result_rows hunt) = [(VStr ''m2'', VStr ''ws-m2'')]"
proof -
  let ?v = "map (\<lambda>k. (k, if k = ''vulnerabilityId'' then VStr ''v2'' else VInt 0)) VULNERABILITY_FIELDS"
  have t: "wf_text ''v2''" "float_of_str ''v1'' = None" "float_of_str ''v2'' = None" "float_of_str ''v3'' = None" by code_simp+
  have "machine_refs_for ''mde_vulnerabilities'' ''vulnerabilityId'' (VStr ''v2'') estate =
      [[(''id'', VStr ''m2''), (''computerDnsName'', VStr ''ws-m2''), (''osPlatform'', VStr ''Linux''), (''rbacGroupName'', VStr [])]]"
    unfolding machine_refs_for_def Let_def estate_lists by code_simp
  moreover have "?v \<in> set (records_of ''mde_vulnerabilities'' estate)" "dict_get ?v ''vulnerabilityId'' = VStr ''v2''"
    "distinct (map (\<lambda>u. dict_get u ''vulnerabilityId'') (records_of ''mde_vulnerabilities'' estate))"
    "\<forall>u \<in> set (records_of ''mde_vulnerabilities'' estate). \<exists>c. dict_get u ''vulnerabilityId'' = VStr c \<and> float_of_str c = None"
    unfolding records_of_def estate_lists using t by (simp_all add: VULNERABILITY_FIELDS_def)
  ultimately show ?thesis
    using hunt_finds_references [of ?v estate "''v2''" "\<lparr>sre_parse = \<lambda>_. None, re_search = \<lambda>_ _. None\<rparr>" 0] t(1) by simp
qed

text \<open>The filter lets no row through, and the schema still names the one projected column.\<close>

theorem hunt_shape_witness:
  "\<exists>hunt. run_query \<lparr>sre_parse = \<lambda>_. None, re_search = \<lambda>_ _. None\<rparr> 0
       [(''Query'', VStr ''DeviceInfo | where OSPlatform == \"none\" | project DeviceId'')] None estate = Inr hunt \<and>
     schema_names hunt = [VStr ''DeviceId''] \<and> result_rows hunt = []"
proof -
  let ?engine = "\<lparr>sre_parse = \<lambda>_. None, re_search = \<lambda>_ _. None\<rparr> :: regex_engine"
  let ?body = "[(''Query'', VStr ''DeviceInfo | where OSPlatform == \"none\" | project DeviceId'')]"
  have p: "parse_kql (get_or ?body ''Query'' (VStr [])) =
      Inr (''DeviceInfo'', [(''where'', ''OSPlatform == \"none\"''), (''project'', ''DeviceId'')])" by code_simp
  have r: "case run_query ?engine 0 ?body None estate of Inl e \<Rightarrow> False | Inr hunt \<Rightarrow> result_rows hunt = []" by code_simp
  then obtain hunt where h: "run_query ?engine 0 ?body None estate = Inr hunt" "result_rows hunt = []" by (auto split: sum.splits)
  have c: "kql_columns ''DeviceId'' = [''DeviceId'']" by code_simp
  obtain row rows where d: "device_info estate = row # rows"
    by (simp add: device_info_def records_of_def estate_lists)
  have t: "get_table ''DeviceInfo'' estate = Some (row # rows)"
    by (simp add: get_table_def TABLES_def lower_def lower_char_def is_upper_def d)
  have f: "fold columns_after_op [(''where'', ''OSPlatform == \"none\"''), (''project'', ''DeviceId'')] (map fst row) = [''DeviceId'']"
    "fold leaves_a_row [(''where'', ''OSPlatform == \"none\"''), (''project'', ''DeviceId'')] True"
    by (simp_all add: columns_after_op_def leaves_a_row_def c insert_key_def)
  from hunt_shape [OF h(1) p t] f have "schema_names hunt = [VStr ''DeviceId'']" by simp
  with h show ?thesis by blast
qed

end
