(* ===== verification/Expiry.thy ===== *)
theory Expiry
  imports Repository Py_Format
begin

text \<open>
  What a long-running instance forgets: records with a lifetime, and the sweeps that delete the ones past it. A reaper of
  the sources either lists the expired keys first or deletes as it goes; reading the age of a record may raise. A reading of
  the clock is a \<open>tick\<close>: its value and the text it is stored as. The difference of two readings is exact, since both are
  multiples of the same power of two.

  The locale \<open>expiring\<close> is the contract of a collection with a lifetime, and \<open>expiring_use\<close> that of one whose
  records are used through a look-up that honours it. Shown here once for all of them: a sweep
  deletes exactly the expired records, and no client can tell whether sweeps ran.
\<close>

section \<open>Readings of the clock\<close>

record tick =
  clk :: rat
  clk_text :: string

definition reads :: "tick \<Rightarrow> bool" where
  "reads t \<longleftrightarrow> float_of_str (clk_text t) = Some (Fin (clk t))"

definition stamp :: "tick \<Rightarrow> pyval" where
  "stamp t = VFloat (clk_text t)"

text \<open>\<open>float(v)\<close>.\<close>

definition py_float :: "pyval \<Rightarrow> pyfloat result" where
  "py_float v =
     (case v of
        VFloat t \<Rightarrow> (case float_of_str t of Some f \<Rightarrow> Inr f | None \<Rightarrow> Inl (ValueError t))
      | VStr t \<Rightarrow> (case float_of_str t of Some f \<Rightarrow> Inr f | None \<Rightarrow> Inl (ValueError t))
      | VInt n \<Rightarrow> (case float_of_int n of Some f \<Rightarrow> Inr f | None \<Rightarrow> Inl (OverflowError ''int too large to convert to float''))
      | VBool b \<Rightarrow> Inr (Fin (if b then 1 else 0))
      | _ \<Rightarrow> Inl (TypeError ''float() argument must be a string or a real number''))"

lemma py_float_stamp [simp]: "reads t \<Longrightarrow> py_float (stamp t) = Inr (Fin (clk t))"
  by (simp add: py_float_def stamp_def reads_def)

text \<open>\<open>now - x > k\<close>.\<close>

definition idle_past :: "rat \<Rightarrow> pyfloat \<Rightarrow> rat \<Rightarrow> bool" where
  "idle_past now x k = (case x of Fin q \<Rightarrow> k < now - q | NegInf \<Rightarrow> True | _ \<Rightarrow> False)"

lemma idle_past_later: "idle_past now x k \<Longrightarrow> now \<le> later \<Longrightarrow> idle_past later x k"
  by (auto simp: idle_past_def split: pyfloat.splits)

lemma idle_past_Fin [simp]: "idle_past now (Fin q) k \<longleftrightarrow> k < now - q"
  by (simp add: idle_past_def)

lemma fl_less_later: "fl_less x (Fin now) \<Longrightarrow> now \<le> later \<Longrightarrow> fl_less x (Fin later)"
  by (cases x) auto

lemma map_sum_eq_Inr: "map_sum id f x = Inr b \<longleftrightarrow> (\<exists>y. x = Inr y \<and> f y = b)"
  by (cases x) auto

section \<open>Reaping\<close>

definition entries :: "db \<Rightarrow> string \<Rightarrow> (string \<times> pyval) list" where
  "entries s c = (case store_get_all_with_keys s c of Inl e \<Rightarrow> [] | Inr d \<Rightarrow> d)"

definition delete_keys :: "string \<Rightarrow> string list \<Rightarrow> db \<Rightarrow> db" where
  "delete_keys c ks s = fold (\<lambda>k s. fst (repo_delete s c k)) ks s"

text \<open>The keys of the entries a test holds for.\<close>

fun keys_where :: "(pyval \<Rightarrow> bool result) \<Rightarrow> (string \<times> pyval) list \<Rightarrow> string list result" where
  "keys_where test [] = Inr []"
| "keys_where test ((k, v) # d) =
     (case test v of
        Inl e \<Rightarrow> Inl e
      | Inr b \<Rightarrow> (case keys_where test d of Inl e \<Rightarrow> Inl e | Inr ks \<Rightarrow> Inr (if b then k # ks else ks)))"

text \<open>Lists the expired keys, then deletes them.\<close>

definition reap_listed :: "(pyval \<Rightarrow> bool result) \<Rightarrow> string \<Rightarrow> db \<Rightarrow> nat result \<times> db" where
  "reap_listed test c s =
     (case keys_where test (entries s c) of
        Inl e \<Rightarrow> (Inl e, s)
      | Inr ks \<Rightarrow> (Inr (length ks), delete_keys c ks s))"

text \<open>Deletes while it walks over a copy of the entries; what was deleted before a test raises stays deleted.\<close>

fun reap_walk :: "(pyval \<Rightarrow> bool result) \<Rightarrow> string \<Rightarrow> (string \<times> pyval) list \<Rightarrow> nat \<Rightarrow> db \<Rightarrow> nat result \<times> db" where
  "reap_walk test c [] removed s = (Inr removed, s)"
| "reap_walk test c ((k, v) # d) removed s =
     (case test v of
        Inl e \<Rightarrow> (Inl e, s)
      | Inr b \<Rightarrow> if b then reap_walk test c d (Suc removed) (fst (repo_delete s c k)) else reap_walk test c d removed s)"

definition holds_of :: "(pyval \<Rightarrow> bool result) \<Rightarrow> pyval \<Rightarrow> bool" where
  "holds_of test v \<longleftrightarrow> test v = Inr True"

definition dead_keys :: "(pyval \<Rightarrow> bool result) \<Rightarrow> (string \<times> pyval) list \<Rightarrow> string list" where
  "dead_keys test d = map fst (filter (\<lambda>(k, v). holds_of test v) d)"

lemma keys_where_readable: "\<forall>(k, v) \<in> set d. \<exists>b. test v = Inr b \<Longrightarrow> keys_where test d = Inr (dead_keys test d)"
  by (induction d rule: induct_list012) (auto simp: dead_keys_def holds_of_def)

lemma reap_walk_readable:
  "\<forall>(k, v) \<in> set d. \<exists>b. test v = Inr b \<Longrightarrow>
     reap_walk test c d n s = (Inr (n + length (dead_keys test d)), delete_keys c (dead_keys test d) s)"
proof (induction d arbitrary: n s)
  case (Cons kv d)
  obtain k v where kv: "kv = (k, v)" by (cases kv)
  then obtain b where "test v = Inr b" using Cons.prems by auto
  then show ?case using Cons kv by (cases b) (simp_all add: dead_keys_def holds_of_def delete_keys_def)
qed (simp add: dead_keys_def delete_keys_def)

lemma reap_listed_readable:
  "\<forall>(k, v) \<in> set (entries s c). ok v \<Longrightarrow> (\<And>v. ok v \<Longrightarrow> \<exists>b. test v = Inr b) \<Longrightarrow>
     reap_listed test c s = (Inr (length (dead_keys test (entries s c))), delete_keys c (dead_keys test (entries s c)) s)"
proof -
  assume "\<forall>(k, v) \<in> set (entries s c). ok v" "\<And>v. ok v \<Longrightarrow> \<exists>b. test v = Inr b"
  then have "\<forall>(k, v) \<in> set (entries s c). \<exists>b. test v = Inr b" by blast
  then show ?thesis by (simp add: reap_listed_def keys_where_readable)
qed

lemma store_inv_delete_keys [simp]: "store_inv s \<Longrightarrow> store_inv (delete_keys c ks s)"
  by (induction ks arbitrary: s) (simp_all add: delete_keys_def)

lemma delete_keys_get:
  "store_inv s \<Longrightarrow> c \<in> set collection_names \<Longrightarrow>
     repo_get (delete_keys c ks s) c' i = (if c' = c \<and> i \<in> set ks then None else repo_get s c' i)"
  by (induction ks arbitrary: s) (auto simp: delete_keys_def repo_delete_get)

lemma entries_get:
  "c \<in> set collection_names \<Longrightarrow> store_inv s \<Longrightarrow> repo_get s c i = map_of (entries s c) i \<and> distinct (map fst (entries s c))"
proof -
  assume c: "c \<in> set collection_names" and inv: "store_inv s"
  obtain d where d: "coll s c = Inr d" using store_inv_present [OF inv c] by blast
  then have "wf_dict d" using store_inv_wf [OF inv] by blast
  then show ?thesis using d by (simp add: entries_def store_get_all_with_keys_def repo_get_eq)
qed

section \<open>The contracts\<close>

locale expiring =
  fixes c :: string and ok :: "pyval \<Rightarrow> bool" and expired :: "rat \<Rightarrow> pyval \<Rightarrow> bool result"
    and reap :: "rat \<Rightarrow> db \<Rightarrow> nat result \<times> db"
  assumes known: "c \<in> set collection_names"
    and readable: "ok v \<Longrightarrow> \<exists>b. expired m v = Inr b"
    and stays: "ok v \<Longrightarrow> expired m v = Inr True \<Longrightarrow> m \<le> m' \<Longrightarrow> expired m' v = Inr True"
    and reaps: "store_inv s \<Longrightarrow> \<forall>(k, v) \<in> set (entries s c). ok v \<Longrightarrow>
      reap m s = (Inr (length (dead_keys (expired m) (entries s c))), delete_keys c (dead_keys (expired m) (entries s c)) s)"
begin

definition all_ok :: "db \<Rightarrow> bool" where
  "all_ok s \<longleftrightarrow> (\<forall>i v. repo_get s c i = Some v \<longrightarrow> ok v)"

lemma reap_exact:
  assumes "store_inv s" "all_ok s"
  shows "\<exists>s'. reap m s = (Inr (length (filter (holds_of (expired m)) (repo_list_all s c))), s') \<and> store_inv s' \<and>
    (\<forall>c' i. repo_get s' c' i =
       (case repo_get s c' i of None \<Rightarrow> None | Some v \<Rightarrow> if c' = c \<and> expired m v = Inr True then None else Some v))"
proof -
  note get = entries_get [OF known assms(1)]
  have mapped: "map_of (entries s c) k = Some v" if "(k, v) \<in> set (entries s c)" for k v using that get by simp
  then have "\<forall>(k, v) \<in> set (entries s c). ok v" using assms(2) get by (auto simp: all_ok_def)
  note r = reaps [OF assms(1) this, of m]
  have vs: "repo_list_all s c = List.map snd (entries s c)"
    using store_inv_present [OF assms(1) known] 
    by (auto simp: repo_list_all_def store_get_all_def entries_def store_get_all_with_keys_def)
  have "length (dead_keys (expired m) (entries s c)) = length (filter (holds_of (expired m)) (repo_list_all s c))"
    by (simp add: dead_keys_def vs filter_map comp_def case_prod_unfold)
  moreover have "i \<in> set (dead_keys (expired m) (entries s c)) \<longleftrightarrow>
      (\<exists>v. repo_get s c i = Some v \<and> expired m v = Inr True)" for i
    using get mapped by (force simp: dead_keys_def holds_of_def dest: map_of_SomeD)
  ultimately show ?thesis
    using r assms(1) known by (auto simp: delete_keys_get split: option.splits)
qed

end

datatype 'p visit = Use 'p tick string | Sweep tick

fun visit_time :: "'p visit \<Rightarrow> tick" where
  "visit_time (Use p t i) = t"
| "visit_time (Sweep t) = t"

fun is_use :: "'p visit \<Rightarrow> bool" where
  "is_use (Use p t i) = True"
| "is_use (Sweep t) = False"

text \<open>Visits in the order of time, the first no earlier than \<open>now\<close>.\<close>

fun in_time :: "rat \<Rightarrow> 'p visit list \<Rightarrow> bool" where
  "in_time now [] = True"
| "in_time now (e # es) \<longleftrightarrow> now \<le> clk (visit_time e) \<and> reads (visit_time e) \<and> in_time (clk (visit_time e)) es"

fun of_key :: "string \<Rightarrow> 'p visit \<Rightarrow> bool" where
  "of_key key (Use p t i) \<longleftrightarrow> i = key"
| "of_key key (Sweep t) \<longleftrightarrow> True"

fun answers :: "('p \<Rightarrow> tick \<Rightarrow> string \<Rightarrow> db \<Rightarrow> 'a \<times> db) \<Rightarrow> (rat \<Rightarrow> db \<Rightarrow> nat result \<times> db) \<Rightarrow> 'p visit list \<Rightarrow> db \<Rightarrow> 'a list" where
  "answers use reap [] s = []"
| "answers use reap (Use p t i # es) s = (let (a, s') = use p t i s in a # answers use reap es s')"
| "answers use reap (Sweep t # es) s = answers use reap es (snd (reap (clk t) s))"

lemma in_time_earlier: "in_time m es \<Longrightarrow> now \<le> m \<Longrightarrow> in_time now es"
  by (cases es) auto

lemma in_time_uses: "in_time now es \<Longrightarrow> in_time now (filter is_use es)"
proof (induction now es rule: in_time.induct)
  case (2 now e es)
  then show ?case by (cases e) (auto intro: in_time_earlier)
qed simp

locale expiring_use = expiring +
  fixes use :: "'p \<Rightarrow> tick \<Rightarrow> string \<Rightarrow> db \<Rightarrow> 'a option result \<times> db"
    and answer :: "'p \<Rightarrow> tick \<Rightarrow> pyval \<Rightarrow> 'a" and touch :: "'p \<Rightarrow> tick \<Rightarrow> pyval \<Rightarrow> pyval"
  assumes use_absent: "repo_get s c i = None \<Longrightarrow> use p t i s = (Inr None, s)"
    and use_dead: "repo_get s c i = Some v \<Longrightarrow> ok v \<Longrightarrow> expired (clk t) v = Inr True \<Longrightarrow>
      use p t i s = (Inr None, fst (repo_delete s c i))"
    and use_live: "repo_get s c i = Some v \<Longrightarrow> ok v \<Longrightarrow> expired (clk t) v = Inr False \<Longrightarrow> store_inv s \<Longrightarrow>
      \<exists>s'. use p t i s = (Inr (Some (answer p t v)), s') \<and> store_inv s' \<and>
        (\<forall>c' j. repo_get s' c' j = (if c' = c \<and> j = i then Some (touch p t v) else repo_get s c' j))"
    and touch_ok: "ok v \<Longrightarrow> reads t \<Longrightarrow> ok (touch p t v)"
begin

text \<open>The store holds what an ideal memory that never forgets holds, less records already expired.\<close>

definition holds_live :: "rat \<Rightarrow> db \<Rightarrow> (string \<Rightarrow> pyval option) \<Rightarrow> bool" where
  "holds_live now s mem \<longleftrightarrow> store_inv s \<and> (\<forall>i v. mem i = Some v \<longrightarrow> ok v) \<and>
     (\<forall>i. repo_get s c i = mem i \<or> repo_get s c i = None \<and> (\<exists>v. mem i = Some v \<and> expired now v = Inr True))"

lemma holds_live_ok: "holds_live now s mem \<Longrightarrow> all_ok s"
  unfolding holds_live_def all_ok_def by (metis option.distinct(1))

lemma holds_live_later: "holds_live now s mem \<Longrightarrow> now \<le> later \<Longrightarrow> holds_live later s mem"
  unfolding holds_live_def by (blast intro: stays)

fun ideal :: "'p visit list \<Rightarrow> (string \<Rightarrow> pyval option) \<Rightarrow> 'a option result list" where
  "ideal [] mem = []"
| "ideal (Use p t i # es) mem =
     (case mem i of
        None \<Rightarrow> Inr None # ideal es mem
      | Some v \<Rightarrow>
          (if expired (clk t) v = Inr True then Inr None # ideal es mem
           else Inr (Some (answer p t v)) # ideal es (mem(i \<mapsto> touch p t v))))"
| "ideal (Sweep t # es) mem = ideal es mem"

lemma holds_live_swept:
  assumes "holds_live now s mem"
  shows "holds_live now (snd (reap now s)) mem"
proof -
  have inv: "store_inv s" using assms by (simp add: holds_live_def)
  obtain s' where s': "reap now s = (Inr (length (filter (holds_of (expired now)) (repo_list_all s c))), s')" "store_inv s'"
    "\<And>c' i. repo_get s' c' i =
       (case repo_get s c' i of None \<Rightarrow> None | Some v \<Rightarrow> if c' = c \<and> expired now v = Inr True then None else Some v)"
    using reap_exact [OF inv holds_live_ok [OF assms], of now] by blast
  have get: "repo_get s' c i =
      (case repo_get s c i of None \<Rightarrow> None | Some v \<Rightarrow> if expired now v = Inr True then None else Some v)" for i
    using s'(3) [of c i] by (simp split: option.splits)
  have "repo_get s' c i = mem i \<or> repo_get s' c i = None \<and> (\<exists>v. mem i = Some v \<and> expired now v = Inr True)" for i
  proof -
    have "repo_get s c i = mem i \<or> repo_get s c i = None \<and> (\<exists>v. mem i = Some v \<and> expired now v = Inr True)"
      using assms by (simp add: holds_live_def)
    then show ?thesis using get [of i] by (auto split: option.splits if_splits)
  qed
  then show ?thesis using assms s'(1,2) by (simp add: holds_live_def)
qed

lemma answers_ideal: "holds_live now s mem \<Longrightarrow> in_time now es \<Longrightarrow> answers use reap es s = ideal es mem"
proof (induction es arbitrary: now s mem)
  case (Cons e es)
  note here = holds_live_later [OF Cons.prems(1), of "clk (visit_time e)"]
  show ?case
  proof (cases e)
    case (Sweep t)
    then show ?thesis using here Cons.prems(2) Cons.IH [of "clk t" "snd (reap (clk t) s)" mem] holds_live_swept [of "clk t" s mem] by simp
  next
    case (Use p t i)
    then have live: "holds_live (clk t) s mem" and t: "reads t" "in_time (clk t) es" using here Cons.prems(2) by auto
    then have inv: "store_inv s" and mem: "\<And>v. mem i = Some v \<Longrightarrow> ok v" by (auto simp: holds_live_def)
    show ?thesis
    proof (cases "repo_get s c i")
      case None
      then have "mem i = None \<or> (\<exists>v. mem i = Some v \<and> expired (clk t) v = Inr True)"
        using live unfolding holds_live_def by metis
      then show ?thesis using Use use_absent [OF None, of p t] Cons.IH [OF live t(2)] by auto
    next
      case (Some v)
      then have v: "mem i = Some v" "ok v" using live mem unfolding holds_live_def by (metis option.distinct(1))+
      show ?thesis
      proof (cases "expired (clk t) v = Inr True")
        case True
        have "holds_live (clk t) (fst (repo_delete s c i)) mem"
          using live v True known by (auto simp: holds_live_def repo_delete_get)
        then show ?thesis using Use v True use_dead [OF Some v(2) True] Cons.IH t(2) by simp
      next
        case False
        then have f: "expired (clk t) v = Inr False" using readable [OF v(2), of "clk t"] by auto
        obtain s' where s': "use p t i s = (Inr (Some (answer p t v)), s')" "store_inv s'"
          "\<And>c' j. repo_get s' c' j = (if c' = c \<and> j = i then Some (touch p t v) else repo_get s c' j)"
          using use_live [OF Some v(2) f inv] by blast
        then have "holds_live (clk t) s' (mem(i \<mapsto> touch p t v))"
          using live touch_ok [OF v(2) t(1)] by (simp add: holds_live_def)
        then show ?thesis using Use v False s'(1) Cons.IH t(2) by (simp del: fun_upd_apply)
      qed
    qed
  qed
qed simp

text \<open>No client can tell whether, or when, a sweep ran.\<close>

lemma sweeps_unseen:
  assumes "store_inv s" "all_ok s" "in_time now es"
  shows "answers use reap es s = answers use reap (filter is_use es) s"
proof -
  have live: "holds_live now s (repo_get s c)" using assms by (simp add: holds_live_def all_ok_def)
  have "ideal es mem = ideal (filter is_use es) mem" for mem
    by (induction es mem rule: ideal.induct) (auto split: option.splits simp del: fun_upd_apply)
  then show ?thesis
    using answers_ideal [OF live assms(3)] answers_ideal [OF live in_time_uses [OF assms(3)]] by simp
qed

end

text \<open>Readings the witnesses use.\<close>

definition demo_tick :: "rat \<Rightarrow> string \<Rightarrow> tick" where
  "demo_tick q text = \<lparr>clk = q, clk_text = text\<rparr>"

lemma demo_ticks:
  "reads (demo_tick 100 ''100.0'')" "reads (demo_tick 3700 ''3700.0'')" "reads (demo_tick 7400 ''7400.0'')"
  using round_double_whole [of 100] round_double_whole [of 3700] round_double_whole [of 7400]
  by (simp_all add: reads_def demo_tick_def float_of_str_def decimal_value_def int_of_digits_def digit_val_def strip_def
      lstrip_def rstrip_def is_space_def is_digit_def split_sign_def lower_def lower_char_def is_upper_def Let_def)

end
