(* ===== verification/Splunk_Auth.thy ===== *)
theory Splunk_Auth
  imports Auth Expiry
begin

text \<open>
  The authentication of the Splunk mount, \<open>src/backend/api/splunk_auth.py\<close>: session keys with an idle timeout, Basic
  credentials, roles, and the tokens of the event collector. The timeout is the one of an unset environment, the
  key of a session is drawn, and the setting that admits a token in the query string is an argument.

  Shown here: a session key is honoured exactly while no two uses of it lie more than an hour apart, whatever
  sweeps run in between.
\<close>

section \<open>Sessions\<close>

definition SESSION_TTL_SECONDS :: rat where
  "SESSION_TTL_SECONDS = 3600"

definition create_session :: "string \<Rightarrow> tick \<Rightarrow> string \<Rightarrow> db \<Rightarrow> string \<times> db" where
  "create_session session_key t username s =
     (session_key, repo_save_raw s ''splunk_sessions'' session_key
        (VDict [(''username'', VStr username), (''created_at'', stamp t)]))"

definition session_expired :: "jobj \<Rightarrow> rat \<Rightarrow> bool result" where
  "session_expired rec now =
     (let last = get_or rec ''last_used'' (dict_get rec ''created_at'')
      in if last = VNone then Inr False
         else map_sum id (\<lambda>f. idle_past now f SESSION_TTL_SECONDS) (py_float last))"

text \<open>A use restarts the idle clock in the live record, which is no save.\<close>

definition resolve_session :: "tick \<Rightarrow> string \<Rightarrow> db \<Rightarrow> pyval option result \<times> db" where
  "resolve_session t session_key s =
     (case repo_get s ''splunk_sessions'' session_key of
        None \<Rightarrow> (Inr None, s)
      | Some v \<Rightarrow>
          (if \<not> truthy v then (Inr None, s)
           else case session_expired (fields_of v) (clk t) of
                  Inl e \<Rightarrow> (Inl e, s)
                | Inr expired \<Rightarrow>
                    (if expired then (Inr None, fst (repo_delete s ''splunk_sessions'' session_key))
                     else let rec = AList.update ''last_used'' (stamp t) (fields_of v);
                              s' = assign_stored s ''splunk_sessions'' session_key rec
                          in case map_of rec ''username'' of
                               None \<Rightarrow> (Inl (KeyError ''username''), s')
                             | Some u \<Rightarrow> (Inr (Some u), s'))))"

definition session_test :: "rat \<Rightarrow> pyval \<Rightarrow> bool result" where
  "session_test now v = (case v of VDict rec \<Rightarrow> session_expired rec now | _ \<Rightarrow> Inr False)"

definition reap_sessions :: "rat \<Rightarrow> db \<Rightarrow> nat result \<times> db" where
  "reap_sessions now s = reap_listed (session_test now) ''splunk_sessions'' s"

section \<open>Who is calling\<close>

definition AUTH_FAILED :: string where
  "AUTH_FAILED = ''call not properly authenticated''"

definition SPLUNK_UNAUTHORIZED :: failure where
  "SPLUNK_UNAUTHORIZED =
     HTTPException 401 (VDict [(''messages'', VList [VDict [(''type'', VStr ''ERROR''), (''text'', VStr ''Unauthorized'')]])])
       [(''WWW-Authenticate'', ''Basic realm='' @ in_quotes ''/splunk'')]"

definition splunk_user :: "jobj \<Rightarrow> jobj" where
  "splunk_user user = [(''username'', dict_get user ''username''), (''roles'', dict_get user ''roles'')]"

text \<open>The user of a session key, \<open>splunk_user_repo.get(username)\<close> where the name is not blank.\<close>

definition session_caller :: "tick \<Rightarrow> string \<Rightarrow> db \<Rightarrow> jobj http \<times> db" where
  "session_caller t session_key s =
     (let refused = Inl (HTTPException 401 (build_splunk_error 401 AUTH_FAILED) []); (out, s') = resolve_session t session_key s
      in (case out of
            Inl e \<Rightarrow> Inl (Raised e)
          | Inr None \<Rightarrow> refused
          | Inr (Some u) \<Rightarrow>
              (if \<not> truthy u then refused
               else case find_by_value s' ''splunk_users'' u of
                      Inl e \<Rightarrow> Inl (Raised e)
                    | Inr None \<Rightarrow> refused
                    | Inr (Some user) \<Rightarrow> Inr (splunk_user user)), s'))"

text \<open>\<open>splunk_user_repo.authenticate\<close>.\<close>

definition splunk_authenticate :: "db \<Rightarrow> string \<Rightarrow> string \<Rightarrow> jobj option result" where
  "splunk_authenticate s username password =
     (case repo_find s ''splunk_users'' username of
        None \<Rightarrow> Inr None
      | Some user \<Rightarrow>
          map_sum id (\<lambda>same. if same then Some user else None) (compare_digest (py_str (dict_get user ''password'')) password))"

text \<open>Whatever goes wrong while the credentials are read is swallowed.\<close>

definition basic_caller :: "string \<Rightarrow> db \<Rightarrow> jobj option" where
  "basic_caller encoded s =
     (if \<not> is_ascii encoded then None
      else case b64decode encoded of
             None \<Rightarrow> None
           | Some decoded \<Rightarrow>
               (if \<not> utf8_valid decoded then None
                else case partition_on CHR '':'' decoded of
                       (uname, sep, passwd) \<Rightarrow>
                         (if sep = [] then None
                          else case splunk_authenticate s uname passwd of
                                 Inr (Some user) \<Rightarrow> Some (splunk_user user)
                               | _ \<Rightarrow> None)))"

definition require_splunk_auth :: "tick \<Rightarrow> db \<Rightarrow> string option \<Rightarrow> jobj http \<times> db" where
  "require_splunk_auth t s authorization =
     (case authorization of
        None \<Rightarrow> (Inl SPLUNK_UNAUTHORIZED, s)
      | Some a \<Rightarrow>
          (if startswith (lower a) ''splunk '' then session_caller t (drop 7 a) s
           else if startswith (lower a) ''bearer '' then session_caller t (drop 7 a) s
           else if startswith (lower a) ''basic ''
           then (case basic_caller (drop 6 a) s of None \<Rightarrow> Inl SPLUNK_UNAUTHORIZED | Some u \<Rightarrow> Inr u, s)
           else (Inl SPLUNK_UNAUTHORIZED, s)))"

definition SPLUNK_ADMIN_ROLES :: "string list" where
  "SPLUNK_ADMIN_ROLES = [''admin'', ''sc_admin'']"

definition INGEST_ROLES :: "string list" where
  "INGEST_ROLES = SPLUNK_ADMIN_ROLES @ [''power'', ''can_delete'']"

text \<open>Roles are a list of texts.\<close>

definition holds_role :: "string list \<Rightarrow> jobj \<Rightarrow> bool" where
  "holds_role roles user =
     (case get_or user ''roles'' (VList []) of VList vs \<Rightarrow> list_ex (\<lambda>r. VStr r \<in> set vs) roles | _ \<Rightarrow> False)"

definition require_splunk_admin :: "jobj \<Rightarrow> jobj http" where
  "require_splunk_admin user =
     (if holds_role SPLUNK_ADMIN_ROLES user then Inr user
      else Inl (HTTPException 403 (build_splunk_error 403
             (''You (user='' @ py_str (get_or user ''username'' (VStr [])) @
              '') do not have permission to perform this operation (requires capability: admin_all_objects).'')) []))"

definition require_splunk_ingest :: "jobj \<Rightarrow> jobj http" where
  "require_splunk_ingest user =
     (if holds_role INGEST_ROLES user then Inr user
      else Inl (HTTPException 403 (VDict [(''messages'', VList
             [VDict [(''type'', VStr ''WARN''), (''text'', VStr ''insufficient permission to access this resource'')]])]) []))"

section \<open>Tokens of the event collector\<close>

definition hec_refusal :: "int \<Rightarrow> string \<Rightarrow> int \<Rightarrow> failure" where
  "hec_refusal status text num = HTTPException status (VDict [(''text'', VStr text), (''code'', VInt num)]) []"

definition hec_token_of :: "string option \<Rightarrow> string option \<Rightarrow> (string \<times> bool) option" where
  "hec_token_of authorization token =
     (case authorization of
        Some a \<Rightarrow> (if startswith (lower a) ''splunk '' then Some (drop 7 a, False)
                   else case token of Some q \<Rightarrow> if q = [] then None else Some (q, True) | None \<Rightarrow> None)
      | None \<Rightarrow> (case token of Some q \<Rightarrow> if q = [] then None else Some (q, True) | None \<Rightarrow> None))"

definition require_hec_auth :: "bool \<Rightarrow> db \<Rightarrow> string option \<Rightarrow> string option \<Rightarrow> jobj http" where
  "require_hec_auth query_string_auth s authorization token =
     (case hec_token_of authorization token of
        None \<Rightarrow> Inl (hec_refusal 401 ''Token is required'' 2)
      | Some (token_value, from_query) \<Rightarrow>
          (case repo_find s ''splunk_hec_tokens'' token_value of
             None \<Rightarrow> Inl (hec_refusal 403 ''Invalid token'' 4)
           | Some rec \<Rightarrow>
               (if from_query \<and> \<not> query_string_auth
                then Inl (hec_refusal 400 ''Query string authorization is not enabled'' 16)
                else if truthy (dict_get rec ''disabled'') then Inl (hec_refusal 403 ''Token disabled'' 1)
                else Inr [(''token_name'', dict_get rec ''name''), (''token'', dict_get rec ''token''),
                          (''index'', dict_get rec ''index''), (''indexes'', dict_get rec ''indexes''),
                          (''use_ack'', dict_get rec ''use_ack''), (''sourcetype'', dict_get rec ''sourcetype'')])))"

section \<open>The life of a session key\<close>

definition session_ok :: "pyval \<Rightarrow> bool" where
  "session_ok v \<longleftrightarrow> (case v of
     VDict rec \<Rightarrow> map_of rec ''username'' \<noteq> None \<and>
       (let last = get_or rec ''last_used'' (dict_get rec ''created_at'') in last = VNone \<or> (\<exists>f. py_float last = Inr f))
   | _ \<Rightarrow> False)"

lemma session_okD:
  assumes "session_ok v"
  shows "\<exists>rec u b. v = VDict rec \<and> map_of rec ''username'' = Some u \<and> rec \<noteq> [] \<and> session_test m v = Inr b"
proof -
  obtain rec u where r: "v = VDict rec" "map_of rec ''username'' = Some u"
    and last: "get_or rec ''last_used'' (dict_get rec ''created_at'') = VNone \<or>
      (\<exists>f. py_float (get_or rec ''last_used'' (dict_get rec ''created_at'')) = Inr f)"
    using assms by (auto simp: session_ok_def Let_def split: pyval.splits)
  then have "\<exists>b. session_expired rec m = Inr b" by (auto simp: session_expired_def Let_def)
  moreover have "rec \<noteq> []" using r(2) by auto
  ultimately show ?thesis using r by (auto simp: session_test_def)
qed

lemma sessions_known [simp]: "''splunk_sessions'' \<in> set collection_names"
  by (simp add: collection_names_def)

lemma session_stays: "session_test m v = Inr True \<Longrightarrow> m \<le> m' \<Longrightarrow> session_test m' v = Inr True"
  by (cases v) (auto simp: session_test_def session_expired_def Let_def idle_past_later map_sum_eq_Inr
      split: if_splits)

definition session_touch :: "tick \<Rightarrow> pyval \<Rightarrow> pyval" where
  "session_touch t v = VDict (AList.update ''last_used'' (stamp t) (fields_of v))"

interpretation splunk_sessions: expiring_use "''splunk_sessions''" session_ok session_test reap_sessions
  "\<lambda>(p :: unit) t i s. resolve_session t i s" "\<lambda>p t v. dict_get (fields_of v) ''username''" "\<lambda>p. session_touch"
proof
  show "''splunk_sessions'' \<in> set collection_names" by simp
next
  fix v m assume "session_ok v"
  then show "\<exists>b. session_test m v = Inr b" using session_okD by blast
next
  fix m v m' show "session_ok v \<Longrightarrow> session_test m v = Inr True \<Longrightarrow> m \<le> m' \<Longrightarrow> session_test m' v = Inr True" by (rule session_stays)
next
  fix s m assume "\<forall>(k, v) \<in> set (entries s ''splunk_sessions''). session_ok v"
  then show "reap_sessions m s = (Inr (length (dead_keys (session_test m) (entries s ''splunk_sessions''))),
      delete_keys ''splunk_sessions'' (dead_keys (session_test m) (entries s ''splunk_sessions'')) s)"
    unfolding reap_sessions_def by (rule reap_listed_readable) (use session_okD in blast)
next
  fix s i and p :: unit and t :: tick
  show "repo_get s ''splunk_sessions'' i = None \<Longrightarrow> resolve_session t i s = (Inr None, s)"
    by (simp add: resolve_session_def)
next
  fix s i v and p :: unit and t :: tick
  assume "repo_get s ''splunk_sessions'' i = Some v" "session_ok v" "session_test (clk t) v = Inr True"
  then show "resolve_session t i s = (Inr None, fst (repo_delete s ''splunk_sessions'' i))"
    using session_okD [of v 0] by (auto simp: resolve_session_def session_test_def fields_of_def)
next
  fix s i v and p :: unit and t :: tick
  assume v: "repo_get s ''splunk_sessions'' i = Some v" "session_ok v" "session_test (clk t) v = Inr False" "store_inv s"
  then obtain rec u where r: "v = VDict rec" "map_of rec ''username'' = Some u" "rec \<noteq> []" using session_okD [of v 0] by blast
  let ?s' = "assign_stored s ''splunk_sessions'' i (AList.update ''last_used'' (stamp t) rec)"
  have "resolve_session t i s = (Inr (Some (dict_get (fields_of v) ''username'')), ?s')"
    using v(1,3) r by (simp add: resolve_session_def session_test_def fields_of_def dict_get_def update_conv' Let_def)
  moreover have "repo_get ?s' c' j = (if c' = ''splunk_sessions'' \<and> j = i then Some (session_touch t v) else repo_get s c' j)" for c' j
    using v(1) r by (cases "c' = ''splunk_sessions''") (simp_all add: assigned_same assigned_other session_touch_def fields_of_def)
  ultimately show "\<exists>s'. resolve_session t i s = (Inr (Some (dict_get (fields_of v) ''username'')), s') \<and> store_inv s' \<and>
      (\<forall>c' j. repo_get s' c' j = (if c' = ''splunk_sessions'' \<and> j = i then Some (session_touch t v) else repo_get s c' j))"
    using v(4) store_inv_assigned by blast
next
  fix v and t :: tick and p :: unit assume "session_ok v" "reads t"
  then show "session_ok (session_touch t v)"
    using session_okD [of v 0] by (auto simp: session_ok_def session_touch_def fields_of_def update_conv' Let_def)
qed

text \<open>What a client of one key may expect: accepted while it was used in the last hour, refused for good after.\<close>

fun idle_spec :: "string \<Rightarrow> rat option \<Rightarrow> unit visit list \<Rightarrow> pyval option result list" where
  "idle_spec u seen [] = []"
| "idle_spec u seen (Use p t i # es) =
     (case seen of
        None \<Rightarrow> Inr None # idle_spec u None es
      | Some l \<Rightarrow>
          (if clk t - l \<le> 3600 then Inr (Some (VStr u)) # idle_spec u (Some (clk t)) es
           else Inr None # idle_spec u None es))"
| "idle_spec u seen (Sweep t # es) = idle_spec u seen es"

definition last_seen :: "string \<Rightarrow> rat \<Rightarrow> pyval \<Rightarrow> bool" where
  "last_seen u l v \<longleftrightarrow> (\<exists>rec. v = VDict rec \<and> map_of rec ''username'' = Some (VStr u) \<and>
     get_or rec ''last_used'' (dict_get rec ''created_at'') \<noteq> VNone \<and>
     py_float (get_or rec ''last_used'' (dict_get rec ''created_at'')) = Inr (Fin l))"

lemma last_seen_test: "last_seen u l v \<Longrightarrow> session_test m v = Inr (3600 < m - l)"
  by (auto simp: last_seen_def session_test_def session_expired_def SESSION_TTL_SECONDS_def Let_def)

lemma last_seen_user: "last_seen u l v \<Longrightarrow> dict_get (fields_of v) ''username'' = VStr u"
  by (auto simp: last_seen_def fields_of_def dict_get_def)

lemma last_seen_touch: "last_seen u l v \<Longrightarrow> reads t \<Longrightarrow> last_seen u (clk t) (session_touch t v)"
  by (auto simp: last_seen_def session_touch_def fields_of_def update_conv') (simp_all add: stamp_def)

lemma ideal_forgotten:
  "\<forall>e \<in> set es. of_key key e \<Longrightarrow> in_time now es \<Longrightarrow> mem key = Some v \<Longrightarrow> session_test now v = Inr True \<Longrightarrow>
     splunk_sessions.ideal es mem = idle_spec u None es"
proof (induction es arbitrary: now)
  case (Cons e es)
  then have "session_test (clk (visit_time e)) v = Inr True" using session_stays by auto
  then show ?case using Cons by (cases e) auto
qed simp

lemma ideal_idle_spec:
  "\<forall>e \<in> set es. of_key key e \<Longrightarrow> in_time l es \<Longrightarrow> mem key = Some v \<Longrightarrow> last_seen u l v \<Longrightarrow>
     splunk_sessions.ideal es mem = idle_spec u (Some l) es"
proof (induction es arbitrary: l v mem)
  case (Cons e es)
  show ?case
  proof (cases e)
    case (Sweep t)
    then show ?thesis using Cons.IH [of l mem v] Cons.prems in_time_earlier [of "clk t" es l] by auto
  next
    case (Use p t i)
    then have e: "i = key" "reads t" "in_time (clk t) es" "l \<le> clk t" using Cons.prems by auto
    show ?thesis
    proof (cases "clk t - l \<le> 3600")
      case True
      then have "session_test (clk t) v \<noteq> Inr True" using last_seen_test [OF Cons.prems(4)] by simp
      then show ?thesis
        using True Use e Cons.prems(1,3) last_seen_user [OF Cons.prems(4)]
          Cons.IH [of "clk t" "mem(key \<mapsto> session_touch t v)" "session_touch t v"] last_seen_touch [OF Cons.prems(4) e(2)]
        by (simp del: fun_upd_apply) simp
    next
      case False
      then have "session_test (clk t) v = Inr True" using last_seen_test [OF Cons.prems(4)] by simp
      then show ?thesis
        using False Use e Cons.prems(1,3) ideal_forgotten [of es key "clk t" mem v u] by simp
    qed
  qed
qed simp

text \<open>
  C30. A session key is honoured exactly while no two uses of it lie more than an hour apart: whatever sweeps run between the
  uses, every use up to the first longer gap answers the user who logged in, and none after it does.
\<close>

theorem session_idle_clock:
  assumes "store_inv s" "\<forall>i v. repo_get s ''splunk_sessions'' i = Some v \<longrightarrow> session_ok v" "reads t0"
    and "\<forall>e \<in> set es. of_key key e" "in_time (clk t0) es"
  shows "answers (\<lambda>p t i s. resolve_session t i s) reap_sessions es (snd (create_session key t0 u s)) =
    idle_spec u (Some (clk t0)) es"
proof -
  let ?v = "VDict [(''username'', VStr u), (''created_at'', stamp t0)]"
  let ?s = "repo_save_raw s ''splunk_sessions'' key ?v"
  have inv: "store_inv ?s" using assms(1) by simp
  have seen: "last_seen u (clk t0) ?v"
    using assms(3) by (simp add: last_seen_def get_or_def) (simp add: stamp_def)
  have new: "repo_get ?s ''splunk_sessions'' key = Some ?v" using assms(1) by (simp add: repo_save_same)
  have "session_ok v" if "repo_get ?s ''splunk_sessions'' i = Some v" for i v
  proof -
    have "repo_get s ''splunk_sessions'' i = Some v \<or> v = ?v" using repo_saved_from [OF assms(1) that] by auto
    then show ?thesis using assms(2,3) by (auto simp: session_ok_def get_or_def)
  qed
  then have "splunk_sessions.holds_live (clk t0) ?s (repo_get ?s ''splunk_sessions'')"
    using inv by (auto simp: splunk_sessions.holds_live_def)
  then show ?thesis
    using splunk_sessions.answers_ideal [OF _ assms(5)] ideal_idle_spec [where mem = "repo_get ?s ''splunk_sessions''", OF assms(4,5) new seen]
    by (simp add: create_session_def)
qed

theorem session_idle_clock_witness:
  "answers (\<lambda>p t i s. resolve_session t i s) reap_sessions
     [Use () (demo_tick 3700 ''3700.0'') ''k'', Sweep (demo_tick 7400 ''7400.0''), Use () (demo_tick 7400 ''7400.0'') ''k'']
     (snd (create_session ''k'' (demo_tick 100 ''100.0'') ''admin'' init_store)) = [Inr (Some (VStr ''admin'')), Inr None]"
  using session_idle_clock [of init_store "demo_tick 100 ''100.0''"
    "[Use () (demo_tick 3700 ''3700.0'') ''k'', Sweep (demo_tick 7400 ''7400.0''), Use () (demo_tick 7400 ''7400.0'') ''k'']"
    "''k''" "''admin''"] demo_ticks
  by (simp add: store_inv_init demo_tick_def)

end
