(* ===== verification/Hec.thy ===== *)
theory Hec
  imports Splunk_Auth Py_Json
begin

text \<open>
  The HTTP Event Collector: validation (\<open>src/backend/utils/splunk/hec_validation.py\<close>), ingest
  (\<open>src/backend/application/splunk/commands/hec.py\<close>), and the acknowledgements and routes of
  \<open>src/backend/api/routers/splunk/splunk_hec.py\<close>. Event ids are drawn; a request reads the clock once. A JSON integer of
  more than 4300 digits and nesting beyond the interpreter's recursion limit are not modelled.

  Shown here: a batch is stored whole and in order or refused at its first bad event with nothing stored, whatever
  separates the events; an acknowledgement is answered true once, on the channel it was issued to.
\<close>

section \<open>Refusals\<close>

datatype hec_error = HecError int string "nat option"

datatype hec_stop = Hec_refused hec_error | Hec_raises exn

definition NO_DATA :: "int \<times> string" where "NO_DATA = (5, ''No data'')"
definition INVALID_FORMAT :: "int \<times> string" where "INVALID_FORMAT = (6, ''Invalid data format'')"
definition INCORRECT_INDEX :: "int \<times> string" where "INCORRECT_INDEX = (7, ''Incorrect index'')"
definition NO_CHANNEL :: "int \<times> string" where "NO_CHANNEL = (10, ''Data channel is missing'')"
definition EVENT_REQUIRED :: "int \<times> string" where "EVENT_REQUIRED = (12, ''Event field is required'')"
definition EVENT_BLANK :: "int \<times> string" where "EVENT_BLANK = (13, ''Event field cannot be blank'')"
definition ACK_DISABLED :: "int \<times> string" where "ACK_DISABLED = (14, ''ACK is disabled'')"
definition INDEXED_FIELDS_ERROR :: "int \<times> string" where
  "INDEXED_FIELDS_ERROR = (15, ''Error in handling indexed fields'')"

definition hec_body :: "hec_error \<Rightarrow> pyval" where
  "hec_body e =
     (case e of HecError num text position \<Rightarrow>
        VDict ([(''text'', VStr text), (''code'', VInt num)] @
          (case position of
             None \<Rightarrow> []
           | Some n \<Rightarrow> [(''invalid-event-number'', VInt (int n + (if num = fst INCORRECT_INDEX then 1 else 0)))])))"

definition hec_fail :: "int \<times> string \<Rightarrow> nat option \<Rightarrow> hec_stop" where
  "hec_fail spec position = Hec_refused (HecError (fst spec) (snd spec) position)"

definition require_channel :: "bool \<Rightarrow> string option \<Rightarrow> hec_stop + unit" where
  "require_channel use_ack channel =
     (if use_ack \<and> (channel = None \<or> channel = Some []) then Inl (hec_fail NO_CHANNEL None) else Inr ())"

section \<open>Validating one event\<close>

text \<open>\<open>float(value)\<close> of an integer may overflow, which nothing catches.\<close>

definition as_epoch :: "pyval \<Rightarrow> pyfloat option result" where
  "as_epoch v =
     (case v of
        VBool b \<Rightarrow> Inr None
      | VInt n \<Rightarrow> map_sum id Some (py_float v)
      | VFloat t \<Rightarrow> map_sum id Some (py_float v)
      | _ \<Rightarrow> Inr (float_of_str (py_str v)))"

text \<open>\<open>str(value or "").strip()\<close>.\<close>

definition stripped_text :: "pyval \<Rightarrow> string" where
  "stripped_text v = strip (if truthy v then py_str v else [])"

definition index_allowed :: "string \<Rightarrow> jobj \<Rightarrow> bool" where
  "index_allowed requested token =
     (let listed = filter (\<lambda>n. n \<noteq> []) (map strip (split_on CHR '',''
            (let v = dict_get token ''indexes'' in if truthy v then py_str v else [])));
          own = stripped_text (dict_get token ''index'');
          allowed = (if own = [] then listed else own # listed)
      in allowed = [] \<or> requested \<in> set allowed)"

definition blank_event :: "pyval \<Rightarrow> bool" where
  "blank_event v =
     (case v of
        VNone \<Rightarrow> True
      | VStr t \<Rightarrow> strip t = []
      | VList vs \<Rightarrow> vs = []
      | VDict d \<Rightarrow> d = []
      | _ \<Rightarrow> False)"

definition validate_event :: "jobj \<Rightarrow> jobj \<Rightarrow> nat \<Rightarrow> hec_stop + unit" where
  "validate_event event token position =
     (if map_of event ''event'' = None \<and> map_of event ''fields'' = None then Inl (hec_fail EVENT_REQUIRED (Some position))
      else if (case map_of event ''event'' of None \<Rightarrow> False | Some v \<Rightarrow> blank_event v)
      then Inl (hec_fail EVENT_BLANK (Some position))
      else case (case map_of event ''time'' of None \<Rightarrow> Inr True | Some v \<Rightarrow> map_sum id (\<lambda>f. f \<noteq> None) (as_epoch v)) of
             Inl e \<Rightarrow> Inl (Hec_raises e)
           | Inr readable \<Rightarrow>
               (if \<not> readable then Inl (hec_fail INDEXED_FIELDS_ERROR (Some position))
                else let requested = stripped_text (dict_get event ''index'')
                     in if requested \<noteq> [] \<and> \<not> index_allowed requested token
                        then Inl (hec_fail INCORRECT_INDEX (Some position))
                        else Inr ()))"

section \<open>Reading a body\<close>

lemma scan_str_shorter: "scan_str s = Some (t, r) \<Longrightarrow> length r < length s"
proof (induction s arbitrary: t r rule: scan_str.induct)
  case (2 c cs)
  then show ?case
    by (fastforce split: if_splits list.splits option.splits dest: unescape_u_shorter)
qed simp

lemma dropWhile_le: "length (dropWhile P s) \<le> length s"
  by (rule length_dropWhile_le)

lemma jws_le: "length (jws s) \<le> length s"
  by (simp add: jws_def length_dropWhile_le)

lemma scan_digits_le: "scan_digits s = (ds, r) \<Longrightarrow> length r \<le> length s"
  by (auto simp: scan_digits_def length_dropWhile_le)

lemma scan_digits_less: "scan_digits s = (ds, r) \<Longrightarrow> ds \<noteq> [] \<Longrightarrow> length r < length s"
  by (cases s) (auto simp: scan_digits_def length_dropWhile_le le_imp_less_Suc split: if_splits)

lemma dropWhile_Suc: "length (dropWhile P s) \<le> Suc (length s)" "length (dropWhile P s) \<le> Suc (Suc (length s))"
  by (simp_all add: length_dropWhile_le le_SucI)

lemma scan_frac_le: "scan_frac s = (ds, r) \<Longrightarrow> length r \<le> length s"
  by (cases s) (auto simp: scan_frac_def scan_digits_def dropWhile_Suc split: if_splits)

lemma scan_exp_le:
  assumes "scan_exp s = (ds, r)"
  shows "length r \<le> length s"
proof (cases s)
  case (Cons c cs)
  define X where "X = (case cs of d # ds \<Rightarrow> if d = CHR ''+'' \<or> d = CHR ''-'' then ([d], ds) else ([], cs) | [] \<Rightarrow> ([], []))"
  have "length (snd X) \<le> length cs" unfolding X_def by (cases cs) (simp_all only: list.case if_split_asm, auto)
  moreover have "scan_exp s = (if (c = CHR ''e'' \<or> c = CHR ''E'') \<and> fst (scan_digits (snd X)) \<noteq> []
      then (c # fst X @ fst (scan_digits (snd X)), snd (scan_digits (snd X))) else ([], s))"
    unfolding scan_exp_def Cons list.case X_def [symmetric] by (simp add: split_beta Let_def)
  moreover have "length (snd (scan_digits (snd X))) \<le> length (snd X)"
    using scan_digits_le [of "snd X"] by (metis surjective_pairing)
  ultimately have "length (snd (scan_exp s)) \<le> length s" unfolding Cons by simp
  then show ?thesis using assms by simp
qed (use assms in \<open>simp add: scan_exp_def\<close>)

lemma jws_Cons: "jws s = c # t \<Longrightarrow> length t < length s"
  using jws_le [of s] by simp

lemma scan_number_shorter:
  assumes "scan_number s = Some (v, r)"
  shows "length r < length s"
proof -
  obtain sg body where b: "(case s of c # cs \<Rightarrow> if c = CHR ''-'' then ([c], cs) else ([], s) | [] \<Rightarrow> ([], [])) = (sg, body)"
    by (rule prod.exhaust)
  obtain ip r1 where ip: "(case body of c # cs \<Rightarrow> if c = CHR ''0'' then ([c], cs) else scan_digits body | [] \<Rightarrow> ([], [])) = (ip, r1)"
    by (rule prod.exhaust)
  obtain fp r2 where fp: "scan_frac r1 = (fp, r2)" by (rule prod.exhaust)
  obtain ep r3 where ep: "scan_exp r2 = (ep, r3)" by (rule prod.exhaust)
  have "length body \<le> length s" using b by (cases s) (auto split: if_splits)
  moreover have "ip \<noteq> [] \<Longrightarrow> length r1 < length body"
    using ip scan_digits_less [of body ip r1] by (cases body) (auto split: if_splits)
  moreover have "scan_number s = (if ip = [] then None
      else if fp = [] \<and> ep = [] then map_option (\<lambda>n. (VInt n, r1)) (int_of_str (sg @ ip))
      else map_option (\<lambda>f. (VFloat (float_repr f), r3)) (float_of_str (sg @ ip @ fp @ ep)))"
    by (simp only: scan_number_def Let_def b prod.case ip fp ep)
  then have "ip \<noteq> [] \<and> (r = r1 \<or> r = r3)" using assms
    by (cases "int_of_str (sg @ ip)"; cases "float_of_str (sg @ ip @ fp @ ep)") (auto split: if_splits)
  ultimately show ?thesis using scan_frac_le [OF fp] scan_exp_le [OF ep] by auto
qed

lemma scan_scalar_shorter: "scan_scalar s = Some (v, r) \<Longrightarrow> length r < length s"
proof -
  assume a: "scan_scalar s = Some (v, r)"
  show ?thesis
  proof (cases "find (\<lambda>(w, v). startswith s w) json_literals")
    case None
    then show ?thesis using a scan_number_shorter by (simp add: scan_scalar_def)
  next
    case (Some wv)
    then obtain i where "i < length json_literals" "wv = json_literals ! i" "startswith s (fst wv)"
      by (auto simp: find_Some_iff case_prod_unfold)
    then have "wv \<in> set json_literals" "startswith s (fst wv)" by simp_all
    then have "fst wv \<noteq> [] \<and> s \<noteq> []" by (auto simp: json_literals_def startswith_def)
    then show ?thesis using a Some by (cases wv; cases "fst wv"; cases s) (auto simp: scan_scalar_def)
  qed
qed

lemma parse_shorter:
  "parse_value f s = Some (v, r) \<Longrightarrow> length r < length s"
  "parse_elems f acc s = Some (v, r) \<Longrightarrow> length r < length s"
  "parse_members f acc' s = Some (v, r) \<Longrightarrow> length r < length s"
proof (induction f s and f acc s and f acc' s arbitrary: v r and v r and v r rule: parse_value_parse_elems_parse_members.induct)
  case (2 f s)
  show ?case
  proof (cases s)
    case (Cons c cs)
    show ?thesis
    proof (cases "c = CHR ''['' \<or> c = CHR ''{''")
      case True
      then obtain d t where d: "jws cs = d # t"
        using 2 Cons by (auto simp: parse_value.simps split: list.splits)
      then show ?thesis
        using 2 Cons True jws_Cons [OF d] by (fastforce simp: parse_value.simps split: if_splits)
    next
      case False
      then show ?thesis
        using 2(3) Cons by (auto simp: parse_value.simps split: if_splits dest: scan_str_shorter scan_scalar_shorter)
    qed
  qed (use 2 in \<open>simp add: parse_value.simps\<close>)
next
  case (4 f acc s)
  obtain w t where w: "parse_value f s = Some (w, t)" using 4(3) by (auto simp: parse_elems.simps split: option.splits)
  obtain d u where d: "jws t = d # u" using 4(3) w by (auto simp: parse_elems.simps split: list.splits)
  have t: "length u < length t" "length t < length s" using jws_Cons [OF d] 4(1) [OF w] by simp_all
  show ?case
  proof (cases "d = CHR '']''")
    case True
    then show ?thesis using 4(3) w d t by (simp add: parse_elems.simps)
  next
    case False
    then have "d = CHR '',''" "parse_elems f (acc @ [w]) (jws u) = Some (v, r)"
      using 4(3) w d by (auto simp: parse_elems.simps split: if_splits)
    then show ?thesis using 4(2) [OF w _ d False] jws_le [of u] t by fastforce
  qed
next
  case (6 f acc s)
  obtain cs k t where k: "s = CHR 0x22 # cs" "scan_str cs = Some (k, t)"
    using 6(3) by (auto simp: parse_members.simps split: list.splits if_splits option.splits)
  obtain u where u: "jws t = CHR '':'' # u"
    using 6(3) k by (auto simp: parse_members.simps split: list.splits if_splits)
  obtain w t2 where w: "parse_value f (jws u) = Some (w, t2)"
    using 6(3) k u by (auto simp: parse_members.simps split: option.splits)
  obtain d t3 where d: "jws t2 = d # t3"
    using 6(3) k u w by (auto simp: parse_members.simps split: list.splits)
  have t: "length t3 < length t2" "length t2 < length (jws u)" "length u < length t" "length t < length cs"
    using jws_Cons [OF d] 6(1) [of "CHR 0x22" cs _ k t "CHR '':''" u] jws_Cons [OF u] scan_str_shorter [OF k(2)] k u w by simp_all
  show ?case
  proof (cases "d = CHR ''}''")
    case True
    then show ?thesis using 6(3) k u w d t jws_le [of u] by (simp add: parse_members.simps)
  next
    case False
    then have rest: "d = CHR '',''" "parse_members f (AList.update k w acc) (jws t3) = Some (v, r)"
      using 6(3) k u w d by (auto simp: parse_members.simps split: if_splits)
    then have "length r < length (jws t3)" 
      using 6(2) [of "CHR 0x22" cs _ k t "CHR '':''" u _ w t2 d t3] k u w d False by simp
    then show ?thesis using k t jws_le [of t3] jws_le [of u] by simp
  qed
qed (simp_all add: parse_value.simps parse_elems.simps parse_members.simps)

text \<open>
  The items of one decoded value join the events and are validated one by one: \<open>on_event(item, position)\<close>.
\<close>

fun take_items :: "(jobj \<Rightarrow> nat \<Rightarrow> hec_stop + unit) \<Rightarrow> jobj list \<Rightarrow> pyval list \<Rightarrow> hec_stop + jobj list" where
  "take_items check events [] = Inr events"
| "take_items check events (item # items) =
     (case item of
        VDict d \<Rightarrow>
          (case check d (length events) of
             Inl e \<Rightarrow> Inl e
           | Inr u \<Rightarrow> take_items check (events @ [d]) items)
      | _ \<Rightarrow> Inl (hec_fail INVALID_FORMAT (Some (length events))))"

function read_events :: "(jobj \<Rightarrow> nat \<Rightarrow> hec_stop + unit) \<Rightarrow> jobj list \<Rightarrow> string \<Rightarrow> hec_stop + jobj list" where
  "read_events check events text =
     (let s = lstrip text
      in if s = [] then Inr events
         else case parse_value (2 * length s + 2) s of
                None \<Rightarrow> Inl (hec_fail INVALID_FORMAT (Some (length events)))
              | Some (v, r) \<Rightarrow>
                  (case take_items check events (case v of VList vs \<Rightarrow> vs | _ \<Rightarrow> [v]) of
                     Inl e \<Rightarrow> Inl e
                   | Inr events' \<Rightarrow> read_events check events' r))"
  by pat_completeness auto

termination read_events
proof (relation "measure (\<lambda>(check, events, text). length text)")
  fix check :: "jobj \<Rightarrow> nat \<Rightarrow> hec_stop + unit" and events t s x v r events'
  assume "s = lstrip t" "parse_value (2 * length s + 2) s = Some x" "(v, r) = x"
  then have "length r < length s" using parse_shorter(1) by blast
  also have "\<dots> \<le> length t" using \<open>s = lstrip t\<close> by (simp add: lstrip_def length_dropWhile_le)
  finally show "((check, events', r), check, events, t) \<in> measure (\<lambda>(check, events, text). length text)" by simp
qed simp

declare read_events.simps [simp del]

definition parse_hec_payload :: "(jobj \<Rightarrow> nat \<Rightarrow> hec_stop + unit) \<Rightarrow> string \<Rightarrow> hec_stop + jobj list" where
  "parse_hec_payload check text =
     (if strip text = [] then Inl (hec_fail NO_DATA None)
      else case read_events check [] (strip text) of
             Inl e \<Rightarrow> Inl e
           | Inr events \<Rightarrow> if events = [] then Inl (hec_fail NO_DATA None) else Inr events)"

section \<open>Storing\<close>

text \<open>\<open>event_data.get(key, default) or default\<close>.\<close>

definition given_or :: "jobj \<Rightarrow> string \<Rightarrow> pyval \<Rightarrow> pyval" where
  "given_or event key dflt = (let v = get_or event key dflt in if truthy v then v else dflt)"

definition build_event :: "string \<Rightarrow> tick \<Rightarrow> jobj \<Rightarrow> pyval \<Rightarrow> pyval \<Rightarrow> jobj result" where
  "build_event uuid t event default_index default_sourcetype =
     (let body = get_or event ''event'' (VDict event)
      in map_sum id (\<lambda>moment.
           [(''id'', VStr uuid), (''index'', given_or event ''index'' default_index),
            (''sourcetype'', given_or event ''sourcetype'' default_sourcetype),
            (''source'', get_or event ''source'' (VStr [])), (''host'', get_or event ''host'' (VStr ''mockdr'')),
            (''time'', VFloat (float_repr moment)),
            (''raw'', VStr (case body of VDict d \<Rightarrow> json_dumps '', '' '': '' body | _ \<Rightarrow> py_str body)),
            (''fields'', VDict (case body of VDict d \<Rightarrow> d | _ \<Rightarrow> []))])
         (py_float (get_or event ''time'' (stamp t))))"

definition HEC_SUCCESS :: jobj where
  "HEC_SUCCESS = [(''text'', VStr ''Success''), (''code'', VInt 0)]"

text \<open>One event, and a batch of them; \<open>uuid n\<close> is the id drawn for the event at position \<open>n\<close>.\<close>

definition submit_event :: "string \<Rightarrow> tick \<Rightarrow> jobj \<Rightarrow> pyval \<Rightarrow> pyval \<Rightarrow> db \<Rightarrow> jobj result \<times> db" where
  "submit_event uuid t event default_index default_sourcetype s =
     (case build_event uuid t event default_index default_sourcetype of
        Inl e \<Rightarrow> (Inl e, s)
      | Inr stored \<Rightarrow> (Inr HEC_SUCCESS, repo_save s ''splunk_events'' stored))"

fun submit_events_batch :: "(nat \<Rightarrow> string) \<Rightarrow> tick \<Rightarrow> jobj list \<Rightarrow> pyval \<Rightarrow> pyval \<Rightarrow> db \<Rightarrow> jobj result \<times> db" where
  "submit_events_batch uuid t [] default_index default_sourcetype s = (Inr HEC_SUCCESS, s)"
| "submit_events_batch uuid t (event # events) default_index default_sourcetype s =
     (case build_event (uuid 0) t event default_index default_sourcetype of
        Inl e \<Rightarrow> (Inl e, s)
      | Inr stored \<Rightarrow>
          submit_events_batch (\<lambda>n. uuid (Suc n)) t events default_index default_sourcetype (repo_save s ''splunk_events'' stored))"

definition submit_raw :: "string \<Rightarrow> tick \<Rightarrow> string \<Rightarrow> pyval \<Rightarrow> pyval \<Rightarrow> string \<Rightarrow> string \<Rightarrow> db \<Rightarrow> jobj \<times> db" where
  "submit_raw uuid t raw_text index sourcetype source host s =
     (HEC_SUCCESS, repo_save s ''splunk_events''
        [(''id'', VStr uuid), (''index'', index), (''sourcetype'', sourcetype), (''source'', VStr source),
         (''host'', VStr host), (''time'', stamp t), (''raw'', VStr raw_text), (''fields'', VDict [])])"

section \<open>Acknowledgements\<close>

text \<open>The process's own state, by channel: the next id, the ids issued and not yet collected, and the last use.\<close>

record acks =
  ack_counters :: "(string \<times> nat) list"
  issued_acks :: "(string \<times> nat list) list"
  channel_seen :: "(string \<times> rat) list"

definition no_acks :: acks where
  "no_acks = \<lparr>ack_counters = [], issued_acks = [], channel_seen = []\<rparr>"

definition reset_ack_state :: "acks \<Rightarrow> acks" where
  "reset_ack_state a = no_acks"

definition CHANNEL_MAX_IDLE_SECONDS :: rat where
  "CHANNEL_MAX_IDLE_SECONDS = 600"

definition reap_idle_channels :: "rat \<Rightarrow> acks \<Rightarrow> nat \<times> acks" where
  "reap_idle_channels now a =
     (let idle = map fst (filter (\<lambda>(ch, seen). CHANNEL_MAX_IDLE_SECONDS < now - seen) (channel_seen a))
      in (length idle,
          \<lparr>ack_counters = fold AList.delete idle (ack_counters a), issued_acks = fold AList.delete idle (issued_acks a),
           channel_seen = fold AList.delete idle (channel_seen a)\<rparr>))"

definition issued_to :: "acks \<Rightarrow> string \<Rightarrow> nat list" where
  "issued_to a channel = (case map_of (issued_acks a) channel of None \<Rightarrow> [] | Some ns \<Rightarrow> ns)"

definition next_id :: "acks \<Rightarrow> string \<Rightarrow> nat" where
  "next_id a channel = (case map_of (ack_counters a) channel of None \<Rightarrow> 0 | Some k \<Rightarrow> k)"

definition next_ack :: "rat \<Rightarrow> string \<Rightarrow> acks \<Rightarrow> nat \<times> acks" where
  "next_ack now channel a =
     (let n = next_id a channel
      in (n, \<lparr>ack_counters = AList.update channel (Suc n) (ack_counters a),
              issued_acks = AList.update channel (List.insert n (issued_to a channel)) (issued_acks a),
              channel_seen = AList.update channel now (channel_seen a)\<rparr>))"

definition wants_ack :: "string \<Rightarrow> jobj \<Rightarrow> bool" where
  "wants_ack use_ack_param token =
     (if use_ack_param \<noteq> [] then lower (strip use_ack_param) \<in> {''1'', ''true'', ''yes''} else truthy (dict_get token ''use_ack''))"

text \<open>\<open>ack_id in issued\<close>: numbers compare by value, and what cannot be hashed raises.\<close>

definition was_issued :: "nat list \<Rightarrow> pyval \<Rightarrow> bool result" where
  "was_issued issued v =
     (case v of
        VList vs \<Rightarrow> Inl (TypeError ''unhashable type'')
      | VDict d \<Rightarrow> Inl (TypeError ''unhashable type'')
      | _ \<Rightarrow> Inr (list_ex (\<lambda>n. py_eq v (VInt (int n))) issued))"

fun ack_answer :: "nat list \<Rightarrow> pyval list \<Rightarrow> jobj \<Rightarrow> jobj result" where
  "ack_answer issued [] answer = Inr answer"
| "ack_answer issued (v # vs) answer =
     (case was_issued issued v of
        Inl e \<Rightarrow> Inl e
      | Inr b \<Rightarrow> ack_answer issued vs (AList.update (py_str v) (VBool b) answer))"

definition is_int :: "pyval \<Rightarrow> bool" where
  "is_int v = (case v of VInt n \<Rightarrow> True | VBool b \<Rightarrow> True | _ \<Rightarrow> False)"

definition collected :: "pyval list \<Rightarrow> nat list \<Rightarrow> nat list" where
  "collected vs issued = filter (\<lambda>n. \<not> list_ex (\<lambda>v. is_int v \<and> py_eq v (VInt (int n))) vs) issued"

text \<open>What iterating the ids of the body gives: a list, the keys of an object, the characters of an ASCII text.\<close>

definition ack_ids :: "pyval \<Rightarrow> pyval list option" where
  "ack_ids v =
     (case v of
        VList vs \<Rightarrow> Some vs
      | VDict d \<Rightarrow> Some (map (\<lambda>(k, w). VStr k) d)
      | VStr t \<Rightarrow> Some (map (\<lambda>c. VStr [c]) t)
      | _ \<Rightarrow> None)"

definition hec_ack :: "rat \<Rightarrow> jobj \<Rightarrow> string option \<Rightarrow> jobj \<Rightarrow> acks \<Rightarrow> (hec_stop + jobj) \<times> acks" where
  "hec_ack now body header hec_info a =
     (let channel = given header; has_acks = channel \<noteq> [] \<and> map_of (issued_acks a) channel \<noteq> None
      in if \<not> truthy (dict_get hec_info ''use_ack'') \<and> \<not> has_acks then (Inl (hec_fail ACK_DISABLED None), a)
         else if channel = [] then (Inl (hec_fail NO_CHANNEL None), a)
         else let issued = issued_to a channel;
                  seen = (if map_of (channel_seen a) channel \<noteq> None
                          then a\<lparr>channel_seen := AList.update channel now (channel_seen a)\<rparr> else a)
              in case ack_ids (get_or body ''acks'' (VList [])) of
                   Some ids \<Rightarrow>
                     (case ack_answer issued ids [] of
                        Inl e \<Rightarrow> (Inl (Hec_raises e), seen)
                      | Inr answer \<Rightarrow>
                          (Inr [(''acks'', VDict answer)],
                           if map_of (issued_acks a) channel = None then seen
                           else seen\<lparr>issued_acks := AList.update channel (collected ids issued) (issued_acks seen)\<rparr>))
                 | None \<Rightarrow> (Inl (Hec_raises (TypeError ''not iterable'')), seen))"

section \<open>Ingest\<close>

definition with_ack :: "rat \<Rightarrow> bool \<Rightarrow> string option \<Rightarrow> jobj \<Rightarrow> acks \<Rightarrow> jobj \<times> acks" where
  "with_ack now use_ack channel answer a =
     (if use_ack \<and> given channel \<noteq> []
      then let (n, a') = next_ack now (given channel) a in (answer @ [(''ackId'', VInt (int n))], a')
      else (answer, a))"

definition ingest ::
  "(nat \<Rightarrow> string) \<Rightarrow> tick \<Rightarrow> string \<Rightarrow> jobj \<Rightarrow> string option \<Rightarrow> bool \<Rightarrow> db \<Rightarrow> acks \<Rightarrow> (hec_stop + jobj) \<times> db \<times> acks" where
  "ingest uuid t body hec_info channel use_ack s a =
     (case require_channel use_ack channel of
        Inl e \<Rightarrow> (Inl e, s, a)
      | Inr u \<Rightarrow>
          (case parse_hec_payload (\<lambda>event position. validate_event event hec_info position) body of
             Inl e \<Rightarrow> (Inl e, s, a)
           | Inr events \<Rightarrow>
               (let (out, s') = (case events of
                      [event] \<Rightarrow> submit_event (uuid 0) t event (dict_get hec_info ''index'') (dict_get hec_info ''sourcetype'') s
                    | _ \<Rightarrow> submit_events_batch uuid t events (dict_get hec_info ''index'') (dict_get hec_info ''sourcetype'') s)
                in case out of
                     Inl e \<Rightarrow> (Inl (Hec_raises e), s', a)
                   | Inr answer \<Rightarrow> (let (answer', a') = with_ack (clk t) use_ack channel answer a in (Inr answer', s', a')))))"

text \<open>The header names the channel unless it is blank, then the query.\<close>

definition hec_channel :: "string option \<Rightarrow> string option \<Rightarrow> string option" where
  "hec_channel header query = (if given header \<noteq> [] then header else query)"

definition hec_event ::
  "(nat \<Rightarrow> string) \<Rightarrow> tick \<Rightarrow> string \<Rightarrow> string \<Rightarrow> string option \<Rightarrow> string option \<Rightarrow> jobj \<Rightarrow> db \<Rightarrow> acks \<Rightarrow>
    (hec_stop + jobj) \<times> db \<times> acks" where
  "hec_event uuid t body use_ack_param header query hec_info s a =
     (if \<not> utf8_valid body then (Inl (Hec_raises (ValueError ''invalid utf-8'')), s, a)
      else ingest uuid t body hec_info (hec_channel header query) (wants_ack use_ack_param hec_info) s a)"

definition hec_raw ::
  "string \<Rightarrow> tick \<Rightarrow> string \<Rightarrow> string \<Rightarrow> string \<Rightarrow> string \<Rightarrow> string \<Rightarrow> string \<Rightarrow> string option \<Rightarrow> string option \<Rightarrow> jobj \<Rightarrow> db \<Rightarrow> acks \<Rightarrow>
    (hec_stop + jobj) \<times> db \<times> acks" where
  "hec_raw uuid t body index sourcetype source host use_ack_param header query hec_info s a =
     (if \<not> utf8_valid body then (Inl (Hec_raises (ValueError ''invalid utf-8'')), s, a)
      else let channel = hec_channel header query; use_ack = wants_ack use_ack_param hec_info
           in case require_channel use_ack channel of
                Inl e \<Rightarrow> (Inl e, s, a)
              | Inr u \<Rightarrow>
                  (if strip body = [] then (Inl (hec_fail NO_DATA None), s, a)
                   else if index \<noteq> [] \<and> \<not> index_allowed index hec_info then (Inl (hec_fail INCORRECT_INDEX (Some 0)), s, a)
                   else let (answer, s') = submit_raw uuid t body
                              (if index \<noteq> [] then VStr index else dict_get hec_info ''index'')
                              (if sourcetype \<noteq> [] then VStr sourcetype else dict_get hec_info ''sourcetype'') source host s;
                            (answer', a') = with_ack (clk t) use_ack channel answer a
                        in (Inr answer', s', a')))"

section \<open>Acknowledgements are collected once\<close>

datatype ack_op = Issue string | Ask string "nat list"

text \<open>The answers to a sequence of acknowledged submissions and queries; \<open>now\<close> is the time of the first.\<close>

fun ack_outcomes :: "ack_op list \<Rightarrow> rat \<Rightarrow> acks \<Rightarrow> (hec_stop + jobj) list" where
  "ack_outcomes [] now a = []"
| "ack_outcomes (Issue ch # ops) now a =
     (let (answer, a') = with_ack now True (Some ch) [] a in Inr answer # ack_outcomes ops (now + 1) a')"
| "ack_outcomes (Ask ch ids # ops) now a =
     (let (out, a') = hec_ack now [(''acks'', VList (map (\<lambda>n. VInt (int n)) ids))] (Some ch) [(''use_ack'', VBool True)] a
      in out # ack_outcomes ops (now + 1) a')"

text \<open>What a forwarder relies on: how many ids its channel was given, and which of them it has collected.\<close>

definition ack_reply :: "nat \<Rightarrow> nat set \<Rightarrow> nat list \<Rightarrow> jobj" where
  "ack_reply k done_ids ids =
     [(''acks'', VDict (fold (\<lambda>n. AList.update (str_of_int (int n)) (VBool (n < k \<and> n \<notin> done_ids))) ids []))]"

fun ack_spec :: "ack_op list \<Rightarrow> (string \<Rightarrow> nat \<times> nat set) \<Rightarrow> (hec_stop + jobj) list" where
  "ack_spec [] \<sigma> = []"
| "ack_spec (Issue ch # ops) \<sigma> =
     Inr [(''ackId'', VInt (int (fst (\<sigma> ch))))] # ack_spec ops (\<sigma>(ch := (Suc (fst (\<sigma> ch)), snd (\<sigma> ch))))"
| "ack_spec (Ask ch ids # ops) \<sigma> =
     Inr (ack_reply (fst (\<sigma> ch)) (snd (\<sigma> ch)) ids) #
       ack_spec ops (\<sigma>(ch := (fst (\<sigma> ch), snd (\<sigma> ch) \<union> {n \<in> set ids. n < fst (\<sigma> ch)})))"

definition acks_match :: "acks \<Rightarrow> (string \<Rightarrow> nat \<times> nat set) \<Rightarrow> bool" where
  "acks_match a \<sigma> \<longleftrightarrow> (\<forall>ch. next_id a ch = fst (\<sigma> ch) \<and>
     set (issued_to a ch) = {n. n < fst (\<sigma> ch) \<and> n \<notin> snd (\<sigma> ch)} \<and> snd (\<sigma> ch) \<subseteq> {..<fst (\<sigma> ch)} \<and>
     (map_of (issued_acks a) ch = None \<longrightarrow> fst (\<sigma> ch) = 0))"

lemma py_eq_int [simp]: "py_eq (VInt m) (VInt n) \<longleftrightarrow> m = n"
  by simp

lemma was_issued_int: "was_issued issued (VInt (int n)) = Inr (n \<in> set issued)"
  by (auto simp: was_issued_def list_ex_iff)

lemma ack_answer_ints:
  "ack_answer issued (map (\<lambda>n. VInt (int n)) ids) acc =
     Inr (fold (\<lambda>n. AList.update (str_of_int (int n)) (VBool (n \<in> set issued))) ids acc)"
  by (induction ids arbitrary: acc) (simp_all add: was_issued_int)

lemma collected_ints: "set (collected (map (\<lambda>n. VInt (int n)) ids) issued) = set issued - set ids"
  by (auto simp: collected_def list_ex_iff is_int_def)

lemma issued_to_update [simp]:
  "issued_to (a\<lparr>channel_seen := x\<rparr>) ch = issued_to a ch"
  "issued_to (a\<lparr>issued_acks := AList.update c ns (issued_acks a)\<rparr>) ch = (if ch = c then ns else issued_to a ch)"
  by (simp_all add: issued_to_def update_conv')

lemma ack_outcomes_spec: "acks_match a \<sigma> \<Longrightarrow> \<forall>op \<in> set ops. (case op of Issue ch \<Rightarrow> ch | Ask ch ids \<Rightarrow> ch) \<noteq> [] \<Longrightarrow>
    ack_outcomes ops now a = ack_spec ops \<sigma>"
proof (induction ops arbitrary: now a \<sigma>)
  case (Cons op ops)
  show ?case
  proof (cases op)
    case (Issue ch)
    obtain n a' where na: "next_ack now ch a = (n, a')" by (rule prod.exhaust)
    then have n: "n = fst (\<sigma> ch)" using Cons.prems(1) by (simp add: next_ack_def acks_match_def Let_def)
    have a': "next_id a' c = (if c = ch then Suc n else next_id a c)"
      "issued_to a' c = (if c = ch then List.insert n (issued_to a ch) else issued_to a c)"
      "map_of (issued_acks a') c = None \<longleftrightarrow> c \<noteq> ch \<and> map_of (issued_acks a) c = None" for c
      using na by (auto simp: next_ack_def Let_def next_id_def issued_to_def update_conv' split: if_splits)
    have "acks_match a' (\<sigma>(ch := (Suc n, snd (\<sigma> ch))))"
    proof -
      have sub: "x < fst (\<sigma> c)" if "x \<in> snd (\<sigma> c)" for c x
        using Cons.prems(1) that by (auto simp: acks_match_def)
      show ?thesis using n Cons.prems(1) sub unfolding acks_match_def a' by (auto simp: less_Suc_eq)
    qed
    then show ?thesis
      using Cons na n Issue by (simp add: with_ack_def given_def del: fun_upd_apply)
  next
    case (Ask ch ids)
    let ?k = "fst (\<sigma> ch)" and ?d = "snd (\<sigma> ch)"
    have issued: "set (issued_to a ch) = {n. n < ?k \<and> n \<notin> ?d}" using Cons.prems(1) by (simp add: acks_match_def)
    obtain out a' where h: "hec_ack now [(''acks'', VList (map (\<lambda>n. VInt (int n)) ids))] (Some ch) [(''use_ack'', VBool True)] a = (out, a')"
      by (rule prod.exhaust)
    have ne: "ch \<noteq> []" using Cons.prems(2) Ask by simp
    have out: "out = Inr (ack_reply ?k ?d ids)"
      using h ne issued
      by (simp add: hec_ack_def given_def get_or_def ack_ids_def ack_answer_ints ack_reply_def Let_def split: if_splits)
    have "acks_match a' (\<sigma>(ch := (?k, ?d \<union> {n \<in> set ids. n < ?k})))"
    proof (cases "map_of (issued_acks a) ch = None")
      case True
      then have "next_id a' = next_id a" "issued_to a' = issued_to a" "issued_acks a' = issued_acks a"
        using h ne by (auto simp: hec_ack_def given_def get_or_def ack_ids_def ack_answer_ints Let_def next_id_def issued_to_def
            split: if_splits intro!: ext)
      moreover have "?k = 0" using True Cons.prems(1) by (simp add: acks_match_def)
      then have "(?k, ?d \<union> {n \<in> set ids. n < ?k}) = \<sigma> ch" by (simp add: prod_eq_iff)
      ultimately show ?thesis using Cons.prems(1) by (simp add: acks_match_def)
    next
      case False
      then have a': "next_id a' = next_id a"
        "issued_to a' c = (if c = ch then collected (map (\<lambda>n. VInt (int n)) ids) (issued_to a ch) else issued_to a c)"
        "map_of (issued_acks a') c = None \<longleftrightarrow> map_of (issued_acks a) c = None" for c
        using h ne by (auto simp: hec_ack_def given_def get_or_def ack_ids_def ack_answer_ints Let_def next_id_def issued_to_def
            update_conv' split: if_splits intro!: ext)
      show ?thesis
        using Cons.prems(1) issued unfolding acks_match_def a' by (auto simp: collected_ints)
    qed
    then show ?thesis using Cons h out Ask by (simp del: fun_upd_apply)
  qed
qed simp

text \<open>
  C32. An acknowledgement is collected once: over any sequence of acknowledged submissions and queries on any channels, the ids of a
  channel are 0, 1, 2 and so on, and a query answers true for exactly the ids its own channel was given and has not been answered true for
  before.
\<close>

theorem acks_collected_once:
  assumes "\<forall>op \<in> set ops. (case op of Issue ch \<Rightarrow> ch | Ask ch ids \<Rightarrow> ch) \<noteq> []"
  shows "ack_outcomes ops now no_acks = ack_spec ops (\<lambda>ch. (0, {}))"
  using assms by (intro ack_outcomes_spec) (simp_all add: acks_match_def no_acks_def issued_to_def next_id_def)

theorem acks_collected_once_witness:
  "ack_outcomes [Issue ''c'', Ask ''c'' [0, 1], Ask ''c'' [0]] 5 no_acks =
     [Inr [(''ackId'', VInt 0)], Inr [(''acks'', VDict [(''0'', VBool True), (''1'', VBool False)])],
      Inr [(''acks'', VDict [(''0'', VBool False)])]]"
proof -
  have "str_of_nat 0 = ''0''" "str_of_nat (Suc 0) = ''1''" by code_simp+
  then show ?thesis
    using acks_collected_once [of "[Issue ''c'', Ask ''c'' [0, 1], Ask ''c'' [0]]" 5]
    by (simp add: ack_reply_def del: ack_outcomes.simps)
qed

section \<open>A batch is taken whole or not at all\<close>

text \<open>A printed object is read back whatever follows it.\<close>

lemma object_reads_back:
  assumes "json_plain (VDict d)" "2 * length (json_dumps '', '' '': '' (VDict d)) \<le> f"
  shows "parse_value f (json_dumps '', '' '': '' (VDict d) @ r) = Some (VDict d, r)"
proof -
  obtain g where g: "f = Suc g" using assms(2) by (cases f) auto
  have sep: "'', '' = CHR '','' # '' ''" "blank_tail '' ''" "'': '' = CHR '':'' # '' ''" by (simp_all add: blank_tail_def)
  show ?thesis
  proof (cases d)
    case Nil
    then show ?thesis using g by (simp add: parse_value.simps jws_def is_json_ws_def)
  next
    case (Cons p ps)
    let ?j = "join '', '' (map (json_member '', '' '': '') d)"
    obtain t' where t': "?j = CHR 0x22 # t'" using members_open [of d "'', ''" "'': ''"] Cons by blast
    have rb: "reads_back '', '' '': '' v" if "(k, v) \<in> set d" for k v
      using assms(1) that by (intro dumps_reads_back [OF sep(1,2,3,2)]) (auto simp: list_all_iff)
    have "parse_members g [] (?j @ CHR ''}'' # r) = Some (VDict ([] @ d), r)"
      using assms Cons g by (intro parse_members_back [OF sep(1,2,3,2)] rb) auto
    then show ?thesis using g t' by (simp add: parse_value.simps jws_def is_json_ws_def)
  qed
qed

text \<open>A body: the printed events, white space or nothing after each.\<close>

fun print_events :: "(jobj \<times> string) list \<Rightarrow> string" where
  "print_events [] = []"
| "print_events ((d, gap) # es) = json_dumps '', '' '': '' (VDict d) @ gap @ print_events es"

text \<open>The first event a check refuses, by its position.\<close>

fun first_refusal :: "(jobj \<Rightarrow> nat \<Rightarrow> hec_stop + unit) \<Rightarrow> nat \<Rightarrow> jobj list \<Rightarrow> hec_stop option" where
  "first_refusal check n [] = None"
| "first_refusal check n (d # ds) = (case check d n of Inl e \<Rightarrow> Some e | Inr u \<Rightarrow> first_refusal check (Suc n) ds)"

lemma object_opens: "\<exists>t. json_dumps '', '' '': '' (VDict d) = CHR ''{'' # t"
  by simp

lemma read_step:
  assumes "lstrip s = c # t" "parse_value (2 * length (c # t) + 2) (c # t) = Some (VDict d, r)"
  shows "read_events check events s =
    (case check d (length events) of Inl e \<Rightarrow> Inl e | Inr u \<Rightarrow> read_events check (events @ [d]) r)"
  by (subst read_events.simps) (use assms in \<open>simp split: sum.split\<close>)

lemma read_printed:
  "\<forall>(d, gap) \<in> set es. json_plain (VDict d) \<and> list_all is_space gap \<Longrightarrow> list_all is_space before \<Longrightarrow>
     read_events check events (before @ print_events es) =
       (case first_refusal check (length events) (map fst es) of Some e \<Rightarrow> Inl e | None \<Rightarrow> Inr (events @ map fst es))"
proof (induction es arbitrary: events before)
  case Nil
  then have "lstrip before = []" by (simp add: lstrip_def list_all_iff)
  then show ?case by (simp add: read_events.simps)
next
  case (Cons e es)
  obtain d gap where e: "e = (d, gap)" by (cases e)
  let ?o = "json_dumps '', '' '': '' (VDict d)" and ?r = "gap @ print_events es"
  obtain t where t: "?o = CHR ''{'' # t" using object_opens by blast
  have blank: "lstrip (before @ CHR ''{'' # u) = CHR ''{'' # u" for u
    using Cons.prems(2) by (simp add: lstrip_def list_all_iff dropWhile_append2 is_space_def)
  have parse: "parse_value (2 * length (?o @ ?r) + 2) (?o @ ?r) = Some (VDict d, ?r)"
    using Cons.prems(1) e by (intro object_reads_back) auto
  have "read_events check events (before @ print_events (e # es)) =
      (case check d (length events) of Inl e \<Rightarrow> Inl e | Inr u \<Rightarrow> read_events check (events @ [d]) ?r)"
    unfolding e print_events.simps t append_Cons
    by (rule read_step [OF blank]) (use parse [unfolded t append_Cons] in simp)
  then show ?case using Cons by (auto simp: e split: sum.split option.split)
qed

lemma print_events_snoc: "print_events (es @ [(d, gap)]) = print_events (es @ [(d, [])]) @ gap"
  by (induction es) auto

lemma print_events_last: "\<exists>u. print_events (es @ [(d, [])]) = u @ ''}''"
proof (induction es)
  case Nil
  have "print_events ([] @ [(d, [])]) =
      (''{'' @ join '', '' (map (\<lambda>(k, v). json_str k @ '': '' @ json_dumps '', '' '': '' v) d)) @ ''}''" by simp
  then show ?case by blast
next
  case (Cons e es)
  then obtain u where "print_events (es @ [(d, [])]) = u @ ''}''" by blast
  then show ?case by (cases e) simp
qed

lemma strip_printed:
  assumes "list_all is_space before" "list_all is_space gap"
  shows "strip (before @ print_events (es @ [(d, gap)])) = print_events (es @ [(d, [])])"
proof -
  obtain u where u: "print_events (es @ [(d, [])]) = u @ ''}''" using print_events_last by blast
  have "\<exists>t. print_events (es @ [(d, [])]) = CHR ''{'' # t" by (cases es) (auto simp: split_beta)
  then obtain t where t: "print_events (es @ [(d, [])]) = CHR ''{'' # t" by blast
  have "lstrip (before @ print_events (es @ [(d, gap)])) = print_events (es @ [(d, [])]) @ gap"
    using assms(1) by (simp add: print_events_snoc [of es d gap] t lstrip_def list_all_iff dropWhile_append2 is_space_def)
  moreover have "rstrip (u @ ''}'' @ gap) = u @ ''}''"
  proof -
    have "dropWhile is_space (rev gap @ CHR ''}'' # rev u) = dropWhile is_space (CHR ''}'' # rev u)"
      by (rule dropWhile_append2) (use assms(2) in \<open>simp add: list_all_iff\<close>)
    then show ?thesis by (simp add: rstrip_def is_space_def)
  qed
  ultimately show ?thesis by (simp add: strip_def u)
qed

lemma parse_printed:
  assumes "es \<noteq> []" "\<forall>(d, gap) \<in> set es. json_plain (VDict d) \<and> list_all is_space gap" "list_all is_space before"
  shows "parse_hec_payload check (before @ print_events es) =
    (case first_refusal check 0 (map fst es) of Some e \<Rightarrow> Inl e | None \<Rightarrow> Inr (map fst es))"
proof -
  obtain es0 d gap where es: "es = es0 @ [(d, gap)]" using assms(1) by (metis rev_exhaust surj_pair)
  let ?es = "es0 @ [(d, [])]"
  have strip: "strip (before @ print_events es) = print_events ?es" using assms es by (simp add: strip_printed)
  have "print_events ?es \<noteq> []" using print_events_last [of es0 d] by auto
  moreover have "read_events check [] (print_events ?es) =
      (case first_refusal check 0 (map fst es) of Some e \<Rightarrow> Inl e | None \<Rightarrow> Inr (map fst es))"
    using read_printed [of ?es "[]" check "[]"] assms(2) es by (auto split: option.split)
  ultimately show ?thesis using assms(1) by (simp add: parse_hec_payload_def strip split: option.split)
qed

lemma rstrip_Cons: "\<not> is_space c \<Longrightarrow> rstrip (c # cs) = c # rstrip cs"
  by (auto simp: rstrip_def dropWhile_append)

lemma bracket_no_number: "c \<in> {CHR ''['', CHR ''{''} \<Longrightarrow> float_of_str (c # cs) = None"
proof -
  assume c: "c \<in> {CHR ''['', CHR ''{''}"
  then have ns: "\<not> is_space c" "\<not> is_digit c" "c \<noteq> CHR ''_''" "lower_char c = c"
    by (auto simp: is_space_def is_digit_def lower_char_def is_upper_def)
  have strip: "strip (c # cs) = c # rstrip cs" using ns by (simp add: strip_def lstrip_def rstrip_Cons)
  have "drop_underscores False (c # rstrip cs) = map_option (Cons c) (drop_underscores False (rstrip cs))"
    using ns by simp
  moreover have "split_sign (c # w) = (False, c # w)" for w using c by (auto simp: split_sign_def)
  moreover have "decimal_value (c # w) = None" for w using c ns by (auto simp: decimal_value_def)
  moreover have "lower (c # w) = c # lower w" for w using ns by (simp add: lower_def)
  ultimately show ?thesis using c by (auto simp: float_of_str_def strip Let_def split: option.split)
qed

lemma readable_time: "as_epoch v = Inr (Some f) \<Longrightarrow> py_float v = Inr f"
proof (cases v)
  case (VList vs)
  moreover obtain w where "py_str (VList vs) = CHR ''['' # w" by (simp add: py_str_def)
  ultimately show "as_epoch v = Inr (Some f) \<Longrightarrow> ?thesis" using bracket_no_number by (simp add: as_epoch_def)
next
  case (VDict d)
  moreover obtain w where "py_str (VDict d) = CHR ''{'' # w" by (simp add: py_str_def)
  ultimately show "as_epoch v = Inr (Some f) \<Longrightarrow> ?thesis" using bracket_no_number by (simp add: as_epoch_def)
next
  case VNone
  moreover have "float_of_str ''None'' = None" by code_simp
  ultimately show "as_epoch v = Inr (Some f) \<Longrightarrow> ?thesis" by (simp add: as_epoch_def py_str_def)
qed (auto simp: as_epoch_def map_sum_eq_Inr py_float_def)

definition event_record :: "string \<Rightarrow> tick \<Rightarrow> jobj \<Rightarrow> jobj \<Rightarrow> jobj" where
  "event_record uuid t hec_info event =
     (case build_event uuid t event (dict_get hec_info ''index'') (dict_get hec_info ''sourcetype'') of Inl e \<Rightarrow> [] | Inr r \<Rightarrow> r)"

lemma valid_builds:
  assumes "validate_event event hec_info n = Inr u" "reads t"
  shows "build_event uuid t event (dict_get hec_info ''index'') (dict_get hec_info ''sourcetype'') =
    Inr (event_record uuid t hec_info event)"
proof -
  have "\<exists>f. py_float (get_or event ''time'' (stamp t)) = Inr f"
  proof (cases "map_of event ''time''")
    case None
    then show ?thesis using assms(2) by (simp add: get_or_def)
  next
    case (Some v)
    then obtain f where "as_epoch v = Inr (Some f)"
      using assms(1) by (auto simp: validate_event_def Let_def map_sum_eq_Inr split: if_splits sum.splits)
    then show ?thesis using Some readable_time by (auto simp: get_or_def)
  qed
  then show ?thesis by (auto simp: event_record_def build_event_def Let_def)
qed

lemma first_refusal_None:
  "first_refusal check n ds = None \<Longrightarrow> i < length ds \<Longrightarrow> check (ds ! i) (n + i) = Inr ()"
proof (induction ds arbitrary: n i)
  case (Cons d ds)
  then have d: "check d n = Inr ()" "first_refusal check (Suc n) ds = None" by (auto split: sum.splits)
  show ?case
  proof (cases i)
    case (Suc j)
    then show ?thesis using Cons.IH [OF d(2), of j] Cons.prems(2) by simp
  qed (use d in simp)
qed simp

fun event_records :: "(nat \<Rightarrow> string) \<Rightarrow> tick \<Rightarrow> jobj \<Rightarrow> jobj list \<Rightarrow> jobj list" where
  "event_records uuid t hec_info [] = []"
| "event_records uuid t hec_info (d # ds) = event_record (uuid 0) t hec_info d # event_records (\<lambda>n. uuid (Suc n)) t hec_info ds"

lemma event_records_nth: "i < length ds \<Longrightarrow> event_records uuid t hec_info ds ! i = event_record (uuid i) t hec_info (ds ! i)"
  by (induction ds arbitrary: uuid i) (auto simp: less_Suc_eq_0_disj)

lemma length_event_records [simp]: "length (event_records uuid t hec_info ds) = length ds"
  by (induction ds arbitrary: uuid) simp_all

lemma batch_stores:
  "first_refusal (\<lambda>e n. validate_event e hec_info n) k ds = None \<Longrightarrow> reads t \<Longrightarrow>
     submit_events_batch uuid t ds (dict_get hec_info ''index'') (dict_get hec_info ''sourcetype'') s =
       (Inr HEC_SUCCESS, fold (\<lambda>r s. repo_save s ''splunk_events'' r) (event_records uuid t hec_info ds) s)"
proof (induction ds arbitrary: uuid s k)
  case (Cons d ds)
  then have "validate_event d hec_info k = Inr ()" "first_refusal (\<lambda>e n. validate_event e hec_info n) (Suc k) ds = None"
    by (auto split: sum.splits)
  then show ?case using Cons.IH Cons.prems(2) valid_builds by simp
qed simp

text \<open>
  C31. A batch posted to the event collector, its events printed one after another with white space or nothing
  between them, is taken whole or not at all: if the token's rules refuse an event, the answer is the refusal of the first one
  refused, at its position, and neither the store nor the acknowledgements change; otherwise every event is stored, in order, as the record built
  from it, and the answer carries the channel's next acknowledgement if one is asked for.
\<close>

theorem hec_batch_exact:
  assumes "es \<noteq> []" "\<forall>(d, gap) \<in> set es. json_plain (VDict d) \<and> list_all is_space gap" "list_all is_space before"
    and "use_ack \<longrightarrow> given channel \<noteq> []" "reads t"
  shows "ingest uuid t (before @ print_events es) hec_info channel use_ack s a =
    (case first_refusal (\<lambda>e n. validate_event e hec_info n) 0 (map fst es) of
       Some e \<Rightarrow> (Inl e, s, a)
     | None \<Rightarrow>
         (let (answer, a') = with_ack (clk t) use_ack channel HEC_SUCCESS a
          in (Inr answer, fold (\<lambda>r s. repo_save s ''splunk_events'' r) (event_records uuid t hec_info (map fst es)) s, a'))) \<and>
    (first_refusal (\<lambda>e n. validate_event e hec_info n) 0 (map fst es) = None \<longrightarrow>
       (\<forall>i < length es. build_event (uuid i) t (fst (es ! i)) (dict_get hec_info ''index'') (dict_get hec_info ''sourcetype'') =
          Inr (event_records uuid t hec_info (map fst es) ! i)))"
proof -
  have ch: "require_channel use_ack channel = Inr ()"
    using assms(4) by (cases channel) (auto simp: require_channel_def given_def)
  note parse = parse_printed [OF assms(1,2,3), of "\<lambda>e n. validate_event e hec_info n"]
  let ?ds = "map fst es" and ?c = "\<lambda>e n. validate_event e hec_info n"
  show ?thesis
  proof (cases "first_refusal ?c 0 ?ds")
    case (Some e)
    then show ?thesis by (simp add: ingest_def ch parse)
  next
    case None
    have built: "build_event (uuid i) t (fst (es ! i)) (dict_get hec_info ''index'') (dict_get hec_info ''sourcetype'') =
        Inr (event_records uuid t hec_info ?ds ! i)" if "i < length es" for i
      using valid_builds [OF first_refusal_None [OF None, of i] assms(5)] that by (simp add: event_records_nth)
    have one: "submit_event (uuid 0) t d (dict_get hec_info ''index'') (dict_get hec_info ''sourcetype'') s =
        submit_events_batch uuid t [d] (dict_get hec_info ''index'') (dict_get hec_info ''sourcetype'') s" for d
      by (simp add: submit_event_def split: sum.split)
    have "ingest uuid t (before @ print_events es) hec_info channel use_ack s a =
        (let (out, s') = submit_events_batch uuid t ?ds (dict_get hec_info ''index'') (dict_get hec_info ''sourcetype'') s
         in case out of Inl e \<Rightarrow> (Inl (Hec_raises e), s', a)
            | Inr answer \<Rightarrow> (let (answer', a') = with_ack (clk t) use_ack channel answer a in (Inr answer', s', a')))"
      unfolding ingest_def ch parse None by (auto simp: one split: list.split)
    then show ?thesis using None built batch_stores [OF None assms(5)] by simp
  qed
qed

definition demo_now :: tick where
  "demo_now = demo_tick 100 ''100.0''"

definition demo_events :: "(jobj \<times> string) list" where
  "demo_events = [([(''event'', VStr ''a'')], [CHR 0x0A]), ([(''event'', VStr ''b''), (''host'', VStr ''h'')], []), ([(''event'', VStr '' '')], '' '')]"

theorem hec_batch_exact_witness:
  "ingest (\<lambda>n. ''e'') demo_now ('' '' @ print_events demo_events) [(''index'', VStr ''main'')] (Some ''c'') True init_store no_acks =
     (Inl (Hec_refused (HecError 13 ''Event field cannot be blank'' (Some 2))), init_store, no_acks) \<and>
   fst (ingest (\<lambda>n. ''e'') demo_now (print_events (take 2 demo_events)) [(''index'', VStr ''main'')] (Some ''c'') True init_store no_acks) =
     Inr (HEC_SUCCESS @ [(''ackId'', VInt 0)])"
proof -
  have t: "reads demo_now" by (simp add: demo_now_def demo_ticks)
  have p: "\<forall>(d, gap) \<in> set demo_events. json_plain (VDict d) \<and> list_all is_space gap"
    by (simp add: demo_events_def is_ascii_def is_space_def)
  let ?info = "[(''index'', VStr ''main'')]"
  let ?check = "\<lambda>e n. validate_event e ?info n"
  have "first_refusal ?check 0 (map fst demo_events) = Some (Hec_refused (HecError 13 ''Event field cannot be blank'' (Some 2)))"
    "first_refusal ?check 0 (map fst (take 2 demo_events)) = None"
    by code_simp+
  moreover have "demo_events \<noteq> []" "take 2 demo_events \<noteq> []" "list_all is_space '' ''"
    by (simp_all add: demo_events_def is_space_def)
  moreover have "\<forall>(d, gap) \<in> set (take 2 demo_events). json_plain (VDict d) \<and> list_all is_space gap"
    using p by (meson in_set_takeD)
  moreover have "with_ack (clk demo_now) True (Some ''c'') HEC_SUCCESS no_acks =
      (HEC_SUCCESS @ [(''ackId'', VInt 0)], snd (next_ack (clk demo_now) ''c'' no_acks))"
    by (simp add: with_ack_def given_def next_ack_def next_id_def no_acks_def)
  ultimately show ?thesis
    using hec_batch_exact [OF _ p _ _ t, of "'' ''" True "Some ''c''" "\<lambda>n. ''e''" ?info init_store no_acks]
      hec_batch_exact [of "take 2 demo_events" "[]" True "Some ''c''" demo_now "\<lambda>n. ''e''" ?info init_store no_acks] t
    by (simp add: given_def)
qed

section \<open>Corners\<close>

text \<open>An acknowledgement asked for as the float \<open>0.0\<close> compares equal to the id and is not collected: it is answered true for ever.\<close>

lemma float_ack_not_collected:
  "hec_ack now [(''acks'', VList [VFloat ''0.0''])] (Some ''c'') [(''use_ack'', VBool True)]
     \<lparr>ack_counters = [(''c'', 1)], issued_acks = [(''c'', [0])], channel_seen = [(''c'', now)]\<rparr> =
   (Inr [(''acks'', VDict [(''0.0'', VBool True)])],
    \<lparr>ack_counters = [(''c'', 1)], issued_acks = [(''c'', [0])], channel_seen = [(''c'', now)]\<rparr>)"
proof -
  have "was_issued [0] (VFloat ''0.0'') = Inr True" by code_simp
  then show ?thesis
    by (simp add: hec_ack_def given_def get_or_def ack_ids_def issued_to_def collected_def is_int_def Let_def)
qed

text \<open>A time of 1025 bits or more is an \<open>OverflowError\<close> nothing catches, not code 15.\<close>

lemma huge_time_escapes:
  "2 ^ 1024 \<le> n \<Longrightarrow> validate_event [(''event'', VStr ''x''), (''time'', VInt n)] token position =
     Inl (Hec_raises (OverflowError ''int too large to convert to float''))"
  by (simp add: validate_event_def blank_event_def strip_def lstrip_def rstrip_def is_space_def as_epoch_def py_float_def float_of_int_huge)

end
