(* ===== verification/Search_Jobs.thy ===== *)
theory Search_Jobs
  imports Expiry Py_Arith Responses
begin

text \<open>
  The life of a Splunk search job: \<open>src/backend/domain/splunk/search_job.py\<close>,
  \<open>src/backend/repository/splunk/search_job_repo.py\<close>, the control actions of
  \<open>src/backend/application/splunk/commands/search.py\<close> and the reported state of
  \<open>src/backend/application/splunk/queries/search.py\<close>. The search itself (SPL) has run when a job is made: its events,
  rows and messages are arguments, and so is the length \<open>dispatch\<close> of the dispatch window, \<open>0\<close> unless configured. A job is stored
  under its sid; a job read from the repository is the stored object.

  The time elapsed since a job was published is the exact difference of the two readings: subtracting one double from another of
  at most twice its size rounds nothing, and neither does subtracting zero.

  Shown here: a job that is polled goes through its states in order and never back, and a pause stops its clock;
  the reaper is never noticed by who reads a job.
\<close>

section \<open>The job\<close>

definition SearchJob ::
  "string \<Rightarrow> string \<Rightarrow> string \<Rightarrow> string \<Rightarrow> string \<Rightarrow> jobj \<Rightarrow> int \<Rightarrow> bool \<Rightarrow> pyval list \<Rightarrow> pyval list \<Rightarrow> nat \<Rightarrow> pyval list \<Rightarrow>
    pyval list \<Rightarrow> tick \<Rightarrow> jobj" where
  "SearchJob sid search earliest_time latest_time exec_mode request status_buckets failed events results scanned messages field_meta t =
     [(''sid'', VStr sid), (''search'', VStr search), (''earliest_time'', VStr earliest_time), (''latest_time'', VStr latest_time),
      (''status_buckets'', VInt status_buckets), (''exec_mode'', VStr exec_mode), (''request'', VDict request),
      (''dispatch_state'', VStr (if failed then ''FAILED'' else ''DONE'')), (''done_progress'', VFloat ''1.0''),
      (''event_count'', VInt (int (length events))), (''result_count'', VInt (int (length results))), (''scan_count'', VInt (int scanned)),
      (''results'', VList results), (''events'', VList events), (''messages'', VList messages),
      (''field_list'', VList (case results of VDict r # rs \<Rightarrow> map (\<lambda>(k, v). VStr k) r | _ \<Rightarrow> [])), (''field_meta'', VList field_meta),
      (''ttl'', VInt 600), (''is_saved'', VBool False), (''is_paused'', VBool False), (''is_done'', VBool True),
      (''is_failed'', VBool failed), (''published_at'', stamp t), (''touched_at'', stamp t), (''paused_at'', VFloat ''0.0''),
      (''settled'', VBool False), (''is_finalized'', VBool False)]"

text \<open>\<open>self.field or 0.0\<close>.\<close>

definition or_zero :: "jobj \<Rightarrow> string \<Rightarrow> pyfloat result" where
  "or_zero job k = (let v = dict_get job k in if truthy v then py_float v else Inr (Fin 0))"

definition ttl_of :: "jobj \<Rightarrow> int" where
  "ttl_of job = (case dict_get job ''ttl'' of VInt n \<Rightarrow> n | _ \<Rightarrow> 0)"

text \<open>A \<open>ttl\<close> too large for a double makes the sum raise.\<close>

definition job_expired :: "jobj \<Rightarrow> rat \<Rightarrow> rat \<Rightarrow> bool result" where
  "job_expired job now dispatch =
     (if ttl_of job \<le> 0 \<or> truthy (dict_get job ''is_paused'') \<and> \<not> truthy (dict_get job ''is_done'') then Inr False
      else case or_zero job ''published_at'' of
             Inl e \<Rightarrow> Inl e
           | Inr published \<Rightarrow>
               (case or_zero job ''touched_at'' of
                  Inl e \<Rightarrow> Inl e
                | Inr touched \<Rightarrow>
                    (let completed = fl_add published (Fin (max dispatch 0))
                     in case py_float (VInt (ttl_of job)) of
                          Inl e \<Rightarrow> Inl e
                        | Inr ttl \<Rightarrow> Inr (fl_less (fl_add (fl_max completed [touched]) ttl) (Fin now)))))"

section \<open>The repository\<close>

definition job_get :: "rat \<Rightarrow> tick \<Rightarrow> string \<Rightarrow> db \<Rightarrow> jobj option result \<times> db" where
  "job_get dispatch t sid s =
     (case repo_find s ''splunk_search_jobs'' sid of
        None \<Rightarrow> (Inr None, s)
      | Some job \<Rightarrow>
          (case job_expired job (clk t) dispatch of
             Inl e \<Rightarrow> (Inl e, s)
           | Inr gone \<Rightarrow>
               (if gone then (Inr None, fst (repo_delete s ''splunk_search_jobs'' sid))
                else let job' = AList.update ''touched_at'' (stamp t) job
                     in (Inr (Some job'), assign_stored s ''splunk_search_jobs'' sid job'))))"

definition job_test :: "rat \<Rightarrow> rat \<Rightarrow> pyval \<Rightarrow> bool result" where
  "job_test dispatch now v = job_expired (fields_of v) now dispatch"

definition job_list_all :: "rat \<Rightarrow> rat \<Rightarrow> db \<Rightarrow> jobj list result" where
  "job_list_all dispatch now s =
     foldE (\<lambda>acc v. map_sum id (\<lambda>gone. if gone then acc else acc @ [fields_of v]) (job_test dispatch now v))
       (repo_list_all s ''splunk_search_jobs'') []"

definition job_reap :: "rat \<Rightarrow> rat \<Rightarrow> db \<Rightarrow> nat result \<times> db" where
  "job_reap dispatch now s = reap_listed (job_test dispatch now) ''splunk_search_jobs'' s"

definition job_save :: "db \<Rightarrow> jobj \<Rightarrow> db" where
  "job_save s job = repo_save_raw s ''splunk_search_jobs'' (py_str (dict_get job ''sid'')) (VDict job)"

section \<open>Control\<close>

definition SAVED_TTL :: int where
  "SAVED_TTL = 604800"

definition control_message :: "string \<Rightarrow> int \<Rightarrow> string" where
  "control_message action ttl =
     (if action \<in> {''save'', ''setttl''} then ''The ttl of the search job was changed to '' @ str_of_int ttl @ ''.''
      else lookup_default
        [(''cancel'', ''Search job cancelled.''), (''pause'', ''Search job paused.''), (''unpause'', ''Search job continued.''),
         (''finalize'', ''Search job finalized.''), (''touch'', ''Search job touched.''),
         (''enablepreview'', ''Search job results preview enabled.''),
         (''disablepreview'', ''Search job results preview disabled.'')] action ''Search job touched.'')"

text \<open>\<open>job.published_at += now - job.paused_at\<close>.\<close>

definition resumed_origin :: "tick \<Rightarrow> jobj \<Rightarrow> pyval result" where
  "resumed_origin t job =
     (case py_float (dict_get job ''paused_at'') of
        Inl e \<Rightarrow> Inl e
      | Inr paused \<Rightarrow>
          map_sum id (\<lambda>published. VFloat (float_repr (fl_add published (fl_sub (Fin (clk t)) paused))))
            (py_float (dict_get job ''published_at'')))"

definition unpause_job :: "tick \<Rightarrow> jobj \<Rightarrow> jobj result" where
  "unpause_job t job =
     map_sum id
       (\<lambda>origin. updates
          [(''published_at'', origin), (''paused_at'', VFloat ''0.0''), (''is_paused'', VBool False),
           (''dispatch_state'', VStr (if truthy (dict_get job ''is_done'') then ''DONE'' else ''RUNNING''))] job)
       (if truthy (dict_get job ''is_paused'') \<and> truthy (dict_get job ''paused_at'') then resumed_origin t job
        else Inr (dict_get job ''published_at''))"

definition controlled :: "tick \<Rightarrow> string \<Rightarrow> int \<Rightarrow> jobj \<Rightarrow> jobj result" where
  "controlled t action ttl job =
     (if action = ''pause''
      then Inr (updates ((if truthy (dict_get job ''is_paused'') then [] else [(''paused_at'', stamp t)]) @
             [(''is_paused'', VBool True), (''dispatch_state'', VStr ''PAUSE'')]) job)
      else if action = ''unpause'' then unpause_job t job
      else if action = ''finalize''
      then Inr (updates [(''dispatch_state'', VStr ''DONE''), (''is_done'', VBool True), (''done_progress'', VFloat ''1.0''),
             (''settled'', VBool True), (''is_finalized'', VBool True)] job)
      else if action = ''save'' then Inr (updates [(''is_saved'', VBool True), (''ttl'', VInt SAVED_TTL)] job)
      else if action = ''setttl'' then Inr (updates [(''ttl'', VInt ttl)] job)
      else if action = ''unsave'' then Inr (updates [(''is_saved'', VBool False)] job)
      else if action = ''touch'' then Inr (updates [(''touched_at'', stamp t)] job)
      else Inr job)"

definition apply_control_action :: "rat \<Rightarrow> tick \<Rightarrow> string \<Rightarrow> string \<Rightarrow> int \<Rightarrow> db \<Rightarrow> bool result \<times> db" where
  "apply_control_action dispatch t sid action ttl s =
     (let (out, s1) = job_get dispatch t sid s
      in case out of
           Inl e \<Rightarrow> (Inl e, s1)
         | Inr None \<Rightarrow> (Inr False, s1)
         | Inr (Some job) \<Rightarrow>
             (if action = ''cancel'' then (Inr True, fst (repo_delete s1 ''splunk_search_jobs'' sid))
              else case controlled t action ttl job of
                     Inl e \<Rightarrow> (Inl e, s1)
                   | Inr job' \<Rightarrow> (Inr True, job_save s1 job')))"

definition delete_search_job :: "string \<Rightarrow> db \<Rightarrow> bool \<times> db" where
  "delete_search_job sid s = prod.swap (repo_delete s ''splunk_search_jobs'' sid)"

text \<open>The ttl of a control request.\<close>

definition requested_ttl :: "(string \<times> string) list \<Rightarrow> string \<Rightarrow> int" where
  "requested_ttl form action =
     (if action = ''save'' then SAVED_TTL
      else case int_of_str (lookup_default form ''ttl'' []) of None \<Rightarrow> 0 | Some n \<Rightarrow> n)"

section \<open>The reported state\<close>

definition DISPATCH_STATES :: "(rat \<times> string) list" where
  "DISPATCH_STATES = [(0, ''QUEUED''), (1 / 5, ''PARSING''), (2 / 5, ''RUNNING''), (4 / 5, ''FINALIZING''), (1, ''DONE'')]"

definition round3 :: "rat \<Rightarrow> pyfloat" where
  "round3 q = round_double (of_int (round_half_even (q * 1000)) / 1000)"

definition whole :: "pyfloat \<Rightarrow> pyval" where
  "whole f = (case f of Fin q \<Rightarrow> if q = of_int \<lfloor>q\<rfloor> then VInt \<lfloor>q\<rfloor> else VFloat (float_repr f) | _ \<Rightarrow> VFloat (float_repr f))"

text \<open>The thresholds are doubles, and so is the fraction.\<close>

definition state_at :: "pyfloat \<Rightarrow> string" where
  "state_at fraction =
     (case find (\<lambda>(threshold, name). fl_le (round_double threshold) fraction) (rev DISPATCH_STATES) of
        None \<Rightarrow> [] | Some (threshold, name) \<Rightarrow> name)"

text \<open>\<open>min(max(elapsed / window, 0.0), 1.0)\<close>.\<close>

definition fraction_of :: "rat \<Rightarrow> rat \<Rightarrow> rat" where
  "fraction_of elapsed window =
     (case round_double (elapsed / window) of Fin q \<Rightarrow> min (max q 0) 1 | PosInf \<Rightarrow> 1 | _ \<Rightarrow> 0)"

definition fin_or_zero :: "pyfloat \<Rightarrow> rat" where
  "fin_or_zero f = (case f of Fin q \<Rightarrow> q | _ \<Rightarrow> 0)"

text \<open>Times are finite.\<close>

definition progress :: "rat \<Rightarrow> rat \<Rightarrow> jobj \<Rightarrow> (string \<times> pyval \<times> bool) result" where
  "progress dispatch now job =
     (let fixed = map_sum id (\<lambda>p. (py_str (dict_get job ''dispatch_state''), whole p, truthy (dict_get job ''is_done'')))
                    (py_float (dict_get job ''done_progress''))
      in if truthy (dict_get job ''settled'') \<or> truthy (dict_get job ''is_failed'') then fixed
         else if dispatch \<le> 0 \<or> dict_get job ''exec_mode'' = VStr ''blocking'' then fixed
         else let paused = truthy (dict_get job ''is_paused'')
              in case (if paused \<and> truthy (dict_get job ''paused_at'')
                       then map_sum id fin_or_zero (py_float (dict_get job ''paused_at'')) else Inr now) of
                   Inl e \<Rightarrow> Inl e
                 | Inr at_ \<Rightarrow>
                     (case or_zero job ''published_at'' of
                        Inl e \<Rightarrow> Inl e
                      | Inr published \<Rightarrow>
                          (let fraction = fraction_of (at_ - fin_or_zero published) dispatch
                           in if paused then Inr (''PAUSE'', VFloat (float_repr (round3 fraction)), False)
                              else let state = state_at (Fin fraction)
                                   in Inr (state, whole (round3 fraction), state = ''DONE''))))"

section \<open>The reaper is not noticed\<close>

definition job_ok :: "pyval \<Rightarrow> bool" where
  "job_ok v \<longleftrightarrow> (case v of
     VDict job \<Rightarrow> float_of_int (ttl_of job) \<noteq> None \<and> (\<exists>f. or_zero job ''published_at'' = Inr f) \<and>
       (\<exists>f. or_zero job ''touched_at'' = Inr f)
   | _ \<Rightarrow> False)"

lemma job_ok_readable: "job_ok v \<Longrightarrow> \<exists>b. job_test dispatch m v = Inr b"
  by (auto simp: job_ok_def job_test_def job_expired_def fields_of_def py_float_def Let_def split: pyval.splits option.splits)

lemma job_stays: "job_test dispatch m v = Inr True \<Longrightarrow> m \<le> m' \<Longrightarrow> job_test dispatch m' v = Inr True"
  by (auto simp: job_test_def job_expired_def Let_def intro: fl_less_later split: if_splits sum.splits)

lemma search_jobs_known [simp]: "''splunk_search_jobs'' \<in> set collection_names"
  by (simp add: collection_names_def)

definition job_touch :: "tick \<Rightarrow> pyval \<Rightarrow> jobj" where
  "job_touch t v = AList.update ''touched_at'' (stamp t) (fields_of v)"

lemma ttl_of_update: "k \<noteq> ''ttl'' \<Longrightarrow> ttl_of (AList.update k v job) = ttl_of job"
  by (simp add: ttl_of_def)

lemma or_zero_update: "or_zero (AList.update k v job) i = (if i = k then (if truthy v then py_float v else Inr (Fin 0)) else or_zero job i)"
  by (simp add: or_zero_def Let_def)

interpretation search_jobs: expiring_use "''splunk_search_jobs''" job_ok "job_test dispatch" "job_reap dispatch"
  "\<lambda>(p :: unit) t i s. job_get dispatch t i s" "\<lambda>p. job_touch" "\<lambda>p t v. VDict (job_touch t v)" for dispatch
proof
  show "''splunk_search_jobs'' \<in> set collection_names" by simp
next
  fix v m show "job_ok v \<Longrightarrow> \<exists>b. job_test dispatch m v = Inr b" by (rule job_ok_readable)
next
  fix m v m' show "job_ok v \<Longrightarrow> job_test dispatch m v = Inr True \<Longrightarrow> m \<le> m' \<Longrightarrow> job_test dispatch m' v = Inr True" by (rule job_stays)
next
  fix s m assume "\<forall>(k, v) \<in> set (entries s ''splunk_search_jobs''). job_ok v"
  then show "job_reap dispatch m s = (Inr (length (dead_keys (job_test dispatch m) (entries s ''splunk_search_jobs''))),
      delete_keys ''splunk_search_jobs'' (dead_keys (job_test dispatch m) (entries s ''splunk_search_jobs'')) s)"
    unfolding job_reap_def by (rule reap_listed_readable) (rule job_ok_readable)
next
  fix s i and p :: unit and t :: tick
  show "repo_get s ''splunk_search_jobs'' i = None \<Longrightarrow> job_get dispatch t i s = (Inr None, s)"
    by (simp add: job_get_def repo_find_def)
next
  fix s i v and p :: unit and t :: tick
  assume "repo_get s ''splunk_search_jobs'' i = Some v" "job_ok v" "job_test dispatch (clk t) v = Inr True"
  then show "job_get dispatch t i s = (Inr None, fst (repo_delete s ''splunk_search_jobs'' i))"
    by (simp add: job_get_def repo_find_def job_test_def)
next
  fix s i v and p :: unit and t :: tick
  assume v: "repo_get s ''splunk_search_jobs'' i = Some v" "job_ok v" "job_test dispatch (clk t) v = Inr False" "store_inv s"
  let ?s' = "assign_stored s ''splunk_search_jobs'' i (job_touch t v)"
  have "job_get dispatch t i s = (Inr (Some (job_touch t v)), ?s')"
    using v(1,3) by (simp add: job_get_def repo_find_def job_test_def job_touch_def Let_def)
  moreover have "repo_get ?s' c' j =
      (if c' = ''splunk_search_jobs'' \<and> j = i then Some (VDict (job_touch t v)) else repo_get s c' j)" for c' j
    using v(1) by (cases "c' = ''splunk_search_jobs''") (simp_all add: assigned_same assigned_other)
  ultimately show "\<exists>s'. job_get dispatch t i s = (Inr (Some (job_touch t v)), s') \<and> store_inv s' \<and>
      (\<forall>c' j. repo_get s' c' j = (if c' = ''splunk_search_jobs'' \<and> j = i then Some (VDict (job_touch t v)) else repo_get s c' j))"
    using v(4) store_inv_assigned by blast
next
  fix v and t :: tick and p :: unit assume "job_ok v" "reads t"
  then show "job_ok (VDict (job_touch t v))"
    by (auto simp: job_ok_def job_touch_def fields_of_def ttl_of_update or_zero_update split: pyval.splits)
qed

section \<open>The clock of a job\<close>

text \<open>A job whose state the clock decides.\<close>

definition running_job :: "rat \<Rightarrow> jobj \<Rightarrow> bool" where
  "running_job origin job \<longleftrightarrow> \<not> truthy (dict_get job ''settled'') \<and> \<not> truthy (dict_get job ''is_failed'') \<and>
     \<not> truthy (dict_get job ''is_paused'') \<and> dict_get job ''exec_mode'' \<noteq> VStr ''blocking'' \<and>
     or_zero job ''published_at'' = Inr (Fin origin)"

text \<open>The order in which Splunk documents the states of a search.\<close>

definition rank_of :: "string \<Rightarrow> nat" where
  "rank_of state =
     (case map_of [(''QUEUED'', 0), (''PARSING'', 1), (''RUNNING'', 2), (''FINALIZING'', 3), (''DONE'', 4)] state of
        None \<Rightarrow> 0
      | Some i \<Rightarrow> i)"

definition clock_state :: "rat \<Rightarrow> rat \<Rightarrow> string \<times> pyval \<times> bool" where
  "clock_state elapsed window =
     (let fraction = fraction_of elapsed window; state = state_at (Fin fraction)
      in (state, whole (round3 fraction), state = ''DONE''))"

lemma running_progress: "running_job origin job \<Longrightarrow> 0 < dispatch \<Longrightarrow> progress dispatch now job = Inr (clock_state (now - origin) dispatch)"
  by (simp add: running_job_def progress_def clock_state_def fin_or_zero_def Let_def)

lemma fraction_bounds: "0 \<le> fraction_of e w \<and> fraction_of e w \<le> 1"
  by (auto simp: fraction_of_def split: pyfloat.splits)

lemma fraction_mono: "0 < w \<Longrightarrow> e \<le> e' \<Longrightarrow> fraction_of e w \<le> fraction_of e' w"
proof -
  assume "0 < w" "e \<le> e'"
  then have "fl_le (round_double (e / w)) (round_double (e' / w))" by (intro round_double_mono divide_right_mono) simp_all
  then show ?thesis
    by (auto simp: fraction_of_def fl_le_def split: pyfloat.splits)
qed

lemma state_at_eq:
  "state_at f = (if fl_le (round_double 1) f then ''DONE'' else if fl_le (round_double (4 / 5)) f then ''FINALIZING''
     else if fl_le (round_double (2 / 5)) f then ''RUNNING'' else if fl_le (round_double (1 / 5)) f then ''PARSING''
     else if fl_le (round_double 0) f then ''QUEUED'' else [])"
  by (simp add: state_at_def DISPATCH_STATES_def)

lemma rank_of_states [simp]:
  "rank_of ''DONE'' = 4" "rank_of ''FINALIZING'' = 3" "rank_of ''RUNNING'' = 2" "rank_of ''PARSING'' = 1" "rank_of ''QUEUED'' = 0"
  "rank_of [] = 0"
  by (simp_all add: rank_of_def)

lemma state_mono: "q \<le> q' \<Longrightarrow> rank_of (state_at (Fin q)) \<le> rank_of (state_at (Fin q'))"
proof -
  assume le: "q \<le> q'"
  have "fl_le x (Fin q) \<Longrightarrow> fl_le x (Fin q')" for x using le by (cases x) (auto simp: fl_le_def)
  then show ?thesis by (simp add: state_at_eq)
qed

lemma round_double_1: "round_double 1 = Fin 1"
  using round_double_whole [of 1] by simp

lemma finished: "0 < w \<Longrightarrow> w \<le> e \<Longrightarrow> clock_state e w = (''DONE'', VInt 1, True)"
proof -
  assume w: "0 < w" "w \<le> e"
  then have "fl_le (round_double 1) (round_double (e / w))" by (intro round_double_mono) simp
  then have f: "fraction_of e w = 1"
    by (auto simp: fraction_of_def round_double_1 fl_le_def split: pyfloat.splits)
  have "round3 1 = Fin 1"
    using round_half_even_ge [of 1000 1000] round_half_even_le [of 1000 1000] by (simp add: round3_def round_double_1 antisym)
  then show ?thesis by (simp add: clock_state_def f state_at_eq round_double_1 fl_le_def whole_def)
qed

lemma running_touch: "running_job origin job \<Longrightarrow> running_job origin (job_touch t (VDict job))"
  by (simp add: running_job_def job_touch_def fields_of_def or_zero_update)

text \<open>
  What holds of the times involved: the length of the pause and the shifted origin are doubles, and the text the origin is kept as
  reads back as it (Python's \<open>repr\<close>).
\<close>

definition exact_shift :: "rat \<Rightarrow> rat \<Rightarrow> rat \<Rightarrow> bool" where
  "exact_shift origin p r \<longleftrightarrow> round_double (r - p) = Fin (r - p) \<and>
     round_double (origin + (r - p)) = Fin (origin + (r - p)) \<and> origin + (r - p) \<noteq> 0 \<and>
     float_of_str (float_repr (Fin (origin + (r - p)))) = Some (Fin (origin + (r - p)))"

lemma controlled_pause:
  assumes "running_job origin job" "0 < dispatch" "reads p" "clk p \<noteq> 0"
  shows "\<exists>job1. controlled p ''pause'' ttl job = Inr job1 \<and>
    (\<forall>t. progress dispatch t job1 = Inr (''PAUSE'', VFloat (float_repr (round3 (fraction_of (clk p - origin) dispatch))), False)) \<and>
    (\<forall>k. k \<notin> {''paused_at'', ''is_paused'', ''dispatch_state''} \<longrightarrow> dict_get job1 k = dict_get job k) \<and>
    dict_get job1 ''paused_at'' = stamp p \<and> dict_get job1 ''is_paused'' = VBool True"
proof -
  have "truthy (stamp p)" "py_float (stamp p) = Inr (Fin (clk p))"
    using assms(3,4) by (simp_all add: stamp_def reads_def py_float_def)
  then show ?thesis
    using assms(1,2) by (simp add: controlled_def updates_def running_job_def progress_def or_zero_update fin_or_zero_def Let_def)
qed

lemma controlled_unpause:
  assumes "running_job origin job" "reads r" "exact_shift origin (clk p) (clk r)" "clk p \<noteq> 0" "reads p" "origin \<noteq> 0"
    and "\<forall>k. k \<notin> {''paused_at'', ''is_paused'', ''dispatch_state''} \<longrightarrow> dict_get job1 k = dict_get job k"
    and "dict_get job1 ''paused_at'' = stamp p" "dict_get job1 ''is_paused'' = VBool True"
  shows "\<exists>job2. controlled r ''unpause'' ttl job1 = Inr job2 \<and> running_job (origin + (clk r - clk p)) job2"
proof -
  have p: "truthy (stamp p)" "py_float (stamp p) = Inr (Fin (clk p))"
    using assms(4,5) by (simp_all add: stamp_def reads_def py_float_def)
  have o: "py_float (dict_get job ''published_at'') = Inr (Fin origin)"
    using assms(1,6) by (auto simp: running_job_def or_zero_def Let_def split: if_splits)
  have same: "dict_get job1 k = dict_get job k" if "k \<notin> {''paused_at'', ''is_paused'', ''dispatch_state''}" for k
    using assms(7) that by blast
  let ?o = "VFloat (float_repr (Fin (origin + (clk r - clk p))))"
  have resumed: "resumed_origin r job1 = Inr ?o"
    using assms(3,8) p o same [of "''published_at''"] by (simp add: resumed_origin_def exact_shift_def fl_sub_def)
  then have "unpause_job r job1 = Inr (updates [(''published_at'', ?o), (''paused_at'', VFloat ''0.0''), (''is_paused'', VBool False),
      (''dispatch_state'', VStr (if truthy (dict_get job1 ''is_done'') then ''DONE'' else ''RUNNING''))] job1)"
    using assms(8,9) p by (simp add: unpause_job_def)
  moreover have "py_float ?o = Inr (Fin (origin + (clk r - clk p)))" "truthy ?o"
    using assms(3) by (simp_all add: exact_shift_def py_float_def)
  ultimately show ?thesis
    using assms(1) same [of "''settled''"] same [of "''is_failed''"] same [of "''exec_mode''"]
    by (simp add: controlled_def running_job_def updates_def or_zero_update)
qed

text \<open>
  C33. The clock of a search job. While nothing controls it, a job that is polled passes through its states in order: no later poll reports an
  earlier state, a job reports itself done exactly in the state \<open>DONE\<close>, and from the end of the dispatch window on every poll finds it there.
  A pause stops the clock: while it lasts every poll answers the same progress, and after the job is resumed
  every poll answers what the job would have answered earlier by the length of the pause.
\<close>

theorem job_clock:
  assumes "running_job origin job" "0 < dispatch" "origin \<noteq> 0" "reads p" "clk p \<noteq> 0" "reads r" "exact_shift origin (clk p) (clk r)"
  shows "(\<forall>t t'. t \<le> t' \<longrightarrow> (\<exists>a b. progress dispatch t job = Inr a \<and> progress dispatch t' job = Inr b \<and>
       rank_of (fst a) \<le> rank_of (fst b) \<and> (snd (snd a) \<longleftrightarrow> fst a = ''DONE''))) \<and>
    (\<forall>t. origin + dispatch \<le> t \<longrightarrow> progress dispatch t job = Inr (''DONE'', VInt 1, True)) \<and>
    (\<exists>job1 job2. controlled p ''pause'' ttl job = Inr job1 \<and> controlled r ''unpause'' ttl job1 = Inr job2 \<and>
       (\<forall>t. progress dispatch t job1 =
          Inr (''PAUSE'', VFloat (float_repr (round3 (fraction_of (clk p - origin) dispatch))), False)) \<and>
       (\<forall>t. progress dispatch t job2 = progress dispatch (t - (clk r - clk p)) job))"
proof (intro conjI allI impI)
  fix t t' :: rat assume "t \<le> t'"
  then have "rank_of (fst (clock_state (t - origin) dispatch)) \<le> rank_of (fst (clock_state (t' - origin) dispatch))"
    using state_mono [OF fraction_mono [OF assms(2)], of "t - origin" "t' - origin"] by (simp add: clock_state_def Let_def)
  then show "\<exists>a b. progress dispatch t job = Inr a \<and> progress dispatch t' job = Inr b \<and>
      rank_of (fst a) \<le> rank_of (fst b) \<and> (snd (snd a) \<longleftrightarrow> fst a = ''DONE'')"
    by (simp add: running_progress [OF assms(1,2)]) (simp add: clock_state_def Let_def)
next
  fix t assume "origin + dispatch \<le> t"
  then show "progress dispatch t job = Inr (''DONE'', VInt 1, True)"
    using finished [OF assms(2), of "t - origin"] by (simp add: running_progress [OF assms(1,2)])
next
  obtain job1 where j1: "controlled p ''pause'' ttl job = Inr job1"
    "\<And>t. progress dispatch t job1 = Inr (''PAUSE'', VFloat (float_repr (round3 (fraction_of (clk p - origin) dispatch))), False)"
    "\<forall>k. k \<notin> {''paused_at'', ''is_paused'', ''dispatch_state''} \<longrightarrow> dict_get job1 k = dict_get job k"
    "dict_get job1 ''paused_at'' = stamp p" "dict_get job1 ''is_paused'' = VBool True"
    using controlled_pause [OF assms(1,2,4,5)] by blast
  obtain job2 where j2: "controlled r ''unpause'' ttl job1 = Inr job2" "running_job (origin + (clk r - clk p)) job2"
    using controlled_unpause [OF assms(1,6,7,5,4,3) j1(3-5)] by blast
  have "progress dispatch t job2 = progress dispatch (t - (clk r - clk p)) job" for t
    by (simp add: running_progress [OF assms(1,2)] running_progress [OF j2(2) assms(2)] algebra_simps)
  then show "\<exists>job1 job2. controlled p ''pause'' ttl job = Inr job1 \<and> controlled r ''unpause'' ttl job1 = Inr job2 \<and>
      (\<forall>t. progress dispatch t job1 =
         Inr (''PAUSE'', VFloat (float_repr (round3 (fraction_of (clk p - origin) dispatch))), False)) \<and>
      (\<forall>t. progress dispatch t job2 = progress dispatch (t - (clk r - clk p)) job)"
    using j1(1,2) j2(1) by blast
qed

section \<open>Corners\<close>

text \<open>
  Every job is made done, and no control action takes that back: the exception the reaper makes for a paused job that is
  not done never applies, and a paused job is removed like any other.
\<close>

lemma job_made_done: "dict_get (SearchJob sid q e l m req sb failed evs rs sc ms fm t) ''is_done'' = VBool True"
  by (simp add: SearchJob_def)

lemma controlled_stays_done:
  "controlled t action ttl job = Inr job' \<Longrightarrow> dict_get job ''is_done'' = VBool True \<Longrightarrow> dict_get job' ''is_done'' = VBool True"
  by (auto simp: controlled_def unpause_job_def updates_def map_sum_eq_Inr split: if_splits)

lemma paused_job_expires:
  "dict_get job ''is_done'' = VBool True \<Longrightarrow>
     job_expired (AList.update ''is_paused'' (VBool b) job) now dispatch = job_expired job now dispatch"
  by (simp add: job_expired_def ttl_of_update or_zero_update Let_def split: sum.split)

text \<open>A failed search that is paused and resumed reports itself \<open>DONE\<close>.\<close>

lemma resumed_failure_reads_done:
  "dict_get job ''is_done'' = VBool True \<Longrightarrow> controlled t ''unpause'' ttl job = Inr job' \<Longrightarrow>
     dict_get job' ''dispatch_state'' = VStr ''DONE'' \<and> dict_get job' ''is_failed'' = dict_get job ''is_failed''"
  by (auto simp: controlled_def unpause_job_def updates_def map_sum_eq_Inr split: if_splits)

text \<open>A \<open>ttl\<close> of 1025 bits, which \<open>setttl\<close> accepts, makes every later reading of the job raise, and the listing and the sweep with it.\<close>

lemma huge_ttl_raises:
  assumes "2 ^ 1024 \<le> n" "dict_get job ''is_done'' = VBool True" "or_zero job ''published_at'' = Inr a" "or_zero job ''touched_at'' = Inr b"
  shows "\<exists>job'. controlled t ''setttl'' n job = Inr job' \<and>
    job_expired job' now dispatch = Inl (OverflowError ''int too large to convert to float'')"
proof -
  have "0 < n" using assms(1) by (rule less_le_trans [rotated]) simp
  then show ?thesis
    using assms by (simp add: controlled_def updates_def job_expired_def or_zero_update py_float_def float_of_int_huge)
      (simp add: ttl_of_def float_of_int_huge)
qed

lemma keys_where_raises: "(k, v) \<in> set d \<Longrightarrow> test v = Inl e \<Longrightarrow> \<exists>e'. keys_where test d = Inl e'"
  by (induction d rule: induct_list012) (auto split: sum.split)

lemma foldE_raises:
  assumes "\<And>acc. \<exists>e. f acc x = Inl e"
  shows "x \<in> set xs \<Longrightarrow> \<exists>e. foldE f xs acc = Inl e"
proof (induction xs arbitrary: acc)
  case (Cons y ys)
  show ?case
  proof (cases "f acc y")
    case (Inr acc')
    then have "x \<noteq> y" using assms [of acc] by auto
    then show ?thesis using Cons Inr by simp
  qed simp
qed simp

lemma one_job_breaks_all:
  assumes "store_inv s" "repo_get s ''splunk_search_jobs'' sid = Some v" "job_test dispatch now v = Inl e"
  shows "(\<exists>e. job_reap dispatch now s = (Inl e, s)) \<and> (\<exists>e. job_list_all dispatch now s = Inl e)"
proof -
  have mem: "(sid, v) \<in> set (entries s ''splunk_search_jobs'')"
    by (rule map_of_SomeD) (use entries_get [OF search_jobs_known assms(1), of sid] assms(2) in simp)
  obtain d where "coll s ''splunk_search_jobs'' = Inr d" using store_inv_present [OF assms(1) search_jobs_known] by blast
  then have "repo_list_all s ''splunk_search_jobs'' = map snd (entries s ''splunk_search_jobs'')"
    by (simp add: repo_list_all_def store_get_all_def entries_def store_get_all_with_keys_def)
  then have "v \<in> set (repo_list_all s ''splunk_search_jobs'')" using imageI [OF mem, of snd] by simp
  then have "\<exists>e. job_list_all dispatch now s = Inl e"
    unfolding job_list_all_def by (intro foldE_raises) (simp_all add: assms(3))
  moreover obtain e' where "keys_where (job_test dispatch now) (entries s ''splunk_search_jobs'') = Inl e'"
    using keys_where_raises [where test = "job_test dispatch now", OF mem assms(3)] by blast
  ultimately show ?thesis by (simp add: job_reap_def reap_listed_def)
qed

section \<open>A job under the theorems\<close>

definition demo_job :: jobj where
  "demo_job = SearchJob ''1.a'' ''search *'' [] [] ''normal'' [] 0 False [] [] 0 [] [] (demo_tick 100 ''100.0'')"

theorem job_clock_witness:
  "progress 5 105 demo_job = Inr (''DONE'', VInt 1, True) \<and>
   (\<exists>job1 job2. controlled (demo_tick 3700 ''3700.0'') ''pause'' 0 demo_job = Inr job1 \<and>
      controlled (demo_tick 7400 ''7400.0'') ''unpause'' 0 job1 = Inr job2 \<and>
      progress 5 3805 job2 = Inr (''DONE'', VInt 1, True))"
proof -
  have t: "reads (demo_tick 3700 ''3700.0'')" "reads (demo_tick 7400 ''7400.0'')" "reads (demo_tick 100 ''100.0'')"
    by (rule demo_ticks)+
  have o: "running_job 100 demo_job"
    using t(3) by (simp add: running_job_def demo_job_def SearchJob_def or_zero_def stamp_def reads_def py_float_def demo_tick_def)
  have repr: "float_repr (Fin 3800) = ''3800.0''" by code_simp
  have x: "exact_shift 100 (clk (demo_tick 3700 ''3700.0'')) (clk (demo_tick 7400 ''7400.0''))"
    using round_double_whole [of 3700] round_double_whole [of 3800]
    by (simp add: exact_shift_def demo_tick_def repr float_of_str_def decimal_value_def int_of_digits_def digit_val_def strip_def
        lstrip_def rstrip_def is_space_def is_digit_def split_sign_def lower_def lower_char_def is_upper_def Let_def)
  obtain job1 job2 where j: "controlled (demo_tick 3700 ''3700.0'') ''pause'' 0 demo_job = Inr job1"
    "controlled (demo_tick 7400 ''7400.0'') ''unpause'' 0 job1 = Inr job2"
    "\<forall>t. progress 5 t job2 = progress 5 (t - (clk (demo_tick 7400 ''7400.0'') - clk (demo_tick 3700 ''3700.0''))) demo_job"
    "\<forall>t. 100 + 5 \<le> t \<longrightarrow> progress 5 t demo_job = Inr (''DONE'', VInt 1, True)"
    using job_clock [OF o, of 5 "demo_tick 3700 ''3700.0''" "demo_tick 7400 ''7400.0''" 0] t x by (auto simp: demo_tick_def)
  then have "progress 5 3805 job2 = Inr (''DONE'', VInt 1, True)" "progress 5 105 demo_job = Inr (''DONE'', VInt 1, True)"
    by (simp_all add: demo_tick_def)
  then show ?thesis using j(1,2) by blast
qed

end
