(* ===== verification/Page_Walks.thy ===== *)
theory Page_Walks
  imports Paging World Arm
begin

text \<open>
  Lists as a client walks them, request by request: the directory roles of Graph and their members
  (\<open>application/graph/directory/queries.py\<close> behind \<open>api/routers/graph/directory.py\<close>), the threat indicators of
  Sentinel (\<open>application/sentinel/queries/threat_intel.py\<close> behind \<open>api/routers/sentinel/sentinel_threat_intel.py\<close>) and
  the notes of a SentinelOne threat (\<open>application/threats/queries.py\<close>).

  A route is a function on the URL of the request. The framework's reading of an integer out of a query
  parameter is the argument \<open>read_int\<close>, its refusal of a parameter the argument \<open>invalid\<close>. A client follows the
  link in each body verbatim. The locale \<open>cursor_links\<close> states what a kind of link promises: the offset it was built
  for is the one read back off the URL; its instances are Graph's and ARM's links.
\<close>

section \<open>The handlers\<close>

text \<open>A parameter given twice counts with its last value.\<close>

definition query_param :: "(string \<times> string) list \<Rightarrow> string \<Rightarrow> string option" where
  "query_param params name = map_of (rev params) name"

definition url_params :: "string \<Rightarrow> (string \<times> string) list" where
  "url_params url = parse_qsl (url_query (urlsplit url))"

definition list_directory_roles :: "string option \<Rightarrow> int \<Rightarrow> int \<Rightarrow> db \<Rightarrow> pyval" where
  "list_directory_roles request_url top_n skip s =
     (let records = repo_list_all s ''graph_directory_roles'';
          (page, next_link) = graph_page request_url records top_n skip ''directoryRoles'' SKIPTOKEN
      in build_graph_list_response page ''https://graph.microsoft.com/v1.0/$metadata#directoryRoles'' next_link None)"

text \<open>Users of a role: the ids stored for it, those without a user left out.\<close>

definition role_members :: "string \<Rightarrow> db \<Rightarrow> pyval list" where
  "role_members role_id s =
     (case repo_get s ''graph_directory_role_members'' role_id of
        Some (VList uids) \<Rightarrow>
          List.map_filter (\<lambda>uid. map_option
              (\<lambda>user. VDict (updates user [(''@odata.type'', VStr ''#microsoft.graph.user'')]))
              (repo_find s ''graph_users'' (py_str uid))) uids
      | _ \<Rightarrow> [])"

definition get_role_members :: "string option \<Rightarrow> string \<Rightarrow> int \<Rightarrow> int \<Rightarrow> db \<Rightarrow> pyval" where
  "get_role_members request_url role_id top_n skip s =
     (let (page, next_link) = graph_page request_url (role_members role_id s) top_n skip
            (''directoryRoles/'' @ role_id @ ''/members'') SKIPTOKEN
      in build_graph_list_response page
           (''https://graph.microsoft.com/v1.0/$metadata#directoryRoles('' @ [CHR 0x27] @ role_id @ [CHR 0x27] @ '')/members'')
           next_link None)"

text \<open>The two routes: \<open>$top\<close> between 1 and 999, 100 when it is not given.\<close>

definition directory_top :: "(string \<Rightarrow> int option) \<Rightarrow> (string \<times> string) list \<Rightarrow> int option" where
  "directory_top read_int params =
     (case query_param params ''$top'' of
        None \<Rightarrow> Some 100
      | Some t \<Rightarrow>
          (case read_int t of
             None \<Rightarrow> None
           | Some n \<Rightarrow> if 1 \<le> n \<and> n \<le> 999 then Some n else None))"

definition directory_route ::
  "(string \<Rightarrow> int option) \<Rightarrow> failure \<Rightarrow> err_env \<Rightarrow> (string option \<Rightarrow> int \<Rightarrow> int \<Rightarrow> pyval) \<Rightarrow> string \<Rightarrow> pyval http" where
  "directory_route read_int invalid env handler url =
     (case directory_top read_int (url_params url) of
        None \<Rightarrow> Inl invalid
      | Some top_n \<Rightarrow>
          (case directory_page_offset env (url_params url) of
             Inl e \<Rightarrow> Inl e
           | Inr skip \<Rightarrow> Inr (handler (Some url) top_n skip)))"

definition directory_roles_route :: "(string \<Rightarrow> int option) \<Rightarrow> failure \<Rightarrow> err_env \<Rightarrow> db \<Rightarrow> string \<Rightarrow> pyval http" where
  "directory_roles_route read_int invalid env s =
     directory_route read_int invalid env (\<lambda>url top_n skip. list_directory_roles url top_n skip s)"

definition role_members_route ::
  "(string \<Rightarrow> int option) \<Rightarrow> failure \<Rightarrow> err_env \<Rightarrow> string \<Rightarrow> db \<Rightarrow> string \<Rightarrow> pyval http" where
  "role_members_route read_int invalid env role_id s =
     directory_route read_int invalid env (\<lambda>url top_n skip. get_role_members url role_id top_n skip s)"

definition indicator_to_arm :: "(string \<Rightarrow> jobj) \<Rightarrow> string \<Rightarrow> jobj \<Rightarrow> pyval" where
  "indicator_to_arm load_fixture base ind =
     VDict (build_arm_resource load_fixture base ''threatIntelligence/main/indicators'' (attr_text ind ''name'')
       (map (\<lambda>(member, field). (member, dict_get ind field))
          [(''displayName'', ''display_name''), (''description'', ''description''), (''pattern'', ''pattern''),
           (''patternType'', ''pattern_type''), (''source'', ''source''), (''confidence'', ''confidence''),
           (''threatTypes'', ''threat_types''), (''killChainPhases'', ''kill_chain_phases''), (''labels'', ''labels''),
           (''threatIntelligenceTags'', ''threat_intelligence_tags''), (''externalReferences'', ''external_references''),
           (''validFrom'', ''valid_from''), (''validUntil'', ''valid_until''), (''created'', ''created''),
           (''lastUpdatedTimeUtc'', ''last_updated''), (''revoked'', ''revoked'')])
       (attr_text ind ''etag'') ''indicator'' [] [])"

definition list_indicators_ti :: "(string \<Rightarrow> jobj) \<Rightarrow> string \<Rightarrow> int \<Rightarrow> string \<Rightarrow> string \<Rightarrow> db \<Rightarrow> pyval http" where
  "list_indicators_ti load_fixture base top_n skip_token request_url s =
     (let all_inds = map fields_of (repo_list_all s ''sentinel_threat_indicators'')
      in case parse_skip_token skip_token of
           Inl e \<Rightarrow> Inl e
         | Inr offset \<Rightarrow>
             (let page = py_slice all_inds offset (offset + top_n);
                  next_link = (if offset + top_n < int (length all_inds) then build_next_link request_url (offset + top_n) else [])
              in Inr (build_arm_list (map (indicator_to_arm load_fixture base) page) next_link)))"

text \<open>\<open>min(top or 50, 1000)\<close>, and \<open>skip_token or ""\<close>.\<close>

definition indicators_top :: "(string \<Rightarrow> int option) \<Rightarrow> (string \<times> string) list \<Rightarrow> int option" where
  "indicators_top read_int params =
     (case query_param params ''$top'' of
        None \<Rightarrow> Some 50
      | Some t \<Rightarrow> map_option (\<lambda>n. min (if n = 0 then 50 else n) 1000) (read_int t))"

definition skip_token_of :: "(string \<times> string) list \<Rightarrow> string" where
  "skip_token_of params = (case query_param params ''$skipToken'' of None \<Rightarrow> [] | Some t \<Rightarrow> t)"

definition indicators_route ::
  "(string \<Rightarrow> int option) \<Rightarrow> failure \<Rightarrow> (string \<Rightarrow> jobj) \<Rightarrow> string \<Rightarrow> db \<Rightarrow> string \<Rightarrow> pyval http" where
  "indicators_route read_int invalid load_fixture base s url =
     (case indicators_top read_int (url_params url) of
        None \<Rightarrow> Inl invalid
      | Some top_n \<Rightarrow> list_indicators_ti load_fixture base top_n (skip_token_of (url_params url)) url s)"

text \<open>\<open>shape\<close> completes a note to its swagger definition.\<close>

definition get_threat_notes ::
  "(jobj \<Rightarrow> jobj) \<Rightarrow> string \<Rightarrow> int \<Rightarrow> string option \<Rightarrow> int \<Rightarrow> db \<Rightarrow> pyval option result" where
  "get_threat_notes shape threat_id skip cursor limit s =
     (case repo_find s ''threats'' threat_id of
        None \<Rightarrow> Inr None
      | Some threat \<Rightarrow>
          (let all_notes = (case dict_get threat ''notes'' of VList ns \<Rightarrow> ns | _ \<Rightarrow> []);
               notes = py_slice_from all_notes skip
           in case paginate notes None cursor limit None of
                Inl e \<Rightarrow> Inl e
              | Inr (page, next_cursor, tot) \<Rightarrow> Inr (Some (build_list_response page next_cursor tot (Some shape)))))"

section \<open>A client that follows the links\<close>

definition body_items :: "pyval \<Rightarrow> string \<Rightarrow> pyval list" where
  "body_items body key = (case field_get body key of VList vs \<Rightarrow> vs | _ \<Rightarrow> [])"

definition body_link :: "pyval \<Rightarrow> string \<Rightarrow> string option" where
  "body_link body key = (case field_get body key of VStr u \<Rightarrow> Some u | _ \<Rightarrow> None)"

definition following :: "(string \<Rightarrow> pyval http) \<Rightarrow> string \<Rightarrow> string \<Rightarrow> string option \<Rightarrow> pyval list \<times> string option" where
  "following route link_key start c =
     (case route (case c of None \<Rightarrow> start | Some u \<Rightarrow> u) of
        Inl e \<Rightarrow> ([], None)
      | Inr body \<Rightarrow> (body_items body ''value'', body_link body link_key))"

definition following_notes :: "(jobj \<Rightarrow> jobj) \<Rightarrow> string \<Rightarrow> int \<Rightarrow> int \<Rightarrow> db \<Rightarrow> string option \<Rightarrow> pyval list \<times> string option" where
  "following_notes shape threat_id skip limit s c =
     (case get_threat_notes shape threat_id skip c limit s of
        Inr (Some body) \<Rightarrow> (body_items body ''data'', body_link (field_get body ''pagination'') ''nextCursor'')
      | _ \<Rightarrow> ([], None))"

lemma in_join: "w \<in> set ws \<Longrightarrow> c \<in> set w \<Longrightarrow> c \<in> set (join sep ws)"
  by (induction sep ws rule: join.induct) auto

lemma with_cursor_nonempty: "with_cursor url cursor val replaces safe \<noteq> []"
proof -
  have "CHR ''='' \<in> set (urlencode safe (ps @ [(cursor, val)]))" for ps
    unfolding urlencode_def by (rule in_join [of "quote_plus safe cursor @ ''='' @ quote_plus safe val"]) auto
  then have "urlencode safe (ps @ [(cursor, val)]) \<noteq> []" for ps by (metis empty_iff empty_set)
  then show ?thesis by (auto simp: with_cursor_def urlunsplit_def Let_def)
qed

locale cursor_links =
  fixes cursor :: string and replaces :: "string \<Rightarrow> bool" and safe :: string
    and enc :: "int \<Rightarrow> string" and offset_of :: "(string \<times> string) list \<Rightarrow> int http"
  assumes safe_chars: "safe_ok safe"
    and own_cursor: "replaces cursor"
    and offset_read: "n < 10 ^ max_int_digits \<Longrightarrow>
      offset_of (filter (\<lambda>(k, v). \<not> replaces k) params @ [(cursor, enc (int n))]) = Inr (int n)"
begin

text \<open>What stays from link to link: every parameter but the cursors.\<close>

lemma link_followed:
  assumes "wf_parts (urlsplit u)" "n < 10 ^ max_int_digits"
  shows "wf_parts (urlsplit (with_cursor u cursor (enc (int n)) replaces safe))"
    and "offset_of (url_params (with_cursor u cursor (enc (int n)) replaces safe)) = Inr (int n)"
    and "filter (\<lambda>(k, v). \<not> replaces k) (url_params (with_cursor u cursor (enc (int n)) replaces safe)) =
      filter (\<lambda>(k, v). \<not> replaces k) (url_params u)"
  using with_cursor_parts [OF assms(1) safe_chars, of cursor "enc (int n)" replaces] offset_read [OF assms(2)] own_cursor
  by (simp_all add: url_params_def)

text \<open>A route that answers the window at the offset of its URL, and the link behind it while there is more.\<close>

lemma route_walk:
  assumes route: "\<And>u i. wf_parts (urlsplit u) \<Longrightarrow> offset_of (url_params u) = Inr (int i) \<Longrightarrow>
      filter (\<lambda>(k, v). \<not> replaces k) (url_params u) = filter (\<lambda>(k, v). \<not> replaces k) (url_params start) \<Longrightarrow>
      following route link_key start (Some u) =
        (take limit (drop i items),
         if i + limit < length items then Some (with_cursor u cursor (enc (int (i + limit))) replaces safe) else None)"
    and start: "wf_parts (urlsplit start)" "offset_of (url_params start) = Inr 0"
    and size: "0 < limit" "length items < 10 ^ max_int_digits"
  shows "\<exists>pages. walk (following route link_key start) (Suc (length items)) None = Some pages \<and> concat pages = items \<and>
    (\<forall>p \<in> set pages. length p \<le> limit)"
proof (rule paged_walk.walk_is_complete)
  let ?at = "\<lambda>c. case c of None \<Rightarrow> start | Some u \<Rightarrow> u"
  let ?starts = "\<lambda>c i. wf_parts (urlsplit (?at c)) \<and> offset_of (url_params (?at c)) = Inr (int i) \<and>
      filter (\<lambda>(k, v). \<not> replaces k) (url_params (?at c)) = filter (\<lambda>(k, v). \<not> replaces k) (url_params start)"
  have here: "following route link_key start c = following route link_key start (Some (?at c))" for c
    by (cases c) (simp_all add: following_def)
  show "paged_walk (following route link_key start) items limit ?starts"
  proof
    show "0 < limit" by fact
    show "?starts None 0" using start by simp
  next
    fix c i assume c: "?starts c i" "i \<le> length items"
    show "fst (following route link_key start c) = take limit (drop i items)"
      using route [of "?at c" i] c(1) by (simp add: here [of c])
    show "length items \<le> i + limit \<Longrightarrow> snd (following route link_key start c) = None"
      using route [of "?at c" i] c(1) by (simp add: here [of c])
  next
    fix c i assume c: "?starts c i" "i + limit < length items"
    then have "i + limit < 10 ^ max_int_digits" using size(2) by simp
    from link_followed [OF conjunct1 [OF c(1)] this]
    show "\<exists>c'. snd (following route link_key start c) = Some c' \<and> ?starts (Some c') (i + limit)"
      using route [of "?at c" i] c by (simp add: here [of c])
  qed
qed

end

section \<open>The links of Graph and of ARM\<close>

lemma directory_token_kept:
  "directory_token env t (filter (\<lambda>(k, v). \<not> is_odata_cursor k) params @ ps) = directory_token env t ps"
  by (induction params) (auto simp: is_odata_cursor_def)

lemma lower_skiptoken: "lower SKIPTOKEN = SKIPTOKEN" "SKIPTOKEN \<noteq> SKIP"
  by (simp_all add: SKIPTOKEN_def SKIP_def lower_def lower_char_def is_upper_def)

lemma encode_skiptoken_nonempty: "encode_skiptoken n \<noteq> []"
  using urlsafe_nonempty [of "PAGE_TOKEN_PREFIX @ str_of_int n"] by (simp add: encode_skiptoken_def PAGE_TOKEN_PREFIX_def)

interpretation graph_links: cursor_links SKIPTOKEN is_odata_cursor "''$''" encode_skiptoken "directory_page_offset env" for env
proof
  show "safe_ok ''$''" by (rule safe_ok_dollar)
  show "is_odata_cursor SKIPTOKEN" by (simp add: is_odata_cursor_def lower_skiptoken)
  fix n :: nat and params :: "(string \<times> string) list"
  assume "n < 10 ^ max_int_digits"
  then show "directory_page_offset env (filter (\<lambda>(k, v). \<not> is_odata_cursor k) params @ [(SKIPTOKEN, encode_skiptoken (int n))]) = Inr (int n)"
    using encode_skiptoken_nonempty [of "int n"]
    by (simp add: directory_page_offset_def directory_token_kept lower_skiptoken decode_encode_skiptoken)
qed

interpretation arm_links: cursor_links "''$skipToken''" "\<lambda>k. k = ''$skipToken''" "[]" str_of_int "\<lambda>params. parse_skip_token (skip_token_of params)"
proof
  show "safe_ok []" by (rule safe_ok_dollar)
  fix n :: nat and params :: "(string \<times> string) list"
  assume "n < 10 ^ max_int_digits"
  then show "parse_skip_token (skip_token_of (filter (\<lambda>(k, v). k \<noteq> ''$skipToken'') params @ [(''$skipToken'', str_of_int (int n))])) = Inr (int n)"
    using parse_skip_token_str [of n] by (simp add: skip_token_of_def query_param_def)
qed simp

lemma window_at: "0 < limit \<Longrightarrow> py_slice xs (int i) (int i + int limit) = take limit (drop i xs)"
  using py_slice_window [of "int limit" xs i] by simp

lemma graph_body:
  "field_get (build_graph_list_response page context link None) ''value'' = VList page"
  "body_link (build_graph_list_response page context link None) ''@odata.nextLink'' =
     (case link of None \<Rightarrow> None | Some l \<Rightarrow> if l = [] then None else Some l)"
  by (simp_all add: build_graph_list_response_def body_link_def field_get_def dict_get_def split: option.split)

lemma query_param_kept:
  assumes "\<not> replaces name" "filter (\<lambda>(k, v). \<not> replaces k) ps = filter (\<lambda>(k, v). \<not> replaces k) qs"
  shows "query_param ps name = query_param qs name"
proof -
  have "map_of (rev ps) name = map_of (rev (filter (\<lambda>(k, v). \<not> replaces k) ps)) name" for ps :: "(string \<times> string) list"
    by (induction ps rule: rev_induct) (auto simp: assms(1) split: if_splits)
  then show ?thesis using assms(2) by (metis query_param_def)
qed

lemma wf_parts_url: "wf_parts (urlsplit u) \<Longrightarrow> u \<noteq> []"
proof
  have "\<not> wf_parts (urlsplit [])" by code_simp
  then show "wf_parts (urlsplit u) \<Longrightarrow> u = [] \<Longrightarrow> False" by simp
qed

text \<open>A route of Graph answers its window and the link behind it, whatever its handler lists.\<close>

lemma directory_route_window:
  assumes handler: "\<And>url top_n skip. \<exists>context. handler url top_n skip =
      (let (page, link) = graph_page url items top_n skip resource SKIPTOKEN in build_graph_list_response page context link None)"
    and top_n: "directory_top read_int (url_params start) = Some (int limit)"
    and offset: "directory_page_offset env (url_params u) = Inr (int i)"
    and kept: "filter (\<lambda>(k, v). \<not> is_odata_cursor k) (url_params u) = filter (\<lambda>(k, v). \<not> is_odata_cursor k) (url_params start)"
    and u: "u \<noteq> []"
  shows "following (directory_route read_int invalid env handler) ''@odata.nextLink'' start (Some u) =
    (take limit (drop i items),
     if i + limit < length items then Some (with_cursor u SKIPTOKEN (encode_skiptoken (int (i + limit))) is_odata_cursor ''$'') else None)"
proof -
  have "\<not> is_odata_cursor ''$top''" by code_simp
  from query_param_kept [of is_odata_cursor, OF this kept]
  have top_u: "directory_top read_int (url_params u) = Some (int limit)" using top_n by (simp add: directory_top_def)
  have "0 < limit" using top_n by (auto simp: directory_top_def split: option.splits if_splits)
  then have page: "py_slice items (int i) (int i + int limit) = take limit (drop i items)" by (rule window_at)
  obtain ctx where "handler (Some u) (int limit) (int i) = build_graph_list_response
      (take limit (drop i items)) ctx (snd (graph_page (Some u) items (int limit) (int i) resource SKIPTOKEN)) None"
    using handler [of "Some u" "int limit" "int i"] page by (auto simp: graph_page_def)
  moreover have "snd (graph_page (Some u) items (int limit) (int i) resource SKIPTOKEN) =
     (if i + limit < length items then Some (with_cursor u SKIPTOKEN (encode_skiptoken (int (i + limit))) is_odata_cursor ''$'') else None)"
    using u by (auto simp: graph_page_def page_link_def Let_def add_ac)
  ultimately show ?thesis
    using top_u offset with_cursor_nonempty
    by (simp add: following_def directory_route_def body_items_def graph_body)
qed


lemma handlers_page:
  "\<exists>context. list_directory_roles url top_n skip s =
     (let (page, link) = graph_page url (repo_list_all s ''graph_directory_roles'') top_n skip ''directoryRoles'' SKIPTOKEN
      in build_graph_list_response page context link None)"
  "\<exists>context. get_role_members url role_id top_n skip s =
     (let (page, link) = graph_page url (role_members role_id s) top_n skip (''directoryRoles/'' @ role_id @ ''/members'') SKIPTOKEN
      in build_graph_list_response page context link None)"
  by (auto simp: list_directory_roles_def get_role_members_def Let_def split_beta)

lemma arm_body:
  "field_get (build_arm_list items link) ''value'' = VList items"
  "body_link (build_arm_list items link) ''nextLink'' = (if link = [] then None else Some link)"
  by (simp_all add: build_arm_list_def body_link_def field_get_def dict_get_def)

lemma indicators_window:
  fixes s :: db
  defines "inds \<equiv> map fields_of (repo_list_all s ''sentinel_threat_indicators'')"
  assumes top_n: "indicators_top read_int (url_params start) = Some (int limit)" and pos: "0 < limit"
    and offset: "parse_skip_token (skip_token_of (url_params u)) = Inr (int i)"
    and kept: "filter (\<lambda>(k, v). k \<noteq> ''$skipToken'') (url_params u) = filter (\<lambda>(k, v). k \<noteq> ''$skipToken'') (url_params start)"
  shows "following (indicators_route read_int invalid load_fixture base s) ''nextLink'' start (Some u) =
    (take limit (drop i (map (indicator_to_arm load_fixture base) inds)),
     if i + limit < length inds then Some (with_cursor u ''$skipToken'' (str_of_int (int (i + limit))) (\<lambda>k. k = ''$skipToken'') []) else None)"
proof -
  have "query_param (url_params u) ''$top'' = query_param (url_params start) ''$top''"
    by (rule query_param_kept [of "\<lambda>k. k = ''$skipToken''"]) (use kept in simp_all)
  then have top_u: "indicators_top read_int (url_params u) = Some (int limit)" using top_n by (simp add: indicators_top_def)
  have page: "py_slice inds (int i) (int i + int limit) = take limit (drop i inds)" using pos by (rule window_at)
  have more: "int i + int limit < int (length inds) \<longleftrightarrow> i + limit < length inds" by auto
  show ?thesis
    using top_u offset page with_cursor_nonempty
    unfolding following_def indicators_route_def list_indicators_ti_def inds_def [symmetric]
    by (auto simp: Let_def arm_body body_items_def take_map drop_map build_next_link_def more)
qed

text \<open>The offset cursor of SentinelOne, in the notes of a threat.\<close>

lemma encode_offset_nonempty: "encode_offset n \<noteq> []"
proof
  assume "encode_offset n = []"
  then have "b64decode [] = Some (json_dumps '', '' '': '' (VDict [(''offset'', VInt n)]))"
    using b64_roundtrip [of "json_dumps '', '' '': '' (VDict [(''offset'', VInt n)])"] by (simp add: encode_offset_def)
  then show False by (simp add: b64decode_def)
qed

lemma notes_window:
  fixes skip :: int
  assumes "repo_find s ''threats'' threat_id = Some threat" "dict_get threat ''notes'' = VList ns"
  defines "items \<equiv> py_slice_from ns skip"
  assumes pos: "0 < limit" and dicts: "\<forall>n \<in> set items. \<exists>d. n = VDict d"
    and c: "c = None \<and> i = 0 \<or> c = Some (encode_offset (int i)) \<and> i < 10 ^ max_int_digits"
  shows "following_notes shape threat_id skip (int limit) s c =
    (take limit (drop i (map (\<lambda>n. VDict (shape (fields_of n))) items)),
     if i + limit < length items then Some (encode_offset (int (i + limit))) else None)"
proof -
  have offset: "(case c of None \<Rightarrow> Inr 0 | Some c \<Rightarrow> if c = [] then Inr 0 else decode_offset c) = Inr (int i)"
    using c encode_offset_nonempty [of "int i"] decode_encode_offset [of i] by auto
  have page: "py_slice items (int i) (int i + int limit) = take limit (drop i items)" using pos by (rule window_at)
  have more: "int i + int limit < int (length items) \<longleftrightarrow> i + limit < length items" by auto
  have shaped: "map (\<lambda>n. case n of VDict d \<Rightarrow> VDict (shape d) | _ \<Rightarrow> n) (take limit (drop i items)) =
      take limit (drop i (map (\<lambda>n. VDict (shape (fields_of n))) items))"
    unfolding take_map drop_map
  proof (rule map_cong [OF refl])
    fix n assume "n \<in> set (take limit (drop i items))"
    then have "n \<in> set items" by (meson in_set_takeD in_set_dropD)
    then show "(case n of VDict d \<Rightarrow> VDict (shape d) | _ \<Rightarrow> n) = VDict (shape (fields_of n))"
      using dicts by (auto simp: fields_of_def)
  qed
  show ?thesis
    using assms(1,2) offset page shaped
    by (simp add: following_notes_def get_threat_notes_def items_def [symmetric] paginate_def paginate_offset_def more
        build_list_response_def body_items_def body_link_def field_get_def dict_get_def Let_def)
qed

lemma notes_walk:
  fixes skip :: int
  assumes "repo_find s ''threats'' threat_id = Some threat" "dict_get threat ''notes'' = VList ns"
  defines "items \<equiv> py_slice_from ns skip"
  assumes size: "0 < limit" "length items < 10 ^ max_int_digits" and dicts: "\<forall>n \<in> set items. \<exists>d. n = VDict d"
  shows "paged_walk (following_notes shape threat_id skip (int limit) s) (map (\<lambda>n. VDict (shape (fields_of n))) items) limit
    (\<lambda>c i. c = None \<and> i = 0 \<or> c = Some (encode_offset (int i)) \<and> i < 10 ^ max_int_digits)"
proof
  show "0 < limit" by fact
  show "None = None \<and> 0 = (0 :: nat) \<or> None = Some (encode_offset (int 0)) \<and> (0 :: nat) < 10 ^ max_int_digits" by simp
next
  note window = notes_window [OF assms(1,2) size(1) dicts [unfolded items_def], folded items_def]
  fix c i assume c: "c = None \<and> i = 0 \<or> c = Some (encode_offset (int i)) \<and> i < 10 ^ max_int_digits"
  let ?f = "following_notes shape threat_id skip (int limit) s"
  show "fst (?f c) = take limit (drop i (map (\<lambda>n. VDict (shape (fields_of n))) items))" by (simp add: window [OF c])
  show "length (map (\<lambda>n. VDict (shape (fields_of n))) items) \<le> i + limit \<Longrightarrow> snd (?f c) = None" by (simp add: window [OF c])
  show "\<exists>c'. snd (?f c) = Some c' \<and> (Some c' = None \<and> i + limit = 0 \<or>
      Some c' = Some (encode_offset (int (i + limit))) \<and> i + limit < 10 ^ max_int_digits)"
    if "i + limit < length (map (\<lambda>n. VDict (shape (fields_of n))) items)"
    using that size(2) by (simp add: window [OF c])
qed

section \<open>Every list is walked to its end\<close>

text \<open>
  C37. Following the links loses and repeats nothing. A client of Graph's directory roles, of the members of a role or of Sentinel's
  threat indicators asks once for the collection, with any page size the route admits and no cursor, and then
  follows the link in each body verbatim; a client of the notes of a SentinelOne threat passes the cursor of
  each body back. Its walk ends within as many requests as there are records and one more, no
  request is refused, every page has at most the page size asked for, and the pages in order are the
  whole collection.
\<close>

theorem links_complete:
  fixes s :: db
  defines "inds \<equiv> map fields_of (repo_list_all s ''sentinel_threat_indicators'')"
  assumes graph: "wf_parts (urlsplit start)" "list_all (\<lambda>(k, v). \<not> is_odata_cursor k) (url_params start)"
      "directory_top read_int (url_params start) = Some (int limit)"
    and arm: "wf_parts (urlsplit start')" "list_all (\<lambda>(k, v). k \<noteq> ''$skipToken'') (url_params start')"
      "indicators_top read_int (url_params start') = Some (int limit')" "0 < limit'"
    and stored: "repo_find s ''threats'' threat_id = Some threat" "dict_get threat ''notes'' = VList ns" "0 < limit''"
      "\<forall>n \<in> set ns. \<exists>d. n = VDict d"
    and sizes: "length (repo_list_all s ''graph_directory_roles'') < 10 ^ max_int_digits"
      "length (role_members role_id s) < 10 ^ max_int_digits" "length inds < 10 ^ max_int_digits" "length ns < 10 ^ max_int_digits"
  shows "(\<exists>pages. walk (following (directory_roles_route read_int invalid env s) ''@odata.nextLink'' start)
        (Suc (length (repo_list_all s ''graph_directory_roles''))) None = Some pages \<and>
      concat pages = repo_list_all s ''graph_directory_roles'' \<and> (\<forall>p \<in> set pages. length p \<le> limit)) \<and>
    (\<exists>pages. walk (following (role_members_route read_int invalid env role_id s) ''@odata.nextLink'' start)
        (Suc (length (role_members role_id s))) None = Some pages \<and>
      concat pages = role_members role_id s \<and> (\<forall>p \<in> set pages. length p \<le> limit)) \<and>
    (\<exists>pages. walk (following (indicators_route read_int invalid load_fixture base s) ''nextLink'' start')
        (Suc (length inds)) None = Some pages \<and>
      concat pages = map (indicator_to_arm load_fixture base) inds \<and> (\<forall>p \<in> set pages. length p \<le> limit')) \<and>
    (\<exists>pages. walk (following_notes shape threat_id 0 (int limit'') s) (Suc (length ns)) None = Some pages \<and>
      concat pages = map (\<lambda>n. VDict (shape (fields_of n))) ns \<and> (\<forall>p \<in> set pages. length p \<le> limit''))"
proof -
  have start0: "directory_page_offset env (url_params start) = Inr 0"
    using graph(2) directory_token_kept [of env "[]" "url_params start" "[]"]
    by (simp add: directory_page_offset_def filter_id_conv list_all_iff)
  have pos: "0 < limit" using graph(3) by (auto simp: directory_top_def split: option.splits if_splits)
  have arm0: "parse_skip_token (skip_token_of (url_params start')) = Inr 0"
    using arm(2) by (force simp: parse_skip_token_def skip_token_of_def query_param_def list_all_iff map_of_eq_None_iff split: option.splits dest: map_of_SomeD)
  have all: "py_slice_from ns 0 = ns" by (simp add: py_slice_from_def slice_index_def)
  show ?thesis
  proof (intro conjI)
    show "\<exists>pages. walk (following (directory_roles_route read_int invalid env s) ''@odata.nextLink'' start)
        (Suc (length (repo_list_all s ''graph_directory_roles''))) None = Some pages \<and>
      concat pages = repo_list_all s ''graph_directory_roles'' \<and> (\<forall>p \<in> set pages. length p \<le> limit)"
      unfolding directory_roles_route_def
      by (rule graph_links.route_walk [OF directory_route_window [OF handlers_page(1) graph(3)] graph(1) start0 pos sizes(1)])
        (simp_all add: wf_parts_url)
    show "\<exists>pages. walk (following (role_members_route read_int invalid env role_id s) ''@odata.nextLink'' start)
        (Suc (length (role_members role_id s))) None = Some pages \<and>
      concat pages = role_members role_id s \<and> (\<forall>p \<in> set pages. length p \<le> limit)"
      unfolding role_members_route_def
      by (rule graph_links.route_walk [OF directory_route_window [OF handlers_page(2) graph(3)] graph(1) start0 pos sizes(2)])
        (simp_all add: wf_parts_url)
    show "\<exists>pages. walk (following (indicators_route read_int invalid load_fixture base s) ''nextLink'' start')
        (Suc (length inds)) None = Some pages \<and>
      concat pages = map (indicator_to_arm load_fixture base) inds \<and> (\<forall>p \<in> set pages. length p \<le> limit')"
      using arm_links.route_walk [of start' "indicators_route read_int invalid load_fixture base s" "''nextLink''" limit'
          "map (indicator_to_arm load_fixture base) inds"]
        indicators_window [OF arm(3,4), where s = s and invalid = invalid and load_fixture = load_fixture and base = base, folded inds_def] arm(1,4) arm0 sizes(3)
      by simp
    show "\<exists>pages. walk (following_notes shape threat_id 0 (int limit'') s) (Suc (length ns)) None = Some pages \<and>
      concat pages = map (\<lambda>n. VDict (shape (fields_of n))) ns \<and> (\<forall>p \<in> set pages. length p \<le> limit'')"
      using paged_walk.walk_is_complete [OF notes_walk [OF stored(1,2,3), of 0 shape]] sizes(4) stored(4) by (simp add: all del: walk.simps)
  qed
qed

text \<open>
  The indicators route does not bound \<open>$top\<close> from below: a page of minus one leaves a link at minus one, which the service
  itself refuses.
\<close>

lemma negative_page_link_refused:
  assumes "wf_parts (urlsplit url)"
  shows "\<exists>e. parse_skip_token (skip_token_of (url_params (build_next_link url (- 1)))) = Inl e"
proof -
  have "skip_token_of (url_params (build_next_link url (- 1))) = ''-1''"
    using with_cursor_parts(3) [OF assms safe_ok_dollar(2), of "''$skipToken''" "str_of_int (- 1)" "\<lambda>k. k = ''$skipToken''"]
    by (simp add: build_next_link_def url_params_def skip_token_of_def query_param_def) code_simp
  moreover have "int_of_str ''-1'' = Some (- 1)" by code_simp
  ultimately show ?thesis by (simp add: parse_skip_token_def)
qed

definition demo_lists :: db where
  "demo_lists = init_store\<lparr>collections :=
     [(''graph_directory_roles'', map (\<lambda>i. (i, VDict [(''id'', VStr i)])) [''r1'', ''r2'', ''r3'']),
      (''graph_directory_role_members'', [(''r1'', VList [VStr ''u1'', VStr ''gone'', VStr ''u2''])]),
      (''graph_users'', map (\<lambda>i. (i, VDict [(''id'', VStr i)])) [''u1'', ''u2'']),
      (''sentinel_threat_indicators'', map (\<lambda>i. (i, VDict [(''name'', VStr i)])) [''i1'', ''i2'']),
      (''threats'', [(''t'', VDict [(''notes'', VList [VDict [(''text'', VStr ''a'')], VDict [(''text'', VStr ''b'')]])])])]\<rparr>"

lemma demo_lists_read:
  "repo_list_all demo_lists ''graph_directory_roles'' = map (\<lambda>i. VDict [(''id'', VStr i)]) [''r1'', ''r2'', ''r3'']"
  "length (role_members ''r1'' demo_lists) = 2" "length (repo_list_all demo_lists ''sentinel_threat_indicators'') = 2"
  "repo_find demo_lists ''threats'' ''t'' = Some [(''notes'', VList [VDict [(''text'', VStr ''a'')], VDict [(''text'', VStr ''b'')]])]"
  by (simp_all add: demo_lists_def repo_list_all_def store_get_all_def coll_def role_members_def repo_find_def repo_get_def store_get_def
      fields_of_def List.map_filter_def)

theorem links_complete_witness:
  "\<forall>invalid env. \<exists>pages. walk (following (directory_roles_route int_of_str invalid env demo_lists) ''@odata.nextLink''
       ''http://h/graph/v1.0/directoryRoles?$top=2'') 4 None = Some pages \<and>
     concat pages = map (\<lambda>i. VDict [(''id'', VStr i)]) [''r1'', ''r2'', ''r3''] \<and> (\<forall>p \<in> set pages. length p \<le> 2)"
proof (intro allI)
  fix invalid env
  let ?start = "''http://h/graph/v1.0/directoryRoles?$top=2''" and ?start' = "''http://h/threatIntelligence/main/indicators?$top=1''"
  have url: "urlsplit ?start = \<lparr>url_scheme = ''http'', url_netloc = ''h'', url_path = ''/graph/v1.0/directoryRoles'',
      url_query = ''$top=2'', url_fragment = []\<rparr>"
    "urlsplit ?start' = \<lparr>url_scheme = ''http'', url_netloc = ''h'', url_path = ''/threatIntelligence/main/indicators'',
      url_query = ''$top=1'', url_fragment = []\<rparr>" by code_simp+
  have wf: "wf_parts (urlsplit ?start)" "wf_parts (urlsplit ?start')" unfolding url by code_simp+
  have params: "url_params ?start = [(''$top'', ''2'')]" "url_params ?start' = [(''$top'', ''1'')]"
    unfolding url_params_def url by code_simp+
  have "int_of_str ''2'' = Some 2" "int_of_str ''1'' = Some 1" by code_simp+
  then have top_n: "directory_top int_of_str (url_params ?start) = Some (int 2)" "indicators_top int_of_str (url_params ?start') = Some (int 1)"
    by (simp_all add: params directory_top_def indicators_top_def query_param_def)
  have free: "list_all (\<lambda>(k, v). \<not> is_odata_cursor k) (url_params ?start)" "list_all (\<lambda>(k, v). k \<noteq> ''$skipToken'') (url_params ?start')"
    unfolding params by code_simp+
  let ?ns = "[VDict [(''text'', VStr ''a'')], VDict [(''text'', VStr ''b'')]]"
  have small: "n < 10 ^ max_int_digits" if "n < 10" for n :: nat using that by (rule below_int_limit)
  have sizes: "length (repo_list_all demo_lists ''graph_directory_roles'') < 10 ^ max_int_digits"
      "length (role_members ''r1'' demo_lists) < 10 ^ max_int_digits"
      "length (map fields_of (repo_list_all demo_lists ''sentinel_threat_indicators'')) < 10 ^ max_int_digits" "length ?ns < 10 ^ max_int_digits"
    by (rule small, simp add: demo_lists_read)+
  have texts: "dict_get [(''notes'', VList ?ns)] ''notes'' = VList ?ns" "\<forall>n \<in> set ?ns. \<exists>d. n = VDict d" by (simp_all add: dict_get_def)
  from links_complete [OF wf(1) free(1) top_n(1) wf(2) free(2) top_n(2) _ demo_lists_read(4) texts(1) _ texts(2) sizes, of 1 invalid env]
  have "\<exists>pages. walk (following (directory_roles_route int_of_str invalid env demo_lists) ''@odata.nextLink'' ?start)
        (Suc (length (repo_list_all demo_lists ''graph_directory_roles''))) None = Some pages \<and>
      concat pages = repo_list_all demo_lists ''graph_directory_roles'' \<and> (\<forall>p \<in> set pages. length p \<le> 2)"
    by (simp del: walk.simps)
  then show "\<exists>pages. walk (following (directory_roles_route int_of_str invalid env demo_lists) ''@odata.nextLink'' ?start) 4 None = Some pages \<and>
     concat pages = map (\<lambda>i. VDict [(''id'', VStr i)]) [''r1'', ''r2'', ''r3''] \<and> (\<forall>p \<in> set pages. length p \<le> 2)"
    by (simp add: demo_lists_read eval_nat_numeral del: walk.simps)
qed

end
