(* ===== verification/Spec2Isabelle.thy ===== *)
theory Spec2Isabelle
  imports Event_Bus Traffic S1_Filter Users Cs_Hosts Es_Endpoints Webhooks Agents Xdr_Endpoints Mde_Alerts Hunting Hec Search_Jobs Page_Walks
begin

text \<open>
  \<^bold>\<open>mockdr\<close> is one process that answers the HTTP APIs of several security products (SentinelOne,
  CrowdStrike Falcon, Defender for Endpoint, Microsoft Graph and Sentinel, Cortex XDR, Elastic Security
  and Kibana, Splunk) from one in-memory database. A request passes the middlewares of
  \<open>src/backend/api/middleware\<close>, the authentication of its mount (\<open>src/backend/api\<close>), a router, a command or
  query of \<open>src/backend/application\<close>, a repository (\<open>src/backend/repository\<close>) and the store; its answer
  is built by the envelope builders of \<open>src/backend/utils\<close>. Writes publish domain events on a bus.

  \<^bold>\<open>Python itself.\<close> The theories \<open>Py_*\<close> model the part of the language and its standard library the source
  uses. \<open>Py_Base\<close>: exceptions as values, \<open>'a result\<close> as a sum, dictionaries as association lists in
  insertion order, slices. \<open>Py_Str\<close>: \<open>str\<close> methods and \<open>int(s)\<close>, strings being their UTF-8 bytes, with the
  interpreter's limit of 4300 digits. \<open>Py_Float\<close>: IEEE doubles with correct rounding. \<open>Py_Val\<close>: the dynamic
  values (JSON values and dictionaries), \<open>str\<close>, truth, equality, dotted access
  (\<open>utils/nested.py\<close>, \<open>utils/numbers.py\<close>). \<open>Py_Json\<close>, \<open>Py_Base64\<close>, \<open>Py_Url\<close>, \<open>Py_Hash\<close>: \<open>json\<close>, \<open>base64\<close>, \<open>urllib.parse\<close>,
  SHA-256 and \<open>uuid5\<close>, with the round trips the cursors need. \<open>Py_Time\<close> and \<open>Py_Format\<close>: the calendar,
  \<open>fromisoformat\<close>, \<open>strptime\<close> and \<open>strftime\<close> (\<open>utils/dt.py\<close>); an instant is its distance in microseconds from
  year 1, and reading back what was written holds for the years 1000 to 9999, where \<open>%Y\<close> has four
  digits. \<open>Py_Glob\<close>: \<open>fnmatch\<close>. \<open>Py_Sort\<close>: stable sorting by the keys of the source; the lemmas on order ask
  for keys that are not NaN, which no order can place. \<open>Py_Arith\<close>: sums, quotients and rounding of floats.

  \<^bold>\<open>Components.\<close>
  \<^item> \<open>Store\<close> is \<open>repository/store.py\<close>: the record of collections, the activity, request and webhook logs,
    the listeners' version, and every method. It holds the invariant of all reachable stores (caps and log bounds), the
    exact effect of a save with eviction, and the newest-first logs.
  \<^item> \<open>Repository\<close> is \<open>repository/base.py\<close> and its subclasses over a store of values; the laws of reading
    after writing are the collection \<open>repo_laws\<close>.
  \<^item> \<open>Event_Bus\<close> is \<open>domain/event_bus.py\<close>; handlers are arbitrary steps that may raise. Delivery is
    exact and in registration order.
  \<^item> \<open>Responses\<close>, \<open>Arm\<close>, \<open>Vendor_Errors\<close> are the envelope builders \<open>utils/*_response.py\<close>,
    \<open>utils/sentinel/response.py\<close>, \<open>utils/vendor_errors.py\<close>: what a client can read out of them.
  \<^item> \<open>Traffic\<close> is \<open>api/middleware/rate_limit.py\<close> and \<open>fault_injection.py\<close>. The limiter with its evicting buckets
    refines a limiter that keeps the whole history; the limit holds in every window of 60 seconds.
  \<^item> \<open>Paging\<close> is the pagination of every vendor and \<open>If-Match\<close>. The locale \<open>paged_walk\<close> is what a client relies on: it
    sees every record once, in order. A walk of the pages takes
    the fuel \<open>Suc (length items)\<close>, which is enough because every page before the last has a record. \<open>Page_Walks\<close> shows
    it of whole requests, from the URL to the body and the link in it, for Graph's directory roles and their members
    (\<open>application/graph/directory\<close>), Sentinel's indicators (\<open>application/sentinel/queries/threat_intel.py\<close>) and the notes of a
    SentinelOne threat; the locale \<open>cursor_links\<close> is the contract of a kind of link. \<open>Cs_Hosts\<close> shows it of the scroll of
    the Falcon hosts.
  \<^item> \<open>Fql\<close> is \<open>utils/cs_fql.py\<close>: a printed filter is read back and keeps exactly the records it
    describes; the linear stripping of parentheses equals the reference that peels one pair at a time.
  \<^item> \<open>S1_Filter\<close> is \<open>utils/filtering.py\<close> and \<open>utils/filter_selection.py\<close>: a filtered listing is the
    conjunction of its parameters, sorting is stable, a write selects what the listing shows.
  \<^item> \<open>Auth\<close> is the authentication of the SentinelOne, Falcon, Defender and Cortex mounts. The locale of a token
    mount gives the life of a token once for the three token APIs.
  \<^item> \<open>Dev_State\<close> is what \<open>reset\<close> and \<open>_import_state_locked\<close> of \<open>application/dev/commands.py\<close> do to the store: which
    credentials they carry over to the state they load, the loaded state being an argument.
  \<^item> \<open>Users\<close> is \<open>application/users/commands.py\<close>: in every state its commands, imports and resets reach, authority is current,
    but for tokens the last load left behind.
  \<^item> \<open>Egress\<close> (\<open>utils/egress.py\<close>) and \<open>Webhooks\<close> (\<open>application/webhooks\<close>): where the service may send, what it queues and
    signs, and how often a delivery is tried.
  \<^item> \<open>World\<close> is what a command changes: the store, the events \<open>application/bridge.py\<close> publishes, the deliveries
    queued, and the activity repository. \<open>Settling\<close> is \<open>application/settling.py\<close>: the locale \<open>device_action\<close> is the
    contract of an action that finishes on the device's time, interpreted by Falcon, Elastic, Cortex and Defender.
  \<^item> \<open>Cs_Hosts\<close>, \<open>Es_Endpoints\<close>, \<open>Agents\<close>, \<open>Xdr_Endpoints\<close>, \<open>Mde_Machines\<close> are the managed devices of five
    vendors under \<open>application\<close>: their commands and listings, and the life of an isolation, containment or
    response action as a client polling it sees it. \<open>Agents\<close> specifies an action turn by turn, one for each existing agent the
    request names. In \<open>Mde_Machines\<close> the requests are an inductive step relation, over which
    no machine ever has two pending actions of one guarded type.
  \<^item> \<open>Documented_Filters\<close> is the table of \<open>application/documented_filters.py\<close>; \<open>Xdr_Filter\<close> is \<open>utils/xdr_filters.py\<close>.
  \<^item> \<open>Odata\<close> is \<open>utils/mde_odata.py\<close>: the parser accepts exactly its grammar, and a printed filter is read back and
    keeps the records it describes. The loop over the operands of a level takes the tokens left as fuel; that
    this is enough is part of \<open>parser_exact\<close>.
  \<^item> \<open>Mde_Resources\<close>, \<open>Mde_Catalogue\<close>, \<open>Mde_Alerts\<close> are the Defender resources: completion to the documented shape,
    listings, and the batch updates.
  \<^item> \<open>Kql\<close> is \<open>utils/mde_kql.py\<close> and \<open>utils/safe_regex.py\<close>: filters read back, operators, aggregations. Its chain of operands
    runs on the tokens left as fuel, shown enough by \<open>predicate_no_fuel\<close>. \<open>Hunting\<close> is
    \<open>application/mde_advanced_hunting\<close> and Graph's action over it.
  \<^item> \<open>Expiry\<close> holds what the components share that keep records for a while: the walk that removes the dead ones of a
    collection, and the locale \<open>expiring_use\<close>, in which a client cannot tell when, or whether, the sweep ran.
    \<open>Splunk_Auth\<close> is \<open>api/splunk_auth.py\<close>, whose sessions live on idle time; \<open>Search_Jobs\<close> is the life of a Splunk search
    job, with its clock and its control actions. Both interpret the locale.
  \<^item> \<open>Hec\<close> is the HTTP Event Collector: a batch is stored whole or refused, and an acknowledgement is collected once.

  The theorems that speak of several components stand in the theory of the last of them: a hunt and the REST resources in
  \<open>Hunting\<close>, a listing and the vendor's pages in \<open>Cs_Hosts\<close>, a selection and its settling in \<open>Xdr_Endpoints\<close>.

  \<^bold>\<open>Conventions.\<close> What a function draws from outside (clock, random ids, trace ids, the body of
  a fixture file, the validators of the web framework, the engine of regular expressions) is an argument. Exceptions that escape and
  HTTP answers that are raised are values of sum types. Definitions compute. A theorem about deadlines ranges over the
  instants Python can represent (before the year 10000), where adding a wait cannot raise.

  \<^bold>\<open>Not modelled.\<close> The other query engines (SPL, the Elasticsearch DSL, ES|QL, painless, XQL), the routers and DTOs
  except where a theory names one, the tables of documented bodies, the seeders, signed Entra tokens, the Graph and Sentinel
  application layers except the hunting action, the directory roles and the indicators, the zip file of a file collection, threads and locks (every operation of the
  store runs under one lock and is one step here), the interpreter's recursion limit, outgoing HTTP, the frontend
  and the developer tools.
\<close>

end
